(* ===== verification/Prelude.thy ===== *)
theory Prelude
  imports Main "HOL-Library.Multiset" "HOL-Library.List_Lexorder" "HOL-Library.Char_ord"
begin

text \<open>
  Shared vocabulary of the development: Go's \<open>(value, error)\<close> results as sums with a
  sequencing combinator, \<open>strings.TrimSpace\<close>, \<open>sort.Slice\<close> over a strict comparator, the
  row operations that the SQL statements of the stores perform, and a generic notion of
  reachable state with its invariant rule.
\<close>

section \<open>Collections of facts\<close>

named_theorems result_simps \<open>sequencing of results\<close>
named_theorems row_simps \<open>membership and keys of updated tables\<close>

section \<open>Time\<close>

text \<open>
  An instant is the number of nanoseconds since Go's zero \<open>time.Time\<close> (the first of January
  of the year 1, UTC), so that \<open>IsZero\<close> is \<open>= 0\<close>, \<open>Before\<close> is \<open><\<close> and \<open>Sub\<close> is the difference.
\<close>

type_synonym time = int

section \<open>Results\<close>

fun and_then :: "'e + 'a \<Rightarrow> ('a \<Rightarrow> 'e + 'b) \<Rightarrow> 'e + 'b" where
  "and_then (Inl e) f = Inl e"
| "and_then (Inr v) f = f v"

lemma and_then_Inr_iff [result_simps]:
  "and_then r f = Inr y \<longleftrightarrow> (\<exists>v. r = Inr v \<and> f v = Inr y)"
  by (cases r) auto

lemma and_then_Inl_iff [result_simps]:
  "and_then r f = Inl e \<longleftrightarrow> r = Inl e \<or> (\<exists>v. r = Inr v \<and> f v = Inl e)"
  by (cases r) auto

fun is_ok :: "'e + 'a \<Rightarrow> bool" where
  "is_ok (Inl e) = False"
| "is_ok (Inr v) = True"

lemma is_ok_iff [result_simps]: "is_ok r \<longleftrightarrow> (\<exists>v. r = Inr v)"
  by (cases r) auto

text \<open>The check of a list, in order, stopping at the first error (a \<open>for\<close> loop over validations).\<close>

fun check_all :: "('a \<Rightarrow> 'e + unit) \<Rightarrow> 'a list \<Rightarrow> 'e + unit" where
  "check_all c [] = Inr ()"
| "check_all c (x # xs) = and_then (c x) (\<lambda>_. check_all c xs)"

lemma check_all_ok [result_simps]: "check_all c xs = Inr u \<longleftrightarrow> (\<forall>x\<in>set xs. c x = Inr ())"
  by (induction xs) (auto simp: result_simps)

text \<open>A query loop that converts each row and stops at the first row that cannot be read.\<close>

fun traverse :: "('a \<Rightarrow> 'e + 'b) \<Rightarrow> 'a list \<Rightarrow> 'e + 'b list" where
  "traverse f [] = Inr []"
| "traverse f (x # xs) = and_then (f x) (\<lambda>y. and_then (traverse f xs) (\<lambda>ys. Inr (y # ys)))"

lemma traverse_total [result_simps]:
  "(\<And>x. x \<in> set xs \<Longrightarrow> f x = Inr (g x)) \<Longrightarrow> traverse f xs = Inr (map g xs)"
  by (induction xs) auto

lemma traverse_Inr_length: "traverse f xs = Inr ys \<Longrightarrow> length ys = length xs"
  by (induction xs arbitrary: ys) (auto simp: result_simps)

lemma ex_unit_iff [simp]: "(\<exists>u::unit. P u) \<longleftrightarrow> P ()"
  by (metis unit.exhaust)

section \<open>Strings\<close>

text \<open>
  A Go string is its sequence of bytes. \<open>strings.TrimSpace\<close> is modelled on its ASCII fast
  path: the six ASCII space characters are cut on both sides.
\<close>

definition is_space :: "char \<Rightarrow> bool" where
  "is_space c \<longleftrightarrow> c \<in> {CHR 0x09, CHR 0x0A, CHR 0x0B, CHR 0x0C, CHR 0x0D, CHR '' ''}"

definition trim_space :: "string \<Rightarrow> string" where
  "trim_space s = rev (dropWhile is_space (rev (dropWhile is_space s)))"

lemma trim_space_Nil [simp]: "trim_space [] = []"
  by (simp add: trim_space_def)

lemma dropWhile_snoc_id: "xs \<noteq> [] \<Longrightarrow> \<not> P (last xs) \<Longrightarrow> rev (dropWhile P (rev xs)) = xs"
  by (cases xs rule: rev_cases) auto

lemma trim_space_hd: "trim_space s \<noteq> [] \<Longrightarrow> \<not> is_space (hd (trim_space s))"
proof -
  assume ne: "trim_space s \<noteq> []"
  define t where "t = dropWhile is_space s"
  have tne: "t \<noteq> []"
  proof
    assume "t = []"
    then have "trim_space s = []" unfolding trim_space_def t_def[symmetric] by simp
    with ne show False by simp
  qed
  then have hdt: "\<not> is_space (hd t)" unfolding t_def by (rule hd_dropWhile)
  obtain w where w: "t = trim_space s @ w"
  proof -
    have "rev t = takeWhile is_space (rev t) @ dropWhile is_space (rev t)" by simp
    then have "t = rev (dropWhile is_space (rev t)) @ rev (takeWhile is_space (rev t))"
      by (metis rev_append rev_rev_ident)
    then show ?thesis using that by (simp add: trim_space_def t_def)
  qed
  show ?thesis using hdt ne w by simp
qed

lemma trim_space_last: "trim_space s \<noteq> [] \<Longrightarrow> \<not> is_space (last (trim_space s))"
  by (simp add: trim_space_def last_rev hd_dropWhile)

lemma trim_space_idem [simp]: "trim_space (trim_space s) = trim_space s"
proof (cases "trim_space s = []")
  case True
  then show ?thesis by simp
next
  case False
  then have "dropWhile is_space (trim_space s) = trim_space s"
    using trim_space_hd[OF False] by (cases "trim_space s") auto
  then show ?thesis
    using False trim_space_last dropWhile_snoc_id by (metis trim_space_def)
qed

text \<open>\<open>strconv.Itoa\<close> and the \<open>%d\<close> verb.\<close>

fun show_nat :: "nat \<Rightarrow> string" where
  "show_nat n = (if n < 10 then [char_of (48 + n)] else show_nat (n div 10) @ [char_of (48 + n mod 10)])"

declare show_nat.simps [simp del]

definition show_int :: "int \<Rightarrow> string" where
  "show_int i = (if i < 0 then ''-'' @ show_nat (nat (- i)) else show_nat (nat i))"

text \<open>\<open>strings.ToLower\<close> on ASCII, and \<open>strings.Join\<close>.\<close>

definition to_lower_char :: "char \<Rightarrow> char" where
  "to_lower_char c = (if 65 \<le> (of_char c :: nat) \<and> (of_char c :: nat) \<le> 90 then char_of ((of_char c :: nat) + 32) else c)"

definition to_lower :: "string \<Rightarrow> string" where
  "to_lower s = map to_lower_char s"

definition join :: "string \<Rightarrow> string list \<Rightarrow> string" where
  "join sep xs = (case xs of [] \<Rightarrow> '''' | x # ys \<Rightarrow> x @ concat (map (\<lambda>y. sep @ y) ys))"

text \<open>\<open>strings.Contains\<close>.\<close>

definition contains :: "string \<Rightarrow> string \<Rightarrow> bool" where
  "contains s part \<longleftrightarrow> list_ex (\<lambda>i. take (length part) (drop i s) = part) [0..<length s + 1]"

section \<open>Sorting with a comparator\<close>

text \<open>
  \<open>sort.Slice\<close> with a strict comparator. Go's algorithm is not specified beyond its result being
  sorted; on the slices of this program the comparator \<open>lt\<close> is a strict order that separates any two
  elements with different keys, and \<open>sort_order.sorted_unique\<close> below shows that then there
  is only one sorted arrangement, so insertion sort gives the result Go gives.
\<close>

fun insert_by :: "('a \<Rightarrow> 'a \<Rightarrow> bool) \<Rightarrow> 'a \<Rightarrow> 'a list \<Rightarrow> 'a list" where
  "insert_by lt x [] = [x]"
| "insert_by lt x (y # ys) = (if lt y x then y # insert_by lt x ys else x # y # ys)"

fun sort_slice :: "('a \<Rightarrow> 'a \<Rightarrow> bool) \<Rightarrow> 'a list \<Rightarrow> 'a list" where
  "sort_slice lt [] = []"
| "sort_slice lt (x # xs) = insert_by lt x (sort_slice lt xs)"

lemma mset_insert_by [simp]: "mset (insert_by lt x xs) = add_mset x (mset xs)"
  by (induction xs) auto

lemma mset_sort_slice [simp]: "mset (sort_slice lt xs) = mset xs"
  by (induction xs) auto

lemma set_sort_slice [simp]: "set (sort_slice lt xs) = set xs"
  by (metis mset_sort_slice set_mset_mset)

lemma set_insert_by [simp]: "set (insert_by lt x xs) = insert x (set xs)"
  by (metis mset_insert_by set_mset_add_mset_insert set_mset_mset)

lemma length_sort_slice [simp]: "length (sort_slice lt xs) = length xs"
  by (metis mset_sort_slice size_mset)

lemma sort_slice_Nil_iff [simp]: "sort_slice lt xs = [] \<longleftrightarrow> xs = []"
  by (metis length_0_conv length_sort_slice)

lemma distinct_map_mset: "mset xs = mset ys \<Longrightarrow> distinct (map f xs) \<Longrightarrow> distinct (map f ys)"
  by (metis mset_eq_imp_distinct_iff mset_map)

lemma distinct_map_sort_slice [simp]:
  "distinct (map f (sort_slice lt xs)) \<longleftrightarrow> distinct (map f xs)"
  using distinct_map_mset mset_sort_slice by metis

locale sort_order =
  fixes lt :: "'a \<Rightarrow> 'a \<Rightarrow> bool"
    and key :: "'a \<Rightarrow> 'k"
    and ok :: "'a \<Rightarrow> bool"
  assumes less_irrefl: "\<not> lt x x"
    and less_trans: "lt x y \<Longrightarrow> lt y z \<Longrightarrow> lt x z"
    and less_total: "ok x \<Longrightarrow> ok y \<Longrightarrow> key x \<noteq> key y \<Longrightarrow> lt x y \<or> lt y x"
begin

lemma less_asym: "lt x y \<Longrightarrow> \<not> lt y x"
  using less_irrefl less_trans by blast

lemma insert_by_sorted:
  assumes "sorted_wrt lt xs" and "key x \<notin> key ` set xs" and "\<forall>y\<in>set (x # xs). ok y"
  shows "sorted_wrt lt (insert_by lt x xs)"
  using assms
proof (induction xs)
  case Nil
  then show ?case by simp
next
  case (Cons y ys)
  then have "lt x y \<or> lt y x" by (intro less_total) auto
  with Cons show ?case by (auto intro: less_trans)
qed

lemma sorted_sort: "\<forall>x\<in>set xs. ok x \<Longrightarrow> distinct (map key xs) \<Longrightarrow> sorted_wrt lt (sort_slice lt xs)"
  by (induction xs) (auto intro!: insert_by_sorted)

lemma sorted_unique:
  "sorted_wrt lt xs \<Longrightarrow> sorted_wrt lt ys \<Longrightarrow> mset xs = mset ys \<Longrightarrow> xs = ys"
proof (induction xs arbitrary: ys)
  case Nil
  then show ?case by simp
next
  case (Cons x xs)
  then obtain y zs where ys: "ys = y # zs" by (cases ys) auto
  have "x = y"
  proof (rule ccontr)
    assume "x \<noteq> y"
    moreover have "x \<in> set ys" "y \<in> set (x # xs)"
      using Cons.prems(3) ys by (metis list.set_intros(1) mset_eq_setD)+
    ultimately have "lt y x" "lt x y" using Cons.prems ys by auto
    then show False using less_asym by blast
  qed
  then show ?case using Cons ys by auto
qed

lemma sort_eqI:
  "\<forall>x\<in>set xs. ok x \<Longrightarrow> distinct (map key xs) \<Longrightarrow> mset ys = mset xs \<Longrightarrow> sorted_wrt lt ys \<Longrightarrow> sort_slice lt xs = ys"
  by (rule sorted_unique) (auto intro: sorted_sort)

lemma sort_perm:
  assumes "\<forall>x\<in>set xs. ok x" and "distinct (map key xs)" and eq: "mset xs = mset ys"
  shows "sort_slice lt xs = sort_slice lt ys"
proof (rule sort_eqI[OF assms(1,2)])
  have "\<forall>x\<in>set ys. ok x" using assms(1) mset_eq_setD[OF eq] by simp
  moreover have "distinct (map key ys)" using assms(2) eq by (metis distinct_map_mset)
  ultimately show "sorted_wrt lt (sort_slice lt ys)" by (rule sorted_sort)
qed (simp add: eq)

lemma hd_sort_least:
  assumes "\<forall>x\<in>set xs. ok x" and "distinct (map key xs)" and "sort_slice lt xs = y # ys"
    and "x \<in> set xs" and "x \<noteq> y"
  shows "lt y x"
proof -
  have "sorted_wrt lt (y # ys)" using sorted_sort[OF assms(1,2)] assms(3) by simp
  moreover have "x \<in> set ys" using assms(3-5) set_sort_slice[of lt xs] by auto
  ultimately show ?thesis by simp
qed

end

section \<open>Rows of a table\<close>

text \<open>
  A table is the list of its rows. \<open>update_where\<close> is \<open>UPDATE .. SET .. WHERE\<close>;
  \<open>List.find\<close> is a query by primary key; \<open>filter\<close> is \<open>SELECT .. WHERE\<close>.
\<close>

definition update_where :: "('r \<Rightarrow> bool) \<Rightarrow> ('r \<Rightarrow> 'r) \<Rightarrow> 'r list \<Rightarrow> 'r list" where
  "update_where p f rows = map (\<lambda>r. if p r then f r else r) rows"

lemma update_where_Nil [simp]: "update_where p f [] = []"
  by (simp add: update_where_def)

lemma update_where_Cons [simp]:
  "update_where p f (r # rs) = (if p r then f r else r) # update_where p f rs"
  by (simp add: update_where_def)

lemma set_update_where [row_simps]:
  "r \<in> set (update_where p f rows) \<longleftrightarrow> (\<exists>q\<in>set rows. r = (if p q then f q else q))"
  by (auto simp: update_where_def)

lemma ball_update_where [row_simps]:
  "(\<forall>r\<in>set (update_where p f rows). P r) \<longleftrightarrow> (\<forall>q\<in>set rows. P (if p q then f q else q))"
  by (auto simp: update_where_def)

lemma map_key_update_where [row_simps]:
  "(\<And>r. k (f r) = k r) \<Longrightarrow> map k (update_where p f rows) = map k rows"
  by (induction rows) auto

lemma length_update_where [row_simps]: "length (update_where p f rows) = length rows"
  by (simp add: update_where_def)

lemma update_where_none: "(\<And>r. r \<in> set rows \<Longrightarrow> \<not> p r) \<Longrightarrow> update_where p f rows = rows"
  by (induction rows) auto

lemma find_update_where:
  "(\<And>r. k (f r) = k r) \<Longrightarrow>
   List.find (\<lambda>r. k r = x) (update_where p f rows) =
   map_option (\<lambda>r. if p r then f r else r) (List.find (\<lambda>r. k r = x) rows)"
  by (induction rows) auto

lemma find_SomeD: "List.find P xs = Some x \<Longrightarrow> x \<in> set xs \<and> P x"
  by (auto simp: find_Some_iff)

lemma find_key_None: "List.find (\<lambda>r. k r = x) rows = None \<longleftrightarrow> x \<notin> k ` set rows"
  by (auto simp: find_None_iff)

lemma find_key_Some: "List.find (\<lambda>r. k r = x) rows = Some r \<Longrightarrow> r \<in> set rows \<and> k r = x \<and> x \<in> k ` set rows"
  by (auto dest!: find_SomeD)

lemma find_distinct:
  "distinct (map k rows) \<Longrightarrow> r \<in> set rows \<Longrightarrow> List.find (\<lambda>q. k q = k r) rows = Some r"
proof (induction rows)
  case (Cons q qs)
  then show ?case by (cases "q = r") (auto simp: rev_image_eqI)
qed simp

lemma find_append_none:
  "List.find P xs = None \<Longrightarrow> List.find P (xs @ ys) = List.find P ys"
  by (induction xs) (auto split: if_splits)

lemma find_append_some:
  "List.find P xs = Some x \<Longrightarrow> List.find P (xs @ ys) = Some x"
  by (induction xs) (auto split: if_splits)

lemma inj_on_key_eq: "distinct (map k rows) \<Longrightarrow> r \<in> set rows \<Longrightarrow> q \<in> set rows \<Longrightarrow> k r = k q \<Longrightarrow> r = q"
  by (metis distinct_map inj_onD)

section \<open>Reachable states\<close>

text \<open>
  The states that any number of steps reaches from an initial one. \<open>transition_system\<close> is the
  contract between a component's operations and its invariant: whoever proves the two laws
  gets the invariant of every reachable state.
\<close>

inductive reachable :: "('s \<Rightarrow> bool) \<Rightarrow> ('s \<Rightarrow> 's \<Rightarrow> bool) \<Rightarrow> 's \<Rightarrow> bool"
  for init :: "'s \<Rightarrow> bool" and step :: "'s \<Rightarrow> 's \<Rightarrow> bool" where
  reach_init: "init s \<Longrightarrow> reachable init step s"
| reach_step: "reachable init step s \<Longrightarrow> step s t \<Longrightarrow> reachable init step t"

locale transition_system =
  fixes init :: "'s \<Rightarrow> bool"
    and step :: "'s \<Rightarrow> 's \<Rightarrow> bool"
    and inv :: "'s \<Rightarrow> bool"
  assumes inv_init: "init s \<Longrightarrow> inv s"
    and inv_step: "inv s \<Longrightarrow> step s t \<Longrightarrow> inv t"
begin

lemma reachable_inv: "reachable init step s \<Longrightarrow> inv s"
  by (induction rule: reachable.induct) (auto intro: inv_init inv_step)

end

end
