(* ===== verification/Json.thy ===== *)
theory Json
  imports Complex_Main Prelude "HOL-Library.AList"
begin

text \<open>
  Decoded JSON values, and tables: what the program keeps in a Go map with string keys.

  A map is the list of its entries with distinct keys. Go iterates over a map in an arbitrary order; a loop of the
  model runs in the order of the list. A missing key of a JSON object reads as \<open>nil\<close>, which is also what a JSON null
  decodes to. A number is the rational that a \<open>float64\<close> stands for.
\<close>

section \<open>Values\<close>

datatype json = JNull | JBool bool | JNum rat | JStr string | JArr "json list" | JObj "(string \<times> json) list"

type_synonym json_object = "(string \<times> json) list"

definition field_or_nil :: "json_object \<Rightarrow> string \<Rightarrow> json" where
  "field_or_nil m k = (case map_of m k of Some v \<Rightarrow> v | None \<Rightarrow> JNull)"

definition has_field :: "json_object \<Rightarrow> string \<Rightarrow> bool" where
  "has_field m k \<longleftrightarrow> map_of m k \<noteq> None"

text \<open>Type assertions \<open>v.(T)\<close>: \<open>None\<close> when the value has another type.\<close>

fun as_object :: "json \<Rightarrow> json_object option" where
  "as_object (JObj m) = Some m"
| "as_object _ = None"

fun as_array :: "json \<Rightarrow> json list option" where
  "as_array (JArr xs) = Some xs"
| "as_array _ = None"

fun as_string :: "json \<Rightarrow> string option" where
  "as_string (JStr s) = Some s"
| "as_string _ = None"

fun as_bool :: "json \<Rightarrow> bool option" where
  "as_bool (JBool b) = Some b"
| "as_bool _ = None"

text \<open>Optional values the way \<open>encoding/json\<close> writes a pointer and a slice of strings.\<close>

definition json_option :: "('a \<Rightarrow> json) \<Rightarrow> 'a option \<Rightarrow> json" where
  "json_option f v = (case v of None \<Rightarrow> JNull | Some x \<Rightarrow> f x)"

definition json_strings :: "string list \<Rightarrow> json" where
  "json_strings xs = JArr (map JStr xs)"

section \<open>Tables\<close>

type_synonym 'v table = "(string \<times> 'v) list"

abbreviation put :: "string \<Rightarrow> 'v \<Rightarrow> 'v table \<Rightarrow> 'v table" where
  "put \<equiv> AList.update"

abbreviation del :: "string \<Rightarrow> 'v table \<Rightarrow> 'v table" where
  "del \<equiv> AList.delete"

abbreviation adjust :: "string \<Rightarrow> ('v \<Rightarrow> 'v) \<Rightarrow> 'v table \<Rightarrow> 'v table" where
  "adjust \<equiv> AList.map_entry"

abbreviation keys_distinct :: "'v table \<Rightarrow> bool" where
  "keys_distinct t \<equiv> distinct (map fst t)"

named_theorems table_simps \<open>lookups and keys of updated tables\<close>

lemma map_of_put [table_simps]: "map_of (put k v t) = (map_of t)(k \<mapsto> v)"
  by (rule update_conv')

lemma map_of_del [table_simps]: "map_of (del k t) = (map_of t)(k := None)"
  by (rule delete_conv')

lemma map_of_adjust [table_simps]: "map_of (adjust k f t) = (map_of t)(k := map_option f (map_of t k))"
  by (simp add: map_of_map_entry option.map_comp map_option_case)

lemma keys_put [table_simps]: "keys_distinct t \<Longrightarrow> keys_distinct (put k v t)"
  by (rule distinct_update)

lemma keys_del [table_simps]: "keys_distinct t \<Longrightarrow> keys_distinct (del k t)"
  by (rule distinct_delete)

lemma keys_adjust [table_simps]: "keys_distinct t \<Longrightarrow> keys_distinct (adjust k f t)"
  by (rule distinct_map_entry)

lemma entry_lookup: "keys_distinct t \<Longrightarrow> (k, v) \<in> set t \<longleftrightarrow> map_of t k = Some v"
  by (auto simp: map_of_eq_Some_iff)

lemma map_of_filter_values:
  "keys_distinct t \<Longrightarrow> map_of (filter (\<lambda>(k, v). P v) t) k = (case map_of t k of Some v \<Rightarrow> if P v then Some v else None | None \<Rightarrow> None)"
proof (induction t)
  case (Cons e t)
  obtain k' v where e: "e = (k', v)" by fastforce
  have "map_of t k' = None" using Cons.prems e by (auto simp: map_of_eq_None_iff)
  then show ?case using Cons e by (auto split: option.split)
qed simp

lemma keys_filter: "keys_distinct t \<Longrightarrow> keys_distinct (filter P t)"
  by (rule distinct_map_filter)

lemma map_of_map_values: "map_of (map (\<lambda>(k, v). (k, f v)) t) k = map_option f (map_of t k)"
  by (induction t) auto

lemma keys_map_values: "map fst (map (\<lambda>(k, v). (k, f v)) t) = map fst t"
  by (induction t) auto

end
