(* ===== verification/ResultState.thy ===== *)
theory ResultState
  imports Prelude
begin

text \<open>
  Operations on a state that return a value or an error, the way the Go methods of this program do: what was
  written before an error stays written. \<open>seq\<close> is a call followed by \<open>if err != nil { return err }\<close>.
  \<open>triple P m Q E\<close> is the Hoare triple of such an operation, with one postcondition for a
  normal return and one for an error return.
\<close>

section \<open>Operations\<close>

type_synonym ('s, 'e, 'a) op = "'s \<Rightarrow> ('e + 'a) \<times> 's"

definition return_ok :: "'a \<Rightarrow> ('s, 'e, 'a) op" where
  "return_ok v s = (Inr v, s)"

definition return_err :: "'e \<Rightarrow> ('s, 'e, 'a) op" where
  "return_err e s = (Inl e, s)"

definition of_result :: "'e + 'a \<Rightarrow> ('s, 'e, 'a) op" where
  "of_result r s = (r, s)"

definition seq :: "('s, 'e, 'a) op \<Rightarrow> ('a \<Rightarrow> ('s, 'e, 'b) op) \<Rightarrow> ('s, 'e, 'b) op" where
  "seq m f s = (case m s of (Inl e, t) \<Rightarrow> (Inl e, t) | (Inr v, t) \<Rightarrow> f v t)"

text \<open>A call whose error is wrapped (\<open>fmt.Errorf\<close> with \<open>%w\<close>), and one whose result is dropped (\<open>_ = call()\<close>).\<close>

definition map_err :: "('e \<Rightarrow> 'f) \<Rightarrow> ('s, 'e, 'a) op \<Rightarrow> ('s, 'f, 'a) op" where
  "map_err h m s = (case m s of (Inl e, t) \<Rightarrow> (Inl (h e), t) | (Inr v, t) \<Rightarrow> (Inr v, t))"

definition ignore_result :: "('s, 'e, 'a) op \<Rightarrow> ('s, 'f, unit) op" where
  "ignore_result m s = (Inr (), snd (m s))"

text \<open>A loop over calls that stops at the first error.\<close>

fun for_each :: "('a \<Rightarrow> ('s, 'e, unit) op) \<Rightarrow> 'a list \<Rightarrow> ('s, 'e, unit) op" where
  "for_each f [] = return_ok ()"
| "for_each f (x # xs) = seq (f x) (\<lambda>_. for_each f xs)"

text \<open>
  A transaction: an error undoes what was written. \<open>over\<close> is the error of a context that is already done, with
  which nothing runs.
\<close>

definition transaction :: "'e option \<Rightarrow> ('s, 'e, 'a) op \<Rightarrow> ('s, 'e, 'a) op" where
  "transaction over m s = (case over of Some e \<Rightarrow> (Inl e, s)
     | None \<Rightarrow> (case m s of (Inl e, t) \<Rightarrow> (Inl e, s) | (Inr v, t) \<Rightarrow> (Inr v, t)))"

lemma transaction_Inr_iff [simp]:
  "transaction over m s = (Inr v, t) \<longleftrightarrow> over = None \<and> m s = (Inr v, t)"
  by (auto simp: transaction_def split: option.splits prod.splits sum.splits)

lemma transaction_InlD: "transaction over m s = (Inl e, t) \<Longrightarrow> t = s"
  by (auto simp: transaction_def split: option.splits prod.splits sum.splits)

text \<open>A call whose error the caller handles itself.\<close>

definition attempt :: "('s, 'e, 'a) op \<Rightarrow> ('e + 'a \<Rightarrow> ('s, 'f, 'b) op) \<Rightarrow> ('s, 'f, 'b) op" where
  "attempt m f s = (case m s of (r, t) \<Rightarrow> f r t)"

text \<open>A \<open>for\<close> loop that appends each result and stops at the first error, keeping what it has.\<close>

fun collect :: "('a \<Rightarrow> ('s, 'e, 'b) op) \<Rightarrow> 'a list \<Rightarrow> 's \<Rightarrow> 'b list \<times> 'e option \<times> 's" where
  "collect f [] s = ([], None, s)"
| "collect f (x # xs) s = (case f x s of
     (Inl e, t) \<Rightarrow> ([], Some e, t)
   | (Inr y, t) \<Rightarrow> (case collect f xs t of (ys, err, u) \<Rightarrow> (y # ys, err, u)))"

lemma seq_simps [simp]:
  "m s = (Inl e, t) \<Longrightarrow> seq m f s = (Inl e, t)"
  "m s = (Inr v, t) \<Longrightarrow> seq m f s = f v t"
  by (simp_all add: seq_def)

lemma seq_cases:
  assumes "seq m f s = (r, u)"
  obtains (failed) e where "m s = (Inl e, u)" and "r = Inl e"
  | (returned) v t where "m s = (Inr v, t)" and "f v t = (r, u)"
proof (cases "m s")
  case (Pair x t)
  then show ?thesis using assms failed returned by (cases x) (auto simp: seq_def)
qed

lemma seq_Inr_iff:
  "seq m f s = (Inr y, u) \<longleftrightarrow> (\<exists>v t. m s = (Inr v, t) \<and> f v t = (Inr y, u))"
  by (auto simp: seq_def split: prod.splits sum.splits)

section \<open>Triples\<close>

definition triple ::
  "('s \<Rightarrow> bool) \<Rightarrow> ('s, 'e, 'a) op \<Rightarrow> ('a \<Rightarrow> 's \<Rightarrow> bool) \<Rightarrow> ('e \<Rightarrow> 's \<Rightarrow> bool) \<Rightarrow> bool" where
  "triple P m Q E \<longleftrightarrow> (\<forall>s. P s \<longrightarrow> (case m s of (Inl e, t) \<Rightarrow> E e t | (Inr v, t) \<Rightarrow> Q v t))"

named_theorems keeps_intros \<open>rules that show an invariant kept, along the operation\<close>

lemma tripleI:
  assumes "\<And>s v t. P s \<Longrightarrow> m s = (Inr v, t) \<Longrightarrow> Q v t"
    and "\<And>s e t. P s \<Longrightarrow> m s = (Inl e, t) \<Longrightarrow> E e t"
  shows "triple P m Q E"
  using assms by (force simp: triple_def split: prod.split sum.split)

lemma triple_InrD: "triple P m Q E \<Longrightarrow> P s \<Longrightarrow> m s = (Inr v, t) \<Longrightarrow> Q v t"
  by (force simp: triple_def)

lemma triple_InlD: "triple P m Q E \<Longrightarrow> P s \<Longrightarrow> m s = (Inl e, t) \<Longrightarrow> E e t"
  by (force simp: triple_def)

lemma triple_seq:
  assumes "triple P m M E" and "\<And>v. triple (M v) (f v) Q E"
  shows "triple P (seq m f) Q E"
proof (rule tripleI)
  fix s v t
  assume "P s" "seq m f s = (Inr v, t)"
  then show "Q v t" using assms by (auto simp: seq_Inr_iff dest: triple_InrD)
next
  fix s e t
  assume P: "P s" and res: "seq m f s = (Inl e, t)"
  from res show "E e t"
    by (cases rule: seq_cases) (use P assms in \<open>auto dest: triple_InrD triple_InlD\<close>)
qed

lemma triple_conseq:
  assumes "triple P' m Q' E'" and "\<And>s. P s \<Longrightarrow> P' s" and "\<And>v t. Q' v t \<Longrightarrow> Q v t" and "\<And>e t. E' e t \<Longrightarrow> E e t"
  shows "triple P m Q E"
  using assms by (intro tripleI) (blast dest: triple_InrD triple_InlD)+

lemma triple_return_ok: "(\<And>s. P s \<Longrightarrow> Q v s) \<Longrightarrow> triple P (return_ok v) Q E"
  by (simp add: triple_def return_ok_def)

lemma triple_return_err: "(\<And>s. P s \<Longrightarrow> E e s) \<Longrightarrow> triple P (return_err e) Q E"
  by (simp add: triple_def return_err_def)

lemma triple_if:
  "(b \<Longrightarrow> triple P m Q E) \<Longrightarrow> (\<not> b \<Longrightarrow> triple P m' Q E) \<Longrightarrow> triple P (if b then m else m') Q E"
  by simp

lemma triple_map_err:
  "triple P m Q (\<lambda>e. E (h e)) \<Longrightarrow> triple P (map_err h m) Q E"
  by (force simp: triple_def map_err_def split: prod.splits sum.splits)

lemma triple_ignore:
  "triple P m (\<lambda>_. I) (\<lambda>_. I) \<Longrightarrow> triple P (ignore_result m) (\<lambda>_. I) E"
proof (rule tripleI)
  fix s v t
  assume "triple P m (\<lambda>_. I) (\<lambda>_. I)" "P s" "ignore_result m s = (Inr v, t)"
  then show "I t" by (cases "m s"; cases "fst (m s)") (auto simp: ignore_result_def dest: triple_InrD triple_InlD)
qed (simp add: ignore_result_def)

lemma triple_attempt:
  assumes "triple P m (\<lambda>v. M (Inr v)) (\<lambda>e. M (Inl e))" and "\<And>r. triple (M r) (f r) Q E"
  shows "triple P (attempt m f) Q E"
proof (rule tripleI)
  fix s v t
  assume P: "P s" and "attempt m f s = (Inr v, t)"
  then obtain r u where "m s = (r, u)" "f r u = (Inr v, t)"
    by (auto simp: attempt_def split: prod.splits)
  then show "Q v t" using assms P by (cases r) (auto dest: triple_InrD triple_InlD)
next
  fix s e t
  assume P: "P s" and "attempt m f s = (Inl e, t)"
  then obtain r u where "m s = (r, u)" "f r u = (Inl e, t)"
    by (auto simp: attempt_def split: prod.splits)
  then show "E e t" using assms P by (cases r) (auto dest: triple_InrD triple_InlD)
qed

text \<open>An operation that keeps an invariant whatever it returns.\<close>

abbreviation keeps :: "('s \<Rightarrow> bool) \<Rightarrow> ('s, 'e, 'a) op \<Rightarrow> bool" where
  "keeps I m \<equiv> triple I m (\<lambda>_. I) (\<lambda>_. I)"

lemma keepsI: "(\<And>s r t. I s \<Longrightarrow> m s = (r, t) \<Longrightarrow> I t) \<Longrightarrow> keeps I m"
  by (rule tripleI) blast+

lemma keepsD: "keeps I m \<Longrightarrow> I s \<Longrightarrow> m s = (r, t) \<Longrightarrow> I t"
  by (cases r) (auto dest: triple_InrD triple_InlD)

lemma keeps_of_result [keeps_intros]: "keeps I (of_result r)"
  by (rule keepsI) (simp add: of_result_def)

lemma keeps_case_option [keeps_intros]:
  "keeps I m \<Longrightarrow> (\<And>x. keeps I (f x)) \<Longrightarrow> keeps I (case v of None \<Rightarrow> m | Some x \<Rightarrow> f x)"
  by (cases v) simp_all

lemma keeps_case_sum [keeps_intros]:
  "(\<And>e. keeps I (g e)) \<Longrightarrow> (\<And>x. keeps I (f x)) \<Longrightarrow> keeps I (case v of Inl e \<Rightarrow> g e | Inr x \<Rightarrow> f x)"
  by (cases v) simp_all

lemma keeps_seq [keeps_intros]: "keeps I m \<Longrightarrow> (\<And>v. keeps I (f v)) \<Longrightarrow> keeps I (seq m f)"
  by (rule triple_seq)

lemma keeps_if [keeps_intros]: "(b \<Longrightarrow> keeps I m) \<Longrightarrow> (\<not> b \<Longrightarrow> keeps I m') \<Longrightarrow> keeps I (if b then m else m')"
  by (rule triple_if)

lemma keeps_return_ok [keeps_intros]: "keeps I (return_ok v)"
  by (rule triple_return_ok)

lemma keeps_return_err [keeps_intros]: "keeps I (return_err e)"
  by (rule triple_return_err)

lemma keeps_map_err [keeps_intros]: "keeps I m \<Longrightarrow> keeps I (map_err h m)"
  by (rule triple_map_err)

lemma keeps_ignore_result [keeps_intros]: "keeps I m \<Longrightarrow> keeps I (ignore_result m)"
  by (rule triple_ignore)

lemma keeps_attempt [keeps_intros]: "keeps I m \<Longrightarrow> (\<And>r. keeps I (f r)) \<Longrightarrow> keeps I (attempt m f)"
  by (rule triple_attempt)

lemma collect_keeps:
  assumes "\<And>x. x \<in> set xs \<Longrightarrow> keeps I (f x)" and "I s" and "collect f xs s = (ys, err, t)"
  shows "I t"
  using assms
proof (induction xs arbitrary: s ys)
  case (Cons x xs)
  obtain r u where u: "f x s = (r, u)" by fastforce
  then have "I u" using Cons.prems(1)[of x] Cons.prems(2) by (auto dest: keepsD)
  then show ?case using Cons u by (cases r) (auto split: prod.splits)
qed simp

lemma collect_length: "collect f xs s = (ys, err, t) \<Longrightarrow> length ys \<le> length xs"
  by (induction xs arbitrary: s ys) (fastforce split: prod.splits sum.splits)+

lemma collect_complete: "collect f xs s = (ys, None, t) \<Longrightarrow> length ys = length xs"
  by (induction xs arbitrary: s ys) (fastforce split: prod.splits sum.splits)+

lemma keeps_for_each [keeps_intros]: "(\<And>x. keeps I (f x)) \<Longrightarrow> keeps I (for_each f xs)"
  by (induction xs) (auto intro: keeps_intros)

lemma for_each_inv:
  assumes "\<And>x t u. x \<in> set xs \<Longrightarrow> I t \<Longrightarrow> f x t = (Inr (), u) \<Longrightarrow> I u"
    and "I s" and "for_each f xs s = (Inr (), t)"
  shows "I t"
  using assms
proof (induction xs arbitrary: s)
  case Nil
  then show ?case by (simp add: return_ok_def)
next
  case (Cons x xs)
  then show ?case by (auto simp: seq_Inr_iff)
qed

lemma keeps_transaction [keeps_intros]: "keeps I m \<Longrightarrow> keeps I (transaction over m)"
  by (rule keepsI) (auto simp: transaction_def split: option.splits prod.splits sum.splits dest: keepsD)

text \<open>What holds of the result for each element holds along the loop.\<close>

lemma collect_results:
  assumes "\<And>x s y t. x \<in> set xs \<Longrightarrow> f x s = (Inr y, t) \<Longrightarrow> R x y" and "collect f xs s = (ys, err, t)"
  shows "list_all2 R (take (length ys) xs) ys"
  using assms
proof (induction xs arbitrary: s ys)
  case (Cons x xs)
  obtain r u where "f x s = (r, u)" by fastforce
  then show ?case
    using Cons.prems Cons.IH[of u] by (cases r) (force split: prod.splits)+
qed simp

end
