(* ===== verification/PoolTypes.thy ===== *)
theory PoolTypes
  imports Json ResultState "HOL-Library.Signed_Division"
begin

text \<open>
  The data of the model pool (internal/poolgateway): its types (types.go, errors.go), the retry rules (retry.go), the
  accounting of usage and cost (usage.go, pricing.go) and the validation of a request (openai_responses.go).

  A decoded JSON value is a \<open>json\<close> (Json); Go's nil map and empty map are both the empty list. A \<open>float64\<close> is the
  rational number it stands for, and \<open>rnd\<close> is the rounding that every floating point operation ends with. Durations and instants are nanoseconds.
\<close>

section \<open>Values\<close>

datatype api_status = ApiStatusAvailable | ApiStatusLeased | ApiStatusOffline

datatype invocation_status = InvocationStatusRunning | InvocationStatusSuccess | InvocationStatusFailure

record route_policy =
  rp_api_id :: "string option"

record invoke_request =
  iq_request_id :: string
  iq_node_id :: string
  iq_request :: json_object
  iq_chat_request :: json_object
  iq_timeout_ms :: "int option"
  iq_route_policy :: route_policy
  iq_stream_sink :: bool

record usage_metrics =
  us_input_tokens :: "int option"
  us_output_tokens :: "int option"
  us_total_tokens :: "int option"
  us_cached_input_tokens :: "int option"
  us_reasoning_tokens :: "int option"
  us_latency_ms :: "int option"
  us_cost_usd :: "rat option"

record route_decision =
  rd_api_id :: string
  rd_provider :: string
  rd_model :: string

record gateway_error =
  ge_code :: string
  ge_message :: string
  ge_retryable :: bool
  ge_provider_status_code :: "int option"
  ge_details :: json_object

record invocation_timing =
  ti_started_at :: time
  ti_finished_at :: "time option"
  ti_latency_ms :: "int option"

record invocation_attempt =
  ia_attempt_id :: string
  ia_route :: route_decision
  ia_status :: invocation_status
  ia_timing :: invocation_timing
  ia_usage :: "usage_metrics option"
  ia_error :: "gateway_error option"

record invoke_response =
  iv_invocation_id :: string
  iv_request_id :: string
  iv_node_id :: string
  iv_status :: invocation_status
  iv_route :: "route_decision option"
  iv_response :: json_object
  iv_output_text :: "string option"
  iv_usage :: "usage_metrics option"
  iv_timing :: invocation_timing
  iv_error :: "gateway_error option"

record invocation_record =
  ir_invocation_id :: string
  ir_request :: invoke_request
  ir_status :: invocation_status
  ir_route :: "route_decision option"
  ir_response :: json_object
  ir_output_text :: "string option"
  ir_usage :: "usage_metrics option"
  ir_timing :: invocation_timing
  ir_error :: "gateway_error option"
  ir_attempts :: "invocation_attempt list"

record usage_summary =
  sm_node_id :: "string option"
  sm_limit :: "int option"
  sm_invocation_count :: int
  sm_success_count :: int
  sm_failure_count :: int
  sm_attempt_count :: int
  sm_retry_count :: int
  sm_input_tokens :: int
  sm_output_tokens :: int
  sm_total_tokens :: int
  sm_cached_input_tokens :: int
  sm_reasoning_tokens :: int
  sm_total_cost_usd :: "rat option"
  sm_avg_latency_ms :: "int option"
  sm_max_latency_ms :: "int option"
  sm_generated_at :: time

record capacity_snapshot =
  cs_total_apis :: int
  cs_total_slots :: int
  cs_available_slots :: int
  cs_leased_slots :: int
  cs_offline_apis :: int
  cs_throttled :: bool
  cs_updated_at :: time

record sync_result =
  sy_synced :: bool
  sy_capacity :: capacity_snapshot

record pricing_config =
  pr_input :: "rat option"
  pr_output :: "rat option"
  pr_cached_input :: "rat option"
  pr_reasoning :: "rat option"

text \<open>A provider kind and an API mode are strings in the configuration; these are the known ones.\<close>

type_synonym provider_kind = string

type_synonym api_mode = string

abbreviation provider_openai_compatible :: provider_kind where
  "provider_openai_compatible \<equiv> ''openai_compatible''"

abbreviation provider_openai :: provider_kind where
  "provider_openai \<equiv> ''openai''"

abbreviation mode_responses :: api_mode where
  "mode_responses \<equiv> ''responses''"

abbreviation mode_chat_completions :: api_mode where
  "mode_chat_completions \<equiv> ''chat_completions''"

record invocation_reservation =
  rv_invocation_id :: string
  rv_attempt_id :: string
  rv_request_id :: string
  rv_node_id :: string
  rv_api_id :: string
  rv_provider :: string
  rv_api_mode :: api_mode
  rv_model :: string
  rv_base_url :: string
  rv_api_key :: string
  rv_headers :: "(string \<times> string) list"
  rv_request_defaults :: json_object
  rv_pricing :: "pricing_config option"
  rv_started_at :: time

definition reservation_route :: "invocation_reservation \<Rightarrow> route_decision" where
  "reservation_route r = \<lparr>rd_api_id = rv_api_id r, rd_provider = rv_provider r, rd_model = rv_model r\<rparr>"

record provider_invoke_result =
  pv_response :: json_object
  pv_output_text :: "string option"
  pv_usage :: "usage_metrics option"

text \<open>
  The errors the pool tells apart. \<open>ConstraintError\<close> is a violated constraint of the database, \<open>WrappedError\<close> an error
  whose message is its own and that \<open>errors.Is\<close> looks through.
\<close>

datatype pool_error =
    ErrNoCapacity
  | ErrGlobalQuota
  | ErrorText string
  | ConstraintError string
  | ContextCanceled
  | ContextDeadlineExceeded
  | WrappedError string pool_error
  | ProviderInvocationError gateway_error
  | InvocationFailedError invoke_response

fun error_text :: "pool_error \<Rightarrow> string" where
  "error_text ErrNoCapacity = ''no available API''"
| "error_text ErrGlobalQuota = ''global quota reached''"
| "error_text (ErrorText s) = s"
| "error_text (ConstraintError s) = s"
| "error_text ContextCanceled = ''context canceled''"
| "error_text ContextDeadlineExceeded = ''context deadline exceeded''"
| "error_text (WrappedError s e) = s"
| "error_text (ProviderInvocationError g) = ge_message g"
| "error_text (InvocationFailedError r) =
     (case iv_error r of Some g \<Rightarrow> ge_message g | None \<Rightarrow> ''invocation failed'')"

fun error_is :: "pool_error \<Rightarrow> pool_error \<Rightarrow> bool" where
  "error_is (WrappedError s e) target \<longleftrightarrow> WrappedError s e = target \<or> error_is e target"
| "error_is e target \<longleftrightarrow> e = target"

section \<open>Retry rules\<close>

record retry_policy =
  rt_max_attempts :: int
  rt_base_backoff :: int

definition default_retry_policy :: retry_policy where
  "default_retry_policy = \<lparr>rt_max_attempts = 3, rt_base_backoff = 200000000\<rparr>"

definition policy_normalized :: "retry_policy \<Rightarrow> retry_policy" where
  "policy_normalized p = \<lparr>
     rt_max_attempts = (if rt_max_attempts p \<le> 0 then rt_max_attempts default_retry_policy else rt_max_attempts p),
     rt_base_backoff = (if rt_base_backoff p < 0 then 0 else rt_base_backoff p)\<rparr>"

definition should_retry :: "retry_policy \<Rightarrow> int \<Rightarrow> gateway_error \<Rightarrow> bool" where
  "should_retry p k g \<longleftrightarrow> k < rt_max_attempts (policy_normalized p) \<and> ge_retryable g"

definition backoff_for :: "retry_policy \<Rightarrow> int \<Rightarrow> int" where
  "backoff_for p k =
     (if k \<le> 0 \<or> rt_base_backoff (policy_normalized p) = 0 then 0
      else k * rt_base_backoff (policy_normalized p))"

definition counts_toward_offline :: "gateway_error \<Rightarrow> bool" where
  "counts_toward_offline g \<longleftrightarrow>
     (if ge_code g = ''provider_unreachable'' \<or> ge_code g = ''provider_timeout'' then True
      else if ge_code g = ''provider_http_error'' then ge_retryable g
      else False)"

lemma policy_normalized_max [simp]: "1 \<le> rt_max_attempts (policy_normalized p)"
  by (simp add: policy_normalized_def default_retry_policy_def)

lemma policy_normalized_idem [simp]: "policy_normalized (policy_normalized p) = policy_normalized p"
  by (simp add: policy_normalized_def default_retry_policy_def)

section \<open>Validation of a request\<close>

definition normalize_api_mode :: "api_mode \<Rightarrow> api_mode" where
  "normalize_api_mode m =
     (let t = trim_space m in
      if t = '''' then mode_responses
      else if t = mode_responses then mode_responses
      else if t = mode_chat_completions then mode_chat_completions
      else '''')"

definition legacy_chat_fields :: "string list" where
  "legacy_chat_fields = [''messages'', ''functions'', ''function_call'', ''tool_calls'', ''max_tokens'']"

definition check_not_legacy :: "json_object \<Rightarrow> string \<Rightarrow> pool_error + unit" where
  "check_not_legacy m f =
     (if has_field m f
      then Inl (ErrorText (''request.'' @ f @ '' is ChatCompletions-only and is not supported; use Responses API fields''))
      else Inr ())"

definition validate_responses_request :: "json_object \<Rightarrow> pool_error + unit" where
  "validate_responses_request m =
     (if field_or_nil m ''input'' = JNull then Inl (ErrorText ''request.input is required'')
      else if has_field m ''model''
        then Inl (ErrorText ''request.model must not be set; model comes from model.json'')
      else check_all (check_not_legacy m) legacy_chat_fields)"

definition has_non_empty_messages :: "json \<Rightarrow> bool" where
  "has_non_empty_messages v = (case v of JArr xs \<Rightarrow> xs \<noteq> [] | _ \<Rightarrow> False)"

definition allowed_chat_fields :: "string list" where
  "allowed_chat_fields = [''messages'', ''tools'', ''tool_choice'', ''response_format'', ''temperature'', ''top_p'',
     ''max_tokens'', ''user'', ''store'', ''stream'']"

definition check_chat_field :: "string \<Rightarrow> pool_error + unit" where
  "check_chat_field f =
     (if f \<in> set allowed_chat_fields then Inr () else Inl (ErrorText (''chat_request.'' @ f @ '' is not supported'')))"

text \<open>The loop over the keys of the map runs in the order of the list; Go's order is arbitrary.\<close>

definition validate_chat_request :: "json_object \<Rightarrow> pool_error + unit" where
  "validate_chat_request m =
     (if has_field m ''model''
        then Inl (ErrorText ''chat_request.model must not be set; model comes from model.json'')
      else if \<not> has_non_empty_messages (field_or_nil m ''messages'')
        then Inl (ErrorText ''chat_request.messages is required'')
      else check_all check_chat_field (map fst m))"

definition validate_invoke_request :: "invoke_request \<Rightarrow> pool_error + unit" where
  "validate_invoke_request q =
     (let has_responses = iq_request q \<noteq> []; has_chat = iq_chat_request q \<noteq> [] in
      if trim_space (iq_request_id q) = '''' then Inl (ErrorText ''request_id is required'')
      else if trim_space (iq_node_id q) = '''' then Inl (ErrorText ''node_id is required'')
      else if has_responses = has_chat
        then Inl (ErrorText ''exactly one of request or chat_request is required'')
      else if has_responses then validate_responses_request (iq_request q)
      else validate_chat_request (iq_chat_request q))"

definition validate_invoke_request_for_mode :: "invoke_request \<Rightarrow> api_mode \<Rightarrow> pool_error + unit" where
  "validate_invoke_request_for_mode q mode =
     (let has_responses = iq_request q \<noteq> []; has_chat = iq_chat_request q \<noteq> [] in
      if has_responses = has_chat
        then Inl (ErrorText ''exactly one of request or chat_request is required'')
      else if normalize_api_mode mode = mode_chat_completions then
        (if \<not> has_chat then Inl (ErrorText ''chat_request is required for api_mode=chat_completions'')
         else validate_chat_request (iq_chat_request q))
      else
        (if \<not> has_responses then Inl (ErrorText ''request is required for api_mode=responses'')
         else validate_responses_request (iq_request q)))"

text \<open>A request that passed the first validation fails the second exactly when its kind is not the mode's.\<close>

lemma validated_for_mode:
  "validate_invoke_request q = Inr () \<Longrightarrow>
   is_ok (validate_invoke_request_for_mode q mode) \<longleftrightarrow>
   ((iq_chat_request q \<noteq> []) = (normalize_api_mode mode = mode_chat_completions))"
  by (auto simp: validate_invoke_request_def validate_invoke_request_for_mode_def Let_def split: if_splits)

section \<open>Cost and usage\<close>

definition int_or_zero :: "int option \<Rightarrow> int" where
  "int_or_zero v = (case v of None \<Rightarrow> 0 | Some n \<Rightarrow> n)"

definition int_field :: "(usage_metrics \<Rightarrow> int option) \<Rightarrow> invocation_record \<Rightarrow> int" where
  "int_field f r = (case ir_usage r of None \<Rightarrow> 0 | Some u \<Rightarrow> int_or_zero (f u))"

text \<open>One summand \<open>float64(tokens) * price / 1_000_000\<close> added to the running total, when there is a price and there are tokens.\<close>

definition add_cost :: "(rat \<Rightarrow> rat) \<Rightarrow> int \<Rightarrow> rat option \<Rightarrow> rat \<times> bool \<Rightarrow> rat \<times> bool" where
  "add_cost rnd tokens price acc =
     (case price of
        Some p \<Rightarrow> if tokens > 0
          then (rnd (fst acc + rnd (rnd (rnd (of_int tokens) * p) / 1000000)), True) else acc
      | None \<Rightarrow> acc)"

definition calculate_cost :: "(rat \<Rightarrow> rat) \<Rightarrow> usage_metrics \<Rightarrow> pricing_config option \<Rightarrow> rat option" where
  "calculate_cost rnd u pricing = (case pricing of None \<Rightarrow> None | Some pr \<Rightarrow>
     (let cached = int_or_zero (us_cached_input_tokens u);
          regular_input = max 0 (int_or_zero (us_input_tokens u) - cached);
          reasoning = int_or_zero (us_reasoning_tokens u);
          regular_output = max 0 (int_or_zero (us_output_tokens u) - reasoning);
          reasoning_price = (case pr_reasoning pr of Some p \<Rightarrow> Some p | None \<Rightarrow> pr_output pr);
          acc = add_cost rnd reasoning reasoning_price
                  (add_cost rnd regular_output (pr_output pr)
                    (add_cost rnd cached (pr_cached_input pr)
                      (add_cost rnd regular_input (pr_input pr) (0, False))))
      in if snd acc then Some (fst acc) else None))"

definition no_usage :: usage_metrics where
  "no_usage = \<lparr>us_input_tokens = None, us_output_tokens = None, us_total_tokens = None,
     us_cached_input_tokens = None, us_reasoning_tokens = None, us_latency_ms = None, us_cost_usd = None\<rparr>"

definition finalize_usage ::
  "(rat \<Rightarrow> rat) \<Rightarrow> usage_metrics option \<Rightarrow> int \<Rightarrow> pricing_config option \<Rightarrow> usage_metrics" where
  "finalize_usage rnd usage latency pricing =
     (let result = (case usage of None \<Rightarrow> no_usage | Some u \<Rightarrow> u)\<lparr>us_latency_ms := Some latency\<rparr> in
      case calculate_cost rnd result pricing of
        None \<Rightarrow> result | Some c \<Rightarrow> result\<lparr>us_cost_usd := Some c\<rparr>)"

section \<open>Summary of usage\<close>

text \<open>The local variables of \<open>summarizeUsage\<close>'s loop; a \<open>None\<close> cost is \<open>hasCost = false\<close>.\<close>

record usage_totals =
  ut_summary :: usage_summary
  ut_total_latency :: int
  ut_latency_count :: int
  ut_max_latency :: "int option"
  ut_total_cost :: "rat option"

definition count_record :: "invocation_record \<Rightarrow> usage_summary \<Rightarrow> usage_summary" where
  "count_record r s = s\<lparr>
     sm_invocation_count := sm_invocation_count s + 1,
     sm_success_count := sm_success_count s + (if ir_status r = InvocationStatusSuccess then 1 else 0),
     sm_failure_count := sm_failure_count s + (if ir_status r = InvocationStatusFailure then 1 else 0),
     sm_attempt_count := sm_attempt_count s + int (length (ir_attempts r)),
     sm_retry_count := sm_retry_count s +
       (if length (ir_attempts r) > 1 then int (length (ir_attempts r)) - 1 else 0),
     sm_input_tokens := sm_input_tokens s + int_field us_input_tokens r,
     sm_output_tokens := sm_output_tokens s + int_field us_output_tokens r,
     sm_total_tokens := sm_total_tokens s + int_field us_total_tokens r,
     sm_cached_input_tokens := sm_cached_input_tokens s + int_field us_cached_input_tokens r,
     sm_reasoning_tokens := sm_reasoning_tokens s + int_field us_reasoning_tokens r\<rparr>"

definition record_cost :: "invocation_record \<Rightarrow> rat option" where
  "record_cost r = (case ir_usage r of None \<Rightarrow> None | Some u \<Rightarrow> us_cost_usd u)"

definition add_optional_cost :: "(rat \<Rightarrow> rat) \<Rightarrow> rat option \<Rightarrow> rat option \<Rightarrow> rat option" where
  "add_optional_cost rnd c acc = (case c of None \<Rightarrow> acc
     | Some x \<Rightarrow> Some (rnd ((case acc of None \<Rightarrow> 0 | Some t \<Rightarrow> t) + x)))"

definition larger_latency :: "int \<Rightarrow> int option \<Rightarrow> int option" where
  "larger_latency l m = (case m of None \<Rightarrow> Some l | Some k \<Rightarrow> if l > k then Some l else Some k)"

definition add_record :: "(rat \<Rightarrow> rat) \<Rightarrow> invocation_record \<Rightarrow> usage_totals \<Rightarrow> usage_totals" where
  "add_record rnd r t = (let t1 = t\<lparr>ut_summary := count_record r (ut_summary t),
       ut_total_cost := add_optional_cost rnd (record_cost r) (ut_total_cost t)\<rparr> in
     case ti_latency_ms (ir_timing r) of None \<Rightarrow> t1
     | Some l \<Rightarrow> t1\<lparr>ut_total_latency := ut_total_latency t1 + l,
         ut_latency_count := ut_latency_count t1 + 1, ut_max_latency := larger_latency l (ut_max_latency t1)\<rparr>)"

definition no_totals :: "string option \<Rightarrow> int option \<Rightarrow> time \<Rightarrow> usage_totals" where
  "no_totals nid limit now = \<lparr>ut_summary = \<lparr>sm_node_id = nid, sm_limit = limit, sm_invocation_count = 0,
       sm_success_count = 0, sm_failure_count = 0, sm_attempt_count = 0, sm_retry_count = 0, sm_input_tokens = 0,
       sm_output_tokens = 0, sm_total_tokens = 0, sm_cached_input_tokens = 0, sm_reasoning_tokens = 0,
       sm_total_cost_usd = None, sm_avg_latency_ms = None, sm_max_latency_ms = None, sm_generated_at = now\<rparr>,
     ut_total_latency = 0, ut_latency_count = 0, ut_max_latency = None, ut_total_cost = None\<rparr>"

definition finish_summary :: "usage_totals \<Rightarrow> usage_summary" where
  "finish_summary t = (ut_summary t)\<lparr>
     sm_avg_latency_ms := (if ut_latency_count t > 0 then Some (ut_total_latency t sdiv ut_latency_count t) else None),
     sm_max_latency_ms := ut_max_latency t,
     sm_total_cost_usd := ut_total_cost t\<rparr>"

definition summarize_usage ::
  "(rat \<Rightarrow> rat) \<Rightarrow> time \<Rightarrow> invocation_record list \<Rightarrow> string option \<Rightarrow> int option \<Rightarrow> usage_summary" where
  "summarize_usage rnd now records nid limit = finish_summary (fold (add_record rnd) records (no_totals nid limit now))"

text \<open>What the loop has counted.\<close>

definition latencies :: "invocation_record list \<Rightarrow> int list" where
  "latencies rs = List.map_filter (\<lambda>r. ti_latency_ms (ir_timing r)) rs"

lemma latencies_simps [simp]:
  "latencies [] = []"
  "latencies (r # rs) = (case ti_latency_ms (ir_timing r) of None \<Rightarrow> latencies rs | Some l \<Rightarrow> l # latencies rs)"
  by (simp_all add: latencies_def List.map_filter_def split: option.split)

lemma fold_add_record_counts:
  "sm_invocation_count (ut_summary (fold (add_record rnd) rs t)) =
     sm_invocation_count (ut_summary t) + int (length rs)"
  "sm_success_count (ut_summary (fold (add_record rnd) rs t)) =
     sm_success_count (ut_summary t) + int (length (filter (\<lambda>r. ir_status r = InvocationStatusSuccess) rs))"
  "sm_failure_count (ut_summary (fold (add_record rnd) rs t)) =
     sm_failure_count (ut_summary t) + int (length (filter (\<lambda>r. ir_status r = InvocationStatusFailure) rs))"
  "sm_attempt_count (ut_summary (fold (add_record rnd) rs t)) =
     sm_attempt_count (ut_summary t) + (\<Sum>r\<leftarrow>rs. int (length (ir_attempts r)))"
  "sm_retry_count (ut_summary (fold (add_record rnd) rs t)) =
     sm_retry_count (ut_summary t) + (\<Sum>r\<leftarrow>rs. int (length (ir_attempts r) - 1))"
  "sm_total_tokens (ut_summary (fold (add_record rnd) rs t)) =
     sm_total_tokens (ut_summary t) + (\<Sum>r\<leftarrow>rs. int_field us_total_tokens r)"
  by (induction rs arbitrary: t)
     (auto simp: add_record_def Let_def count_record_def split: option.split)

lemma fold_add_record_latency:
  "ut_total_latency (fold (add_record rnd) rs t) = ut_total_latency t + sum_list (latencies rs)"
  "ut_latency_count (fold (add_record rnd) rs t) = ut_latency_count t + int (length (latencies rs))"
  "ut_max_latency (fold (add_record rnd) rs t) = fold larger_latency (latencies rs) (ut_max_latency t)"
  by (induction rs arbitrary: t) (auto simp: add_record_def Let_def split: option.split)

lemma fold_larger_latency:
  "fold larger_latency ls (Some m) = Some (Max (set (m # ls)))"
proof (induction ls arbitrary: m)
  case (Cons l ls)
  have "fold larger_latency (l # ls) (Some m) = fold larger_latency ls (Some (max m l))"
    by (simp add: larger_latency_def max_def)
  also have "\<dots> = Some (Max (set (max m l # ls)))" by (rule Cons.IH)
  also have "Max (set (max m l # ls)) = Max (set (m # l # ls))"
    by (cases "ls = []") (simp_all add: max.assoc)
  finally show ?case .
qed simp

lemma fold_larger_latency_None:
  "fold larger_latency ls None = (if ls = [] then None else Some (Max (set ls)))"
  by (cases ls) (simp_all add: larger_latency_def fold_larger_latency)

end
