(* ===== verification/PoolConfig.thy ===== *)
theory PoolConfig
  imports PoolTypes
begin

text \<open>
  The model configuration (internal/poolgateway/config.go): loading, the defaults of an API entry, the checks
  of an entry, and the normal form of a configuration that the store hashes (store.go).

  Reading the file and decoding its JSON are parameters of \<open>load_model_config\<close>.
\<close>

section \<open>Configuration\<close>

record api_config =
  ac_api_id :: string
  ac_provider :: provider_kind
  ac_api_mode :: api_mode
  ac_model :: string
  ac_base_url :: string
  ac_api_key :: string
  ac_max_concurrent :: int
  ac_enabled :: bool
  ac_headers :: "(string \<times> string) list"
  ac_request_defaults :: json_object
  ac_pricing :: "pricing_config option"

record retry_config =
  rc_max_attempts :: "int option"
  rc_base_backoff_ms :: "int option"

record model_config =
  mc_global_max_concurrent :: "int option"
  mc_offline_failure_threshold :: int
  mc_retry :: retry_config
  mc_apis :: "api_config list"

record api_field_presence =
  has_api_id :: bool
  has_provider :: bool
  has_api_mode :: bool
  has_max_concurrent :: bool
  has_enabled :: bool

section \<open>Checks and defaults of an entry\<close>

definition normalize_provider_kind :: "provider_kind \<Rightarrow> provider_kind" where
  "normalize_provider_kind p =
     (if trim_space p \<in> {'''', provider_openai, provider_openai_compatible} then provider_openai_compatible else p)"

definition any_float64 :: "json \<Rightarrow> rat option" where
  "any_float64 v = (case v of JNum x \<Rightarrow> Some x | _ \<Rightarrow> None)"

text \<open>The conversion of a \<open>float64\<close> to \<open>int\<close> drops the fraction.\<close>

definition any_int :: "json \<Rightarrow> int option" where
  "any_int v = (case v of JNum x \<Rightarrow> Some (if x < 0 then - \<lfloor>- x\<rfloor> else \<lfloor>x\<rfloor>) | _ \<Rightarrow> None)"

definition outside :: "rat \<Rightarrow> rat \<Rightarrow> rat option \<Rightarrow> bool" where
  "outside lo hi v = (case v of None \<Rightarrow> False | Some x \<Rightarrow> x < lo \<or> hi < x)"

definition validate_request_defaults :: "string \<Rightarrow> json_object \<Rightarrow> pool_error + unit" where
  "validate_request_defaults aid d =
     (if d = [] then Inr ()
      else if has_field d ''model''
        then Inl (ErrorText (''request_defaults.model must not be set for api_id='' @ aid))
      else if has_field d ''input''
        then Inl (ErrorText (''request_defaults.input must not be set for api_id='' @ aid))
      else if outside 0 2 (any_float64 (field_or_nil d ''temperature''))
        then Inl (ErrorText (''request_defaults.temperature must be between 0 and 2 for api_id='' @ aid))
      else if outside 0 1 (any_float64 (field_or_nil d ''top_p''))
        then Inl (ErrorText (''request_defaults.top_p must be between 0 and 1 for api_id='' @ aid))
      else if (case any_int (field_or_nil d ''max_output_tokens'') of None \<Rightarrow> False | Some n \<Rightarrow> n \<le> 0)
        then Inl (ErrorText (''request_defaults.max_output_tokens must be > 0 for api_id='' @ aid))
      else Inr ())"

definition check_price :: "string \<Rightarrow> string \<times> rat option \<Rightarrow> pool_error + unit" where
  "check_price aid p = (case snd p of None \<Rightarrow> Inr ()
     | Some x \<Rightarrow> if x < 0 then Inl (ErrorText (''pricing.'' @ fst p @ '' must be >= 0 for api_id='' @ aid)) else Inr ())"

definition validate_pricing_config :: "string \<Rightarrow> pricing_config option \<Rightarrow> pool_error + unit" where
  "validate_pricing_config aid pricing = (case pricing of None \<Rightarrow> Inr ()
     | Some pr \<Rightarrow> check_all (check_price aid) [(''input_per_1m_usd'', pr_input pr),
         (''output_per_1m_usd'', pr_output pr), (''cached_input_per_1m_usd'', pr_cached_input pr),
         (''reasoning_per_1m_usd'', pr_reasoning pr)])"

definition require :: "bool \<Rightarrow> string \<Rightarrow> pool_error + unit" where
  "require b msg = (if b then Inr () else Inl (ErrorText msg))"

lemma require_Inr [simp, result_simps]: "require b msg = Inr u \<longleftrightarrow> b"
  by (simp add: require_def)

lemma require_Inl [simp, result_simps]: "require b msg = Inl e \<longleftrightarrow> \<not> b \<and> e = ErrorText msg"
  by (auto simp: require_def)

definition validate_api_config :: "api_config \<Rightarrow> pool_error + unit" where
  "validate_api_config a = (let aid = ac_api_id a in
     and_then (require (aid \<noteq> '''') ''api_id is required'') (\<lambda>_.
     and_then (require (normalize_provider_kind (ac_provider a) \<noteq> '''') (''provider is required for api_id='' @ aid)) (\<lambda>_.
     and_then (require (normalize_api_mode (ac_api_mode a) \<noteq> '''') (''api_mode is invalid for api_id='' @ aid)) (\<lambda>_.
     and_then (require (ac_model a \<noteq> '''') (''model is required for api_id='' @ aid)) (\<lambda>_.
     and_then (require (ac_base_url a \<noteq> '''') (''base_url is required for api_id='' @ aid)) (\<lambda>_.
     and_then (require (ac_api_key a \<noteq> '''') (''api_key is required for api_id='' @ aid)) (\<lambda>_.
     and_then (require (ac_max_concurrent a > 0) (''max_concurrent must be > 0 for api_id='' @ aid)) (\<lambda>_.
     and_then (validate_request_defaults aid (ac_request_defaults a)) (\<lambda>_.
     validate_pricing_config aid (ac_pricing a))))))))))"

definition apply_api_config_defaults :: "api_config \<Rightarrow> nat \<Rightarrow> api_field_presence \<Rightarrow> api_config" where
  "apply_api_config_defaults a i p = a\<lparr>
     ac_api_id := (if \<not> has_api_id p \<and> trim_space (ac_api_id a) = ''''
       then ''api-'' @ show_nat (i + 1) else ac_api_id a),
     ac_provider := normalize_provider_kind (ac_provider a),
     ac_api_mode := (if \<not> has_api_mode p \<and> trim_space (ac_api_mode a) = ''''
       then mode_responses else trim_space (ac_api_mode a)),
     ac_max_concurrent := (if \<not> has_max_concurrent p \<and> ac_max_concurrent a = 0 then 1 else ac_max_concurrent a),
     ac_enabled := (if \<not> has_enabled p then True else ac_enabled a)\<rparr>"

definition validate_retry_config :: "retry_config \<Rightarrow> pool_error + unit" where
  "validate_retry_config r =
     (if (case rc_max_attempts r of None \<Rightarrow> False | Some n \<Rightarrow> n \<le> 0)
        then Inl (ErrorText ''retry.max_attempts must be > 0'')
      else if (case rc_base_backoff_ms r of None \<Rightarrow> False | Some n \<Rightarrow> n < 0)
        then Inl (ErrorText ''retry.base_backoff_ms must be >= 0'')
      else Inr ())"

section \<open>Loading\<close>

definition no_presence :: api_field_presence where
  "no_presence = \<lparr>has_api_id = False, has_provider = False, has_api_mode = False,
     has_max_concurrent = False, has_enabled = False\<rparr>"

fun load_apis :: "nat \<Rightarrow> api_field_presence list \<Rightarrow> api_config list \<Rightarrow> pool_error + api_config list" where
  "load_apis i hints [] = Inr []"
| "load_apis i hints (a # as) =
     (let a' = apply_api_config_defaults a i (if i < length hints then hints ! i else no_presence) in
      and_then (validate_api_config a') (\<lambda>_. and_then (load_apis (i + 1) hints as) (\<lambda>rest. Inr (a' # rest))))"

text \<open>
  \<open>read\<close> is the content of the file, if it can be read; \<open>decode\<close> gives the decoded configuration and, for
  each entry, the fields it has.
\<close>

definition load_model_config ::
  "(string \<Rightarrow> string option) \<Rightarrow> (string \<Rightarrow> string + model_config \<times> api_field_presence list) \<Rightarrow> string \<Rightarrow>
   pool_error + model_config" where
  "load_model_config read decode path = (case read path of
     None \<Rightarrow> Inl (ErrorText (''model config not found: '' @ path))
   | Some content \<Rightarrow>
       if content = '''' then Inl (ErrorText (''model config is empty: '' @ path))
       else (case decode content of
         Inl e \<Rightarrow> Inl (ErrorText (''invalid model config: '' @ e))
       | Inr (c, hints) \<Rightarrow>
           and_then (load_apis 0 hints (mc_apis c)) (\<lambda>apis.
           and_then (validate_retry_config (mc_retry c)) (\<lambda>_.
           Inr (c\<lparr>mc_offline_failure_threshold :=
                    (if mc_offline_failure_threshold c \<le> 0 then 3 else mc_offline_failure_threshold c),
                  mc_apis := apis\<rparr>)))))"

definition api_by_id :: "model_config \<Rightarrow> string \<Rightarrow> api_config option" where
  "api_by_id c aid = List.find (\<lambda>a. ac_api_id a = aid) (mc_apis c)"

definition config_retry_policy :: "model_config \<Rightarrow> retry_policy" where
  "config_retry_policy c = policy_normalized \<lparr>
     rt_max_attempts = (case rc_max_attempts (mc_retry c) of
       None \<Rightarrow> rt_max_attempts default_retry_policy | Some n \<Rightarrow> n),
     rt_base_backoff = (case rc_base_backoff_ms (mc_retry c) of
       None \<Rightarrow> rt_base_backoff default_retry_policy | Some n \<Rightarrow> n * 1000000)\<rparr>"

section \<open>The normal form that is hashed\<close>

definition api_config_lt :: "api_config \<Rightarrow> api_config \<Rightarrow> bool" where
  "api_config_lt l r =
     (if ac_api_id l \<noteq> ac_api_id r then ac_api_id l < ac_api_id r
      else if ac_provider l \<noteq> ac_provider r then ac_provider l < ac_provider r
      else if ac_api_mode l \<noteq> ac_api_mode r then ac_api_mode l < ac_api_mode r
      else if ac_model l \<noteq> ac_model r then ac_model l < ac_model r
      else ac_base_url l < ac_base_url r)"

definition normalize_model_config_for_hash :: "model_config \<Rightarrow> model_config" where
  "normalize_model_config_for_hash c = c\<lparr>mc_apis := sort_slice api_config_lt (mc_apis c)\<rparr>"

interpretation config_apis: sort_order api_config_lt ac_api_id "\<lambda>_. True"
  by unfold_locales (auto simp: api_config_lt_def split: if_splits)

section \<open>What is loaded\<close>

definition valid_apis :: "api_config list \<Rightarrow> bool" where
  "valid_apis as \<longleftrightarrow> (\<forall>a\<in>set as. validate_api_config a = Inr ())"

lemma load_apis_valid: "load_apis i hints as = Inr bs \<Longrightarrow> valid_apis bs"
  by (induction as arbitrary: i bs) (auto simp: valid_apis_def result_simps Let_def)

lemma validate_api_config_max: "validate_api_config a = Inr () \<Longrightarrow> 0 < ac_max_concurrent a"
  by (auto simp: validate_api_config_def Let_def result_simps)

lemma load_apis_length: "load_apis i hints as = Inr bs \<Longrightarrow> length bs = length as"
  by (induction as arbitrary: i bs) (auto simp: result_simps Let_def)

end
