(* ===== verification/PoolStore.thy ===== *)
theory PoolStore
  imports PoolConfig
begin

text \<open>
  The pool's store (internal/poolgateway/store.go): its tables and every transaction on them.

  A table is the list of its rows, the attempts in the order of their row number. Columns that hold JSON or a
  time are kept decoded. A transaction takes the error of its context, if it is done
  (a context that is cancelled while a transaction runs counts as cancelled at its start); the clock
  reading and the identifiers that a reservation draws are arguments. \<open>hash\<close> stands for
  the SHA-256 of the JSON of a configuration. Failures of the database other than a violated
  constraint are not modelled.
\<close>

section \<open>Tables\<close>

record api_row =
  ap_api_id :: string
  ap_provider :: string
  ap_model :: string
  ap_base_url :: string
  ap_api_key :: string
  ap_max_concurrent :: int
  ap_enabled :: bool
  ap_status :: api_status
  ap_lease_count :: int
  ap_failure_count :: int
  ap_last_error :: "string option"

record invocation_row =
  in_invocation_id :: string
  in_request_id :: string
  in_node_id :: string
  in_api_id :: "string option"
  in_request :: invoke_request
  in_status :: invocation_status
  in_started_at :: time
  in_finished_at :: "time option"
  in_output_text :: "string option"
  in_raw_response :: "json_object option"
  in_usage :: "usage_metrics option"
  in_error :: "gateway_error option"

record attempt_row =
  at_attempt_id :: string
  at_invocation_id :: string
  at_api_id :: string
  at_status :: invocation_status
  at_started_at :: time
  at_finished_at :: "time option"
  at_usage :: "usage_metrics option"
  at_error :: "gateway_error option"

record pool_store =
  ps_apis :: "api_row list"
  ps_invocations :: "invocation_row list"
  ps_attempts :: "attempt_row list"
  ps_global_limit :: "int option"
  ps_offline_threshold :: "int option"
  ps_config_hash :: "string option"

definition new_pool_store :: pool_store where
  "new_pool_store = \<lparr>ps_apis = [], ps_invocations = [], ps_attempts = [], ps_global_limit = None,
     ps_offline_threshold = None, ps_config_hash = None\<rparr>"

type_synonym 'a pool_op = "(pool_store, pool_error, 'a) op"

definition with_immediate_tx :: "pool_error option \<Rightarrow> 'a pool_op \<Rightarrow> 'a pool_op" where
  "with_immediate_tx over body = transaction over body"

definition upd_apis :: "(api_row list \<Rightarrow> api_row list) \<Rightarrow> pool_store \<Rightarrow> pool_store" where
  "upd_apis f s = s\<lparr>ps_apis := f (ps_apis s)\<rparr>"

definition upd_invocations :: "(invocation_row list \<Rightarrow> invocation_row list) \<Rightarrow> pool_store \<Rightarrow> pool_store" where
  "upd_invocations f s = s\<lparr>ps_invocations := f (ps_invocations s)\<rparr>"

definition upd_attempts :: "(attempt_row list \<Rightarrow> attempt_row list) \<Rightarrow> pool_store \<Rightarrow> pool_store" where
  "upd_attempts f s = s\<lparr>ps_attempts := f (ps_attempts s)\<rparr>"

definition exec :: "(pool_store \<Rightarrow> pool_store) \<Rightarrow> unit pool_op" where
  "exec f s = (Inr (), f s)"

definition query :: "(pool_store \<Rightarrow> pool_error + 'a) \<Rightarrow> 'a pool_op" where
  "query f s = (f s, s)"

section \<open>Settings\<close>

definition get_global_limit :: "pool_store \<Rightarrow> int option" where
  "get_global_limit s = ps_global_limit s"

definition get_offline_failure_threshold :: "pool_store \<Rightarrow> int" where
  "get_offline_failure_threshold s = (case ps_offline_threshold s of None \<Rightarrow> 3 | Some n \<Rightarrow> n)"

definition resolve_api_status :: "bool \<Rightarrow> int \<Rightarrow> int \<Rightarrow> int \<Rightarrow> int \<Rightarrow> api_status" where
  "resolve_api_status enabled lease max_concurrent failures threshold =
     (if \<not> enabled then ApiStatusOffline
      else if failures \<ge> threshold then ApiStatusOffline
      else if lease \<ge> max_concurrent then ApiStatusLeased
      else ApiStatusAvailable)"

section \<open>Synchronisation with the configuration\<close>

definition find_api :: "string \<Rightarrow> pool_store \<Rightarrow> api_row option" where
  "find_api aid s = List.find (\<lambda>r. ap_api_id r = aid) (ps_apis s)"

definition endpoint_row :: "api_config \<Rightarrow> int \<Rightarrow> int \<Rightarrow> int \<Rightarrow> api_row" where
  "endpoint_row a lease failures threshold = \<lparr>ap_api_id = ac_api_id a, ap_provider = ac_provider a,
     ap_model = ac_model a, ap_base_url = ac_base_url a, ap_api_key = ac_api_key a,
     ap_max_concurrent = ac_max_concurrent a, ap_enabled = ac_enabled a,
     ap_status = resolve_api_status (ac_enabled a) lease (ac_max_concurrent a) failures threshold,
     ap_lease_count = lease, ap_failure_count = failures, ap_last_error = None\<rparr>"

text \<open>The upsert writes neither the counters nor the last error of a row that exists.\<close>

definition configure_row :: "api_config \<Rightarrow> int \<Rightarrow> api_row \<Rightarrow> api_row" where
  "configure_row a threshold r = (endpoint_row a (ap_lease_count r) (ap_failure_count r) threshold)
     \<lparr>ap_last_error := ap_last_error r\<rparr>"

definition upsert_endpoint :: "int \<Rightarrow> api_config \<Rightarrow> unit pool_op" where
  "upsert_endpoint threshold a s =
     (if ac_max_concurrent a \<le> 0 then (Inl (ConstraintError ''CHECK constraint failed: max_concurrent > 0''), s)
      else (Inr (), case find_api (ac_api_id a) s of
        None \<Rightarrow> upd_apis (\<lambda>rs. rs @ [endpoint_row a 0 0 threshold]) s
      | Some r \<Rightarrow> upd_apis (update_where (\<lambda>q. ap_api_id q = ac_api_id a) (configure_row a threshold)) s))"

definition disable_row :: "api_row \<Rightarrow> api_row" where
  "disable_row r = r\<lparr>ap_enabled := False, ap_status := ApiStatusOffline\<rparr>"

definition disable_unconfigured :: "string list \<Rightarrow> pool_store \<Rightarrow> pool_store" where
  "disable_unconfigured ids = upd_apis (update_where (\<lambda>r. ap_api_id r \<notin> set ids) disable_row)"

definition model_config_hash :: "(model_config \<Rightarrow> string) \<Rightarrow> model_config \<Rightarrow> string" where
  "model_config_hash hash c = hash (normalize_model_config_for_hash c)"

definition write_config :: "string \<Rightarrow> model_config \<Rightarrow> unit pool_op" where
  "write_config h c =
     seq (exec (\<lambda>s. s\<lparr>ps_global_limit := mc_global_max_concurrent c,
                      ps_offline_threshold := Some (mc_offline_failure_threshold c)\<rparr>)) (\<lambda>_.
     seq (for_each (upsert_endpoint (mc_offline_failure_threshold c)) (mc_apis c)) (\<lambda>_.
     exec (\<lambda>s. (disable_unconfigured (map ac_api_id (mc_apis c)) s)\<lparr>ps_config_hash := Some h\<rparr>)))"

definition sync_config :: "(model_config \<Rightarrow> string) \<Rightarrow> model_config \<Rightarrow> unit pool_op" where
  "sync_config hash c s = (let h = model_config_hash hash c in
     if ps_config_hash s = Some h then (Inr (), s) else write_config h c s)"

definition sync_from_model_config ::
  "(model_config \<Rightarrow> string) \<Rightarrow> pool_error option \<Rightarrow> model_config \<Rightarrow> unit pool_op" where
  "sync_from_model_config hash over c = with_immediate_tx over (sync_config hash c)"

section \<open>Reservations\<close>

definition running_count :: "(invocation_row \<Rightarrow> bool) \<Rightarrow> pool_store \<Rightarrow> int" where
  "running_count p s =
     int (length (filter (\<lambda>r. in_status r = InvocationStatusRunning \<and> p r) (ps_invocations s)))"

definition counted_for :: "string option \<Rightarrow> invocation_row \<Rightarrow> bool" where
  "counted_for known r = (case known of None \<Rightarrow> True | Some i \<Rightarrow> in_invocation_id r \<noteq> i)"

definition check_global_quota :: "string option \<Rightarrow> pool_store \<Rightarrow> pool_error + unit" where
  "check_global_quota known s = (case get_global_limit s of None \<Rightarrow> Inr ()
     | Some n \<Rightarrow> if running_count (counted_for known) s \<ge> n then Inl ErrGlobalQuota else Inr ())"

definition eligible :: "route_policy \<Rightarrow> api_row \<Rightarrow> bool" where
  "eligible rp r \<longleftrightarrow> ap_enabled r \<and> ap_status r \<noteq> ApiStatusOffline \<and> ap_lease_count r < ap_max_concurrent r \<and>
     (case rp_api_id rp of None \<Rightarrow> True | Some aid \<Rightarrow> ap_api_id r = aid)"

definition less_loaded :: "api_row \<Rightarrow> api_row \<Rightarrow> bool" where
  "less_loaded a b \<longleftrightarrow> ap_lease_count a < ap_lease_count b \<or>
     (ap_lease_count a = ap_lease_count b \<and> ap_api_id a < ap_api_id b)"

definition pick_api :: "route_policy \<Rightarrow> pool_store \<Rightarrow> pool_error + api_row" where
  "pick_api rp s = (case sort_slice less_loaded (filter (eligible rp) (ps_apis s)) of
     [] \<Rightarrow> Inl ErrNoCapacity | r # _ \<Rightarrow> Inr r)"

definition lease_row :: "int \<Rightarrow> int \<Rightarrow> api_row \<Rightarrow> api_row" where
  "lease_row new_lease max_concurrent r = r\<lparr>ap_lease_count := new_lease,
     ap_status := (if new_lease \<ge> max_concurrent then ApiStatusLeased else ApiStatusAvailable)\<rparr>"

definition take_lease :: "api_row \<Rightarrow> pool_store \<Rightarrow> pool_store" where
  "take_lease a = upd_apis (update_where (\<lambda>r. ap_api_id r = ap_api_id a)
     (lease_row (ap_lease_count a + 1) (ap_max_concurrent a)))"

definition find_invocation :: "string \<Rightarrow> pool_store \<Rightarrow> invocation_row option" where
  "find_invocation i s = List.find (\<lambda>r. in_invocation_id r = i) (ps_invocations s)"

definition invocation_not_found :: "string \<Rightarrow> pool_error" where
  "invocation_not_found i = ErrorText (''invocation not found: '' @ i)"

definition stored_request :: "invoke_request \<Rightarrow> invoke_request" where
  "stored_request q = q\<lparr>iq_stream_sink := False\<rparr>"

definition new_invocation :: "string \<Rightarrow> invoke_request \<Rightarrow> string \<Rightarrow> time \<Rightarrow> invocation_row" where
  "new_invocation i q aid now = \<lparr>in_invocation_id = i, in_request_id = iq_request_id q, in_node_id = iq_node_id q,
     in_api_id = Some aid, in_request = stored_request q, in_status = InvocationStatusRunning,
     in_started_at = now, in_finished_at = None, in_output_text = None, in_raw_response = None,
     in_usage = None, in_error = None\<rparr>"

definition insert_invocation :: "string \<Rightarrow> invoke_request \<Rightarrow> string \<Rightarrow> time \<Rightarrow> unit pool_op" where
  "insert_invocation i q aid now s =
     (if find_invocation i s \<noteq> None
      then (Inl (ConstraintError ''UNIQUE constraint failed: invocations.invocation_id''), s)
      else (Inr (), upd_invocations (\<lambda>rs. rs @ [new_invocation i q aid now]) s))"

definition reopen_row :: "string \<Rightarrow> invocation_row \<Rightarrow> invocation_row" where
  "reopen_row aid r = r\<lparr>in_api_id := Some aid, in_status := InvocationStatusRunning, in_finished_at := None,
     in_output_text := None, in_raw_response := None, in_usage := None, in_error := None\<rparr>"

definition reopen_invocation :: "string \<Rightarrow> string \<Rightarrow> unit pool_op" where
  "reopen_invocation i aid s =
     (if find_invocation i s = None then (Inl (invocation_not_found i), s)
      else (Inr (), upd_invocations (update_where (\<lambda>r. in_invocation_id r = i) (reopen_row aid)) s))"

definition new_attempt :: "string \<Rightarrow> string \<Rightarrow> string \<Rightarrow> time \<Rightarrow> attempt_row" where
  "new_attempt k i aid now = \<lparr>at_attempt_id = k, at_invocation_id = i, at_api_id = aid,
     at_status = InvocationStatusRunning, at_started_at = now, at_finished_at = None, at_usage = None, at_error = None\<rparr>"

definition insert_attempt :: "string \<Rightarrow> string \<Rightarrow> string \<Rightarrow> time \<Rightarrow> unit pool_op" where
  "insert_attempt k i aid now s =
     (if k \<in> at_attempt_id ` set (ps_attempts s)
      then (Inl (ConstraintError ''UNIQUE constraint failed: invocation_attempts.attempt_id''), s)
      else (Inr (), upd_attempts (\<lambda>rs. rs @ [new_attempt k i aid now]) s))"

text \<open>The clock reading and the two identifiers that a reservation draws.\<close>

record fresh_ids =
  fi_now :: time
  fi_invocation_id :: string
  fi_attempt_id :: string

definition make_reservation ::
  "fresh_ids \<Rightarrow> invoke_request \<Rightarrow> string \<Rightarrow> api_row \<Rightarrow> api_config \<Rightarrow> invocation_reservation" where
  "make_reservation fi q i a ac = \<lparr>rv_invocation_id = i, rv_attempt_id = fi_attempt_id fi,
     rv_request_id = iq_request_id q, rv_node_id = iq_node_id q, rv_api_id = ap_api_id a,
     rv_provider = ap_provider a, rv_api_mode = ac_api_mode ac, rv_model = ap_model a,
     rv_base_url = ap_base_url a, rv_api_key = ap_api_key a, rv_headers = ac_headers ac,
     rv_request_defaults = ac_request_defaults ac, rv_pricing = ac_pricing ac, rv_started_at = fi_now fi\<rparr>"

definition reserve_attempt_tx ::
  "model_config \<Rightarrow> invoke_request \<Rightarrow> string option \<Rightarrow> fresh_ids \<Rightarrow> invocation_reservation pool_op" where
  "reserve_attempt_tx c q known fi =
     seq (query (check_global_quota known)) (\<lambda>_.
     seq (query (pick_api (iq_route_policy q))) (\<lambda>a.
     seq (exec (take_lease a)) (\<lambda>_.
     case api_by_id c (ap_api_id a) of
       None \<Rightarrow> return_err (ErrorText (''api config not found: '' @ ap_api_id a))
     | Some ac \<Rightarrow>
         let i = (case known of None \<Rightarrow> fi_invocation_id fi | Some i \<Rightarrow> i) in
         seq (case known of
                None \<Rightarrow> insert_invocation i q (ap_api_id a) (fi_now fi)
              | Some _ \<Rightarrow> reopen_invocation i (ap_api_id a)) (\<lambda>_.
         seq (insert_attempt (fi_attempt_id fi) i (ap_api_id a) (fi_now fi)) (\<lambda>_.
         return_ok (make_reservation fi q i a ac))))))"

definition reserve_invocation ::
  "(model_config \<Rightarrow> string) \<Rightarrow> pool_error option \<Rightarrow> model_config \<Rightarrow> invoke_request \<Rightarrow> fresh_ids \<Rightarrow>
   invocation_reservation pool_op" where
  "reserve_invocation hash over c q fi = with_immediate_tx over
     (seq (sync_config hash c) (\<lambda>_. reserve_attempt_tx c q None fi))"

definition reserve_retry_attempt ::
  "(model_config \<Rightarrow> string) \<Rightarrow> pool_error option \<Rightarrow> model_config \<Rightarrow> string \<Rightarrow> invoke_request \<Rightarrow> fresh_ids \<Rightarrow>
   invocation_reservation pool_op" where
  "reserve_retry_attempt hash over c i q fi = with_immediate_tx over
     (seq (sync_config hash c) (\<lambda>_. reserve_attempt_tx c q (Some i) fi))"

section \<open>Reading invocations\<close>

text \<open>
  \<open>getInvocationRuntimeRow\<close> joins the invocation with the API it is on now; the caller uses the API's row.
\<close>

definition get_invocation_runtime_row :: "string \<Rightarrow> pool_store \<Rightarrow> pool_error + api_row" where
  "get_invocation_runtime_row i s = (case find_invocation i s of
     None \<Rightarrow> Inl (invocation_not_found i)
   | Some r \<Rightarrow> (case in_api_id r of None \<Rightarrow> Inl (invocation_not_found i)
       | Some aid \<Rightarrow> (case find_api aid s of None \<Rightarrow> Inl (invocation_not_found i) | Some a \<Rightarrow> Inr a)))"

definition calculate_latency :: "time \<Rightarrow> time option \<Rightarrow> usage_metrics option \<Rightarrow> int option" where
  "calculate_latency started finished usage =
     (case Option.bind usage us_latency_ms of
        Some l \<Rightarrow> Some l
      | None \<Rightarrow> (case finished of None \<Rightarrow> None | Some f \<Rightarrow> Some ((f - started) sdiv 1000000)))"

definition load_attempt :: "pool_store \<Rightarrow> attempt_row \<Rightarrow> invocation_attempt" where
  "load_attempt s r = \<lparr>ia_attempt_id = at_attempt_id r,
     ia_route = \<lparr>rd_api_id = at_api_id r,
       rd_provider = (case find_api (at_api_id r) s of None \<Rightarrow> '''' | Some a \<Rightarrow> ap_provider a),
       rd_model = (case find_api (at_api_id r) s of None \<Rightarrow> '''' | Some a \<Rightarrow> ap_model a)\<rparr>,
     ia_status = at_status r,
     ia_timing = \<lparr>ti_started_at = at_started_at r, ti_finished_at = at_finished_at r,
       ti_latency_ms = calculate_latency (at_started_at r) (at_finished_at r) (at_usage r)\<rparr>,
     ia_usage = at_usage r, ia_error = at_error r\<rparr>"

definition attempts_of :: "string \<Rightarrow> pool_store \<Rightarrow> attempt_row list" where
  "attempts_of i s = filter (\<lambda>r. at_invocation_id r = i) (ps_attempts s)"

definition load_invocation_record :: "string \<Rightarrow> pool_store \<Rightarrow> pool_error + invocation_record" where
  "load_invocation_record i s = (case find_invocation i s of
     None \<Rightarrow> Inl (invocation_not_found i)
   | Some r \<Rightarrow> Inr \<lparr>ir_invocation_id = in_invocation_id r,
       ir_request = in_request r,
       ir_status = in_status r,
       ir_route = (case Option.bind (in_api_id r) (\<lambda>aid. find_api aid s) of None \<Rightarrow> None
         | Some a \<Rightarrow> Some \<lparr>rd_api_id = ap_api_id a, rd_provider = ap_provider a, rd_model = ap_model a\<rparr>),
       ir_response = (case in_raw_response r of None \<Rightarrow> [] | Some m \<Rightarrow> m),
       ir_output_text = in_output_text r,
       ir_usage = in_usage r,
       ir_timing = \<lparr>ti_started_at = in_started_at r, ti_finished_at = in_finished_at r,
         ti_latency_ms = calculate_latency (in_started_at r) (in_finished_at r) (in_usage r)\<rparr>,
       ir_error = in_error r,
       ir_attempts = map (load_attempt s) (attempts_of i s)\<rparr>)"

definition load_invocation_response :: "string \<Rightarrow> pool_store \<Rightarrow> pool_error + invoke_response" where
  "load_invocation_response i s = and_then (load_invocation_record i s) (\<lambda>r. Inr
     \<lparr>iv_invocation_id = ir_invocation_id r, iv_request_id = iq_request_id (ir_request r),
      iv_node_id = iq_node_id (ir_request r), iv_status = ir_status r, iv_route = ir_route r,
      iv_response = ir_response r, iv_output_text = ir_output_text r, iv_usage = ir_usage r,
      iv_timing = ir_timing r, iv_error = ir_error r\<rparr>)"

section \<open>Completions\<close>

text \<open>
  A nil pointer handed to \<open>marshalNullable\<close> is a non-nil interface: its column holds the text \<open>null\<close>, which is read
  back as a record of zero values.
\<close>

definition marshal_usage :: "usage_metrics option \<Rightarrow> usage_metrics option" where
  "marshal_usage u = Some (case u of None \<Rightarrow> no_usage | Some v \<Rightarrow> v)"

definition succeed_attempt_row :: "time \<Rightarrow> usage_metrics option \<Rightarrow> attempt_row \<Rightarrow> attempt_row" where
  "succeed_attempt_row fin u r = r\<lparr>at_status := InvocationStatusSuccess, at_finished_at := Some fin,
     at_usage := marshal_usage u, at_error := None\<rparr>"

definition succeed_invocation_row ::
  "time \<Rightarrow> string option \<Rightarrow> json_object \<Rightarrow> usage_metrics option \<Rightarrow> invocation_row \<Rightarrow> invocation_row" where
  "succeed_invocation_row fin out raw u r = r\<lparr>in_status := InvocationStatusSuccess, in_finished_at := Some fin,
     in_output_text := out, in_raw_response := Some raw, in_usage := marshal_usage u, in_error := None\<rparr>"

definition release_row :: "int \<Rightarrow> int \<Rightarrow> string option \<Rightarrow> api_status \<Rightarrow> api_row \<Rightarrow> api_row" where
  "release_row new_lease failures err st r = r\<lparr>ap_lease_count := new_lease, ap_failure_count := failures,
     ap_last_error := err, ap_status := st\<rparr>"

definition lease_underflow :: "string \<Rightarrow> pool_error" where
  "lease_underflow aid = ErrorText (''lease count underflow on API: '' @ aid)"

definition check_leased :: "invocation_reservation \<Rightarrow> pool_store \<Rightarrow> pool_error + api_row" where
  "check_leased rv s = and_then (get_invocation_runtime_row (rv_invocation_id rv) s) (\<lambda>a.
     if ap_lease_count a \<le> 0 then Inl (lease_underflow (rv_api_id rv)) else Inr a)"

definition write_success ::
  "invocation_reservation \<Rightarrow> string option \<Rightarrow> json_object \<Rightarrow> usage_metrics option \<Rightarrow> time \<Rightarrow> api_row \<Rightarrow>
   pool_store \<Rightarrow> pool_store" where
  "write_success rv out raw u fin a s =
     (let new_lease = ap_lease_count a - 1;
          st = resolve_api_status (ap_enabled a) new_lease (ap_max_concurrent a) 0 (get_offline_failure_threshold s) in
      upd_apis (update_where (\<lambda>r. ap_api_id r = rv_api_id rv) (release_row new_lease 0 None st))
        (upd_invocations (update_where (\<lambda>r. in_invocation_id r = rv_invocation_id rv)
            (succeed_invocation_row fin out raw u))
          (upd_attempts (update_where (\<lambda>r. at_attempt_id r = rv_attempt_id rv) (succeed_attempt_row fin u)) s)))"

definition complete_invocation_success ::
  "pool_error option \<Rightarrow> invocation_reservation \<Rightarrow> string option \<Rightarrow> json_object \<Rightarrow> usage_metrics option \<Rightarrow> time \<Rightarrow>
   invoke_response pool_op" where
  "complete_invocation_success over rv out raw u fin = with_immediate_tx over
     (seq (query (check_leased rv)) (\<lambda>a.
      seq (exec (write_success rv out raw u fin a)) (\<lambda>_.
      query (load_invocation_response (rv_invocation_id rv)))))"

definition fail_attempt_row :: "time \<Rightarrow> gateway_error \<Rightarrow> attempt_row \<Rightarrow> attempt_row" where
  "fail_attempt_row fin g r = r\<lparr>at_status := InvocationStatusFailure, at_finished_at := Some fin,
     at_usage := None, at_error := Some g\<rparr>"

definition write_attempt_failure ::
  "invocation_reservation \<Rightarrow> gateway_error \<Rightarrow> time \<Rightarrow> api_row \<Rightarrow> pool_store \<Rightarrow> pool_store" where
  "write_attempt_failure rv g fin a s =
     (let new_lease = ap_lease_count a - 1;
          failures = ap_failure_count a + (if counts_toward_offline g then 1 else 0);
          st = resolve_api_status (ap_enabled a) new_lease (ap_max_concurrent a) failures
                 (get_offline_failure_threshold s) in
      upd_apis (update_where (\<lambda>r. ap_api_id r = rv_api_id rv)
          (release_row new_lease failures (Some (ge_message g)) st))
        (upd_attempts (update_where (\<lambda>r. at_attempt_id r = rv_attempt_id rv) (fail_attempt_row fin g)) s))"

definition complete_attempt_failure ::
  "pool_error option \<Rightarrow> invocation_reservation \<Rightarrow> gateway_error \<Rightarrow> time \<Rightarrow> unit pool_op" where
  "complete_attempt_failure over rv g fin = with_immediate_tx over
     (seq (query (check_leased rv)) (\<lambda>a. exec (write_attempt_failure rv g fin a)))"

definition fail_invocation_row :: "time \<Rightarrow> gateway_error \<Rightarrow> invocation_row \<Rightarrow> invocation_row" where
  "fail_invocation_row fin g r = r\<lparr>in_status := InvocationStatusFailure, in_finished_at := Some fin,
     in_output_text := None, in_raw_response := None, in_usage := None, in_error := Some g\<rparr>"

definition write_invocation_failure :: "string \<Rightarrow> gateway_error \<Rightarrow> time \<Rightarrow> pool_store \<Rightarrow> pool_store" where
  "write_invocation_failure i g fin =
     upd_invocations (update_where (\<lambda>r. in_invocation_id r = i) (fail_invocation_row fin g))"

definition complete_invocation_failure ::
  "pool_error option \<Rightarrow> string \<Rightarrow> gateway_error \<Rightarrow> time \<Rightarrow> invoke_response pool_op" where
  "complete_invocation_failure over i g fin = with_immediate_tx over
     (seq (exec (write_invocation_failure i g fin)) (\<lambda>_. query (load_invocation_response i)))"

section \<open>Capacity and records\<close>

definition capacity_of :: "time \<Rightarrow> pool_store \<Rightarrow> capacity_snapshot" where
  "capacity_of now s = \<lparr>cs_total_apis = int (length (ps_apis s)),
     cs_total_slots = (\<Sum>r\<leftarrow>ps_apis s. ap_max_concurrent r),
     cs_available_slots = (\<Sum>r\<leftarrow>ps_apis s. if ap_status r \<noteq> ApiStatusOffline
       then (if ap_max_concurrent r - ap_lease_count r > 0 then ap_max_concurrent r - ap_lease_count r else 0) else 0),
     cs_leased_slots = (\<Sum>r\<leftarrow>ps_apis s. ap_lease_count r),
     cs_offline_apis = (\<Sum>r\<leftarrow>ps_apis s. if ap_status r = ApiStatusOffline then 1 else 0),
     cs_throttled = (case get_global_limit s of None \<Rightarrow> False | Some n \<Rightarrow> running_count (\<lambda>_. True) s \<ge> n),
     cs_updated_at = now\<rparr>"

definition capacity ::
  "(model_config \<Rightarrow> string) \<Rightarrow> pool_error option \<Rightarrow> model_config \<Rightarrow> time \<Rightarrow> capacity_snapshot pool_op" where
  "capacity hash over c now = with_immediate_tx over
     (seq (sync_config hash c) (\<lambda>_. query (\<lambda>s. Inr (capacity_of now s))))"

text \<open>
  Times are stored as RFC3339Nano text and \<open>ORDER BY\<close> compares the text. The part up to the second has a fixed width,
  so the text compares first by the second and then by what follows: a point and the nanoseconds without
  trailing zeros, if there are any, and a Z.
\<close>

fun dec_pad :: "nat \<Rightarrow> int \<Rightarrow> string" where
  "dec_pad 0 n = []"
| "dec_pad (Suc w) n = dec_pad w (n div 10) @ [''0123456789'' ! nat (n mod 10)]"

definition fraction_text :: "int \<Rightarrow> string" where
  "fraction_text ns = (if ns = 0 then ''Z''
     else ''.'' @ rev (dropWhile (\<lambda>c. c = CHR ''0'') (rev (dec_pad 9 ns))) @ ''Z'')"

definition time_text_lt :: "time \<Rightarrow> time \<Rightarrow> bool" where
  "time_text_lt t u \<longleftrightarrow> t div 1000000000 < u div 1000000000 \<or>
     (t div 1000000000 = u div 1000000000 \<and> fraction_text (t mod 1000000000) < fraction_text (u mod 1000000000))"

definition listed_before :: "invocation_row \<Rightarrow> invocation_row \<Rightarrow> bool" where
  "listed_before a b \<longleftrightarrow> time_text_lt (in_started_at b) (in_started_at a) \<or>
     (\<not> time_text_lt (in_started_at a) (in_started_at b) \<and> in_invocation_id b < in_invocation_id a)"

definition listed_ids :: "string option \<Rightarrow> int option \<Rightarrow> pool_store \<Rightarrow> string list" where
  "listed_ids nid limit s =
     (let rows = sort_slice listed_before
        (filter (\<lambda>r. case nid of None \<Rightarrow> True | Some n \<Rightarrow> in_node_id r = n) (ps_invocations s));
          ids = map in_invocation_id rows
      in case limit of None \<Rightarrow> ids | Some n \<Rightarrow> if n < 0 then ids else take (nat n) ids)"

definition list_records ::
  "(model_config \<Rightarrow> string) \<Rightarrow> pool_error option \<Rightarrow> model_config \<Rightarrow> string option \<Rightarrow> int option \<Rightarrow>
   invocation_record list pool_op" where
  "list_records hash over c nid limit = with_immediate_tx over
     (seq (sync_config hash c) (\<lambda>_. query (\<lambda>s. traverse (\<lambda>i. load_invocation_record i s) (listed_ids nid limit s))))"

definition invocation_record_by_id ::
  "(model_config \<Rightarrow> string) \<Rightarrow> pool_error option \<Rightarrow> model_config \<Rightarrow> string \<Rightarrow> invocation_record pool_op" where
  "invocation_record_by_id hash over c i = with_immediate_tx over
     (seq (sync_config hash c) (\<lambda>_. query (load_invocation_record i)))"

section \<open>Identifiers\<close>

text \<open>\<open>%0nx\<close> of a number with at most \<open>n\<close> digits, and the identifier made of the clock's nanoseconds.\<close>

definition hex_digit :: "int \<Rightarrow> char" where
  "hex_digit d = ''0123456789abcdef'' ! nat d"

fun hex_pad :: "nat \<Rightarrow> int \<Rightarrow> string" where
  "hex_pad 0 v = []"
| "hex_pad (Suc w) v = hex_pad w (v div 16) @ [hex_digit (v mod 16)]"

definition new_uuid :: "int \<Rightarrow> string" where
  "new_uuid v = hex_pad 8 (v mod 2 ^ 32) @ ''-'' @ hex_pad 4 (v div 2 ^ 32 mod 2 ^ 16) @ ''-'' @
     hex_pad 4 (v div 2 ^ 48 mod 2 ^ 16) @ ''-'' @ hex_pad 4 (v div 2 ^ 16 mod 2 ^ 16) @ ''-'' @ hex_pad 12 (v mod 2 ^ 48)"

end
