(* ===== verification/PoolStoreInv.thy ===== *)
theory PoolStoreInv
  imports PoolStore
begin

text \<open>
  The invariant of the pool's tables and the steps that keep it.

  \<open>pool_step\<close> is one transaction of the store, called the way the gateway calls it: a reservation is completed only while
  its attempt is running, and an invocation is retried or failed only when none of its attempts is.
\<close>

section \<open>The invariant\<close>

definition running_attempt :: "attempt_row \<Rightarrow> bool" where
  "running_attempt r \<longleftrightarrow> at_status r = InvocationStatusRunning"

definition open_count :: "string \<Rightarrow> attempt_row list \<Rightarrow> int" where
  "open_count aid rs = int (length (filter (\<lambda>r. running_attempt r \<and> at_api_id r = aid) rs))"

definition api_row_ok :: "int \<Rightarrow> api_row \<Rightarrow> bool" where
  "api_row_ok threshold r \<longleftrightarrow> 0 < ap_max_concurrent r \<and> 0 \<le> ap_failure_count r \<and>
     ap_status r = resolve_api_status (ap_enabled r) (ap_lease_count r) (ap_max_concurrent r) (ap_failure_count r) threshold"

text \<open>The invocation of a running attempt is running, on the attempt's API.\<close>

definition invocation_runs :: "invocation_row list \<Rightarrow> attempt_row \<Rightarrow> bool" where
  "invocation_runs is r \<longleftrightarrow> (\<exists>i\<in>set is. in_invocation_id i = at_invocation_id r \<and>
     in_status i = InvocationStatusRunning \<and> in_api_id i = Some (at_api_id r))"

definition apis_ok :: "int \<Rightarrow> api_row list \<Rightarrow> attempt_row list \<Rightarrow> bool" where
  "apis_ok threshold as rs \<longleftrightarrow> distinct (map ap_api_id as) \<and> (\<forall>a\<in>set as. api_row_ok threshold a) \<and>
     (\<forall>a\<in>set as. ap_lease_count a = open_count (ap_api_id a) rs)"

definition invocations_ok :: "string set \<Rightarrow> invocation_row list \<Rightarrow> bool" where
  "invocations_ok ids is \<longleftrightarrow> distinct (map in_invocation_id is) \<and>
     (\<forall>i\<in>set is. in_api_id i \<in> Some ` ids)"

definition attempts_ok :: "invocation_row list \<Rightarrow> attempt_row list \<Rightarrow> bool" where
  "attempts_ok is rs \<longleftrightarrow> distinct (map at_attempt_id rs) \<and>
     distinct (map at_invocation_id (filter running_attempt rs)) \<and>
     (\<forall>r\<in>set rs. at_invocation_id r \<in> in_invocation_id ` set is) \<and>
     (\<forall>r\<in>set rs. running_attempt r \<longrightarrow> invocation_runs is r)"

definition pool_ok :: "pool_store \<Rightarrow> bool" where
  "pool_ok s \<longleftrightarrow> apis_ok (get_offline_failure_threshold s) (ps_apis s) (ps_attempts s) \<and>
     invocations_ok (ap_api_id ` set (ps_apis s)) (ps_invocations s) \<and>
     attempts_ok (ps_invocations s) (ps_attempts s)"

definition holds_lease :: "invocation_reservation \<Rightarrow> pool_store \<Rightarrow> bool" where
  "holds_lease rv s \<longleftrightarrow> (\<exists>r\<in>set (ps_attempts s). running_attempt r \<and> at_attempt_id r = rv_attempt_id rv \<and>
     at_invocation_id r = rv_invocation_id rv \<and> at_api_id r = rv_api_id rv)"

definition no_open_attempt :: "string \<Rightarrow> pool_store \<Rightarrow> bool" where
  "no_open_attempt i s \<longleftrightarrow> (\<forall>r\<in>set (ps_attempts s). at_invocation_id r = i \<longrightarrow> \<not> running_attempt r)"

inductive pool_step :: "(model_config \<Rightarrow> string) \<Rightarrow> pool_store \<Rightarrow> pool_store \<Rightarrow> bool"
  for hash :: "model_config \<Rightarrow> string" where
  step_sync: "sync_from_model_config hash over c s = (r, t) \<Longrightarrow> pool_step hash s t"
| step_reserve: "reserve_invocation hash over c q fi s = (r, t) \<Longrightarrow> pool_step hash s t"
| step_retry: "no_open_attempt i s \<Longrightarrow> reserve_retry_attempt hash over c i q fi s = (r, t) \<Longrightarrow> pool_step hash s t"
| step_success: "holds_lease rv s \<Longrightarrow> complete_invocation_success over rv out raw u fin s = (r, t) \<Longrightarrow> pool_step hash s t"
| step_attempt_failure: "holds_lease rv s \<Longrightarrow> complete_attempt_failure over rv g fin s = (r, t) \<Longrightarrow> pool_step hash s t"
| step_failure: "no_open_attempt i s \<Longrightarrow> complete_invocation_failure over i g fin s = (r, t) \<Longrightarrow> pool_step hash s t"
| step_capacity: "capacity hash over c now s = (r, t) \<Longrightarrow> pool_step hash s t"
| step_list: "list_records hash over c nid limit s = (r, t) \<Longrightarrow> pool_step hash s t"
| step_record: "invocation_record_by_id hash over c i s = (r, t) \<Longrightarrow> pool_step hash s t"

section \<open>Selecting updated tables\<close>

lemma upd_sel [simp]:
  "ps_apis (upd_apis f s) = f (ps_apis s)" "ps_invocations (upd_apis f s) = ps_invocations s"
  "ps_attempts (upd_apis f s) = ps_attempts s"
  "ps_apis (upd_invocations g s) = ps_apis s" "ps_invocations (upd_invocations g s) = g (ps_invocations s)"
  "ps_attempts (upd_invocations g s) = ps_attempts s"
  "ps_apis (upd_attempts h s) = ps_apis s" "ps_invocations (upd_attempts h s) = ps_invocations s"
  "ps_attempts (upd_attempts h s) = h (ps_attempts s)"
  "get_offline_failure_threshold (upd_apis f s) = get_offline_failure_threshold s"
  "get_offline_failure_threshold (upd_invocations g s) = get_offline_failure_threshold s"
  "get_offline_failure_threshold (upd_attempts h s) = get_offline_failure_threshold s"
  "ps_global_limit (upd_apis f s) = ps_global_limit s" "ps_global_limit (upd_invocations g s) = ps_global_limit s"
  "ps_global_limit (upd_attempts h s) = ps_global_limit s"
  "ps_config_hash (upd_apis f s) = ps_config_hash s" "ps_config_hash (upd_invocations g s) = ps_config_hash s"
  "ps_config_hash (upd_attempts h s) = ps_config_hash s"
  by (simp_all add: upd_apis_def upd_invocations_def upd_attempts_def get_offline_failure_threshold_def)

lemma exec_Inr [simp]: "exec f s = (Inr v, t) \<longleftrightarrow> t = f s"
  by (auto simp: exec_def)

lemma exec_Inl [simp]: "exec f s \<noteq> (Inl e, t)"
  by (simp add: exec_def)

lemma query_iff [simp]: "query f s = (r, t) \<longleftrightarrow> f s = r \<and> t = s"
  by (auto simp: query_def)

lemma find_api_SomeD: "find_api aid s = Some a \<Longrightarrow> a \<in> set (ps_apis s) \<and> ap_api_id a = aid"
  by (auto simp: find_api_def dest: find_SomeD)

lemma find_api_NoneD: "find_api aid s = None \<Longrightarrow> aid \<notin> ap_api_id ` set (ps_apis s)"
  by (auto simp: find_api_def find_None_iff)

lemma find_api_ex: "r \<in> set (ps_apis s) \<Longrightarrow> find_api (ap_api_id r) s \<noteq> None"
  by (auto simp: find_api_def find_None_iff)

section \<open>Synchronisation\<close>

text \<open>What an upsert does to the table of APIs.\<close>

definition upsert_row :: "int \<Rightarrow> api_config \<Rightarrow> api_row list \<Rightarrow> api_row list" where
  "upsert_row threshold a rs = (case List.find (\<lambda>r. ap_api_id r = ac_api_id a) rs of
     None \<Rightarrow> rs @ [endpoint_row a 0 0 threshold]
   | Some r \<Rightarrow> update_where (\<lambda>q. ap_api_id q = ac_api_id a) (configure_row a threshold) rs)"

lemma endpoint_row_sel [simp]:
  "ap_api_id (endpoint_row a l f n) = ac_api_id a" "ap_lease_count (endpoint_row a l f n) = l"
  "ap_failure_count (endpoint_row a l f n) = f" "ap_enabled (endpoint_row a l f n) = ac_enabled a"
  "ap_max_concurrent (endpoint_row a l f n) = ac_max_concurrent a"
  "ap_status (endpoint_row a l f n) = resolve_api_status (ac_enabled a) l (ac_max_concurrent a) f n"
  by (simp_all add: endpoint_row_def)

lemma configure_row_sel [simp]:
  "ap_api_id (configure_row a n r) = ac_api_id a" "ap_lease_count (configure_row a n r) = ap_lease_count r"
  "ap_failure_count (configure_row a n r) = ap_failure_count r" "ap_enabled (configure_row a n r) = ac_enabled a"
  "ap_max_concurrent (configure_row a n r) = ac_max_concurrent a"
  "ap_status (configure_row a n r) =
     resolve_api_status (ac_enabled a) (ap_lease_count r) (ac_max_concurrent a) (ap_failure_count r) n"
  by (simp_all add: configure_row_def)

lemma disable_row_sel [simp]:
  "ap_api_id (disable_row r) = ap_api_id r" "ap_lease_count (disable_row r) = ap_lease_count r"
  "ap_failure_count (disable_row r) = ap_failure_count r" "ap_enabled (disable_row r) = False"
  "ap_max_concurrent (disable_row r) = ap_max_concurrent r" "ap_status (disable_row r) = ApiStatusOffline"
  by (simp_all add: disable_row_def)

lemma upsert_endpoint_eq:
  "upsert_endpoint n a s = (if ac_max_concurrent a \<le> 0
     then (Inl (ConstraintError ''CHECK constraint failed: max_concurrent > 0''), s)
     else (Inr (), upd_apis (upsert_row n a) s))"
  by (auto simp: upsert_endpoint_def upsert_row_def find_api_def upd_apis_def split: option.split)

lemma for_each_upsert_eq:
  "for_each (upsert_endpoint n) as s = (Inr (), t) \<longleftrightarrow>
   (\<forall>a\<in>set as. 0 < ac_max_concurrent a) \<and> t = upd_apis (fold (upsert_row n) as) s"
proof (induction as arbitrary: s)
  case Nil
  then show ?case by (auto simp: return_ok_def upd_apis_def)
next
  case (Cons a as)
  then show ?case by (auto simp: seq_Inr_iff upsert_endpoint_eq upd_apis_def)
qed

lemma upsert_row_ids: "ap_api_id ` set (upsert_row n a rs) = insert (ac_api_id a) (ap_api_id ` set rs)"
proof (cases "List.find (\<lambda>r. ap_api_id r = ac_api_id a) rs")
  case None
  then show ?thesis by (auto simp: upsert_row_def)
next
  case (Some r)
  have "map ap_api_id (update_where (\<lambda>q. ap_api_id q = ac_api_id a) (configure_row a n) rs) = map ap_api_id rs"
    by (simp add: update_where_def)
  then have "ap_api_id ` set (upsert_row n a rs) = ap_api_id ` set rs"
    using Some by (simp add: upsert_row_def flip: set_map)
  moreover have "ac_api_id a \<in> ap_api_id ` set rs" using find_key_Some[OF Some] by blast
  ultimately show ?thesis by auto
qed

lemma upsert_row_distinct: "distinct (map ap_api_id rs) \<Longrightarrow> distinct (map ap_api_id (upsert_row n a rs))"
proof (cases "List.find (\<lambda>r. ap_api_id r = ac_api_id a) rs")
  case None
  moreover assume "distinct (map ap_api_id rs)"
  ultimately show ?thesis using iffD1[OF find_key_None None] by (simp add: upsert_row_def)
next
  case (Some r)
  moreover have "map ap_api_id (update_where (\<lambda>q. ap_api_id q = ac_api_id a) (configure_row a n) rs) = map ap_api_id rs"
    by (simp add: update_where_def)
  moreover assume "distinct (map ap_api_id rs)"
  ultimately show ?thesis by (simp add: upsert_row_def)
qed

lemma upsert_row_cases:
  assumes "r \<in> set (upsert_row n a rs)"
  obtains (new) "ac_api_id a \<notin> ap_api_id ` set rs" "r = endpoint_row a 0 0 n"
  | (changed) q where "q \<in> set rs" "ap_api_id q = ac_api_id a" "r = configure_row a n q"
  | (same) "r \<in> set rs" "ap_api_id r \<noteq> ac_api_id a"
proof (cases "List.find (\<lambda>r. ap_api_id r = ac_api_id a) rs")
  case None
  then have "r \<in> set rs \<or> r = endpoint_row a 0 0 n" "ac_api_id a \<notin> ap_api_id ` set rs"
    using assms by (auto simp: upsert_row_def find_key_None[symmetric])
  then show ?thesis using new same by (metis image_eqI)
next
  case (Some q)
  then have "r \<in> set (update_where (\<lambda>q. ap_api_id q = ac_api_id a) (configure_row a n) rs)"
    using assms by (simp add: upsert_row_def)
  then show ?thesis using changed same by (auto simp: row_simps split: if_splits)
qed

lemma fold_upsert_ids:
  "ap_api_id ` set (fold (upsert_row n) as rs) = ac_api_id ` set as \<union> ap_api_id ` set rs"
  by (induction as arbitrary: rs) (auto simp: upsert_row_ids)

lemma fold_upsert_distinct:
  "distinct (map ap_api_id rs) \<Longrightarrow> distinct (map ap_api_id (fold (upsert_row n) as rs))"
  by (induction as arbitrary: rs) (auto intro: upsert_row_distinct)

lemma fold_upsert_rows:
  "r \<in> set (fold (upsert_row n) as rs) \<Longrightarrow>
   (\<exists>a\<in>set as. ap_api_id r = ac_api_id a \<and> ap_enabled r = ac_enabled a \<and> ap_max_concurrent r = ac_max_concurrent a \<and>
      ap_status r = resolve_api_status (ac_enabled a) (ap_lease_count r) (ac_max_concurrent a) (ap_failure_count r) n) \<or>
   (r \<in> set rs \<and> ap_api_id r \<notin> ac_api_id ` set as)"
proof (induction as arbitrary: r rule: rev_induct)
  case (snoc a as)
  from snoc.prems have "r \<in> set (upsert_row n a (fold (upsert_row n) as rs))" by simp
  then show ?case
    by (cases rule: upsert_row_cases) (use snoc.IH in auto)
qed simp

lemma fold_upsert_counters:
  assumes "\<forall>r\<in>set rs. P (ap_api_id r) (ap_lease_count r) (ap_failure_count r)"
    and "\<forall>aid. aid \<notin> ap_api_id ` set rs \<longrightarrow> P aid 0 0"
  shows "\<forall>r\<in>set (fold (upsert_row n) as rs). P (ap_api_id r) (ap_lease_count r) (ap_failure_count r)"
  using assms
proof (induction as arbitrary: rs)
  case (Cons a as)
  have "\<forall>r\<in>set (upsert_row n a rs). P (ap_api_id r) (ap_lease_count r) (ap_failure_count r)"
  proof
    fix r assume "r \<in> set (upsert_row n a rs)"
    then show "P (ap_api_id r) (ap_lease_count r) (ap_failure_count r)"
      by (cases rule: upsert_row_cases) (use Cons.prems in auto)
  qed
  moreover have "\<forall>aid. aid \<notin> ap_api_id ` set (upsert_row n a rs) \<longrightarrow> P aid 0 0"
    using Cons.prems(2) by (simp add: upsert_row_ids)
  ultimately show ?case using Cons.IH by simp
qed simp

text \<open>A synchronisation that writes, in one piece.\<close>

definition configured_apis :: "model_config \<Rightarrow> api_row list \<Rightarrow> api_row list" where
  "configured_apis c rs = update_where (\<lambda>r. ap_api_id r \<notin> ac_api_id ` set (mc_apis c)) disable_row
     (fold (upsert_row (mc_offline_failure_threshold c)) (mc_apis c) rs)"

definition configured_store :: "string \<Rightarrow> model_config \<Rightarrow> pool_store \<Rightarrow> pool_store" where
  "configured_store h c s = s\<lparr>ps_apis := configured_apis c (ps_apis s),
     ps_global_limit := mc_global_max_concurrent c,
     ps_offline_threshold := Some (mc_offline_failure_threshold c), ps_config_hash := Some h\<rparr>"

lemma write_config_Inr:
  "write_config h c s = (Inr (), t) \<longleftrightarrow>
   (\<forall>a\<in>set (mc_apis c). 0 < ac_max_concurrent a) \<and> t = configured_store h c s"
  by (auto simp: write_config_def seq_Inr_iff for_each_upsert_eq configured_store_def configured_apis_def
      disable_unconfigured_def upd_apis_def)

lemma sync_config_Inr:
  "sync_config hash c s = (Inr (), t) \<longleftrightarrow>
   (if ps_config_hash s = Some (model_config_hash hash c) then t = s
    else (\<forall>a\<in>set (mc_apis c). 0 < ac_max_concurrent a) \<and> t = configured_store (model_config_hash hash c) c s)"
  by (auto simp: sync_config_def Let_def write_config_Inr)

lemma configured_apis_ids:
  "ap_api_id ` set (configured_apis c rs) = ac_api_id ` set (mc_apis c) \<union> ap_api_id ` set rs"
proof -
  have "map ap_api_id (update_where p disable_row xs) = map ap_api_id xs" for p xs
    by (simp add: row_simps)
  then show ?thesis by (simp add: configured_apis_def fold_upsert_ids flip: set_map) (simp add: fold_upsert_ids)
qed

lemma configured_apis_distinct:
  "distinct (map ap_api_id rs) \<Longrightarrow> distinct (map ap_api_id (configured_apis c rs))"
  by (simp add: configured_apis_def row_simps fold_upsert_distinct)

lemma configured_apis_rows:
  assumes "r \<in> set (configured_apis c rs)"
  obtains (configured) a where "a \<in> set (mc_apis c)" "ap_api_id r = ac_api_id a" "ap_enabled r = ac_enabled a"
      "ap_max_concurrent r = ac_max_concurrent a"
      "ap_status r = resolve_api_status (ac_enabled a) (ap_lease_count r) (ac_max_concurrent a)
         (ap_failure_count r) (mc_offline_failure_threshold c)"
  | (disabled) q where "q \<in> set rs" "ap_api_id r \<notin> ac_api_id ` set (mc_apis c)" "r = disable_row q"
  using assms by (fastforce simp: configured_apis_def row_simps dest: fold_upsert_rows split: if_splits)

lemma configured_apis_counters:
  assumes "\<forall>r\<in>set rs. P (ap_api_id r) (ap_lease_count r) (ap_failure_count r)"
    and "\<forall>aid. aid \<notin> ap_api_id ` set rs \<longrightarrow> P aid 0 0"
  shows "\<forall>r\<in>set (configured_apis c rs). P (ap_api_id r) (ap_lease_count r) (ap_failure_count r)"
  using fold_upsert_counters[OF assms, of "mc_offline_failure_threshold c" "mc_apis c"]
  by (auto simp: configured_apis_def row_simps)

lemma open_count_zero: "(\<And>r. r \<in> set rs \<Longrightarrow> running_attempt r \<Longrightarrow> at_api_id r \<noteq> aid) \<Longrightarrow> open_count aid rs = 0"
  by (auto simp: open_count_def filter_empty_conv)

lemma running_attempt_api:
  assumes "pool_ok s" "r \<in> set (ps_attempts s)" "running_attempt r"
  shows "at_api_id r \<in> ap_api_id ` set (ps_apis s)"
proof -
  obtain i where "i \<in> set (ps_invocations s)" "in_api_id i = Some (at_api_id r)"
    using assms by (auto simp: pool_ok_def attempts_ok_def invocation_runs_def)
  moreover have "in_api_id i \<in> Some ` ap_api_id ` set (ps_apis s)"
    using assms(1) calculation(1) by (auto simp: pool_ok_def invocations_ok_def)
  ultimately show ?thesis by auto
qed

lemma invocations_ok_mono: "invocations_ok A is \<Longrightarrow> A \<subseteq> B \<Longrightarrow> invocations_ok B is"
  unfolding invocations_ok_def by blast

lemma configured_store_ok:
  assumes ok: "pool_ok s" and pos: "\<forall>a\<in>set (mc_apis c). 0 < ac_max_concurrent a"
  shows "pool_ok (configured_store h c s)"
proof -
  let ?n = "mc_offline_failure_threshold c" and ?as = "configured_apis c (ps_apis s)"
  from ok have old: "apis_ok (get_offline_failure_threshold s) (ps_apis s) (ps_attempts s)"
    and inv: "invocations_ok (ap_api_id ` set (ps_apis s)) (ps_invocations s)"
    and att: "attempts_ok (ps_invocations s) (ps_attempts s)" by (simp_all add: pool_ok_def)
  have counters: "\<forall>r\<in>set ?as. ap_lease_count r = open_count (ap_api_id r) (ps_attempts s) \<and> 0 \<le> ap_failure_count r"
  proof (rule configured_apis_counters)
    show "\<forall>r\<in>set (ps_apis s). ap_lease_count r = open_count (ap_api_id r) (ps_attempts s) \<and> 0 \<le> ap_failure_count r"
      using old by (auto simp: apis_ok_def api_row_ok_def)
    have "open_count aid (ps_attempts s) = 0" if "aid \<notin> ap_api_id ` set (ps_apis s)" for aid
      using that running_attempt_api[OF ok] by (intro open_count_zero) blast
    then show "\<forall>aid. aid \<notin> ap_api_id ` set (ps_apis s) \<longrightarrow> 0 = open_count aid (ps_attempts s) \<and> (0::int) \<le> 0"
      by simp
  qed
  have "api_row_ok ?n r" if r: "r \<in> set ?as" for r
    using r
  proof (cases rule: configured_apis_rows)
    case (configured a)
    then show ?thesis using counters r pos by (auto simp: api_row_ok_def)
  next
    case (disabled q)
    then show ?thesis using old by (auto simp: apis_ok_def api_row_ok_def resolve_api_status_def)
  qed
  then have "apis_ok ?n ?as (ps_attempts s)"
    using counters old by (auto simp: apis_ok_def intro: configured_apis_distinct)
  moreover have "invocations_ok (ap_api_id ` set ?as) (ps_invocations s)"
    using inv by (rule invocations_ok_mono) (simp add: configured_apis_ids)
  ultimately show ?thesis
    using att by (simp add: pool_ok_def configured_store_def get_offline_failure_threshold_def)
qed

lemma sync_config_ok: "pool_ok s \<Longrightarrow> sync_config hash c s = (Inr (), t) \<Longrightarrow> pool_ok t"
  by (auto simp: sync_config_Inr configured_store_ok split: if_splits)

section \<open>Closing an attempt\<close>

lemma open_count_Nil [simp]: "open_count aid [] = 0"
  by (simp add: open_count_def)

lemma open_count_Cons [simp]:
  "open_count aid (r # rs) = (if running_attempt r \<and> at_api_id r = aid then 1 else 0) + open_count aid rs"
  by (simp add: open_count_def)

lemma open_count_append [simp]: "open_count aid (rs @ qs) = open_count aid rs + open_count aid qs"
  by (simp add: open_count_def)

lemma open_count_pos: "r \<in> set rs \<Longrightarrow> running_attempt r \<Longrightarrow> 0 < open_count (at_api_id r) rs"
  by (auto simp: open_count_def filter_empty_conv)

text \<open>An update that closes one attempt.\<close>

definition closes :: "(attempt_row \<Rightarrow> attempt_row) \<Rightarrow> bool" where
  "closes f \<longleftrightarrow> (\<forall>r. at_attempt_id (f r) = at_attempt_id r \<and> at_invocation_id (f r) = at_invocation_id r \<and>
     at_api_id (f r) = at_api_id r \<and> \<not> running_attempt (f r))"

lemma closes_succeed [simp]: "closes (succeed_attempt_row fin u)"
  by (simp add: closes_def succeed_attempt_row_def running_attempt_def)

lemma closes_fail [simp]: "closes (fail_attempt_row fin g)"
  by (simp add: closes_def fail_attempt_row_def running_attempt_def)

lemma open_count_close:
  assumes "closes f" "distinct (map at_attempt_id rs)" "r \<in> set rs" "running_attempt r" "at_attempt_id r = k"
  shows "open_count aid (update_where (\<lambda>q. at_attempt_id q = k) f rs) =
    open_count aid rs - (if at_api_id r = aid then 1 else 0)"
  using assms(2-5)
proof (induction rs)
  case (Cons q rs)
  show ?case
  proof (cases "at_attempt_id q = k")
    case True
    then have "k \<notin> at_attempt_id ` set rs" using Cons.prems by auto
    then have "update_where (\<lambda>q. at_attempt_id q = k) f rs = rs" by (intro update_where_none) auto
    moreover have "q = r" using Cons.prems True by auto
    ultimately show ?thesis using assms(1) Cons.prems True by (auto simp: closes_def)
  next
    case False
    then show ?thesis using Cons by auto
  qed
qed simp

lemma running_after_close:
  "closes f \<Longrightarrow> filter running_attempt (update_where p f rs) = filter (\<lambda>r. running_attempt r \<and> \<not> p r) rs"
  by (induction rs) (auto simp: closes_def)

lemma attempts_ok_close:
  assumes "closes f" "attempts_ok is rs"
  shows "attempts_ok is (update_where p f rs)"
proof -
  have "map at_attempt_id (update_where p f rs) = map at_attempt_id rs"
    using assms(1) by (simp add: closes_def row_simps)
  moreover have "distinct (map at_invocation_id (filter running_attempt (update_where p f rs)))"
  proof -
    have "distinct (map at_invocation_id (filter (\<lambda>r. \<not> p r) (filter running_attempt rs)))"
      using assms(2) distinct_map_filter[of at_invocation_id "filter running_attempt rs"] by (auto simp: attempts_ok_def)
    then show ?thesis by (simp add: running_after_close[OF assms(1)] conj_commute)
  qed
  ultimately show ?thesis
    using assms by (auto simp: attempts_ok_def row_simps closes_def split: if_splits)
qed

lemma only_running_attempt:
  assumes "attempts_ok is rs" "r \<in> set rs" "running_attempt r" "q \<in> set rs" "running_attempt q"
    and "at_invocation_id q = at_invocation_id r"
  shows "q = r"
  using inj_on_key_eq[of at_invocation_id "filter running_attempt rs" q r] assms by (auto simp: attempts_ok_def)

text \<open>An update of an invocation that has no running attempt.\<close>

lemma attempts_ok_invocation:
  assumes "attempts_ok is rs" and "\<And>j. in_invocation_id (f j) = in_invocation_id j"
    and "\<And>r. r \<in> set rs \<Longrightarrow> running_attempt r \<Longrightarrow> at_invocation_id r \<noteq> i"
  shows "attempts_ok (update_where (\<lambda>j. in_invocation_id j = i) f is) rs"
proof -
  have ids: "in_invocation_id ` set (update_where (\<lambda>j. in_invocation_id j = i) f is) = in_invocation_id ` set is"
    using map_key_update_where[of in_invocation_id f] assms(2) by (metis list.set_map)
  have "invocation_runs (update_where (\<lambda>j. in_invocation_id j = i) f is) r"
    if "r \<in> set rs" "running_attempt r" for r
  proof -
    obtain j where "j \<in> set is" "in_invocation_id j = at_invocation_id r" "in_status j = InvocationStatusRunning"
        "in_api_id j = Some (at_api_id r)"
      using assms(1) \<open>r \<in> set rs\<close> \<open>running_attempt r\<close> by (auto simp: attempts_ok_def invocation_runs_def)
    then show ?thesis using assms(3)[OF that] by (auto simp: invocation_runs_def row_simps intro!: bexI[of _ j])
  qed
  then show ?thesis using assms(1) ids by (auto simp: attempts_ok_def)
qed

lemma invocations_ok_update:
  assumes "invocations_ok ids is" and "\<And>j. in_invocation_id (f j) = in_invocation_id j"
    and "\<And>j. in_api_id (f j) = in_api_id j \<or> in_api_id (f j) \<in> Some ` ids"
  shows "invocations_ok ids (update_where p f is)"
  using assms by (auto simp: invocations_ok_def row_simps) metis

section \<open>Completions\<close>

lemma holds_lease_row:
  assumes "pool_ok s" "holds_lease rv s"
  obtains a where "get_invocation_runtime_row (rv_invocation_id rv) s = Inr a" "find_api (rv_api_id rv) s = Some a"
    "a \<in> set (ps_apis s)" "ap_api_id a = rv_api_id rv" "0 < ap_lease_count a"
proof -
  obtain r where r: "r \<in> set (ps_attempts s)" "running_attempt r" "at_attempt_id r = rv_attempt_id rv"
      "at_invocation_id r = rv_invocation_id rv" "at_api_id r = rv_api_id rv"
    using assms(2) by (auto simp: holds_lease_def)
  obtain i where i: "i \<in> set (ps_invocations s)" "in_invocation_id i = rv_invocation_id rv"
      "in_api_id i = Some (rv_api_id rv)"
    using assms(1) r by (auto simp: pool_ok_def attempts_ok_def invocation_runs_def)
  have "find_invocation (rv_invocation_id rv) s = Some i"
    using find_distinct[of in_invocation_id "ps_invocations s" i] assms(1) i
    by (simp add: find_invocation_def pool_ok_def invocations_ok_def)
  moreover obtain a where a: "find_api (rv_api_id rv) s = Some a"
    using running_attempt_api[OF assms(1) r(1,2)] r(5) find_api_NoneD by (metis not_Some_eq)
  ultimately have "get_invocation_runtime_row (rv_invocation_id rv) s = Inr a"
    using i by (simp add: get_invocation_runtime_row_def)
  moreover have "0 < ap_lease_count a"
    using assms(1) find_api_SomeD[OF a] open_count_pos[OF r(1,2)] r(5) by (auto simp: pool_ok_def apis_ok_def)
  ultimately show ?thesis using that a find_api_SomeD[OF a] by blast
qed

lemma api_row_unique:
  "pool_ok s \<Longrightarrow> a \<in> set (ps_apis s) \<Longrightarrow> b \<in> set (ps_apis s) \<Longrightarrow> ap_api_id a = ap_api_id b \<Longrightarrow> a = b"
  using inj_on_key_eq[of ap_api_id "ps_apis s" a b] by (simp add: pool_ok_def apis_ok_def)

lemma check_leased_Inr:
  "check_leased rv s = Inr a \<Longrightarrow> get_invocation_runtime_row (rv_invocation_id rv) s = Inr a \<and> 0 < ap_lease_count a"
  by (auto simp: check_leased_def result_simps split: if_splits)

lemma release_row_sel [simp]:
  "ap_api_id (release_row l fl err st r) = ap_api_id r" "ap_lease_count (release_row l fl err st r) = l"
  "ap_failure_count (release_row l fl err st r) = fl" "ap_enabled (release_row l fl err st r) = ap_enabled r"
  "ap_max_concurrent (release_row l fl err st r) = ap_max_concurrent r" "ap_status (release_row l fl err st r) = st"
  by (simp_all add: release_row_def)

lemma api_ids_update_where [simp]:
  "(\<And>r. ap_api_id (f r) = ap_api_id r) \<Longrightarrow> ap_api_id ` set (update_where p f rs) = ap_api_id ` set rs"
  by (metis list.set_map map_key_update_where)

text \<open>Closing the attempt of a reservation releases its lease and nothing else.\<close>

lemma apis_ok_release:
  assumes ok: "pool_ok s" and held: "holds_lease rv s" and f: "closes f"
    and a: "a \<in> set (ps_apis s)" "ap_api_id a = rv_api_id rv" and fl: "0 \<le> fl"
    and st: "st = resolve_api_status (ap_enabled a) (ap_lease_count a - 1) (ap_max_concurrent a) fl
      (get_offline_failure_threshold s)"
  shows "apis_ok (get_offline_failure_threshold s)
    (update_where (\<lambda>r. ap_api_id r = rv_api_id rv) (release_row (ap_lease_count a - 1) fl err st) (ps_apis s))
    (update_where (\<lambda>r. at_attempt_id r = rv_attempt_id rv) f (ps_attempts s))"
proof -
  from ok have apis: "apis_ok (get_offline_failure_threshold s) (ps_apis s) (ps_attempts s)"
    and att: "attempts_ok (ps_invocations s) (ps_attempts s)" by (simp_all add: pool_ok_def)
  obtain r where r: "r \<in> set (ps_attempts s)" "running_attempt r" "at_attempt_id r = rv_attempt_id rv"
      "at_api_id r = rv_api_id rv"
    using held by (auto simp: holds_lease_def)
  have count: "open_count aid (update_where (\<lambda>r. at_attempt_id r = rv_attempt_id rv) f (ps_attempts s)) =
      open_count aid (ps_attempts s) - (if rv_api_id rv = aid then 1 else 0)" for aid
    using open_count_close[OF f _ r(1-3)] att r(4) by (simp add: attempts_ok_def)
  have same: "b = a" if "b \<in> set (ps_apis s)" "ap_api_id b = rv_api_id rv" for b
    using api_row_unique[OF ok that(1) a(1)] that(2) a(2) by simp
  have rows: "api_row_ok (get_offline_failure_threshold s) b' \<and> ap_lease_count b' = open_count (ap_api_id b')
      (update_where (\<lambda>r. at_attempt_id r = rv_attempt_id rv) f (ps_attempts s))"
    if b: "b \<in> set (ps_apis s)" and b': "b' = (if ap_api_id b = rv_api_id rv
      then release_row (ap_lease_count a - 1) fl err st b else b)" for b b'
  proof (cases "ap_api_id b = rv_api_id rv")
    case True
    then have "b = a" by (rule same[OF b])
    then show ?thesis using apis b' a fl st by (auto simp: apis_ok_def api_row_ok_def count)
  next
    case False
    then show ?thesis using apis b b' by (simp add: apis_ok_def count)
  qed
  have "distinct (map ap_api_id (update_where (\<lambda>r. ap_api_id r = rv_api_id rv)
      (release_row (ap_lease_count a - 1) fl err st) (ps_apis s)))"
    using apis by (simp add: apis_ok_def row_simps)
  then show ?thesis unfolding apis_ok_def ball_update_where using rows[OF _ refl] by blast
qed

lemma write_attempt_failure_ok:
  assumes "pool_ok s" "holds_lease rv s" "a \<in> set (ps_apis s)" "ap_api_id a = rv_api_id rv"
  shows "pool_ok (write_attempt_failure rv g fin a s)"
proof -
  have "0 \<le> ap_failure_count a + (if counts_toward_offline g then 1 else 0)"
    using assms(1,3) by (auto simp: pool_ok_def apis_ok_def api_row_ok_def)
  note apis_ok_release[OF assms(1,2) closes_fail assms(3,4) this refl]
  then show ?thesis
    using assms(1) attempts_ok_close[OF closes_fail] by (simp add: pool_ok_def write_attempt_failure_def Let_def)
qed

lemma holds_lease_other_invocations:
  assumes "pool_ok s" "holds_lease rv s" "r \<in> set (ps_attempts s)" "running_attempt r"
    and "at_attempt_id r \<noteq> rv_attempt_id rv"
  shows "at_invocation_id r \<noteq> rv_invocation_id rv"
proof
  assume same: "at_invocation_id r = rv_invocation_id rv"
  obtain q where q: "q \<in> set (ps_attempts s)" "running_attempt q" "at_attempt_id q = rv_attempt_id rv"
      "at_invocation_id q = rv_invocation_id rv"
    using assms(2) by (auto simp: holds_lease_def)
  have "attempts_ok (ps_invocations s) (ps_attempts s)" using assms(1) by (simp add: pool_ok_def)
  then have "r = q" by (rule only_running_attempt) (use assms(3,4) q same in simp_all)
  with assms(5) q(3) show False by simp
qed

lemma succeed_invocation_row_sel [simp]:
  "in_invocation_id (succeed_invocation_row fin out raw u r) = in_invocation_id r"
  "in_api_id (succeed_invocation_row fin out raw u r) = in_api_id r"
  by (simp_all add: succeed_invocation_row_def)

lemma fail_invocation_row_sel [simp]:
  "in_invocation_id (fail_invocation_row fin g r) = in_invocation_id r"
  "in_api_id (fail_invocation_row fin g r) = in_api_id r"
  by (simp_all add: fail_invocation_row_def)

lemma write_success_ok:
  assumes "pool_ok s" "holds_lease rv s" "a \<in> set (ps_apis s)" "ap_api_id a = rv_api_id rv"
  shows "pool_ok (write_success rv out raw u fin a s)"
proof -
  let ?rs = "update_where (\<lambda>r. at_attempt_id r = rv_attempt_id rv) (succeed_attempt_row fin u) (ps_attempts s)"
  have open_rows: "at_invocation_id r \<noteq> rv_invocation_id rv" if "r \<in> set ?rs" "running_attempt r" for r
  proof -
    obtain q where q: "q \<in> set (ps_attempts s)"
        "r = (if at_attempt_id q = rv_attempt_id rv then succeed_attempt_row fin u q else q)"
      using \<open>r \<in> set ?rs\<close> by (auto simp: set_update_where)
    have "\<not> running_attempt (succeed_attempt_row fin u q)"
      using closes_succeed by (simp add: closes_def)
    then have "r \<in> set (ps_attempts s)" "at_attempt_id r \<noteq> rv_attempt_id rv"
      using q that(2) by (simp_all split: if_splits)
    then show ?thesis using holds_lease_other_invocations[OF assms(1,2)] that(2) by blast
  qed
  have "attempts_ok (ps_invocations s) ?rs"
    using assms(1) attempts_ok_close[OF closes_succeed] by (simp add: pool_ok_def)
  then have "attempts_ok (update_where (\<lambda>r. in_invocation_id r = rv_invocation_id rv)
      (succeed_invocation_row fin out raw u) (ps_invocations s)) ?rs"
    by (rule attempts_ok_invocation) (simp, rule open_rows)
  moreover have "invocations_ok (ap_api_id ` set (ps_apis s)) (update_where (\<lambda>r. in_invocation_id r = rv_invocation_id rv)
      (succeed_invocation_row fin out raw u) (ps_invocations s))"
    using assms(1) by (intro invocations_ok_update) (simp_all add: pool_ok_def)
  moreover note apis_ok_release[OF assms(1,2) closes_succeed assms(3,4) order_refl refl]
  ultimately show ?thesis by (simp add: pool_ok_def write_success_def Let_def)
qed

lemma write_invocation_failure_ok:
  assumes "pool_ok s" "no_open_attempt i s"
  shows "pool_ok (write_invocation_failure i g fin s)"
proof -
  have "attempts_ok (update_where (\<lambda>r. in_invocation_id r = i) (fail_invocation_row fin g) (ps_invocations s))
      (ps_attempts s)"
    using assms by (intro attempts_ok_invocation) (auto simp: pool_ok_def no_open_attempt_def)
  moreover have "invocations_ok (ap_api_id ` set (ps_apis s))
      (update_where (\<lambda>r. in_invocation_id r = i) (fail_invocation_row fin g) (ps_invocations s))"
    using assms(1) by (intro invocations_ok_update) (simp_all add: pool_ok_def)
  ultimately show ?thesis using assms(1) by (simp add: pool_ok_def write_invocation_failure_def)
qed

section \<open>Reservations\<close>

text \<open>The store a reservation leaves, from the one the configuration was synchronised into.\<close>

definition reserved_store ::
  "invoke_request \<Rightarrow> string option \<Rightarrow> fresh_ids \<Rightarrow> string \<Rightarrow> api_row \<Rightarrow> pool_store \<Rightarrow> pool_store" where
  "reserved_store q known fi i a s =
     upd_attempts (\<lambda>rs. rs @ [new_attempt (fi_attempt_id fi) i (ap_api_id a) (fi_now fi)])
       (upd_invocations (\<lambda>is. case known of
           None \<Rightarrow> is @ [new_invocation i q (ap_api_id a) (fi_now fi)]
         | Some _ \<Rightarrow> update_where (\<lambda>r. in_invocation_id r = i) (reopen_row (ap_api_id a)) is)
         (take_lease a s))"

lemma take_lease_sel [simp]:
  "find_invocation i (take_lease a s) = find_invocation i s"
  "ps_invocations (take_lease a s) = ps_invocations s" "ps_attempts (take_lease a s) = ps_attempts s"
  by (simp_all add: find_invocation_def take_lease_def)

lemma reserve_attempt_tx_Inr:
  assumes "reserve_attempt_tx c q known fi s = (Inr rv, t)"
  obtains a ac i where "check_global_quota known s = Inr ()" "pick_api (iq_route_policy q) s = Inr a"
    "api_by_id c (ap_api_id a) = Some ac" "i = (case known of None \<Rightarrow> fi_invocation_id fi | Some i \<Rightarrow> i)"
    "(find_invocation i s = None) = (known = None)" "fi_attempt_id fi \<notin> at_attempt_id ` set (ps_attempts s)"
    "rv = make_reservation fi q i a ac" "t = reserved_store q known fi i a s"
proof -
  obtain a where a: "check_global_quota known s = Inr ()" "pick_api (iq_route_policy q) s = Inr a"
    using assms by (auto simp: reserve_attempt_tx_def seq_Inr_iff)
  then obtain ac where ac: "api_by_id c (ap_api_id a) = Some ac"
    using assms a by (auto simp: reserve_attempt_tx_def seq_Inr_iff return_err_def split: option.splits)
  define i where "i = (case known of None \<Rightarrow> fi_invocation_id fi | Some i \<Rightarrow> i)"
  have rest: "seq (case known of None \<Rightarrow> insert_invocation i q (ap_api_id a) (fi_now fi)
       | Some _ \<Rightarrow> reopen_invocation i (ap_api_id a)) (\<lambda>_.
     seq (insert_attempt (fi_attempt_id fi) i (ap_api_id a) (fi_now fi)) (\<lambda>_.
     return_ok (make_reservation fi q i a ac))) (take_lease a s) = (Inr rv, t)"
    unfolding i_def using assms a ac by (simp add: reserve_attempt_tx_def seq_Inr_iff Let_def)
  show ?thesis
  proof (cases known)
    case None
    then show ?thesis
      using rest that[OF a ac i_def]
      by (auto simp: seq_Inr_iff return_ok_def insert_invocation_def insert_attempt_def reserved_store_def
          split: if_splits)
  next
    case (Some j)
    then show ?thesis
      using rest that[OF a ac i_def]
      by (auto simp: seq_Inr_iff return_ok_def reopen_invocation_def insert_attempt_def reserved_store_def
          split: if_splits)
  qed
qed

lemma reserved_store_sel:
  "ps_apis (reserved_store q known fi i a s) = ps_apis (take_lease a s)"
  "ps_attempts (reserved_store q known fi i a s) =
     ps_attempts s @ [new_attempt (fi_attempt_id fi) i (ap_api_id a) (fi_now fi)]"
  "ps_invocations (reserved_store q known fi i a s) =
     (case known of None \<Rightarrow> ps_invocations s @ [new_invocation i q (ap_api_id a) (fi_now fi)]
      | Some _ \<Rightarrow> update_where (\<lambda>r. in_invocation_id r = i) (reopen_row (ap_api_id a)) (ps_invocations s))"
  "get_offline_failure_threshold (reserved_store q known fi i a s) = get_offline_failure_threshold s"
  "ps_global_limit (reserved_store q known fi i a s) = ps_global_limit s"
  "ps_config_hash (reserved_store q known fi i a s) = ps_config_hash s"
  by (simp_all add: reserved_store_def take_lease_def split: option.split)

lemma pick_api_Inr: "pick_api rp s = Inr a \<Longrightarrow> a \<in> set (ps_apis s) \<and> eligible rp a"
proof -
  assume "pick_api rp s = Inr a"
  then obtain rest where "sort_slice less_loaded (filter (eligible rp) (ps_apis s)) = a # rest"
    by (auto simp: pick_api_def split: list.splits)
  then have "a \<in> set (filter (eligible rp) (ps_apis s))" by (metis list.set_intros(1) set_sort_slice)
  then show ?thesis by simp
qed

lemma new_attempt_sel [simp]:
  "at_attempt_id (new_attempt k i aid now) = k" "at_invocation_id (new_attempt k i aid now) = i"
  "at_api_id (new_attempt k i aid now) = aid" "running_attempt (new_attempt k i aid now)"
  by (simp_all add: new_attempt_def running_attempt_def)

lemma lease_row_sel [simp]:
  "ap_api_id (lease_row l m r) = ap_api_id r" "ap_lease_count (lease_row l m r) = l"
  "ap_failure_count (lease_row l m r) = ap_failure_count r" "ap_enabled (lease_row l m r) = ap_enabled r"
  "ap_max_concurrent (lease_row l m r) = ap_max_concurrent r"
  "ap_status (lease_row l m r) = (if l \<ge> m then ApiStatusLeased else ApiStatusAvailable)"
  by (simp_all add: lease_row_def)

lemma apis_ok_lease:
  assumes ok: "pool_ok s" and a: "a \<in> set (ps_apis s)" "eligible rp a"
  shows "apis_ok (get_offline_failure_threshold s) (ps_apis (take_lease a s))
    (ps_attempts s @ [new_attempt k i (ap_api_id a) now])"
proof -
  from ok have apis: "apis_ok (get_offline_failure_threshold s) (ps_apis s) (ps_attempts s)" by (simp add: pool_ok_def)
  have rows: "api_row_ok (get_offline_failure_threshold s) b' \<and>
      ap_lease_count b' = open_count (ap_api_id b') (ps_attempts s @ [new_attempt k i (ap_api_id a) now])"
    if b: "b \<in> set (ps_apis s)" and b': "b' = (if ap_api_id b = ap_api_id a
      then lease_row (ap_lease_count a + 1) (ap_max_concurrent a) b else b)" for b b'
  proof (cases "ap_api_id b = ap_api_id a")
    case True
    then have "b = a" by (rule api_row_unique[OF ok b a(1)])
    moreover have "\<not> ap_failure_count a \<ge> get_offline_failure_threshold s"
      using apis a by (auto simp: apis_ok_def api_row_ok_def eligible_def resolve_api_status_def)
    ultimately show ?thesis
      using apis b' a by (auto simp: apis_ok_def api_row_ok_def eligible_def resolve_api_status_def)
  next
    case False
    then show ?thesis using apis b b' by (simp add: apis_ok_def)
  qed
  have "distinct (map ap_api_id (ps_apis (take_lease a s)))"
    using apis by (simp add: apis_ok_def take_lease_def row_simps)
  then show ?thesis
    unfolding apis_ok_def take_lease_def upd_sel ball_update_where using rows[OF _ refl] by blast
qed

lemma reopen_row_sel [simp]:
  "in_invocation_id (reopen_row aid r) = in_invocation_id r" "in_api_id (reopen_row aid r) = Some aid"
  "in_status (reopen_row aid r) = InvocationStatusRunning"
  by (simp_all add: reopen_row_def)

lemma new_invocation_sel [simp]:
  "in_invocation_id (new_invocation i q aid now) = i" "in_api_id (new_invocation i q aid now) = Some aid"
  "in_status (new_invocation i q aid now) = InvocationStatusRunning"
  by (simp_all add: new_invocation_def)

lemma find_invocation_None: "find_invocation i s = None \<longleftrightarrow> i \<notin> in_invocation_id ` set (ps_invocations s)"
  by (simp add: find_invocation_def find_key_None)

lemma attempts_ok_add:
  assumes "attempts_ok is rs" and "k \<notin> at_attempt_id ` set rs"
    and "\<And>r. r \<in> set rs \<Longrightarrow> running_attempt r \<Longrightarrow> at_invocation_id r \<noteq> i"
    and "invocation_runs is (new_attempt k i aid now)"
  shows "attempts_ok is (rs @ [new_attempt k i aid now])"
proof -
  have "i \<in> in_invocation_id ` set is" using assms(4) by (force simp: invocation_runs_def)
  then show ?thesis using assms by (auto simp: attempts_ok_def)
qed

lemma attempts_ok_more_invocations:
  "attempts_ok is rs \<Longrightarrow> attempts_ok (is @ js) rs"
  by (auto simp: attempts_ok_def invocation_runs_def)

lemma invocations_ok_add:
  "invocations_ok ids is \<Longrightarrow> i \<notin> in_invocation_id ` set is \<Longrightarrow> aid \<in> ids \<Longrightarrow>
   invocations_ok ids (is @ [new_invocation i q aid now])"
  by (auto simp: invocations_ok_def)

lemma reserved_store_ok:
  assumes ok: "pool_ok s" and a: "a \<in> set (ps_apis s)" "eligible rp a"
    and known: "(find_invocation i s = None) = (known = None)" and fresh: "fi_attempt_id fi \<notin> at_attempt_id ` set (ps_attempts s)"
    and closed: "no_open_attempt i s"
  shows "pool_ok (reserved_store q known fi i a s)"
proof -
  let ?aid = "ap_api_id a"
  let ?is = "case known of None \<Rightarrow> ps_invocations s @ [new_invocation i q ?aid (fi_now fi)]
    | Some _ \<Rightarrow> update_where (\<lambda>r. in_invocation_id r = i) (reopen_row ?aid) (ps_invocations s)"
  from ok have inv: "invocations_ok (ap_api_id ` set (ps_apis s)) (ps_invocations s)"
    and att: "attempts_ok (ps_invocations s) (ps_attempts s)" by (simp_all add: pool_ok_def)
  have other: "at_invocation_id r \<noteq> i" if "r \<in> set (ps_attempts s)" "running_attempt r" for r
    using closed that by (auto simp: no_open_attempt_def)
  have inv': "invocations_ok (ap_api_id ` set (ps_apis s)) ?is"
  proof (cases known)
    case None
    then show ?thesis using known inv a(1) by (simp add: find_invocation_None invocations_ok_add)
  next
    case (Some j)
    then show ?thesis using inv a(1) by (auto intro!: invocations_ok_update)
  qed
  have att': "attempts_ok ?is (ps_attempts s)"
  proof (cases known)
    case None
    then show ?thesis using att by (simp add: attempts_ok_more_invocations)
  next
    case (Some j)
    then show ?thesis using att other by (auto intro!: attempts_ok_invocation)
  qed
  have "invocation_runs ?is (new_attempt (fi_attempt_id fi) i ?aid (fi_now fi))"
  proof (cases known)
    case None
    then show ?thesis by (auto simp: invocation_runs_def)
  next
    case (Some j)
    then obtain r where "r \<in> set (ps_invocations s)" "in_invocation_id r = i"
      using known by (auto simp: find_invocation_None)
    then have "reopen_row ?aid r \<in> set ?is" "in_invocation_id (reopen_row ?aid r) = i"
      using Some by (auto simp: set_update_where)
    then show ?thesis by (auto simp: invocation_runs_def intro!: bexI[of _ "reopen_row ?aid r"])
  qed
  then have "attempts_ok ?is (ps_attempts s @ [new_attempt (fi_attempt_id fi) i ?aid (fi_now fi)])"
    using att' fresh other by (intro attempts_ok_add)
  moreover have "ap_api_id ` set (ps_apis (take_lease a s)) = ap_api_id ` set (ps_apis s)"
    by (simp add: take_lease_def)
  ultimately show ?thesis
    using inv' apis_ok_lease[OF ok a] by (simp add: pool_ok_def reserved_store_sel)
qed

lemma fresh_invocation_closed: "pool_ok s \<Longrightarrow> find_invocation i s = None \<Longrightarrow> no_open_attempt i s"
  by (auto simp: pool_ok_def attempts_ok_def no_open_attempt_def find_invocation_None)

lemma reserve_attempt_tx_ok:
  assumes "pool_ok s" and res: "reserve_attempt_tx c q known fi s = (Inr rv, t)"
    and "\<And>i. known = Some i \<Longrightarrow> no_open_attempt i s"
  shows "pool_ok t"
  using res
proof (cases rule: reserve_attempt_tx_Inr)
  case (1 a ac i)
  then have "no_open_attempt i s"
    using assms(1,3) fresh_invocation_closed by (cases known) auto
  then have "pool_ok (reserved_store q known fi i a s)"
    by (intro reserved_store_ok[OF assms(1), where rp = "iq_route_policy q"]) (use pick_api_Inr[OF 1(2)] 1(5,6) in simp_all)
  then show ?thesis using 1(8) by simp
qed

section \<open>The configuration behind the tables\<close>

definition enabled_ids :: "pool_store \<Rightarrow> string set" where
  "enabled_ids s = ap_api_id ` {r \<in> set (ps_apis s). ap_enabled r}"

text \<open>The tables are those of a configuration with the stored hash.\<close>

definition config_known :: "(model_config \<Rightarrow> string) \<Rightarrow> pool_store \<Rightarrow> bool" where
  "config_known hash s \<longleftrightarrow> (case ps_config_hash s of None \<Rightarrow> ps_apis s = []
     | Some h \<Rightarrow> \<exists>c. model_config_hash hash c = h \<and> enabled_ids s \<subseteq> ac_api_id ` set (mc_apis c) \<and>
         ps_global_limit s = mc_global_max_concurrent c)"

definition pool_inv :: "(model_config \<Rightarrow> string) \<Rightarrow> pool_store \<Rightarrow> bool" where
  "pool_inv hash s \<longleftrightarrow> pool_ok s \<and> config_known hash s"

lemma enabled_ids_update:
  assumes "\<And>r. ap_api_id (f r) = ap_api_id r" and "\<And>r. ap_enabled (f r) = ap_enabled r"
  shows "ap_api_id ` {r \<in> set (update_where p f rs). ap_enabled r} = ap_api_id ` {r \<in> set rs. ap_enabled r}"
proof -
  have "filter ap_enabled (update_where p f rs) = update_where p f (filter ap_enabled rs)"
    using assms(2) by (induction rs) auto
  then have "ap_api_id ` set (filter ap_enabled (update_where p f rs)) = ap_api_id ` set (filter ap_enabled rs)"
    using assms(1) by simp
  then show ?thesis by simp
qed

lemma enabled_ids_upd [simp]:
  "(\<And>r. ap_api_id (f r) = ap_api_id r) \<Longrightarrow> (\<And>r. ap_enabled (f r) = ap_enabled r) \<Longrightarrow>
     enabled_ids (upd_apis (update_where p f) s) = enabled_ids s"
  "enabled_ids (upd_invocations g s) = enabled_ids s" "enabled_ids (upd_attempts h s) = enabled_ids s"
  by (simp_all add: enabled_ids_def enabled_ids_update)

lemma update_where_Nil_iff [simp]: "update_where p f rs = [] \<longleftrightarrow> rs = []"
  by (simp add: update_where_def)

lemma config_known_frame:
  assumes "config_known hash s" and "ps_config_hash t = ps_config_hash s" and "ps_global_limit t = ps_global_limit s"
    and "enabled_ids t = enabled_ids s" and "ps_apis t = [] \<longleftrightarrow> ps_apis s = []"
  shows "config_known hash t"
  using assms by (auto simp: config_known_def split: option.splits)

lemma configured_store_known: "config_known hash (configured_store (model_config_hash hash c) c s)"
proof -
  have "ap_api_id r \<in> ac_api_id ` set (mc_apis c)" if "r \<in> set (configured_apis c (ps_apis s))" "ap_enabled r" for r
    using that(1) by (cases rule: configured_apis_rows) (use that(2) in auto)
  then show ?thesis by (auto simp: config_known_def configured_store_def enabled_ids_def)
qed

lemma sync_config_inv: "pool_inv hash s \<Longrightarrow> sync_config hash c s = (Inr v, t) \<Longrightarrow> pool_inv hash t"
  using configured_store_ok configured_store_known by (auto simp: pool_inv_def sync_config_Inr split: if_splits)

lemma take_lease_known: "config_known hash s \<Longrightarrow> config_known hash (take_lease a s)"
  by (erule config_known_frame) (simp_all add: take_lease_def)

lemma reserve_attempt_tx_inv:
  assumes "pool_inv hash s" and res: "reserve_attempt_tx c q known fi s = (Inr rv, t)"
    and "\<And>i. known = Some i \<Longrightarrow> no_open_attempt i s"
  shows "pool_inv hash t"
proof -
  from assms(1) have ok: "pool_ok s" and cfg: "config_known hash s" by (simp_all add: pool_inv_def)
  from res obtain a i where t: "t = reserved_store q known fi i a s"
    by (cases rule: reserve_attempt_tx_Inr) blast
  have "config_known hash t"
    unfolding t reserved_store_def
    by (rule config_known_frame[OF take_lease_known[OF cfg, of a]]) simp_all
  then show ?thesis using reserve_attempt_tx_ok[OF ok res assms(3)] by (simp add: pool_inv_def)
qed

section \<open>Steps\<close>

lemma with_immediate_tx_Inr [simp]:
  "with_immediate_tx over m s = (Inr v, t) \<longleftrightarrow> over = None \<and> m s = (Inr v, t)"
  by (simp add: with_immediate_tx_def)

lemma with_immediate_tx_Inl: "with_immediate_tx over m s = (Inl e, t) \<Longrightarrow> t = s"
  unfolding with_immediate_tx_def by (rule transaction_InlD)

lemma with_immediate_tx_inv:
  assumes "with_immediate_tx over m s = (r, t)" and "P s" and "\<And>v u. m s = (Inr v, u) \<Longrightarrow> P u"
  shows "P t"
  using assms by (cases r) (auto dest: with_immediate_tx_Inl)

text \<open>Synchronising closes and opens no attempt.\<close>

lemma sync_config_frame:
  "sync_config hash c s = (Inr v, t) \<Longrightarrow> ps_attempts t = ps_attempts s \<and> ps_invocations t = ps_invocations s"
  by (auto simp: sync_config_Inr configured_store_def split: if_splits)

lemma no_open_attempt_sync:
  "no_open_attempt i s \<Longrightarrow> sync_config hash c s = (Inr v, t) \<Longrightarrow> no_open_attempt i t"
  using sync_config_frame by (fastforce simp: no_open_attempt_def)

lemma synced_query_inv:
  "pool_inv hash s \<Longrightarrow> seq (sync_config hash c) (\<lambda>_. query f) s = (Inr v, u) \<Longrightarrow> pool_inv hash u"
  by (auto simp: seq_Inr_iff intro: sync_config_inv)

lemma reserve_inv:
  assumes "pool_inv hash s" and "\<And>i. known = Some i \<Longrightarrow> no_open_attempt i s"
    and "seq (sync_config hash c) (\<lambda>_. reserve_attempt_tx c q known fi) s = (Inr rv, u)"
  shows "pool_inv hash u"
proof -
  obtain v t where t: "sync_config hash c s = (Inr v, t)" "reserve_attempt_tx c q known fi t = (Inr rv, u)"
    using assms(3) by (auto simp: seq_Inr_iff)
  then show ?thesis
    using reserve_attempt_tx_inv[OF sync_config_inv[OF assms(1) t(1)] t(2)] no_open_attempt_sync[OF assms(2) t(1)]
    by blast
qed

lemma success_eq:
  assumes "pool_ok s" "holds_lease rv s" "complete_invocation_success over rv out raw u fin s = (Inr v, t)"
  obtains a where "a \<in> set (ps_apis s)" "ap_api_id a = rv_api_id rv" "over = None"
    "t = write_success rv out raw u fin a s" "load_invocation_response (rv_invocation_id rv) t = Inr v"
proof -
  obtain a where a: "get_invocation_runtime_row (rv_invocation_id rv) s = Inr a"
    "a \<in> set (ps_apis s)" "ap_api_id a = rv_api_id rv"
    by (rule holds_lease_row[OF assms(1,2)])
  show ?thesis
    using assms(3) a that[OF a(2,3)]
    by (auto simp: complete_invocation_success_def seq_Inr_iff dest: check_leased_Inr)
qed

lemma attempt_failure_eq:
  assumes "pool_ok s" "holds_lease rv s" "complete_attempt_failure over rv g fin s = (Inr v, t)"
  obtains a where "a \<in> set (ps_apis s)" "ap_api_id a = rv_api_id rv" "over = None"
    "t = write_attempt_failure rv g fin a s"
proof -
  obtain a where a: "get_invocation_runtime_row (rv_invocation_id rv) s = Inr a"
    "a \<in> set (ps_apis s)" "ap_api_id a = rv_api_id rv"
    by (rule holds_lease_row[OF assms(1,2)])
  show ?thesis
    using assms(3) a that[OF a(2,3)]
    by (auto simp: complete_attempt_failure_def seq_Inr_iff dest: check_leased_Inr)
qed

lemma failure_eq:
  "complete_invocation_failure over i g fin s = (Inr v, t) \<longleftrightarrow>
   over = None \<and> t = write_invocation_failure i g fin s \<and> load_invocation_response i t = Inr v"
  by (auto simp: complete_invocation_failure_def seq_Inr_iff)

lemma write_success_known: "config_known hash s \<Longrightarrow> config_known hash (write_success rv out raw u fin a s)"
  by (erule config_known_frame) (simp_all add: write_success_def Let_def)

lemma write_attempt_failure_known: "config_known hash s \<Longrightarrow> config_known hash (write_attempt_failure rv g fin a s)"
  by (erule config_known_frame) (simp_all add: write_attempt_failure_def Let_def)

lemma success_inv:
  assumes "pool_inv hash s" "holds_lease rv s" "complete_invocation_success over rv out raw u fin s = (r, t)"
  shows "pool_inv hash t"
proof (cases r)
  case (Inl e)
  then show ?thesis using assms by (auto simp: complete_invocation_success_def dest: with_immediate_tx_Inl)
next
  case (Inr v)
  from assms have ok: "pool_ok s" and cfg: "config_known hash s" by (simp_all add: pool_inv_def)
  from success_eq[OF ok assms(2) assms(3)[unfolded Inr]] show ?thesis
    using write_success_ok[OF ok assms(2)] write_success_known[OF cfg] by (metis pool_inv_def)
qed

lemma attempt_failure_inv:
  assumes "pool_inv hash s" "holds_lease rv s" "complete_attempt_failure over rv g fin s = (r, t)"
  shows "pool_inv hash t"
proof (cases r)
  case (Inl e)
  then show ?thesis using assms by (auto simp: complete_attempt_failure_def dest: with_immediate_tx_Inl)
next
  case (Inr v)
  from assms have ok: "pool_ok s" and cfg: "config_known hash s" by (simp_all add: pool_inv_def)
  from attempt_failure_eq[OF ok assms(2) assms(3)[unfolded Inr]] show ?thesis
    using write_attempt_failure_ok[OF ok assms(2)] write_attempt_failure_known[OF cfg] by (metis pool_inv_def)
qed

lemma failure_inv:
  assumes "pool_inv hash s" "no_open_attempt i s" "complete_invocation_failure over i g fin s = (r, t)"
  shows "pool_inv hash t"
proof (cases r)
  case (Inl e)
  then show ?thesis using assms by (auto simp: complete_invocation_failure_def dest: with_immediate_tx_Inl)
next
  case (Inr v)
  then have t: "t = write_invocation_failure i g fin s" using assms(3) by (simp add: failure_eq)
  have "config_known hash s" using assms(1) by (simp add: pool_inv_def)
  then have "config_known hash t"
    by (rule config_known_frame) (simp_all add: t write_invocation_failure_def)
  then show ?thesis using assms(1,2) write_invocation_failure_ok t by (simp add: pool_inv_def)
qed

lemma pool_step_inv: "pool_step hash s t \<Longrightarrow> pool_inv hash s \<Longrightarrow> pool_inv hash t"
proof (induction rule: pool_step.induct)
  case (step_sync over c s r t)
  then show ?case
    unfolding sync_from_model_config_def by (blast intro: with_immediate_tx_inv sync_config_inv)
next
  case (step_reserve over c q fi s r t)
  show ?case
    by (rule with_immediate_tx_inv[where P = "pool_inv hash", OF step_reserve(1)[unfolded reserve_invocation_def] step_reserve(2)])
       (rule reserve_inv[OF step_reserve(2)], simp_all)
next
  case (step_retry i s over c q fi r t)
  show ?case
    by (rule with_immediate_tx_inv[where P = "pool_inv hash", OF step_retry(2)[unfolded reserve_retry_attempt_def] step_retry(3)])
       (rule reserve_inv[OF step_retry(3)], use step_retry(1) in auto)
next
  case (step_success rv s over out raw u fin r t)
  then show ?case by (blast intro: success_inv)
next
  case (step_attempt_failure rv s over g fin r t)
  then show ?case by (blast intro: attempt_failure_inv)
next
  case (step_failure i s over g fin r t)
  then show ?case by (blast intro: failure_inv)
next
  case (step_capacity over c now s r t)
  then show ?case
    unfolding capacity_def by (blast intro: with_immediate_tx_inv synced_query_inv)
next
  case (step_list over c nid limit s r t)
  then show ?case
    unfolding list_records_def by (blast intro: with_immediate_tx_inv synced_query_inv)
next
  case (step_record over c i s r t)
  then show ?case
    unfolding invocation_record_by_id_def by (blast intro: with_immediate_tx_inv synced_query_inv)
qed

lemma new_pool_store_inv: "pool_inv hash new_pool_store"
  by (simp add: pool_inv_def pool_ok_def apis_ok_def invocations_ok_def attempts_ok_def config_known_def new_pool_store_def)

interpretation pool: transition_system "\<lambda>s. s = new_pool_store" "pool_step hash" "pool_inv hash" for hash
  by unfold_locales (auto intro: new_pool_store_inv pool_step_inv)

lemmas reachable_pool_inv = pool.reachable_inv

end
