(* ===== verification/PoolStoreProps.thy ===== *)
theory PoolStoreProps
  imports PoolStoreInv
begin

text \<open>
  What the pool's store promises: the accounting of leases, the limits a reservation keeps, when a reservation is refused,
  when an API goes offline and that it stays offline, what a capacity snapshot predicts, and that synchronising is
  idempotent. \<open>lease_spec\<close> is the abstract contract of the store, a set of open leases, that its steps refine.
\<close>

section \<open>Choosing an API\<close>

interpretation apis: sort_order less_loaded ap_api_id "\<lambda>_. True"
  by unfold_locales (auto simp: less_loaded_def)

lemma distinct_eligible: "pool_ok s \<Longrightarrow> distinct (map ap_api_id (filter (eligible rp) (ps_apis s)))"
  using distinct_map_filter by (auto simp: pool_ok_def apis_ok_def)

lemma pick_api_None: "pick_api rp s = Inl e \<longleftrightarrow> e = ErrNoCapacity \<and> (\<forall>a\<in>set (ps_apis s). \<not> eligible rp a)"
proof -
  have "sort_slice less_loaded (filter (eligible rp) (ps_apis s)) = [] \<longleftrightarrow> (\<forall>a\<in>set (ps_apis s). \<not> eligible rp a)"
    by (simp add: filter_empty_conv)
  then show ?thesis by (auto simp: pick_api_def split: list.splits)
qed

lemma pick_api_least:
  assumes "pool_ok s" "pick_api rp s = Inr a" "b \<in> set (ps_apis s)" "eligible rp b" "b \<noteq> a"
  shows "less_loaded a b"
proof -
  obtain rest where "sort_slice less_loaded (filter (eligible rp) (ps_apis s)) = a # rest"
    using assms(2) by (auto simp: pick_api_def split: list.splits)
  then show ?thesis
    using apis.hd_sort_least[OF _ distinct_eligible[OF assms(1)]] assms(3-5) by auto
qed

lemma pick_api_iff:
  assumes "pool_ok s"
  shows "pick_api rp s = Inr a \<longleftrightarrow> a \<in> set (ps_apis s) \<and> eligible rp a \<and>
    (\<forall>b\<in>set (ps_apis s). eligible rp b \<longrightarrow> b \<noteq> a \<longrightarrow> less_loaded a b)"
    (is "?l \<longleftrightarrow> ?r")
proof
  show "?l \<Longrightarrow> ?r" using pick_api_Inr pick_api_least[OF assms] by blast
next
  assume r: ?r
  then obtain b where b: "pick_api rp s = Inr b"
    using pick_api_None[of rp s] by (metis sum.exhaust_sel)
  have "b = a"
  proof (rule ccontr)
    assume "b \<noteq> a"
    then have "less_loaded b a" "less_loaded a b"
      using r pick_api_least[OF assms b] pick_api_Inr[OF b] by auto
    then show False by (rule apis.less_asym[THEN notE, rotated])
  qed
  then show ?l using b by simp
qed

section \<open>Reservations\<close>

text \<open>What is relied on of SHA-256 here: configurations with the same hash list the same APIs.\<close>

definition collision_free :: "(model_config \<Rightarrow> string) \<Rightarrow> bool" where
  "collision_free hash \<longleftrightarrow> (\<forall>c d. hash c = hash d \<longrightarrow> map ac_api_id (mc_apis c) = map ac_api_id (mc_apis d))"

lemma collision_free_ids:
  assumes "collision_free hash" "model_config_hash hash c = model_config_hash hash d"
  shows "ac_api_id ` set (mc_apis c) = ac_api_id ` set (mc_apis d)"
proof -
  have "map ac_api_id (mc_apis (normalize_model_config_for_hash c)) =
      map ac_api_id (mc_apis (normalize_model_config_for_hash d))"
    using assms unfolding collision_free_def model_config_hash_def by blast
  from arg_cong[OF this, of set] show ?thesis by (simp add: normalize_model_config_for_hash_def)
qed

lemma sync_config_result:
  "\<forall>a\<in>set (mc_apis c). 0 < ac_max_concurrent a \<Longrightarrow> fst (sync_config hash c s) = Inr ()"
proof -
  assume "\<forall>a\<in>set (mc_apis c). 0 < ac_max_concurrent a"
  then have "\<exists>t. sync_config hash c s = (Inr (), t)"
    by (cases "ps_config_hash s = Some (model_config_hash hash c)") (simp_all add: sync_config_Inr)
  then show ?thesis by auto
qed

lemma synced_hash: "sync_config hash c s = (Inr v, t) \<Longrightarrow> ps_config_hash t = Some (model_config_hash hash c)"
  by (auto simp: sync_config_Inr configured_store_def split: if_splits)

lemma api_by_id_None: "api_by_id c aid = None \<longleftrightarrow> aid \<notin> ac_api_id ` set (mc_apis c)"
  by (simp add: api_by_id_def find_key_None)

lemma enabled_configured:
  assumes "pool_inv hash s" "collision_free hash" "ps_config_hash s = Some (model_config_hash hash c)"
    and "a \<in> set (ps_apis s)" "ap_enabled a"
  shows "api_by_id c (ap_api_id a) \<noteq> None"
proof -
  obtain d where d: "model_config_hash hash d = model_config_hash hash c" "enabled_ids s \<subseteq> ac_api_id ` set (mc_apis d)"
    using assms(1,3) by (auto simp: pool_inv_def config_known_def)
  have "ap_api_id a \<in> enabled_ids s" using assms(4,5) by (auto simp: enabled_ids_def)
  then have "ap_api_id a \<in> ac_api_id ` set (mc_apis c)"
    using d(2) collision_free_ids[OF assms(2) d(1)] by blast
  then show ?thesis by (simp add: api_by_id_None)
qed

definition quota_reached :: "pool_store \<Rightarrow> bool" where
  "quota_reached s \<longleftrightarrow> (\<exists>n. ps_global_limit s = Some n \<and> n \<le> running_count (\<lambda>_. True) s)"

lemma counted_for_None [simp]: "counted_for None = (\<lambda>_. True)"
  by (simp add: counted_for_def fun_eq_iff)

lemma check_global_quota_None: "check_global_quota None s = (if quota_reached s then Inl ErrGlobalQuota else Inr ())"
  by (auto simp: check_global_quota_def quota_reached_def get_global_limit_def split: option.splits)

lemma reserve_attempt_tx_new:
  assumes "pick_api (iq_route_policy q) s = Inr a" "api_by_id c (ap_api_id a) = Some ac" "\<not> quota_reached s"
    and "fi_invocation_id fi \<notin> in_invocation_id ` set (ps_invocations s)"
    and "fi_attempt_id fi \<notin> at_attempt_id ` set (ps_attempts s)"
  shows "reserve_attempt_tx c q None fi s =
    (Inr (make_reservation fi q (fi_invocation_id fi) a ac), reserved_store q None fi (fi_invocation_id fi) a s)"
  using assms
  by (simp add: reserve_attempt_tx_def seq_def query_def check_global_quota_None exec_def insert_invocation_def
      find_invocation_None insert_attempt_def return_ok_def reserved_store_def Let_def)

text \<open>Why a new invocation is refused, and nothing else refuses it.\<close>

lemma reserve_invocation_result:
  assumes inv: "pool_inv hash s" and free: "collision_free hash" and sync: "sync_config hash c s = (Inr (), s1)"
    and fresh: "fi_invocation_id fi \<notin> in_invocation_id ` set (ps_invocations s)"
      "fi_attempt_id fi \<notin> at_attempt_id ` set (ps_attempts s)"
  shows "fst (reserve_invocation hash None c q fi s) =
    (if quota_reached s1 then Inl ErrGlobalQuota
     else case pick_api (iq_route_policy q) s1 of Inl e \<Rightarrow> Inl ErrNoCapacity
       | Inr a \<Rightarrow> Inr (make_reservation fi q (fi_invocation_id fi) a (the (api_by_id c (ap_api_id a)))))"
proof -
  have tx: "reserve_invocation hash None c q fi s =
      (case reserve_attempt_tx c q None fi s1 of (Inl e, t) \<Rightarrow> (Inl e, s) | (Inr v, t) \<Rightarrow> (Inr v, t))"
    using sync by (simp add: reserve_invocation_def with_immediate_tx_def transaction_def seq_def)
  show ?thesis
  proof (cases "quota_reached s1")
    case True
    then have "reserve_attempt_tx c q None fi s1 = (Inl ErrGlobalQuota, s1)"
      by (simp add: reserve_attempt_tx_def seq_def query_def check_global_quota_None)
    then show ?thesis using True by (simp add: tx)
  next
    case False
    show ?thesis
    proof (cases "pick_api (iq_route_policy q) s1")
      case (Inl e)
      then have "reserve_attempt_tx c q None fi s1 = (Inl ErrNoCapacity, s1)"
        using False pick_api_None[of "iq_route_policy q" s1 e]
        by (simp add: reserve_attempt_tx_def seq_def query_def check_global_quota_None)
      then show ?thesis using Inl False by (simp add: tx)
    next
      case (Inr a)
      then have "a \<in> set (ps_apis s1)" "ap_enabled a" using pick_api_Inr[OF Inr] by (auto simp: eligible_def)
      then obtain ac where ac: "api_by_id c (ap_api_id a) = Some ac"
        using enabled_configured[OF sync_config_inv[OF inv sync] free synced_hash[OF sync]] by blast
      have "reserve_attempt_tx c q None fi s1 = (Inr (make_reservation fi q (fi_invocation_id fi) a ac),
          reserved_store q None fi (fi_invocation_id fi) a s1)"
        using Inr ac False fresh sync_config_frame[OF sync] by (intro reserve_attempt_tx_new) simp_all
      then show ?thesis using Inr ac False by (simp add: tx)
    qed
  qed
qed

lemma running_count_append [simp]:
  "running_count p (upd_invocations (\<lambda>is. is @ [r]) s) =
   running_count p s + (if in_status r = InvocationStatusRunning \<and> p r then 1 else 0)"
  by (simp add: running_count_def)

lemma running_count_frame [simp]:
  "running_count p (upd_apis f s) = running_count p s" "running_count p (upd_attempts g s) = running_count p s"
  "running_count p (take_lease a s) = running_count p s"
  by (simp_all add: running_count_def take_lease_def)

lemma filter_reopen:
  assumes "distinct (map in_invocation_id is)" "i \<in> in_invocation_id ` set is"
  shows "length (filter (\<lambda>r. in_status r = InvocationStatusRunning)
      (update_where (\<lambda>r. in_invocation_id r = i) (reopen_row aid) is)) =
    length (filter (\<lambda>r. in_status r = InvocationStatusRunning \<and> in_invocation_id r \<noteq> i) is) + 1"
  using assms
proof (induction "is")
  case (Cons r rs)
  show ?case
  proof (cases "in_invocation_id r = i")
    case True
    then have "i \<notin> in_invocation_id ` set rs" using Cons.prems by auto
    then have "update_where (\<lambda>r. in_invocation_id r = i) (reopen_row aid) rs = rs"
      and "filter (\<lambda>r. in_status r = InvocationStatusRunning \<and> in_invocation_id r \<noteq> i) rs =
        filter (\<lambda>r. in_status r = InvocationStatusRunning) rs"
      by (auto intro!: update_where_none filter_cong)
    then show ?thesis using True by simp
  next
    case False
    then show ?thesis using Cons by auto
  qed
qed simp

lemma running_count_reserved:
  assumes "pool_ok s" "(find_invocation i s = None) = (known = None)"
    and "i = (case known of None \<Rightarrow> fi_invocation_id fi | Some i \<Rightarrow> i)"
  shows "running_count (\<lambda>_. True) (reserved_store q known fi i a s) = running_count (counted_for known) s + 1"
proof (cases known)
  case None
  then show ?thesis by (simp add: reserved_store_def)
next
  case (Some j)
  have "distinct (map in_invocation_id (ps_invocations s))" using assms(1) by (simp add: pool_ok_def invocations_ok_def)
  moreover have "i \<in> in_invocation_id ` set (ps_invocations s)" using assms(2) Some by (auto simp: find_invocation_None)
  ultimately have "running_count (\<lambda>_. True) (reserved_store q known fi i a s) =
      int (length (filter (\<lambda>r. in_status r = InvocationStatusRunning \<and> in_invocation_id r \<noteq> i) (ps_invocations s)) + 1)"
    using Some filter_reopen[of "ps_invocations s" i "ap_api_id a"] by (simp add: running_count_def reserved_store_sel)
  then show ?thesis using Some assms(3) by (simp add: running_count_def counted_for_def)
qed

lemma quota_kept:
  "check_global_quota known s = Inr () \<Longrightarrow> ps_global_limit s = Some n \<Longrightarrow> running_count (counted_for known) s + 1 \<le> n"
  by (auto simp: check_global_quota_def get_global_limit_def split: if_splits)

lemma make_reservation_sel [simp]:
  "rv_api_id (make_reservation fi q i a ac) = ap_api_id a"
  "rv_invocation_id (make_reservation fi q i a ac) = i"
  "rv_attempt_id (make_reservation fi q i a ac) = fi_attempt_id fi"
  by (simp_all add: make_reservation_def)

lemma take_lease_row:
  "a \<in> set (ps_apis s) \<Longrightarrow>
   lease_row (ap_lease_count a + 1) (ap_max_concurrent a) a \<in> set (ps_apis (take_lease a s))"
  by (auto simp: take_lease_def set_update_where intro!: bexI[of _ a])

text \<open>What holds after a reservation, new or retried.\<close>

definition reservation_kept :: "route_policy \<Rightarrow> invocation_reservation \<Rightarrow> pool_store \<Rightarrow> bool" where
  "reservation_kept rp rv t \<longleftrightarrow>
     (\<exists>a\<in>set (ps_apis t). ap_api_id a = rv_api_id rv \<and> ap_enabled a \<and> ap_status a \<noteq> ApiStatusOffline \<and>
        1 \<le> ap_lease_count a \<and> ap_lease_count a \<le> ap_max_concurrent a) \<and>
     rp_api_id rp \<in> {None, Some (rv_api_id rv)} \<and> holds_lease rv t \<and>
     (case ps_global_limit t of None \<Rightarrow> True | Some n \<Rightarrow> running_count (\<lambda>_. True) t \<le> n)"

lemma reserve_attempt_tx_kept:
  assumes ok: "pool_ok s" and res: "reserve_attempt_tx c q known fi s = (Inr rv, t)"
  shows "reservation_kept (iq_route_policy q) rv t"
  using res
proof (cases rule: reserve_attempt_tx_Inr)
  case (1 a ac i)
  note a = pick_api_Inr[OF 1(2)]
  have lease: "0 \<le> ap_lease_count a" using ok a by (simp add: pool_ok_def apis_ok_def open_count_def)
  let ?a = "lease_row (ap_lease_count a + 1) (ap_max_concurrent a) a"
  have "?a \<in> set (ps_apis t)" using a take_lease_row by (simp add: 1(8) reserved_store_sel)
  moreover have "ap_api_id ?a = rv_api_id rv \<and> ap_enabled ?a \<and> ap_status ?a \<noteq> ApiStatusOffline \<and>
      1 \<le> ap_lease_count ?a \<and> ap_lease_count ?a \<le> ap_max_concurrent ?a"
    using a lease by (simp add: 1(7) eligible_def)
  moreover have "rp_api_id (iq_route_policy q) \<in> {None, Some (rv_api_id rv)}"
    using a by (auto simp: 1(7) eligible_def split: option.splits)
  moreover have "holds_lease rv t"
    by (auto simp: 1(7,8) holds_lease_def reserved_store_sel)
  moreover have "case ps_global_limit t of None \<Rightarrow> True | Some n \<Rightarrow> running_count (\<lambda>_. True) t \<le> n"
    using quota_kept[OF 1(1)] running_count_reserved[OF ok 1(5,4), of q a]
    by (auto simp: 1(8) reserved_store_sel split: option.split)
  ultimately show ?thesis unfolding reservation_kept_def by blast
qed

lemma reserve_kept:
  assumes "pool_inv hash s" "seq (sync_config hash c) (\<lambda>_. reserve_attempt_tx c q known fi) s = (Inr rv, t)"
  shows "reservation_kept (iq_route_policy q) rv t"
proof -
  obtain v u where u: "sync_config hash c s = (Inr v, u)" "reserve_attempt_tx c q known fi u = (Inr rv, t)"
    using assms(2) by (auto simp: seq_Inr_iff)
  have "pool_ok u" using sync_config_inv[OF assms(1) u(1)] by (simp add: pool_inv_def)
  then show ?thesis using u(2) by (rule reserve_attempt_tx_kept)
qed

section \<open>A store to try the operations on\<close>

definition demo_hash :: "model_config \<Rightarrow> string" where
  "demo_hash c = concat (map (\<lambda>a. concat (map (\<lambda>ch. [CHR ''c'', ch]) (ac_api_id a)) @ ''.'') (mc_apis c))"

definition demo_api :: "string \<Rightarrow> int \<Rightarrow> api_config" where
  "demo_api aid n = \<lparr>ac_api_id = aid, ac_provider = provider_openai_compatible, ac_api_mode = mode_responses,
     ac_model = ''m'', ac_base_url = ''u'', ac_api_key = ''k'', ac_max_concurrent = n, ac_enabled = True,
     ac_headers = [], ac_request_defaults = [], ac_pricing = None\<rparr>"

definition demo_config :: model_config where
  "demo_config = \<lparr>mc_global_max_concurrent = Some 2, mc_offline_failure_threshold = 1,
     mc_retry = \<lparr>rc_max_attempts = None, rc_base_backoff_ms = None\<rparr>,
     mc_apis = [demo_api ''b'' 1, demo_api ''a'' 1]\<rparr>"

definition demo_request :: invoke_request where
  "demo_request = \<lparr>iq_request_id = ''r'', iq_node_id = ''n'', iq_request = [(''input'', JStr ''hi'')],
     iq_chat_request = [], iq_timeout_ms = None, iq_route_policy = \<lparr>rp_api_id = None\<rparr>, iq_stream_sink = False\<rparr>"

definition demo_ids :: "char \<Rightarrow> fresh_ids" where
  "demo_ids ch = \<lparr>fi_now = 5, fi_invocation_id = [CHR ''i'', ch], fi_attempt_id = [CHR ''t'', ch]\<rparr>"

definition demo_reserve :: "char \<Rightarrow> invocation_reservation pool_op" where
  "demo_reserve ch = reserve_invocation demo_hash None demo_config demo_request (demo_ids ch)"

definition demo_store :: pool_store where
  "demo_store = snd (demo_reserve CHR ''1'' new_pool_store)"

lemma concat_escaped_inject:
  "concat (map (\<lambda>ch. [CHR ''c'', ch]) x) @ CHR ''.'' # r = concat (map (\<lambda>ch. [CHR ''c'', ch]) y) @ CHR ''.'' # q \<Longrightarrow>
   x = y \<and> r = q"
proof (induction x arbitrary: y)
  case Nil
  then show ?case by (cases y) auto
next
  case (Cons a x)
  then show ?case by (cases y) auto
qed

lemma demo_hash_free: "collision_free demo_hash"
proof -
  have "map ac_api_id as = map ac_api_id bs"
    if "concat (map (\<lambda>a. concat (map (\<lambda>ch. [CHR ''c'', ch]) (ac_api_id a)) @ ''.'') as) =
        concat (map (\<lambda>a. concat (map (\<lambda>ch. [CHR ''c'', ch]) (ac_api_id a)) @ ''.'') bs)" for as bs
    using that
  proof (induction as arbitrary: bs)
    case Nil
    then show ?case by (cases bs) auto
  next
    case (Cons a as)
    then show ?case by (cases bs) (auto dest!: concat_escaped_inject)
  qed
  then show ?thesis unfolding collision_free_def demo_hash_def by blast
qed

lemma demo_store_reachable: "reachable (\<lambda>s. s = new_pool_store) (pool_step demo_hash) demo_store"
proof (rule reach_step)
  show "reachable (\<lambda>s. s = new_pool_store) (pool_step demo_hash) new_pool_store" by (simp add: reach_init)
  show "pool_step demo_hash new_pool_store demo_store"
    by (rule step_reserve[of demo_hash None demo_config demo_request "demo_ids CHR ''1''" _ "fst (demo_reserve CHR ''1'' new_pool_store)"])
       (simp add: demo_store_def demo_reserve_def)
qed

section \<open>Properties: limits\<close>

text \<open>
  C4. In every state the store can reach, the lease count of an API is the number of its running attempts, its status is
  the one its other columns determine, and an invocation has at most one running attempt.
\<close>

theorem lease_accounting:
  assumes "reachable (\<lambda>s. s = new_pool_store) (pool_step hash) s"
  shows "(\<forall>a\<in>set (ps_apis s).
      ap_lease_count a = int (length (filter (\<lambda>r. at_status r = InvocationStatusRunning \<and> at_api_id r = ap_api_id a)
        (ps_attempts s))) \<and>
      ap_status a = resolve_api_status (ap_enabled a) (ap_lease_count a) (ap_max_concurrent a) (ap_failure_count a)
        (get_offline_failure_threshold s)) \<and>
    distinct (map at_invocation_id (filter (\<lambda>r. at_status r = InvocationStatusRunning) (ps_attempts s)))"
proof -
  have "pool_ok s" using reachable_pool_inv[OF assms] by (simp add: pool_inv_def)
  moreover have eq: "running_attempt = (\<lambda>r. at_status r = InvocationStatusRunning)"
    by (simp add: running_attempt_def fun_eq_iff)
  ultimately show ?thesis
    unfolding pool_ok_def apis_ok_def attempts_ok_def api_row_ok_def open_count_def eq by blast
qed

theorem lease_accounting_witness:
  "ps_apis demo_store \<noteq> [] \<and>
   list_all (\<lambda>a.
      ap_lease_count a = int (length (filter (\<lambda>r. at_status r = InvocationStatusRunning \<and> at_api_id r = ap_api_id a)
        (ps_attempts demo_store))) \<and>
      ap_status a = resolve_api_status (ap_enabled a) (ap_lease_count a) (ap_max_concurrent a) (ap_failure_count a)
        (get_offline_failure_threshold demo_store)) (ps_apis demo_store) \<and>
    distinct (map at_invocation_id (filter (\<lambda>r. at_status r = InvocationStatusRunning) (ps_attempts demo_store)))"
  unfolding list_all_iff
  by (intro conjI lease_accounting[OF demo_store_reachable, THEN conjunct1] lease_accounting[OF demo_store_reachable, THEN conjunct2])
    code_simp

text \<open>
  C9. A reservation, of a new invocation or of a retry, is on an enabled API that is not offline and is the routed one if the
  request routes; it leaves that API with at most \<open>max_concurrent\<close> leases and the pool with at most the global limit of
  running invocations, and its attempt holds the lease.
\<close>

theorem reserve_respects_limits:
  assumes "reachable (\<lambda>s. s = new_pool_store) (pool_step hash) s"
    and "reserve_invocation hash over c q fi s = (Inr rv, t) \<or> reserve_retry_attempt hash over c i q fi s = (Inr rv, t)"
  shows "(\<exists>a\<in>set (ps_apis t). ap_api_id a = rv_api_id rv \<and> ap_enabled a \<and> ap_status a \<noteq> ApiStatusOffline \<and>
        1 \<le> ap_lease_count a \<and> ap_lease_count a \<le> ap_max_concurrent a) \<and>
     rp_api_id (iq_route_policy q) \<in> {None, Some (rv_api_id rv)} \<and> holds_lease rv t \<and>
     (case ps_global_limit t of None \<Rightarrow> True | Some n \<Rightarrow> running_count (\<lambda>_. True) t \<le> n)"
proof -
  note inv = reachable_pool_inv[OF assms(1)]
  have "reservation_kept (iq_route_policy q) rv t"
    using assms(2) reserve_kept[OF inv] by (auto simp: reserve_invocation_def reserve_retry_attempt_def)
  then show ?thesis unfolding reservation_kept_def .
qed

definition demo_reservation :: "char \<Rightarrow> pool_store \<Rightarrow> invocation_reservation" where
  "demo_reservation ch s = (case demo_reserve ch s of (Inr rv, t) \<Rightarrow> rv | (Inl e, t) \<Rightarrow> undefined)"

lemma demo_reserve_ok: "demo_reserve CHR ''2'' demo_store =
    (Inr (demo_reservation CHR ''2'' demo_store), snd (demo_reserve CHR ''2'' demo_store))"
  by code_simp

theorem reserve_respects_limits_witness:
  "holds_lease (demo_reservation CHR ''2'' demo_store) (snd (demo_reserve CHR ''2'' demo_store)) \<and>
   rv_api_id (demo_reservation CHR ''2'' demo_store) = ''b''"
proof
  show "holds_lease (demo_reservation CHR ''2'' demo_store) (snd (demo_reserve CHR ''2'' demo_store))"
    using reserve_respects_limits[OF demo_store_reachable, OF disjI1, OF demo_reserve_ok[unfolded demo_reserve_def]]
    by (simp add: demo_reserve_def)
  show "rv_api_id (demo_reservation CHR ''2'' demo_store) = ''b''" by code_simp
qed

text \<open>
  With fresh identifiers and an uncancelled context a new invocation is refused for exactly two reasons, in this
  order: the global limit is reached, or no API is eligible for its route. In particular an API of the tables is
  always found in the configuration.
\<close>

theorem reserve_refusals:
  assumes "reachable (\<lambda>s. s = new_pool_store) (pool_step hash) s" and "collision_free hash"
    and "\<forall>a\<in>set (mc_apis c). 0 < ac_max_concurrent a"
    and "fi_invocation_id fi \<notin> in_invocation_id ` set (ps_invocations s)"
    and "fi_attempt_id fi \<notin> at_attempt_id ` set (ps_attempts s)"
    and "s1 = snd (sync_config hash c s)"
  shows "(fst (reserve_invocation hash None c q fi s) = Inl ErrGlobalQuota \<longleftrightarrow> quota_reached s1) \<and>
    (fst (reserve_invocation hash None c q fi s) = Inl ErrNoCapacity \<longleftrightarrow>
       \<not> quota_reached s1 \<and> (\<forall>a\<in>set (ps_apis s1). \<not> eligible (iq_route_policy q) a)) \<and>
    (is_ok (fst (reserve_invocation hash None c q fi s)) \<longleftrightarrow>
       \<not> quota_reached s1 \<and> (\<exists>a\<in>set (ps_apis s1). eligible (iq_route_policy q) a))"
proof -
  have "sync_config hash c s = (Inr (), s1)"
    using assms(3,6) by (auto simp: prod_eq_iff sync_config_result)
  note res = reserve_invocation_result[OF reachable_pool_inv[OF assms(1)] assms(2) this assms(4,5), of q]
  show ?thesis
  proof (cases "pick_api (iq_route_policy q) s1")
    case (Inl e)
    then show ?thesis using res pick_api_None[of "iq_route_policy q" s1 e] by auto
  next
    case (Inr a)
    then show ?thesis using res pick_api_Inr[OF Inr] by auto
  qed
qed

theorem reserve_refusals_witness:
  "is_ok (fst (reserve_invocation demo_hash None demo_config demo_request (demo_ids CHR ''2'') demo_store)) \<and>
   \<not> quota_reached (snd (sync_config demo_hash demo_config demo_store))"
proof -
  have "fi_invocation_id (demo_ids CHR ''2'') \<notin> in_invocation_id ` set (ps_invocations demo_store)"
    and "fi_attempt_id (demo_ids CHR ''2'') \<notin> at_attempt_id ` set (ps_attempts demo_store)"
    and "\<forall>a\<in>set (mc_apis demo_config). 0 < ac_max_concurrent a" by code_simp+
  note reserve_refusals[OF demo_store_reachable demo_hash_free this(3,1,2) refl, of demo_request]
  moreover have "is_ok (fst (reserve_invocation demo_hash None demo_config demo_request (demo_ids CHR ''2'') demo_store))"
    by code_simp
  ultimately show ?thesis by blast
qed

section \<open>Properties: completions\<close>

lemma check_leased_ok:
  assumes "pool_ok s" "holds_lease rv s" "a \<in> set (ps_apis s)" "ap_api_id a = rv_api_id rv"
  shows "check_leased rv s = Inr a"
proof -
  obtain b where b: "get_invocation_runtime_row (rv_invocation_id rv) s = Inr b"
    "b \<in> set (ps_apis s)" "ap_api_id b = rv_api_id rv" "0 < ap_lease_count b"
    by (rule holds_lease_row[OF assms(1,2)])
  then have "b = a" using api_row_unique[OF assms(1) b(2) assms(3)] assms(4) by simp
  then show ?thesis using b by (simp add: check_leased_def)
qed

lemma lease_released:
  assumes "closes f" and "ps_attempts t = update_where (\<lambda>r. at_attempt_id r = rv_attempt_id rv) f (ps_attempts s)"
  shows "\<not> holds_lease rv t"
proof
  assume "holds_lease rv t"
  then obtain r where "r \<in> set (ps_attempts t)" "running_attempt r" "at_attempt_id r = rv_attempt_id rv"
    by (auto simp: holds_lease_def)
  moreover obtain q where "r = (if at_attempt_id q = rv_attempt_id rv then f q else q)"
    using calculation(1) assms(2) by (auto simp: set_update_where)
  ultimately show False using assms(1) by (simp add: closes_def split: if_splits)
qed

lemma attempt_failure_runs:
  assumes "pool_ok s" "holds_lease rv s" "a \<in> set (ps_apis s)" "ap_api_id a = rv_api_id rv"
  shows "complete_attempt_failure None rv g fin s = (Inr (), write_attempt_failure rv g fin a s)"
  using check_leased_ok[OF assms]
  by (simp add: complete_attempt_failure_def with_immediate_tx_def transaction_def seq_def query_def exec_def)

text \<open>
  A failed attempt always gives its lease back, and counts as a failure of its API exactly when its error says that
  the provider could not serve; the API goes offline exactly when it is disabled or its failures reach the threshold.
  The other APIs and the invocations are not touched, and the attempt no longer holds a lease.
\<close>

theorem attempt_failure_effect:
  assumes "reachable (\<lambda>s. s = new_pool_store) (pool_step hash) s" and "holds_lease rv s"
    and "a \<in> set (ps_apis s)" and "ap_api_id a = rv_api_id rv"
    and "n = ap_failure_count a + (if counts_toward_offline g then 1 else 0)"
  shows "\<exists>t. complete_attempt_failure None rv g fin s = (Inr (), t) \<and> \<not> holds_lease rv t \<and>
    ps_invocations t = ps_invocations s \<and> (\<forall>b\<in>set (ps_apis s). ap_api_id b \<noteq> ap_api_id a \<longrightarrow> b \<in> set (ps_apis t)) \<and>
    (\<exists>b\<in>set (ps_apis t). ap_api_id b = ap_api_id a \<and> ap_lease_count b = ap_lease_count a - 1 \<and>
       ap_failure_count b = n \<and> ap_last_error b = Some (ge_message g) \<and>
       (ap_status b = ApiStatusOffline \<longleftrightarrow> \<not> ap_enabled a \<or> get_offline_failure_threshold s \<le> n))"
proof -
  let ?t = "write_attempt_failure rv g fin a s"
  let ?f = "release_row (ap_lease_count a - 1) n (Some (ge_message g)) (resolve_api_status (ap_enabled a)
    (ap_lease_count a - 1) (ap_max_concurrent a) n (get_offline_failure_threshold s))"
  have ok: "pool_ok s" using reachable_pool_inv[OF assms(1)] by (simp add: pool_inv_def)
  have apis: "ps_apis ?t = update_where (\<lambda>r. ap_api_id r = rv_api_id rv) ?f (ps_apis s)"
    by (simp add: write_attempt_failure_def Let_def assms(5))
  have "\<not> holds_lease rv ?t" by (rule lease_released[OF closes_fail]) (simp add: write_attempt_failure_def Let_def)
  moreover have "ps_invocations ?t = ps_invocations s" by (simp add: write_attempt_failure_def Let_def)
  moreover have "\<forall>b\<in>set (ps_apis s). ap_api_id b \<noteq> ap_api_id a \<longrightarrow> b \<in> set (ps_apis ?t)"
    unfolding apis using assms(4) by (auto simp: set_update_where)
  moreover have "?f a \<in> set (ps_apis ?t)" unfolding apis using assms(3,4) by (auto simp: set_update_where)
  moreover have "ap_last_error (?f a) = Some (ge_message g)" by (simp add: release_row_def)
  moreover have "ap_status (?f a) = ApiStatusOffline \<longleftrightarrow> \<not> ap_enabled a \<or> get_offline_failure_threshold s \<le> n"
    by (simp add: resolve_api_status_def)
  ultimately show ?thesis
    using attempt_failure_runs[OF ok assms(2-4)] by (intro exI[of _ ?t] conjI bexI[of _ "?f a"]) simp_all
qed

definition demo_error :: gateway_error where
  "demo_error = \<lparr>ge_code = ''provider_timeout'', ge_message = ''timed out'', ge_retryable = True,
     ge_provider_status_code = None, ge_details = []\<rparr>"

definition demo_held :: invocation_reservation where
  "demo_held = demo_reservation CHR ''1'' new_pool_store"

lemma demo_held: "holds_lease demo_held demo_store"
  by code_simp

definition demo_leased :: api_row where
  "demo_leased = lease_row 1 1 (endpoint_row (demo_api ''a'' 1) 0 0 1)"

lemma demo_leased: "demo_leased \<in> set (ps_apis demo_store)" "ap_api_id demo_leased = rv_api_id demo_held"
  by code_simp+

theorem attempt_failure_effect_witness:
  "\<exists>t. complete_attempt_failure None demo_held demo_error 9 demo_store = (Inr (), t) \<and>
    (\<exists>b\<in>set (ps_apis t). ap_api_id b = ''a'' \<and> ap_status b = ApiStatusOffline)"
proof -
  have "ap_api_id demo_leased = ''a''"
    "get_offline_failure_threshold demo_store \<le> ap_failure_count demo_leased + (if counts_toward_offline demo_error then 1 else 0)"
    by code_simp+
  then show ?thesis
    using attempt_failure_effect[OF demo_store_reachable demo_held demo_leased refl, of demo_error 9] by metis
qed

lemma success_runs:
  assumes ok: "pool_ok s" "holds_lease rv s" "a \<in> set (ps_apis s)" "ap_api_id a = rv_api_id rv"
  obtains v where "complete_invocation_success None rv out raw (Some u) fin s = (Inr v, write_success rv out raw (Some u) fin a s)"
    "load_invocation_response (rv_invocation_id rv) (write_success rv out raw (Some u) fin a s) = Inr v"
    "iv_invocation_id v = rv_invocation_id rv" "iv_status v = InvocationStatusSuccess" "iv_output_text v = out"
    "iv_response v = raw" "iv_usage v = Some u" "iv_error v = None"
proof -
  let ?t = "write_success rv out raw (Some u) fin a s"
  obtain i where i: "find_invocation (rv_invocation_id rv) s = Some i"
  proof -
    obtain b where "get_invocation_runtime_row (rv_invocation_id rv) s = Inr b" by (rule holds_lease_row[OF ok(1,2)])
    then show ?thesis using that by (auto simp: get_invocation_runtime_row_def split: option.splits)
  qed
  then have id: "in_invocation_id i = rv_invocation_id rv" by (auto simp: find_invocation_def dest: find_SomeD)
  moreover have "find_invocation (rv_invocation_id rv) ?t = Some (succeed_invocation_row fin out raw (Some u) i)"
    using i id by (simp add: find_invocation_def write_success_def Let_def find_update_where)
  ultimately obtain v where v: "load_invocation_response (rv_invocation_id rv) ?t = Inr v"
    "iv_invocation_id v = rv_invocation_id rv" "iv_status v = InvocationStatusSuccess" "iv_output_text v = out"
    "iv_response v = raw" "iv_usage v = Some u" "iv_error v = None"
    by (simp add: load_invocation_response_def load_invocation_record_def succeed_invocation_row_def marshal_usage_def)
  have "complete_invocation_success None rv out raw (Some u) fin s = (Inr v, ?t)"
    using check_leased_ok[OF ok] v(1)
    by (simp add: complete_invocation_success_def with_immediate_tx_def transaction_def seq_def query_def exec_def)
  then show ?thesis using that v by blast
qed

text \<open>
  A successful completion always goes through: it gives the lease back, clears the API's failures and error, and stores
  the output, the response and the usage in the invocation, which is what the caller gets back.
\<close>

theorem success_effect:
  assumes "reachable (\<lambda>s. s = new_pool_store) (pool_step hash) s" and "holds_lease rv s"
    and "a \<in> set (ps_apis s)" and "ap_api_id a = rv_api_id rv"
  shows "\<exists>t v. complete_invocation_success None rv out raw (Some u) fin s = (Inr v, t) \<and> \<not> holds_lease rv t \<and>
    (\<exists>b\<in>set (ps_apis t). ap_api_id b = ap_api_id a \<and> ap_lease_count b = ap_lease_count a - 1 \<and>
       ap_failure_count b = 0 \<and> ap_last_error b = None) \<and>
    iv_invocation_id v = rv_invocation_id rv \<and> iv_status v = InvocationStatusSuccess \<and>
    iv_output_text v = out \<and> iv_response v = raw \<and> iv_usage v = Some u \<and> iv_error v = None \<and>
    load_invocation_response (rv_invocation_id rv) t = Inr v"
proof -
  let ?t = "write_success rv out raw (Some u) fin a s"
  let ?f = "release_row (ap_lease_count a - 1) 0 None (resolve_api_status (ap_enabled a)
    (ap_lease_count a - 1) (ap_max_concurrent a) 0 (get_offline_failure_threshold s))"
  have "pool_ok s" using reachable_pool_inv[OF assms(1)] by (simp add: pool_inv_def)
  then obtain v where "complete_invocation_success None rv out raw (Some u) fin s = (Inr v, ?t)"
    and v: "load_invocation_response (rv_invocation_id rv) ?t = Inr v"
    "iv_invocation_id v = rv_invocation_id rv" "iv_status v = InvocationStatusSuccess" "iv_output_text v = out"
    "iv_response v = raw" "iv_usage v = Some u" "iv_error v = None"
    using success_runs[OF _ assms(2-4)] by blast
  moreover have "\<not> holds_lease rv ?t" by (rule lease_released[OF closes_succeed]) (simp add: write_success_def Let_def)
  moreover have "?f a \<in> set (ps_apis ?t)"
    using assms(3,4) by (auto simp: write_success_def Let_def set_update_where)
  moreover have "ap_last_error (?f a) = None" by (simp add: release_row_def)
  ultimately show ?thesis
    by (intro exI[of _ ?t] exI[of _ v] conjI bexI[of _ "?f a"]) simp_all
qed

theorem success_effect_witness:
  "\<exists>t v. complete_invocation_success None demo_held (Some ''hello'') [] (Some no_usage) 9 demo_store = (Inr v, t) \<and>
    iv_output_text v = Some ''hello''"
  using success_effect[OF demo_store_reachable demo_held demo_leased, of "Some ''hello''" "[]" no_usage 9] by blast

section \<open>Properties: offline APIs\<close>

definition idle_with :: "string \<Rightarrow> int \<Rightarrow> pool_store \<Rightarrow> bool" where
  "idle_with aid n s \<longleftrightarrow> (\<exists>a\<in>set (ps_apis s). ap_api_id a = aid \<and> ap_lease_count a = 0 \<and> ap_failure_count a = n)"

lemma idle_configured:
  assumes "pool_ok s" "idle_with aid n s"
  shows "idle_with aid n (configured_store h c s)"
proof -
  obtain a where a: "a \<in> set (ps_apis s)" "ap_api_id a = aid" "ap_lease_count a = 0" "ap_failure_count a = n"
    using assms(2) by (auto simp: idle_with_def)
  have "\<forall>r\<in>set (configured_apis c (ps_apis s)). ap_api_id r = aid \<longrightarrow> ap_lease_count r = 0 \<and> ap_failure_count r = n"
  proof (rule configured_apis_counters)
    show "\<forall>r\<in>set (ps_apis s). ap_api_id r = aid \<longrightarrow> ap_lease_count r = 0 \<and> ap_failure_count r = n"
      using a api_row_unique[OF assms(1) _ a(1)] by metis
    show "\<forall>i. i \<notin> ap_api_id ` set (ps_apis s) \<longrightarrow> i = aid \<longrightarrow> (0::int) = 0 \<and> 0 = n"
      using a by blast
  qed
  moreover have "aid \<in> ap_api_id ` set (configured_apis c (ps_apis s))"
    using a by (auto simp: configured_apis_ids)
  ultimately show ?thesis by (auto simp: idle_with_def configured_store_def)
qed

lemma idle_sync: "pool_ok s \<Longrightarrow> idle_with aid n s \<Longrightarrow> sync_config hash c s = (Inr v, t) \<Longrightarrow> idle_with aid n t"
  using idle_configured by (auto simp: sync_config_Inr split: if_splits)

lemma idle_update:
  assumes "idle_with aid n s" "ps_apis t = update_where (\<lambda>r. ap_api_id r = x) f (ps_apis s)" "x \<noteq> aid"
  shows "idle_with aid n t"
proof -
  obtain a where a: "a \<in> set (ps_apis s)" "ap_api_id a = aid" "ap_lease_count a = 0" "ap_failure_count a = n"
    using assms(1) by (auto simp: idle_with_def)
  then have "a \<in> set (ps_apis t)" using assms(2,3) by (auto simp: set_update_where)
  with a show ?thesis by (auto simp: idle_with_def)
qed

lemma idle_not_held:
  assumes "pool_ok s" "idle_with aid n s" "holds_lease rv s"
  shows "rv_api_id rv \<noteq> aid"
proof
  assume eq: "rv_api_id rv = aid"
  obtain a where a: "a \<in> set (ps_apis s)" "ap_api_id a = rv_api_id rv" "0 < ap_lease_count a"
    by (rule holds_lease_row[OF assms(1,3)])
  moreover obtain b where "b \<in> set (ps_apis s)" "ap_api_id b = aid" "ap_lease_count b = 0"
    using assms(2) by (auto simp: idle_with_def)
  ultimately show False using api_row_unique[OF assms(1)] eq by fastforce
qed

lemma idle_offline:
  assumes "pool_ok s" "idle_with aid n s" "get_offline_failure_threshold s \<le> n" "a \<in> set (ps_apis s)" "ap_api_id a = aid"
  shows "ap_status a = ApiStatusOffline"
proof -
  obtain b where b: "b \<in> set (ps_apis s)" "ap_api_id b = aid" "ap_failure_count b = n"
    using assms(2) by (auto simp: idle_with_def)
  then have "ap_failure_count a = n" using api_row_unique[OF assms(1,4) b(1)] assms(5) by simp
  then show ?thesis
    using assms(1,3,4) by (auto simp: pool_ok_def apis_ok_def api_row_ok_def resolve_api_status_def)
qed

lemma idle_reserve:
  assumes ok: "pool_inv hash s" and idle: "idle_with aid n s" and n: "get_offline_failure_threshold t \<le> n"
    and res: "seq (sync_config hash c) (\<lambda>_. reserve_attempt_tx c q known fi) s = (Inr rv, t)"
  shows "idle_with aid n t"
proof -
  obtain v u where u: "sync_config hash c s = (Inr v, u)" "reserve_attempt_tx c q known fi u = (Inr rv, t)"
    using res by (auto simp: seq_Inr_iff)
  have oku: "pool_ok u" using sync_config_inv[OF ok u(1)] by (simp add: pool_inv_def)
  have idleu: "idle_with aid n u" using idle_sync[OF _ idle u(1)] ok by (simp add: pool_inv_def)
  from u(2) show ?thesis
  proof (cases rule: reserve_attempt_tx_Inr)
    case (1 a ac i)
    have "ap_api_id a \<noteq> aid"
    proof
      assume "ap_api_id a = aid"
      moreover have "get_offline_failure_threshold u \<le> n" using n by (simp add: 1(8) reserved_store_sel)
      ultimately have "ap_status a = ApiStatusOffline"
        using idle_offline[OF oku idleu] pick_api_Inr[OF 1(2)] by blast
      then show False using pick_api_Inr[OF 1(2)] by (simp add: eligible_def)
    qed
    then show ?thesis
      using idle_update[OF idleu, of t] by (simp add: 1(8) reserved_store_sel take_lease_def)
  qed
qed

lemma with_immediate_tx_idle:
  assumes "with_immediate_tx over m s = (r, t)" and "idle_with aid n s"
    and "\<And>v. m s = (Inr v, t) \<Longrightarrow> idle_with aid n t"
  shows "idle_with aid n t"
  using assms by (cases r) (auto dest: with_immediate_tx_Inl)

lemma synced_query_idle:
  "pool_inv hash s \<Longrightarrow> idle_with aid n s \<Longrightarrow> seq (sync_config hash c) (\<lambda>_. query f) s = (Inr v, t) \<Longrightarrow> idle_with aid n t"
  by (auto simp: seq_Inr_iff pool_inv_def intro: idle_sync)

lemma success_idle:
  assumes "pool_inv hash s" "idle_with aid n s" "holds_lease rv s"
    and res: "complete_invocation_success over rv out raw u fin s = (r, t)"
  shows "idle_with aid n t"
proof (cases r)
  case (Inl e)
  then show ?thesis using assms by (auto simp: complete_invocation_success_def dest: with_immediate_tx_Inl)
next
  case (Inr v)
  from assms have ok: "pool_ok s" by (simp add: pool_inv_def)
  from success_eq[OF ok assms(3) res[unfolded Inr]] obtain a where "t = write_success rv out raw u fin a s" by blast
  then show ?thesis
    using idle_update[OF assms(2), of t] idle_not_held[OF ok assms(2,3)] by (simp add: write_success_def Let_def)
qed

lemma attempt_failure_idle:
  assumes "pool_inv hash s" "idle_with aid n s" "holds_lease rv s"
    and res: "complete_attempt_failure over rv g fin s = (r, t)"
  shows "idle_with aid n t"
proof (cases r)
  case (Inl e)
  then show ?thesis using assms by (auto simp: complete_attempt_failure_def dest: with_immediate_tx_Inl)
next
  case (Inr v)
  from assms have ok: "pool_ok s" by (simp add: pool_inv_def)
  from attempt_failure_eq[OF ok assms(3) res[unfolded Inr]] obtain a where "t = write_attempt_failure rv g fin a s" by blast
  then show ?thesis
    using idle_update[OF assms(2), of t] idle_not_held[OF ok assms(2,3)] by (simp add: write_attempt_failure_def Let_def)
qed

lemma failure_idle:
  assumes "idle_with aid n s" "complete_invocation_failure over i g fin s = (r, t)"
  shows "idle_with aid n t"
proof (cases r)
  case (Inl e)
  then show ?thesis using assms by (auto simp: complete_invocation_failure_def dest: with_immediate_tx_Inl)
next
  case (Inr v)
  then show ?thesis using assms by (simp add: failure_eq idle_with_def write_invocation_failure_def)
qed

lemma pool_step_idle:
  "pool_step hash s t \<Longrightarrow> pool_inv hash s \<Longrightarrow> idle_with aid n s \<Longrightarrow> get_offline_failure_threshold t \<le> n \<Longrightarrow> idle_with aid n t"
proof (induction rule: pool_step.induct)
  case (step_sync over c s r t)
  then show ?case
    unfolding sync_from_model_config_def pool_inv_def by (blast intro: with_immediate_tx_idle idle_sync)
next
  case (step_reserve over c q fi s r t)
  show ?case
    by (rule with_immediate_tx_idle[OF step_reserve(1)[unfolded reserve_invocation_def] step_reserve(3)])
       (rule idle_reserve[OF step_reserve(2-4)])
next
  case (step_retry i s over c q fi r t)
  show ?case
    by (rule with_immediate_tx_idle[OF step_retry(2)[unfolded reserve_retry_attempt_def] step_retry(4)])
       (rule idle_reserve[OF step_retry(3-5)])
next
  case (step_success rv s over out raw u fin r t)
  then show ?case by (blast intro: success_idle)
next
  case (step_attempt_failure rv s over g fin r t)
  then show ?case by (blast intro: attempt_failure_idle)
next
  case (step_failure i s over g fin r t)
  then show ?case by (blast intro: failure_idle)
next
  case (step_capacity over c now s r t)
  then show ?case
    unfolding capacity_def by (blast intro: with_immediate_tx_idle synced_query_idle)
next
  case (step_list over c nid limit s r t)
  then show ?case
    unfolding list_records_def by (blast intro: with_immediate_tx_idle synced_query_idle)
next
  case (step_record over c i s r t)
  then show ?case
    unfolding invocation_record_by_id_def by (blast intro: with_immediate_tx_idle synced_query_idle)
qed

text \<open>
  C37. An API whose failures have reached the threshold and that has no lease left never comes back: whatever the store does
  from there, as long as the threshold stays, the API is offline, with the same failures and no lease. Only raising the
  threshold in the configuration helps.
\<close>

theorem offline_is_permanent:
  assumes start: "reachable (\<lambda>s. s = new_pool_store) (pool_step hash) s"
    and a: "a \<in> set (ps_apis s)" "ap_lease_count a = 0" "get_offline_failure_threshold s \<le> ap_failure_count a"
    and steps: "reachable (\<lambda>u. u = s)
      (\<lambda>u v. pool_step hash u v \<and> get_offline_failure_threshold v = get_offline_failure_threshold s) t"
  shows "\<exists>b\<in>set (ps_apis t). ap_api_id b = ap_api_id a \<and> ap_status b = ApiStatusOffline \<and>
    ap_failure_count b = ap_failure_count a \<and> ap_lease_count b = 0"
proof -
  let ?th = get_offline_failure_threshold
  have "pool_inv hash t \<and> idle_with (ap_api_id a) (ap_failure_count a) t \<and> ?th t = ?th s"
    using steps
  proof (induction rule: reachable.induct)
    case (reach_init u)
    then show ?case using reachable_pool_inv[OF start] a by (auto simp: idle_with_def)
  next
    case (reach_step u v)
    then show ?case using pool_step_inv pool_step_idle a(3) by metis
  qed
  then show ?thesis
    using idle_offline[of t "ap_api_id a" "ap_failure_count a"] a(3) by (auto simp: idle_with_def pool_inv_def)
qed

definition demo_offline :: pool_store where
  "demo_offline = snd (complete_attempt_failure None demo_held demo_error 9 demo_store)"

definition demo_offline_row :: api_row where
  "demo_offline_row = release_row 0 1 (Some ''timed out'') ApiStatusOffline demo_leased"

theorem offline_is_permanent_witness:
  "\<exists>b\<in>set (ps_apis (snd (demo_reserve CHR ''2'' demo_offline))). ap_api_id b = ''a'' \<and> ap_status b = ApiStatusOffline"
proof -
  have start: "reachable (\<lambda>s. s = new_pool_store) (pool_step demo_hash) demo_offline"
  proof (rule reach_step[OF demo_store_reachable])
    show "pool_step demo_hash demo_store demo_offline"
      by (rule step_attempt_failure[OF demo_held, of None demo_error 9 "fst (complete_attempt_failure None demo_held demo_error 9 demo_store)"])
         (simp add: demo_offline_def)
  qed
  have row: "demo_offline_row \<in> set (ps_apis demo_offline)" "ap_lease_count demo_offline_row = 0"
    "get_offline_failure_threshold demo_offline \<le> ap_failure_count demo_offline_row" "ap_api_id demo_offline_row = ''a''"
    by code_simp+
  have step: "pool_step demo_hash demo_offline (snd (demo_reserve CHR ''2'' demo_offline))"
    by (rule step_reserve[of demo_hash None demo_config demo_request "demo_ids CHR ''2''" _ "fst (demo_reserve CHR ''2'' demo_offline)"])
       (simp add: demo_reserve_def)
  have threshold: "get_offline_failure_threshold (snd (demo_reserve CHR ''2'' demo_offline)) = get_offline_failure_threshold demo_offline"
    by code_simp
  have steps: "reachable (\<lambda>u. u = demo_offline) (\<lambda>u v. pool_step demo_hash u v \<and>
      get_offline_failure_threshold v = get_offline_failure_threshold demo_offline) (snd (demo_reserve CHR ''2'' demo_offline))"
  proof (rule reach_step)
    show "reachable (\<lambda>u. u = demo_offline) (\<lambda>u v. pool_step demo_hash u v \<and>
        get_offline_failure_threshold v = get_offline_failure_threshold demo_offline) demo_offline"
      by (simp add: reach_init)
  qed (use step threshold in blast)
  show ?thesis using offline_is_permanent[OF start row(1-3) steps] row(4) by auto
qed

section \<open>Properties: capacity and synchronisation\<close>

lemma sync_again: "sync_config hash c s = (Inr v, t) \<Longrightarrow> sync_config hash c t = (Inr (), t)"
proof -
  assume "sync_config hash c s = (Inr v, t)"
  then have "ps_config_hash t = Some (model_config_hash hash c)" by (rule synced_hash)
  then show ?thesis by (simp add: sync_config_def Let_def)
qed

lemma hash_permuted:
  assumes "mset (mc_apis c) = mset (mc_apis d)" "distinct (map ac_api_id (mc_apis c))"
    and "mc_global_max_concurrent c = mc_global_max_concurrent d"
      "mc_offline_failure_threshold c = mc_offline_failure_threshold d" "mc_retry c = mc_retry d"
  shows "model_config_hash hash c = model_config_hash hash d"
proof -
  have "sort_slice api_config_lt (mc_apis c) = sort_slice api_config_lt (mc_apis d)"
    using assms(1,2) by (intro config_apis.sort_perm) simp_all
  then have "normalize_model_config_for_hash c = normalize_model_config_for_hash d"
    using assms(3-5) by (simp add: normalize_model_config_for_hash_def)
  then show ?thesis by (simp add: model_config_hash_def)
qed

text \<open>
  Synchronising twice is synchronising once, also when the second configuration lists the same APIs in another order.
\<close>

theorem sync_idempotent:
  assumes "sync_config hash c s = (Inr (), t)"
    and "mset (mc_apis c) = mset (mc_apis d)" and "distinct (map ac_api_id (mc_apis c))"
    and "mc_global_max_concurrent c = mc_global_max_concurrent d"
    and "mc_offline_failure_threshold c = mc_offline_failure_threshold d" and "mc_retry c = mc_retry d"
  shows "sync_from_model_config hash None d t = (Inr (), t)"
proof -
  have "ps_config_hash t = Some (model_config_hash hash d)"
    using synced_hash[OF assms(1)] hash_permuted[OF assms(2-6)] by metis
  then show ?thesis by (simp add: sync_from_model_config_def sync_config_def Let_def)
qed

theorem sync_idempotent_witness:
  "sync_from_model_config demo_hash None (demo_config\<lparr>mc_apis := rev (mc_apis demo_config)\<rparr>) demo_store = (Inr (), demo_store)"
proof (rule sync_idempotent)
  show "sync_config demo_hash demo_config demo_store = (Inr (), demo_store)"
    by (rule prod_eqI) code_simp+
qed (simp_all add: demo_config_def demo_api_def)

lemma sum_list_pos_iff:
  "(\<forall>x\<in>set xs. 0 \<le> f x) \<Longrightarrow> 0 < sum_list (map f xs) \<longleftrightarrow> (\<exists>x\<in>set xs. 0 < (f x :: int))"
proof (induction xs)
  case (Cons x xs)
  have "0 \<le> sum_list (map f xs)" using Cons.prems by (intro sum_list_nonneg) auto
  then show ?case using Cons by auto
qed simp

lemma available_iff_eligible:
  assumes "pool_ok s"
  shows "0 < cs_available_slots (capacity_of now s) \<longleftrightarrow> (\<exists>a\<in>set (ps_apis s). eligible \<lparr>rp_api_id = None\<rparr> a)"
proof -
  let ?f = "\<lambda>r. if ap_status r \<noteq> ApiStatusOffline
       then (if ap_max_concurrent r - ap_lease_count r > 0 then ap_max_concurrent r - ap_lease_count r else 0) else 0"
  have "0 < ?f a \<longleftrightarrow> eligible \<lparr>rp_api_id = None\<rparr> a" if "a \<in> set (ps_apis s)" for a
    using assms that by (auto simp: pool_ok_def apis_ok_def api_row_ok_def resolve_api_status_def eligible_def)
  moreover have "0 < sum_list (map ?f (ps_apis s)) \<longleftrightarrow> (\<exists>a\<in>set (ps_apis s). 0 < ?f a)"
    by (rule sum_list_pos_iff) simp
  ultimately show ?thesis by (simp add: capacity_of_def)
qed

lemma throttled_iff: "cs_throttled (capacity_of now s) \<longleftrightarrow> quota_reached s"
  by (auto simp: capacity_of_def get_global_limit_def quota_reached_def split: option.split)

text \<open>
  C38. A capacity snapshot says what the next request without a route will get: it is served exactly when slots are
  available and the pool is not throttled.
\<close>

theorem capacity_predicts_reservation:
  assumes "reachable (\<lambda>s. s = new_pool_store) (pool_step hash) s" and "collision_free hash"
    and "capacity hash None c now s = (Inr snap, t)"
    and "fi_invocation_id fi \<notin> in_invocation_id ` set (ps_invocations t)"
    and "fi_attempt_id fi \<notin> at_attempt_id ` set (ps_attempts t)"
    and "rp_api_id (iq_route_policy q) = None"
  shows "is_ok (fst (reserve_invocation hash None c q fi t)) \<longleftrightarrow> 0 < cs_available_slots snap \<and> \<not> cs_throttled snap"
proof -
  obtain v where sync: "sync_config hash c s = (Inr v, t)" and snap: "snap = capacity_of now t"
    using assms(3) by (auto simp: capacity_def seq_Inr_iff)
  have inv: "pool_inv hash t" by (rule sync_config_inv[OF reachable_pool_inv[OF assms(1)] sync])
  have rp: "iq_route_policy q = \<lparr>rp_api_id = None\<rparr>" using assms(6) by simp
  note res = reserve_invocation_result[OF inv assms(2) sync_again[OF sync] assms(4,5), of q]
  have slots: "0 < cs_available_slots snap \<longleftrightarrow> (\<exists>a\<in>set (ps_apis t). eligible (iq_route_policy q) a)"
    unfolding snap rp using inv by (intro available_iff_eligible) (simp add: pool_inv_def)
  have throttle: "cs_throttled snap \<longleftrightarrow> quota_reached t" unfolding snap by (rule throttled_iff)
  show ?thesis
  proof (cases "pick_api (iq_route_policy q) t")
    case (Inl e)
    then show ?thesis using res slots throttle pick_api_None[of "iq_route_policy q" t e] by auto
  next
    case (Inr a)
    then show ?thesis using res slots throttle pick_api_Inr[OF Inr] by auto
  qed
qed

theorem capacity_predicts_reservation_witness:
  "is_ok (fst (demo_reserve CHR ''2'' demo_store))"
proof -
  let ?snap = "capacity_of 0 demo_store"
  have cap: "capacity demo_hash None demo_config 0 demo_store = (Inr ?snap, demo_store)"
    by (rule prod_eqI) code_simp+
  have fresh: "fi_invocation_id (demo_ids CHR ''2'') \<notin> in_invocation_id ` set (ps_invocations demo_store)"
    "fi_attempt_id (demo_ids CHR ''2'') \<notin> at_attempt_id ` set (ps_attempts demo_store)"
    "rp_api_id (iq_route_policy demo_request) = None" by code_simp+
  have "0 < cs_available_slots ?snap" "\<not> cs_throttled ?snap" by code_simp+
  then show ?thesis
    using capacity_predicts_reservation[OF demo_store_reachable demo_hash_free cap fresh] by (simp add: demo_reserve_def)
qed

section \<open>Properties: refinement\<close>

text \<open>
  The abstract pool is the set of its open leases, each an attempt with its invocation and its API. It may stay as
  it is, take a lease for an invocation that has none under an attempt that is not open, or give one lease back.
\<close>

type_synonym lease = "string \<times> string \<times> string"

definition open_leases :: "pool_store \<Rightarrow> lease set" where
  "open_leases s = (\<lambda>r. (at_attempt_id r, at_invocation_id r, at_api_id r)) ` {r \<in> set (ps_attempts s). running_attempt r}"

definition lease_spec :: "lease set \<Rightarrow> lease set \<Rightarrow> bool" where
  "lease_spec L M \<longleftrightarrow> M = L \<or>
     (\<exists>k i aid. (\<forall>(k', i', aid')\<in>L. k' \<noteq> k \<and> i' \<noteq> i) \<and> M = insert (k, i, aid) L) \<or>
     (\<exists>x\<in>L. M = L - {x})"

lemma open_leases_frame: "ps_attempts t = ps_attempts s \<Longrightarrow> open_leases t = open_leases s"
  by (simp add: open_leases_def)

lemma image_without: "f ` {q \<in> A. P q \<and> f q \<noteq> y} = f ` {q \<in> A. P q} - {y}"
  by blast

lemma release_refines:
  assumes ok: "pool_ok s" and held: "holds_lease rv s" and f: "closes f"
    and t: "ps_attempts t = update_where (\<lambda>r. at_attempt_id r = rv_attempt_id rv) f (ps_attempts s)"
  shows "lease_spec (open_leases s) (open_leases t)"
proof -
  let ?key = "\<lambda>r. (at_attempt_id r, at_invocation_id r, at_api_id r)"
  obtain r where r: "r \<in> set (ps_attempts s)" "running_attempt r" "at_attempt_id r = rv_attempt_id rv"
    using held by (auto simp: holds_lease_def)
  have "distinct (map at_attempt_id (ps_attempts s))" using ok by (simp add: pool_ok_def attempts_ok_def)
  then have uniq: "q = r" if "q \<in> set (ps_attempts s)" "at_attempt_id q = rv_attempt_id rv" for q
    using inj_on_key_eq[of at_attempt_id "ps_attempts s" q r] that r by simp
  have "set (filter running_attempt (ps_attempts t)) =
      set (filter (\<lambda>q. running_attempt q \<and> at_attempt_id q \<noteq> rv_attempt_id rv) (ps_attempts s))"
    unfolding t running_after_close[OF f] ..
  then have "open_leases t = ?key ` {q \<in> set (ps_attempts s). running_attempt q \<and> at_attempt_id q \<noteq> rv_attempt_id rv}"
    by (simp add: open_leases_def)
  also have "\<dots> = open_leases s - {?key r}"
  proof -
    have "?key q = ?key r \<longleftrightarrow> at_attempt_id q = rv_attempt_id rv" if "q \<in> set (ps_attempts s)" for q
      by (metis uniq[OF that] r(3) prod.inject)
    then have "{q \<in> set (ps_attempts s). running_attempt q \<and> at_attempt_id q \<noteq> rv_attempt_id rv} =
        {q \<in> set (ps_attempts s). running_attempt q \<and> ?key q \<noteq> ?key r}" by blast
    then show ?thesis unfolding open_leases_def by (simp only: image_without)
  qed
  finally have "open_leases t = open_leases s - {?key r}" .
  moreover have "?key r \<in> open_leases s" unfolding open_leases_def using r(1,2) by blast
  ultimately show ?thesis unfolding lease_spec_def by blast
qed

lemma take_refines:
  assumes ok: "pool_ok s" and closed: "no_open_attempt i s" and fresh: "k \<notin> at_attempt_id ` set (ps_attempts s)"
    and t: "ps_attempts t = ps_attempts s @ [new_attempt k i aid now]"
  shows "lease_spec (open_leases s) (open_leases t)"
proof -
  have "{r \<in> set (ps_attempts t). running_attempt r} =
      insert (new_attempt k i aid now) {r \<in> set (ps_attempts s). running_attempt r}"
    unfolding t by auto
  then have "open_leases t = insert (k, i, aid) (open_leases s)" by (simp add: open_leases_def)
  moreover have "\<forall>(k', i', aid')\<in>open_leases s. k' \<noteq> k \<and> i' \<noteq> i"
    using closed fresh by (auto simp: open_leases_def no_open_attempt_def)
  ultimately show ?thesis unfolding lease_spec_def by blast
qed

lemma lease_spec_refl: "open_leases t = open_leases s \<Longrightarrow> lease_spec (open_leases s) (open_leases t)"
  by (simp add: lease_spec_def)

lemma with_immediate_tx_refines:
  assumes "with_immediate_tx over m s = (r, t)" and "\<And>v. m s = (Inr v, t) \<Longrightarrow> lease_spec (open_leases s) (open_leases t)"
  shows "lease_spec (open_leases s) (open_leases t)"
  using assms by (cases r) (auto dest: with_immediate_tx_Inl intro: lease_spec_refl)

lemma synced_query_refines:
  "seq (sync_config hash c) (\<lambda>_. query f) s = (Inr v, t) \<Longrightarrow> lease_spec (open_leases s) (open_leases t)"
  by (auto simp: seq_Inr_iff intro!: lease_spec_refl open_leases_frame dest: sync_config_frame)

lemma reserve_refines:
  assumes inv: "pool_inv hash s" and closed: "\<And>i. known = Some i \<Longrightarrow> no_open_attempt i s"
    and res: "seq (sync_config hash c) (\<lambda>_. reserve_attempt_tx c q known fi) s = (Inr rv, t)"
  shows "lease_spec (open_leases s) (open_leases t)"
proof -
  obtain v u where u: "sync_config hash c s = (Inr v, u)" "reserve_attempt_tx c q known fi u = (Inr rv, t)"
    using res by (auto simp: seq_Inr_iff)
  have ok: "pool_ok u" using sync_config_inv[OF inv u(1)] by (simp add: pool_inv_def)
  have same: "open_leases u = open_leases s"
    by (rule open_leases_frame) (use sync_config_frame[OF u(1)] in simp)
  from u(2) show ?thesis
  proof (cases rule: reserve_attempt_tx_Inr)
    case (1 a ac i)
    have "no_open_attempt i u"
    proof (cases known)
      case None
      then show ?thesis using 1(5) fresh_invocation_closed[OF ok] by simp
    next
      case (Some j)
      then have "known = Some i" using 1(4) by simp
      from no_open_attempt_sync[OF closed[OF this] u(1)] show ?thesis .
    qed
    then have "lease_spec (open_leases u) (open_leases t)"
      using 1(6) by (rule take_refines[OF ok]) (simp add: 1(8) reserved_store_sel)
    then show ?thesis by (simp add: same)
  qed
qed

lemma pool_step_refines:
  "pool_step hash s t \<Longrightarrow> pool_inv hash s \<Longrightarrow> lease_spec (open_leases s) (open_leases t)"
proof (induction rule: pool_step.induct)
  case (step_sync over c s r t)
  show ?case
    by (rule with_immediate_tx_refines[OF step_sync(1)[unfolded sync_from_model_config_def]])
       (rule lease_spec_refl[OF open_leases_frame], drule sync_config_frame, simp)
next
  case (step_reserve over c q fi s r t)
  show ?case
    by (rule with_immediate_tx_refines[OF step_reserve(1)[unfolded reserve_invocation_def]])
       (rule reserve_refines[OF step_reserve(2)], simp_all)
next
  case (step_retry i s over c q fi r t)
  show ?case
    by (rule with_immediate_tx_refines[OF step_retry(2)[unfolded reserve_retry_attempt_def]])
       (rule reserve_refines[OF step_retry(3)], use step_retry(1) in auto)
next
  case (step_success rv s over out raw u fin r t)
  from step_success(3) have ok: "pool_ok s" by (simp add: pool_inv_def)
  show ?case
  proof (rule with_immediate_tx_refines[OF step_success(2)[unfolded complete_invocation_success_def]])
    fix v assume "seq (query (check_leased rv)) (\<lambda>a. seq (exec (write_success rv out raw u fin a))
        (\<lambda>_. query (load_invocation_response (rv_invocation_id rv)))) s = (Inr v, t)"
    then have "ps_attempts t = update_where (\<lambda>r. at_attempt_id r = rv_attempt_id rv) (succeed_attempt_row fin u) (ps_attempts s)"
      by (auto simp: seq_Inr_iff write_success_def Let_def)
    then show "lease_spec (open_leases s) (open_leases t)" by (rule release_refines[OF ok step_success(1) closes_succeed])
  qed
next
  case (step_attempt_failure rv s over g fin r t)
  from step_attempt_failure(3) have ok: "pool_ok s" by (simp add: pool_inv_def)
  show ?case
  proof (rule with_immediate_tx_refines[OF step_attempt_failure(2)[unfolded complete_attempt_failure_def]])
    fix v assume "seq (query (check_leased rv)) (\<lambda>a. exec (write_attempt_failure rv g fin a)) s = (Inr v, t)"
    then have "ps_attempts t = update_where (\<lambda>r. at_attempt_id r = rv_attempt_id rv) (fail_attempt_row fin g) (ps_attempts s)"
      by (auto simp: seq_Inr_iff write_attempt_failure_def Let_def)
    then show "lease_spec (open_leases s) (open_leases t)" by (rule release_refines[OF ok step_attempt_failure(1) closes_fail])
  qed
next
  case (step_failure i s over g fin r t)
  show ?case
    by (rule with_immediate_tx_refines[OF step_failure(2)[unfolded complete_invocation_failure_def]])
       (auto simp: seq_Inr_iff write_invocation_failure_def intro!: lease_spec_refl open_leases_frame)
next
  case (step_capacity over c now s r t)
  then show ?case unfolding capacity_def by (blast intro: with_immediate_tx_refines synced_query_refines)
next
  case (step_list over c nid limit s r t)
  then show ?case unfolding list_records_def by (blast intro: with_immediate_tx_refines synced_query_refines)
next
  case (step_record over c i s r t)
  then show ?case unfolding invocation_record_by_id_def by (blast intro: with_immediate_tx_refines synced_query_refines)
qed

text \<open>
  C10. Every transaction of the store is a step of the abstract pool of leases: it takes one lease for an invocation that has none,
  gives one back, or leaves them alone.
\<close>

theorem store_refines_leases:
  assumes "reachable (\<lambda>s. s = new_pool_store) (pool_step hash) s" and "pool_step hash s t"
  shows "lease_spec (open_leases s) (open_leases t)"
  using pool_step_refines[OF assms(2) reachable_pool_inv[OF assms(1)]] .

theorem store_refines_leases_witness:
  "lease_spec (open_leases new_pool_store) (open_leases demo_store) \<and> open_leases demo_store = {(''t1'', ''i1'', ''a'')}"
proof
  have "pool_step demo_hash new_pool_store demo_store"
    by (rule step_reserve[of demo_hash None demo_config demo_request "demo_ids CHR ''1''" _ "fst (demo_reserve CHR ''1'' new_pool_store)"])
       (simp add: demo_store_def demo_reserve_def)
  with reach_init[of "\<lambda>s. s = new_pool_store" new_pool_store] show "lease_spec (open_leases new_pool_store) (open_leases demo_store)"
    by (intro store_refines_leases) simp_all
  have "map (\<lambda>r. (at_attempt_id r, at_invocation_id r, at_api_id r)) (filter running_attempt (ps_attempts demo_store)) =
      [(''t1'', ''i1'', ''a'')]" by code_simp
  from arg_cong[OF this, of set] show "open_leases demo_store = {(''t1'', ''i1'', ''a'')}" by (simp add: open_leases_def)
qed

section \<open>Properties: identifiers and records\<close>

lemma length_hex_pad [simp]: "length (hex_pad w v) = w"
  by (induction w arbitrary: v) auto

lemma hex_digit_inject: "0 \<le> d \<Longrightarrow> d < 16 \<Longrightarrow> 0 \<le> e \<Longrightarrow> e < 16 \<Longrightarrow> hex_digit d = hex_digit e \<Longrightarrow> d = e"
proof -
  assume b: "0 \<le> d" "d < 16" "0 \<le> e" "e < 16" and eq: "hex_digit d = hex_digit e"
  have "distinct ''0123456789abcdef''" by simp
  then have "nat d = nat e"
    using nth_eq_iff_index_eq[of "''0123456789abcdef''" "nat d" "nat e"] b eq by (simp add: hex_digit_def)
  then show ?thesis using b by simp
qed

lemma hex_pad_inject:
  "0 \<le> v \<Longrightarrow> v < 16 ^ w \<Longrightarrow> 0 \<le> u \<Longrightarrow> u < 16 ^ w \<Longrightarrow> hex_pad w v = hex_pad w u \<Longrightarrow> v = u"
proof (induction w arbitrary: v u)
  case (Suc w)
  have "hex_digit (v mod 16) = hex_digit (u mod 16)" and pre: "hex_pad w (v div 16) = hex_pad w (u div 16)"
    using Suc.prems(5) by simp_all
  then have "v mod 16 = u mod 16" by (intro hex_digit_inject) simp_all
  moreover have "v div 16 = u div 16"
    using Suc.prems by (intro Suc.IH pre) (simp_all add: pos_imp_zdiv_nonneg_iff div_less_iff_less_mult mult.commute)
  ultimately show ?case by (metis mult_div_mod_eq)
qed simp

lemma mod_range_inject:
  assumes "- (2 ^ 15) \<le> x" "x < 2 ^ 15" "- (2 ^ 15) \<le> y" "y < 2 ^ 15" "x mod 2 ^ 16 = y mod (2 ^ 16 :: int)"
  shows "x = y"
proof -
  have "(x + 2 ^ 15) mod 2 ^ 16 = (y + 2 ^ 15) mod 2 ^ 16" using assms(5) by (rule mod_add_cong) simp
  moreover have "(x + 2 ^ 15) mod 2 ^ 16 = x + 2 ^ 15" "(y + 2 ^ 15) mod 2 ^ 16 = y + 2 ^ 15"
    using assms(1-4) by (auto intro!: mod_pos_pos_trivial)
  ultimately show ?thesis by simp
qed

lemma split_64: "(v::int) = v div 2 ^ 48 * 2 ^ 48 + v div 2 ^ 32 mod 2 ^ 16 * 2 ^ 32 + v mod 2 ^ 32"
proof -
  have "v div 2 ^ 32 = v div 2 ^ 32 div 2 ^ 16 * 2 ^ 16 + v div 2 ^ 32 mod 2 ^ 16" by simp
  moreover have "v div 2 ^ 32 div 2 ^ 16 = v div 2 ^ 48" by (simp flip: zdiv_zmult2_eq)
  moreover have "v = v div 2 ^ 32 * 2 ^ 32 + v mod 2 ^ 32" by simp
  moreover have "x = y * 2 ^ 32 + c \<Longrightarrow> y = h * 2 ^ 16 + b \<Longrightarrow> x = h * 2 ^ 48 + b * 2 ^ 32 + c" for x y h b c :: int
    by (simp add: algebra_simps)
  ultimately show ?thesis by metis
qed

text \<open>
  Two identifiers drawn at different nanoseconds of the clock's 64-bit range differ, and each has the shape of a UUID:
  its five groups lose no bit of the clock reading.
\<close>

theorem new_uuid_inject:
  assumes "- (2 ^ 63) \<le> v" and "v < 2 ^ 63" and "- (2 ^ 63) \<le> u" and "u < 2 ^ 63"
  shows "(new_uuid v = new_uuid u \<longleftrightarrow> v = u) \<and> length (new_uuid v) = 36"
proof -
  have "v = u" if eq: "new_uuid v = new_uuid u"
  proof -
    have "hex_pad 8 (v mod 2 ^ 32) = hex_pad 8 (u mod 2 ^ 32)"
      and "hex_pad 4 (v div 2 ^ 32 mod 2 ^ 16) = hex_pad 4 (u div 2 ^ 32 mod 2 ^ 16)"
      and "hex_pad 4 (v div 2 ^ 48 mod 2 ^ 16) = hex_pad 4 (u div 2 ^ 48 mod 2 ^ 16)"
      using eq unfolding new_uuid_def by (auto simp del: hex_pad.simps)
    then have low: "v mod 2 ^ 32 = u mod 2 ^ 32" "v div 2 ^ 32 mod 2 ^ 16 = u div 2 ^ 32 mod 2 ^ 16"
      and high: "v div 2 ^ 48 mod 2 ^ 16 = u div 2 ^ 48 mod 2 ^ 16"
      by (auto elim!: hex_pad_inject[rotated 4])
    have top: "v div 2 ^ 48 = u div 2 ^ 48"
    proof -
      have range: "- (2 ^ 15) \<le> x div 2 ^ 48 \<and> x div 2 ^ 48 < 2 ^ 15" if "- (2 ^ 63) \<le> x" "x < 2 ^ 63" for x :: int
        using that zdiv_mono1[of "- (2 ^ 63)" x "2 ^ 48"] zdiv_mono1[of x "2 ^ 63 - 1" "2 ^ 48"] by simp
      then have "- (2 ^ 15) \<le> v div 2 ^ 48" "v div 2 ^ 48 < 2 ^ 15" "- (2 ^ 15) \<le> u div 2 ^ 48" "u div 2 ^ 48 < 2 ^ 15"
        using assms by blast+
      then show ?thesis using high by (rule mod_range_inject)
    qed
    show ?thesis by (subst split_64[of v], subst split_64[of u]) (simp only: low top)
  qed
  moreover have "length (new_uuid v) = 36" by (simp add: new_uuid_def del: hex_pad.simps)
  ultimately show ?thesis by auto
qed

theorem new_uuid_inject_witness:
  "new_uuid 1700000000000000000 \<noteq> new_uuid 1700000000000000001"
  using new_uuid_inject[of 1700000000000000000 1700000000000000001] by simp

definition started_row :: "string \<Rightarrow> time \<Rightarrow> invocation_row" where
  "started_row i now = new_invocation i demo_request ''a'' now"

text \<open>
  The records are not listed latest first: the times are compared as text without trailing zeros, so an invocation that
  started half a second after a full second is listed before one that started ten milliseconds later.
\<close>

theorem list_order_not_chronological:
  "listed_ids None None (new_pool_store\<lparr>ps_invocations := [started_row ''first'' 500000000, started_row ''second'' 510000000]\<rparr>) =
     [''first'', ''second''] \<and>
   listed_ids None None (new_pool_store\<lparr>ps_invocations := [started_row ''first'' 501000000, started_row ''second'' 510000000]\<rparr>) =
     [''second'', ''first'']"
  by code_simp

text \<open>
  A usage summary counts every record once: calls, successes, failures, attempts and retries, the tokens, and the
  average and the largest of the latencies that are known.
\<close>

theorem summarize_usage_totals:
  "sm_invocation_count (summarize_usage rnd now rs nid lim') = int (length rs) \<and>
   sm_success_count (summarize_usage rnd now rs nid lim') = int (length (filter (\<lambda>r. ir_status r = InvocationStatusSuccess) rs)) \<and>
   sm_failure_count (summarize_usage rnd now rs nid lim') = int (length (filter (\<lambda>r. ir_status r = InvocationStatusFailure) rs)) \<and>
   sm_attempt_count (summarize_usage rnd now rs nid lim') = (\<Sum>r\<leftarrow>rs. int (length (ir_attempts r))) \<and>
   sm_retry_count (summarize_usage rnd now rs nid lim') = (\<Sum>r\<leftarrow>rs. int (length (ir_attempts r) - 1)) \<and>
   sm_total_tokens (summarize_usage rnd now rs nid lim') = (\<Sum>r\<leftarrow>rs. int_field us_total_tokens r) \<and>
   sm_avg_latency_ms (summarize_usage rnd now rs nid lim') = (if latencies rs = [] then None
     else Some (sum_list (latencies rs) sdiv int (length (latencies rs)))) \<and>
   sm_max_latency_ms (summarize_usage rnd now rs nid lim') = (if latencies rs = [] then None
     else Some (Max (set (latencies rs))))"
  by (simp add: summarize_usage_def finish_summary_def fold_add_record_counts fold_add_record_latency
      fold_larger_latency_None no_totals_def)

end
