(* ===== verification/PoolGateway.thy ===== *)
theory PoolGateway
  imports PoolStoreProps
begin

text \<open>
  The gateway of the pool (internal/poolgateway/gateway.go): invoking a model with retries, and the queries.

  The gateway works on the store and on a world of type \<open>'w\<close> that holds the context, the clock, the configuration file and
  the provider. Before every transaction \<open>pe_others\<close> lets the other users of the database do whatever they
  do meanwhile. Logging is not modelled.
\<close>

section \<open>Environment\<close>

type_synonym 'w pool_world = "pool_store \<times> 'w"

type_synonym ('w, 'a) gateway_op = "('w pool_world, pool_error, 'a) op"

type_synonym 'w provider_client =
  "invocation_reservation \<Rightarrow> invoke_request \<Rightarrow> ('w, pool_error, provider_invoke_result) op"

record 'w pool_env =
  pe_hash :: "model_config \<Rightarrow> string"
  pe_path :: string
  pe_read :: "'w \<Rightarrow> string \<Rightarrow> string option"
  pe_decode :: "string \<Rightarrow> string + model_config \<times> api_field_presence list"
  pe_ctx :: "'w \<Rightarrow> pool_error option"
  pe_now :: "'w \<Rightarrow> time \<times> 'w"
  pe_fresh :: "'w \<Rightarrow> fresh_ids \<times> 'w"
  pe_others :: "'w pool_world \<Rightarrow> 'w pool_world"
  pe_factory :: "string \<Rightarrow> pool_error + 'w provider_client"
  pe_sleep :: "int \<Rightarrow> ('w, pool_error, unit) op"
  pe_policy :: "retry_policy option"
  pe_round :: "rat \<Rightarrow> rat"

text \<open>
  A transaction under the caller's context (\<open>run_store\<close>) and one under a context that cannot be cancelled
  (\<open>run_cleanup\<close>, \<open>context.WithoutCancel\<close>).
\<close>

definition run_with :: "'w pool_env \<Rightarrow> ('w \<Rightarrow> pool_error option) \<Rightarrow> (pool_error option \<Rightarrow> 'a pool_op) \<Rightarrow> ('w, 'a) gateway_op" where
  "run_with g ctx m st = (case pe_others g st of (s, w) \<Rightarrow> (case m (ctx w) s of (r, t) \<Rightarrow> (r, (t, w))))"

definition run_store :: "'w pool_env \<Rightarrow> (pool_error option \<Rightarrow> 'a pool_op) \<Rightarrow> ('w, 'a) gateway_op" where
  "run_store g m = run_with g (pe_ctx g) m"

definition run_cleanup :: "'w pool_env \<Rightarrow> (pool_error option \<Rightarrow> 'a pool_op) \<Rightarrow> ('w, 'a) gateway_op" where
  "run_cleanup g m = run_with g (\<lambda>_. None) m"

definition on_world :: "('w, pool_error, 'a) op \<Rightarrow> ('w, 'a) gateway_op" where
  "on_world m st = (case st of (s, w) \<Rightarrow> (case m w of (r, w') \<Rightarrow> (r, (s, w'))))"

definition with_now :: "'w pool_env \<Rightarrow> (time \<Rightarrow> ('w, 'a) gateway_op) \<Rightarrow> ('w, 'a) gateway_op" where
  "with_now g f st = (case st of (s, w) \<Rightarrow> (case pe_now g w of (now, w') \<Rightarrow> f now (s, w')))"

definition with_fresh :: "'w pool_env \<Rightarrow> (fresh_ids \<Rightarrow> ('w, 'a) gateway_op) \<Rightarrow> ('w, 'a) gateway_op" where
  "with_fresh g f st = (case st of (s, w) \<Rightarrow> (case pe_fresh g w of (fi, w') \<Rightarrow> f fi (s, w')))"

definition with_config :: "'w pool_env \<Rightarrow> (model_config \<Rightarrow> ('w, 'a) gateway_op) \<Rightarrow> ('w, 'a) gateway_op" where
  "with_config g f st = (case st of (s, w) \<Rightarrow>
     (case load_model_config (pe_read g w) (pe_decode g) (pe_path g) of
        Inl e \<Rightarrow> (Inl e, (s, w)) | Inr c \<Rightarrow> f c (s, w)))"

section \<open>Failures\<close>

definition internal_gateway_error :: "pool_error \<Rightarrow> gateway_error" where
  "internal_gateway_error e = \<lparr>ge_code = ''gateway_internal_error'', ge_message = error_text e,
     ge_retryable = False, ge_provider_status_code = None,
     ge_details = [(''exception_type'', JStr
       (if error_is e ContextDeadlineExceeded then ''context_deadline_exceeded''
        else if error_is e ContextCanceled then ''context_canceled''
        else ''internal_error''))]\<rparr>"

text \<open>The caller gets the response and an error that carries it; the response is in the error here.\<close>

definition finish_invocation_failure ::
  "((pool_error option \<Rightarrow> invoke_response pool_op) \<Rightarrow> ('w, invoke_response) gateway_op) \<Rightarrow>
   string \<Rightarrow> gateway_error \<Rightarrow> time \<Rightarrow> ('w, invoke_response) gateway_op" where
  "finish_invocation_failure run i g fin =
     seq (run (\<lambda>over. complete_invocation_failure over i g fin)) (\<lambda>resp. return_err (InvocationFailedError resp))"

definition finish_internal_failure ::
  "'w pool_env \<Rightarrow> invocation_reservation \<Rightarrow> pool_error \<Rightarrow> ('w, invoke_response) gateway_op" where
  "finish_internal_failure g rv e = with_now g (\<lambda>fin.
     seq (run_cleanup g (\<lambda>over. complete_attempt_failure over rv (internal_gateway_error e) fin)) (\<lambda>_.
     finish_invocation_failure (run_cleanup g) (rv_invocation_id rv) (internal_gateway_error e) fin))"

section \<open>The attempts\<close>

definition resolve_retry_policy :: "'w pool_env \<Rightarrow> model_config \<Rightarrow> retry_policy" where
  "resolve_retry_policy g c = (case pe_policy g of Some p \<Rightarrow> policy_normalized p | None \<Rightarrow> config_retry_policy c)"

definition complete_success ::
  "'w pool_env \<Rightarrow> invocation_reservation \<Rightarrow> provider_invoke_result \<Rightarrow> ('w, invoke_response) gateway_op" where
  "complete_success g rv res = with_now g (\<lambda>fin.
     let latency = (fin - rv_started_at rv) sdiv 1000000;
         usage = finalize_usage (pe_round g) (pv_usage res) latency (rv_pricing rv) in
     run_store g (\<lambda>over. complete_invocation_success over rv (pv_output_text res) (pv_response res) (Some usage) fin))"

definition retry_error :: "gateway_error \<Rightarrow> pool_error \<Rightarrow> gateway_error" where
  "retry_error ge e = (if error_is e ErrNoCapacity \<or> error_is e ErrGlobalQuota then ge else internal_gateway_error e)"

definition reserve_retry ::
  "'w pool_env \<Rightarrow> model_config \<Rightarrow> string \<Rightarrow> invoke_request \<Rightarrow> ('w, invocation_reservation) gateway_op" where
  "reserve_retry g c i q = with_fresh g (\<lambda>fi. run_store g (\<lambda>over. reserve_retry_attempt (pe_hash g) over c i q fi))"

text \<open>
  The loop of \<open>invokeReserved\<close> from attempt \<open>k\<close> on. It ends because a retry needs an attempt number below the policy's.
\<close>

function invoke_attempts ::
  "'w pool_env \<Rightarrow> retry_policy \<Rightarrow> model_config \<Rightarrow> invoke_request \<Rightarrow> int \<Rightarrow> invocation_reservation \<Rightarrow>
   ('w, invoke_response) gateway_op" where
  "invoke_attempts g p c q k rv = (case pe_factory g (rv_provider rv) of
     Inl e \<Rightarrow> finish_internal_failure g rv e
   | Inr client \<Rightarrow> attempt (on_world (client rv q)) (\<lambda>res. case res of
       Inr out \<Rightarrow> complete_success g rv out
     | Inl err \<Rightarrow> (case err of
         ProviderInvocationError ge \<Rightarrow> with_now g (\<lambda>fin.
           seq (run_store g (\<lambda>over. complete_attempt_failure over rv ge fin)) (\<lambda>_.
           if iq_stream_sink q then finish_invocation_failure (run_store g) (rv_invocation_id rv) ge fin
           else if \<not> should_retry p k ge then finish_invocation_failure (run_store g) (rv_invocation_id rv) ge fin
           else attempt (on_world (pe_sleep g (backoff_for p k))) (\<lambda>slept. case slept of
               Inl e \<Rightarrow> with_now g (\<lambda>now.
                 finish_invocation_failure (run_store g) (rv_invocation_id rv) (internal_gateway_error e) now)
             | Inr _ \<Rightarrow> attempt (reserve_retry g c (rv_invocation_id rv) q) (\<lambda>next_rv. case next_rv of
                 Inl e \<Rightarrow> with_now g (\<lambda>now.
                   finish_invocation_failure (run_store g) (rv_invocation_id rv) (retry_error ge e) now)
               | Inr rv' \<Rightarrow> invoke_attempts g p c q (k + 1) rv'))))
       | _ \<Rightarrow> finish_internal_failure g rv err)))"
  by pat_completeness auto

termination
  by (relation "measure (\<lambda>(g, p, c, q, k, rv). nat (rt_max_attempts (policy_normalized p) - k))")
     (auto simp: should_retry_def)

declare invoke_attempts.simps [simp del]

definition invoke :: "'w pool_env \<Rightarrow> invoke_request \<Rightarrow> ('w, invoke_response) gateway_op" where
  "invoke g q = with_config g (\<lambda>c.
     seq (of_result (validate_invoke_request q)) (\<lambda>_.
     seq (with_fresh g (\<lambda>fi. run_store g (\<lambda>over. reserve_invocation (pe_hash g) over c q fi))) (\<lambda>rv.
     case validate_invoke_request_for_mode q (rv_api_mode rv) of
       Inl e \<Rightarrow> finish_internal_failure g rv e
     | Inr _ \<Rightarrow> invoke_attempts g (resolve_retry_policy g c) c q 1 rv)))"

section \<open>Queries\<close>

definition gateway_record :: "'w pool_env \<Rightarrow> string \<Rightarrow> ('w, invocation_record) gateway_op" where
  "gateway_record g i = with_config g (\<lambda>c. run_store g (\<lambda>over. invocation_record_by_id (pe_hash g) over c i))"

definition gateway_capacity :: "'w pool_env \<Rightarrow> ('w, capacity_snapshot) gateway_op" where
  "gateway_capacity g = with_config g (\<lambda>c. with_now g (\<lambda>now. run_store g (\<lambda>over. capacity (pe_hash g) over c now)))"

definition gateway_sync :: "'w pool_env \<Rightarrow> ('w, sync_result) gateway_op" where
  "gateway_sync g = with_config g (\<lambda>c.
     seq (run_store g (\<lambda>over. sync_from_model_config (pe_hash g) over c)) (\<lambda>_.
     with_now g (\<lambda>now. seq (run_store g (\<lambda>over. capacity (pe_hash g) over c now)) (\<lambda>snap.
     return_ok \<lparr>sy_synced = True, sy_capacity = snap\<rparr>))))"

definition gateway_records ::
  "'w pool_env \<Rightarrow> string option \<Rightarrow> int option \<Rightarrow> ('w, invocation_record list) gateway_op" where
  "gateway_records g nid limit = with_config g (\<lambda>c. run_store g (\<lambda>over. list_records (pe_hash g) over c nid limit))"

definition gateway_usage :: "'w pool_env \<Rightarrow> string option \<Rightarrow> int option \<Rightarrow> ('w, usage_summary) gateway_op" where
  "gateway_usage g nid limit = with_config g (\<lambda>c.
     seq (run_store g (\<lambda>over. list_records (pe_hash g) over c nid limit)) (\<lambda>records.
     with_now g (\<lambda>now. return_ok (summarize_usage (pe_round g) now records nid limit))))"

end
