(* ===== verification/PoolGatewayProps.thy ===== *)
theory PoolGatewayProps
  imports PoolGateway
begin

text \<open>
  What an invocation through the gateway guarantees: as long as its context is not cancelled it settles, whatever the provider
  and the other users of the database do, with at most the policy's number of attempts; and what a cancelled context
  leaves behind.

  The other users are held to the protocol by \<open>rely\<close>: their transactions keep the store's invariant and touch no invocation
  whose identifier this gateway draws.
\<close>

section \<open>The other users of the database\<close>

definition mine_attempts :: "string set \<Rightarrow> pool_store \<Rightarrow> attempt_row list" where
  "mine_attempts I s = filter (\<lambda>r. at_invocation_id r \<in> I) (ps_attempts s)"

definition mine_invocations :: "string set \<Rightarrow> pool_store \<Rightarrow> invocation_row list" where
  "mine_invocations I s = filter (\<lambda>r. in_invocation_id r \<in> I) (ps_invocations s)"

definition rely :: "'w pool_env \<Rightarrow> string set \<Rightarrow> bool" where
  "rely g I \<longleftrightarrow> (\<forall>s w t w'. pe_others g (s, w) = (t, w') \<longrightarrow> pool_inv (pe_hash g) s \<longrightarrow>
      pool_inv (pe_hash g) t \<and> mine_attempts I t = mine_attempts I s \<and> mine_invocations I t = mine_invocations I s) \<and>
    (\<forall>w. fi_invocation_id (fst (pe_fresh g w)) \<in> I)"

definition uncancelled :: "'w pool_env \<Rightarrow> bool" where
  "uncancelled g \<longleftrightarrow> (\<forall>w. pe_ctx g w = None)"

section \<open>The three stages of an invocation\<close>

text \<open>
  \<open>attempt_open\<close>: the attempt of \<open>rv\<close> runs and nothing else of mine does. \<open>attempt_over\<close>: only the invocation \<open>i\<close> still
  runs. \<open>all_settled\<close>: nothing of mine runs. There are \<open>n + k\<close> attempts of mine.
\<close>

definition attempt_open ::
  "(model_config \<Rightarrow> string) \<Rightarrow> string set \<Rightarrow> int \<Rightarrow> int \<Rightarrow> invocation_reservation \<Rightarrow> pool_store \<Rightarrow> bool" where
  "attempt_open hash I n k rv s \<longleftrightarrow> pool_inv hash s \<and> rv_invocation_id rv \<in> I \<and> holds_lease rv s \<and>
     (\<forall>r\<in>set (mine_attempts I s). running_attempt r \<longrightarrow> at_attempt_id r = rv_attempt_id rv) \<and>
     (\<forall>j\<in>set (mine_invocations I s). in_status j = InvocationStatusRunning \<longrightarrow> in_invocation_id j = rv_invocation_id rv) \<and>
     int (length (mine_attempts I s)) = n + k"

definition attempt_over ::
  "(model_config \<Rightarrow> string) \<Rightarrow> string set \<Rightarrow> int \<Rightarrow> int \<Rightarrow> string \<Rightarrow> pool_store \<Rightarrow> bool" where
  "attempt_over hash I n k i s \<longleftrightarrow> pool_inv hash s \<and> i \<in> I \<and> find_invocation i s \<noteq> None \<and>
     (\<forall>r\<in>set (mine_attempts I s). \<not> running_attempt r) \<and>
     (\<forall>j\<in>set (mine_invocations I s). in_status j = InvocationStatusRunning \<longrightarrow> in_invocation_id j = i) \<and>
     int (length (mine_attempts I s)) = n + k"

definition all_settled :: "(model_config \<Rightarrow> string) \<Rightarrow> string set \<Rightarrow> int \<Rightarrow> int \<Rightarrow> pool_store \<Rightarrow> bool" where
  "all_settled hash I n k s \<longleftrightarrow> pool_inv hash s \<and> (\<forall>r\<in>set (mine_attempts I s). \<not> running_attempt r) \<and>
     (\<forall>j\<in>set (mine_invocations I s). in_status j \<noteq> InvocationStatusRunning) \<and>
     int (length (mine_attempts I s)) = n + k"

lemma holds_lease_mine:
  "rv_invocation_id rv \<in> I \<Longrightarrow> holds_lease rv s \<longleftrightarrow> (\<exists>r\<in>set (mine_attempts I s). running_attempt r \<and>
     at_attempt_id r = rv_attempt_id rv \<and> at_invocation_id r = rv_invocation_id rv \<and> at_api_id r = rv_api_id rv)"
  by (auto simp: holds_lease_def mine_attempts_def)

lemma find_invocation_mine:
  "i \<in> I \<Longrightarrow> find_invocation i s \<noteq> None \<longleftrightarrow> i \<in> in_invocation_id ` set (mine_invocations I s)"
  by (auto simp: find_invocation_None mine_invocations_def)

lemma no_open_attempt_mine:
  "i \<in> I \<Longrightarrow> \<forall>r\<in>set (mine_attempts I s). \<not> running_attempt r \<Longrightarrow> no_open_attempt i s"
  by (auto simp: no_open_attempt_def mine_attempts_def)

lemma stages_stable:
  assumes "rely g I" "pe_others g (s, w) = (t, w')"
  shows "attempt_open (pe_hash g) I n k rv s \<Longrightarrow> attempt_open (pe_hash g) I n k rv t"
    and "attempt_over (pe_hash g) I n k i s \<Longrightarrow> attempt_over (pe_hash g) I n k i t"
    and "all_settled (pe_hash g) I n k s \<Longrightarrow> all_settled (pe_hash g) I n k t"
proof -
  have *: "pool_inv (pe_hash g) s \<Longrightarrow> pool_inv (pe_hash g) t \<and> mine_attempts I t = mine_attempts I s \<and>
      mine_invocations I t = mine_invocations I s"
    using assms unfolding rely_def by blast
  show "attempt_open (pe_hash g) I n k rv s \<Longrightarrow> attempt_open (pe_hash g) I n k rv t"
    using * by (auto simp: attempt_open_def holds_lease_mine)
  show "attempt_over (pe_hash g) I n k i s \<Longrightarrow> attempt_over (pe_hash g) I n k i t"
    using * unfolding attempt_over_def by (metis find_invocation_mine)
  show "all_settled (pe_hash g) I n k s \<Longrightarrow> all_settled (pe_hash g) I n k t"
    using * by (auto simp: all_settled_def)
qed

section \<open>Transactions between the stages\<close>

lemma filter_update_where:
  "(\<And>r. P (f r) = P r) \<Longrightarrow> filter P (update_where p f rs) = update_where p f (filter P rs)"
  by (induction rs) auto

lemma mine_attempts_close:
  assumes "closes f" "ps_attempts t = update_where p f (ps_attempts s)"
  shows "mine_attempts I t = update_where p f (mine_attempts I s)"
  using assms filter_update_where[of "\<lambda>r. at_invocation_id r \<in> I" f] by (simp add: mine_attempts_def closes_def)

lemma closed_mine:
  assumes "closes f" "\<forall>r\<in>set rs. running_attempt r \<longrightarrow> at_attempt_id r = k"
  shows "\<forall>r\<in>set (update_where (\<lambda>r. at_attempt_id r = k) f rs). \<not> running_attempt r"
proof
  fix r assume "r \<in> set (update_where (\<lambda>r. at_attempt_id r = k) f rs)"
  then obtain q where "q \<in> set rs" "r = (if at_attempt_id q = k then f q else q)" by (auto simp: set_update_where)
  then show "\<not> running_attempt r" using assms by (auto simp: closes_def)
qed

lemma attempt_open_row:
  assumes "attempt_open hash I n k rv s"
  obtains a where "pool_ok s" "holds_lease rv s" "a \<in> set (ps_apis s)" "ap_api_id a = rv_api_id rv"
proof -
  have ok: "pool_ok s" and held: "holds_lease rv s" using assms by (simp_all add: attempt_open_def pool_inv_def)
  obtain a where "a \<in> set (ps_apis s)" "ap_api_id a = rv_api_id rv" by (rule holds_lease_row[OF ok held])
  then show ?thesis by (rule that[OF ok held])
qed

lemma attempt_open_invocation:
  assumes "attempt_open hash I n k rv s"
  shows "find_invocation (rv_invocation_id rv) s \<noteq> None"
proof -
  obtain r where r: "r \<in> set (ps_attempts s)" "at_invocation_id r = rv_invocation_id rv"
    using assms by (auto simp: attempt_open_def holds_lease_def)
  have "\<forall>r\<in>set (ps_attempts s). at_invocation_id r \<in> in_invocation_id ` set (ps_invocations s)"
    using assms by (simp add: attempt_open_def pool_inv_def pool_ok_def attempts_ok_def)
  then show ?thesis using r by (simp add: find_invocation_None) metis
qed

lemma attempt_failure_triple:
  "triple (attempt_open hash I n k rv) (complete_attempt_failure None rv ge fin)
     (\<lambda>_. attempt_over hash I n k (rv_invocation_id rv)) (\<lambda>_ _. False)"
proof -
  have "attempt_over hash I n k (rv_invocation_id rv) t \<and> r = Inr ()"
    if A: "attempt_open hash I n k rv s" and res: "complete_attempt_failure None rv ge fin s = (r, t)" for s r t
  proof -
    obtain a where a: "pool_ok s" "holds_lease rv s" "a \<in> set (ps_apis s)" "ap_api_id a = rv_api_id rv"
      by (rule attempt_open_row[OF A])
    then have t: "r = Inr ()" "t = write_attempt_failure rv ge fin a s"
      using attempt_failure_runs[of s rv a ge fin] res by auto
    have inv: "pool_inv hash t"
      using A res by (auto simp: attempt_open_def intro: attempt_failure_inv)
    have att: "mine_attempts I t = update_where (\<lambda>r. at_attempt_id r = rv_attempt_id rv) (fail_attempt_row fin ge) (mine_attempts I s)"
      by (rule mine_attempts_close[OF closes_fail]) (simp add: t write_attempt_failure_def Let_def)
    have invs: "ps_invocations t = ps_invocations s" by (simp add: t write_attempt_failure_def Let_def)
    then have "find_invocation (rv_invocation_id rv) t \<noteq> None" "mine_invocations I t = mine_invocations I s"
      using attempt_open_invocation[OF A] by (simp_all add: find_invocation_def mine_invocations_def)
    moreover have "\<forall>r\<in>set (mine_attempts I t). \<not> running_attempt r"
      unfolding att using A by (intro closed_mine[OF closes_fail]) (simp add: attempt_open_def)
    moreover have "length (mine_attempts I t) = length (mine_attempts I s)" by (simp add: att length_update_where)
    ultimately show ?thesis using A inv t(1) by (simp add: attempt_open_def attempt_over_def)
  qed
  then show ?thesis by (intro tripleI) blast+
qed

lemma mine_invocations_update:
  assumes "ps_invocations t = update_where p f (ps_invocations s)" "\<And>j. in_invocation_id (f j) = in_invocation_id j"
  shows "mine_invocations I t = update_where p f (mine_invocations I s)"
  using assms filter_update_where[of "\<lambda>r. in_invocation_id r \<in> I" f] by (simp add: mine_invocations_def)

lemma settled_update:
  assumes "\<forall>j\<in>set js. in_status j = InvocationStatusRunning \<longrightarrow> in_invocation_id j = i"
    and "\<And>j. in_status (f j) \<noteq> InvocationStatusRunning"
  shows "\<forall>j\<in>set (update_where (\<lambda>j. in_invocation_id j = i) f js). in_status j \<noteq> InvocationStatusRunning"
proof
  fix j assume "j \<in> set (update_where (\<lambda>j. in_invocation_id j = i) f js)"
  then obtain q where "q \<in> set js" "j = (if in_invocation_id q = i then f q else q)" by (auto simp: set_update_where)
  then show "in_status j \<noteq> InvocationStatusRunning" using assms by auto
qed

lemma success_triple:
  "triple (attempt_open hash I n k rv) (complete_invocation_success None rv out raw (Some u) fin)
     (\<lambda>_. all_settled hash I n k) (\<lambda>_ _. False)"
proof -
  have *: "all_settled hash I n k t \<and> is_ok r"
    if A: "attempt_open hash I n k rv s" and res: "complete_invocation_success None rv out raw (Some u) fin s = (r, t)" for s r t
  proof -
    obtain a where a: "pool_ok s" "holds_lease rv s" "a \<in> set (ps_apis s)" "ap_api_id a = rv_api_id rv"
      by (rule attempt_open_row[OF A])
    have "\<exists>v. r = Inr v" and t: "t = write_success rv out raw (Some u) fin a s"
      using success_runs[OF a, of out raw u fin] res by (metis Pair_inject)+
    have inv: "pool_inv hash t" using A res by (auto simp: attempt_open_def intro: success_inv)
    have att: "mine_attempts I t = update_where (\<lambda>r. at_attempt_id r = rv_attempt_id rv) (succeed_attempt_row fin (Some u)) (mine_attempts I s)"
      by (rule mine_attempts_close[OF closes_succeed]) (simp add: t write_success_def Let_def)
    have invs: "mine_invocations I t = update_where (\<lambda>r. in_invocation_id r = rv_invocation_id rv)
        (succeed_invocation_row fin out raw (Some u)) (mine_invocations I s)"
      by (rule mine_invocations_update) (simp_all add: t write_success_def Let_def)
    have "\<forall>r\<in>set (mine_attempts I t). \<not> running_attempt r"
      unfolding att using A by (intro closed_mine[OF closes_succeed]) (simp add: attempt_open_def)
    moreover have "\<forall>j\<in>set (mine_invocations I t). in_status j \<noteq> InvocationStatusRunning"
      unfolding invs using A by (intro settled_update) (simp_all add: attempt_open_def succeed_invocation_row_def)
    moreover have "length (mine_attempts I t) = length (mine_attempts I s)" by (simp add: att length_update_where)
    ultimately show ?thesis
      using A inv \<open>\<exists>v. r = Inr v\<close> by (auto simp: attempt_open_def all_settled_def)
  qed
  show ?thesis by (intro tripleI) (use * in force)+
qed

lemma failure_triple:
  "triple (attempt_over hash I n k i) (complete_invocation_failure None i ge fin)
     (\<lambda>_. all_settled hash I n k) (\<lambda>_ _. False)"
proof -
  have *: "all_settled hash I n k t \<and> is_ok r"
    if B: "attempt_over hash I n k i s" and res: "complete_invocation_failure None i ge fin s = (r, t)" for s r t
  proof -
    have closed: "no_open_attempt i s" using B no_open_attempt_mine by (auto simp: attempt_over_def)
    have found: "find_invocation i (write_invocation_failure i ge fin s) \<noteq> None"
      using B by (auto simp: attempt_over_def find_invocation_def write_invocation_failure_def find_update_where)
    then obtain v where "load_invocation_response i (write_invocation_failure i ge fin s) = Inr v"
      by (auto simp: load_invocation_response_def load_invocation_record_def)
    then have "complete_invocation_failure None i ge fin s = (Inr v, write_invocation_failure i ge fin s)"
      by (simp add: failure_eq)
    then have t: "t = write_invocation_failure i ge fin s" and ok: "is_ok r" using res by auto
    have inv: "pool_inv hash t" using B res closed by (auto simp: attempt_over_def intro: failure_inv)
    have att: "mine_attempts I t = mine_attempts I s" by (simp add: t write_invocation_failure_def mine_attempts_def)
    have invs: "mine_invocations I t = update_where (\<lambda>r. in_invocation_id r = i) (fail_invocation_row fin ge) (mine_invocations I s)"
      by (rule mine_invocations_update) (simp_all add: t write_invocation_failure_def)
    have "\<forall>j\<in>set (mine_invocations I t). in_status j \<noteq> InvocationStatusRunning"
      unfolding invs using B by (intro settled_update) (simp_all add: attempt_over_def fail_invocation_row_def)
    then show ?thesis using B inv att ok by (simp add: attempt_over_def all_settled_def)
  qed
  show ?thesis by (intro tripleI) (use * in force)+
qed

text \<open>The rows of mine after a reservation.\<close>

lemma reserve_mine:
  assumes res: "seq (sync_config hash c) (\<lambda>_. reserve_attempt_tx c q known fi) s = (Inr rv, t)"
    and i: "i = (case known of None \<Rightarrow> fi_invocation_id fi | Some i \<Rightarrow> i)" and I: "i \<in> I"
  obtains aid where "rv_invocation_id rv = i"
    "mine_attempts I t = mine_attempts I s @ [new_attempt (rv_attempt_id rv) i aid (fi_now fi)]"
    "mine_invocations I t = (case known of None \<Rightarrow> mine_invocations I s @ [new_invocation i q aid (fi_now fi)]
       | Some _ \<Rightarrow> update_where (\<lambda>r. in_invocation_id r = i) (reopen_row aid) (mine_invocations I s))"
proof -
  obtain v u where u: "sync_config hash c s = (Inr v, u)" "reserve_attempt_tx c q known fi u = (Inr rv, t)"
    using res by (auto simp: seq_Inr_iff)
  note frame = sync_config_frame[OF u(1)]
  from u(2) show ?thesis
  proof (cases rule: reserve_attempt_tx_Inr)
    case (1 a ac i')
    have i': "i' = i" using 1(4) i by simp
    show ?thesis
    proof (rule that[of "ap_api_id a"])
      show "rv_invocation_id rv = i" by (simp add: 1(7) i')
      show "mine_attempts I t = mine_attempts I s @ [new_attempt (rv_attempt_id rv) i (ap_api_id a) (fi_now fi)]"
        using frame I by (simp add: 1(7,8) i' mine_attempts_def reserved_store_sel)
      show "mine_invocations I t = (case known of None \<Rightarrow> mine_invocations I s @ [new_invocation i q (ap_api_id a) (fi_now fi)]
          | Some _ \<Rightarrow> update_where (\<lambda>r. in_invocation_id r = i) (reopen_row (ap_api_id a)) (mine_invocations I s))"
        using frame I by (cases known) (simp_all add: 1(8) i' mine_invocations_def reserved_store_sel filter_update_where)
    qed
  qed
qed

lemma reserved_open:
  assumes inv: "pool_inv hash t" and held: "holds_lease rv t" and rv: "rv_invocation_id rv = i" "i \<in> I"
    and att: "mine_attempts I t = rs @ [new_attempt (rv_attempt_id rv) i aid now]" "\<forall>r\<in>set rs. \<not> running_attempt r"
      "int (length rs) = n + k"
    and invs: "\<forall>j\<in>set (mine_invocations I t). in_status j = InvocationStatusRunning \<longrightarrow> in_invocation_id j = i"
  shows "attempt_open hash I n (k + 1) rv t"
  using assms by (simp add: attempt_open_def)

lemma retry_triple:
  "triple (attempt_over hash I n k i) (reserve_retry_attempt hash None c i q fi)
     (\<lambda>rv s. attempt_open hash I n (k + 1) rv s \<and> rv_invocation_id rv = i) (\<lambda>_. attempt_over hash I n k i)"
proof (rule tripleI)
  fix s rv t
  assume B: "attempt_over hash I n k i s" and "reserve_retry_attempt hash None c i q fi s = (Inr rv, t)"
  then have res: "seq (sync_config hash c) (\<lambda>_. reserve_attempt_tx c q (Some i) fi) s = (Inr rv, t)"
    by (simp add: reserve_retry_attempt_def)
  have inv: "pool_inv hash s" and i: "i \<in> I" using B by (simp_all add: attempt_over_def)
  have closed: "no_open_attempt i s" using B no_open_attempt_mine by (auto simp: attempt_over_def)
  obtain aid where a: "rv_invocation_id rv = i"
    "mine_attempts I t = mine_attempts I s @ [new_attempt (rv_attempt_id rv) i aid (fi_now fi)]"
    "mine_invocations I t = update_where (\<lambda>r. in_invocation_id r = i) (reopen_row aid) (mine_invocations I s)"
    by (rule reserve_mine[OF res _ i]) simp_all
  have invs: "in_invocation_id j = i" if j: "j \<in> set (mine_invocations I t)" "in_status j = InvocationStatusRunning" for j
  proof -
    obtain q where "q \<in> set (mine_invocations I s)" "j = (if in_invocation_id q = i then reopen_row aid q else q)"
      using j(1) unfolding a(3) by (auto simp: set_update_where)
    then show ?thesis using B j(2) by (cases "in_invocation_id q = i") (auto simp: attempt_over_def)
  qed
  have kept: "reservation_kept (iq_route_policy q) rv t" by (rule reserve_kept[OF inv res])
  have "pool_inv hash t" by (rule reserve_inv[OF inv _ res]) (simp add: closed)
  then have "attempt_open hash I n (k + 1) rv t"
    by (rule reserved_open[OF _ _ a(1) i a(2)]) (use kept B invs in \<open>auto simp: reservation_kept_def attempt_over_def\<close>)
  then show "attempt_open hash I n (k + 1) rv t \<and> rv_invocation_id rv = i" using a(1) by simp
next
  fix s e t
  assume "attempt_over hash I n k i s" "reserve_retry_attempt hash None c i q fi s = (Inl e, t)"
  then show "attempt_over hash I n k i t" by (auto simp: reserve_retry_attempt_def dest: with_immediate_tx_Inl)
qed

lemma reserve_triple:
  assumes "fi_invocation_id fi \<in> I"
  shows "triple (all_settled hash I n k) (reserve_invocation hash None c q fi)
     (attempt_open hash I n (k + 1)) (\<lambda>_. all_settled hash I n k)"
proof (rule tripleI)
  fix s rv t
  assume C: "all_settled hash I n k s" and "reserve_invocation hash None c q fi s = (Inr rv, t)"
  then have res: "seq (sync_config hash c) (\<lambda>_. reserve_attempt_tx c q None fi) s = (Inr rv, t)"
    by (simp add: reserve_invocation_def)
  have inv: "pool_inv hash s" using C by (simp add: all_settled_def)
  obtain aid where a: "rv_invocation_id rv = fi_invocation_id fi"
    "mine_attempts I t = mine_attempts I s @ [new_attempt (rv_attempt_id rv) (fi_invocation_id fi) aid (fi_now fi)]"
    "mine_invocations I t = mine_invocations I s @ [new_invocation (fi_invocation_id fi) q aid (fi_now fi)]"
    by (rule reserve_mine[OF res _ assms]) simp_all
  have kept: "reservation_kept (iq_route_policy q) rv t" by (rule reserve_kept[OF inv res])
  have "pool_inv hash t" by (rule reserve_inv[OF inv _ res]) simp
  then show "attempt_open hash I n (k + 1) rv t"
    by (rule reserved_open[OF _ _ a(1) assms a(2)]) (use kept C in \<open>auto simp: reservation_kept_def all_settled_def a(3)\<close>)
next
  fix s e t
  assume "all_settled hash I n k s" "reserve_invocation hash None c q fi s = (Inl e, t)"
  then show "all_settled hash I n k t" by (auto simp: reserve_invocation_def dest: with_immediate_tx_Inl)
qed

section \<open>The gateway's calls\<close>

abbreviation on_store :: "(pool_store \<Rightarrow> bool) \<Rightarrow> 'w pool_world \<Rightarrow> bool" where
  "on_store P \<equiv> \<lambda>st. P (fst st)"

definition stable :: "'w pool_env \<Rightarrow> (pool_store \<Rightarrow> bool) \<Rightarrow> bool" where
  "stable g P \<longleftrightarrow> (\<forall>s w t w'. pe_others g (s, w) = (t, w') \<longrightarrow> P s \<longrightarrow> P t)"

lemma stable_stages [simp]:
  assumes "rely g I"
  shows "stable g (attempt_open (pe_hash g) I n k rv)" "stable g (attempt_over (pe_hash g) I n k i)"
    "stable g (all_settled (pe_hash g) I n k)"
  using stages_stable[OF assms] by (auto simp: stable_def)

lemma triple_run_with:
  assumes "stable g P" and "\<And>w. ctx w = None" and "triple P (m None) Q E"
  shows "triple (on_store P) (run_with g ctx m) (\<lambda>v. on_store (Q v)) (\<lambda>e. on_store (E e))"
proof (rule tripleI)
  fix st v u
  assume P: "P (fst st)" and res: "run_with g ctx m st = (Inr v, u)"
  obtain s w where o: "pe_others g st = (s, w)" by (meson surj_pair)
  have "P s" using assms(1) P o by (cases st) (auto simp: stable_def)
  then show "Q v (fst u)"
    using res assms(2) triple_InrD[OF assms(3)] by (auto simp: run_with_def o split: prod.splits)
next
  fix st e u
  assume P: "P (fst st)" and res: "run_with g ctx m st = (Inl e, u)"
  obtain s w where o: "pe_others g st = (s, w)" by (meson surj_pair)
  have "P s" using assms(1) P o by (cases st) (auto simp: stable_def)
  then show "E e (fst u)"
    using res assms(2) triple_InlD[OF assms(3)] by (auto simp: run_with_def o split: prod.splits)
qed

lemma triple_run_store:
  "uncancelled g \<Longrightarrow> stable g P \<Longrightarrow> triple P (m None) Q E \<Longrightarrow>
   triple (on_store P) (run_store g m) (\<lambda>v. on_store (Q v)) (\<lambda>e. on_store (E e))"
  unfolding run_store_def uncancelled_def by (blast intro: triple_run_with)

lemma triple_run_cleanup:
  "stable g P \<Longrightarrow> triple P (m None) Q E \<Longrightarrow>
   triple (on_store P) (run_cleanup g m) (\<lambda>v. on_store (Q v)) (\<lambda>e. on_store (E e))"
  unfolding run_cleanup_def by (blast intro: triple_run_with)

lemma triple_on_world: "triple (on_store P) (on_world m) (\<lambda>_. on_store P) (\<lambda>_. on_store P)"
  by (auto simp: triple_def on_world_def split: prod.splits sum.splits)

lemma triple_with_now:
  assumes "\<And>now. triple (on_store P) (f now) Q E"
  shows "triple (on_store P) (with_now g f) Q E"
proof -
  have "with_now g f st = f (fst (pe_now g (snd st))) (fst st, snd (pe_now g (snd st)))" for st
    by (simp add: with_now_def split: prod.splits)
  then show ?thesis using assms by (simp add: triple_def)
qed

lemma triple_with_fresh:
  assumes "rely g I" and "\<And>fi. fi_invocation_id fi \<in> I \<Longrightarrow> triple (on_store P) (f fi) Q E"
  shows "triple (on_store P) (with_fresh g f) Q E"
proof -
  have "fi_invocation_id (fst (pe_fresh g w)) \<in> I" for w
    using assms(1) unfolding rely_def by blast
  moreover have "with_fresh g f st = f (fst (pe_fresh g (snd st))) (fst st, snd (pe_fresh g (snd st)))" for st
    by (simp add: with_fresh_def split: prod.splits)
  ultimately show ?thesis using assms(2) by (simp add: triple_def)
qed

lemma triple_with_config:
  assumes "\<And>w c. load_model_config (pe_read g w) (pe_decode g) (pe_path g) = Inr c \<Longrightarrow> triple (on_store P) (f c) Q E"
    and "\<And>e s w. P s \<Longrightarrow> E e (s, w)"
  shows "triple (on_store P) (with_config g f) Q E"
proof -
  have "with_config g f st = (case load_model_config (pe_read g (snd st)) (pe_decode g) (pe_path g) of
      Inl e \<Rightarrow> (Inl e, st) | Inr c \<Rightarrow> f c st)" for st
    by (simp add: with_config_def split: prod.splits sum.splits)
  then show ?thesis using assms by (auto simp: triple_def split: sum.splits)
qed

lemma triple_total: "triple P m Q (\<lambda>_ _. False) \<Longrightarrow> triple P m Q E"
  by (erule triple_conseq) simp_all

section \<open>The attempts\<close>

lemma finish_failure_run:
  assumes rely: "rely g I" and run: "\<And>m P Q E. stable g P \<Longrightarrow> triple P (m None) Q E \<Longrightarrow>
      triple (on_store P) (run m) (\<lambda>v. on_store (Q v)) (\<lambda>e. on_store (E e))"
  shows "triple (on_store (attempt_over (pe_hash g) I n k i)) (finish_invocation_failure run i ge fin)
     Q (\<lambda>_. on_store (all_settled (pe_hash g) I n k))"
  unfolding finish_invocation_failure_def
proof (rule triple_seq)
  have "triple (on_store (attempt_over (pe_hash g) I n k i)) (run (\<lambda>over. complete_invocation_failure over i ge fin))
      (\<lambda>_. on_store (all_settled (pe_hash g) I n k)) (\<lambda>_. on_store (\<lambda>_. False))"
    by (rule run, simp add: rely, rule failure_triple)
  then show "triple (on_store (attempt_over (pe_hash g) I n k i)) (run (\<lambda>over. complete_invocation_failure over i ge fin))
      (\<lambda>_. on_store (all_settled (pe_hash g) I n k)) (\<lambda>_. on_store (all_settled (pe_hash g) I n k))"
    by (rule triple_total)
qed (simp add: triple_return_err)

lemma finish_failure_triple:
  assumes "rely g I" "uncancelled g"
  shows "triple (on_store (attempt_over (pe_hash g) I n k i)) (finish_invocation_failure (run_store g) i ge fin)
     Q (\<lambda>_. on_store (all_settled (pe_hash g) I n k))"
  by (rule finish_failure_run[OF assms(1)]) (rule triple_run_store[OF assms(2)])

lemma internal_failure_triple:
  assumes rely: "rely g I"
  shows "triple (on_store (attempt_open (pe_hash g) I n k rv)) (finish_internal_failure g rv e)
     Q (\<lambda>_. on_store (all_settled (pe_hash g) I n k))"
  unfolding finish_internal_failure_def
proof (intro triple_with_now triple_seq)
  fix fin
  have "triple (on_store (attempt_open (pe_hash g) I n k rv))
      (run_cleanup g (\<lambda>over. complete_attempt_failure over rv (internal_gateway_error e) fin))
      (\<lambda>_. on_store (attempt_over (pe_hash g) I n k (rv_invocation_id rv))) (\<lambda>_. on_store (\<lambda>_. False))"
    by (rule triple_run_cleanup, simp add: rely, rule attempt_failure_triple)
  then show "triple (on_store (attempt_open (pe_hash g) I n k rv))
      (run_cleanup g (\<lambda>over. complete_attempt_failure over rv (internal_gateway_error e) fin))
      (\<lambda>_. on_store (attempt_over (pe_hash g) I n k (rv_invocation_id rv))) (\<lambda>_. on_store (all_settled (pe_hash g) I n k))"
    by (rule triple_total)
next
  fix fin
  show "triple (on_store (attempt_over (pe_hash g) I n k (rv_invocation_id rv)))
      (finish_invocation_failure (run_cleanup g) (rv_invocation_id rv) (internal_gateway_error e) fin)
      Q (\<lambda>_. on_store (all_settled (pe_hash g) I n k))"
    by (rule finish_failure_run[OF rely]) (rule triple_run_cleanup)
qed

lemma complete_success_triple:
  assumes "rely g I" "uncancelled g"
  shows "triple (on_store (attempt_open (pe_hash g) I n k rv)) (complete_success g rv out)
     (\<lambda>_. on_store (all_settled (pe_hash g) I n k)) E"
  unfolding complete_success_def Let_def
proof (rule triple_with_now, rule triple_total)
  fix fin
  show "triple (on_store (attempt_open (pe_hash g) I n k rv)) (run_store g (\<lambda>over. complete_invocation_success over rv
      (pv_output_text out) (pv_response out)
      (Some (finalize_usage (pe_round g) (pv_usage out) ((fin - rv_started_at rv) sdiv 1000000) (rv_pricing rv))) fin))
      (\<lambda>_. on_store (all_settled (pe_hash g) I n k)) (\<lambda>_ _. False)"
    by (rule triple_run_store[OF assms(2), where E = "\<lambda>_ _. False"], simp add: assms(1), rule success_triple)
qed

lemma reserve_retry_triple:
  assumes "rely g I" "uncancelled g"
  shows "triple (on_store (attempt_over (pe_hash g) I n k i)) (reserve_retry g c i q)
     (\<lambda>rv. on_store (\<lambda>s. attempt_open (pe_hash g) I n (k + 1) rv s \<and> rv_invocation_id rv = i))
     (\<lambda>_. on_store (attempt_over (pe_hash g) I n k i))"
  unfolding reserve_retry_def
proof (rule triple_with_fresh[OF assms(1)])
  fix fi
  show "triple (on_store (attempt_over (pe_hash g) I n k i))
      (run_store g (\<lambda>over. reserve_retry_attempt (pe_hash g) over c i q fi))
      (\<lambda>rv. on_store (\<lambda>s. attempt_open (pe_hash g) I n (k + 1) rv s \<and> rv_invocation_id rv = i))
      (\<lambda>_. on_store (attempt_over (pe_hash g) I n k i))"
    by (rule triple_run_store[OF assms(2)], simp add: assms(1), rule retry_triple)
qed

text \<open>What the loop leaves: nothing of mine runs, and it made at most \<open>m\<close> attempts.\<close>

definition settled_within :: "(model_config \<Rightarrow> string) \<Rightarrow> string set \<Rightarrow> int \<Rightarrow> int \<Rightarrow> pool_store \<Rightarrow> bool" where
  "settled_within hash I n m s \<longleftrightarrow> (\<exists>k\<le>m. all_settled hash I n k s)"

lemma within_triple:
  "k \<le> m \<Longrightarrow> triple P f (\<lambda>_. on_store (all_settled h I n k)) (\<lambda>_. on_store (all_settled h I n k)) \<Longrightarrow>
   triple P f (\<lambda>_. on_store (settled_within h I n m)) (\<lambda>_. on_store (settled_within h I n m))"
  by (erule triple_conseq) (auto simp: settled_within_def)


lemma invoke_attempts_triple:
  assumes rely: "rely g I" and live: "uncancelled g"
  shows "k \<le> rt_max_attempts (policy_normalized p) \<Longrightarrow>
    triple (on_store (attempt_open (pe_hash g) I n k rv)) (invoke_attempts g p c q k rv)
      (\<lambda>_. on_store (settled_within (pe_hash g) I n (rt_max_attempts (policy_normalized p))))
      (\<lambda>_. on_store (settled_within (pe_hash g) I n (rt_max_attempts (policy_normalized p))))"
proof (induction "nat (rt_max_attempts (policy_normalized p) - k)" arbitrary: k rv rule: less_induct)
  case less
  let ?h = "pe_hash g" and ?m = "rt_max_attempts (policy_normalized p)"
  let ?S = "on_store (settled_within ?h I n ?m)"
  note within = within_triple[OF less.prems]
  have internal: "triple (on_store (attempt_open ?h I n k rv)) (finish_internal_failure g rv e) (\<lambda>_. ?S) (\<lambda>_. ?S)" for e
    by (rule within, rule internal_failure_triple[OF rely])
  have failed: "triple (on_store (attempt_over ?h I n k (rv_invocation_id rv)))
      (finish_invocation_failure (run_store g) (rv_invocation_id rv) ge fin) (\<lambda>_. ?S) (\<lambda>_. ?S)" for ge fin
    by (rule within, rule finish_failure_triple[OF rely live])
  have again: "triple (on_store (\<lambda>s. attempt_open ?h I n (k + 1) rv' s \<and> rv_invocation_id rv' = rv_invocation_id rv))
      (invoke_attempts g p c q (k + 1) rv') (\<lambda>_. ?S) (\<lambda>_. ?S)" if "should_retry p k ge" for rv' ge
    by (rule triple_conseq[OF less.hyps]) (use that in \<open>auto simp: should_retry_def\<close>)
  have retry: "triple (on_store (attempt_over ?h I n k (rv_invocation_id rv)))
      (attempt (on_world (pe_sleep g (backoff_for p k))) (\<lambda>slept. case slept of
               Inl e \<Rightarrow> with_now g (\<lambda>now.
                 finish_invocation_failure (run_store g) (rv_invocation_id rv) (internal_gateway_error e) now)
             | Inr _ \<Rightarrow> attempt (reserve_retry g c (rv_invocation_id rv) q) (\<lambda>next_rv. case next_rv of
                 Inl e \<Rightarrow> with_now g (\<lambda>now.
                   finish_invocation_failure (run_store g) (rv_invocation_id rv) (retry_error ge e) now)
               | Inr rv' \<Rightarrow> invoke_attempts g p c q (k + 1) rv'))) (\<lambda>_. ?S) (\<lambda>_. ?S)"
    if "should_retry p k ge" for ge
  proof (rule triple_attempt[OF triple_on_world])
    fix slept
    show "triple (on_store (attempt_over ?h I n k (rv_invocation_id rv))) (case slept of
               Inl e \<Rightarrow> with_now g (\<lambda>now.
                 finish_invocation_failure (run_store g) (rv_invocation_id rv) (internal_gateway_error e) now)
             | Inr _ \<Rightarrow> attempt (reserve_retry g c (rv_invocation_id rv) q) (\<lambda>next_rv. case next_rv of
                 Inl e \<Rightarrow> with_now g (\<lambda>now.
                   finish_invocation_failure (run_store g) (rv_invocation_id rv) (retry_error ge e) now)
               | Inr rv' \<Rightarrow> invoke_attempts g p c q (k + 1) rv')) (\<lambda>_. ?S) (\<lambda>_. ?S)"
    proof (cases slept)
      case (Inl e)
      then show ?thesis by (simp add: triple_with_now failed)
    next
      case (Inr u)
      let ?next = "\<lambda>next_rv. case next_rv of
          Inl e \<Rightarrow> on_store (attempt_over ?h I n k (rv_invocation_id rv))
        | Inr rv' \<Rightarrow> on_store (\<lambda>s. attempt_open ?h I n (k + 1) rv' s \<and> rv_invocation_id rv' = rv_invocation_id rv)"
      have "triple (on_store (attempt_over ?h I n k (rv_invocation_id rv)))
          (attempt (reserve_retry g c (rv_invocation_id rv) q) (\<lambda>next_rv. case next_rv of
                 Inl e \<Rightarrow> with_now g (\<lambda>now.
                   finish_invocation_failure (run_store g) (rv_invocation_id rv) (retry_error ge e) now)
               | Inr rv' \<Rightarrow> invoke_attempts g p c q (k + 1) rv')) (\<lambda>_. ?S) (\<lambda>_. ?S)"
      proof (rule triple_attempt[where M = ?next])
        fix next_rv
        show "triple (?next next_rv) (case next_rv of
                 Inl e \<Rightarrow> with_now g (\<lambda>now.
                   finish_invocation_failure (run_store g) (rv_invocation_id rv) (retry_error ge e) now)
               | Inr rv' \<Rightarrow> invoke_attempts g p c q (k + 1) rv') (\<lambda>_. ?S) (\<lambda>_. ?S)"
          using again[OF that] by (cases next_rv) (simp_all add: triple_with_now failed)
      qed (use reserve_retry_triple[OF rely live] in simp)
      then show ?thesis using Inr by simp
    qed
  qed
  show ?case
  proof (cases "pe_factory g (rv_provider rv)")
    case (Inl e)
    then show ?thesis by (subst invoke_attempts.simps) (simp add: internal)
  next
    case (Inr client)
    show ?thesis
      unfolding invoke_attempts.simps[of g p c q k rv] Inr sum.case
    proof (rule triple_attempt[OF triple_on_world])
      fix res
      show "triple (on_store (attempt_open ?h I n k rv)) (case res of
       Inr out \<Rightarrow> complete_success g rv out
     | Inl err \<Rightarrow> (case err of
         ProviderInvocationError ge \<Rightarrow> with_now g (\<lambda>fin.
           seq (run_store g (\<lambda>over. complete_attempt_failure over rv ge fin)) (\<lambda>_.
           if iq_stream_sink q then finish_invocation_failure (run_store g) (rv_invocation_id rv) ge fin
           else if \<not> should_retry p k ge then finish_invocation_failure (run_store g) (rv_invocation_id rv) ge fin
           else attempt (on_world (pe_sleep g (backoff_for p k))) (\<lambda>slept. case slept of
               Inl e \<Rightarrow> with_now g (\<lambda>now.
                 finish_invocation_failure (run_store g) (rv_invocation_id rv) (internal_gateway_error e) now)
             | Inr _ \<Rightarrow> attempt (reserve_retry g c (rv_invocation_id rv) q) (\<lambda>next_rv. case next_rv of
                 Inl e \<Rightarrow> with_now g (\<lambda>now.
                   finish_invocation_failure (run_store g) (rv_invocation_id rv) (retry_error ge e) now)
               | Inr rv' \<Rightarrow> invoke_attempts g p c q (k + 1) rv'))))
       | _ \<Rightarrow> finish_internal_failure g rv err)) (\<lambda>_. ?S) (\<lambda>_. ?S)"
      proof (cases res)
        case (Inr out)
        then show ?thesis by (simp, intro within complete_success_triple[OF rely live])
      next
        case (Inl err)
        have step: "triple (on_store (attempt_open ?h I n k rv)) (run_store g (\<lambda>over. complete_attempt_failure over rv ge fin))
            (\<lambda>_. on_store (attempt_over ?h I n k (rv_invocation_id rv))) (\<lambda>_. ?S)" for ge fin
          by (rule triple_total, rule triple_run_store[OF live, where E = "\<lambda>_ _. False"], simp add: rely, rule attempt_failure_triple)
        show ?thesis
        proof (cases err)
          case (ProviderInvocationError ge)
          show ?thesis
            unfolding Inl ProviderInvocationError sum.case pool_error.case
            by (intro triple_with_now triple_seq[OF step] triple_if failed retry) simp
        qed (simp_all add: Inl internal)
      qed
    qed
  qed
qed

section \<open>Invocations\<close>

lemma resolved_policy_normalized [simp]:
  "policy_normalized (resolve_retry_policy g c) = resolve_retry_policy g c"
  by (simp add: resolve_retry_policy_def config_retry_policy_def split: option.split)

text \<open>No policy the gateway can use allows more than \<open>m\<close> attempts.\<close>

definition attempt_limit :: "'w pool_env \<Rightarrow> int \<Rightarrow> bool" where
  "attempt_limit g m \<longleftrightarrow> (\<forall>w c. load_model_config (pe_read g w) (pe_decode g) (pe_path g) = Inr c \<longrightarrow>
     rt_max_attempts (resolve_retry_policy g c) \<le> m)"

definition settled_limit :: "'w pool_env \<Rightarrow> string set \<Rightarrow> int \<Rightarrow> int \<Rightarrow> pool_store \<Rightarrow> bool" where
  "settled_limit g I n m s \<longleftrightarrow> (\<exists>k. (attempt_limit g m \<longrightarrow> k \<le> m) \<and> all_settled (pe_hash g) I n k s)"

lemma settled_limitI:
  "settled_within (pe_hash g) I n k s \<Longrightarrow> (attempt_limit g m \<Longrightarrow> k \<le> m) \<Longrightarrow> settled_limit g I n m s"
  unfolding settled_within_def settled_limit_def by (meson order_trans)

lemma invoke_triple:
  assumes rely: "rely g I" and live: "uncancelled g"
    and pos: "0 \<le> m"
  shows "triple (on_store (all_settled (pe_hash g) I n 0)) (invoke g q)
     (\<lambda>_. on_store (settled_limit g I n m)) (\<lambda>_. on_store (settled_limit g I n m))"
proof -
  let ?C = "on_store (all_settled (pe_hash g) I n 0)" and ?S = "on_store (settled_limit g I n m)"
  have start: "all_settled (pe_hash g) I n 0 s \<Longrightarrow> settled_limit g I n m s" for s
    using pos by (auto simp: settled_limit_def)
  have reserve: "triple ?C (with_fresh g (\<lambda>fi. run_store g (\<lambda>over. reserve_invocation (pe_hash g) over c q fi)))
      (\<lambda>rv. on_store (attempt_open (pe_hash g) I n (0 + 1) rv)) (\<lambda>_. ?S)" for c
  proof (rule triple_with_fresh[OF rely])
    fix fi :: fresh_ids assume fi: "fi_invocation_id fi \<in> I"
    have "triple ?C (run_store g (\<lambda>over. reserve_invocation (pe_hash g) over c q fi))
        (\<lambda>rv. on_store (attempt_open (pe_hash g) I n (0 + 1) rv)) (\<lambda>_. ?C)"
      by (rule triple_run_store[OF live], simp add: rely, rule reserve_triple[OF fi])
    then show "triple ?C (run_store g (\<lambda>over. reserve_invocation (pe_hash g) over c q fi))
        (\<lambda>rv. on_store (attempt_open (pe_hash g) I n (0 + 1) rv)) (\<lambda>_. ?S)"
      by (rule triple_conseq) (auto intro: start)
  qed
  have run: "triple (on_store (attempt_open (pe_hash g) I n (0 + 1) rv)) (case validate_invoke_request_for_mode q (rv_api_mode rv) of
       Inl e \<Rightarrow> finish_internal_failure g rv e
     | Inr _ \<Rightarrow> invoke_attempts g (resolve_retry_policy g c) c q 1 rv) (\<lambda>_. ?S) (\<lambda>_. ?S)"
    if c: "attempt_limit g m \<Longrightarrow> rt_max_attempts (resolve_retry_policy g c) \<le> m" for c rv
  proof -
    have limit: "settled_limit g I n m s" if "settled_within (pe_hash g) I n (rt_max_attempts (resolve_retry_policy g c)) s" for s
      using that c by (rule settled_limitI)
    have one: "1 \<le> rt_max_attempts (resolve_retry_policy g c)"
      using policy_normalized_max[of "resolve_retry_policy g c"] by simp
    have "triple (on_store (attempt_open (pe_hash g) I n 1 rv)) (invoke_attempts g (resolve_retry_policy g c) c q 1 rv) (\<lambda>_. ?S) (\<lambda>_. ?S)"
      by (rule triple_conseq[OF invoke_attempts_triple[OF rely live, of 1 "resolve_retry_policy g c"]])
         (use one limit in simp_all)
    moreover have "triple (on_store (attempt_open (pe_hash g) I n 1 rv)) (finish_internal_failure g rv e) (\<lambda>_. ?S) (\<lambda>_. ?S)" for e
      by (rule triple_conseq[OF within_triple[OF one internal_failure_triple[OF rely]]]) (simp, erule limit, erule limit)
    ultimately show ?thesis by (simp split: sum.split)
  qed
  show ?thesis
    unfolding invoke_def
  proof (rule triple_with_config)
    fix w c assume "load_model_config (pe_read g w) (pe_decode g) (pe_path g) = Inr c"
    then have "attempt_limit g m \<Longrightarrow> rt_max_attempts (resolve_retry_policy g c) \<le> m"
      unfolding attempt_limit_def by blast
    note run[OF this]
    moreover have "triple ?C (of_result (validate_invoke_request q)) (\<lambda>_. ?C) (\<lambda>_. ?S)"
      by (auto simp: triple_def of_result_def start split: sum.splits)
    ultimately show "triple ?C (seq (of_result (validate_invoke_request q)) (\<lambda>_.
        seq (with_fresh g (\<lambda>fi. run_store g (\<lambda>over. reserve_invocation (pe_hash g) over c q fi))) (\<lambda>rv.
        case validate_invoke_request_for_mode q (rv_api_mode rv) of
          Inl e \<Rightarrow> finish_internal_failure g rv e
        | Inr _ \<Rightarrow> invoke_attempts g (resolve_retry_policy g c) c q 1 rv))) (\<lambda>_. ?S) (\<lambda>_. ?S)"
      by (intro triple_seq[where M = "\<lambda>_. ?C"] triple_seq[OF reserve])
  qed (simp add: start)
qed

lemma invoke_settled:
  assumes "rely g I" "uncancelled g" and inv: "pool_inv (pe_hash g) s"
    and "\<forall>r\<in>set (ps_attempts s). at_invocation_id r \<in> I \<longrightarrow> at_status r \<noteq> InvocationStatusRunning"
    and "\<forall>j\<in>set (ps_invocations s). in_invocation_id j \<in> I \<longrightarrow> in_status j \<noteq> InvocationStatusRunning"
    and "0 \<le> m" and res: "invoke g q (s, w) = (r, (t, w'))"
  shows "settled_limit g I (int (length (mine_attempts I s))) m t"
proof -
  let ?n = "int (length (mine_attempts I s))"
  have "all_settled (pe_hash g) I ?n 0 s"
    using assms(3-5) by (auto simp: all_settled_def mine_attempts_def mine_invocations_def running_attempt_def)
  then have "case invoke g q (s, w) of (Inl e, u) \<Rightarrow> settled_limit g I ?n m (fst u)
      | (Inr v, u) \<Rightarrow> settled_limit g I ?n m (fst u)"
    using invoke_triple[where n = ?n and q = q, OF assms(1,2,6)] unfolding triple_def by simp
  then show ?thesis using res by (cases r) simp_all
qed

section \<open>A gateway to try\<close>

text \<open>Its world counts the identifiers drawn; its provider always times out.\<close>

definition demo_ids_of :: "nat \<Rightarrow> fresh_ids \<times> nat" where
  "demo_ids_of k = (\<lparr>fi_now = int k, fi_invocation_id = ''i'' @ show_nat k, fi_attempt_id = ''t'' @ show_nat k\<rparr>, k + 1)"

definition demo_client :: "nat provider_client" where
  "demo_client rv q k = (Inl (ProviderInvocationError demo_error), k)"

definition demo_env :: "nat pool_env" where
  "demo_env = \<lparr>pe_hash = demo_hash, pe_path = ''model.json'', pe_read = \<lambda>_ _. Some ''x'',
     pe_decode = \<lambda>_. Inr (demo_config\<lparr>mc_offline_failure_threshold := 5\<rparr>, []), pe_ctx = \<lambda>_. None, pe_now = \<lambda>k. (int k, k), pe_fresh = demo_ids_of,
     pe_others = \<lambda>st. st, pe_factory = \<lambda>_. Inr demo_client, pe_sleep = \<lambda>d k. (Inr (), k), pe_policy = None,
     pe_round = \<lambda>x. x\<rparr>"

lemma demo_env_rely: "rely demo_env UNIV" "uncancelled demo_env"
  by (simp_all add: demo_env_def rely_def uncancelled_def)

lemma demo_env_limit: "attempt_limit demo_env 3"
  by (auto simp: attempt_limit_def demo_env_def load_model_config_def resolve_retry_policy_def config_retry_policy_def
      demo_config_def default_retry_policy_def policy_normalized_def result_simps)

definition demo_run :: "(pool_error + invoke_response) \<times> nat pool_world" where
  "demo_run = invoke demo_env demo_request (new_pool_store, 0)"

section \<open>Properties\<close>

text \<open>
  C8. An invocation whose context is not cancelled settles: whatever the provider answers, whatever goes wrong on the way and
  whatever the other users of the database do, when \<open>Invoke\<close> returns no attempt of its invocations is running and
  none of them is left in status running.
\<close>

theorem invoke_settles:
  assumes "rely g I" and "uncancelled g" and "reachable (\<lambda>s. s = new_pool_store) (pool_step (pe_hash g)) s"
    and "\<forall>r\<in>set (ps_attempts s). at_invocation_id r \<in> I \<longrightarrow> at_status r \<noteq> InvocationStatusRunning"
    and "\<forall>j\<in>set (ps_invocations s). in_invocation_id j \<in> I \<longrightarrow> in_status j \<noteq> InvocationStatusRunning"
    and "invoke g q (s, w) = (r, (t, w'))"
  shows "(\<forall>r\<in>set (ps_attempts t). at_invocation_id r \<in> I \<longrightarrow> at_status r \<noteq> InvocationStatusRunning) \<and>
    (\<forall>j\<in>set (ps_invocations t). in_invocation_id j \<in> I \<longrightarrow> in_status j \<noteq> InvocationStatusRunning)"
  using invoke_settled[OF assms(1,2) reachable_pool_inv[OF assms(3)] assms(4,5) order_refl assms(6)]
  by (auto simp: settled_limit_def all_settled_def mine_attempts_def mine_invocations_def running_attempt_def)

lemma demo_run_split: "invoke demo_env demo_request (new_pool_store, 0) = (fst demo_run, (fst (snd demo_run), snd (snd demo_run)))"
  by (simp add: demo_run_def)

theorem invoke_settles_witness:
  "list_all (\<lambda>r. at_status r \<noteq> InvocationStatusRunning) (ps_attempts (fst (snd demo_run))) \<and>
   length (ps_attempts (fst (snd demo_run))) = 3"
proof
  have "reachable (\<lambda>s. s = new_pool_store) (pool_step (pe_hash demo_env)) new_pool_store" by (simp add: reach_init)
  from invoke_settles[OF demo_env_rely this _ _ demo_run_split]
  show "list_all (\<lambda>r. at_status r \<noteq> InvocationStatusRunning) (ps_attempts (fst (snd demo_run)))"
    by (simp add: new_pool_store_def list_all_iff)
  show "length (ps_attempts (fst (snd demo_run))) = 3" by code_simp
qed

text \<open>
  An invocation makes at most as many attempts as the retry policy allows, whatever the provider answers.
\<close>

theorem invoke_attempt_bound:
  assumes "rely g I" and "uncancelled g" and "reachable (\<lambda>s. s = new_pool_store) (pool_step (pe_hash g)) s"
    and "\<forall>r\<in>set (ps_attempts s). at_invocation_id r \<in> I \<longrightarrow> at_status r \<noteq> InvocationStatusRunning"
    and "\<forall>j\<in>set (ps_invocations s). in_invocation_id j \<in> I \<longrightarrow> in_status j \<noteq> InvocationStatusRunning"
    and "attempt_limit g m" and "0 \<le> m" and "invoke g q (s, w) = (r, (t, w'))"
  shows "int (length (filter (\<lambda>r. at_invocation_id r \<in> I) (ps_attempts t))) \<le>
    int (length (filter (\<lambda>r. at_invocation_id r \<in> I) (ps_attempts s))) + m"
  using invoke_settled[OF assms(1,2) reachable_pool_inv[OF assms(3)] assms(4,5,7,8)] assms(6)
  by (auto simp: settled_limit_def all_settled_def mine_attempts_def)

theorem invoke_attempt_bound_witness:
  "length (ps_attempts (fst (snd demo_run))) \<le> 3"
proof -
  have "reachable (\<lambda>s. s = new_pool_store) (pool_step (pe_hash demo_env)) new_pool_store" by (simp add: reach_init)
  from invoke_attempt_bound[OF demo_env_rely this _ _ demo_env_limit _ demo_run_split]
  show ?thesis by (simp add: new_pool_store_def)
qed

text \<open>
  C39. A context that is cancelled while the provider works leaks the lease: the completion of the attempt, failed or
  successful, runs under the cancelled context and fails, and the call returns with the attempt still holding its lease
  and its invocation still running.
\<close>

theorem cancelled_context_leaks_lease:
  assumes "pe_others g = (\<lambda>st. st)" and "pe_factory g (rv_provider rv) = Inr client"
    and "client rv q w = (answer, w1)" and "answer = Inl (ProviderInvocationError ge) \<or> answer = Inr out"
    and "pe_now g w1 = (fin, w2)" and "pe_ctx g w2 = Some e" and "holds_lease rv s"
  shows "invoke_attempts g p c q k rv (s, w) = (Inl e, (s, w2)) \<and>
    (\<exists>r\<in>set (ps_attempts s). at_attempt_id r = rv_attempt_id rv \<and> at_status r = InvocationStatusRunning)"
proof
  have over: "complete_attempt_failure (Some e) rv ge fin s = (Inl e, s)"
    "complete_invocation_success (Some e) rv o' raw u fin s = (Inl e, s)" for o' raw u
    by (simp_all add: complete_attempt_failure_def complete_invocation_success_def with_immediate_tx_def transaction_def)
  show "invoke_attempts g p c q k rv (s, w) = (Inl e, (s, w2))"
    using assms(4)
  proof
    assume "answer = Inl (ProviderInvocationError ge)"
    then show ?thesis
      using assms over(1) by (simp add: invoke_attempts.simps[of g p c q k rv] attempt_def on_world_def with_now_def
          seq_def run_store_def run_with_def)
  next
    assume "answer = Inr out"
    then show ?thesis
      using assms over(2) by (simp add: invoke_attempts.simps[of g p c q k rv] attempt_def on_world_def with_now_def
          complete_success_def Let_def run_store_def run_with_def)
  qed
  show "\<exists>r\<in>set (ps_attempts s). at_attempt_id r = rv_attempt_id rv \<and> at_status r = InvocationStatusRunning"
    using assms(7) by (auto simp: holds_lease_def running_attempt_def)
qed

definition demo_cancelled :: "nat pool_env" where
  "demo_cancelled = demo_env\<lparr>pe_ctx := \<lambda>_. Some ContextCanceled\<rparr>"

theorem cancelled_context_leaks_lease_witness:
  "fst (invoke_attempts demo_cancelled default_retry_policy demo_config demo_request 1 demo_held (demo_store, 0)) =
     Inl ContextCanceled"
  using cancelled_context_leaks_lease[of demo_cancelled demo_held demo_client demo_request 0
      "Inl (ProviderInvocationError demo_error)" 0 demo_error undefined 0 0 ContextCanceled demo_store
      default_retry_policy demo_config 1] demo_held
  by (simp add: demo_cancelled_def demo_env_def demo_client_def)

end
