(* ===== verification/PoolPayload.thy ===== *)
theory PoolPayload
  imports PoolConfig
begin

text \<open>
  What the pool sends to a provider and how it reads the answer (internal/poolgateway/openai_responses.go and providers.go): the
  merge of the configured defaults with a request, the payloads of the two API modes, the classification of an answer's errors, its
  conversion to the form of the Responses API, its text and its usage.

  The copies a clone makes are not visible in a model without aliasing. \<open>marshal\<close> stands for \<open>json.Marshal\<close> of a value that
  cannot fail to be encoded.
\<close>

section \<open>Reading values\<close>

definition any_string :: "json \<Rightarrow> string" where
  "any_string v = (case v of JStr t \<Rightarrow> t | _ \<Rightarrow> '''')"

definition any_string_at :: "json_object \<Rightarrow> string \<Rightarrow> string" where
  "any_string_at m k = any_string (field_or_nil m k)"

definition map_value :: "json_object option \<Rightarrow> string \<Rightarrow> json" where
  "map_value m k = (case m of None \<Rightarrow> JNull | Some o' \<Rightarrow> field_or_nil o' k)"

section \<open>Merging payloads\<close>

text \<open>
  The loop of \<open>mergeMaps\<close> over the entries of the request, and what becomes of one of them: two objects are merged, anything else
  of the request replaces what was there.
\<close>

fun merge_entries :: "json_object \<Rightarrow> json_object \<Rightarrow> json_object"
  and merge_value :: "json option \<Rightarrow> json \<Rightarrow> json" where
  "merge_entries m [] = m"
| "merge_entries m ((k, v) # rest) = merge_entries (put k (merge_value (map_of m k) v) m) rest"
| "merge_value (Some (JObj e)) (JObj o') = JObj (if e = [] then o' else if o' = [] then e else merge_entries e o')"
| "merge_value _ v = v"

definition merge_maps :: "json_object \<Rightarrow> json_object \<Rightarrow> json_object" where
  "merge_maps base override = (if base = [] then override else if override = [] then base else merge_entries base override)"

definition merge_request_payload :: "json_object \<Rightarrow> json_object \<Rightarrow> string \<Rightarrow> json_object" where
  "merge_request_payload defaults request model = put ''model'' (JStr model) (merge_maps defaults request)"

definition merge_chat_completions_payload :: "json_object \<Rightarrow> json_object \<Rightarrow> string \<Rightarrow> json_object" where
  "merge_chat_completions_payload defaults request model = put ''model'' (JStr model) (merge_maps defaults request)"

definition payload_stream_enabled :: "json_object \<Rightarrow> bool" where
  "payload_stream_enabled m \<longleftrightarrow> field_or_nil m ''stream'' = JBool True"

section \<open>The payload of the Responses API\<close>

definition user_message :: "string \<Rightarrow> json" where
  "user_message t = JObj [(''role'', JStr ''user''), (''content'', JStr t)]"

definition normalize_responses_input :: "(json \<Rightarrow> string) \<Rightarrow> json \<Rightarrow> json list" where
  "normalize_responses_input marshal v = (case v of
       JNull \<Rightarrow> []
     | JArr xs \<Rightarrow> xs
     | JStr t \<Rightarrow> if trim_space t = '''' then [] else [user_message t]
     | JObj m \<Rightarrow> [JObj m]
     | _ \<Rightarrow> [user_message (marshal v)])"

text \<open>The first lines of \<open>invokeResponses\<close>.\<close>

definition responses_payload :: "(json \<Rightarrow> string) \<Rightarrow> invocation_reservation \<Rightarrow> invoke_request \<Rightarrow> json_object" where
  "responses_payload marshal rv q =
     (let m = del ''user'' (del ''truncation'' (del ''metadata''
            (merge_request_payload (rv_request_defaults rv) (iq_request q) (rv_model rv)))) in
      put ''input'' (JArr (normalize_responses_input marshal (field_or_nil m ''input''))) m)"

section \<open>The payload of the chat completions API\<close>

definition gateway_unsupported_request :: "string \<Rightarrow> gateway_error" where
  "gateway_unsupported_request f = \<lparr>ge_code = ''gateway_unsupported_request'', ge_message = f @ '' is not supported yet'',
     ge_retryable = False, ge_provider_status_code = None, ge_details = [(''field'', JStr f)]\<rparr>"

definition unsupported :: "string \<Rightarrow> string \<Rightarrow> gateway_error" where
  "unsupported f msg = (gateway_unsupported_request f)\<lparr>ge_message := msg\<rparr>"

definition is_supported_chat_completions_field :: "string \<Rightarrow> bool" where
  "is_supported_chat_completions_field f \<longleftrightarrow> f \<in> set [''model'', ''messages'', ''tools'', ''tool_choice'', ''response_format'',
     ''temperature'', ''top_p'', ''max_tokens'', ''user'', ''store'', ''stream'']"

text \<open>\<open>if v, exists := from[k]; exists \&\& v != nil { payload[to] = v }\<close>.\<close>

definition copy_field :: "json_object \<Rightarrow> string \<times> string \<Rightarrow> json_object \<Rightarrow> json_object" where
  "copy_field from p m = (case field_or_nil from (fst p) of JNull \<Rightarrow> m | v \<Rightarrow> put (snd p) v m)"

definition check_supported :: "string \<Rightarrow> gateway_error + unit" where
  "check_supported f = (if is_supported_chat_completions_field f then Inr ()
     else Inl (unsupported (''chat_request.'' @ f) (''chat_request.'' @ f @ '' is not supported'')))"

definition copied_chat_fields :: "(string \<times> string) list" where
  "copied_chat_fields = map (\<lambda>f. (f, f)) [''tools'', ''tool_choice'', ''response_format'', ''temperature'', ''top_p'', ''max_tokens'',
     ''stream'', ''store'']"

text \<open>The loop over the fields of the request runs in the order of the list; Go's order is arbitrary.\<close>

definition build_chat_completions_payload :: "json_object \<Rightarrow> gateway_error + json_object" where
  "build_chat_completions_payload m = (case field_or_nil m ''messages'' of
       JArr (x # xs) \<Rightarrow> and_then (check_all check_supported (map fst m)) (\<lambda>_.
         Inr (fold (copy_field m) copied_chat_fields
           [(''model'', field_or_nil m ''model''), (''messages'', JArr (x # xs))]))
     | _ \<Rightarrow> Inl (unsupported ''chat_request.messages'' ''chat_request.messages is required for chat_completions mode''))"

definition build_chat_payload_for_invoke :: "invocation_reservation \<Rightarrow> invoke_request \<Rightarrow> gateway_error + json_object" where
  "build_chat_payload_for_invoke rv q =
     (if iq_chat_request q \<noteq> [] then
        build_chat_completions_payload (merge_chat_completions_payload (rv_request_defaults rv) (iq_chat_request q) (rv_model rv))
      else Inl (unsupported ''chat_request'' ''chat_request is required for chat_completions mode''))"

section \<open>A Responses request as chat messages\<close>

text \<open>These conversions are in the source but nothing calls them at this commit.\<close>

definition text_part :: "json \<Rightarrow> string" where
  "text_part v = (case as_object v of None \<Rightarrow> ''''
     | Some m \<Rightarrow> if any_string_at m ''type'' \<in> {''text'', ''output_text''} then any_string_at m ''text'' else '''')"

definition chat_message_content :: "json \<Rightarrow> string" where
  "chat_message_content v = (case v of
       JStr t \<Rightarrow> trim_space t
     | JArr xs \<Rightarrow> trim_space (concat (map text_part xs))
     | _ \<Rightarrow> '''')"

definition chat_message :: "string \<Rightarrow> string \<Rightarrow> json_object" where
  "chat_message role content = [(''role'', JStr role), (''content'', JStr content)]"

definition convert_input_item :: "(json \<Rightarrow> string) \<Rightarrow> json_object \<Rightarrow> json_object" where
  "convert_input_item marshal m =
     (let role = any_string_at m ''role''; content = chat_message_content (field_or_nil m ''content'') in
      if role \<noteq> '''' \<and> content \<noteq> '''' then chat_message role content
      else if any_string_at m ''text'' \<noteq> '''' then chat_message ''user'' (any_string_at m ''text'')
      else chat_message ''user'' (marshal (JObj m)))"

definition convert_input_to_chat_messages :: "(json \<Rightarrow> string) \<Rightarrow> json \<Rightarrow> json_object list" where
  "convert_input_to_chat_messages marshal v = (case v of
       JStr t \<Rightarrow> if trim_space t = '''' then [] else [chat_message ''user'' t]
     | JArr xs \<Rightarrow> map (convert_input_item marshal) (List.map_filter as_object xs)
     | JObj m \<Rightarrow>
         (let role = any_string_at m ''role''; content = chat_message_content (field_or_nil m ''content'') in
          if role \<noteq> '''' \<and> content \<noteq> '''' then [chat_message role content] else [chat_message ''user'' (marshal v)])
     | _ \<Rightarrow> [])"

definition normalize_tool_for_chat :: "json \<Rightarrow> json" where
  "normalize_tool_for_chat v = (case as_object v of None \<Rightarrow> v
     | Some m \<Rightarrow>
         if any_string_at m ''type'' \<noteq> ''function'' then v
         else if has_field m ''function'' then v
         else JObj [(''type'', JStr ''function''), (''function'', JObj [(''name'', field_or_nil m ''name''),
           (''description'', field_or_nil m ''description''), (''parameters'', field_or_nil m ''parameters'')])])"

definition normalize_responses_tools_for_chat :: "json \<Rightarrow> json" where
  "normalize_responses_tools_for_chat v = (case as_array v of None \<Rightarrow> v | Some xs \<Rightarrow> JArr (map normalize_tool_for_chat xs))"

definition tools_for_chat :: "json_object \<Rightarrow> json_object \<Rightarrow> json_object" where
  "tools_for_chat from m = (case field_or_nil from ''tools'' of JNull \<Rightarrow> m
     | v \<Rightarrow> put ''tools'' (normalize_responses_tools_for_chat v) m)"

definition copied_responses_fields :: "(string \<times> string) list" where
  "copied_responses_fields = [(''tool_choice'', ''tool_choice''), (''temperature'', ''temperature''), (''top_p'', ''top_p''),
     (''max_output_tokens'', ''max_tokens''), (''stream'', ''stream''), (''store'', ''store'')]"

definition build_chat_payload_from_responses :: "(json \<Rightarrow> string) \<Rightarrow> json_object \<Rightarrow> gateway_error + json_object" where
  "build_chat_payload_from_responses marshal m =
     (let converted = convert_input_to_chat_messages marshal (field_or_nil m ''input'');
          instructions = any_string_at m ''instructions'';
          messages = (if instructions = '''' then converted else chat_message ''system'' instructions # converted) in
      if messages = [] then
        Inl (unsupported ''request.input'' ''request.input is empty after conversion for chat_completions mode'')
      else Inr (fold (copy_field m) copied_responses_fields (tools_for_chat m
        [(''model'', field_or_nil m ''model''), (''messages'', JArr (map JObj messages))])))"

definition contains_function_call_output :: "json \<Rightarrow> bool" where
  "contains_function_call_output v = (case as_array v of None \<Rightarrow> False
     | Some xs \<Rightarrow> list_ex (\<lambda>m. any_string_at m ''type'' = ''function_call_output'') (List.map_filter as_object xs))"

section \<open>Errors in an answer\<close>

definition provider_error :: "string \<Rightarrow> string \<Rightarrow> json_object \<Rightarrow> gateway_error" where
  "provider_error code msg details = \<lparr>ge_code = code, ge_message = msg, ge_retryable = False, ge_provider_status_code = None,
     ge_details = details\<rparr>"

definition classify_chat_completions_payload :: "json_object \<Rightarrow> gateway_error option" where
  "classify_chat_completions_payload m = (case field_or_nil m ''error'' of
       JObj (e # es) \<Rightarrow>
         (let msg = any_string_at (e # es) ''message'' in
          Some (provider_error ''provider_response_error'' (if msg = '''' then ''provider returned error payload'' else msg)
            [(''error'', JObj (e # es))]))
     | _ \<Rightarrow> None)"

definition classify_provider_payload :: "json_object \<Rightarrow> gateway_error option" where
  "classify_provider_payload m = (case classify_chat_completions_payload m of
       Some g \<Rightarrow> Some g
     | None \<Rightarrow>
         if any_string_at m ''status'' = ''incomplete'' then
           (let details = as_object (field_or_nil m ''incomplete_details'');
                reason = any_string (map_value details ''reason'') in
            Some (provider_error ''provider_incomplete_response''
              (if reason = '''' then ''provider response incomplete'' else ''provider response incomplete: '' @ reason)
              [(''status'', JStr ''incomplete''),
               (''incomplete_details'', case details of None \<Rightarrow> JNull | Some d \<Rightarrow> JObj d)]))
         else None)"

definition provider_invalid_json :: "string \<Rightarrow> gateway_error" where
  "provider_invalid_json msg = provider_error ''provider_invalid_json'' msg []"

section \<open>A chat completion as a response\<close>

text \<open>\<open>i\<close> is the position of the call in the answer.\<close>

fun normalize_chat_tool_calls_from :: "nat \<Rightarrow> json list \<Rightarrow> json list" where
  "normalize_chat_tool_calls_from i [] = []"
| "normalize_chat_tool_calls_from i (v # vs) =
     (let rest = normalize_chat_tool_calls_from (i + 1) vs in
      case as_object v of None \<Rightarrow> rest
      | Some call \<Rightarrow> (case as_object (field_or_nil call ''function'') of None \<Rightarrow> rest
        | Some f \<Rightarrow>
            if any_string_at f ''name'' = '''' then rest
            else (let given = any_string_at call ''id'';
                      cid = (if given = '''' then ''chat_tool_call_'' @ show_nat (i + 1) else given);
                      arguments = (case field_or_nil f ''arguments'' of JNull \<Rightarrow> JStr ''{}'' | a \<Rightarrow> a) in
                  JObj [(''type'', JStr ''function_call''), (''id'', JStr cid), (''call_id'', JStr cid),
                    (''name'', JStr (any_string_at f ''name'')), (''arguments'', arguments)] # rest)))"

definition normalize_chat_tool_calls :: "json \<Rightarrow> json list" where
  "normalize_chat_tool_calls v = (case as_array v of None \<Rightarrow> [] | Some xs \<Rightarrow> normalize_chat_tool_calls_from 0 xs)"

definition output_message :: "string \<Rightarrow> json" where
  "output_message t = JObj [(''type'', JStr ''message''), (''role'', JStr ''assistant''), (''status'', JStr ''completed''),
     (''content'', JArr [JObj [(''type'', JStr ''output_text''), (''text'', JStr t)]])]"

definition normalize_chat_usage :: "json \<Rightarrow> json_object" where
  "normalize_chat_usage v = (case as_object v of None \<Rightarrow> []
     | Some u \<Rightarrow> [(''input_tokens'', field_or_nil u ''prompt_tokens''), (''output_tokens'', field_or_nil u ''completion_tokens''),
         (''total_tokens'', field_or_nil u ''total_tokens'')])"

definition normalize_chat_completions_response :: "json_object \<Rightarrow> string + json_object" where
  "normalize_chat_completions_response m = (case field_or_nil m ''choices'' of
       JArr (c # cs) \<Rightarrow> (case as_object c of
           None \<Rightarrow> Inl ''choices[0] is invalid''
         | Some choice \<Rightarrow> (case as_object (field_or_nil choice ''message'') of
             None \<Rightarrow> Inl ''choices[0].message is required''
           | Some message \<Rightarrow>
               (let content = chat_message_content (field_or_nil message ''content'');
                    output = (if content = '''' then [] else [output_message content]) @
                      normalize_chat_tool_calls (field_or_nil message ''tool_calls'') in
                Inr [(''id'', field_or_nil m ''id''), (''object'', JStr ''response''), (''model'', field_or_nil m ''model''),
                  (''status'', JStr ''completed''), (''output'', JArr output),
                  (''usage'', JObj (normalize_chat_usage (field_or_nil m ''usage'')))])))
     | _ \<Rightarrow> Inl ''choices is required'')"

section \<open>Text and usage of a response\<close>

definition output_item_text :: "json \<Rightarrow> string" where
  "output_item_text v = (case as_object v of None \<Rightarrow> ''''
     | Some m \<Rightarrow> if any_string_at m ''type'' = ''message'' then
         (case as_array (field_or_nil m ''content'') of None \<Rightarrow> '''' | Some xs \<Rightarrow> concat (map text_part xs)) else '''')"

definition extract_output_text :: "json_object \<Rightarrow> string option" where
  "extract_output_text m = (case as_array (field_or_nil m ''output'') of None \<Rightarrow> None
     | Some xs \<Rightarrow> (let t = concat (map output_item_text xs) in if t = '''' then None else Some t))"

definition extract_usage :: "json_object \<Rightarrow> usage_metrics option" where
  "extract_usage m = (case as_object (field_or_nil m ''usage'') of None \<Rightarrow> None
     | Some u \<Rightarrow>
         (let inp = as_object (field_or_nil u ''input_tokens_details''); out = as_object (field_or_nil u ''output_tokens_details'') in
          Some \<lparr>us_input_tokens = any_int (field_or_nil u ''input_tokens''), us_output_tokens = any_int (field_or_nil u ''output_tokens''),
            us_total_tokens = any_int (field_or_nil u ''total_tokens''),
            us_cached_input_tokens = any_int (map_value inp ''cached_tokens''),
            us_reasoning_tokens = any_int (map_value out ''reasoning_tokens''),
            us_latency_ms = None, us_cost_usd = None\<rparr>))"


section \<open>Precedence in a merged payload\<close>

text \<open>What is at a path of keys; a path ends at a value that is not an object.\<close>

fun at_path :: "json \<Rightarrow> string list \<Rightarrow> json option" where
  "at_path v [] = Some v"
| "at_path (JObj m) (k # ks) = (case map_of m k of None \<Rightarrow> None | Some v \<Rightarrow> at_path v ks)"
| "at_path _ (k # ks) = None"

fun is_object :: "json \<Rightarrow> bool" where
  "is_object (JObj m) = True"
| "is_object _ = False"

text \<open>Values as Go has them: no object has a key twice.\<close>

fun objects_ok :: "json \<Rightarrow> bool" where
  "objects_ok (JObj m) = (keys_distinct m \<and> (\<forall>e\<in>set m. objects_ok (snd e)))"
| "objects_ok _ = True"

lemma objects_ok_field: "objects_ok (JObj m) \<Longrightarrow> map_of m k = Some v \<Longrightarrow> objects_ok v"
  by (auto dest: map_of_SomeD)

lemma map_of_merge_entries:
  "keys_distinct r \<Longrightarrow> map_of (merge_entries m r) k =
     (case map_of r k of None \<Rightarrow> map_of m k | Some v \<Rightarrow> Some (merge_value (map_of m k) v))"
proof (induction r arbitrary: m)
  case (Cons e r)
  obtain k' v where e: "e = (k', v)" by fastforce
  have "map_of r k' = None" using Cons.prems e by (auto simp: map_of_eq_None_iff)
  then show ?case using Cons e by (auto simp: table_simps split: option.split)
qed simp

lemma map_of_merge_maps:
  "keys_distinct r \<Longrightarrow> map_of (merge_maps m r) k =
     (case map_of r k of None \<Rightarrow> map_of m k | Some v \<Rightarrow> Some (merge_value (map_of m k) v))"
  by (auto simp: merge_maps_def map_of_merge_entries split: option.split)

lemma merge_value_objects: "merge_value (Some (JObj e)) (JObj r) = JObj (merge_maps e r)"
  by (simp add: merge_maps_def)

lemma merge_value_other: "\<not> is_object v \<or> (\<forall>e. u \<noteq> Some (JObj e)) \<Longrightarrow> merge_value u v = v"
proof (cases u)
  case (Some w)
  assume "\<not> is_object v \<or> (\<forall>e. u \<noteq> Some (JObj e))"
  then show ?thesis using Some by (cases w; cases v) auto
qed simp

lemma merged_request_value:
  "objects_ok (JObj r) \<Longrightarrow> at_path (JObj r) p = Some v \<Longrightarrow> \<not> is_object v \<Longrightarrow> at_path (JObj (merge_maps d r)) p = Some v"
proof (induction p arbitrary: d r)
  case (Cons k p)
  obtain u where u: "map_of r k = Some u" "at_path u p = Some v" using Cons.prems(2) by (auto split: option.splits)
  have there: "map_of (merge_maps d r) k = Some (merge_value (map_of d k) u)" using Cons.prems(1) u by (simp add: map_of_merge_maps)
  show ?case
  proof (cases "\<exists>e r'. map_of d k = Some (JObj e) \<and> u = JObj r'")
    case True
    then obtain e r' where "map_of d k = Some (JObj e)" "u = JObj r'" by blast
    moreover have "objects_ok u" using Cons.prems(1) u(1) by (rule objects_ok_field)
    ultimately show ?thesis using there u Cons.IH Cons.prems(3) by (simp add: merge_value_objects del: merge_value.simps)
  next
    case False
    then have "merge_value (map_of d k) u = u" by (intro merge_value_other) (cases u; auto)
    then show ?thesis using there u by simp
  qed
qed (cases v; simp)

lemma merged_default_value:
  "objects_ok (JObj r) \<Longrightarrow> at_path (JObj r) p = Some (JObj m) \<Longrightarrow> map_of m k = None \<Longrightarrow>
   at_path (JObj (merge_maps d r)) (p @ k # q) = at_path (JObj d) (p @ k # q)"
proof (induction p arbitrary: d r)
  case Nil
  then show ?case by (simp add: map_of_merge_maps)
next
  case (Cons x p)
  obtain u where u: "map_of r x = Some u" "at_path u p = Some (JObj m)" using Cons.prems(2) by (auto split: option.splits)
  have there: "map_of (merge_maps d r) x = Some (merge_value (map_of d x) u)" using Cons.prems(1) u by (simp add: map_of_merge_maps)
  obtain r' where r': "u = JObj r'" using u(2) by (cases u; cases p) auto
  have ok: "objects_ok (JObj r')" using Cons.prems(1) u(1) r' objects_ok_field by blast
  show ?case
  proof (cases "\<exists>e. map_of d x = Some (JObj e)")
    case True
    then show ?thesis using there u r' Cons.IH[OF ok] Cons.prems(3) by (auto simp: merge_value_objects simp del: merge_value.simps)
  next
    case False
    then have "merge_value (map_of d x) u = u" by (intro merge_value_other) auto
    moreover have "at_path (JObj r') (p @ k # q) = None"
      using Cons.IH[OF ok, of "[]"] u(2) r' Cons.prems(3) by (cases p) (simp_all add: merge_maps_def)
    moreover have "at_path w (p @ k # q) = None" if "map_of d x = Some w" for w
      using False that by (cases w; cases p) auto
    ultimately show ?thesis using there r' by (simp split: option.split)
  qed
qed

lemma at_path_put: "p \<noteq> [] \<Longrightarrow> hd p \<noteq> k \<Longrightarrow> at_path (JObj (put k v m)) p = at_path (JObj m) p"
  by (cases p) (auto simp: table_simps)

text \<open>
  What is sent to the Responses API of the configured defaults and a request: the model is the configured one whatever either
  says; every value of the request that is not an object is sent as it is at its path; and below an object of the request that
  lacks a key, everything under this key comes from the defaults.
\<close>

theorem request_overrides_defaults:
  assumes "objects_ok (JObj request)"
  shows "map_of (merge_request_payload defaults request model) ''model'' = Some (JStr model) \<and>
    (\<forall>p v. p \<noteq> [] \<and> hd p \<noteq> ''model'' \<and> at_path (JObj request) p = Some v \<and> \<not> is_object v \<longrightarrow>
      at_path (JObj (merge_request_payload defaults request model)) p = Some v) \<and>
    (\<forall>p m k q. hd (p @ [k]) \<noteq> ''model'' \<and> at_path (JObj request) p = Some (JObj m) \<and> map_of m k = None \<longrightarrow>
      at_path (JObj (merge_request_payload defaults request model)) (p @ k # q) = at_path (JObj defaults) (p @ k # q))"
proof (intro conjI allI impI)
  show "map_of (merge_request_payload defaults request model) ''model'' = Some (JStr model)"
    by (simp add: merge_request_payload_def table_simps)
next
  fix p v
  assume "p \<noteq> [] \<and> hd p \<noteq> ''model'' \<and> at_path (JObj request) p = Some v \<and> \<not> is_object v"
  then show "at_path (JObj (merge_request_payload defaults request model)) p = Some v"
    using merged_request_value[OF assms] by (simp add: merge_request_payload_def at_path_put)
next
  fix p m k q
  assume h: "hd (p @ [k]) \<noteq> ''model'' \<and> at_path (JObj request) p = Some (JObj m) \<and> map_of m k = None"
  have "hd (p @ k # q) = hd (p @ [k])" by (cases p) simp_all
  then show "at_path (JObj (merge_request_payload defaults request model)) (p @ k # q) = at_path (JObj defaults) (p @ k # q)"
    using h merged_default_value[OF assms, of p m k defaults q] by (simp add: merge_request_payload_def at_path_put)
qed

section \<open>The chat payload\<close>

lemma copy_fields_lookup:
  "map_of (fold (copy_field m) (map (\<lambda>f. (f, f)) fs) init) k =
     (if k \<in> set fs \<and> field_or_nil m k \<noteq> JNull then Some (field_or_nil m k) else map_of init k)"
  by (induction fs arbitrary: init) (auto simp: copy_field_def table_simps split: json.split)

text \<open>
  Every field of the merged request is sent to the chat completions API as it is, except the field \<open>user\<close>, which the checks accept and
  which is never sent.
\<close>

lemma chat_payload_fields:
  assumes "build_chat_completions_payload m = Inr p"
  shows "field_or_nil p k = (if k = ''user'' then JNull else field_or_nil m k)"
proof -
  obtain x xs where messages: "field_or_nil m ''messages'' = JArr (x # xs)" and known: "\<forall>f\<in>fst ` set m. is_supported_chat_completions_field f"
    and p: "p = fold (copy_field m) copied_chat_fields [(''model'', field_or_nil m ''model''), (''messages'', JArr (x # xs))]"
    using assms by (auto simp: build_chat_completions_payload_def result_simps check_supported_def split: json.splits list.splits if_splits)
  note lookup = copy_fields_lookup[of m "[''tools'', ''tool_choice'', ''response_format'', ''temperature'', ''top_p'', ''max_tokens'',
      ''stream'', ''store'']", folded copied_chat_fields_def]
  show ?thesis
  proof (cases "is_supported_chat_completions_field k")
    case True
    then show ?thesis using messages
      by (auto simp: is_supported_chat_completions_field_def p field_or_nil_def lookup)
  next
    case False
    then have "map_of m k = None" using known by (force simp: map_of_eq_None_iff)
    with False show ?thesis
      by (auto simp: is_supported_chat_completions_field_def p field_or_nil_def lookup)
  qed
qed

definition demo_request_payload :: json_object where
  "demo_request_payload = [(''input'', JStr ''hi''), (''reasoning'', JObj [(''effort'', JStr ''low'')]), (''model'', JStr ''mine'')]"

definition demo_defaults :: json_object where
  "demo_defaults = [(''reasoning'', JObj [(''effort'', JStr ''high''), (''summary'', JStr ''auto'')]), (''store'', JBool False)]"

theorem request_overrides_defaults_witness:
  "at_path (JObj (merge_request_payload demo_defaults demo_request_payload ''m'')) [''reasoning'', ''effort''] = Some (JStr ''low'') \<and>
   at_path (JObj (merge_request_payload demo_defaults demo_request_payload ''m'')) [''reasoning'', ''summary''] = Some (JStr ''auto'')"
proof -
  have ok: "objects_ok (JObj demo_request_payload)" by (simp add: demo_request_payload_def)
  have "at_path (JObj demo_request_payload) [''reasoning'', ''effort''] = Some (JStr ''low'')"
    "at_path (JObj demo_request_payload) [''reasoning''] = Some (JObj [(''effort'', JStr ''low'')])"
    "at_path (JObj demo_defaults) [''reasoning'', ''summary''] = Some (JStr ''auto'')"
    by (simp_all add: demo_request_payload_def demo_defaults_def)
  moreover note claim = request_overrides_defaults[OF ok, of demo_defaults "''m''"]
  ultimately show ?thesis
    using claim[THEN conjunct2, THEN conjunct1, rule_format, of "[''reasoning'', ''effort'']" "JStr ''low''"]
      claim[THEN conjunct2, THEN conjunct2, rule_format, of "[''reasoning'']" "''summary''" "[(''effort'', JStr ''low'')]" "[]"]
    by (simp del: at_path.simps)
qed

end
