(* ===== verification/PoolStream.thy ===== *)
theory PoolStream
  imports PoolPayload
begin

text \<open>
  Reading the stream of a provider (internal/poolgateway/providers.go): the frames of server-sent events, and the answers of the
  Responses API and of chat completions that are put together from them.

  The body of an answer is the bytes that arrive and the error the connection ends with, if it does; \<open>parse\<close> decodes a JSON object
  (a null is the empty one) or gives the text of the error. The texts handed to the sink are the list \<open>emitted\<close>.
\<close>

section \<open>Lines\<close>

record http_body =
  hb_bytes :: string
  hb_error :: "pool_error option"

abbreviation newline :: char where
  "newline \<equiv> CHR 0x0A"

abbreviation carriage_return :: char where
  "carriage_return \<equiv> CHR 0x0D"

fun split_lines :: "string \<Rightarrow> string list" where
  "split_lines [] = []"
| "split_lines (c # s) =
     (if c = newline then [] # split_lines s
      else (case split_lines s of [] \<Rightarrow> [[c]] | l # ls \<Rightarrow> (c # l) # ls))"

definition drop_cr :: "string \<Rightarrow> string" where
  "drop_cr l = (if l \<noteq> [] \<and> last l = carriage_return then butlast l else l)"

text \<open>
  \<open>bufio.Scanner\<close> over the body with a buffer of 16 MiB: it stops at a line that does not fit, drops one carriage return from
  each line, and gives the last line even when the connection broke in it.
\<close>

definition scanner_buffer :: nat where
  "scanner_buffer = 16 * 1024 * 1024"

definition scanned_lines :: "http_body \<Rightarrow> string list" where
  "scanned_lines b = map drop_cr (takeWhile (\<lambda>l. length l < scanner_buffer) (split_lines (hb_bytes b)))"

definition scanner_err :: "http_body \<Rightarrow> pool_error option" where
  "scanner_err b = (if list_ex (\<lambda>l. \<not> length l < scanner_buffer) (split_lines (hb_bytes b))
     then Some (ErrorText ''bufio.Scanner: token too long'') else hb_error b)"

section \<open>Frames\<close>

definition has_prefix :: "string \<Rightarrow> string \<Rightarrow> bool" where
  "has_prefix s p \<longleftrightarrow> take (length p) s = p"

definition trim_prefix :: "string \<Rightarrow> string \<Rightarrow> string" where
  "trim_prefix s p = (if has_prefix s p then drop (length p) s else s)"

definition byte_order_mark :: string where
  "byte_order_mark = [CHR 0xEF, CHR 0xBB, CHR 0xBF]"

definition sse_line :: "string \<Rightarrow> string" where
  "sse_line l = trim_prefix (drop_cr l) byte_order_mark"

datatype stream_error = StreamGatewayError gateway_error | StreamReadError pool_error

definition flush_frame :: "(string \<Rightarrow> ('s, stream_error, unit) op) \<Rightarrow> string list \<Rightarrow> ('s, stream_error, unit) op" where
  "flush_frame h data = (if data = [] then return_ok () else h (join [newline] data))"

text \<open>The loop over the lines with the data lines collected so far.\<close>

fun frames_loop :: "(string \<Rightarrow> ('s, stream_error, unit) op) \<Rightarrow> string list \<Rightarrow> string list \<Rightarrow> ('s, stream_error, string list) op" where
  "frames_loop h data [] = return_ok data"
| "frames_loop h data (raw # ls) =
     (let l = sse_line raw in
      if l = [] then seq (flush_frame h data) (\<lambda>_. frames_loop h [] ls)
      else if has_prefix l '':'' then frames_loop h data ls
      else if \<not> has_prefix l ''data:'' then frames_loop h data ls
      else frames_loop h (data @ [trim_prefix (trim_prefix l ''data:'') '' '']) ls)"

definition for_each_sse_data_frame :: "http_body \<Rightarrow> (string \<Rightarrow> ('s, stream_error, unit) op) \<Rightarrow> ('s, stream_error, unit) op" where
  "for_each_sse_data_frame b h = seq (frames_loop h [] (scanned_lines b)) (\<lambda>data.
     case scanner_err b of Some e \<Rightarrow> return_err (StreamReadError e) | None \<Rightarrow> flush_frame h data)"

section \<open>A stream of the Responses API\<close>

type_synonym json_parser = "string \<Rightarrow> string + json_object"

definition parse_json_payload :: "json_parser \<Rightarrow> string \<Rightarrow> gateway_error + json_object" where
  "parse_json_payload parse s = (case parse s of
     Inl e \<Rightarrow> Inl (provider_invalid_json (''provider returned invalid json: '' @ e)) | Inr m \<Rightarrow> Inr m)"

text \<open>The check every frame begins with: what a frame that counts decodes to, unless it is an error.\<close>

definition decode_event :: "json_parser \<Rightarrow> (json_object \<Rightarrow> gateway_error option) \<Rightarrow> string \<Rightarrow> gateway_error + json_object" where
  "decode_event parse classify frame = and_then (parse_json_payload parse frame) (\<lambda>m.
     case classify m of Some g \<Rightarrow> Inl g | None \<Rightarrow> Inr m)"

definition skipped_frame :: "string \<Rightarrow> bool" where
  "skipped_frame frame \<longleftrightarrow> trim_space frame \<in> {'''', ''[DONE]''}"

record responses_stream =
  rs_final :: "json_object option"
  rs_delta :: string
  rs_items :: "(int \<times> json_object) list"
  rs_frames :: nat
  rs_emitted :: "string list"

definition new_responses_stream :: responses_stream where
  "new_responses_stream = \<lparr>rs_final = None, rs_delta = '''', rs_items = [], rs_frames = 0, rs_emitted = []\<rparr>"

definition note_delta :: "json_object \<Rightarrow> responses_stream \<Rightarrow> responses_stream" where
  "note_delta event s = (let delta = any_string_at event ''delta'' in
     if any_string_at event ''type'' = ''response.output_text.delta'' \<and> delta \<noteq> ''''
     then s\<lparr>rs_delta := rs_delta s @ delta, rs_emitted := rs_emitted s @ [delta]\<rparr> else s)"

definition note_response :: "json_object \<Rightarrow> responses_stream \<Rightarrow> responses_stream" where
  "note_response event s = (case field_or_nil event ''response'' of
     JObj (e # es) \<Rightarrow> s\<lparr>rs_final := Some (e # es)\<rparr> | _ \<Rightarrow> s)"

definition note_item :: "json_object \<Rightarrow> responses_stream \<Rightarrow> responses_stream" where
  "note_item event s = (case as_object (field_or_nil event ''item'') of None \<Rightarrow> s
     | Some item \<Rightarrow>
         (let i = (case any_int (field_or_nil event ''output_index'') of Some i \<Rightarrow> i | None \<Rightarrow> int (length (rs_items s))) in
          s\<lparr>rs_items := AList.update i item (rs_items s)\<rparr>))"

definition responses_frame :: "json_parser \<Rightarrow> string \<Rightarrow> (responses_stream, stream_error, unit) op" where
  "responses_frame parse frame s =
     (if skipped_frame frame then (Inr (), s)
      else (let s1 = s\<lparr>rs_frames := rs_frames s + 1\<rparr> in
        case decode_event parse classify_provider_payload frame of
          Inl g \<Rightarrow> (Inl (StreamGatewayError g), s1)
        | Inr event \<Rightarrow> (Inr (), note_item event (note_response event (note_delta event s1)))))"

definition empty_stream_error :: stream_error where
  "empty_stream_error = StreamGatewayError (provider_invalid_json ''provider returned empty stream payload'')"

text \<open>A response made of what was streamed.\<close>

definition streamed_response :: "json list \<Rightarrow> json_object" where
  "streamed_response output = [(''object'', JStr ''response''), (''status'', JStr ''completed''), (''output'', JArr output),
     (''usage'', JObj [])]"

definition finish_responses_stream :: "responses_stream \<Rightarrow> stream_error + json_object" where
  "finish_responses_stream s =
     (if rs_frames s = 0 then Inl empty_stream_error
      else case rs_final s of
        Some final \<Rightarrow> Inr (if extract_output_text final = None \<and> rs_delta s \<noteq> ''''
          then put ''output'' (JArr [output_message (rs_delta s)]) final else final)
      | None \<Rightarrow>
          if rs_items s \<noteq> [] then Inr (streamed_response (map (\<lambda>(i, m). JObj m) (sort_key fst (rs_items s))))
          else if rs_delta s \<noteq> '''' then Inr (streamed_response [output_message (rs_delta s)])
          else Inl empty_stream_error)"

text \<open>The answer and the texts that were emitted.\<close>

definition parse_responses_stream :: "json_parser \<Rightarrow> http_body \<Rightarrow> (stream_error + json_object) \<times> string list" where
  "parse_responses_stream parse b = (case for_each_sse_data_frame b (responses_frame parse) new_responses_stream of
     (r, s) \<Rightarrow> (and_then r (\<lambda>_. finish_responses_stream s), rs_emitted s))"

section \<open>A stream of chat completions\<close>

record tool_call_accumulator =
  tc_id :: string
  tc_name :: string
  tc_arguments :: string

definition new_accumulator :: tool_call_accumulator where
  "new_accumulator = \<lparr>tc_id = '''', tc_name = '''', tc_arguments = ''''\<rparr>"

type_synonym accumulators = "(int \<times> tool_call_accumulator) list"

text \<open>The loop that looks for an index that is not in use.\<close>

function free_index :: "int list \<Rightarrow> int \<Rightarrow> int" where
  "free_index ks i = (if i \<in> set ks then free_index ks (i + 1) else i)"
  by pat_completeness auto

termination
proof (relation "measure (\<lambda>(ks, i). card {j \<in> set ks. i \<le> j})")
  fix ks and i :: int
  assume "i \<in> set ks"
  then have "i \<in> {j \<in> set ks. i \<le> j} - {j \<in> set ks. i + 1 \<le> j}" by simp
  moreover have "{j \<in> set ks. i + 1 \<le> j} \<subseteq> {j \<in> set ks. i \<le> j}" by auto
  ultimately have "{j \<in> set ks. i + 1 \<le> j} \<subset> {j \<in> set ks. i \<le> j}" by blast
  then show "((ks, i + 1), ks, i) \<in> measure (\<lambda>(ks, i). card {j \<in> set ks. i \<le> j})" by (simp add: psubset_card_mono)
qed simp

declare free_index.simps [simp del]

definition unless_empty :: "string \<Rightarrow> string \<Rightarrow> string" where
  "unless_empty new old = (if new = '''' then old else new)"

definition add_fragment :: "json_object \<Rightarrow> tool_call_accumulator \<Rightarrow> tool_call_accumulator" where
  "add_fragment call acc =
     (let acc1 = acc\<lparr>tc_id := unless_empty (any_string_at call ''id'') (tc_id acc)\<rparr> in
      case as_object (field_or_nil call ''function'') of None \<Rightarrow> acc1
      | Some f \<Rightarrow> acc1\<lparr>tc_name := unless_empty (any_string_at f ''name'') (tc_name acc1),
          tc_arguments := tc_arguments acc1 @ any_string_at f ''arguments''\<rparr>)"

definition fragment_index :: "json_object \<Rightarrow> accumulators \<Rightarrow> int" where
  "fragment_index call accs = (case any_int (field_or_nil call ''index'') of Some i \<Rightarrow> i
     | None \<Rightarrow> free_index (map fst accs) (int (length accs)))"

definition merge_tool_call :: "json \<Rightarrow> accumulators \<Rightarrow> accumulators" where
  "merge_tool_call v accs = (case as_object v of None \<Rightarrow> accs
     | Some call \<Rightarrow>
         (let i = fragment_index call accs;
              acc = (case map_of accs i of Some a \<Rightarrow> a | None \<Rightarrow> new_accumulator) in
          AList.update i (add_fragment call acc) accs))"

definition merge_chat_stream_tool_calls :: "json \<Rightarrow> accumulators \<Rightarrow> accumulators" where
  "merge_chat_stream_tool_calls v accs = (case as_array v of None \<Rightarrow> accs | Some xs \<Rightarrow> fold merge_tool_call xs accs)"

definition build_tool_call :: "int \<times> tool_call_accumulator \<Rightarrow> json option" where
  "build_tool_call e = (case e of (i, acc) \<Rightarrow>
     let name = trim_space (tc_name acc); cid = trim_space (tc_id acc); arguments = tc_arguments acc in
     if name = '''' then None
     else Some (JObj [(''id'', JStr (if cid = '''' then ''call-'' @ show_int (i + 1) else cid)), (''type'', JStr ''function''),
       (''function'', JObj [(''name'', JStr name),
          (''arguments'', JStr (if trim_space arguments = '''' then ''{}'' else arguments))])]))"

definition build_chat_stream_tool_calls :: "accumulators \<Rightarrow> json list" where
  "build_chat_stream_tool_calls accs = List.map_filter build_tool_call (sort_key fst accs)"

record chat_stream =
  ch_id :: string
  ch_model :: string
  ch_usage :: "json_object option"
  ch_content :: string
  ch_calls :: accumulators
  ch_frames :: nat
  ch_emitted :: "string list"

definition new_chat_stream :: chat_stream where
  "new_chat_stream = \<lparr>ch_id = '''', ch_model = '''', ch_usage = None, ch_content = '''', ch_calls = [], ch_frames = 0, ch_emitted = []\<rparr>"

definition note_chunk :: "json_object \<Rightarrow> chat_stream \<Rightarrow> chat_stream" where
  "note_chunk chunk s = s\<lparr>ch_id := unless_empty (any_string_at chunk ''id'') (ch_id s),
     ch_model := unless_empty (any_string_at chunk ''model'') (ch_model s),
     ch_usage := (case field_or_nil chunk ''usage'' of JObj (e # es) \<Rightarrow> Some (e # es) | _ \<Rightarrow> ch_usage s)\<rparr>"

definition note_content :: "string \<Rightarrow> chat_stream \<Rightarrow> chat_stream" where
  "note_content content s = (if content = '''' then s
     else s\<lparr>ch_content := ch_content s @ content, ch_emitted := ch_emitted s @ [content]\<rparr>)"

definition note_choice :: "json \<Rightarrow> chat_stream \<Rightarrow> chat_stream" where
  "note_choice v s = (case as_object v of None \<Rightarrow> s
     | Some choice \<Rightarrow> (case as_object (field_or_nil choice ''delta'') of None \<Rightarrow> s
       | Some delta \<Rightarrow>
           (let s1 = note_content (any_string_at delta ''content'') s in
            s1\<lparr>ch_calls := merge_chat_stream_tool_calls (field_or_nil delta ''tool_calls'') (ch_calls s1)\<rparr>)))"

definition note_choices :: "json \<Rightarrow> chat_stream \<Rightarrow> chat_stream" where
  "note_choices v s = (case as_array v of None \<Rightarrow> s | Some xs \<Rightarrow> fold note_choice xs s)"

definition chat_frame :: "json_parser \<Rightarrow> string \<Rightarrow> (chat_stream, stream_error, unit) op" where
  "chat_frame parse frame s =
     (if skipped_frame frame then (Inr (), s)
      else (let s1 = s\<lparr>ch_frames := ch_frames s + 1\<rparr> in
        case decode_event parse classify_chat_completions_payload frame of
          Inl g \<Rightarrow> (Inl (StreamGatewayError g), s1)
        | Inr chunk \<Rightarrow> (Inr (), note_choices (field_or_nil chunk ''choices'') (note_chunk chunk s1))))"

definition finish_chat_stream :: "chat_stream \<Rightarrow> stream_error + json_object" where
  "finish_chat_stream s =
     (let calls = build_chat_stream_tool_calls (ch_calls s);
          message = [(''role'', JStr ''assistant''), (''content'', JStr (ch_content s))] @
            (if calls = [] then [] else [(''tool_calls'', JArr calls)]) in
      if ch_frames s = 0 \<or> (ch_content s = '''' \<and> calls = []) then Inl empty_stream_error
      else Inr ([(''id'', JStr (unless_empty (ch_id s) ''chatcmpl-stream'')), (''object'', JStr ''chat.completion''),
          (''model'', JStr (unless_empty (ch_model s) ''chat-stream'')),
          (''choices'', JArr [JObj [(''index'', JNum 0), (''message'', JObj message)]])] @
        (case ch_usage s of None \<Rightarrow> [] | Some u \<Rightarrow> [(''usage'', JObj u)])))"

definition parse_chat_stream :: "json_parser \<Rightarrow> http_body \<Rightarrow> (stream_error + json_object) \<times> string list" where
  "parse_chat_stream parse b = (case for_each_sse_data_frame b (chat_frame parse) new_chat_stream of
     (r, s) \<Rightarrow> (and_then r (\<lambda>_. finish_chat_stream s), ch_emitted s))"


section \<open>Frames of a well-formed stream\<close>

text \<open>
  A handler of frames that keeps an invariant keeps it over every body: the reader adds nothing of its own to the state.
\<close>

locale frame_handler =
  fixes frame :: "string \<Rightarrow> ('s, stream_error, unit) op" and inv :: "'s \<Rightarrow> bool"
  assumes frame_keeps: "keeps inv (frame f)"
begin

lemma flush_keeps: "keeps inv (flush_frame frame data)"
  by (simp add: flush_frame_def keeps_return_ok frame_keeps)

lemma loop_keeps: "keeps inv (frames_loop frame data ls)"
proof (induction ls arbitrary: data)
  case (Cons l ls)
  then show ?case by (simp add: Let_def keeps_seq flush_keeps)
qed (simp add: keeps_return_ok)

lemma stream_keeps: "keeps inv (for_each_sse_data_frame b frame)"
  unfolding for_each_sse_data_frame_def
  by (intro keeps_seq loop_keeps keeps_case_option flush_keeps keeps_return_err)

end

text \<open>
  A stream as a server writes it: frames of fields, each field a line of data or another line (a comment, an event name), with line
  feeds or carriage returns and line feeds, and an empty line behind each frame.
\<close>

datatype sse_field = DataField string | OtherField string

fun field_line :: "sse_field \<Rightarrow> string" where
  "field_line (DataField d) = ''data: '' @ d"
| "field_line (OtherField l) = l"

definition line_end :: "bool \<Rightarrow> string" where
  "line_end crlf = (if crlf then [carriage_return, newline] else [newline])"

definition frame_lines :: "sse_field list list \<Rightarrow> string list" where
  "frame_lines frames = concat (map (\<lambda>fs. map field_line fs @ [[]]) frames)"

definition render_stream :: "bool \<Rightarrow> sse_field list list \<Rightarrow> string" where
  "render_stream crlf frames = concat (map (\<lambda>l. l @ line_end crlf) (frame_lines frames))"

fun field_data :: "sse_field \<Rightarrow> string list" where
  "field_data (DataField d) = [d]"
| "field_data (OtherField l) = []"

definition frame_data :: "sse_field list \<Rightarrow> string list" where
  "frame_data fs = concat (map field_data fs)"

definition frame_texts :: "sse_field list list \<Rightarrow> string list" where
  "frame_texts frames = map (join [newline]) (filter (\<lambda>d. d \<noteq> []) (map frame_data frames))"

definition plain_line :: "string \<Rightarrow> bool" where
  "plain_line l \<longleftrightarrow> newline \<notin> set l \<and> (l = [] \<or> last l \<noteq> carriage_return) \<and> length l + 1 < scanner_buffer"

fun good_field :: "sse_field \<Rightarrow> bool" where
  "good_field (DataField d) = plain_line (''data: '' @ d)"
| "good_field (OtherField l) = (plain_line l \<and> l \<noteq> [] \<and> \<not> has_prefix l ''data:'' \<and> \<not> has_prefix l byte_order_mark)"

lemma split_lines_line: "newline \<notin> set l \<Longrightarrow> split_lines (l @ newline # rest) = l # split_lines rest"
  by (induction l) auto

lemma drop_cr_plain [simp]: "l = [] \<or> last l \<noteq> carriage_return \<Longrightarrow> drop_cr l = l"
  by (auto simp: drop_cr_def)

lemma drop_cr_snoc [simp]: "drop_cr (l @ [carriage_return]) = l"
  by (simp add: drop_cr_def)

definition raw_line :: "bool \<Rightarrow> string \<Rightarrow> string" where
  "raw_line crlf l = (if crlf then l @ [carriage_return] else l)"

lemma split_rendered:
  "\<forall>l\<in>set ls. plain_line l \<Longrightarrow> split_lines (concat (map (\<lambda>l. l @ line_end crlf) ls)) = map (raw_line crlf) ls"
proof (induction ls)
  case (Cons l ls)
  let ?rest = "concat (map (\<lambda>l. l @ line_end crlf) ls)"
  have "newline \<notin> set (raw_line crlf l)" using Cons.prems by (auto simp: raw_line_def plain_line_def)
  then have "split_lines (raw_line crlf l @ newline # ?rest) = raw_line crlf l # split_lines ?rest" by (rule split_lines_line)
  moreover have "(l @ line_end crlf) @ ?rest = raw_line crlf l @ newline # ?rest" by (simp add: raw_line_def line_end_def)
  ultimately show ?case using Cons by simp
qed simp

lemma scanned_rendered:
  assumes "\<forall>l\<in>set ls. plain_line l" and "hb_bytes b = concat (map (\<lambda>l. l @ line_end crlf) ls)" and "hb_error b = None"
  shows "scanned_lines b = ls" and "scanner_err b = None"
proof -
  have fits: "\<forall>l\<in>set (map (raw_line crlf) ls). length l < scanner_buffer"
    using assms(1) by (auto simp: raw_line_def plain_line_def)
  have split: "split_lines (hb_bytes b) = map (raw_line crlf) ls" using split_rendered[OF assms(1)] assms(2) by simp
  have "takeWhile (\<lambda>l. length l < scanner_buffer) (map (raw_line crlf) ls) = map (raw_line crlf) ls"
    using fits by (intro takeWhile_eq_all_conv[THEN iffD2]) simp
  moreover have "map (drop_cr \<circ> raw_line crlf) ls = ls"
    using assms(1) by (intro map_idI) (auto simp: raw_line_def plain_line_def)
  ultimately show "scanned_lines b = ls" unfolding scanned_lines_def split by (simp only: map_map)
  have "\<not> list_ex (\<lambda>l. \<not> length l < scanner_buffer) (map (raw_line crlf) ls)"
    using fits by (auto simp: list_ex_iff)
  then show "scanner_err b = None" by (simp add: scanner_err_def split assms(3))
qed

lemma good_field_plain: "good_field f \<Longrightarrow> plain_line (field_line f)"
  by (cases f) auto

lemma sse_line_field: "good_field f \<Longrightarrow> sse_line (field_line f) = field_line f"
  by (cases f) (auto simp: sse_line_def plain_line_def trim_prefix_def has_prefix_def byte_order_mark_def)

lemma frames_loop_field:
  assumes "good_field f"
  shows "frames_loop h data (field_line f # ls) = frames_loop h (data @ field_data f) ls"
proof (cases f)
  case (DataField d)
  then have "field_line f = ''data: '' @ d" by simp
  then show ?thesis using sse_line_field[OF assms] DataField
    by (simp add: Let_def has_prefix_def trim_prefix_def)
next
  case (OtherField l)
  then show ?thesis using sse_line_field[OF assms] assms by (simp add: Let_def)
qed

lemma frames_loop_fields:
  "\<forall>f\<in>set fs. good_field f \<Longrightarrow> frames_loop h data (map field_line fs @ ls) = frames_loop h (data @ frame_data fs) ls"
  by (induction fs arbitrary: data) (simp_all add: frame_data_def frames_loop_field del: frames_loop.simps)

lemma seq_assoc: "seq (seq m f) g = seq m (\<lambda>v. seq (f v) g)"
  by (rule ext) (auto simp: seq_def split: prod.split sum.split)

lemma seq_return_ok [simp]: "seq (return_ok v) f = f v"
  by (rule ext) (simp add: seq_def return_ok_def)

lemma frames_loop_frames:
  "\<forall>fs\<in>set frames. \<forall>f\<in>set fs. good_field f \<Longrightarrow>
   frames_loop h [] (frame_lines frames) = seq (for_each h (frame_texts frames)) (\<lambda>_. return_ok [])"
proof (induction frames)
  case (Cons fs frames)
  have blank: "sse_line [] = []" by (simp add: sse_line_def trim_prefix_def has_prefix_def byte_order_mark_def)
  have "frames_loop h [] (frame_lines (fs # frames)) = frames_loop h (frame_data fs) ([] # frame_lines frames)"
    using frames_loop_fields[of fs h "[]" "[] # frame_lines frames"] Cons.prems by (simp add: frame_lines_def del: frames_loop.simps)
  also have "\<dots> = seq (flush_frame h (frame_data fs)) (\<lambda>_. seq (for_each h (frame_texts frames)) (\<lambda>_. return_ok []))"
    using Cons by (simp add: blank)
  also have "\<dots> = seq (for_each h (frame_texts (fs # frames))) (\<lambda>_. return_ok [])"
    by (simp add: frame_texts_def flush_frame_def seq_assoc)
  finally show ?case .
qed (simp add: frame_lines_def frame_texts_def)

text \<open>
  C27. A stream that a server writes is read back frame by frame: the handler is called on the data of each frame that has
  any, its lines joined by line feeds, in order and up to the first error, whatever other lines are in between and
  whichever line ends are used. The lines are shorter than the buffer, have no line feed and do not end in a
  carriage return; another line is not empty and begins neither with \<open>data:\<close> nor with a byte order mark.
\<close>

theorem sse_roundtrip:
  assumes "\<forall>fs\<in>set frames. \<forall>f\<in>set fs. good_field f"
  shows "for_each_sse_data_frame \<lparr>hb_bytes = render_stream crlf frames, hb_error = None\<rparr> h = for_each h (frame_texts frames)"
proof -
  let ?b = "\<lparr>hb_bytes = render_stream crlf frames, hb_error = None\<rparr>"
  have "\<forall>l\<in>set (frame_lines frames). plain_line l"
    using assms good_field_plain by (auto simp: frame_lines_def plain_line_def scanner_buffer_def)
  then have "scanned_lines ?b = frame_lines frames" "scanner_err ?b = None"
    using scanned_rendered[of "frame_lines frames" ?b crlf] by (simp_all add: render_stream_def)
  then have "for_each_sse_data_frame ?b h = seq (for_each h (frame_texts frames)) (\<lambda>_. return_ok ())"
    unfolding for_each_sse_data_frame_def using frames_loop_frames[OF assms, of h] by (simp add: seq_assoc flush_frame_def)
  also have "\<dots> = for_each h (frame_texts frames)"
    by (rule ext) (auto simp: seq_def return_ok_def split: prod.split sum.split)
  finally show ?thesis .
qed


definition demo_frames :: "sse_field list list" where
  "demo_frames = [[OtherField '': ping''], [OtherField ''event: chunk'', DataField ''{'', DataField ''}''], [DataField ''[DONE]'']]"

theorem sse_roundtrip_witness:
  "for_each_sse_data_frame \<lparr>hb_bytes = render_stream True demo_frames, hb_error = None\<rparr> (\<lambda>f s. (Inr (), s @ [f])) [] =
     (Inr (), [''{'' @ [newline] @ ''}'', ''[DONE]''])"
proof -
  have "\<forall>fs\<in>set demo_frames. \<forall>f\<in>set fs. good_field f"
    by (simp add: demo_frames_def plain_line_def has_prefix_def byte_order_mark_def scanner_buffer_def)
  from sse_roundtrip[OF this, of True "\<lambda>f s. (Inr (), s @ [f])"] show ?thesis
    by (simp add: demo_frames_def frame_texts_def frame_data_def join_def seq_def return_ok_def)
qed

section \<open>Tool calls put together from fragments\<close>

text \<open>
  What a list of fragments stands for: the last identifier and the last name that are not empty, and all the arguments one behind
  the other.
\<close>

definition last_given :: "string list \<Rightarrow> string" where
  "last_given xs = (let ys = filter (\<lambda>x. x \<noteq> '''') xs in if ys = [] then '''' else last ys)"

definition function_text :: "string \<Rightarrow> json_object \<Rightarrow> string" where
  "function_text k call = any_string (map_value (as_object (field_or_nil call ''function'')) k)"

definition assembled :: "json_object list \<Rightarrow> tool_call_accumulator" where
  "assembled calls = \<lparr>tc_id = last_given (map (\<lambda>c. any_string_at c ''id'') calls),
     tc_name = last_given (map (function_text ''name'') calls), tc_arguments = concat (map (function_text ''arguments'') calls)\<rparr>"

lemma last_given_snoc: "last_given (xs @ [x]) = unless_empty x (last_given xs)"
  by (simp add: last_given_def unless_empty_def Let_def)

lemma last_given_Nil [simp]: "last_given [] = ''''"
  by (simp add: last_given_def)

lemma assembled_Nil [simp]: "assembled [] = new_accumulator"
  by (simp add: assembled_def new_accumulator_def)

lemma assembled_snoc: "assembled (calls @ [c]) = add_fragment c (assembled calls)"
  by (auto simp: assembled_def add_fragment_def last_given_snoc function_text_def map_value_def any_string_at_def any_string_def
      unless_empty_def Let_def split: option.split)

definition index_of_call :: "json_object \<Rightarrow> int option" where
  "index_of_call c = any_int (field_or_nil c ''index'')"

definition fragments_of :: "json_object list \<Rightarrow> int \<Rightarrow> json_object list" where
  "fragments_of calls i = filter (\<lambda>c. index_of_call c = Some i) calls"

lemma map_of_update_int: "map_of (AList.update i v accs) = (map_of accs)(i \<mapsto> v)"
  by (rule update_conv')

lemma merged_calls:
  "\<forall>c\<in>set calls. index_of_call c \<noteq> None \<Longrightarrow>
   distinct (map fst (fold merge_tool_call (map JObj calls) [])) \<and>
   (\<forall>i. map_of (fold merge_tool_call (map JObj calls) []) i =
     (if fragments_of calls i = [] then None else Some (assembled (fragments_of calls i))))"
proof (induction calls rule: rev_induct)
  case (snoc c calls)
  define accs where "accs = fold merge_tool_call (map JObj calls) []"
  have accs: "distinct (map fst accs)" "map_of accs i = (if fragments_of calls i = [] then None else Some (assembled (fragments_of calls i)))" for i
    using snoc by (simp_all add: accs_def)
  obtain k where k: "any_int (field_or_nil c ''index'') = Some k" using snoc.prems by (auto simp: index_of_call_def)
  have acc: "(case map_of accs k of Some a \<Rightarrow> a | None \<Rightarrow> new_accumulator) = assembled (fragments_of calls k)"
    by (simp add: accs(2))
  have step: "fold merge_tool_call (map JObj (calls @ [c])) [] = AList.update k (assembled (fragments_of calls k @ [c])) accs"
    by (simp add: accs_def[symmetric] merge_tool_call_def fragment_index_def k acc assembled_snoc)
  have "fragments_of (calls @ [c]) i = (if i = k then fragments_of calls i @ [c] else fragments_of calls i)" for i
    using k by (auto simp: fragments_of_def index_of_call_def)
  then show ?case unfolding step by (simp add: map_of_update_int accs distinct_update)
qed (simp add: fragments_of_def)

lemma sorted_entries:
  assumes "distinct (map fst (accs :: (int \<times> 'v) list))"
  shows "sort_key fst accs = map (\<lambda>i. (i, the (map_of accs i))) (sorted_list_of_set (fst ` set accs))"
proof -
  let ?s = "sort_key fst accs"
  have keys: "map fst ?s = sorted_list_of_set (fst ` set accs)"
  proof (rule sorted_distinct_set_unique)
    have "mset (map fst ?s) = mset (map fst accs)" by simp
    then show "distinct (map fst ?s)" using assms mset_eq_imp_distinct_iff by blast
  qed simp_all
  have "e = (fst e, the (map_of accs (fst e)))" if "e \<in> set ?s" for e
  proof -
    obtain i v where e: "e = (i, v)" by fastforce
    have "(i, v) \<in> set accs" using that e by simp
    then show ?thesis using assms e by simp
  qed
  then have "map ((\<lambda>i. (i, the (map_of accs i))) \<circ> fst) ?s = ?s" by (intro map_idI) (simp add: comp_def)
  then have "?s = map (\<lambda>i. (i, the (map_of accs i))) (map fst ?s)" by (simp only: map_map)
  then show ?thesis by (simp only: keys)
qed

lemma map_filter_map: "List.map_filter f (map g xs) = List.map_filter (\<lambda>x. f (g x)) xs"
  by (simp add: List.map_filter_def filter_map comp_def)

text \<open>
  C28. The tool calls of a chat stream whose fragments carry their index: one call for each index that occurs, in ascending order,
  made of exactly the fragments with this index in the order they came, however those of different calls are interleaved: the
  last identifier and name given and all the arguments one behind the other. A call without a name is left out.
\<close>

theorem stream_tool_calls_assembled:
  assumes "\<forall>c\<in>set calls. index_of_call c \<noteq> None"
  shows "build_chat_stream_tool_calls (fold merge_tool_call (map JObj calls) []) =
    List.map_filter (\<lambda>i. build_tool_call (i, assembled (fragments_of calls i)))
      (sorted_list_of_set {i. \<exists>c\<in>set calls. index_of_call c = Some i})"
proof -
  let ?accs = "fold merge_tool_call (map JObj calls) []"
  note merged = merged_calls[OF assms]
  have dom: "fst ` set ?accs = {i. \<exists>c\<in>set calls. index_of_call c = Some i}"
  proof -
    have "fst ` set ?accs = dom (map_of ?accs)" by (simp add: dom_map_of_conv_image_fst)
    also have "\<dots> = {i. fragments_of calls i \<noteq> []}" using merged by (auto simp: dom_def split: if_splits)
    also have "\<dots> = {i. \<exists>c\<in>set calls. index_of_call c = Some i}" by (auto simp: fragments_of_def filter_empty_conv)
    finally show ?thesis .
  qed
  have fin: "finite {i. \<exists>c\<in>set calls. index_of_call c = Some i}" unfolding dom[symmetric] by simp
  have "the (map_of ?accs i) = assembled (fragments_of calls i)" if "\<exists>c\<in>set calls. index_of_call c = Some i" for i
    using merged that by (auto simp: fragments_of_def filter_empty_conv)
  then have "sort_key fst ?accs = map (\<lambda>i. (i, assembled (fragments_of calls i))) (sorted_list_of_set {i. \<exists>c\<in>set calls. index_of_call c = Some i})"
    using sorted_entries[of ?accs] merged fin by (simp add: dom)
  then show ?thesis by (simp only: build_chat_stream_tool_calls_def map_filter_map)
qed


definition demo_fragment :: "rat \<Rightarrow> string \<Rightarrow> string \<Rightarrow> json_object" where
  "demo_fragment i name arguments = [(''index'', JNum i), (''id'', JStr ''''), (''function'', JObj [(''name'', JStr name), (''arguments'', JStr arguments)])]"

theorem stream_tool_calls_assembled_witness:
  "length (build_chat_stream_tool_calls (fold merge_tool_call (map JObj
     [demo_fragment 1 ''read'' ''{'', demo_fragment 0 ''write'' ''[1'', demo_fragment 1 '''' ''}'', demo_fragment 0 '''' '',2]'']) [])) = 2"
proof -
  let ?calls = "[demo_fragment 1 ''read'' ''{'', demo_fragment 0 ''write'' ''[1'', demo_fragment 1 '''' ''}'', demo_fragment 0 '''' '',2]'']"
  have indexes: "index_of_call (demo_fragment 0 n a) = Some 0" "index_of_call (demo_fragment 1 n a) = Some 1" for n a
    by (simp_all add: demo_fragment_def index_of_call_def field_or_nil_def any_int_def)
  have given: "\<forall>c\<in>set ?calls. index_of_call c \<noteq> None" by (simp add: indexes)
  have "{i. \<exists>c\<in>set ?calls. index_of_call c = Some i} = {0, 1}" by (auto simp: indexes)
  then have used: "sorted_list_of_set {i. \<exists>c\<in>set ?calls. index_of_call c = Some i} = [0, 1]" by simp
  have "build_tool_call (0, assembled (fragments_of ?calls 0)) \<noteq> None" "build_tool_call (1, assembled (fragments_of ?calls 1)) \<noteq> None"
    by code_simp+
  then show ?thesis unfolding stream_tool_calls_assembled[OF given] used by (auto simp: List.map_filter_def)
qed

section \<open>The text of a stream\<close>

definition chat_text_ok :: "chat_stream \<Rightarrow> bool" where
  "chat_text_ok s \<longleftrightarrow> ch_content s = concat (ch_emitted s) \<and> list_all (\<lambda>d. d \<noteq> '''') (ch_emitted s)"

lemma note_choice_text: "chat_text_ok s \<Longrightarrow> chat_text_ok (note_choice v s)"
  by (auto simp: chat_text_ok_def note_choice_def note_content_def Let_def split: option.split)

lemma note_choices_text: "chat_text_ok s \<Longrightarrow> chat_text_ok (note_choices v s)"
proof -
  have "chat_text_ok s \<Longrightarrow> chat_text_ok (fold note_choice xs s)" for xs s
    by (induction xs arbitrary: s) (simp_all add: note_choice_text)
  then show "chat_text_ok s \<Longrightarrow> chat_text_ok (note_choices v s)" by (simp add: note_choices_def split: option.split)
qed

interpretation chat_frames: frame_handler "chat_frame parse" chat_text_ok for parse
proof
  fix f
  have "chat_text_ok (note_chunk c s)" "chat_text_ok (s\<lparr>ch_frames := n\<rparr>)" if "chat_text_ok s" for c s n
    using that by (simp_all add: chat_text_ok_def note_chunk_def)
  then show "keeps chat_text_ok (chat_frame parse f)"
    by (intro keepsI) (auto simp: chat_frame_def Let_def note_choices_text split: if_splits sum.splits)
qed

definition responses_text_ok :: "responses_stream \<Rightarrow> bool" where
  "responses_text_ok s \<longleftrightarrow> rs_delta s = concat (rs_emitted s) \<and> list_all (\<lambda>d. d \<noteq> '''') (rs_emitted s)"

interpretation responses_frames: frame_handler "responses_frame parse" responses_text_ok for parse
proof
  fix f
  have "responses_text_ok (note_item e (note_response e (note_delta e (s\<lparr>rs_frames := n\<rparr>))))" "responses_text_ok (s\<lparr>rs_frames := n\<rparr>)"
    if "responses_text_ok s" for e s n
    using that by (auto simp: responses_text_ok_def note_item_def note_response_def note_delta_def Let_def split: option.split json.split list.split)
  then show "keeps responses_text_ok (responses_frame parse f)"
    by (intro keepsI) (auto simp: responses_frame_def Let_def split: if_splits sum.splits)
qed

text \<open>The text a response has when \<open>t\<close> was streamed.\<close>

definition text_option :: "string \<Rightarrow> string option" where
  "text_option t = (if t = '''' then None else Some t)"

lemma output_message_text [simp]: "output_item_text (output_message t) = t"
  by (simp add: output_item_text_def output_message_def any_string_at_def any_string_def field_or_nil_def text_part_def)

lemma tool_calls_no_text: "concat (map output_item_text (normalize_chat_tool_calls_from i vs)) = ''''"
proof (induction vs arbitrary: i)
  case (Cons v vs)
  have "output_item_text (JObj ((''type'', JStr ''function_call'') # m)) = ''''" for m
    by (simp add: output_item_text_def any_string_at_def any_string_def field_or_nil_def)
  then show ?case using Cons by (simp add: Let_def split: option.split)
qed simp

lemma normalized_text:
  assumes "normalize_chat_completions_response m = Inr n"
  shows "\<exists>c choice message. field_or_nil m ''choices'' = JArr (JObj choice # c) \<and> field_or_nil choice ''message'' = JObj message \<and>
    extract_output_text n = text_option (chat_message_content (field_or_nil message ''content''))"
proof -
  have obj: "as_object v = Some w \<Longrightarrow> v = JObj w" for v w by (cases v) auto
  obtain choice cs message where m: "field_or_nil m ''choices'' = JArr (JObj choice # cs)" "field_or_nil choice ''message'' = JObj message"
    and n: "field_or_nil n ''output'' = JArr ((if chat_message_content (field_or_nil message ''content'') = '''' then []
      else [output_message (chat_message_content (field_or_nil message ''content''))]) @ normalize_chat_tool_calls (field_or_nil message ''tool_calls''))"
    using assms by (auto simp: normalize_chat_completions_response_def Let_def field_or_nil_def[of "(k, v) # xs" for k v xs]
        split: json.splits list.splits option.splits dest!: obj)
  have "concat (map output_item_text (normalize_chat_tool_calls v)) = ''''" for v
    using tool_calls_no_text[of 0 "the (as_array v)"] by (cases "as_array v") (simp_all add: normalize_chat_tool_calls_def)
  then have "extract_output_text n = text_option (chat_message_content (field_or_nil message ''content''))"
    using n by (simp add: extract_output_text_def text_option_def Let_def)
  then show ?thesis using m by blast
qed

lemma chat_stream_text:
  assumes "parse_chat_stream parse b = (Inr m, ds)"
  shows "list_all (\<lambda>d. d \<noteq> '''') ds \<and> (\<forall>n. normalize_chat_completions_response m = Inr n \<longrightarrow>
    extract_output_text n = text_option (trim_space (concat ds)))"
proof -
  obtain r s where run: "for_each_sse_data_frame b (chat_frame parse) new_chat_stream = (r, s)" by fastforce
  then have fin: "finish_chat_stream s = Inr m" "ds = ch_emitted s" using assms by (auto simp: parse_chat_stream_def result_simps)
  have "chat_text_ok new_chat_stream" by (simp add: chat_text_ok_def new_chat_stream_def)
  then have ok: "chat_text_ok s" using keepsD[OF chat_frames.stream_keeps _ run] by blast
  define message where "message = [(''role'', JStr ''assistant''), (''content'', JStr (ch_content s))] @
      (if build_chat_stream_tool_calls (ch_calls s) = [] then [] else [(''tool_calls'', JArr (build_chat_stream_tool_calls (ch_calls s)))])"
  have "field_or_nil m ''choices'' = JArr [JObj [(''index'', JNum 0), (''message'', JObj message)]]"
    using fin(1) by (auto simp: finish_chat_stream_def Let_def field_or_nil_def message_def split: if_splits)
  moreover have "chat_message_content (field_or_nil message ''content'') = trim_space (concat ds)"
    using ok fin(2) by (simp add: message_def field_or_nil_def chat_message_content_def chat_text_ok_def)
  ultimately show ?thesis using ok fin(2) normalized_text[of m] by (auto simp: chat_text_ok_def field_or_nil_def)
qed

text \<open>
  A stream of the Responses API that ends early is not told from one that is complete: the response of an earlier event is returned
  with the status it had then and with the text that had come.
\<close>

lemma truncated_stream_accepted:
  assumes "rs_frames s \<noteq> 0" and "rs_final s = Some m" and "extract_output_text m = None" and "rs_delta s \<noteq> ''''"
  shows "\<exists>m'. finish_responses_stream s = Inr m' \<and> field_or_nil m' ''status'' = field_or_nil m ''status'' \<and>
    extract_output_text m' = Some (rs_delta s)"
  using assms by (auto simp: finish_responses_stream_def field_or_nil_def table_simps extract_output_text_def Let_def)

end
