(* ===== verification/PoolProviders.thy ===== *)
theory PoolProviders
  imports PoolGateway PoolStream
begin

text \<open>
  The client the gateway invokes models with (internal/poolgateway/providers.go): one HTTP request of an OpenAI-compatible API and
  the classification of its failures.

  HTTP itself is a parameter: what \<open>http.NewRequest\<close> says of a URL, the path it has, and what a request does to the
  world. A client that is given has a timeout of its own.
\<close>

section \<open>HTTP\<close>

record http_request =
  hr_url :: string
  hr_headers :: "(string \<times> string) list"
  hr_body :: json_object
  hr_timeout :: int

record http_response =
  hp_status :: int
  hp_body :: http_body

text \<open>An error of the transport; \<open>tf_timeout\<close> is that it is a \<open>net.Error\<close> with \<open>Timeout()\<close>.\<close>

record transport_failure =
  tf_error :: pool_error
  tf_timeout :: bool

record 'w http_world =
  hw_new_request :: "string \<Rightarrow> pool_error option"
  hw_url_path :: "string \<Rightarrow> string"
  hw_do :: "http_request \<Rightarrow> 'w \<Rightarrow> (transport_failure + http_response) \<times> 'w"
  hw_sink :: "string \<Rightarrow> 'w \<Rightarrow> 'w"
  hw_parse :: json_parser
  hw_marshal :: "json \<Rightarrow> string"

text \<open>\<open>Header.Set\<close> under the canonical name: the first letter and those behind a hyphen in upper case, the others in lower case.\<close>

definition to_upper_char :: "char \<Rightarrow> char" where
  "to_upper_char c = (if 97 \<le> (of_char c :: nat) \<and> (of_char c :: nat) \<le> 122 then char_of ((of_char c :: nat) - 32) else c)"

definition is_header_char :: "char \<Rightarrow> bool" where
  "is_header_char c \<longleftrightarrow> (let n = (of_char c :: nat) in (48 \<le> n \<and> n \<le> 57) \<or> (65 \<le> n \<and> n \<le> 90) \<or> (97 \<le> n \<and> n \<le> 122)) \<or>
     c \<in> set ''!#$%&*+-.^_|~'' \<or> c = CHR 0x27 \<or> c = CHR 0x60"

fun capitalize :: "bool \<Rightarrow> string \<Rightarrow> string" where
  "capitalize first [] = []"
| "capitalize first (c # s) = (if first then to_upper_char c else to_lower_char c) # capitalize (c = CHR ''-'') s"

definition canonical_header :: "string \<Rightarrow> string" where
  "canonical_header k = (if list_all is_header_char k then capitalize True k else k)"

definition set_header :: "string \<times> string \<Rightarrow> (string \<times> string) list \<Rightarrow> (string \<times> string) list" where
  "set_header kv hs = put (canonical_header (fst kv)) (snd kv) hs"

definition trim_right_slashes :: "string \<Rightarrow> string" where
  "trim_right_slashes s = rev (dropWhile (\<lambda>c. c = CHR ''/'') (rev s))"

text \<open>\<open>io.ReadAll\<close>.\<close>

definition read_all :: "http_body \<Rightarrow> pool_error + string" where
  "read_all b = (case hb_error b of Some e \<Rightarrow> Inl e | None \<Rightarrow> Inr (hb_bytes b))"

section \<open>Failures\<close>

definition classify_transport_error :: "transport_failure \<Rightarrow> gateway_error" where
  "classify_transport_error f = \<lparr>
     ge_code = (if error_is (tf_error f) ContextDeadlineExceeded then ''provider_timeout''
       else if tf_timeout f then ''provider_timeout'' else ''provider_unreachable''),
     ge_message = error_text (tf_error f), ge_retryable = True, ge_provider_status_code = None, ge_details = []\<rparr>"

text \<open>The code and the message of the body of an error, both empty when there are none.\<close>

definition parse_provider_http_error_body :: "json_parser \<Rightarrow> string \<Rightarrow> string \<times> string" where
  "parse_provider_http_error_body parse body =
     (if body = '''' then ('''', '''')
      else case parse body of Inl e \<Rightarrow> ('''', '''')
      | Inr m \<Rightarrow> (case field_or_nil m ''error'' of
          JObj (e # es) \<Rightarrow> (trim_space (any_string_at (e # es) ''code''), trim_space (any_string_at (e # es) ''message''))
        | _ \<Rightarrow> ('''', '''')))"

definition has_suffix :: "string \<Rightarrow> string \<Rightarrow> bool" where
  "has_suffix s p \<longleftrightarrow> has_prefix (rev s) (rev p)"

definition classify_http_error :: "json_parser \<Rightarrow> int \<Rightarrow> string \<Rightarrow> string \<Rightarrow> gateway_error" where
  "classify_http_error parse status body path =
     (let message = ''provider returned HTTP '' @ show_int status;
          answer = (\<lambda>code msg retryable. \<lparr>ge_code = code, ge_message = msg, ge_retryable = retryable,
            ge_provider_status_code = Some status, ge_details = [(''path'', JStr path), (''body'', JStr body)]\<rparr>) in
      case parse_provider_http_error_body parse body of (provider_code, provider_message) \<Rightarrow>
        if status = 429 then answer ''provider_rate_limited'' message True
        else if status = 408 then answer ''provider_timeout'' message True
        else if status = 403 \<and> provider_code \<noteq> '''' then
          answer provider_code (if provider_message \<noteq> '''' then provider_message else message) False
        else if status = 404 \<and> has_suffix (trim_space path) ''/responses'' then
          answer ''provider_http_error'' ''provider returned HTTP 404 on /responses; endpoint may only support chat/completions'' False
        else answer ''provider_http_error'' message False)"

section \<open>One exchange\<close>

definition request_timeout :: "int option \<Rightarrow> invoke_request \<Rightarrow> bool \<Rightarrow> int" where
  "request_timeout client q streaming = (case client of Some t \<Rightarrow> t
     | None \<Rightarrow> (case iq_timeout_ms q of Some ms \<Rightarrow> ms * 1000000 | None \<Rightarrow> if streaming then 0 else 30 * 1000000000))"

definition provider_url :: "invocation_reservation \<Rightarrow> string \<Rightarrow> string" where
  "provider_url rv path = trim_right_slashes (rv_base_url rv) @ path"

definition provider_request :: "int option \<Rightarrow> invocation_reservation \<Rightarrow> invoke_request \<Rightarrow> string \<Rightarrow> json_object \<Rightarrow> http_request" where
  "provider_request client rv q path payload = \<lparr>hr_url = provider_url rv path,
     hr_headers = fold set_header (rv_headers rv)
       [(''Authorization'', ''Bearer '' @ rv_api_key rv), (''Content-Type'', ''application/json'')],
     hr_body = payload, hr_timeout = request_timeout client q (payload_stream_enabled payload)\<rparr>"

text \<open>Up to an answer whose status is no error.\<close>

definition send_payload ::
  "'w http_world \<Rightarrow> int option \<Rightarrow> invocation_reservation \<Rightarrow> invoke_request \<Rightarrow> string \<Rightarrow> json_object \<Rightarrow> ('w, pool_error, http_response) op" where
  "send_payload h client rv q path payload w =
     (case hw_new_request h (provider_url rv path) of Some e \<Rightarrow> (Inl e, w)
      | None \<Rightarrow> (case hw_do h (provider_request client rv q path payload) w of
          (Inl f, w1) \<Rightarrow> (Inl (ProviderInvocationError (classify_transport_error f)), w1)
        | (Inr r, w1) \<Rightarrow>
            (if hp_status r \<ge> 400 then
               (case read_all (hp_body r) of Inl e \<Rightarrow> Inl e
                | Inr body \<Rightarrow> Inl (ProviderInvocationError
                    (classify_http_error (hw_parse h) (hp_status r) body (hw_url_path h (provider_url rv path)))))
             else Inr r, w1)))"

definition read_answer ::
  "'w http_world \<Rightarrow> (json_parser \<Rightarrow> http_body \<Rightarrow> (stream_error + json_object) \<times> string list) \<Rightarrow> invoke_request \<Rightarrow> bool \<Rightarrow> http_body \<Rightarrow>
   ('w, pool_error, json_object) op" where
  "read_answer h parse_stream q streaming b w =
     (if streaming then
        (case parse_stream (hw_parse h) b of (r, emitted) \<Rightarrow>
          (case r of Inl (StreamGatewayError g) \<Rightarrow> Inl (ProviderInvocationError g)
           | Inl (StreamReadError e) \<Rightarrow> Inl e
           | Inr m \<Rightarrow> Inr m,
           if iq_stream_sink q then fold (hw_sink h) emitted w else w))
      else (and_then (read_all b) (\<lambda>body. case parse_json_payload (hw_parse h) body of
          Inl g \<Rightarrow> Inl (ProviderInvocationError g) | Inr m \<Rightarrow> Inr m), w))"

definition provider_result :: "json_object \<Rightarrow> provider_invoke_result" where
  "provider_result m = \<lparr>pv_response = m, pv_output_text = extract_output_text m, pv_usage = extract_usage m\<rparr>"

definition invoke_responses :: "'w http_world \<Rightarrow> int option \<Rightarrow> 'w provider_client" where
  "invoke_responses h client rv q =
     (let payload = responses_payload (hw_marshal h) rv q in
      seq (send_payload h client rv q ''/responses'' payload) (\<lambda>r.
      seq (read_answer h parse_responses_stream q (payload_stream_enabled payload) (hp_body r)) (\<lambda>m.
      case classify_provider_payload m of
        Some g \<Rightarrow> return_err (ProviderInvocationError g)
      | None \<Rightarrow> return_ok (provider_result m))))"

definition invoke_chat_completions :: "'w http_world \<Rightarrow> int option \<Rightarrow> 'w provider_client" where
  "invoke_chat_completions h client rv q = (case build_chat_payload_for_invoke rv q of
       Inl g \<Rightarrow> return_err (ProviderInvocationError g)
     | Inr payload \<Rightarrow>
         seq (send_payload h client rv q ''/chat/completions'' payload) (\<lambda>r.
         seq (read_answer h parse_chat_stream q (payload_stream_enabled payload) (hp_body r)) (\<lambda>m.
         case classify_chat_completions_payload m of
           Some g \<Rightarrow> return_err (ProviderInvocationError g)
         | None \<Rightarrow> (case normalize_chat_completions_response m of
             Inl e \<Rightarrow> return_err (ProviderInvocationError
               (provider_invalid_json (''provider returned unexpected chat completion payload: '' @ e)))
           | Inr n \<Rightarrow> return_ok (provider_result n)))))"

definition provider_invoke :: "'w http_world \<Rightarrow> int option \<Rightarrow> 'w provider_client" where
  "provider_invoke h client rv q =
     (if normalize_api_mode (rv_api_mode rv) = mode_chat_completions then invoke_chat_completions h client rv q
      else invoke_responses h client rv q)"

definition get_provider_client :: "'w http_world \<Rightarrow> string \<Rightarrow> pool_error + 'w provider_client" where
  "get_provider_client h provider = Inr (provider_invoke h None)"


section \<open>What an exchange returns\<close>

lemma send_payload_Inr:
  "send_payload h client rv q path payload w = (Inr r, w1) \<Longrightarrow>
   hw_do h (provider_request client rv q path payload) w = (Inr r, w1) \<and> hp_status r < 400"
  by (auto simp: send_payload_def split: option.splits prod.splits sum.splits if_splits)

text \<open>
  C25. The text a chat stream shows while it arrives is the text of the answer: when the request streams to a sink and the provider's
  answer is accepted, the pieces that were handed to the sink, none of them empty, make up the output text when the spaces around
  it are cut off, and there is no output text exactly when nothing else is left.
\<close>

theorem streamed_text_is_answer:
  assumes "build_chat_payload_for_invoke rv q = Inr payload" and "payload_stream_enabled payload" and "iq_stream_sink q"
    and "invoke_chat_completions h client rv q w = (Inr out, w')"
  shows "\<exists>r w1 ds. hw_do h (provider_request client rv q ''/chat/completions'' payload) w = (Inr r, w1) \<and>
    w' = fold (hw_sink h) ds w1 \<and> list_all (\<lambda>d. d \<noteq> '''') ds \<and> pv_output_text out = text_option (trim_space (concat ds))"
proof -
  obtain r w1 m n where send: "send_payload h client rv q ''/chat/completions'' payload w = (Inr r, w1)"
    and answer: "read_answer h parse_chat_stream q True (hp_body r) w1 = (Inr m, w')"
    and n: "normalize_chat_completions_response m = Inr n" "out = provider_result n"
    using assms by (auto simp: invoke_chat_completions_def seq_Inr_iff return_ok_def return_err_def split: option.splits sum.splits)
  obtain ds where ds: "parse_chat_stream (hw_parse h) (hp_body r) = (Inr m, ds)" "w' = fold (hw_sink h) ds w1"
    using answer assms(3) by (auto simp: read_answer_def split: prod.splits sum.splits stream_error.splits)
  then show ?thesis using send_payload_Inr[OF send] chat_stream_text[OF ds(1)] n by (auto simp: provider_result_def)
qed

section \<open>Which failures are tried again\<close>

text \<open>The errors of the transport and of a URL are not the provider's.\<close>

definition plain_error :: "pool_error \<Rightarrow> bool" where
  "plain_error e \<longleftrightarrow> (\<forall>g. e \<noteq> ProviderInvocationError g)"

definition plain_errors :: "'w http_world \<Rightarrow> bool" where
  "plain_errors h \<longleftrightarrow> (\<forall>url e. hw_new_request h url = Some e \<longrightarrow> plain_error e) \<and>
     (\<forall>req w r w1 e. hw_do h req w = (Inr r, w1) \<longrightarrow> hb_error (hp_body r) = Some e \<longrightarrow> plain_error e)"

text \<open>A failure that neither leads to another attempt nor counts against the API.\<close>

definition final_error :: "gateway_error \<Rightarrow> bool" where
  "final_error g \<longleftrightarrow> \<not> ge_retryable g \<and> \<not> counts_toward_offline g"

lemma provider_error_final: "code \<in> {''provider_invalid_json'', ''provider_response_error'', ''provider_incomplete_response''} \<Longrightarrow>
    final_error (provider_error code msg details)"
  by (auto simp: final_error_def provider_error_def counts_toward_offline_def)

lemma unsupported_final: "final_error (unsupported f msg)"
  by (simp add: final_error_def unsupported_def gateway_unsupported_request_def counts_toward_offline_def)

lemma classify_chat_final: "classify_chat_completions_payload m = Some g \<Longrightarrow> final_error g"
  by (auto simp: classify_chat_completions_payload_def Let_def provider_error_final split: json.splits list.splits)

lemma classify_final: "classify_provider_payload m = Some g \<Longrightarrow> final_error g"
  by (auto simp: classify_provider_payload_def Let_def provider_error_final dest: classify_chat_final split: option.splits if_splits)

lemma parse_json_final: "parse_json_payload parse s = Inl g \<Longrightarrow> final_error g"
  by (auto simp: parse_json_payload_def provider_invalid_json_def provider_error_final split: sum.splits)

lemma build_chat_final: "build_chat_payload_for_invoke rv q = Inl g \<Longrightarrow> final_error g"
proof -
  have "check_all check_supported fs = Inl g \<Longrightarrow> final_error g" for fs
    by (induction fs) (auto simp: result_simps check_supported_def unsupported_final split: if_splits)
  then show "build_chat_payload_for_invoke rv q = Inl g \<Longrightarrow> final_error g"
    by (auto simp: build_chat_payload_for_invoke_def build_chat_completions_payload_def result_simps unsupported_final
        split: if_splits json.splits list.splits)
qed

text \<open>An error of a stream is the provider's and final, or it is the transport's.\<close>

definition stream_error_ok :: "http_body \<Rightarrow> stream_error \<Rightarrow> bool" where
  "stream_error_ok b e = (case e of StreamGatewayError g \<Rightarrow> final_error g | StreamReadError e \<Rightarrow> hb_error b = Some e \<or> plain_error e)"

lemma stream_errors:
  assumes "\<And>f s e t. h f s = (Inl e, t) \<Longrightarrow> stream_error_ok b e" and "for_each_sse_data_frame b h s = (Inl e, t)"
  shows "stream_error_ok b e"
proof -
  have flush: "flush_frame h data s = (Inl e, t) \<Longrightarrow> stream_error_ok b e" for data s e t
    using assms(1) by (auto simp: flush_frame_def return_ok_def split: if_splits)
  have loop: "frames_loop h data ls s = (Inl e, t) \<Longrightarrow> stream_error_ok b e" for data ls s e t
  proof (induction ls arbitrary: data s)
    case (Cons l ls)
    show ?case
    proof (cases "sse_line l = []")
      case True
      then have "seq (flush_frame h data) (\<lambda>_. frames_loop h [] ls) s = (Inl e, t)" using Cons.prems by simp
      then show ?thesis by (cases rule: seq_cases) (use flush Cons.IH in auto)
    next
      case False
      then show ?thesis using Cons by (simp add: Let_def split: if_splits)
    qed
  qed (simp add: return_ok_def)
  have read: "stream_error_ok b (StreamReadError e)" if "scanner_err b = Some e" for e
    using that by (auto simp: scanner_err_def stream_error_ok_def plain_error_def split: if_splits)
  from assms(2) show ?thesis unfolding for_each_sse_data_frame_def
    by (cases rule: seq_cases) (use loop flush read in \<open>auto simp: return_err_def split: option.splits\<close>)
qed

lemma decode_event_final:
  "decode_event parse classify f = Inl g \<Longrightarrow> (\<And>m g. classify m = Some g \<Longrightarrow> final_error g) \<Longrightarrow> final_error g"
  by (auto simp: decode_event_def result_simps dest: parse_json_final split: option.splits)

lemma empty_stream_ok [simp]: "stream_error_ok b empty_stream_error"
  by (simp add: stream_error_ok_def empty_stream_error_def provider_invalid_json_def provider_error_final)

lemma parse_stream_errors:
  "parse_responses_stream parse b = (Inl e, ds) \<Longrightarrow> stream_error_ok b e"
  "parse_chat_stream parse b = (Inl e, ds) \<Longrightarrow> stream_error_ok b e"
proof -
  have frame: "responses_frame parse f s = (Inl e, t) \<Longrightarrow> stream_error_ok b e" for f s e t
    by (auto simp: responses_frame_def Let_def stream_error_ok_def dest!: decode_event_final[OF _ classify_final] split: if_splits sum.splits)
  have "finish_responses_stream s = Inl e \<Longrightarrow> stream_error_ok b e" for s e
    by (auto simp: finish_responses_stream_def split: if_splits option.splits)
  then show "parse_responses_stream parse b = (Inl e, ds) \<Longrightarrow> stream_error_ok b e"
    using stream_errors[of "responses_frame parse" b, OF frame] by (auto simp: parse_responses_stream_def result_simps split: prod.splits)
  have frame: "chat_frame parse f s = (Inl e, t) \<Longrightarrow> stream_error_ok b e" for f s e t
    by (auto simp: chat_frame_def Let_def stream_error_ok_def dest!: decode_event_final[OF _ classify_chat_final] split: if_splits sum.splits)
  have "finish_chat_stream s = Inl e \<Longrightarrow> stream_error_ok b e" for s e
    by (auto simp: finish_chat_stream_def Let_def split: if_splits)
  then show "parse_chat_stream parse b = (Inl e, ds) \<Longrightarrow> stream_error_ok b e"
    using stream_errors[of "chat_frame parse" b, OF frame] by (auto simp: parse_chat_stream_def result_simps split: prod.splits)
qed


lemma plain_body: "plain_errors h \<Longrightarrow> hw_do h req w = (Inr r, w1) \<Longrightarrow> hb_error (hp_body r) \<noteq> Some (ProviderInvocationError g)"
  unfolding plain_errors_def plain_error_def by blast

definition transport_failed :: "'w http_world \<Rightarrow> 'w \<Rightarrow> bool" where
  "transport_failed h w \<longleftrightarrow> (\<exists>req f w1. hw_do h req w = (Inl f, w1))"

definition answered_with :: "'w http_world \<Rightarrow> 'w \<Rightarrow> int set \<Rightarrow> bool" where
  "answered_with h w codes \<longleftrightarrow> (\<exists>req r w1. hw_do h req w = (Inr r, w1) \<and> hp_status r \<in> codes)"

definition explained :: "'w http_world \<Rightarrow> 'w \<Rightarrow> gateway_error \<Rightarrow> bool" where
  "explained h w g \<longleftrightarrow> (ge_retryable g \<longrightarrow> transport_failed h w \<or> answered_with h w {408, 429}) \<and>
     (counts_toward_offline g \<longrightarrow> transport_failed h w \<or> answered_with h w {403, 408})"

lemma final_explained: "final_error g \<Longrightarrow> explained h w g"
  by (simp add: final_error_def explained_def)

lemma http_error_explained:
  assumes "hw_do h req w = (Inr r, w1)"
  shows "explained h w (classify_http_error parse (hp_status r) body path)"
proof -
  have "answered_with h w {c}" if "hp_status r = c" for c using assms that by (auto simp: answered_with_def)
  then show ?thesis using assms
    by (auto simp: classify_http_error_def Let_def explained_def answered_with_def counts_toward_offline_def split: prod.splits)
qed

lemma send_payload_explained:
  assumes "plain_errors h" and "send_payload h client rv q path payload w = (Inl (ProviderInvocationError g), w1)"
  shows "explained h w g"
proof (cases "hw_do h (provider_request client rv q path payload) w")
  case (Pair x w2)
  show ?thesis
  proof (cases x)
    case (Inl f)
    then have "transport_failed h w" using Pair by (auto simp: transport_failed_def)
    then show ?thesis by (simp add: explained_def)
  next
    case (Inr r)
    have new: "hw_new_request h (provider_url rv path) = None"
      using assms by (auto simp: send_payload_def plain_errors_def plain_error_def split: option.splits)
    have "read_all (hp_body r) \<noteq> Inl (ProviderInvocationError g)"
      using plain_body[OF assms(1), of _ w r w2 g] Pair Inr by (auto simp: read_all_def split: option.splits)
    then have "\<exists>body. g = classify_http_error (hw_parse h) (hp_status r) body (hw_url_path h (provider_url rv path))"
      using assms(2) Pair Inr new by (auto simp: send_payload_def split: if_splits sum.splits)
    moreover have "hw_do h (provider_request client rv q path payload) w = (Inr r, w2)" using Pair Inr by simp
    ultimately show ?thesis using http_error_explained by metis
  qed
qed

lemma read_answer_final:
  assumes "plain_errors h" and "hw_do h req w = (Inr r, w0)" and "parse_stream \<in> {parse_responses_stream, parse_chat_stream}"
    and "read_answer h parse_stream q streaming (hp_body r) w1 = (Inl (ProviderInvocationError g), w2)"
  shows "final_error g"
proof -
  have plain: "hb_error (hp_body r) \<noteq> Some (ProviderInvocationError g)"
    by (rule plain_body[OF assms(1,2)])
  show ?thesis
  proof (cases streaming)
    case True
    then obtain e ds where e: "parse_stream (hw_parse h) (hp_body r) = (Inl e, ds)"
      and g: "e = StreamGatewayError g \<or> e = StreamReadError (ProviderInvocationError g)"
      using assms(4) by (auto simp: read_answer_def split: prod.splits sum.splits stream_error.splits)
    have "stream_error_ok (hp_body r) e" using assms(3) e parse_stream_errors by auto
    then show ?thesis using g plain by (auto simp: stream_error_ok_def plain_error_def)
  next
    case False
    then show ?thesis using assms(4) plain
      by (auto simp: read_answer_def result_simps read_all_def dest: parse_json_final split: option.splits sum.splits)
  qed
qed

lemma exchange_explained:
  assumes "plain_errors h" and "parse_stream \<in> {parse_responses_stream, parse_chat_stream}"
    and "\<And>m s e t. finish m s = (Inl (ProviderInvocationError e), t) \<Longrightarrow> final_error e"
    and "seq (send_payload h client rv q path payload) (\<lambda>r. seq (read_answer h parse_stream q streaming (hp_body r)) finish) w =
      (Inl (ProviderInvocationError g), w')"
  shows "explained h w g"
  using assms(4)
proof (cases rule: seq_cases)
  case (failed e)
  then show ?thesis using send_payload_explained[OF assms(1)] by auto
next
  case (returned r w1)
  from returned(2) show ?thesis
  proof (cases rule: seq_cases)
    case (failed e)
    have sent: "hw_do h (provider_request client rv q path payload) w = (Inr r, w1)" using send_payload_Inr[OF returned(1)] by blast
    have "final_error g" using failed by (intro read_answer_final[OF assms(1) sent assms(2)]) simp
    then show ?thesis by (rule final_explained)
  next
    case (returned m w2)
    have "final_error g" by (rule assms(3)) (rule returned(2))
    then show ?thesis by (rule final_explained)
  qed
qed

text \<open>
  C26. Which failures of a provider lead to another attempt: only those of a transport that failed, or an answer with the status 408 or
  429. So an answer the provider may have charged for, a 5xx or a broken one, is never asked for again. And only a
  transport that failed, a 408 or a 403, whose body names the code itself, counts towards taking the API offline, never another error status.
  The errors of the transport are its own, not the provider's.
\<close>

theorem provider_failures_explained:
  assumes "plain_errors h" and "provider_invoke h client rv q w = (Inl (ProviderInvocationError g), w')"
  shows "(should_retry p k g \<longrightarrow> transport_failed h w \<or> answered_with h w {408, 429}) \<and>
    (counts_toward_offline g \<longrightarrow> transport_failed h w \<or> answered_with h w {403, 408})"
proof -
  have responses: "explained h w g" if run: "invoke_responses h client rv q w = (Inl (ProviderInvocationError g), w')"
    by (rule exchange_explained[OF assms(1) _ _ run[unfolded invoke_responses_def Let_def]])
      (auto simp: return_ok_def return_err_def dest: classify_final split: option.splits)
  have chat: "explained h w g" if run: "invoke_chat_completions h client rv q w = (Inl (ProviderInvocationError g), w')"
  proof (cases "build_chat_payload_for_invoke rv q")
    case (Inl e)
    then have "final_error g" using run build_chat_final by (auto simp: invoke_chat_completions_def return_err_def)
    then show ?thesis by (rule final_explained)
  next
    case (Inr payload)
    show ?thesis
      by (rule exchange_explained[OF assms(1) _ _ run[unfolded invoke_chat_completions_def Inr sum.case]])
        (auto simp: return_ok_def return_err_def provider_invalid_json_def provider_error_final dest: classify_chat_final
          split: option.splits sum.splits)
  qed
  have "explained h w g" using assms(2) responses chat by (auto simp: provider_invoke_def split: if_splits)
  then show ?thesis by (simp add: explained_def should_retry_def)
qed


section \<open>Concrete exchanges\<close>

text \<open>A world that answers every request in the same way and keeps what the sink was given.\<close>

definition demo_parse :: json_parser where
  "demo_parse s = (if s = ''1'' then Inr [(''choices'', JArr [JObj [(''delta'', JObj [(''content'', JStr ''so'')])]])]
     else if s = ''2'' then Inr [(''choices'', JArr [JObj [(''delta'', JObj [(''content'', JStr '' be it '')])]])]
     else Inl ''unexpected'')"

definition demo_body :: http_body where
  "demo_body = \<lparr>hb_bytes = ''data: 1'' @ [newline, newline] @ '': wait'' @ [newline] @ ''data: 2'' @ [newline], hb_error = None\<rparr>"

definition demo_http :: "int \<Rightarrow> string list http_world" where
  "demo_http status = \<lparr>hw_new_request = (\<lambda>_. None), hw_url_path = (\<lambda>u. u),
     hw_do = (\<lambda>req w. (Inr \<lparr>hp_status = status, hp_body = demo_body\<rparr>, w)), hw_sink = (\<lambda>d w. w @ [d]), hw_parse = demo_parse,
     hw_marshal = (\<lambda>_. '''')\<rparr>"

definition demo_reservation :: invocation_reservation where
  "demo_reservation = \<lparr>rv_invocation_id = ''i'', rv_attempt_id = ''t'', rv_request_id = ''r'', rv_node_id = ''n'', rv_api_id = ''api-1'',
     rv_provider = ''openai'', rv_api_mode = ''chat_completions'', rv_model = ''m'', rv_base_url = ''http://localhost/v1/'', rv_api_key = ''k'',
     rv_headers = [(''x-team'', ''1'')], rv_request_defaults = [(''stream'', JBool True)], rv_pricing = None, rv_started_at = 1\<rparr>"

definition demo_chat_request :: invoke_request where
  "demo_chat_request = \<lparr>iq_request_id = ''r'', iq_node_id = ''n'', iq_request = [],
     iq_chat_request = [(''messages'', JArr [JObj [(''role'', JStr ''user''), (''content'', JStr ''hi'')]])], iq_timeout_ms = None,
     iq_route_policy = \<lparr>rp_api_id = None\<rparr>, iq_stream_sink = True\<rparr>"

definition demo_chat_payload :: json_object where
  "demo_chat_payload = [(''model'', JStr ''m''), (''messages'', JArr [JObj [(''role'', JStr ''user''), (''content'', JStr ''hi'')]]), (''stream'', JBool True)]"

lemma demo_chat_payload: "build_chat_payload_for_invoke demo_reservation demo_chat_request = Inr demo_chat_payload"
  by code_simp

lemma demo_lines: "scanned_lines demo_body = [''data: 1'', '''', '': wait'', ''data: 2'']" "scanner_err demo_body = None"
proof -
  have "split_lines (hb_bytes demo_body) = [''data: 1'', '''', '': wait'', ''data: 2'']" by (simp add: demo_body_def)
  then show "scanned_lines demo_body = [''data: 1'', '''', '': wait'', ''data: 2'']" "scanner_err demo_body = None"
    by (simp_all add: scanned_lines_def scanner_err_def scanner_buffer_def demo_body_def)
qed

lemma demo_stream:
  "parse_chat_stream demo_parse demo_body = (case seq (frames_loop (chat_frame demo_parse) [] [''data: 1'', '''', '': wait'', ''data: 2''])
     (flush_frame (chat_frame demo_parse)) new_chat_stream of (r, s) \<Rightarrow> (and_then r (\<lambda>_. finish_chat_stream s), ch_emitted s))"
  by (simp add: parse_chat_stream_def for_each_sse_data_frame_def demo_lines)

lemma demo_answer: "case parse_chat_stream demo_parse demo_body of (Inr m, ds) \<Rightarrow>
    ds = [''so'', '' be it ''] \<and> classify_chat_completions_payload m = None \<and> is_ok (normalize_chat_completions_response m) | _ \<Rightarrow> False"
  unfolding demo_stream by code_simp

lemma demo_chat_run: "\<exists>out. invoke_chat_completions (demo_http 200) None demo_reservation demo_chat_request [] =
    (Inr out, [''so'', '' be it ''])"
proof -
  obtain m n where m: "parse_chat_stream demo_parse demo_body = (Inr m, [''so'', '' be it ''])" "classify_chat_completions_payload m = None"
    "normalize_chat_completions_response m = Inr n"
    using demo_answer by (cases "parse_chat_stream demo_parse demo_body"; cases "fst (parse_chat_stream demo_parse demo_body)")
      (auto simp: is_ok_iff)
  have "payload_stream_enabled demo_chat_payload" by code_simp
  then show ?thesis using m unfolding invoke_chat_completions_def demo_chat_payload
    by (simp add: send_payload_def read_answer_def demo_http_def demo_chat_request_def seq_def return_ok_def)
qed

theorem streamed_text_is_answer_witness:
  "\<exists>out. invoke_chat_completions (demo_http 200) None demo_reservation demo_chat_request [] = (Inr out, [''so'', '' be it '']) \<and>
     pv_output_text out = Some ''so be it''"
proof -
  obtain out where run: "invoke_chat_completions (demo_http 200) None demo_reservation demo_chat_request [] = (Inr out, [''so'', '' be it ''])"
    using demo_chat_run by blast
  have "payload_stream_enabled demo_chat_payload" "iq_stream_sink demo_chat_request" by code_simp+
  from streamed_text_is_answer[OF demo_chat_payload this run] obtain r w1 ds where
    "hw_do (demo_http 200) (provider_request None demo_reservation demo_chat_request ''/chat/completions'' demo_chat_payload) [] = (Inr r, w1)"
    "[''so'', '' be it ''] = fold (hw_sink (demo_http 200)) ds w1" "pv_output_text out = text_option (trim_space (concat ds))" by blast
  moreover have "fold (\<lambda>d w. w @ [d]) ds w = w @ ds" for w by (induction ds arbitrary: w) simp_all
  ultimately have "ds = [''so'', '' be it '']" "pv_output_text out = text_option (trim_space (concat ds))" by (auto simp: demo_http_def)
  moreover have "text_option (trim_space (concat [''so'', '' be it ''])) = Some ''so be it''" by code_simp
  ultimately show ?thesis using run by simp
qed

theorem provider_failures_explained_witness:
  "case provider_invoke (demo_http 503) None demo_reservation demo_chat_request [] of
     (Inl (ProviderInvocationError g), w) \<Rightarrow> ge_code g = ''provider_http_error'' \<and> \<not> should_retry default_retry_policy 1 g \<and> \<not> counts_toward_offline g | _ \<Rightarrow> False"
proof -
  have plain: "plain_errors (demo_http 503)" by (auto simp: plain_errors_def demo_http_def demo_body_def)
  have "case provider_invoke (demo_http 503) None demo_reservation demo_chat_request [] of
     (Inl (ProviderInvocationError g), w) \<Rightarrow> ge_code g = ''provider_http_error'' | _ \<Rightarrow> False" by code_simp
  then obtain g w where run: "provider_invoke (demo_http 503) None demo_reservation demo_chat_request [] = (Inl (ProviderInvocationError g), w)"
    and code: "ge_code g = ''provider_http_error''"
    by (auto split: prod.splits sum.splits pool_error.splits)
  have "\<not> transport_failed (demo_http 503) []" "\<not> answered_with (demo_http 503) [] {408, 429}" "\<not> answered_with (demo_http 503) [] {403, 408}"
    by (auto simp: transport_failed_def answered_with_def demo_http_def)
  then show ?thesis using provider_failures_explained[OF plain run, of default_retry_policy 1] run code by simp
qed

end
