(* ===== verification/SqliteRetry.thy ===== *)
theory SqliteRetry
  imports ResultState
begin

text \<open>
  The retry of a statement or a transaction while SQLite is busy (internal/vos/store/session_store.go, internal/poolgateway/store.go
  and internal/schedule/runtime_store.go), and why the stores are modelled without it.

  \<open>fn k s\<close> is what the attempt \<open>k\<close> does, so that the database may be busy in one attempt and not in the next, and
  \<open>wait k\<close> is the error of the context when it ends the wait behind the attempt. An error is known by its text.
\<close>

section \<open>The loop\<close>

definition sqlite_busy_max_retries :: nat where
  "sqlite_busy_max_retries = 200"

definition is_sqlite_busy :: "string option \<Rightarrow> bool" where
  "is_sqlite_busy err = (case err of None \<Rightarrow> False
     | Some message \<Rightarrow> contains message ''database is locked'' \<or> contains message ''database is busy'')"

definition is_sqlite_constraint :: "bool \<Rightarrow> string option \<Rightarrow> bool" where
  "is_sqlite_constraint no_rows err = (case err of None \<Rightarrow> False
     | Some message \<Rightarrow> \<not> no_rows \<and> (contains message ''UNIQUE constraint failed'' \<or> contains message ''constraint failed''))"

text \<open>The attempts that are left, and the error of the last one.\<close>

fun retry_attempts ::
  "('e \<Rightarrow> string) \<Rightarrow> (nat \<Rightarrow> 'e option) \<Rightarrow> (nat \<Rightarrow> ('s, 'e, unit) op) \<Rightarrow> nat \<Rightarrow> nat \<Rightarrow> 'e + unit \<Rightarrow> ('s, 'e, unit) op" where
  "retry_attempts txt wait fn k 0 err s = (err, s)"
| "retry_attempts txt wait fn k (Suc n) err s = (case fn k s of
     (Inr u, t) \<Rightarrow> (Inr u, t)
   | (Inl e, t) \<Rightarrow>
       if \<not> is_sqlite_busy (Some (txt e)) then (Inl e, t)
       else (case wait k of Some w \<Rightarrow> (Inl w, t) | None \<Rightarrow> retry_attempts txt wait fn (k + 1) n (Inl e) t))"

definition retry_on_sqlite_busy ::
  "('e \<Rightarrow> string) \<Rightarrow> (nat \<Rightarrow> 'e option) \<Rightarrow> (nat \<Rightarrow> ('s, 'e, unit) op) \<Rightarrow> ('s, 'e, unit) op" where
  "retry_on_sqlite_busy txt wait fn = retry_attempts txt wait fn 0 sqlite_busy_max_retries (Inr ())"

text \<open>The scheduler sleeps, which nothing interrupts.\<close>

definition schedule_retry_on_sqlite_busy :: "('e \<Rightarrow> string) \<Rightarrow> (nat \<Rightarrow> ('s, 'e, unit) op) \<Rightarrow> ('s, 'e, unit) op" where
  "schedule_retry_on_sqlite_busy txt fn = retry_on_sqlite_busy txt (\<lambda>_. None) fn"

section \<open>The loop around a transaction is a transaction\<close>

text \<open>
  Each attempt is a transaction: one that fails leaves the store as it was. Then so is the loop: it returns normally exactly with what one
  attempt did to the store it was given, and it fails without a change.
\<close>

definition undoes :: "('s, 'e, unit) op \<Rightarrow> bool" where
  "undoes m \<longleftrightarrow> (\<forall>s e t. m s = (Inl e, t) \<longrightarrow> t = s)"

lemma undoes_transaction: "undoes (transaction over m)"
  by (auto simp: undoes_def dest: transaction_InlD)

lemma retry_attempts_transaction:
  assumes "\<And>k. undoes (fn k)" and "retry_attempts txt wait fn k n err s = (r, t)"
  shows "case r of Inr u \<Rightarrow> (\<exists>j. k \<le> j \<and> j < k + n \<and> fn j s = (Inr u, t)) \<or> (n = 0 \<and> err = r \<and> t = s) | Inl e \<Rightarrow> t = s"
  using assms(2)
proof (induction n arbitrary: k err)
  case 0
  then show ?case by (auto split: sum.split)
next
  case (Suc n)
  obtain x u where x: "fn k s = (x, u)" by fastforce
  show ?case
  proof (cases x)
    case (Inr v)
    then have "r = Inr ()" "fn k s = (Inr (), t)" using Suc.prems x by simp_all
    then show ?thesis by (auto intro!: exI[of _ k])
  next
    case (Inl e)
    then have u: "u = s" using assms(1)[of k] x by (auto simp: undoes_def)
    show ?thesis
    proof (cases "is_sqlite_busy (Some (txt e)) \<and> wait k = None")
      case True
      then have run: "retry_attempts txt wait fn (k + 1) n (Inl e) s = (r, t)" using Suc.prems x Inl u by simp
      show ?thesis using Suc.IH[OF run] by (auto split: sum.splits) (metis Suc_leD)
    next
      case False
      then show ?thesis using Suc.prems x Inl u by (auto split: if_splits option.splits)
    qed
  qed
qed

lemma retry_transaction:
  assumes "\<And>k. undoes (fn k)" and "retry_on_sqlite_busy txt wait fn s = (r, t)"
  shows "case r of Inr u \<Rightarrow> \<exists>j < sqlite_busy_max_retries. fn j s = (Inr u, t) | Inl e \<Rightarrow> t = s"
proof -
  have "retry_attempts txt wait fn 0 sqlite_busy_max_retries (Inr ()) s = (r, t)" using assms(2) by (simp add: retry_on_sqlite_busy_def)
  from retry_attempts_transaction[OF assms(1) this] show ?thesis by (auto simp: sqlite_busy_max_retries_def split: sum.splits)
qed

lemma retry_undoes:
  assumes "\<And>k. undoes (fn k)"
  shows "undoes (retry_on_sqlite_busy txt wait fn)"
proof -
  have "t = s" if "retry_on_sqlite_busy txt wait fn s = (Inl e, t)" for s e t
    using retry_transaction[OF assms that] by simp
  then show ?thesis by (simp add: undoes_def)
qed

text \<open>
  A database that is busy for fewer attempts than the loop makes is waited for: when the first attempt that is not busy comes in time, its
  result is the result.
\<close>

lemma retry_attempts_waits:
  assumes "\<And>j. j < m \<Longrightarrow> \<exists>e. fn (k + j) s = (Inl e, s) \<and> is_sqlite_busy (Some (txt e)) \<and> wait (k + j) = None" and "m < n"
    and "fn (k + m) s = (r, t)" and "case r of Inl e \<Rightarrow> \<not> is_sqlite_busy (Some (txt e)) | Inr _ \<Rightarrow> True"
  shows "retry_attempts txt wait fn k n err s = (r, t)"
  using assms
proof (induction m arbitrary: k n err)
  case 0
  then show ?case by (cases n; cases r) auto
next
  case (Suc m)
  obtain n' where n: "n = Suc n'" using Suc.prems(2) by (cases n) auto
  obtain e where e: "fn k s = (Inl e, s)" "is_sqlite_busy (Some (txt e))" "wait k = None" using Suc.prems(1)[of 0] by auto
  have "retry_attempts txt wait fn (k + 1) n' (Inl e) s = (r, t)"
    by (rule Suc.IH) (use Suc.prems n Suc.prems(1)[of "Suc _"] in auto)
  then show ?case using e by (simp add: n)
qed

lemma retry_waits_for_busy:
  assumes "\<And>j. j < m \<Longrightarrow> \<exists>e. fn j s = (Inl e, s) \<and> is_sqlite_busy (Some (txt e)) \<and> wait j = None"
    and "m < sqlite_busy_max_retries" and "fn m s = (r, t)" and "case r of Inl e \<Rightarrow> \<not> is_sqlite_busy (Some (txt e)) | Inr _ \<Rightarrow> True"
  shows "retry_on_sqlite_busy txt wait fn s = (r, t)"
  unfolding retry_on_sqlite_busy_def
  by (rule retry_attempts_waits[where m = m]) (use assms in auto)

end
