(* ===== verification/SchedTypes.thy ===== *)
theory SchedTypes
  imports Prelude
begin

text \<open>
  The scheduler's data (internal/schedule/types.go and contracts.go): queue levels, node
  statuses, topic snapshots and plans, with the normalisation and validation of a snapshot.
  Go's string enumerations are datatypes whose last constructor stands for every string
  outside the declared constants, because a decoded value can be any string. A nil slice and
  an empty one are the same list here, so the parts of the \<open>Normalize\<close> methods that only
  replace nil by an empty slice are the identity.
\<close>

section \<open>Enumerations\<close>

datatype topic_queue_level =
    TopicQueueLevelL0 | TopicQueueLevelL1 | TopicQueueLevelL2 | TopicQueueLevelL3
  | OtherQueueLevel string

datatype node_status =
    NodeStatusPending | NodeStatusReady | NodeStatusRunning | NodeStatusBlocked
  | NodeStatusRetryCooldown | NodeStatusWaitingExternal
  | NodeStatusSucceeded | NodeStatusFailed | NodeStatusCancelled
  | OtherNodeStatus string

section \<open>Errors\<close>

text \<open>
  One constructor per error the package builds. A fixed message is kept as text; a formatted
  one carries the values it prints. \<open>ExternalError\<close> is an error value that a gateway outside
  the package returned, \<open>WrapError\<close> is \<open>fmt.Errorf\<close> with \<open>%w\<close>.
\<close>

datatype sched_error =
    ValidationError string
  | InvalidQueueLevel string
  | EmptyNodeName string
  | InvalidNodeStatus string node_status
  | DuplicateRunningNode string
  | DuplicateNode string
  | UnknownReference string string
  | UnknownRunningNode string
  | PriorityNotFixed string int
  | PriorityRankConflict int string string string
  | ErrNotFound
  | ExternalError string
  | WrapError string sched_error

section \<open>Snapshots and plans\<close>

record node_priority =
  np_label :: string
  np_rank :: int

record topic_node =
  tn_node_id :: string
  tn_name :: string
  tn_priority :: node_priority
  tn_status :: node_status
  tn_entered_priority_at :: time
  tn_last_worked_at :: "time option"

record topic_runtime_state =
  rt_topic_id :: string
  rt_active_priority :: "string option"
  rt_current_node_id :: "string option"
  rt_running_node_ids :: "string list"
  rt_last_worked_node_id :: "string option"
  rt_last_worked_at :: "time option"
  rt_switch_count :: int
  rt_priority_dirty :: bool

record topic_snapshot =
  ts_topic_id :: string
  ts_queue_level :: topic_queue_level
  ts_nodes :: "topic_node list"
  ts_runtime :: topic_runtime_state

record dispatch_plan =
  dp_topic_id :: string
  dp_active_priority :: "string option"
  dp_current_node_id :: "string option"
  dp_active_candidate_node_ids :: "string list"
  dp_dispatch_node_ids :: "string list"
  dp_stalled :: bool
  dp_reasons :: "string list"

section \<open>Contracts of the engine's gateways\<close>

record agent_spec =
  as_mode :: string
  as_workspace_root :: string
  as_pool_db_file :: string
  as_pool_model_config :: string
  as_pool_binary :: string
  as_api_id :: string
  as_vos_state_file :: string
  as_vos_session_db :: string
  as_vos_binary :: string
  as_use_session_event :: bool

definition empty_agent_spec :: agent_spec where
  "empty_agent_spec = \<lparr>as_mode = '''', as_workspace_root = '''', as_pool_db_file = '''',
     as_pool_model_config = '''', as_pool_binary = '''', as_api_id = '''',
     as_vos_state_file = '''', as_vos_session_db = '''', as_vos_binary = '''',
     as_use_session_event = False\<rparr>"

record enqueue_request =
  eq_topic_id :: string
  eq_node_id :: string
  eq_node_name :: string
  eq_session_id :: string
  eq_agent_spec :: agent_spec
  eq_priority :: node_priority
  eq_idempotency_key :: string
  eq_mark_priority_dirty :: bool

record enqueue_result =
  er_topic_id :: string
  er_node_id :: string
  er_created :: bool
  er_priority_dirty :: bool
  er_priority_node_id :: string
  er_queue_level :: topic_queue_level
  er_idempotency_key :: string

record worker_candidate_node =
  wc_node_id :: string
  wc_name :: string
  wc_status :: node_status
  wc_current_priority :: node_priority
  wc_entered_priority_at :: time
  wc_last_worked_at :: "time option"

record worker_execute_request =
  wr_request_id :: string
  wr_topic_id :: string
  wr_node_id :: string
  wr_node_name :: string
  wr_node_kind :: string
  wr_agent_spec :: agent_spec
  wr_session_id :: string
  wr_event_id :: string
  wr_timeout_ms :: int
  wr_priority_candidates :: "worker_candidate_node list"

record worker_priority_assignment =
  wa_node_id :: string
  wa_label :: string
  wa_rank :: int

record worker_execute_response =
  ws_request_id :: string
  ws_topic_id :: string
  ws_node_id :: string
  ws_session_id :: string
  ws_event_id :: string
  ws_status :: string
  ws_next_node_status :: "node_status option"
  ws_output :: string
  ws_error :: string
  ws_retryable :: bool
  ws_duration_ms :: int
  ws_priority_plan :: "worker_priority_assignment list"

record dispatch_record =
  dr_request_id :: string
  dr_topic_id :: string
  dr_node_id :: string
  dr_node_kind :: string
  dr_session_id :: string
  dr_event_id :: string
  dr_status :: string
  dr_retryable :: bool
  dr_error :: string
  dr_duration_ms :: int

record tick_result =
  tr_selected_topic_id :: string
  tr_queue_level :: "topic_queue_level option"
  tr_dispatched :: "dispatch_record list"
  tr_reasons :: "string list"

definition PriorityNodeName :: string where "PriorityNodeName = ''__priority__''"
definition PriorityNodeLabel :: string where "PriorityNodeLabel = ''priority''"
definition BusinessNodePriorityLabel :: string where "BusinessNodePriorityLabel = ''interactive''"
definition BusinessNodePriorityRank :: int where "BusinessNodePriorityRank = 1"

section \<open>Normalisation and validation\<close>

fun level_normalize :: "topic_queue_level \<Rightarrow> topic_queue_level" where
  "level_normalize (OtherQueueLevel []) = TopicQueueLevelL0"
| "level_normalize l = l"

fun level_validate :: "topic_queue_level \<Rightarrow> sched_error + unit" where
  "level_validate (OtherQueueLevel s) = Inl (InvalidQueueLevel s)"
| "level_validate l = Inr ()"

fun status_is_known :: "node_status \<Rightarrow> bool" where
  "status_is_known (OtherNodeStatus s) = False"
| "status_is_known s = True"

definition priority_validate :: "node_priority \<Rightarrow> sched_error + unit" where
  "priority_validate p =
     (if np_label p = '''' then Inl (ValidationError ''priority.label must not be empty'')
      else if np_rank p < 0 then Inl (ValidationError ''priority.rank must be >= 0'')
      else Inr ())"

definition node_normalize :: "time \<Rightarrow> topic_node \<Rightarrow> topic_node" where
  "node_normalize now n =
     (let n1 = (if tn_status n = OtherNodeStatus '''' then n\<lparr>tn_status := NodeStatusReady\<rparr> else n)
      in if tn_entered_priority_at n1 = 0 then n1\<lparr>tn_entered_priority_at := now\<rparr> else n1)"

definition node_validate :: "topic_node \<Rightarrow> sched_error + unit" where
  "node_validate n =
     (if tn_node_id n = '''' then Inl (ValidationError ''node_id must not be empty'')
      else if tn_name n = '''' then Inl (EmptyNodeName (tn_node_id n))
      else and_then (priority_validate (tn_priority n)) (\<lambda>_.
        if \<not> status_is_known (tn_status n) then Inl (InvalidNodeStatus (tn_node_id n) (tn_status n))
        else Inr ()))"

definition normalize_optional_string :: "string option \<Rightarrow> string option" where
  "normalize_optional_string v = (case v of None \<Rightarrow> None | Some s \<Rightarrow> if s = '''' then None else Some s)"

definition runtime_normalize :: "topic_runtime_state \<Rightarrow> topic_runtime_state" where
  "runtime_normalize r = r\<lparr>
     rt_active_priority := normalize_optional_string (rt_active_priority r),
     rt_current_node_id := normalize_optional_string (rt_current_node_id r),
     rt_last_worked_node_id := normalize_optional_string (rt_last_worked_node_id r)\<rparr>"

fun check_running_ids :: "string list \<Rightarrow> string list \<Rightarrow> sched_error + unit" where
  "check_running_ids seen [] = Inr ()"
| "check_running_ids seen (i # is) =
     (if i = '''' then Inl (ValidationError ''runtime.running_node_ids must not contain empty values'')
      else if i \<in> set seen then Inl (DuplicateRunningNode i)
      else check_running_ids (i # seen) is)"

definition runtime_validate :: "topic_runtime_state \<Rightarrow> sched_error + unit" where
  "runtime_validate r =
     (if rt_topic_id r = '''' then Inl (ValidationError ''runtime.topic_id must not be empty'')
      else if rt_switch_count r < 0 then Inl (ValidationError ''runtime.switch_count must be >= 0'')
      else check_running_ids [] (rt_running_node_ids r))"

definition snapshot_normalize :: "time \<Rightarrow> topic_snapshot \<Rightarrow> topic_snapshot" where
  "snapshot_normalize now s = s\<lparr>
     ts_queue_level := level_normalize (ts_queue_level s),
     ts_nodes := map (node_normalize now) (ts_nodes s),
     ts_runtime := runtime_normalize (ts_runtime s)\<rparr>"

text \<open>The loop over the nodes, with its two maps \<open>knownNodeIDs\<close> and \<open>rankToLabel\<close>.\<close>

fun validate_nodes ::
  "string list \<Rightarrow> (int \<times> string) list \<Rightarrow> topic_node list \<Rightarrow> sched_error + string list" where
  "validate_nodes known ranks [] = Inr known"
| "validate_nodes known ranks (n # ns) =
     and_then (node_validate n) (\<lambda>_.
       if tn_node_id n \<in> set known then Inl (DuplicateNode (tn_node_id n))
       else (case map_of ranks (np_rank (tn_priority n)) of
           None \<Rightarrow> validate_nodes (tn_node_id n # known)
                     ((np_rank (tn_priority n), np_label (tn_priority n)) # ranks) ns
         | Some label \<Rightarrow>
             if label \<noteq> np_label (tn_priority n)
             then Inl (ValidationError
               ''priority ranks must map to exactly one label within one topic snapshot'')
             else validate_nodes (tn_node_id n # known) ranks ns))"

definition validate_known_reference ::
  "string \<Rightarrow> string option \<Rightarrow> string list \<Rightarrow> sched_error + unit" where
  "validate_known_reference field v known =
     (case v of None \<Rightarrow> Inr ()
      | Some i \<Rightarrow> if i \<in> set known then Inr () else Inl (UnknownReference field i))"

definition snapshot_validate :: "topic_snapshot \<Rightarrow> sched_error + unit" where
  "snapshot_validate s =
     (if ts_topic_id s = '''' then Inl (ValidationError ''topic_id must not be empty'')
      else and_then (level_validate (ts_queue_level s)) (\<lambda>_.
        and_then (runtime_validate (ts_runtime s)) (\<lambda>_.
        if rt_topic_id (ts_runtime s) \<noteq> ts_topic_id s
        then Inl (ValidationError ''runtime.topic_id must match topic_id'')
        else and_then (validate_nodes [] [] (ts_nodes s)) (\<lambda>known.
          and_then (validate_known_reference ''current_node_id''
                      (rt_current_node_id (ts_runtime s)) known) (\<lambda>_.
          and_then (validate_known_reference ''last_worked_node_id''
                      (rt_last_worked_node_id (ts_runtime s)) known) (\<lambda>_.
          check_all (\<lambda>i. if i \<in> set known then Inr () else Inl (UnknownRunningNode i))
            (rt_running_node_ids (ts_runtime s))))))))"

text \<open>
  \<open>ParseTopicSnapshotJSON\<close>: the decoder is \<open>encoding/json\<close>, an argument here.
\<close>

definition parse_topic_snapshot_json ::
  "('p \<Rightarrow> string + topic_snapshot) \<Rightarrow> time \<Rightarrow> 'p \<Rightarrow> sched_error + topic_snapshot" where
  "parse_topic_snapshot_json decode now payload =
     (case decode payload of
        Inl e \<Rightarrow> Inl (WrapError ''invalid topic snapshot json'' (ExternalError e))
      | Inr s \<Rightarrow> and_then (snapshot_validate (snapshot_normalize now s))
          (\<lambda>_. Inr (snapshot_normalize now s)))"

section \<open>What validation guarantees\<close>

definition rank_labels_agree :: "topic_node list \<Rightarrow> bool" where
  "rank_labels_agree ns \<longleftrightarrow>
     (\<forall>a\<in>set ns. \<forall>b\<in>set ns. np_rank (tn_priority a) = np_rank (tn_priority b) \<longrightarrow>
        np_label (tn_priority a) = np_label (tn_priority b))"

definition node_ok :: "topic_node \<Rightarrow> bool" where
  "node_ok n \<longleftrightarrow> tn_node_id n \<noteq> '''' \<and> tn_name n \<noteq> '''' \<and> np_label (tn_priority n) \<noteq> '''' \<and>
     0 \<le> np_rank (tn_priority n) \<and> status_is_known (tn_status n)"

definition snapshot_ok :: "topic_snapshot \<Rightarrow> bool" where
  "snapshot_ok s \<longleftrightarrow>
     ts_topic_id s \<noteq> '''' \<and> rt_topic_id (ts_runtime s) = ts_topic_id s \<and>
     is_ok (level_validate (ts_queue_level s)) \<and> 0 \<le> rt_switch_count (ts_runtime s) \<and>
     (\<forall>n\<in>set (ts_nodes s). node_ok n) \<and> distinct (map tn_node_id (ts_nodes s)) \<and>
     rank_labels_agree (ts_nodes s) \<and>
     set_option (rt_current_node_id (ts_runtime s)) \<subseteq> tn_node_id ` set (ts_nodes s) \<and>
     set_option (rt_last_worked_node_id (ts_runtime s)) \<subseteq> tn_node_id ` set (ts_nodes s) \<and>
     distinct (rt_running_node_ids (ts_runtime s)) \<and>
     set (rt_running_node_ids (ts_runtime s)) \<subseteq> tn_node_id ` set (ts_nodes s)"

lemma node_validate_ok_iff [result_simps]: "node_validate n = Inr u \<longleftrightarrow> node_ok n"
  by (auto simp: node_validate_def node_ok_def priority_validate_def)

lemma check_running_ids_ok_iff [result_simps]:
  "check_running_ids seen is = Inr u \<longleftrightarrow> distinct is \<and> '''' \<notin> set is \<and> set is \<inter> set seen = {}"
  by (induction seen "is" rule: check_running_ids.induct) auto

lemma runtime_validate_ok_iff [result_simps]:
  "runtime_validate r = Inr u \<longleftrightarrow> rt_topic_id r \<noteq> '''' \<and> 0 \<le> rt_switch_count r \<and>
     distinct (rt_running_node_ids r) \<and> '''' \<notin> set (rt_running_node_ids r)"
  by (auto simp: runtime_validate_def result_simps)

lemma validate_known_reference_ok_iff [result_simps]:
  "validate_known_reference f v known = Inr u \<longleftrightarrow> set_option v \<subseteq> set known"
  by (auto simp: validate_known_reference_def split: option.splits)

text \<open>
  The loop's characterisation, generalised over its two accumulators: what it accepts is
  exactly the nodes that are valid, new and consistent with the ranks seen so far.
\<close>

definition ranks_fit :: "(int \<times> string) list \<Rightarrow> topic_node list \<Rightarrow> bool" where
  "ranks_fit ranks ns \<longleftrightarrow>
     (\<forall>a\<in>set ns. \<forall>l. map_of ranks (np_rank (tn_priority a)) = Some l \<longrightarrow> l = np_label (tn_priority a))"

lemma rank_labels_agree_Cons:
  "rank_labels_agree (n # ns) \<longleftrightarrow> rank_labels_agree ns \<and>
     (\<forall>a\<in>set ns. np_rank (tn_priority a) = np_rank (tn_priority n) \<longrightarrow>
        np_label (tn_priority a) = np_label (tn_priority n))"
proof
  assume *: "rank_labels_agree ns \<and> (\<forall>a\<in>set ns.
    np_rank (tn_priority a) = np_rank (tn_priority n) \<longrightarrow> np_label (tn_priority a) = np_label (tn_priority n))"
  show "rank_labels_agree (n # ns)"
    unfolding rank_labels_agree_def
  proof (intro ballI impI)
    fix a b
    assume "a \<in> set (n # ns)" "b \<in> set (n # ns)" "np_rank (tn_priority a) = np_rank (tn_priority b)"
    then show "np_label (tn_priority a) = np_label (tn_priority b)"
      using * unfolding rank_labels_agree_def by (metis set_ConsD)
  qed
next
  assume "rank_labels_agree (n # ns)"
  then show "rank_labels_agree ns \<and> (\<forall>a\<in>set ns.
    np_rank (tn_priority a) = np_rank (tn_priority n) \<longrightarrow> np_label (tn_priority a) = np_label (tn_priority n))"
    unfolding rank_labels_agree_def by (meson list.set_intros)
qed

lemma ranks_fit_Cons:
  "ranks_fit ranks (n # ns) \<longleftrightarrow> ranks_fit ranks ns \<and>
     (\<forall>l. map_of ranks (np_rank (tn_priority n)) = Some l \<longrightarrow> l = np_label (tn_priority n))"
  by (simp add: ranks_fit_def) metis

lemma ranks_fit_extend:
  "map_of ranks r = None \<Longrightarrow>
   ranks_fit ((r, l) # ranks) ns \<longleftrightarrow> ranks_fit ranks ns \<and>
     (\<forall>a\<in>set ns. np_rank (tn_priority a) = r \<longrightarrow> np_label (tn_priority a) = l)"
  unfolding ranks_fit_def by (rule iffI) (simp, metis option.distinct(1), simp)

lemma ranks_fit_new:
  "map_of ranks (np_rank (tn_priority n)) = None \<Longrightarrow>
   ranks_fit ((np_rank (tn_priority n), np_label (tn_priority n)) # ranks) ns \<and> rank_labels_agree ns
   \<longleftrightarrow> rank_labels_agree (n # ns) \<and> ranks_fit ranks (n # ns)"
  by (simp add: rank_labels_agree_Cons ranks_fit_Cons ranks_fit_extend) blast

lemma ranks_fit_seen:
  assumes "map_of ranks (np_rank (tn_priority n)) = Some (np_label (tn_priority n))"
  shows "ranks_fit ranks ns \<and> rank_labels_agree ns
   \<longleftrightarrow> rank_labels_agree (n # ns) \<and> ranks_fit ranks (n # ns)"
proof -
  have "ranks_fit ranks ns \<Longrightarrow> \<forall>a\<in>set ns. np_rank (tn_priority a) = np_rank (tn_priority n) \<longrightarrow>
        np_label (tn_priority a) = np_label (tn_priority n)"
    using assms unfolding ranks_fit_def by metis
  then show ?thesis using assms by (auto simp: rank_labels_agree_Cons ranks_fit_Cons)
qed

lemma validate_nodes_ok_iff:
  "validate_nodes known ranks ns = Inr k \<longleftrightarrow>
     (\<forall>n\<in>set ns. node_ok n) \<and> distinct (map tn_node_id ns) \<and>
     set (map tn_node_id ns) \<inter> set known = {} \<and> rank_labels_agree ns \<and> ranks_fit ranks ns \<and>
     k = rev (map tn_node_id ns) @ known"
proof (induction ns arbitrary: known ranks)
  case Nil
  show ?case by (auto simp: rank_labels_agree_def ranks_fit_def)
next
  case (Cons n ns)
  note IH = Cons
  show ?case
  proof (cases "node_ok n \<and> tn_node_id n \<notin> set known")
    case False
    then show ?thesis by (auto simp: result_simps)
  next
    case True
    then have v: "node_validate n = Inr ()" by (simp add: result_simps)
    show ?thesis
    proof (cases "map_of ranks (np_rank (tn_priority n))")
      case None
      have "ranks_fit ((np_rank (tn_priority n), np_label (tn_priority n)) # ranks) ns \<and>
            rank_labels_agree ns \<longleftrightarrow> rank_labels_agree (n # ns) \<and> ranks_fit ranks (n # ns)"
        using None by (rule ranks_fit_new)
      then show ?thesis using True None v by (simp add: IH) blast
    next
      case (Some l)
      show ?thesis
      proof (cases "l = np_label (tn_priority n)")
        case True': True
        have "ranks_fit ranks ns \<and> rank_labels_agree ns \<longleftrightarrow>
            rank_labels_agree (n # ns) \<and> ranks_fit ranks (n # ns)"
          using Some True' by (intro ranks_fit_seen) simp
        then show ?thesis using True Some True' v by (simp add: IH) blast
      next
        case False
        then have "\<not> ranks_fit ranks (n # ns)"
          using Some by (auto simp: ranks_fit_def)
        then show ?thesis using True Some False v by simp
      qed
    qed
  qed
qed

lemma snapshot_validate_iff_ok: "snapshot_validate s = Inr () \<longleftrightarrow> snapshot_ok s"
proof -
  have fit: "ranks_fit [] (ts_nodes s)" by (simp add: ranks_fit_def)
  have ne: "\<forall>n\<in>set (ts_nodes s). node_ok n \<Longrightarrow> '''' \<notin> tn_node_id ` set (ts_nodes s)"
    by (auto simp: node_ok_def)
  show ?thesis
    using fit ne
    by (auto simp: snapshot_validate_def snapshot_ok_def validate_nodes_ok_iff result_simps
             split: if_splits) 
qed

lemma snapshot_okD:
  assumes "snapshot_ok s"
  shows "distinct (map tn_node_id (ts_nodes s))" and "rank_labels_agree (ts_nodes s)"
    and "n \<in> set (ts_nodes s) \<Longrightarrow> node_ok n"
  using assms by (auto simp: snapshot_ok_def)

text \<open>
  Snapshot validation is exact: a payload is accepted if and only if it decodes to a
  snapshot that, with defaults filled in, is well formed; and the result is that snapshot.
\<close>

theorem parse_snapshot_exact:
  "parse_topic_snapshot_json decode now payload = Inr snap \<longleftrightarrow>
     (\<exists>raw. decode payload = Inr raw \<and> snap = snapshot_normalize now raw \<and> snapshot_ok snap)"
  by (cases "decode payload")
    (auto simp: parse_topic_snapshot_json_def result_simps snapshot_validate_iff_ok)

end
