(* ===== verification/Planner.thy ===== *)
theory Planner
  imports SchedTypes
begin

text \<open>
  The dispatch planner (internal/schedule/planner.go): which nodes of a topic a tick may start.
  \<open>plan_topic_dispatch\<close> is the source's function; \<open>plan_order\<close> below is the specification it
  is shown to meet: the plan takes, up to the free slots, the current node first and then the
  other idle candidates of the most urgent layer in queue order.
\<close>

section \<open>The planner\<close>

fun status_is_terminal :: "node_status \<Rightarrow> bool" where
  "status_is_terminal NodeStatusSucceeded = True"
| "status_is_terminal NodeStatusFailed = True"
| "status_is_terminal NodeStatusCancelled = True"
| "status_is_terminal s = False"

fun status_blocks_dispatch :: "node_status \<Rightarrow> bool" where
  "status_blocks_dispatch NodeStatusBlocked = True"
| "status_blocks_dispatch NodeStatusRetryCooldown = True"
| "status_blocks_dispatch NodeStatusWaitingExternal = True"
| "status_blocks_dispatch s = False"

definition non_terminal_nodes :: "topic_snapshot \<Rightarrow> topic_node list" where
  "non_terminal_nodes topic = filter (\<lambda>n. \<not> status_is_terminal (tn_status n)) (ts_nodes topic)"

definition candidate_lt :: "topic_node \<Rightarrow> topic_node \<Rightarrow> bool" where
  "candidate_lt a b =
     (if tn_entered_priority_at a = tn_entered_priority_at b then tn_node_id a < tn_node_id b
      else tn_entered_priority_at a < tn_entered_priority_at b)"

definition sort_active_candidates :: "topic_node list \<Rightarrow> topic_node list" where
  "sort_active_candidates ns = sort_slice candidate_lt ns"

definition choose_current_node_id :: "topic_node list \<Rightarrow> topic_runtime_state \<Rightarrow> string option" where
  "choose_current_node_id cands rt =
     (let ids = map tn_node_id cands;
          fallback = (case cands of [] \<Rightarrow> None | c # _ \<Rightarrow> Some (tn_node_id c));
          last_worked = (case rt_last_worked_node_id rt of
              Some w \<Rightarrow> if w \<in> set ids then Some w else fallback
            | None \<Rightarrow> fallback)
      in case rt_current_node_id rt of
           Some c \<Rightarrow> if c \<in> set ids then Some c else last_worked
         | None \<Rightarrow> last_worked)"

definition candidate_node_ids :: "topic_node list \<Rightarrow> string list" where
  "candidate_node_ids ns = map tn_node_id ns"

text \<open>The minimum loop over \<open>nonTerminal[1:]\<close>.\<close>

fun lowest_rank :: "int \<Rightarrow> topic_node list \<Rightarrow> int" where
  "lowest_rank r [] = r"
| "lowest_rank r (n # ns) =
     lowest_rank (if np_rank (tn_priority n) < r then np_rank (tn_priority n) else r) ns"

text \<open>The filling loop: \<open>break\<close> when the slots are used, \<open>continue\<close> past the current and the running nodes.\<close>

fun fill_dispatch ::
  "int \<Rightarrow> string option \<Rightarrow> string list \<Rightarrow> topic_node list \<Rightarrow> string list \<Rightarrow> string list" where
  "fill_dispatch slots cur running [] acc = acc"
| "fill_dispatch slots cur running (n # ns) acc =
     (if int (length acc) \<ge> slots then acc
      else if cur = Some (tn_node_id n) then fill_dispatch slots cur running ns acc
      else if tn_node_id n \<in> set running then fill_dispatch slots cur running ns acc
      else fill_dispatch slots cur running ns (acc @ [tn_node_id n]))"

definition plan_topic_dispatch :: "topic_snapshot \<Rightarrow> int \<Rightarrow> sched_error + dispatch_plan" where
  "plan_topic_dispatch topic slots =
     (if slots < 0 then Inl (ValidationError ''available_slots must be >= 0'')
      else (case non_terminal_nodes topic of
        [] \<Rightarrow> Inr \<lparr>dp_topic_id = ts_topic_id topic, dp_active_priority = None,
              dp_current_node_id = None, dp_active_candidate_node_ids = [],
              dp_dispatch_node_ids = [], dp_stalled = False,
              dp_reasons = [''topic has no non-terminal leaf nodes'']\<rparr>
      | n0 # rest \<Rightarrow>
          let highest = lowest_rank (np_rank (tn_priority n0)) rest;
              layer = filter (\<lambda>n. np_rank (tn_priority n) = highest) (n0 # rest);
              active = np_label (tn_priority (hd layer));
              candidates = filter (\<lambda>n. \<not> status_blocks_dispatch (tn_status n)) layer;
              ordered = sort_active_candidates candidates
          in if ordered = [] then
               Inr \<lparr>dp_topic_id = ts_topic_id topic, dp_active_priority = Some active,
                 dp_current_node_id = None, dp_active_candidate_node_ids = [],
                 dp_dispatch_node_ids = [], dp_stalled = True,
                 dp_reasons = [''highest priority layer has no runnable nodes'',
                   ''lower priority layers stay blocked until the active layer is cleared or reprioritized'']\<rparr>
             else
               let cur = choose_current_node_id ordered (ts_runtime topic);
                   running = rt_running_node_ids (ts_runtime topic);
                   first = (case cur of
                       Some c \<Rightarrow> if slots > 0 \<and> c \<notin> set running then [c] else []
                     | None \<Rightarrow> []);
                   dispatch = fill_dispatch slots cur running ordered first;
                   reason = (if cur \<noteq> None \<and> rt_current_node_id (ts_runtime topic) = cur
                             then ''continuation-first kept the current node''
                             else if cur \<noteq> None \<and> rt_last_worked_node_id (ts_runtime topic) = cur
                             then ''current node was reset to last_worked_node_id''
                             else ''current node was selected by stable queue order'')
               in Inr \<lparr>dp_topic_id = ts_topic_id topic, dp_active_priority = Some active,
                    dp_current_node_id = cur,
                    dp_active_candidate_node_ids = candidate_node_ids ordered,
                    dp_dispatch_node_ids = dispatch, dp_stalled = False,
                    dp_reasons = [''active priority resolved to '' @ active, reason]\<rparr>))"

section \<open>Specification\<close>

text \<open>
  The active candidates: the non-terminal nodes that no other non-terminal node outranks
  and whose status does not block dispatch.
\<close>

definition active_candidates :: "topic_snapshot \<Rightarrow> topic_node set" where
  "active_candidates topic =
     {n \<in> set (ts_nodes topic). \<not> status_is_terminal (tn_status n) \<and>
        \<not> status_blocks_dispatch (tn_status n) \<and>
        (\<forall>m\<in>set (ts_nodes topic). \<not> status_is_terminal (tn_status m) \<longrightarrow>
           np_rank (tn_priority n) \<le> np_rank (tn_priority m))}"

definition plan_order :: "string list \<Rightarrow> string option \<Rightarrow> string list \<Rightarrow> string list" where
  "plan_order ids cur running =
     filter (\<lambda>i. i \<notin> set running) (case cur of None \<Rightarrow> ids | Some c \<Rightarrow> c # removeAll c ids)"

section \<open>Lemmas\<close>

interpretation cand: sort_order candidate_lt tn_node_id "\<lambda>_. True"
  by unfold_locales (auto simp: candidate_lt_def split: if_splits)

lemma lowest_rank_le: "lowest_rank r ns \<le> r"
  by (induction r ns rule: lowest_rank.induct) (auto intro: order_trans)

lemma lowest_rank_lower: "n \<in> set ns \<Longrightarrow> lowest_rank r ns \<le> np_rank (tn_priority n)"
proof (induction r ns rule: lowest_rank.induct)
  case (2 r m ns)
  show ?case
  proof (cases "n = m")
    case True
    then show ?thesis
      using lowest_rank_le[of "if np_rank (tn_priority m) < r then np_rank (tn_priority m) else r" ns]
      by (auto split: if_splits)
  qed (use 2 in auto)
qed simp

lemma lowest_rank_attained: "lowest_rank r ns \<in> insert r ((\<lambda>n. np_rank (tn_priority n)) ` set ns)"
  by (induction r ns rule: lowest_rank.induct) (auto split: if_splits)

lemma lowest_rank_Min:
  "lowest_rank (np_rank (tn_priority n0)) rest =
   Min ((\<lambda>n. np_rank (tn_priority n)) ` set (n0 # rest))"
  by (rule sym, rule Min_eqI)
    (use lowest_rank_le lowest_rank_lower lowest_rank_attained in auto)

lemma lowest_rank_of_layer:
  fixes n0 :: topic_node and rest :: "topic_node list"
  defines "h \<equiv> lowest_rank (np_rank (tn_priority n0)) rest"
  shows "n \<in> set (n0 # rest) \<Longrightarrow> h \<le> np_rank (tn_priority n)"
    and "\<exists>n\<in>set (n0 # rest). np_rank (tn_priority n) = h"
proof -
  show "n \<in> set (n0 # rest) \<Longrightarrow> h \<le> np_rank (tn_priority n)"
    unfolding h_def lowest_rank_Min by (rule Min_le) auto
  have "Min ((\<lambda>n. np_rank (tn_priority n)) ` set (n0 # rest)) \<in> (\<lambda>n. np_rank (tn_priority n)) ` set (n0 # rest)"
    by (rule Min_in) auto
  then show "\<exists>n\<in>set (n0 # rest). np_rank (tn_priority n) = h"
    unfolding h_def lowest_rank_Min by force
qed

text \<open>The candidates the planner filters are the specified set.\<close>

lemma candidates_set:
  assumes "non_terminal_nodes topic = n0 # rest"
  defines "h \<equiv> lowest_rank (np_rank (tn_priority n0)) rest"
  shows "set (filter (\<lambda>n. \<not> status_blocks_dispatch (tn_status n))
           (filter (\<lambda>n. np_rank (tn_priority n) = h) (n0 # rest))) = active_candidates topic"
proof -
  have nt: "set (n0 # rest) = {n \<in> set (ts_nodes topic). \<not> status_is_terminal (tn_status n)}"
    using assms(1) by (metis non_terminal_nodes_def set_filter)
  have low: "\<And>n. n \<in> set (n0 # rest) \<Longrightarrow> h \<le> np_rank (tn_priority n)"
    and att: "\<exists>n\<in>set (n0 # rest). np_rank (tn_priority n) = h"
    unfolding h_def using lowest_rank_of_layer by blast+
  have "np_rank (tn_priority n) = h \<longleftrightarrow>
        (\<forall>m\<in>set (n0 # rest). np_rank (tn_priority n) \<le> np_rank (tn_priority m))"
    if "n \<in> set (n0 # rest)" for n
    using low[OF that] low att by (metis order_antisym)
  then show ?thesis
    unfolding active_candidates_def set_filter using nt by blast
qed

lemma fill_dispatch_eq:
  "int (length acc) \<le> slots \<Longrightarrow>
   fill_dispatch slots cur running ns acc =
     acc @ take (nat slots - length acc)
       (filter (\<lambda>i. i \<notin> set running \<and> cur \<noteq> Some i) (map tn_node_id ns))"
proof (induction slots cur running ns acc rule: fill_dispatch.induct)
  case (2 slots cur running n ns acc)
  show ?case
  proof (cases "int (length acc) = slots")
    case True
    then show ?thesis by auto
  next
    case False
    then have "nat slots - length acc = Suc (nat slots - length (acc @ [tn_node_id n]))"
      using 2(4) by auto
    then show ?thesis using 2 False by auto
  qed
qed simp

lemma choose_current_mem:
  "cands \<noteq> [] \<Longrightarrow> \<exists>c. choose_current_node_id cands rt = Some c \<and> c \<in> tn_node_id ` set cands"
  by (cases cands) (auto simp: choose_current_node_id_def Let_def split: option.splits)

lemma choose_current_keeps:
  "rt_current_node_id rt = Some c \<Longrightarrow> c \<in> tn_node_id ` set cands \<Longrightarrow>
   choose_current_node_id cands rt = Some c"
  by (simp add: choose_current_node_id_def)

lemma filter_removeAll_neq: "filter P (removeAll c xs) = filter (\<lambda>i. P i \<and> Some c \<noteq> Some i) xs"
  by (induction xs) auto

text \<open>The two steps of the source (seed with the current node, then fill) are one \<open>take\<close>.\<close>

lemma seeded_fill:
  assumes "0 \<le> slots"
  shows "fill_dispatch slots (Some c) running ns (if slots > 0 \<and> c \<notin> set running then [c] else []) =
         take (nat slots) (plan_order (map tn_node_id ns) (Some c) running)"
proof (cases "slots > 0")
  case True
  then obtain k where k: "nat slots = Suc k" by (metis gr0_implies_Suc zero_less_nat_eq)
  show ?thesis
    using True k by (auto simp: fill_dispatch_eq plan_order_def filter_removeAll_neq)
next
  case False
  with assms show ?thesis by (simp add: fill_dispatch_eq)
qed

text \<open>A plan, taken apart: the three shapes it can have.\<close>

lemma plan_cases:
  assumes "plan_topic_dispatch topic slots = Inr plan" and "distinct (map tn_node_id (ts_nodes topic))"
  obtains
    (no_work) "non_terminal_nodes topic = []" "dp_dispatch_node_ids plan = []"
       "dp_active_candidate_node_ids plan = []" "dp_current_node_id plan = None" "\<not> dp_stalled plan"
       "dp_active_priority plan = None"
  | (stalled) "non_terminal_nodes topic \<noteq> []" "active_candidates topic = {}"
       "dp_dispatch_node_ids plan = []" "dp_active_candidate_node_ids plan = []"
       "dp_current_node_id plan = None" "dp_stalled plan"
  | (dispatch) cands c where
       "set cands = active_candidates topic" "sorted_wrt candidate_lt cands" "cands \<noteq> []"
       "dp_active_candidate_node_ids plan = map tn_node_id cands" "\<not> dp_stalled plan"
       "choose_current_node_id cands (ts_runtime topic) = Some c" "dp_current_node_id plan = Some c"
       "dp_dispatch_node_ids plan = take (nat slots)
          (plan_order (map tn_node_id cands) (Some c) (rt_running_node_ids (ts_runtime topic)))"
proof -
  have slots: "0 \<le> slots" using assms(1) by (auto simp: plan_topic_dispatch_def split: if_splits)
  show thesis
  proof (cases "non_terminal_nodes topic")
    case Nil
    then show thesis
      using assms(1) slots by (intro no_work) (auto simp: plan_topic_dispatch_def)
  next
    case (Cons n0 rest)
    define cs where "cs = filter (\<lambda>n. \<not> status_blocks_dispatch (tn_status n))
      (filter (\<lambda>n. np_rank (tn_priority n) = lowest_rank (np_rank (tn_priority n0)) rest) (n0 # rest))"
    have set_cs: "set cs = active_candidates topic"
      unfolding cs_def by (rule candidates_set[OF Cons])
    have dist: "distinct (map tn_node_id cs)"
      using assms(2) Cons unfolding cs_def
      by (metis distinct_map_filter non_terminal_nodes_def)
    note plan = assms(1)[unfolded plan_topic_dispatch_def Cons list.case Let_def, folded cs_def]
    show thesis
    proof (cases "cs = []")
      case True
      then show thesis
        using plan slots set_cs Cons
        by (intro stalled) (auto simp: sort_active_candidates_def)
    next
      case False
      define cands where "cands = sort_active_candidates cs"
      have ne: "cands \<noteq> []" using False by (simp add: cands_def sort_active_candidates_def)
      obtain c where c: "choose_current_node_id cands (ts_runtime topic) = Some c"
        using choose_current_mem[OF ne] by blast
      show thesis
      proof (rule dispatch)
        show "set cands = active_candidates topic"
          using set_cs by (simp add: cands_def sort_active_candidates_def)
        show "sorted_wrt candidate_lt cands"
          using cand.sorted_sort[OF _ dist] by (simp add: cands_def sort_active_candidates_def)
        show "cands \<noteq> []" "choose_current_node_id cands (ts_runtime topic) = Some c" by fact+
        show "dp_active_candidate_node_ids plan = map tn_node_id cands"
          "\<not> dp_stalled plan" "dp_current_node_id plan = Some c"
          "dp_dispatch_node_ids plan = take (nat slots)
            (plan_order (map tn_node_id cands) (Some c) (rt_running_node_ids (ts_runtime topic)))"
          using plan slots ne c
          by (auto simp: candidate_node_ids_def seeded_fill simp flip: cands_def split: if_splits)
      qed
    qed
  qed
qed

section \<open>Properties\<close>

lemma plan_order_distinct: "distinct ids \<Longrightarrow> distinct (plan_order ids (Some c) running)"
  by (auto simp: plan_order_def intro!: distinct_filter distinct_removeAll)

lemma set_plan_order:
  "c \<in> set ids \<Longrightarrow> set (plan_order ids (Some c) running) = set ids - set running"
  by (auto simp: plan_order_def)

lemma sorted_cands_distinct:
  assumes "distinct (map tn_node_id (ts_nodes topic))" and "set cands \<subseteq> set (ts_nodes topic)"
    and "sorted_wrt candidate_lt cands"
  shows "distinct (map tn_node_id cands)"
proof -
  have "distinct cands"
    using assms(3) by (induction cands) (auto simp: cand.less_irrefl)
  moreover have "inj_on tn_node_id (set cands)"
    using assms(1,2) by (meson distinct_map inj_on_subset)
  ultimately show ?thesis by (simp add: distinct_map)
qed

lemma active_candidates_subset: "active_candidates topic \<subseteq> set (ts_nodes topic)"
  by (auto simp: active_candidates_def)

lemma plan_dispatch_set:
  assumes "plan_topic_dispatch topic slots = Inr plan" and "distinct (map tn_node_id (ts_nodes topic))"
  shows "\<exists>ids. distinct ids \<and> dp_dispatch_node_ids plan = take (nat slots) ids \<and>
     set ids = tn_node_id ` active_candidates topic - set (rt_running_node_ids (ts_runtime topic))"
  using assms
proof (cases rule: plan_cases)
  case no_work
  then have "active_candidates topic = {}"
    by (auto simp: active_candidates_def non_terminal_nodes_def filter_empty_conv)
  with no_work show ?thesis by (intro exI[of _ "[]"]) simp
next
  case stalled
  then show ?thesis by (intro exI[of _ "[]"]) simp
next
  case (dispatch cands c)
  let ?ids = "plan_order (map tn_node_id cands) (Some c) (rt_running_node_ids (ts_runtime topic))"
  have "distinct (map tn_node_id cands)"
    using sorted_cands_distinct assms(2) dispatch(1,2) active_candidates_subset by metis
  moreover have "c \<in> set (map tn_node_id cands)"
    using choose_current_mem[OF dispatch(3)] dispatch(6) by (metis image_set option.inject)
  ultimately show ?thesis
    using dispatch by (intro exI[of _ ?ids]) (simp add: plan_order_distinct set_plan_order)
qed

text \<open>
  C1. A plan never starts more nodes than there are free slots, never starts a node twice, and
  starts only idle candidates of the most urgent layer: not terminal, not blocked, not
  already running, and outranked by no non-terminal node of the topic.
\<close>

theorem plan_dispatch_safe:
  assumes "plan_topic_dispatch topic slots = Inr plan" and "distinct (map tn_node_id (ts_nodes topic))"
  shows "int (length (dp_dispatch_node_ids plan)) \<le> slots \<and> distinct (dp_dispatch_node_ids plan) \<and>
    set (dp_dispatch_node_ids plan) \<subseteq>
      tn_node_id ` active_candidates topic - set (rt_running_node_ids (ts_runtime topic))"
proof -
  have "0 \<le> slots" using assms(1) by (auto simp: plan_topic_dispatch_def split: if_splits)
  moreover obtain ids where "distinct ids" "dp_dispatch_node_ids plan = take (nat slots) ids"
    "set ids = tn_node_id ` active_candidates topic - set (rt_running_node_ids (ts_runtime topic))"
    using plan_dispatch_set[OF assms] by blast
  ultimately show ?thesis by (auto dest: in_set_takeD)
qed

text \<open>
  The planner is work conserving: it starts as many nodes as the free slots and the idle
  candidates of the active layer allow, never fewer.
\<close>

theorem plan_work_conserving:
  assumes "plan_topic_dispatch topic slots = Inr plan" and "distinct (map tn_node_id (ts_nodes topic))"
  shows "length (dp_dispatch_node_ids plan) = min (nat slots)
    (card (tn_node_id ` active_candidates topic - set (rt_running_node_ids (ts_runtime topic))))"
  using plan_dispatch_set[OF assms] distinct_card by fastforce

text \<open>
  Continuation first: while the topic's current node is still an active candidate, the plan
  keeps it current, and starts it before anything else unless it is already running.
\<close>

theorem plan_continuation_first:
  assumes "plan_topic_dispatch topic slots = Inr plan" and "distinct (map tn_node_id (ts_nodes topic))"
    and "rt_current_node_id (ts_runtime topic) = Some c" and "c \<in> tn_node_id ` active_candidates topic"
  shows "dp_current_node_id plan = Some c \<and>
    (0 < slots \<and> c \<notin> set (rt_running_node_ids (ts_runtime topic)) \<longrightarrow>
       (\<exists>rest. dp_dispatch_node_ids plan = c # rest))"
  using assms(1,2)
proof (cases rule: plan_cases)
  case no_work
  then show ?thesis
    using assms(4) by (auto simp: active_candidates_def non_terminal_nodes_def filter_empty_conv)
next
  case stalled
  then show ?thesis using assms(4) by simp
next
  case (dispatch cands d)
  then have "d = c" using choose_current_keeps[OF assms(3), of cands] assms(4) by simp
  then show ?thesis
    using dispatch by (auto simp: plan_order_def gr0_conv_Suc dest!: zero_less_nat_eq[THEN iffD2])
qed

lemma layer_label:
  assumes "rank_labels_agree ns" and "set layer \<subseteq> set ns" and "layer \<noteq> []"
    and "set layer' = set layer" and "\<forall>n\<in>set layer. np_rank (tn_priority n) = h"
  shows "np_label (tn_priority (hd layer)) = np_label (tn_priority (hd layer'))"
proof -
  have "hd layer \<in> set layer" "hd layer' \<in> set layer"
    using assms(3,4) by (metis hd_in_set set_empty)+
  then show ?thesis
    using assms(1,2,5) unfolding rank_labels_agree_def by (metis subsetD)
qed

text \<open>
  The plan does not depend on the order in which the nodes are listed (the store's query
  has no ORDER BY): a validated snapshot and any rearrangement of its nodes get the same plan.
\<close>

theorem plan_order_independent:
  assumes ok: "snapshot_validate topic = Inr ()" and perm: "mset nodes = mset (ts_nodes topic)"
  shows "plan_topic_dispatch (topic\<lparr>ts_nodes := nodes\<rparr>) slots = plan_topic_dispatch topic slots"
proof (cases "non_terminal_nodes topic")
  case Nil
  then have "non_terminal_nodes (topic\<lparr>ts_nodes := nodes\<rparr>) = []"
    using mset_eq_setD[OF perm] by (auto simp: non_terminal_nodes_def filter_empty_conv)
  with Nil show ?thesis by (simp add: plan_topic_dispatch_def)
next
  case (Cons n0 rest)
  note sok = snapshot_validate_iff_ok[THEN iffD1, OF ok]
  have eq: "mset (non_terminal_nodes (topic\<lparr>ts_nodes := nodes\<rparr>)) = mset (n0 # rest)"
    using perm Cons by (metis mset_filter non_terminal_nodes_def topic_snapshot.select_convs(3)
      topic_snapshot.surjective topic_snapshot.update_convs(3))
  then obtain m0 rest' where ms: "non_terminal_nodes (topic\<lparr>ts_nodes := nodes\<rparr>) = m0 # rest'"
    by (cases "non_terminal_nodes (topic\<lparr>ts_nodes := nodes\<rparr>)") auto
  have sets: "set (m0 # rest') = set (n0 # rest)" using eq ms by (metis mset_eq_setD)
  then have h: "lowest_rank (np_rank (tn_priority m0)) rest' = lowest_rank (np_rank (tn_priority n0)) rest"
    unfolding lowest_rank_Min by simp
  let ?h = "lowest_rank (np_rank (tn_priority n0)) rest"
  let ?layer = "filter (\<lambda>n. np_rank (tn_priority n) = ?h) (n0 # rest)"
  let ?layer' = "filter (\<lambda>n. np_rank (tn_priority n) = ?h) (m0 # rest')"
  have nt: "set (n0 # rest) \<subseteq> set (ts_nodes topic)"
    using Cons by (metis filter_is_subset non_terminal_nodes_def)
  have "?layer \<noteq> []"
    using lowest_rank_of_layer(2)[of n0 rest] by (auto simp: filter_empty_conv)
  moreover have "set ?layer' = set ?layer" using sets by auto
  ultimately have lab: "np_label (tn_priority (hd ?layer)) = np_label (tn_priority (hd ?layer'))"
    using nt snapshot_okD(2)[OF sok] by (intro layer_label[where h = ?h]) auto
  let ?cs = "filter (\<lambda>n. \<not> status_blocks_dispatch (tn_status n)) ?layer"
  let ?cs' = "filter (\<lambda>n. \<not> status_blocks_dispatch (tn_status n)) ?layer'"
  have "distinct (map tn_node_id (n0 # rest))"
    using snapshot_okD(1)[OF sok] Cons by (metis distinct_map_filter non_terminal_nodes_def)
  then have "distinct (map tn_node_id ?cs)" by (intro distinct_map_filter)
  moreover have "mset ?cs = mset ?cs'" using eq ms by (metis mset_filter)
  ultimately have srt: "sort_active_candidates ?cs = sort_active_candidates ?cs'"
    unfolding sort_active_candidates_def by (intro cand.sort_perm) simp_all
  have frame: "ts_runtime (topic\<lparr>ts_nodes := nodes\<rparr>) = ts_runtime topic"
    "ts_topic_id (topic\<lparr>ts_nodes := nodes\<rparr>) = ts_topic_id topic" by simp_all
  show ?thesis
    unfolding plan_topic_dispatch_def ms Cons list.case h Let_def lab srt frame by (rule refl)
qed

text \<open>
  The planner blocks lower layers: a plan is stalled exactly when the topic has work left
  but its most urgent layer has no runnable node, and then nothing is started.
\<close>

theorem plan_stalled_iff:
  assumes "plan_topic_dispatch topic slots = Inr plan" and "distinct (map tn_node_id (ts_nodes topic))"
  shows "(dp_stalled plan \<longleftrightarrow> non_terminal_nodes topic \<noteq> [] \<and> active_candidates topic = {}) \<and>
    (dp_stalled plan \<longrightarrow> dp_dispatch_node_ids plan = [])"
  using assms
proof (cases rule: plan_cases)
  case (dispatch cands c)
  then have "active_candidates topic \<noteq> {}" by (metis set_empty)
  with dispatch show ?thesis by simp
qed auto

section \<open>Witnesses\<close>

text \<open>
  A concrete topic: two ready nodes of the urgent layer, one of which is current, and a node
  of a lower layer.
\<close>

definition sample_node :: "string \<Rightarrow> int \<Rightarrow> time \<Rightarrow> node_status \<Rightarrow> topic_node" where
  "sample_node i r t st = \<lparr>tn_node_id = i, tn_name = i,
     tn_priority = \<lparr>np_label = (if r = 1 then ''interactive'' else ''later''), np_rank = r\<rparr>,
     tn_status = st, tn_entered_priority_at = t, tn_last_worked_at = None\<rparr>"

definition sample_topic :: topic_snapshot where
  "sample_topic = \<lparr>ts_topic_id = ''t'', ts_queue_level = TopicQueueLevelL1,
     ts_nodes = [sample_node ''a'' 1 5 NodeStatusReady, sample_node ''b'' 1 7 NodeStatusReady,
       sample_node ''c'' 2 3 NodeStatusReady],
     ts_runtime = \<lparr>rt_topic_id = ''t'', rt_active_priority = None, rt_current_node_id = Some ''b'',
       rt_running_node_ids = [], rt_last_worked_node_id = None, rt_last_worked_at = None,
       rt_switch_count = 0, rt_priority_dirty = False\<rparr>\<rparr>"

definition sample_plan :: dispatch_plan where
  "sample_plan = \<lparr>dp_topic_id = ''t'', dp_active_priority = Some ''interactive'',
     dp_current_node_id = Some ''b'', dp_active_candidate_node_ids = [''a'', ''b''],
     dp_dispatch_node_ids = [''b'', ''a''], dp_stalled = False,
     dp_reasons = [''active priority resolved to interactive'',
       ''continuation-first kept the current node'']\<rparr>"

lemmas planner_eval = plan_topic_dispatch_def non_terminal_nodes_def sort_active_candidates_def
  candidate_lt_def choose_current_node_id_def candidate_node_ids_def sample_topic_def sample_node_def

lemma sample_plan_computed: "plan_topic_dispatch sample_topic 3 = Inr sample_plan"
  by (simp add: planner_eval sample_plan_def Let_def)

lemma sample_topic_distinct: "distinct (map tn_node_id (ts_nodes sample_topic))"
  by (simp add: sample_topic_def sample_node_def)

theorem plan_dispatch_safe_witness:
  "length (dp_dispatch_node_ids sample_plan) = 2 \<and>
   set [''b'', ''a''] \<subseteq> tn_node_id ` active_candidates sample_topic"
  using plan_dispatch_safe[OF sample_plan_computed sample_topic_distinct]
  by (auto simp: sample_plan_def)

theorem plan_work_conserving_witness:
  "card (tn_node_id ` active_candidates sample_topic) = 2"
  using plan_work_conserving[OF sample_plan_computed sample_topic_distinct]
  by (simp add: sample_plan_def sample_topic_def)

theorem plan_continuation_first_witness:
  "\<exists>rest. dp_dispatch_node_ids sample_plan = ''b'' # rest"
proof -
  have "rt_current_node_id (ts_runtime sample_topic) = Some ''b''" by (simp add: sample_topic_def)
  moreover have "sample_node ''b'' 1 7 NodeStatusReady \<in> active_candidates sample_topic"
    by (auto simp: active_candidates_def sample_topic_def sample_node_def)
  then have "''b'' \<in> tn_node_id ` active_candidates sample_topic"
    by (rule image_eqI[rotated]) (simp add: sample_node_def)
  ultimately show ?thesis
    using plan_continuation_first[OF sample_plan_computed sample_topic_distinct]
    by (simp add: sample_topic_def)
qed

theorem plan_order_independent_witness:
  "plan_topic_dispatch (sample_topic\<lparr>ts_nodes := rev (ts_nodes sample_topic)\<rparr>) 3 = Inr sample_plan"
proof -
  have ok: "snapshot_validate sample_topic = Inr ()"
    by (simp add: snapshot_validate_def sample_topic_def sample_node_def runtime_validate_def
      node_validate_def priority_validate_def validate_known_reference_def)
  show ?thesis
    using plan_order_independent[OF ok, of "rev (ts_nodes sample_topic)" 3] sample_plan_computed
    by simp
qed

theorem plan_stalled_iff_witness:
  "\<not> dp_stalled sample_plan \<and> active_candidates sample_topic \<noteq> {}"
proof -
  have "sample_node ''a'' 1 5 NodeStatusReady \<in> active_candidates sample_topic"
    by (auto simp: active_candidates_def sample_topic_def sample_node_def)
  then show ?thesis
    using plan_stalled_iff[OF sample_plan_computed sample_topic_distinct] by auto
qed

end
