(* ===== verification/RunStore.thy ===== *)
theory RunStore
  imports Planner
begin

text \<open>
  The scheduler's runtime store (internal/schedule/runtime_store.go): the three tables of the
  SQLite database and every statement the store runs on them.

  A table is the list of its rows. Times, the JSON of an agent spec and the JSON of the running
  ids are kept decoded, since each is written and read back by one encoder and its inverse.
  Every operation takes the clock reading \<open>now\<close> it stamps rows with. A transaction that
  fails leaves the tables as they were (\<open>run_tx\<close>); failures of the database itself are not
  modelled here (the busy-retry loop around every statement is in SqliteRetry).
\<close>

section \<open>Rows and tables\<close>

record topic_control_state =
  tc_topic_id :: string
  tc_queue_level :: topic_queue_level
  tc_priority_dirty :: bool
  tc_priority_node_id :: "string option"
  tc_priority_plan_version :: int
  tc_last_priority_error :: "string option"
  tc_last_served_at :: "time option"
  tc_current_node_id :: "string option"
  tc_last_worked_node_id :: "string option"
  tc_last_worked_at :: "time option"
  tc_switch_count :: int
  tc_running_node_ids :: "string list"
  tc_updated_at :: time

record node_queue_state =
  nq_topic_id :: string
  nq_node_id :: string
  nq_name :: string
  nq_is_priority_node :: bool
  nq_priority_label :: string
  nq_priority_rank :: int
  nq_status :: node_status
  nq_entered_priority_at :: time
  nq_last_worked_at :: "time option"
  nq_agent_spec :: agent_spec
  nq_session_id :: "string option"
  nq_idempotency_key :: string
  nq_updated_at :: time

record dispatch_history_row =
  dh_request_id :: string
  dh_topic_id :: string
  dh_node_id :: string
  dh_event_id :: "string option"
  dh_status :: string
  dh_error_message :: "string option"
  dh_retryable :: bool
  dh_duration_ms :: int
  dh_created_at :: time

record runtime_store =
  rs_topics :: "topic_control_state list"
  rs_nodes :: "node_queue_state list"
  rs_history :: "dispatch_history_row list"

definition empty_runtime_store :: runtime_store where
  "empty_runtime_store = \<lparr>rs_topics = [], rs_nodes = [], rs_history = []\<rparr>"

abbreviation topic_is :: "string \<Rightarrow> topic_control_state \<Rightarrow> bool" where
  "topic_is tid r \<equiv> tc_topic_id r = tid"

abbreviation node_key :: "node_queue_state \<Rightarrow> string \<times> string" where
  "node_key r \<equiv> (nq_topic_id r, nq_node_id r)"

abbreviation node_is :: "string \<Rightarrow> string \<Rightarrow> node_queue_state \<Rightarrow> bool" where
  "node_is tid nid r \<equiv> node_key r = (tid, nid)"

abbreviation upd_topics ::
  "(topic_control_state list \<Rightarrow> topic_control_state list) \<Rightarrow> runtime_store \<Rightarrow> runtime_store" where
  "upd_topics f s \<equiv> s\<lparr>rs_topics := f (rs_topics s)\<rparr>"

abbreviation upd_nodes ::
  "(node_queue_state list \<Rightarrow> node_queue_state list) \<Rightarrow> runtime_store \<Rightarrow> runtime_store" where
  "upd_nodes f s \<equiv> s\<lparr>rs_nodes := f (rs_nodes s)\<rparr>"

text \<open>\<open>withWriteTx\<close>: the body's changes are kept only when it succeeds.\<close>

definition run_tx :: "('s \<Rightarrow> 'e + 'a \<times> 's) \<Rightarrow> 's \<Rightarrow> ('e + 'a) \<times> 's" where
  "run_tx body s = (case body s of Inl e \<Rightarrow> (Inl e, s) | Inr (v, s') \<Rightarrow> (Inr v, s'))"

lemma run_tx_cases:
  obtains (rollback) e where "body s = Inl e" "run_tx body s = (Inl e, s)"
  | (commit) v s' where "body s = Inr (v, s')" "run_tx body s = (Inr v, s')"
  by (cases "body s") (auto simp: run_tx_def)

section \<open>Reading rows\<close>

definition nullable_to_string_ptr :: "string option \<Rightarrow> string option" where
  "nullable_to_string_ptr raw = (case raw of None \<Rightarrow> None
     | Some s \<Rightarrow> if trim_space s = '''' then None else Some (trim_space s))"

definition nullable_string :: "string option \<Rightarrow> string option" where
  "nullable_string raw = (case raw of None \<Rightarrow> None
     | Some s \<Rightarrow> if trim_space s = '''' then None else Some s)"

definition scan_topic :: "topic_control_state \<Rightarrow> sched_error + topic_control_state" where
  "scan_topic r = and_then (level_validate (tc_queue_level r)) (\<lambda>_. Inr (r\<lparr>
     tc_priority_node_id := nullable_to_string_ptr (tc_priority_node_id r),
     tc_last_priority_error := nullable_to_string_ptr (tc_last_priority_error r),
     tc_current_node_id := nullable_to_string_ptr (tc_current_node_id r),
     tc_last_worked_node_id := nullable_to_string_ptr (tc_last_worked_node_id r)\<rparr>))"

definition scan_node :: "node_queue_state \<Rightarrow> node_queue_state" where
  "scan_node r = r\<lparr>nq_session_id := nullable_to_string_ptr (nq_session_id r)\<rparr>"

definition list_topics :: "runtime_store \<Rightarrow> sched_error + topic_control_state list" where
  "list_topics s = traverse scan_topic (rs_topics s)"

definition get_topic :: "string \<Rightarrow> runtime_store \<Rightarrow> sched_error + topic_control_state" where
  "get_topic tid s = (case List.find (topic_is tid) (rs_topics s) of
     None \<Rightarrow> Inl ErrNotFound | Some r \<Rightarrow> scan_topic r)"

definition list_nodes :: "string \<Rightarrow> runtime_store \<Rightarrow> node_queue_state list" where
  "list_nodes tid s = map scan_node (filter (\<lambda>r. nq_topic_id r = tid) (rs_nodes s))"

definition get_node :: "string \<Rightarrow> string \<Rightarrow> runtime_store \<Rightarrow> sched_error + node_queue_state" where
  "get_node tid nid s = (case List.find (node_is tid nid) (rs_nodes s) of
     None \<Rightarrow> Inl ErrNotFound | Some r \<Rightarrow> Inr (scan_node r))"

definition to_topic_node :: "node_queue_state \<Rightarrow> topic_node" where
  "to_topic_node n = \<lparr>tn_node_id = nq_node_id n, tn_name = nq_name n,
     tn_priority = \<lparr>np_label = nq_priority_label n, np_rank = nq_priority_rank n\<rparr>,
     tn_status = nq_status n, tn_entered_priority_at = nq_entered_priority_at n,
     tn_last_worked_at = nq_last_worked_at n\<rparr>"

definition build_topic_snapshot :: "time \<Rightarrow> string \<Rightarrow> runtime_store \<Rightarrow> sched_error + topic_snapshot" where
  "build_topic_snapshot now tid s =
     and_then (get_topic tid s) (\<lambda>topic.
       let snapshot = snapshot_normalize now
         \<lparr>ts_topic_id = tc_topic_id topic, ts_queue_level = tc_queue_level topic,
          ts_nodes = map to_topic_node (list_nodes tid s),
          ts_runtime = \<lparr>rt_topic_id = tc_topic_id topic, rt_active_priority = None,
            rt_current_node_id = tc_current_node_id topic,
            rt_running_node_ids = tc_running_node_ids topic,
            rt_last_worked_node_id = tc_last_worked_node_id topic,
            rt_last_worked_at = tc_last_worked_at topic,
            rt_switch_count = tc_switch_count topic,
            rt_priority_dirty = tc_priority_dirty topic\<rparr>\<rparr>
       in and_then (snapshot_validate snapshot) (\<lambda>_. Inr snapshot))"

definition has_runnable_nodes :: "string \<Rightarrow> runtime_store \<Rightarrow> bool" where
  "has_runnable_nodes tid s \<longleftrightarrow>
     0 < length (filter (\<lambda>r. nq_topic_id r = tid \<and>
       nq_status r \<notin> {NodeStatusSucceeded, NodeStatusFailed, NodeStatusCancelled} \<and>
       nq_status r \<notin> {NodeStatusBlocked, NodeStatusRetryCooldown, NodeStatusWaitingExternal})
       (rs_nodes s))"

section \<open>Writing rows\<close>

definition new_topic_row :: "time \<Rightarrow> string \<Rightarrow> topic_control_state" where
  "new_topic_row now tid = \<lparr>tc_topic_id = tid, tc_queue_level = TopicQueueLevelL0,
     tc_priority_dirty = True, tc_priority_node_id = None, tc_priority_plan_version = 0,
     tc_last_priority_error = None, tc_last_served_at = None, tc_current_node_id = None,
     tc_last_worked_node_id = None, tc_last_worked_at = None, tc_switch_count = 0,
     tc_running_node_ids = [], tc_updated_at = now\<rparr>"

definition ensure_topic :: "time \<Rightarrow> string \<Rightarrow> runtime_store \<Rightarrow> sched_error + runtime_store" where
  "ensure_topic now tid s =
     (if tid = '''' then Inl (ValidationError ''topic_id must not be empty'')
      else Inr (if List.find (topic_is tid) (rs_topics s) = None
                then upd_topics (\<lambda>ts. ts @ [new_topic_row now tid]) s else s))"

definition ensure_priority_rank_label_mapping ::
  "string \<Rightarrow> string \<Rightarrow> node_priority \<Rightarrow> runtime_store \<Rightarrow> sched_error + unit" where
  "ensure_priority_rank_label_mapping tid nid p s =
     (case List.find (\<lambda>r. nq_topic_id r = tid \<and> nq_priority_rank r = np_rank p \<and> nq_node_id r \<noteq> nid)
             (rs_nodes s) of
        None \<Rightarrow> Inr ()
      | Some r \<Rightarrow> if nq_priority_label r \<noteq> np_label p
          then Inl (PriorityRankConflict (np_rank p) (nq_priority_label r) tid (np_label p))
          else Inr ())"

text \<open>The row \<open>UpsertEnqueueNode\<close> inserts, the columns it overwrites, and the dirty mark.\<close>

definition request_session :: "enqueue_request \<Rightarrow> string option" where
  "request_session req = (if eq_session_id req \<noteq> '''' then Some (eq_session_id req) else None)"

definition enqueued_row :: "time \<Rightarrow> enqueue_request \<Rightarrow> node_queue_state" where
  "enqueued_row now req = \<lparr>nq_topic_id = eq_topic_id req, nq_node_id = eq_node_id req,
     nq_name = eq_node_name req, nq_is_priority_node = False,
     nq_priority_label = np_label (eq_priority req), nq_priority_rank = np_rank (eq_priority req),
     nq_status = NodeStatusReady, nq_entered_priority_at = now, nq_last_worked_at = None,
     nq_agent_spec = eq_agent_spec req, nq_session_id = request_session req,
     nq_idempotency_key = eq_idempotency_key req, nq_updated_at = now\<rparr>"

definition reenqueue_row :: "time \<Rightarrow> enqueue_request \<Rightarrow> node_queue_state \<Rightarrow> node_queue_state" where
  "reenqueue_row now req r = r\<lparr>nq_name := eq_node_name req,
     nq_agent_spec := eq_agent_spec req, nq_idempotency_key := eq_idempotency_key req,
     nq_session_id := request_session req, nq_priority_label := np_label (eq_priority req),
     nq_priority_rank := np_rank (eq_priority req), nq_entered_priority_at := now,
     nq_status := NodeStatusReady, nq_updated_at := now\<rparr>"

definition mark_topic_dirty :: "time \<Rightarrow> string \<Rightarrow> runtime_store \<Rightarrow> runtime_store" where
  "mark_topic_dirty now tid = upd_topics (update_where (topic_is tid)
     (\<lambda>t. t\<lparr>tc_priority_dirty := True, tc_updated_at := now\<rparr>))"

definition enqueue_tx :: "time \<Rightarrow> enqueue_request \<Rightarrow> runtime_store \<Rightarrow> sched_error + bool \<times> runtime_store" where
  "enqueue_tx now req s =
     and_then (ensure_priority_rank_label_mapping (eq_topic_id req) (eq_node_id req) (eq_priority req) s) (\<lambda>_.
       let this_node = node_is (eq_topic_id req) (eq_node_id req);
           created = (List.find this_node (rs_nodes s) = None);
           s1 = (if created then upd_nodes (\<lambda>ns. ns @ [enqueued_row now req]) s
                 else upd_nodes (update_where this_node (reenqueue_row now req)) s);
           s2 = (if eq_mark_priority_dirty req then mark_topic_dirty now (eq_topic_id req) s1 else s1)
       in Inr (created, s2))"

definition upsert_enqueue_node ::
  "time \<Rightarrow> enqueue_request \<Rightarrow> runtime_store \<Rightarrow> (sched_error + bool) \<times> runtime_store" where
  "upsert_enqueue_node now req0 s =
     (if eq_topic_id req0 = '''' then (Inl (ValidationError ''topic_id must not be empty''), s)
      else if eq_node_id req0 = '''' then (Inl (ValidationError ''node_id must not be empty''), s)
      else if eq_node_name req0 = '''' then (Inl (ValidationError ''node_name must not be empty''), s)
      else (case priority_validate (eq_priority req0) of
        Inl e \<Rightarrow> (Inl e, s)
      | Inr _ \<Rightarrow>
          let req = req0\<lparr>eq_session_id := trim_space (eq_session_id req0)\<rparr>
          in case ensure_topic now (eq_topic_id req) s of
               Inl e \<Rightarrow> (Inl e, s)
             | Inr s1 \<Rightarrow> run_tx (enqueue_tx now req) s1))"

definition set_topic_priority_node :: "time \<Rightarrow> string \<Rightarrow> string \<Rightarrow> runtime_store \<Rightarrow> runtime_store" where
  "set_topic_priority_node now tid nid =
     upd_topics (update_where (topic_is tid)
       (\<lambda>t. t\<lparr>tc_priority_node_id := Some nid, tc_updated_at := now\<rparr>))"

definition priority_node_row :: "time \<Rightarrow> string \<Rightarrow> string \<Rightarrow> agent_spec \<Rightarrow> node_queue_state" where
  "priority_node_row now tid nid spec = \<lparr>nq_topic_id = tid, nq_node_id = nid,
     nq_name = PriorityNodeName, nq_is_priority_node = True,
     nq_priority_label = PriorityNodeLabel, nq_priority_rank = 0, nq_status = NodeStatusReady,
     nq_entered_priority_at = now, nq_last_worked_at = None, nq_agent_spec = spec,
     nq_session_id = None, nq_idempotency_key = ''priority-node'', nq_updated_at = now\<rparr>"

definition repriority_row :: "time \<Rightarrow> agent_spec \<Rightarrow> node_queue_state \<Rightarrow> node_queue_state" where
  "repriority_row now spec r = r\<lparr>nq_name := PriorityNodeName, nq_is_priority_node := True,
     nq_priority_label := PriorityNodeLabel, nq_priority_rank := 0, nq_agent_spec := spec,
     nq_updated_at := now\<rparr>"

definition upsert_priority_row ::
  "time \<Rightarrow> string \<Rightarrow> string \<Rightarrow> agent_spec \<Rightarrow> runtime_store \<Rightarrow> runtime_store" where
  "upsert_priority_row now tid nid spec s =
     (if List.find (node_is tid nid) (rs_nodes s) = None
      then upd_nodes (\<lambda>ns. ns @ [priority_node_row now tid nid spec]) s
      else upd_nodes (update_where (node_is tid nid) (repriority_row now spec)) s)"

definition upsert_priority_node ::
  "time \<Rightarrow> string \<Rightarrow> string \<Rightarrow> agent_spec \<Rightarrow> runtime_store \<Rightarrow> (sched_error + unit) \<times> runtime_store" where
  "upsert_priority_node now tid nid spec s =
     (if tid = '''' \<or> nid = '''' then (Inl (ValidationError ''topic_id and node_id are required''), s)
      else (case ensure_topic now tid s of
        Inl e \<Rightarrow> (Inl e, s)
      | Inr s1 \<Rightarrow> (Inr (), set_topic_priority_node now tid nid (upsert_priority_row now tid nid spec s1))))"

definition ready_row :: "time \<Rightarrow> node_queue_state \<Rightarrow> node_queue_state" where
  "ready_row now r = r\<lparr>nq_status := NodeStatusReady, nq_priority_rank := 0,
     nq_priority_label := PriorityNodeLabel, nq_entered_priority_at := now, nq_updated_at := now\<rparr>"

definition mark_priority_node_ready ::
  "time \<Rightarrow> string \<Rightarrow> runtime_store \<Rightarrow> (sched_error + unit) \<times> runtime_store" where
  "mark_priority_node_ready now tid s =
     (case get_topic tid s of
        Inl e \<Rightarrow> (Inl e, s)
      | Inr topic \<Rightarrow> (case tc_priority_node_id topic of
          None \<Rightarrow> (Inl (ValidationError ''priority node is not set''), s)
        | Some nid \<Rightarrow> (Inr (), upd_nodes (update_where (node_is tid nid) (ready_row now)) s)))"

definition clear_priority_dirty :: "time \<Rightarrow> string \<Rightarrow> string option \<Rightarrow> runtime_store \<Rightarrow> runtime_store" where
  "clear_priority_dirty now tid err = upd_topics (update_where (topic_is tid)
     (\<lambda>t. t\<lparr>tc_priority_dirty := False, tc_last_priority_error := nullable_string err,
            tc_updated_at := now\<rparr>))"

definition assigned_row :: "time \<Rightarrow> worker_priority_assignment \<Rightarrow> node_queue_state \<Rightarrow> node_queue_state" where
  "assigned_row now a r = r\<lparr>nq_priority_label := wa_label a, nq_priority_rank := wa_rank a,
     nq_entered_priority_at := now, nq_updated_at := now\<rparr>"

fun apply_assignments ::
  "time \<Rightarrow> string \<Rightarrow> worker_priority_assignment list \<Rightarrow> node_queue_state list \<Rightarrow> node_queue_state list" where
  "apply_assignments now tid [] ns = ns"
| "apply_assignments now tid (a # as) ns =
     apply_assignments now tid as
       (if wa_node_id a = '''' then ns
        else update_where (\<lambda>r. node_is tid (wa_node_id a) r \<and> \<not> nq_is_priority_node r)
          (assigned_row now a) ns)"

definition planned_topic :: "time \<Rightarrow> topic_control_state \<Rightarrow> topic_control_state" where
  "planned_topic now t = t\<lparr>tc_priority_dirty := False, tc_last_priority_error := None,
     tc_priority_plan_version := tc_priority_plan_version t + 1, tc_updated_at := now\<rparr>"

definition succeeded_row :: "time \<Rightarrow> node_queue_state \<Rightarrow> node_queue_state" where
  "succeeded_row now r = r\<lparr>nq_status := NodeStatusSucceeded, nq_updated_at := now\<rparr>"

definition finish_priority_node :: "time \<Rightarrow> string \<Rightarrow> string option \<Rightarrow> runtime_store \<Rightarrow> runtime_store" where
  "finish_priority_node now tid priority_node s = (case priority_node of
     None \<Rightarrow> s
   | Some nid \<Rightarrow> upd_nodes (update_where (node_is tid nid) (succeeded_row now)) s)"

definition apply_priority_plan_tx ::
  "time \<Rightarrow> string \<Rightarrow> worker_priority_assignment list \<Rightarrow> runtime_store \<Rightarrow> sched_error + unit \<times> runtime_store" where
  "apply_priority_plan_tx now tid as s =
     (let s1 = upd_nodes (apply_assignments now tid as) s;
          s2 = upd_topics (update_where (topic_is tid) (planned_topic now)) s1
      in and_then (get_topic tid s2) (\<lambda>topic.
           Inr ((), finish_priority_node now tid (tc_priority_node_id topic) s2)))"

definition apply_priority_plan ::
  "time \<Rightarrow> string \<Rightarrow> worker_priority_assignment list \<Rightarrow> runtime_store \<Rightarrow> (sched_error + unit) \<times> runtime_store" where
  "apply_priority_plan now tid as = run_tx (apply_priority_plan_tx now tid as)"

definition set_node_session_id :: "time \<Rightarrow> string \<Rightarrow> string \<Rightarrow> string \<Rightarrow> runtime_store \<Rightarrow> runtime_store" where
  "set_node_session_id now tid nid sid = upd_nodes (update_where (node_is tid nid)
     (\<lambda>r. r\<lparr>nq_session_id := Some sid, nq_updated_at := now\<rparr>))"

text \<open>\<open>syncTopicRunningNodeIDsTx\<close>: an empty \<open>current\<close> keeps the stored one (\<open>COALESCE\<close>).\<close>

definition running_ids :: "string \<Rightarrow> node_queue_state list \<Rightarrow> string list" where
  "running_ids tid ns =
     map nq_node_id (filter (\<lambda>r. nq_topic_id r = tid \<and> nq_status r = NodeStatusRunning) ns)"

definition synced_topic :: "time \<Rightarrow> string list \<Rightarrow> string \<Rightarrow> topic_control_state \<Rightarrow> topic_control_state" where
  "synced_topic now ids current t = t\<lparr>tc_running_node_ids := ids,
     tc_current_node_id := (if current \<noteq> '''' then Some current else tc_current_node_id t),
     tc_updated_at := now\<rparr>"

definition sync_topic_running_node_ids :: "time \<Rightarrow> string \<Rightarrow> string \<Rightarrow> runtime_store \<Rightarrow> runtime_store" where
  "sync_topic_running_node_ids now tid current s =
     upd_topics (update_where (topic_is tid)
       (synced_topic now (running_ids tid (rs_nodes s)) current)) s"

definition get_topic_current_node :: "string \<Rightarrow> runtime_store \<Rightarrow> sched_error + string option" where
  "get_topic_current_node tid s = (case List.find (topic_is tid) (rs_topics s) of
     None \<Rightarrow> Inl ErrNotFound
   | Some t \<Rightarrow> Inr (nullable_string (tc_current_node_id t)))"

definition running_row :: "time \<Rightarrow> node_queue_state \<Rightarrow> node_queue_state" where
  "running_row now r = r\<lparr>nq_status := NodeStatusRunning, nq_updated_at := now\<rparr>"

definition mark_node_running :: "time \<Rightarrow> string \<Rightarrow> string \<Rightarrow> runtime_store \<Rightarrow> runtime_store" where
  "mark_node_running now tid nid s =
     sync_topic_running_node_ids now tid nid
       (upd_nodes (update_where (node_is tid nid) (running_row now)) s)"

definition finished_row :: "time \<Rightarrow> node_status \<Rightarrow> node_queue_state \<Rightarrow> node_queue_state" where
  "finished_row now status r = r\<lparr>nq_status := status, nq_last_worked_at := Some now, nq_updated_at := now\<rparr>"

definition worked_topic :: "time \<Rightarrow> string \<Rightarrow> int \<Rightarrow> topic_control_state \<Rightarrow> topic_control_state" where
  "worked_topic now nid add t = t\<lparr>tc_last_worked_node_id := Some nid, tc_last_worked_at := Some now,
     tc_current_node_id := Some nid, tc_switch_count := tc_switch_count t + add, tc_updated_at := now\<rparr>"

definition count_worked :: "time \<Rightarrow> string \<Rightarrow> string \<Rightarrow> string option \<Rightarrow> runtime_store \<Rightarrow> runtime_store" where
  "count_worked now tid nid current =
     upd_topics (update_where (topic_is tid) (worked_topic now nid (if current = Some nid then 0 else 1)))"

definition mark_node_finished_tx ::
  "time \<Rightarrow> string \<Rightarrow> string \<Rightarrow> node_status \<Rightarrow> runtime_store \<Rightarrow> sched_error + unit \<times> runtime_store" where
  "mark_node_finished_tx now tid nid status s =
     (let s1 = upd_nodes (update_where (node_is tid nid) (finished_row now status)) s;
          s2 = sync_topic_running_node_ids now tid '''' s1
      in and_then (get_topic_current_node tid s2) (\<lambda>current.
           Inr ((), count_worked now tid nid current s2)))"

definition mark_node_finished ::
  "time \<Rightarrow> string \<Rightarrow> string \<Rightarrow> node_status \<Rightarrow> runtime_store \<Rightarrow> (sched_error + unit) \<times> runtime_store" where
  "mark_node_finished now tid nid status = run_tx (mark_node_finished_tx now tid nid status)"

definition record_dispatch :: "time \<Rightarrow> dispatch_record \<Rightarrow> runtime_store \<Rightarrow> runtime_store" where
  "record_dispatch now d s = s\<lparr>rs_history := rs_history s @ [\<lparr>dh_request_id = dr_request_id d,
     dh_topic_id = dr_topic_id d, dh_node_id = dr_node_id d,
     dh_event_id = nullable_string (Some (dr_event_id d)), dh_status = dr_status d,
     dh_error_message = nullable_string (Some (dr_error d)), dh_retryable = dr_retryable d,
     dh_duration_ms = dr_duration_ms d, dh_created_at = now\<rparr>]\<rparr>"

section \<open>Queue levels\<close>

fun promote_level :: "topic_queue_level \<Rightarrow> topic_queue_level" where
  "promote_level TopicQueueLevelL3 = TopicQueueLevelL2"
| "promote_level TopicQueueLevelL2 = TopicQueueLevelL1"
| "promote_level TopicQueueLevelL1 = TopicQueueLevelL0"
| "promote_level l = TopicQueueLevelL0"

fun demote_level :: "topic_queue_level \<Rightarrow> topic_queue_level" where
  "demote_level TopicQueueLevelL0 = TopicQueueLevelL1"
| "demote_level TopicQueueLevelL1 = TopicQueueLevelL2"
| "demote_level TopicQueueLevelL2 = TopicQueueLevelL3"
| "demote_level l = TopicQueueLevelL3"

definition set_topic_queue_level ::
  "time \<Rightarrow> string \<Rightarrow> topic_queue_level \<Rightarrow> runtime_store \<Rightarrow> (sched_error + unit) \<times> runtime_store" where
  "set_topic_queue_level now tid level s =
     (case level_validate level of
        Inl e \<Rightarrow> (Inl e, s)
      | Inr _ \<Rightarrow> (Inr (), upd_topics (update_where (topic_is tid)
          (\<lambda>t. t\<lparr>tc_queue_level := level, tc_updated_at := now\<rparr>)) s))"

definition touch_topic_served :: "time \<Rightarrow> string \<Rightarrow> runtime_store \<Rightarrow> runtime_store" where
  "touch_topic_served now tid = upd_topics (update_where (topic_is tid)
     (\<lambda>t. t\<lparr>tc_last_served_at := Some now, tc_updated_at := now\<rparr>))"

definition shift_topic ::
  "(topic_queue_level \<Rightarrow> topic_queue_level) \<Rightarrow> time \<Rightarrow> string \<Rightarrow> runtime_store \<Rightarrow> (sched_error + unit) \<times> runtime_store" where
  "shift_topic shift now tid s =
     (case get_topic tid s of
        Inl e \<Rightarrow> (Inl e, s)
      | Inr topic \<Rightarrow>
          if shift (tc_queue_level topic) = tc_queue_level topic then (Inr (), s)
          else set_topic_queue_level now tid (shift (tc_queue_level topic)) s)"

definition promote_topic :: "time \<Rightarrow> string \<Rightarrow> runtime_store \<Rightarrow> (sched_error + unit) \<times> runtime_store" where
  "promote_topic = shift_topic promote_level"

definition demote_topic :: "time \<Rightarrow> string \<Rightarrow> runtime_store \<Rightarrow> (sched_error + unit) \<times> runtime_store" where
  "demote_topic = shift_topic demote_level"

definition ensure_priority_dirty :: "time \<Rightarrow> string \<Rightarrow> string \<Rightarrow> runtime_store \<Rightarrow> runtime_store" where
  "ensure_priority_dirty now tid reason = upd_topics (update_where (topic_is tid)
     (\<lambda>t. t\<lparr>tc_priority_dirty := True, tc_last_priority_error := Some reason, tc_updated_at := now\<rparr>))"

definition aged :: "time \<Rightarrow> time \<Rightarrow> topic_control_state \<Rightarrow> bool" where
  "aged now threshold t \<longleftrightarrow>
     (case tc_last_served_at t of None \<Rightarrow> False | Some at \<Rightarrow> \<not> now - at < threshold)"

fun promote_loop ::
  "time \<Rightarrow> time \<Rightarrow> topic_control_state list \<Rightarrow> runtime_store \<Rightarrow> (sched_error + unit) \<times> runtime_store" where
  "promote_loop now threshold [] s = (Inr (), s)"
| "promote_loop now threshold (t # ts) s =
     (if \<not> aged now threshold t then promote_loop now threshold ts s
      else (case promote_topic now (tc_topic_id t) s of
          (Inl e, s1) \<Rightarrow> (Inl e, s1)
        | (Inr _, s1) \<Rightarrow> promote_loop now threshold ts s1))"

definition promote_aged_topics ::
  "time \<Rightarrow> time \<Rightarrow> runtime_store \<Rightarrow> (sched_error + unit) \<times> runtime_store" where
  "promote_aged_topics now threshold s =
     (if threshold \<le> 0 then (Inr (), s)
      else (case list_topics s of
          Inl e \<Rightarrow> (Inl e, s)
        | Inr topics \<Rightarrow> promote_loop now threshold topics s))"

end
