(* ===== verification/RunStoreInv.thy ===== *)
theory RunStoreInv
  imports RunStore
begin

text \<open>
  The invariant of the runtime store and its consequences. \<open>rows_ok\<close> is what every operation
  of RunStore keeps: keys are unique, every node has its topic row, a topic's level is one of
  the four declared ones, its node pointers name nodes of the topic, and no running node is
  missing from the topic's list of running ids. \<open>content_ok\<close> is what a snapshot needs besides.
\<close>

section \<open>The invariant\<close>

definition node_ids_of :: "string \<Rightarrow> node_queue_state list \<Rightarrow> string set" where
  "node_ids_of tid ns = {i. (tid, i) \<in> set (map node_key ns)}"

definition topic_row_ok :: "node_queue_state list \<Rightarrow> topic_control_state \<Rightarrow> bool" where
  "topic_row_ok ns t \<longleftrightarrow>
     level_validate (tc_queue_level t) = Inr () \<and> 0 \<le> tc_switch_count t \<and>
     distinct (tc_running_node_ids t) \<and>
     set (tc_running_node_ids t) \<subseteq> node_ids_of (tc_topic_id t) ns \<and>
     set_option (tc_current_node_id t) \<subseteq> node_ids_of (tc_topic_id t) ns \<and>
     set_option (tc_last_worked_node_id t) \<subseteq> node_ids_of (tc_topic_id t) ns \<and>
     set_option (tc_priority_node_id t) \<subseteq> node_ids_of (tc_topic_id t) ns \<and>
     set (running_ids (tc_topic_id t) ns) \<subseteq> set (tc_running_node_ids t)"

definition rows_ok :: "runtime_store \<Rightarrow> bool" where
  "rows_ok s \<longleftrightarrow>
     distinct (map tc_topic_id (rs_topics s)) \<and> distinct (map node_key (rs_nodes s)) \<and>
     (\<forall>n\<in>set (rs_nodes s). nq_topic_id n \<in> set (map tc_topic_id (rs_topics s))) \<and>
     (\<forall>t\<in>set (rs_topics s). topic_row_ok (rs_nodes s) t)"

text \<open>The steps of the store: any operation, at any time, with any arguments. A node is marked
  running or finished only when it is in the queue, as \<open>dispatchOne\<close> checks with \<open>GetNode\<close>.\<close>

inductive runtime_step :: "runtime_store \<Rightarrow> runtime_store \<Rightarrow> bool" where
  st_enqueue: "upsert_enqueue_node now req s = (r, t) \<Longrightarrow> runtime_step s t"
| st_priority_node: "upsert_priority_node now tid nid spec s = (r', t) \<Longrightarrow> runtime_step s t"
| st_ready: "mark_priority_node_ready now tid s = (r', t) \<Longrightarrow> runtime_step s t"
| st_clear: "runtime_step s (clear_priority_dirty now tid err s)"
| st_dirty: "runtime_step s (ensure_priority_dirty now tid reason s)"
| st_plan: "apply_priority_plan now tid plan s = (r', t) \<Longrightarrow> runtime_step s t"
| st_session: "runtime_step s (set_node_session_id now tid nid sid s)"
| st_running: "get_node tid nid s = Inr n \<Longrightarrow> runtime_step s (mark_node_running now tid nid s)"
| st_finished: "get_node tid nid s = Inr n \<Longrightarrow> mark_node_finished now tid nid status s = (r', t) \<Longrightarrow>
    runtime_step s t"
| st_record: "runtime_step s (record_dispatch now d s)"
| st_touch: "runtime_step s (touch_topic_served now tid s)"
| st_level: "set_topic_queue_level now tid level s = (r', t) \<Longrightarrow> runtime_step s t"
| st_promote: "promote_topic now tid s = (r', t) \<Longrightarrow> runtime_step s t"
| st_demote: "demote_topic now tid s = (r', t) \<Longrightarrow> runtime_step s t"
| st_aged: "promote_aged_topics now threshold s = (r', t) \<Longrightarrow> runtime_step s t"

section \<open>Generic preservation lemmas\<close>

lemma rows_okI:
  assumes "distinct (map tc_topic_id (rs_topics s))" and "distinct (map node_key (rs_nodes s))"
    and "\<And>n. n \<in> set (rs_nodes s) \<Longrightarrow> nq_topic_id n \<in> set (map tc_topic_id (rs_topics s))"
    and "\<And>t. t \<in> set (rs_topics s) \<Longrightarrow> topic_row_ok (rs_nodes s) t"
  shows "rows_ok s"
  using assms unfolding rows_ok_def by blast

lemma rows_okD:
  assumes "rows_ok s"
  shows "distinct (map tc_topic_id (rs_topics s))" and "distinct (map node_key (rs_nodes s))"
    and "n \<in> set (rs_nodes s) \<Longrightarrow> nq_topic_id n \<in> set (map tc_topic_id (rs_topics s))"
    and "t \<in> set (rs_topics s) \<Longrightarrow> topic_row_ok (rs_nodes s) t"
  using assms unfolding rows_ok_def by blast+

lemma node_ids_of_cong: "map node_key ns' = map node_key ns \<Longrightarrow> node_ids_of tid ns' = node_ids_of tid ns"
  unfolding node_ids_of_def by (simp only:)

lemma node_ids_ofI: "n \<in> set ns \<Longrightarrow> node_key n = (tid, i) \<Longrightarrow> i \<in> node_ids_of tid ns"
  unfolding node_ids_of_def by force

lemma keys_update:
  "(\<And>r. node_key (f r) = node_key r) \<Longrightarrow> map node_key (update_where p f ns) = map node_key ns"
  by (rule map_key_update_where)

lemma node_ids_of_update:
  "(\<And>r. node_key (f r) = node_key r) \<Longrightarrow> node_ids_of tid (update_where p f ns) = node_ids_of tid ns"
  by (rule node_ids_of_cong) (rule keys_update)

lemma running_idsE:
  assumes "i \<in> set (running_ids tid ns)"
  obtains n where "n \<in> set ns" and "node_key n = (tid, i)" and "nq_status n = NodeStatusRunning"
  using assms unfolding running_ids_def by auto

lemma running_idsI:
  "n \<in> set ns \<Longrightarrow> node_key n = (tid, i) \<Longrightarrow> nq_status n = NodeStatusRunning \<Longrightarrow> i \<in> set (running_ids tid ns)"
  unfolding running_ids_def by auto

lemma running_ids_subset_ids: "set (running_ids tid ns) \<subseteq> node_ids_of tid ns"
  by (blast elim: running_idsE intro: node_ids_ofI)

lemma distinct_running_ids: "distinct (map node_key ns) \<Longrightarrow> distinct (running_ids tid ns)"
proof (induction ns)
  case (Cons n ns)
  have "nq_node_id n \<notin> set (running_ids (nq_topic_id n) ns)"
  proof
    assume "nq_node_id n \<in> set (running_ids (nq_topic_id n) ns)"
    then obtain m where m: "m \<in> set ns" "node_key m = node_key n" by (elim running_idsE) auto
    from m(1) have "node_key m \<in> set (map node_key ns)" by simp
    moreover from Cons.prems have "node_key n \<notin> set (map node_key ns)" by simp
    ultimately show False using m(2) by simp
  qed
  then show ?case using Cons by (auto simp: running_ids_def)
qed (simp add: running_ids_def)

lemma running_ids_update_subset:
  assumes key: "\<And>r. node_key (f r) = node_key r"
    and st: "\<And>r. nq_status (f r) = NodeStatusRunning \<Longrightarrow> nq_status r = NodeStatusRunning"
  shows "set (running_ids tid (update_where p f ns)) \<subseteq> set (running_ids tid ns)"
proof
  fix i
  assume "i \<in> set (running_ids tid (update_where p f ns))"
  then obtain n where n: "n \<in> set (update_where p f ns)" "node_key n = (tid, i)"
    "nq_status n = NodeStatusRunning" by (rule running_idsE)
  then obtain q where q: "q \<in> set ns" "n = (if p q then f q else q)"
    unfolding set_update_where by blast
  have "node_key q = (tid, i)" "nq_status q = NodeStatusRunning"
    using n q(2) key[of q] st[of q] by (cases "p q"; simp)+
  with q(1) show "i \<in> set (running_ids tid ns)" by (rule running_idsI)
qed

lemma running_ids_other_topic:
  assumes key: "\<And>r. node_key (f r) = node_key r" and "x \<noteq> tid"
  shows "running_ids x (update_where (node_is tid nid) f ns) = running_ids x ns"
proof -
  have "nq_topic_id (f r) = nq_topic_id r" "nq_node_id (f r) = nq_node_id r" for r
    using key[of r] by simp_all
  with assms(2) show ?thesis by (induction ns) (auto simp: running_ids_def)
qed

lemma topic_row_ok_mono:
  assumes "topic_row_ok ns t" and "node_ids_of (tc_topic_id t) ns \<subseteq> node_ids_of (tc_topic_id t) ns'"
    and "set (running_ids (tc_topic_id t) ns') \<subseteq> set (running_ids (tc_topic_id t) ns)"
  shows "topic_row_ok ns' t"
  using assms unfolding topic_row_ok_def by blast

lemma rows_ok_upd_nodes:
  assumes ok: "rows_ok s" and key: "\<And>r. node_key (f r) = node_key r"
    and st: "\<And>r. nq_status (f r) = NodeStatusRunning \<Longrightarrow> nq_status r = NodeStatusRunning"
  shows "rows_ok (upd_nodes (update_where p f) s)"
proof (rule rows_okI)
  show "topic_row_ok (rs_nodes (upd_nodes (update_where p f) s)) t"
    if "t \<in> set (rs_topics (upd_nodes (update_where p f) s))" for t
  proof -
    have "t \<in> set (rs_topics s)" using that by simp
    note row = rows_okD(4)[OF ok this]
    have "topic_row_ok (update_where p f (rs_nodes s)) t"
      by (rule topic_row_ok_mono[OF row equalityD2[OF node_ids_of_update[OF key]]
            running_ids_update_subset[OF key st]])
    then show ?thesis by simp
  qed
  show "nq_topic_id n \<in> set (map tc_topic_id (rs_topics (upd_nodes (update_where p f) s)))"
    if n: "n \<in> set (rs_nodes (upd_nodes (update_where p f) s))" for n
  proof -
    obtain q where q: "q \<in> set (rs_nodes s)" "n = (if p q then f q else q)"
      using n by (auto simp: set_update_where)
    then have "nq_topic_id n = nq_topic_id q" using key[of q] by simp
    with rows_okD(3)[OF ok q(1)] show ?thesis by simp
  qed
qed (use rows_okD(1,2)[OF ok] keys_update[OF key] in simp_all)

lemma rows_ok_upd_topics:
  assumes ok: "rows_ok s" and id: "\<And>t. tc_topic_id (g t) = tc_topic_id t"
    and row: "\<And>t. t \<in> set (rs_topics s) \<Longrightarrow> p t \<Longrightarrow> topic_row_ok (rs_nodes s) t \<Longrightarrow>
       topic_row_ok (rs_nodes s) (g t)"
  shows "rows_ok (upd_topics (update_where p g) s)"
proof -
  have ids: "map tc_topic_id (update_where p g (rs_topics s)) = map tc_topic_id (rs_topics s)"
    using id by (rule map_key_update_where)
  show ?thesis
  proof (rule rows_okI)
    show "topic_row_ok (rs_nodes (upd_topics (update_where p g) s)) t"
      if t: "t \<in> set (rs_topics (upd_topics (update_where p g) s))" for t
    proof -
      obtain q where q: "q \<in> set (rs_topics s)" "t = (if p q then g q else q)"
        using t by (auto simp: set_update_where)
      then show ?thesis using row[OF q(1)] rows_okD(4)[OF ok q(1)] by simp
    qed
    show "nq_topic_id n \<in> set (map tc_topic_id (rs_topics (upd_topics (update_where p g) s)))"
      if "n \<in> set (rs_nodes (upd_topics (update_where p g) s))" for n
    proof -
      have "n \<in> set (rs_nodes s)" using that by simp
      then have "nq_topic_id n \<in> set (map tc_topic_id (rs_topics s))" by (rule rows_okD(3)[OF ok])
      then show ?thesis unfolding ids[symmetric] by simp
    qed
  qed (use rows_okD(1,2)[OF ok] ids in simp_all)
qed

lemma rows_ok_insert_topic:
  assumes ok: "rows_ok s" and "List.find (topic_is tid) (rs_topics s) = None"
  shows "rows_ok (upd_topics (\<lambda>ts. ts @ [new_topic_row now tid]) s)"
proof -
  have new: "tid \<notin> set (map tc_topic_id (rs_topics s))"
    using assms(2) by (auto simp: find_None_iff)
  then have "running_ids tid (rs_nodes s) = []"
    using rows_okD(3)[OF ok] by (metis (no_types, lifting) Pair_inject list.set_intros(1) neq_Nil_conv running_idsE)
  then have "topic_row_ok (rs_nodes s) (new_topic_row now tid)"
    by (simp add: topic_row_ok_def new_topic_row_def)
  then show ?thesis
    using new rows_okD[OF ok] by (intro rows_okI) (auto simp: new_topic_row_def)
qed

lemma rows_ok_insert_node:
  assumes ok: "rows_ok s"
    and new: "List.find (node_is (nq_topic_id r) (nq_node_id r)) (rs_nodes s) = None"
    and fk: "nq_topic_id r \<in> set (map tc_topic_id (rs_topics s))" and st: "nq_status r \<noteq> NodeStatusRunning"
  shows "rows_ok (upd_nodes (\<lambda>ns. ns @ [r]) s)"
proof (rule rows_okI)
  show "topic_row_ok (rs_nodes (upd_nodes (\<lambda>ns. ns @ [r]) s)) t"
    if "t \<in> set (rs_topics (upd_nodes (\<lambda>ns. ns @ [r]) s))" for t
  proof -
    have "t \<in> set (rs_topics s)" using that by simp
    note row = rows_okD(4)[OF ok this]
    have "topic_row_ok (rs_nodes s @ [r]) t"
      by (rule topic_row_ok_mono[OF row]) (use st in \<open>auto simp: node_ids_of_def running_ids_def\<close>)
    then show ?thesis by simp
  qed
  show "distinct (map node_key (rs_nodes (upd_nodes (\<lambda>ns. ns @ [r]) s)))"
    using new rows_okD(2)[OF ok] by (auto simp: find_None_iff)
qed (use rows_okD[OF ok] fk in auto)

text \<open>A status change followed by the synchronisation of the running ids, as both
  \<open>MarkNodeRunning\<close> and \<open>MarkNodeFinished\<close> do.\<close>

lemma rows_ok_sync:
  assumes ok: "rows_ok s" and key: "\<And>r. node_key (f r) = node_key r"
    and g: "\<And>t. topic_row_ok (rs_nodes s) t \<Longrightarrow> topic_is tid t \<Longrightarrow>
      tc_topic_id (g t) = tid \<and> level_validate (tc_queue_level (g t)) = Inr () \<and>
      0 \<le> tc_switch_count (g t) \<and>
      tc_running_node_ids (g t) = running_ids tid (update_where (node_is tid nid) f (rs_nodes s)) \<and>
      set_option (tc_current_node_id (g t)) \<subseteq> node_ids_of tid (rs_nodes s) \<and>
      set_option (tc_last_worked_node_id (g t)) \<subseteq> node_ids_of tid (rs_nodes s) \<and>
      set_option (tc_priority_node_id (g t)) \<subseteq> node_ids_of tid (rs_nodes s)"
  shows "rows_ok (upd_topics (update_where (topic_is tid) g)
           (upd_nodes (update_where (node_is tid nid) f) s))"
proof -
  let ?ns = "update_where (node_is tid nid) f (rs_nodes s)"
  let ?g = "\<lambda>t. if topic_is tid t then g t else t"
  note ids = node_ids_of_update[OF key] and keys = keys_update[OF key]
  have id: "tc_topic_id (?g t) = tc_topic_id t" if "t \<in> set (rs_topics s)" for t
    using g rows_okD(4)[OF ok that] by simp
  then have tids: "map tc_topic_id (map ?g (rs_topics s)) = map tc_topic_id (rs_topics s)" by simp
  have row: "topic_row_ok ?ns (?g t)" if t: "t \<in> set (rs_topics s)" for t
  proof (cases "topic_is tid t")
    case True
    have "distinct (running_ids tid ?ns)"
      using rows_okD(2)[OF ok] by (intro distinct_running_ids) (simp only: keys)
    moreover note g[OF rows_okD(4)[OF ok t] True] running_ids_subset_ids[of tid ?ns]
    ultimately show ?thesis using True unfolding topic_row_ok_def by (simp add: ids)
  next
    case False
    then have "running_ids (tc_topic_id t) ?ns = running_ids (tc_topic_id t) (rs_nodes s)"
      by (intro running_ids_other_topic[OF key]) simp
    with False rows_okD(4)[OF ok t] show ?thesis unfolding topic_row_ok_def by (simp add: ids)
  qed
  have nodes: "nq_topic_id n \<in> set (map tc_topic_id (rs_topics s))" if n: "n \<in> set ?ns" for n
  proof -
    obtain q where q: "q \<in> set (rs_nodes s)" "n = (if node_is tid nid q then f q else q)"
      using n by (auto simp: set_update_where)
    then have "nq_topic_id n = nq_topic_id q" using key[of q] by simp
    with rows_okD(3)[OF ok q(1)] show ?thesis by simp
  qed
  show ?thesis
  proof (rule rows_okI)
    show "topic_row_ok (rs_nodes (upd_topics (update_where (topic_is tid) g)
        (upd_nodes (update_where (node_is tid nid) f) s))) t"
      if "t \<in> set (rs_topics (upd_topics (update_where (topic_is tid) g)
        (upd_nodes (update_where (node_is tid nid) f) s)))" for t
    proof -
      note in_table = that
      obtain q where "q \<in> set (rs_topics s)" "t = ?g q"
      proof -
        assume obt: "\<And>q. q \<in> set (rs_topics s) \<Longrightarrow> t = ?g q \<Longrightarrow> thesis"
        from in_table have "t \<in> set (update_where (topic_is tid) g (rs_topics s))" by simp
        then show thesis using obt unfolding set_update_where by blast
      qed
      then show ?thesis using row by simp
    qed
    show "nq_topic_id n \<in> set (map tc_topic_id (rs_topics (upd_topics (update_where (topic_is tid) g)
        (upd_nodes (update_where (node_is tid nid) f) s))))"
      if "n \<in> set (rs_nodes (upd_topics (update_where (topic_is tid) g)
        (upd_nodes (update_where (node_is tid nid) f) s)))" for n
    proof -
      have "n \<in> set ?ns" using that by simp
      then have "nq_topic_id n \<in> set (map tc_topic_id (map ?g (rs_topics s)))"
        unfolding tids by (rule nodes)
      then show ?thesis by (simp add: update_where_def)
    qed
  qed (use rows_okD(1,2)[OF ok] keys tids in \<open>simp_all add: update_where_def del: map_map\<close>)
qed

section \<open>Every operation keeps the invariant\<close>

lemma find_topic_None: "List.find (topic_is tid) ts = None \<longleftrightarrow> tid \<notin> set (map tc_topic_id ts)"
  by (auto simp: find_None_iff)

lemma find_topic_Some:
  assumes "List.find (topic_is tid) ts = Some t"
  shows "t \<in> set ts" and "tc_topic_id t = tid"
  using find_SomeD[OF assms] by simp_all

lemma ensure_topic_Inr:
  assumes "ensure_topic now tid s = Inr s1"
  shows "tid \<noteq> ''''" and "rs_nodes s1 = rs_nodes s" and "tid \<in> set (map tc_topic_id (rs_topics s1))"
    and "rows_ok s \<Longrightarrow> rows_ok s1" and "set (map tc_topic_id (rs_topics s)) \<subseteq> set (map tc_topic_id (rs_topics s1))"
    and "rs_history s1 = rs_history s"
proof -
  have tid: "tid \<noteq> ''''" using assms by (auto simp: ensure_topic_def)
  have s1: "s1 = (if List.find (topic_is tid) (rs_topics s) = None
                then upd_topics (\<lambda>ts. ts @ [new_topic_row now tid]) s else s)"
    using assms tid by (simp add: ensure_topic_def)
  show "tid \<noteq> ''''" by fact
  show "rs_nodes s1 = rs_nodes s" "rs_history s1 = rs_history s"
    "set (map tc_topic_id (rs_topics s)) \<subseteq> set (map tc_topic_id (rs_topics s1))"
    by (auto simp: s1)
  show "tid \<in> set (map tc_topic_id (rs_topics s1))"
    unfolding s1 find_topic_None by (auto simp: new_topic_row_def)
  show "rows_ok s \<Longrightarrow> rows_ok s1" using rows_ok_insert_topic[of s tid now] by (simp add: s1)
qed

lemma rows_ok_topic_frame:
  assumes "rows_ok s"
    and "\<And>t. tc_topic_id (g t) = tc_topic_id t" and "\<And>t. tc_queue_level (g t) = tc_queue_level t"
    and "\<And>t. tc_switch_count (g t) = tc_switch_count t"
    and "\<And>t. tc_running_node_ids (g t) = tc_running_node_ids t"
    and "\<And>t. tc_current_node_id (g t) = tc_current_node_id t"
    and "\<And>t. tc_last_worked_node_id (g t) = tc_last_worked_node_id t"
    and "\<And>t. tc_priority_node_id (g t) = tc_priority_node_id t"
  shows "rows_ok (upd_topics (update_where p g) s)"
  by (rule rows_ok_upd_topics[OF assms(1)]) (simp_all add: assms(2-) topic_row_ok_def)

lemma rows_ok_mark_topic_dirty: "rows_ok s \<Longrightarrow> rows_ok (mark_topic_dirty now tid s)"
  unfolding mark_topic_dirty_def by (rule rows_ok_topic_frame) simp_all

lemma rows_ok_enqueue_tx:
  assumes ok: "rows_ok s" and fk: "eq_topic_id req \<in> set (map tc_topic_id (rs_topics s))"
    and tx: "enqueue_tx now req s = Inr (c, t)"
  shows "rows_ok t"
proof -
  let ?p = "node_is (eq_topic_id req) (eq_node_id req)"
  let ?ins = "upd_nodes (\<lambda>ns. ns @ [enqueued_row now req]) s"
  let ?upd = "upd_nodes (update_where ?p (reenqueue_row now req)) s"
  have ins: "rows_ok ?ins" if "List.find ?p (rs_nodes s) = None"
    by (rule rows_ok_insert_node[OF ok]) (use fk that in \<open>simp_all add: enqueued_row_def\<close>)
  have upd: "rows_ok ?upd"
    by (rule rows_ok_upd_nodes[OF ok]) (simp_all add: reenqueue_row_def)
  define s1 where "s1 = (if List.find ?p (rs_nodes s) = None then ?ins else ?upd)"
  have ok1: "rows_ok s1" using ins upd by (simp add: s1_def)
  have "t = (if eq_mark_priority_dirty req then mark_topic_dirty now (eq_topic_id req) s1 else s1)"
    using tx unfolding enqueue_tx_def and_then_Inr_iff Let_def s1_def by blast
  then show ?thesis using ok1 rows_ok_mark_topic_dirty[OF ok1] by simp
qed

lemma rows_ok_upsert_enqueue_node:
  assumes ok: "rows_ok s" and op: "upsert_enqueue_node now req s = (r, t)"
  shows "rows_ok t"
proof (cases "eq_topic_id req = '''' \<or> eq_node_id req = '''' \<or> eq_node_name req = '''' \<or>
    \<not> is_ok (priority_validate (eq_priority req))")
  case True
  then have "t = s"
    using op by (cases "priority_validate (eq_priority req)") (auto simp: upsert_enqueue_node_def split: if_splits)
  with ok show ?thesis by simp
next
  case False
  let ?req = "req\<lparr>eq_session_id := trim_space (eq_session_id req)\<rparr>"
  obtain s1 where s1: "ensure_topic now (eq_topic_id req) s = Inr s1"
    using False by (auto simp: ensure_topic_def)
  have res: "run_tx (enqueue_tx now ?req) s1 = (r, t)"
    using op False s1 by (auto simp: upsert_enqueue_node_def result_simps)
  have ok1: "rows_ok s1" using ok ensure_topic_Inr(4)[OF s1] by simp
  show ?thesis
  proof (cases rule: run_tx_cases[of "enqueue_tx now ?req" s1])
    case rollback
    with res ok1 show ?thesis by simp
  next
    case (commit c s')
    then show ?thesis
      using res rows_ok_enqueue_tx[OF ok1 _ commit(1)] ensure_topic_Inr(3)[OF s1] by simp
  qed
qed

lemmas row_defs = enqueued_row_def reenqueue_row_def priority_node_row_def repriority_row_def
  ready_row_def assigned_row_def succeeded_row_def running_row_def finished_row_def
  planned_topic_def synced_topic_def worked_topic_def new_topic_row_def

lemma rows_ok_upsert_priority_row:
  assumes ok: "rows_ok s" and fk: "tid \<in> set (map tc_topic_id (rs_topics s))"
  shows "rows_ok (upsert_priority_row now tid nid spec s)"
proof -
  have "rows_ok (upd_nodes (\<lambda>ns. ns @ [priority_node_row now tid nid spec]) s)"
    if "List.find (node_is tid nid) (rs_nodes s) = None"
    by (rule rows_ok_insert_node[OF ok]) (use that fk in \<open>simp_all add: row_defs\<close>)
  moreover have "rows_ok (upd_nodes (update_where (node_is tid nid) (repriority_row now spec)) s)"
    by (rule rows_ok_upd_nodes[OF ok]) (simp_all add: row_defs)
  ultimately show ?thesis unfolding upsert_priority_row_def by simp
qed

lemma rows_ok_set_topic_priority_node:
  assumes "rows_ok s" and "nid \<in> node_ids_of tid (rs_nodes s)"
  shows "rows_ok (set_topic_priority_node now tid nid s)"
  unfolding set_topic_priority_node_def
  by (rule rows_ok_upd_topics[OF assms(1)]) (use assms(2) in \<open>simp_all add: topic_row_ok_def\<close>)

lemma upsert_priority_row_queued: "nid \<in> node_ids_of tid (rs_nodes (upsert_priority_row now tid nid spec s))"
proof (cases "List.find (node_is tid nid) (rs_nodes s)")
  case None
  then show ?thesis by (simp add: upsert_priority_row_def node_ids_of_def priority_node_row_def)
next
  case (Some r)
  then have "nid \<in> node_ids_of tid (rs_nodes s)"
    using find_SomeD[OF Some] by (intro node_ids_ofI[of r]) simp_all
  then show ?thesis
    using Some node_ids_of_update[of "repriority_row now spec" tid "node_is tid nid" "rs_nodes s"]
    by (simp add: upsert_priority_row_def repriority_row_def)
qed

lemma rows_ok_upsert_priority_node:
  assumes ok: "rows_ok s" and op: "upsert_priority_node now tid nid spec s = (r, t)"
  shows "rows_ok t"
proof (cases "tid = '''' \<or> nid = ''''")
  case True
  then show ?thesis using op ok by (simp add: upsert_priority_node_def)
next
  case False
  obtain s1 where s1: "ensure_topic now tid s = Inr s1" using False by (auto simp: ensure_topic_def)
  have "t = set_topic_priority_node now tid nid (upsert_priority_row now tid nid spec s1)"
    using op False s1 by (simp add: upsert_priority_node_def)
  with ensure_topic_Inr(3,4)[OF s1] ok show ?thesis
    by (simp add: rows_ok_set_topic_priority_node rows_ok_upsert_priority_row upsert_priority_row_queued)
qed

lemma rows_ok_mark_priority_node_ready:
  assumes ok: "rows_ok s" and op: "mark_priority_node_ready now tid s = (r, t)"
  shows "rows_ok t"
proof -
  have "rows_ok (upd_nodes (update_where (node_is tid nid) (ready_row now)) s)" for nid
    by (rule rows_ok_upd_nodes[OF ok]) (simp_all add: row_defs)
  then show ?thesis
    using op ok by (auto simp: mark_priority_node_ready_def split: sum.splits option.splits)
qed

text \<open>A plan's assignments are one update of the nodes: each business node gets the last one that names it.\<close>

lemma rows_ok_apply_assignments:
  "rows_ok s \<Longrightarrow> rows_ok (upd_nodes (apply_assignments now tid plan) s)"
proof (induction plan arbitrary: s)
  case (Cons a plan)
  let ?p = "\<lambda>r. node_is tid (wa_node_id a) r \<and> \<not> nq_is_priority_node r"
  have "rows_ok (upd_nodes (update_where ?p (assigned_row now a)) s)"
    by (rule rows_ok_upd_nodes[OF Cons.prems]) (simp_all add: row_defs)
  note step = Cons.IH[OF this] Cons.IH[OF Cons.prems]
  then show ?case by simp
qed simp

lemma rows_ok_apply_priority_plan:
  assumes ok: "rows_ok s" and op: "apply_priority_plan now tid plan s = (r, t)"
  shows "rows_ok t"
proof (cases rule: run_tx_cases[of "apply_priority_plan_tx now tid plan" s])
  case rollback
  then show ?thesis using op ok by (simp add: apply_priority_plan_def)
next
  case (commit c s')
  let ?s1 = "upd_nodes (apply_assignments now tid plan) s"
  define s2 where "s2 = upd_topics (update_where (topic_is tid) (planned_topic now)) ?s1"
  have ok2: "rows_ok s2"
    unfolding s2_def by (rule rows_ok_topic_frame[OF rows_ok_apply_assignments[OF ok]]) (simp_all add: row_defs)
  have "rows_ok (upd_nodes (update_where (node_is tid nid) (succeeded_row now)) s2)" for nid
    by (rule rows_ok_upd_nodes[OF ok2]) (simp_all add: row_defs)
  then have fin: "rows_ok (finish_priority_node now tid pn s2)" for pn
    using ok2 by (simp add: finish_priority_node_def split: option.split)
  obtain pn where "s' = finish_priority_node now tid pn s2"
    using commit(1) unfolding apply_priority_plan_tx_def and_then_Inr_iff Let_def s2_def[symmetric]
    by (metis Pair_inject sum.inject(2))
  moreover have "t = s'" using op commit(2) by (simp add: apply_priority_plan_def)
  ultimately show ?thesis using fin by simp
qed

lemma get_node_Inr:
  assumes "get_node tid nid s = Inr n"
  obtains r where "r \<in> set (rs_nodes s)" and "node_key r = (tid, nid)" and "n = scan_node r"
    and "List.find (node_is tid nid) (rs_nodes s) = Some r"
proof (cases "List.find (node_is tid nid) (rs_nodes s)")
  case None
  with assms show ?thesis by (simp add: get_node_def)
next
  case (Some r)
  then have "r \<in> set (rs_nodes s)" "node_key r = (tid, nid)" "n = scan_node r"
    using assms find_SomeD[OF Some] unfolding get_node_def by simp_all
  then show ?thesis using Some that by blast
qed

lemma get_node_id: "get_node tid nid s = Inr n \<Longrightarrow> nid \<in> node_ids_of tid (rs_nodes s)"
  by (erule get_node_Inr) (rule node_ids_ofI)

lemma rows_ok_mark_node_running:
  assumes ok: "rows_ok s" and id: "nid \<in> node_ids_of tid (rs_nodes s)"
  shows "rows_ok (mark_node_running now tid nid s)"
proof -
  have "rows_ok (upd_topics (update_where (topic_is tid)
      (synced_topic now (running_ids tid (update_where (node_is tid nid) (running_row now) (rs_nodes s))) nid))
      (upd_nodes (update_where (node_is tid nid) (running_row now)) s))"
    by (rule rows_ok_sync[OF ok]) (use id in \<open>auto simp: row_defs topic_row_ok_def\<close>)
  then show ?thesis by (simp add: mark_node_running_def sync_topic_running_node_ids_def)
qed

lemma update_where_twice:
  "(\<And>t. p t \<Longrightarrow> p (f t)) \<Longrightarrow> update_where p g (update_where p f rows) = update_where p (g \<circ> f) rows"
  by (induction rows) auto

text \<open>The state \<open>MarkNodeFinished\<close> commits, with the increment it adds to the switch count.\<close>

lemma mark_node_finished_commit:
  assumes "mark_node_finished_tx now tid nid status s = Inr (c, t)"
  obtains add where "add \<in> {0, 1}"
    and "t = upd_topics (update_where (topic_is tid) (worked_topic now nid add \<circ>
        synced_topic now (running_ids tid (update_where (node_is tid nid) (finished_row now status) (rs_nodes s))) ''''))
      (upd_nodes (update_where (node_is tid nid) (finished_row now status)) s)"
proof -
  let ?s1 = "upd_nodes (update_where (node_is tid nid) (finished_row now status)) s"
  let ?sync = "synced_topic now (running_ids tid (update_where (node_is tid nid) (finished_row now status) (rs_nodes s))) ''''"
  have sync: "sync_topic_running_node_ids now tid '''' ?s1 = upd_topics (update_where (topic_is tid) ?sync) ?s1"
    by (simp add: sync_topic_running_node_ids_def)
  obtain current where t: "t = count_worked now tid nid current (upd_topics (update_where (topic_is tid) ?sync) ?s1)"
    using assms unfolding mark_node_finished_tx_def and_then_Inr_iff Let_def sync by blast
  have fuse: "upd_topics (update_where (topic_is tid) (worked_topic now nid add))
      (upd_topics (update_where (topic_is tid) ?sync) ?s1) =
      upd_topics (update_where (topic_is tid) (worked_topic now nid add \<circ> ?sync)) ?s1" for add
    using update_where_twice[of "topic_is tid" ?sync "worked_topic now nid add" "rs_topics s"]
    by (simp add: synced_topic_def)
  show ?thesis
    using that[of "if current = Some nid then 0 else 1"] t unfolding count_worked_def fuse by simp
qed

lemma rows_ok_mark_node_finished:
  assumes ok: "rows_ok s" and id: "nid \<in> node_ids_of tid (rs_nodes s)"
    and op: "mark_node_finished now tid nid status s = (r, t)"
  shows "rows_ok t"
proof (cases rule: run_tx_cases[of "mark_node_finished_tx now tid nid status" s])
  case rollback
  then show ?thesis using op ok by (simp add: mark_node_finished_def)
next
  case (commit c s')
  obtain add where add: "add \<in> {0, 1}" and s': "s' = upd_topics (update_where (topic_is tid) (worked_topic now nid add \<circ>
        synced_topic now (running_ids tid (update_where (node_is tid nid) (finished_row now status) (rs_nodes s))) ''''))
      (upd_nodes (update_where (node_is tid nid) (finished_row now status)) s)"
    using commit(1) by (rule mark_node_finished_commit)
  have "rows_ok s'"
    unfolding s' by (rule rows_ok_sync[OF ok]) (use id add in \<open>auto simp: row_defs topic_row_ok_def\<close>)
  then show ?thesis using op commit(2) by (simp add: mark_node_finished_def)
qed

lemma rows_ok_set_topic_queue_level:
  assumes ok: "rows_ok s" and op: "set_topic_queue_level now tid level s = (r, t)"
  shows "rows_ok t"
proof (cases "level_validate level")
  case (Inl e)
  then show ?thesis using op ok by (simp add: set_topic_queue_level_def)
next
  case (Inr u)
  have "rows_ok (upd_topics (update_where (topic_is tid) (\<lambda>t. t\<lparr>tc_queue_level := level, tc_updated_at := now\<rparr>)) s)"
    by (rule rows_ok_upd_topics[OF ok]) (use Inr in \<open>simp_all add: topic_row_ok_def\<close>)
  then show ?thesis using op Inr by (simp add: set_topic_queue_level_def)
qed

lemma rows_ok_shift_topic:
  assumes "rows_ok s" and "shift_topic shift now tid s = (r, t)"
  shows "rows_ok t"
  using assms by (auto simp: shift_topic_def intro: rows_ok_set_topic_queue_level
    split: sum.splits if_splits)

lemma rows_ok_promote_loop:
  "rows_ok s \<Longrightarrow> promote_loop now threshold ts s = (r, t) \<Longrightarrow> rows_ok t"
proof (induction now threshold ts s rule: promote_loop.induct)
  case (2 now threshold x ts s)
  obtain res s1 where p: "promote_topic now (tc_topic_id x) s = (res, s1)" by fastforce
  have "rows_ok s1" using 2(3) p unfolding promote_topic_def by (rule rows_ok_shift_topic)
  with 2 p show ?case by (auto split: if_splits sum.splits)
qed simp

lemma rows_ok_promote_aged_topics:
  "rows_ok s \<Longrightarrow> promote_aged_topics now threshold s = (r, t) \<Longrightarrow> rows_ok t"
  by (auto simp: promote_aged_topics_def intro: rows_ok_promote_loop split: if_splits sum.splits)

lemma rows_ok_record_dispatch: "rows_ok s \<Longrightarrow> rows_ok (record_dispatch now d s)"
  by (simp add: rows_ok_def record_dispatch_def)

lemma rows_ok_clear_priority_dirty: "rows_ok s \<Longrightarrow> rows_ok (clear_priority_dirty now tid err s)"
  unfolding clear_priority_dirty_def by (rule rows_ok_topic_frame) simp_all

lemma rows_ok_ensure_priority_dirty: "rows_ok s \<Longrightarrow> rows_ok (ensure_priority_dirty now tid reason s)"
  unfolding ensure_priority_dirty_def by (rule rows_ok_topic_frame) simp_all

lemma rows_ok_touch_topic_served: "rows_ok s \<Longrightarrow> rows_ok (touch_topic_served now tid s)"
  unfolding touch_topic_served_def by (rule rows_ok_topic_frame) simp_all

lemma rows_ok_set_node_session_id: "rows_ok s \<Longrightarrow> rows_ok (set_node_session_id now tid nid sid s)"
  unfolding set_node_session_id_def by (rule rows_ok_upd_nodes) simp_all

lemmas rows_ok_ops = rows_ok_upsert_enqueue_node rows_ok_upsert_priority_node
  rows_ok_mark_priority_node_ready rows_ok_clear_priority_dirty rows_ok_ensure_priority_dirty
  rows_ok_apply_priority_plan rows_ok_set_node_session_id rows_ok_mark_node_running[OF _ get_node_id]
  rows_ok_mark_node_finished[OF _ get_node_id] rows_ok_record_dispatch rows_ok_touch_topic_served
  rows_ok_set_topic_queue_level rows_ok_shift_topic[of _ promote_level, folded promote_topic_def]
  rows_ok_shift_topic[of _ demote_level, folded demote_topic_def] rows_ok_promote_aged_topics

lemma rows_ok_runtime_step:
  assumes "runtime_step s t" and "rows_ok s"
  shows "rows_ok t"
  using assms by cases (blast intro: rows_ok_ops)+

lemma rows_ok_empty: "rows_ok empty_runtime_store"
  by (simp add: rows_ok_def empty_runtime_store_def)

interpretation rt: transition_system "\<lambda>s. s = empty_runtime_store" runtime_step rows_ok
  by unfold_locales (simp_all add: rows_ok_empty rows_ok_runtime_step)

end
