(* ===== verification/RunStoreProps.thy ===== *)
theory RunStoreProps
  imports RunStoreInv
begin

text \<open>
  What the operations of the runtime store do: the functional behaviour of the enqueue, of a
  priority plan, of starting and finishing a node and of the ageing of topics, and when a
  topic's rows make a snapshot the planner accepts.
\<close>

section \<open>Specifications\<close>

text \<open>One label per rank, over the rows of a topic.\<close>

definition topic_labels_agree :: "string \<Rightarrow> runtime_store \<Rightarrow> bool" where
  "topic_labels_agree tid s \<longleftrightarrow>
     (\<forall>a\<in>set (rs_nodes s). \<forall>b\<in>set (rs_nodes s). nq_topic_id a = tid \<longrightarrow> nq_topic_id b = tid \<longrightarrow>
        nq_priority_rank a = nq_priority_rank b \<longrightarrow> nq_priority_label a = nq_priority_label b)"

text \<open>The contents a row needs for its node to be valid in a snapshot.\<close>

definition queue_row_ok :: "node_queue_state \<Rightarrow> bool" where
  "queue_row_ok n \<longleftrightarrow> nq_node_id n \<noteq> '''' \<and> nq_name n \<noteq> '''' \<and> nq_priority_label n \<noteq> '''' \<and>
     0 \<le> nq_priority_rank n \<and> (status_is_known (nq_status n) \<or> nq_status n = OtherNodeStatus '''')"

text \<open>The last assignment of a plan that names a node.\<close>

definition last_assignment :: "worker_priority_assignment list \<Rightarrow> string \<Rightarrow> worker_priority_assignment option" where
  "last_assignment plan nid = List.find (\<lambda>a. wa_node_id a = nid) (rev plan)"

text \<open>A topic one level up, when it has waited long enough.\<close>

definition aged_topic :: "time \<Rightarrow> time \<Rightarrow> topic_control_state \<Rightarrow> topic_control_state" where
  "aged_topic now threshold t =
     (if aged now threshold t \<and> promote_level (tc_queue_level t) \<noteq> tc_queue_level t
      then t\<lparr>tc_queue_level := promote_level (tc_queue_level t), tc_updated_at := now\<rparr> else t)"

section \<open>Enqueue\<close>

lemma mapping_ok_iff:
  assumes "topic_labels_agree tid s"
  shows "ensure_priority_rank_label_mapping tid nid p s = Inr u \<longleftrightarrow>
    (\<forall>n\<in>set (rs_nodes s). nq_topic_id n = tid \<longrightarrow> nq_node_id n \<noteq> nid \<longrightarrow>
       nq_priority_rank n = np_rank p \<longrightarrow> nq_priority_label n = np_label p)"
proof (cases "List.find (\<lambda>r. nq_topic_id r = tid \<and> nq_priority_rank r = np_rank p \<and> nq_node_id r \<noteq> nid)
             (rs_nodes s)")
  case None
  then have "ensure_priority_rank_label_mapping tid nid p s = Inr u"
    by (simp add: ensure_priority_rank_label_mapping_def)
  with None show ?thesis unfolding find_None_iff by blast
next
  case (Some r)
  then have r: "r \<in> set (rs_nodes s)" "nq_topic_id r = tid" "nq_priority_rank r = np_rank p" "nq_node_id r \<noteq> nid"
    using find_SomeD[OF Some] by simp_all
  have "nq_priority_label n = nq_priority_label r"
    if "n \<in> set (rs_nodes s)" "nq_topic_id n = tid" "nq_priority_rank n = np_rank p" for n
    using assms that r unfolding topic_labels_agree_def by metis
  then have others: "(\<forall>n\<in>set (rs_nodes s). nq_topic_id n = tid \<longrightarrow> nq_node_id n \<noteq> nid \<longrightarrow>
       nq_priority_rank n = np_rank p \<longrightarrow> nq_priority_label n = np_label p) \<longleftrightarrow>
     nq_priority_label r = np_label p"
    using r by metis
  show ?thesis unfolding others by (simp add: ensure_priority_rank_label_mapping_def Some)
qed

lemma ensure_topic_cases:
  assumes "ensure_topic now tid s = Inr s1"
  shows "s1 = (if List.find (topic_is tid) (rs_topics s) = None
                then upd_topics (\<lambda>ts. ts @ [new_topic_row now tid]) s else s)"
  using assms by (auto simp: ensure_topic_def split: if_splits)

text \<open>The result of an enqueue, taken apart: refused before it writes, rolled back, committed.\<close>

lemma upsert_enqueue_cases:
  assumes "upsert_enqueue_node now req s = (r, t)"
  obtains (refused) e where "r = Inl e" and "t = s"
  | (conflict) e where "r = Inl e" and "ensure_topic now (eq_topic_id req) s = Inr t"
      and "ensure_priority_rank_label_mapping (eq_topic_id req) (eq_node_id req) (eq_priority req) t = Inl e"
  | (committed) c s1 where "r = Inr c" and "ensure_topic now (eq_topic_id req) s = Inr s1"
      and "ensure_priority_rank_label_mapping (eq_topic_id req) (eq_node_id req) (eq_priority req) s1 = Inr ()"
      and "enqueue_tx now (req\<lparr>eq_session_id := trim_space (eq_session_id req)\<rparr>) s1 = Inr (c, t)"
      and "eq_node_id req \<noteq> ''''" and "eq_node_name req \<noteq> ''''" and "priority_validate (eq_priority req) = Inr ()"
proof (cases "eq_topic_id req = '''' \<or> eq_node_id req = '''' \<or> eq_node_name req = '''' \<or>
    \<not> is_ok (priority_validate (eq_priority req))")
  case True
  then have "\<exists>e. r = Inl e" "t = s"
    using assms by (cases "priority_validate (eq_priority req)"; auto simp: upsert_enqueue_node_def split: if_splits)+
  then show ?thesis using refused by blast
next
  case False
  let ?req = "req\<lparr>eq_session_id := trim_space (eq_session_id req)\<rparr>"
  obtain s1 where s1: "ensure_topic now (eq_topic_id req) s = Inr s1"
    using False by (auto simp: ensure_topic_def)
  have res: "run_tx (enqueue_tx now ?req) s1 = (r, t)"
    using assms False s1 by (auto simp: upsert_enqueue_node_def result_simps)
  let ?m = "ensure_priority_rank_label_mapping (eq_topic_id req) (eq_node_id req) (eq_priority req) s1"
  show ?thesis
  proof (cases ?m)
    case (Inl e)
    then have "enqueue_tx now ?req s1 = Inl e" by (simp add: enqueue_tx_def)
    then have "r = Inl e" "t = s1" using res by (simp_all add: run_tx_def)
    then show ?thesis using conflict s1 Inl by simp
  next
    case (Inr u)
    then obtain c t' where tx: "enqueue_tx now ?req s1 = Inr (c, t')"
      by (simp add: enqueue_tx_def Let_def)
    then have "r = Inr c" "t = t'" using res by (simp_all add: run_tx_def)
    then show ?thesis using committed s1 Inr tx False by (auto simp: result_simps)
  qed
qed

lemma find_update_same:
  assumes "List.find p rows = Some r" and "\<And>q. p q \<Longrightarrow> p (f q)"
  shows "List.find p (update_where p f rows) = Some (f r)"
  using assms by (induction rows) (auto split: if_splits)

lemma filter_not_update: "(\<And>q. p q \<Longrightarrow> p (f q)) \<Longrightarrow>
  filter (\<lambda>q. \<not> p q) (update_where p f rows) = filter (\<lambda>q. \<not> p q) rows"
  by (induction rows) auto

text \<open>What a committed enqueue leaves in the nodes' table.\<close>

lemma enqueue_tx_nodes:
  assumes "enqueue_tx now req s = Inr (c, t)"
  defines "p \<equiv> node_is (eq_topic_id req) (eq_node_id req)"
  shows "c \<longleftrightarrow> List.find p (rs_nodes s) = None"
    and "filter (\<lambda>q. \<not> p q) (rs_nodes t) = filter (\<lambda>q. \<not> p q) (rs_nodes s)"
    and "\<exists>n. List.find p (rs_nodes t) = Some n \<and> n = (case List.find p (rs_nodes s) of
           None \<Rightarrow> enqueued_row now req | Some r \<Rightarrow> reenqueue_row now req r)"
    and "rs_topics t = (if eq_mark_priority_dirty req
           then update_where (topic_is (eq_topic_id req)) (\<lambda>t. t\<lparr>tc_priority_dirty := True, tc_updated_at := now\<rparr>) (rs_topics s)
           else rs_topics s)"
    and "rs_history t = rs_history s"
proof -
  define s1 where "s1 = (if List.find p (rs_nodes s) = None
     then upd_nodes (\<lambda>ns. ns @ [enqueued_row now req]) s
     else upd_nodes (update_where p (reenqueue_row now req)) s)"
  have ct: "c = (List.find p (rs_nodes s) = None)"
    "t = (if eq_mark_priority_dirty req then mark_topic_dirty now (eq_topic_id req) s1 else s1)"
    using assms(1) unfolding enqueue_tx_def and_then_Inr_iff Let_def p_def s1_def by blast+
  have new: "p (enqueued_row now req)" by (simp add: p_def row_defs)
  have keep: "p q \<Longrightarrow> p (reenqueue_row now req q)" for q by (simp add: p_def row_defs)
  have nodes: "rs_nodes t = rs_nodes s1" by (simp add: ct mark_topic_dirty_def)
  show "c \<longleftrightarrow> List.find p (rs_nodes s) = None" by (simp add: ct)
  show "filter (\<lambda>q. \<not> p q) (rs_nodes t) = filter (\<lambda>q. \<not> p q) (rs_nodes s)"
    unfolding nodes using new keep by (simp add: s1_def filter_not_update)
  show "\<exists>n. List.find p (rs_nodes t) = Some n \<and> n = (case List.find p (rs_nodes s) of
           None \<Rightarrow> enqueued_row now req | Some r \<Rightarrow> reenqueue_row now req r)"
    unfolding nodes using new keep
    by (cases "List.find p (rs_nodes s)") (simp_all add: s1_def find_append_none find_update_same)
  show "rs_topics t = (if eq_mark_priority_dirty req
           then update_where (topic_is (eq_topic_id req)) (\<lambda>t. t\<lparr>tc_priority_dirty := True, tc_updated_at := now\<rparr>) (rs_topics s)
           else rs_topics s)" "rs_history t = rs_history s"
    by (simp_all add: ct mark_topic_dirty_def s1_def)
qed

lemma no_nodes_without_topic:
  assumes "rows_ok s" and "List.find (topic_is tid) (rs_topics s) = None" and "n \<in> set (rs_nodes s)"
  shows "nq_topic_id n \<noteq> tid"
proof
  assume "nq_topic_id n = tid"
  then have "tid \<in> set (map tc_topic_id (rs_topics s))" using rows_okD(3)[OF assms(1,3)] by simp
  with assms(2) show False unfolding find_topic_None by simp
qed

lemma get_node_found: "List.find (node_is tid nid) (rs_nodes s) = Some r \<Longrightarrow> get_node tid nid s = Inr (scan_node r)"
  by (simp add: get_node_def)

lemma get_node_none: "get_node tid nid s = Inl ErrNotFound \<longleftrightarrow> List.find (node_is tid nid) (rs_nodes s) = None"
  by (auto simp: get_node_def split: option.splits)

lemma scan_node_simps [simp]:
  "nq_status (scan_node r) = nq_status r" "nq_name (scan_node r) = nq_name r"
  "nq_priority_label (scan_node r) = nq_priority_label r" "nq_priority_rank (scan_node r) = nq_priority_rank r"
  "nq_entered_priority_at (scan_node r) = nq_entered_priority_at r" "nq_topic_id (scan_node r) = nq_topic_id r"
  "nq_node_id (scan_node r) = nq_node_id r" "nq_is_priority_node (scan_node r) = nq_is_priority_node r"
  "nq_last_worked_at (scan_node r) = nq_last_worked_at r" "nq_agent_spec (scan_node r) = nq_agent_spec r"
  "nq_session_id (scan_node r) = nullable_to_string_ptr (nq_session_id r)"
  by (simp_all add: scan_node_def)

lemma request_session_trim:
  "nullable_to_string_ptr (request_session (req\<lparr>eq_session_id := trim_space i\<rparr>)) =
   (if trim_space i = '''' then None else Some (trim_space i))"
  by (simp add: request_session_def nullable_to_string_ptr_def)

lemma marked_dirty:
  "t \<in> set (update_where (topic_is tid) (\<lambda>t. t\<lparr>tc_priority_dirty := True, tc_updated_at := now\<rparr>) ts) \<Longrightarrow>
   topic_is tid t \<Longrightarrow> tc_priority_dirty t"
proof -
  assume t: "t \<in> set (update_where (topic_is tid) (\<lambda>t. t\<lparr>tc_priority_dirty := True, tc_updated_at := now\<rparr>) ts)"
    "topic_is tid t"
  then obtain q where "q \<in> set ts" and q: "t = (if topic_is tid q
      then q\<lparr>tc_priority_dirty := True, tc_updated_at := now\<rparr> else q)"
    unfolding set_update_where by blast
  show ?thesis
  proof (cases "topic_is tid q")
    case False
    then show ?thesis using t(2) q by simp
  qed (simp add: q)
qed

lemma enqueue_commit_rows:
  assumes "upsert_enqueue_node now req s = (Inr created, t)"
  defines "tid \<equiv> eq_topic_id req" and "nid \<equiv> eq_node_id req"
  shows "created = (get_node tid nid s = Inl ErrNotFound) \<and>
    (\<exists>n. get_node tid nid t = Inr n \<and> nq_status n = NodeStatusReady \<and> nq_name n = eq_node_name req \<and>
       nq_priority_label n = np_label (eq_priority req) \<and> nq_priority_rank n = np_rank (eq_priority req) \<and>
       nq_agent_spec n = eq_agent_spec req \<and> nq_entered_priority_at n = now \<and>
       nq_session_id n = (if trim_space (eq_session_id req) = '''' then None
          else Some (trim_space (eq_session_id req)))) \<and>
    filter (\<lambda>q. node_key q \<noteq> (tid, nid)) (rs_nodes t) = filter (\<lambda>q. node_key q \<noteq> (tid, nid)) (rs_nodes s) \<and>
    (eq_mark_priority_dirty req \<longrightarrow> (\<forall>x\<in>set (rs_topics t). topic_is tid x \<longrightarrow> tc_priority_dirty x))"
  using assms(1)
proof (cases rule: upsert_enqueue_cases)
  case (committed c s1)
  let ?req = "req\<lparr>eq_session_id := trim_space (eq_session_id req)\<rparr>"
  note tx = enqueue_tx_nodes[OF committed(4), simplified, folded tid_def nid_def]
  have nodes: "rs_nodes s1 = rs_nodes s" using ensure_topic_Inr(2)[OF committed(2)] .
  obtain n where n: "List.find (node_is tid nid) (rs_nodes t) = Some n"
    "n = (case List.find (node_is tid nid) (rs_nodes s1) of
         None \<Rightarrow> enqueued_row now ?req | Some r \<Rightarrow> reenqueue_row now ?req r)"
    using tx(3) by auto
  have "created = (get_node tid nid s = Inl ErrNotFound)"
    using tx(1) committed(1) nodes unfolding get_node_none by simp
  moreover have "get_node tid nid t = Inr (scan_node n)" using n(1) by (rule get_node_found)
  moreover have "nq_status n = NodeStatusReady \<and> nq_name n = eq_node_name req \<and>
       nq_priority_label n = np_label (eq_priority req) \<and> nq_priority_rank n = np_rank (eq_priority req) \<and>
       nq_agent_spec n = eq_agent_spec req \<and> nq_entered_priority_at n = now \<and>
       nq_session_id n = request_session ?req"
    unfolding n(2) by (simp add: row_defs split: option.split)
  moreover have "filter (\<lambda>q. node_key q \<noteq> (tid, nid)) (rs_nodes t) = filter (\<lambda>q. node_key q \<noteq> (tid, nid)) (rs_nodes s)"
    using tx(2) nodes by simp
  moreover have "eq_mark_priority_dirty req \<longrightarrow> (\<forall>x\<in>set (rs_topics t). topic_is tid x \<longrightarrow> tc_priority_dirty x)"
    using tx(4) marked_dirty[of _ tid now "rs_topics s1"] by (simp add: tid_def)
  ultimately show ?thesis by (simp add: request_session_trim)
qed simp_all

text \<open>
  An accepted enqueue: it reports whether the node is new; afterwards the queue holds the
  node as ready with the name, priority and (trimmed) session of the request and a fresh queue position, every
  other node is as it was, and a topic to be re-prioritised is marked dirty.
\<close>

theorem enqueue_commit:
  assumes "upsert_enqueue_node now req s = (Inr created, t)"
  defines "tid \<equiv> eq_topic_id req" and "nid \<equiv> eq_node_id req"
  shows "created = (get_node tid nid s = Inl ErrNotFound) \<and>
    (\<exists>n. get_node tid nid t = Inr n \<and> nq_status n = NodeStatusReady \<and> nq_name n = eq_node_name req \<and>
       nq_priority_label n = np_label (eq_priority req) \<and> nq_priority_rank n = np_rank (eq_priority req) \<and>
       nq_agent_spec n = eq_agent_spec req \<and> nq_entered_priority_at n = now \<and>
       nq_session_id n = (if trim_space (eq_session_id req) = '''' then None
          else Some (trim_space (eq_session_id req)))) \<and>
    filter (\<lambda>q. node_key q \<noteq> (tid, nid)) (rs_nodes t) = filter (\<lambda>q. node_key q \<noteq> (tid, nid)) (rs_nodes s) \<and>
    (eq_mark_priority_dirty req \<longrightarrow> (\<forall>x\<in>set (rs_topics t). topic_is tid x \<longrightarrow> tc_priority_dirty x))"
  unfolding tid_def nid_def using assms(1) by (rule enqueue_commit_rows)

text \<open>
  A refused enqueue changes nothing: even the topic row, which is created outside the
  transaction, is not left behind, because a topic without nodes cannot have a rank conflict.
\<close>

theorem enqueue_refused_no_change:
  assumes "rows_ok s" and "upsert_enqueue_node now req s = (Inl e, t)"
  shows "t = s"
  using assms(2)
proof (cases rule: upsert_enqueue_cases)
  case (conflict e')
  have t: "t = (if List.find (topic_is (eq_topic_id req)) (rs_topics s) = None
      then upd_topics (\<lambda>ts. ts @ [new_topic_row now (eq_topic_id req)]) s else s)"
    using conflict(2) by (rule ensure_topic_cases)
  show ?thesis
  proof (rule ccontr)
    assume "t \<noteq> s"
    then have none: "List.find (topic_is (eq_topic_id req)) (rs_topics s) = None" using t by presburger
    have "rs_nodes t = rs_nodes s" using ensure_topic_Inr(2)[OF conflict(2)] .
    then have "List.find (\<lambda>r. nq_topic_id r = eq_topic_id req \<and> nq_priority_rank r = np_rank (eq_priority req) \<and>
        nq_node_id r \<noteq> eq_node_id req) (rs_nodes t) = None"
      using no_nodes_without_topic[OF assms(1) none] by (auto simp: find_None_iff)
    with conflict(3) show False by (simp add: ensure_priority_rank_label_mapping_def)
  qed
qed simp_all

text \<open>
  When an enqueue is accepted: exactly when its ids and name are not empty, its priority is
  valid and no other node of the topic uses the same rank under another label.
\<close>

theorem enqueue_accepted_iff:
  assumes "topic_labels_agree (eq_topic_id req) s"
  shows "is_ok (fst (upsert_enqueue_node now req s)) \<longleftrightarrow>
    eq_topic_id req \<noteq> '''' \<and> eq_node_id req \<noteq> '''' \<and> eq_node_name req \<noteq> '''' \<and>
    np_label (eq_priority req) \<noteq> '''' \<and> 0 \<le> np_rank (eq_priority req) \<and>
    (\<forall>n\<in>set (rs_nodes s). nq_topic_id n = eq_topic_id req \<longrightarrow> nq_node_id n \<noteq> eq_node_id req \<longrightarrow>
       nq_priority_rank n = np_rank (eq_priority req) \<longrightarrow> nq_priority_label n = np_label (eq_priority req))"
proof (cases "eq_topic_id req = '''' \<or> eq_node_id req = '''' \<or> eq_node_name req = '''' \<or>
    \<not> is_ok (priority_validate (eq_priority req))")
  case True
  then have "\<not> is_ok (fst (upsert_enqueue_node now req s))"
    by (cases "priority_validate (eq_priority req)") (auto simp: upsert_enqueue_node_def split: if_splits)
  moreover have "\<not> is_ok (priority_validate (eq_priority req)) \<Longrightarrow>
      np_label (eq_priority req) = '''' \<or> np_rank (eq_priority req) < 0"
    by (auto simp: priority_validate_def split: if_splits)
  ultimately show ?thesis using True by fastforce
next
  case False
  let ?req = "req\<lparr>eq_session_id := trim_space (eq_session_id req)\<rparr>"
  let ?m = "\<lambda>u. ensure_priority_rank_label_mapping (eq_topic_id req) (eq_node_id req) (eq_priority req) u"
  obtain s1 where s1: "ensure_topic now (eq_topic_id req) s = Inr s1"
    using False by (auto simp: ensure_topic_def)
  have m: "?m s1 = ?m s"
    using ensure_topic_Inr(2)[OF s1] by (simp add: ensure_priority_rank_label_mapping_def)
  have "fst (upsert_enqueue_node now req s) = fst (run_tx (enqueue_tx now ?req) s1)"
    using False s1 by (auto simp: upsert_enqueue_node_def result_simps)
  also have "is_ok \<dots> \<longleftrightarrow> ?m s = Inr ()"
    by (cases "?m s") (simp_all add: run_tx_def enqueue_tx_def Let_def m)
  finally show ?thesis
    using False unfolding mapping_ok_iff[OF assms] by (auto simp: priority_validate_def split: if_splits)
qed

section \<open>Starting and finishing a node\<close>

lemma update_where_comp_p:
  "update_where p g (update_where p f rows) = update_where p (\<lambda>r. if p (f r) then g (f r) else f r) rows"
  by (induction rows) auto

text \<open>The topic row after a node was started and then finished, with no other operation between.\<close>

lemma find_topic_update:
  "(\<And>t. tc_topic_id (g t) = tc_topic_id t) \<Longrightarrow>
   List.find (topic_is tid) (update_where (topic_is tid) g ts) = map_option g (List.find (topic_is tid) ts)"
  by (induction ts) auto

lemma mark_node_running_topic:
  assumes "List.find (topic_is tid) (rs_topics s) = Some t"
  shows "List.find (topic_is tid) (rs_topics (mark_node_running now tid nid s)) =
    Some (synced_topic now (running_ids tid (update_where (node_is tid nid) (running_row now) (rs_nodes s))) nid t)"
  using assms
  by (simp add: mark_node_running_def sync_topic_running_node_ids_def synced_topic_def find_topic_update)

lemma running_ids_finished:
  assumes "status \<noteq> NodeStatusRunning"
  shows "running_ids tid (update_where (node_is tid nid) (finished_row now status)
      (update_where (node_is tid nid) (running_row now') ns)) = removeAll nid (running_ids tid ns)"
  using assms by (induction ns) (auto simp: running_ids_def row_defs)

lemma count_worked_topic:
  assumes "List.find (topic_is tid) (rs_topics s) = Some t"
  shows "List.find (topic_is tid) (rs_topics (count_worked now tid nid current s)) =
    Some (worked_topic now nid (if current = Some nid then 0 else 1) t)"
  using assms by (simp add: count_worked_def worked_topic_def find_topic_update)

text \<open>
  Starting a node and finishing it again: the finish commits, the node is no longer among the
  running ones and every other running node still is, the topic's current and last worked
  node are the node, and the switch count has not moved (the start already made the node current, so the
  comparison with the current node never counts a switch).
\<close>

theorem run_then_finish:
  assumes "List.find (topic_is tid) (rs_topics s) = Some row" and "nid \<noteq> ''''" and "trim_space nid = nid"
    and "status \<noteq> NodeStatusRunning"
  shows "\<exists>t row'. mark_node_finished later tid nid status (mark_node_running now tid nid s) = (Inr (), t) \<and>
    List.find (topic_is tid) (rs_topics t) = Some row' \<and>
    tc_running_node_ids row' = removeAll nid (running_ids tid (rs_nodes s)) \<and>
    tc_current_node_id row' = Some nid \<and> tc_last_worked_node_id row' = Some nid \<and>
    tc_last_worked_at row' = Some later \<and> tc_switch_count row' = tc_switch_count row"
proof -
  let ?s1 = "mark_node_running now tid nid s"
  let ?ns1 = "update_where (node_is tid nid) (running_row now) (rs_nodes s)"
  let ?s2 = "upd_nodes (update_where (node_is tid nid) (finished_row later status)) ?s1"
  let ?s3 = "sync_topic_running_node_ids later tid '''' ?s2"
  define row1 where "row1 = synced_topic now (running_ids tid ?ns1) nid row"
  define row2 where "row2 = synced_topic later (removeAll nid (running_ids tid (rs_nodes s))) '''' row1"
  have row1: "List.find (topic_is tid) (rs_topics ?s1) = Some row1"
    unfolding row1_def by (rule mark_node_running_topic[OF assms(1)])
  have nodes1: "rs_nodes ?s1 = ?ns1" by (simp add: mark_node_running_def sync_topic_running_node_ids_def)
  have row2: "List.find (topic_is tid) (rs_topics ?s3) = Some row2"
    using row1 running_ids_finished[OF assms(4), of tid nid later now "rs_nodes s"]
    by (simp add: sync_topic_running_node_ids_def synced_topic_def find_topic_update row2_def nodes1)
  have current: "get_topic_current_node tid ?s3 = Inr (Some nid)"
    using row2 assms(2,3) by (simp add: get_topic_current_node_def row2_def row1_def synced_topic_def nullable_string_def)
  let ?t = "count_worked later tid nid (Some nid) ?s3"
  have "mark_node_finished later tid nid status ?s1 = (Inr (), ?t)"
    using current by (simp add: mark_node_finished_def run_tx_def mark_node_finished_tx_def Let_def)
  moreover have "List.find (topic_is tid) (rs_topics ?t) = Some (worked_topic later nid 0 row2)"
    using count_worked_topic[OF row2, of later nid "Some nid"] by simp
  ultimately show ?thesis
    by (intro exI[of _ ?t] exI[of _ "worked_topic later nid 0 row2"] conjI)
      (simp_all add: row2_def row1_def worked_topic_def synced_topic_def)
qed

section \<open>Runnable topics\<close>

text \<open>
  A topic counts as runnable exactly when some node of its snapshot is neither terminal
  nor blocked: the SQL count and the planner's two status tests agree.
\<close>

theorem runnable_iff_snapshot:
  assumes "build_topic_snapshot now tid s = Inr snap"
  shows "has_runnable_nodes tid s \<longleftrightarrow>
    (\<exists>n\<in>set (ts_nodes snap). \<not> status_is_terminal (tn_status n) \<and> \<not> status_blocks_dispatch (tn_status n))"
proof -
  have terminal: "status_is_terminal st \<longleftrightarrow> st \<in> {NodeStatusSucceeded, NodeStatusFailed, NodeStatusCancelled}"
    and blocks: "status_blocks_dispatch st \<longleftrightarrow>
      st \<in> {NodeStatusBlocked, NodeStatusRetryCooldown, NodeStatusWaitingExternal}" for st
    by (cases st; simp)+
  have status: "tn_status (node_normalize now (to_topic_node (scan_node r))) =
      (if nq_status r = OtherNodeStatus '''' then NodeStatusReady else nq_status r)" for r
    by (simp add: node_normalize_def to_topic_node_def Let_def)
  have "ts_nodes snap = map (node_normalize now \<circ> to_topic_node) (list_nodes tid s)"
    using assms by (auto simp: build_topic_snapshot_def Let_def result_simps snapshot_normalize_def)
  then have nodes: "ts_nodes snap = map (\<lambda>r. node_normalize now (to_topic_node (scan_node r)))
      (filter (\<lambda>r. nq_topic_id r = tid) (rs_nodes s))"
    by (simp add: list_nodes_def)
  have "has_runnable_nodes tid s \<longleftrightarrow> (\<exists>r\<in>set (rs_nodes s). nq_topic_id r = tid \<and>
      \<not> status_is_terminal (nq_status r) \<and> \<not> status_blocks_dispatch (nq_status r))"
    unfolding has_runnable_nodes_def length_greater_0_conv filter_empty_conv terminal blocks by blast
  also have "\<dots> \<longleftrightarrow> (\<exists>n\<in>set (ts_nodes snap). \<not> status_is_terminal (tn_status n) \<and> \<not> status_blocks_dispatch (tn_status n))"
    unfolding nodes by (auto simp: status)
  finally show ?thesis .
qed

section \<open>Snapshots\<close>

lemma get_topic_Inr:
  assumes "get_topic tid s = Inr topic"
  obtains t where "List.find (topic_is tid) (rs_topics s) = Some t" and "t \<in> set (rs_topics s)"
    and "tc_topic_id t = tid" and "scan_topic t = Inr topic"
proof (cases "List.find (topic_is tid) (rs_topics s)")
  case None
  with assms show ?thesis by (simp add: get_topic_def)
next
  case (Some t)
  with assms that[OF Some find_topic_Some[OF Some]] show ?thesis by (simp add: get_topic_def)
qed

lemma nullable_to_string_ptr_trimmed:
  "(\<And>i. v = Some i \<Longrightarrow> trim_space i = i \<and> i \<noteq> '''') \<Longrightarrow> nullable_to_string_ptr v = v"
  by (cases v) (simp_all add: nullable_to_string_ptr_def)

lemma normalized_node_ok:
  "node_ok (node_normalize now (to_topic_node (scan_node n))) \<longleftrightarrow> queue_row_ok n"
  by (auto simp: node_ok_def node_normalize_def to_topic_node_def queue_row_ok_def Let_def)

lemma normalized_node_simps [simp]:
  "tn_node_id (node_normalize now (to_topic_node (scan_node n))) = nq_node_id n"
  "tn_priority (node_normalize now (to_topic_node (scan_node n))) =
     \<lparr>np_label = nq_priority_label n, np_rank = nq_priority_rank n\<rparr>"
  by (simp_all add: node_normalize_def to_topic_node_def Let_def)

lemma distinct_topic_nodes:
  assumes "distinct (map node_key ns)"
  shows "distinct (map nq_node_id (filter (\<lambda>r. nq_topic_id r = tid) ns))"
  using assms by (induction ns) (auto simp: image_iff)

text \<open>
  When a topic can be scheduled at all: its snapshot passes validation exactly when each of
  its rows has valid contents and its ranks have one label each; the references between the
  rows never fail.
\<close>

theorem build_snapshot_iff:
  assumes ok: "rows_ok s" and topic: "tid \<in> set (map tc_topic_id (rs_topics s))" and tid: "tid \<noteq> ''''"
    and trimmed: "\<forall>i\<in>node_ids_of tid (rs_nodes s). i \<noteq> '''' \<and> trim_space i = i"
  shows "is_ok (build_topic_snapshot now tid s) \<longleftrightarrow>
    (\<forall>n\<in>set (rs_nodes s). nq_topic_id n = tid \<longrightarrow> queue_row_ok n) \<and> topic_labels_agree tid s"
proof -
  obtain t where t: "List.find (topic_is tid) (rs_topics s) = Some t"
    using topic find_topic_None[of tid "rs_topics s"] by (cases "List.find (topic_is tid) (rs_topics s)") auto
  note t' = find_topic_Some[OF t]
  have row: "topic_row_ok (rs_nodes s) t" using rows_okD(4)[OF ok t'(1)] .
  let ?ns = "filter (\<lambda>r. nq_topic_id r = tid) (rs_nodes s)"
  let ?conv = "\<lambda>n. node_normalize now (to_topic_node (scan_node n))"
  have cur: "nullable_to_string_ptr (tc_current_node_id t) = tc_current_node_id t"
    and last: "nullable_to_string_ptr (tc_last_worked_node_id t) = tc_last_worked_node_id t"
    by (rule nullable_to_string_ptr_trimmed; use row trimmed t'(2) in \<open>force simp: topic_row_ok_def\<close>)+
  define topic where "topic = t\<lparr>tc_priority_node_id := nullable_to_string_ptr (tc_priority_node_id t),
     tc_last_priority_error := nullable_to_string_ptr (tc_last_priority_error t)\<rparr>"
  have scan: "get_topic tid s = Inr topic"
    using row t by (simp add: get_topic_def scan_topic_def topic_row_ok_def cur last topic_def)
  define snap where "snap = \<lparr>ts_topic_id = tid, ts_queue_level = tc_queue_level t, ts_nodes = map ?conv ?ns,
     ts_runtime = \<lparr>rt_topic_id = tid, rt_active_priority = None, rt_current_node_id = tc_current_node_id t,
       rt_running_node_ids = tc_running_node_ids t, rt_last_worked_node_id = tc_last_worked_node_id t,
       rt_last_worked_at = tc_last_worked_at t, rt_switch_count = tc_switch_count t,
       rt_priority_dirty = tc_priority_dirty t\<rparr>\<rparr>"
  have ids: "set (map nq_node_id ?ns) = node_ids_of tid (rs_nodes s)"
    by (auto simp: node_ids_of_def)
  have opt: "normalize_optional_string v = v" if "set_option v \<subseteq> node_ids_of tid (rs_nodes s)" for v
    using that trimmed by (cases v) (auto simp: normalize_optional_string_def)
  have lvl: "level_normalize (tc_queue_level t) = tc_queue_level t"
    using row by (cases "tc_queue_level t") (auto simp: topic_row_ok_def)
  have "build_topic_snapshot now tid s = and_then (snapshot_validate snap) (\<lambda>_. Inr snap)"
    using row t'(2) opt
    by (simp add: build_topic_snapshot_def scan Let_def snapshot_normalize_def runtime_normalize_def
      topic_def snap_def list_nodes_def lvl topic_row_ok_def normalize_optional_string_def[of None] comp_def)
  then have "is_ok (build_topic_snapshot now tid s) \<longleftrightarrow> snapshot_validate snap = Inr ()"
    by (cases "snapshot_validate snap") simp_all
  also have "\<dots> \<longleftrightarrow> snapshot_ok snap" by (rule snapshot_validate_iff_ok)
  also have "\<dots> \<longleftrightarrow> (\<forall>n\<in>set ?ns. queue_row_ok n) \<and> rank_labels_agree (map ?conv ?ns)"
    using row t'(2) tid ids distinct_topic_nodes[OF rows_okD(2)[OF ok], of tid]
    by (auto simp: snapshot_ok_def snap_def topic_row_ok_def normalized_node_ok image_image comp_def)
  also have "rank_labels_agree (map ?conv ?ns) \<longleftrightarrow> topic_labels_agree tid s"
    unfolding rank_labels_agree_def topic_labels_agree_def by simp blast
  finally show ?thesis unfolding set_filter by blast
qed

section \<open>Rank labels\<close>

lemma labels_agree_cong:
  "rs_nodes t = rs_nodes s \<Longrightarrow> topic_labels_agree tid t = topic_labels_agree tid s"
  by (simp add: topic_labels_agree_def)

text \<open>A table in which one node got a priority that fits the others.\<close>

lemma labels_agree_replace:
  assumes agree: "topic_labels_agree tid s"
    and others: "\<And>a. a \<in> set (rs_nodes t) \<Longrightarrow> nq_topic_id a = tid \<Longrightarrow> nq_node_id a \<noteq> nid \<Longrightarrow> a \<in> set (rs_nodes s)"
    and named: "\<And>a. a \<in> set (rs_nodes t) \<Longrightarrow> nq_topic_id a = tid \<Longrightarrow> nq_node_id a = nid \<Longrightarrow>
      nq_priority_rank a = np_rank p \<and> nq_priority_label a = np_label p"
    and fits: "\<forall>n\<in>set (rs_nodes s). nq_topic_id n = tid \<longrightarrow> nq_node_id n \<noteq> nid \<longrightarrow>
       nq_priority_rank n = np_rank p \<longrightarrow> nq_priority_label n = np_label p"
  shows "topic_labels_agree tid t"
  unfolding topic_labels_agree_def
proof (intro ballI impI)
  fix a b
  assume a: "a \<in> set (rs_nodes t)" "nq_topic_id a = tid" and b: "b \<in> set (rs_nodes t)" "nq_topic_id b = tid"
    and rank: "nq_priority_rank a = nq_priority_rank b"
  show "nq_priority_label a = nq_priority_label b"
  proof (cases "nq_node_id a = nid")
    case True
    note a' = named[OF a True]
    show ?thesis
      using a' rank named[OF b] others[OF b] fits b(2) by (cases "nq_node_id b = nid") (simp, metis)
  next
    case False
    note a' = others[OF a False]
    show ?thesis
      using a' False rank named[OF b] others[OF b] fits a(2) b(2) agree
      unfolding topic_labels_agree_def by (cases "nq_node_id b = nid") metis+
  qed
qed

text \<open>
  Enqueues keep one label per rank in every topic, whatever is enqueued.
\<close>

theorem enqueue_keeps_labels:
  assumes ok: "rows_ok s" and agree: "topic_labels_agree x s"
    and op: "upsert_enqueue_node now req s = (r, t)"
  shows "topic_labels_agree x t"
  using op
proof (cases rule: upsert_enqueue_cases)
  case (conflict e)
  then show ?thesis using agree labels_agree_cong[OF ensure_topic_Inr(2)[OF conflict(2)]] by simp
next
  case (committed c s1)
  let ?tid = "eq_topic_id req" and ?nid = "eq_node_id req"
  let ?p = "node_is ?tid ?nid"
  have agree1: "topic_labels_agree x s1"
    using agree labels_agree_cong[OF ensure_topic_Inr(2)[OF committed(2)]] by simp
  note tx = enqueue_tx_nodes[OF committed(4), simplified]
  have others: "a \<in> set (rs_nodes s1)" if "a \<in> set (rs_nodes t)" "\<not> ?p a" for a
  proof -
    have "a \<in> set (filter (\<lambda>q. \<not> ?p q) (rs_nodes t))" using that by simp
    then have "a \<in> set (filter (\<lambda>q. \<not> ?p q) (rs_nodes s1))" using tx(2) by simp
    then show ?thesis by simp
  qed
  show ?thesis
  proof (cases "x = ?tid")
    case False
    then have "a \<in> set (rs_nodes s1)" if "a \<in> set (rs_nodes t)" "nq_topic_id a = x" for a
      using others that by auto
    then show ?thesis using agree1 unfolding topic_labels_agree_def by blast
  next
    case True
    obtain n where n: "List.find ?p (rs_nodes t) = Some n"
        "nq_priority_rank n = np_rank (eq_priority req) \<and> nq_priority_label n = np_label (eq_priority req)"
      using tx(3) by (auto simp: row_defs split: option.splits)
    have ok_t: "rows_ok t" using rows_ok_upsert_enqueue_node[OF ok op] .
    have unique: "a = n" if "a \<in> set (rs_nodes t)" "nq_topic_id a = x" "nq_node_id a = ?nid" for a
      using find_SomeD[OF n(1)] that True by (intro inj_on_key_eq[OF rows_okD(2)[OF ok_t]]) auto
    show ?thesis
    proof (rule labels_agree_replace[OF agree1])
      show "a \<in> set (rs_nodes s1)" if "a \<in> set (rs_nodes t)" "nq_topic_id a = x" "nq_node_id a \<noteq> ?nid" for a
        using others that by auto
      show "nq_priority_rank a = np_rank (eq_priority req) \<and> nq_priority_label a = np_label (eq_priority req)"
        if "a \<in> set (rs_nodes t)" "nq_topic_id a = x" "nq_node_id a = ?nid" for a
        using unique[OF that] n(2) by simp
      show "\<forall>n\<in>set (rs_nodes s1). nq_topic_id n = x \<longrightarrow> nq_node_id n \<noteq> ?nid \<longrightarrow>
          nq_priority_rank n = np_rank (eq_priority req) \<longrightarrow> nq_priority_label n = np_label (eq_priority req)"
        using committed(3) unfolding True mapping_ok_iff[OF agree1[unfolded True]] .
    qed
  qed
qed (simp add: agree)

section \<open>Priority plans\<close>

definition assign_last :: "time \<Rightarrow> string \<Rightarrow> worker_priority_assignment list \<Rightarrow> node_queue_state \<Rightarrow> node_queue_state" where
  "assign_last now tid plan r =
     (if nq_topic_id r \<noteq> tid \<or> nq_is_priority_node r \<or> nq_node_id r = '''' then r
      else case last_assignment plan (nq_node_id r) of None \<Rightarrow> r | Some a \<Rightarrow> assigned_row now a r)"

definition planned_row ::
  "time \<Rightarrow> string \<Rightarrow> worker_priority_assignment list \<Rightarrow> string option \<Rightarrow> node_queue_state \<Rightarrow> node_queue_state" where
  "planned_row now tid plan pn r =
     (if nq_topic_id r = tid \<and> pn = Some (nq_node_id r) then succeeded_row now (assign_last now tid plan r)
      else assign_last now tid plan r)"

lemma last_assignment_Cons:
  "last_assignment (a # plan) nid = (case last_assignment plan nid of
     Some b \<Rightarrow> Some b | None \<Rightarrow> if wa_node_id a = nid then Some a else None)"
  by (cases "last_assignment plan nid")
    (simp_all add: last_assignment_def find_append_none find_append_some)

lemma assign_last_Cons:
  "assign_last now tid (a # plan) r =
     assign_last now tid plan
       (if wa_node_id a \<noteq> '''' \<and> node_is tid (wa_node_id a) r \<and> \<not> nq_is_priority_node r
        then assigned_row now a r else r)"
  by (auto simp: assign_last_def last_assignment_Cons assigned_row_def split: option.splits)

lemma apply_assignments_map: "apply_assignments now tid plan ns = map (assign_last now tid plan) ns"
proof (induction plan arbitrary: ns)
  case Nil
  have "assign_last now tid [] r = r" for r by (simp add: assign_last_def last_assignment_def)
  then show ?case by simp
next
  case (Cons a plan)
  show ?case
    by (simp add: Cons update_where_def assign_last_Cons)
qed

lemma assign_last_key [simp]:
  "nq_topic_id (assign_last now tid plan r) = nq_topic_id r"
  "nq_node_id (assign_last now tid plan r) = nq_node_id r"
  by (simp_all add: assign_last_def assigned_row_def split: option.split)

lemma apply_plan_rows:
  assumes "rows_ok s"
  shows "apply_priority_plan now tid plan s = (case List.find (topic_is tid) (rs_topics s) of
      None \<Rightarrow> (Inl ErrNotFound, s)
    | Some row \<Rightarrow> (Inr (), s\<lparr>
        rs_nodes := map (planned_row now tid plan (nullable_to_string_ptr (tc_priority_node_id row))) (rs_nodes s),
        rs_topics := update_where (topic_is tid) (planned_topic now) (rs_topics s)\<rparr>))"
proof -
  define s2 where "s2 = upd_topics (update_where (topic_is tid) (planned_topic now))
    (upd_nodes (apply_assignments now tid plan) s)"
  have find: "List.find (topic_is tid) (rs_topics s2) =
      map_option (planned_topic now) (List.find (topic_is tid) (rs_topics s))"
    by (simp add: s2_def find_topic_update planned_topic_def)
  have plan: "apply_priority_plan now tid plan s = (case get_topic tid s2 of Inl e \<Rightarrow> (Inl e, s)
      | Inr topic \<Rightarrow> (Inr (), finish_priority_node now tid (tc_priority_node_id topic) s2))"
    unfolding apply_priority_plan_def run_tx_def apply_priority_plan_tx_def Let_def s2_def[symmetric]
    by (cases "get_topic tid s2") simp_all
  show ?thesis
  proof (cases "List.find (topic_is tid) (rs_topics s)")
    case None
    then have "get_topic tid s2 = Inl ErrNotFound" using find by (simp add: get_topic_def)
    with plan None show ?thesis by simp
  next
    case (Some row)
    have lvl: "level_validate (tc_queue_level row) = Inr ()"
      using rows_okD(4)[OF assms find_topic_Some(1)[OF Some]] by (simp add: topic_row_ok_def)
    let ?pn = "nullable_to_string_ptr (tc_priority_node_id row)"
    obtain topic where topic: "get_topic tid s2 = Inr topic" "tc_priority_node_id topic = ?pn"
      using find Some lvl by (simp add: get_topic_def scan_topic_def planned_topic_def)
    have row_eq: "planned_row now tid plan pn r = (case pn of None \<Rightarrow> assign_last now tid plan r
        | Some nid \<Rightarrow> if node_is tid nid (assign_last now tid plan r) then succeeded_row now (assign_last now tid plan r)
            else assign_last now tid plan r)" for pn r
      by (auto simp: planned_row_def split: option.split)
    have fin: "finish_priority_node now tid ?pn s2 = s\<lparr>
        rs_nodes := map (planned_row now tid plan ?pn) (rs_nodes s),
        rs_topics := update_where (topic_is tid) (planned_topic now) (rs_topics s)\<rparr>"
    proof (cases ?pn)
      case None
      then show ?thesis by (simp add: finish_priority_node_def s2_def apply_assignments_map row_eq)
    next
      case pn: (Some nid)
      have "map (planned_row now tid plan (Some nid)) ns =
          update_where (node_is tid nid) (succeeded_row now) (map (assign_last now tid plan) ns)" for ns
        by (simp add: update_where_def row_eq)
      with pn show ?thesis by (simp add: finish_priority_node_def s2_def apply_assignments_map)
    qed
    show ?thesis unfolding plan topic fin Some option.case sum.case ..
  qed
qed

text \<open>
  What a priority plan does: for an unknown topic, an error and no change; otherwise the
  last assignment that names a business node of the topic decides its rank, label and queue position, the
  priority node is marked succeeded, all other rows stay, the topic is clean and its plan version is
  one higher, all in one commit.
\<close>

theorem apply_plan_effect:
  assumes "rows_ok s"
  shows "apply_priority_plan now tid plan s = (case List.find (topic_is tid) (rs_topics s) of
      None \<Rightarrow> (Inl ErrNotFound, s)
    | Some row \<Rightarrow> (Inr (), s\<lparr>
        rs_nodes := map (planned_row now tid plan (nullable_to_string_ptr (tc_priority_node_id row))) (rs_nodes s),
        rs_topics := update_where (topic_is tid) (planned_topic now) (rs_topics s)\<rparr>))"
  using assms by (rule apply_plan_rows)

section \<open>Queue levels\<close>

lemma promote_level_valid: "level_validate l = Inr () \<Longrightarrow> level_validate (promote_level l) = Inr ()"
  by (cases l) simp_all

lemma aged_topic_id [simp]: "tc_topic_id (aged_topic now threshold t) = tc_topic_id t"
  by (simp add: aged_topic_def)

lemma aged_topic_served [simp]: "tc_last_served_at (aged_topic now threshold t) = tc_last_served_at t"
  by (simp add: aged_topic_def)

lemma aged_topic_valid:
  "level_validate (tc_queue_level t) = Inr () \<Longrightarrow> level_validate (tc_queue_level (aged_topic now threshold t)) = Inr ()"
  by (simp add: aged_topic_def promote_level_valid)

text \<open>One iteration, and then the loop, over topics whose stored rows still have the times they were listed with.\<close>

lemma promote_topic_step:
  assumes row: "List.find (topic_is tid) (rs_topics s) = Some t" and lvl: "level_validate (tc_queue_level t) = Inr ()"
    and dist: "distinct (map tc_topic_id (rs_topics s))" and aged: "aged now threshold t"
  shows "promote_topic now tid s = (Inr (), upd_topics (update_where (topic_is tid) (aged_topic now threshold)) s)"
proof -
  let ?l = "promote_level (tc_queue_level t)"
  note t = find_topic_Some[OF row]
  have only: "r = t" if "r \<in> set (rs_topics s)" "topic_is tid r" for r
    using inj_on_key_eq[OF dist that(1) t(1)] that(2) t(2) by simp
  have eq: "update_where (topic_is tid) (aged_topic now threshold) (rs_topics s) =
      update_where (topic_is tid) (\<lambda>r. if ?l \<noteq> tc_queue_level t then r\<lparr>tc_queue_level := ?l, tc_updated_at := now\<rparr> else r) (rs_topics s)"
    unfolding update_where_def
  proof (rule map_cong[OF refl])
    fix r
    assume "r \<in> set (rs_topics s)"
    then show "(if topic_is tid r then aged_topic now threshold r else r) =
      (if topic_is tid r then if ?l \<noteq> tc_queue_level t then r\<lparr>tc_queue_level := ?l, tc_updated_at := now\<rparr> else r else r)"
      using only[of r] aged by (auto simp: aged_topic_def)
  qed
  show ?thesis
  proof (cases "?l = tc_queue_level t")
    case True
    then have "update_where (topic_is tid) (aged_topic now threshold) (rs_topics s) = rs_topics s"
      unfolding eq by (simp add: update_where_def map_idI)
    then show ?thesis
      using row lvl True by (simp add: promote_topic_def shift_topic_def get_topic_def scan_topic_def)
  next
    case False
    then show ?thesis
      using row lvl promote_level_valid[OF lvl]
      by (simp add: promote_topic_def shift_topic_def get_topic_def scan_topic_def eq set_topic_queue_level_def)
  qed
qed

definition age_listed :: "time \<Rightarrow> time \<Rightarrow> string set \<Rightarrow> topic_control_state \<Rightarrow> topic_control_state" where
  "age_listed now threshold ids r = (if tc_topic_id r \<in> ids then aged_topic now threshold r else r)"

lemma promote_loop_effect:
  assumes "distinct (map tc_topic_id (rs_topics s))" and "distinct (map tc_topic_id ts)"
    and "\<And>r. r \<in> set (rs_topics s) \<Longrightarrow> level_validate (tc_queue_level r) = Inr ()"
    and "\<And>t. t \<in> set ts \<Longrightarrow> \<exists>r\<in>set (rs_topics s). tc_topic_id r = tc_topic_id t \<and> tc_last_served_at r = tc_last_served_at t"
  shows "promote_loop now threshold ts s =
    (Inr (), upd_topics (map (age_listed now threshold (set (map tc_topic_id ts)))) s)"
  using assms
proof (induction ts arbitrary: s)
  case Nil
  have "map (age_listed now threshold {}) rows = rows" for rows
    by (simp add: age_listed_def map_idI)
  then show ?case by simp
next
  case (Cons t ts)
  let ?id = "tc_topic_id t" and ?rest = "set (map tc_topic_id ts)"
  obtain r where r: "r \<in> set (rs_topics s)" "tc_topic_id r = ?id" "tc_last_served_at r = tc_last_served_at t"
    using Cons.prems(4)[of t] by auto
  have find: "List.find (topic_is ?id) (rs_topics s) = Some r"
    using find_distinct[OF Cons.prems(1) r(1)] r(2) by simp
  have aged_r: "aged now threshold r = aged now threshold t" by (simp add: aged_def r(3))
  let ?s1 = "upd_topics (update_where (topic_is ?id) (aged_topic now threshold)) s"
  have one: "promote_loop now threshold (t # ts) s = promote_loop now threshold ts ?s1"
  proof (cases "aged now threshold t")
    case True
    then show ?thesis
      using promote_topic_step[OF find Cons.prems(3)[OF r(1)] Cons.prems(1)] aged_r by simp
  next
    case False
    have "aged_topic now threshold q = q" if "q \<in> set (rs_topics s)" "topic_is ?id q" for q
      using inj_on_key_eq[OF Cons.prems(1) that(1) r(1)] that(2) r(2) False aged_r by (simp add: aged_topic_def)
    then have "update_where (topic_is ?id) (aged_topic now threshold) (rs_topics s) = rs_topics s"
      unfolding update_where_def by (simp add: map_idI)
    then show ?thesis using False by simp
  qed
  have "promote_loop now threshold ts ?s1 = (Inr (), upd_topics (map (age_listed now threshold ?rest)) ?s1)"
  proof (rule Cons.IH)
    show "distinct (map tc_topic_id (rs_topics ?s1))"
      using Cons.prems(1) map_key_update_where[of tc_topic_id "aged_topic now threshold"] by simp
    show "distinct (map tc_topic_id ts)" using Cons.prems(2) by simp
    show "level_validate (tc_queue_level q) = Inr ()" if "q \<in> set (rs_topics ?s1)" for q
      using that Cons.prems(3) aged_topic_valid by (auto simp: set_update_where)
    show "\<exists>q\<in>set (rs_topics ?s1). tc_topic_id q = tc_topic_id u \<and> tc_last_served_at q = tc_last_served_at u"
      if "u \<in> set ts" for u
    proof -
      obtain q where q: "q \<in> set (rs_topics s)" "tc_topic_id q = tc_topic_id u" "tc_last_served_at q = tc_last_served_at u"
        using Cons.prems(4)[of u] \<open>u \<in> set ts\<close> by auto
      let ?q = "if topic_is ?id q then aged_topic now threshold q else q"
      have "?q \<in> set (rs_topics ?s1)" using q(1) by (auto simp: update_where_def)
      moreover have "tc_topic_id ?q = tc_topic_id u" "tc_last_served_at ?q = tc_last_served_at u"
        using q(2,3) by simp_all
      ultimately show ?thesis by blast
    qed
  qed
  moreover have "map (age_listed now threshold ?rest) (update_where (topic_is ?id) (aged_topic now threshold) rows) =
      map (age_listed now threshold (insert ?id ?rest)) rows" for rows
    using Cons.prems(2) by (auto simp: update_where_def age_listed_def)
  ultimately show ?case unfolding one by simp
qed

lemma promote_aged_rows:
  assumes ok: "rows_ok s" and pos: "0 < threshold"
  shows "promote_aged_topics now threshold s =
    (Inr (), s\<lparr>rs_topics := map (aged_topic now threshold) (rs_topics s)\<rparr>)"
proof -
  let ?scan = "\<lambda>r. r\<lparr>
     tc_priority_node_id := nullable_to_string_ptr (tc_priority_node_id r),
     tc_last_priority_error := nullable_to_string_ptr (tc_last_priority_error r),
     tc_current_node_id := nullable_to_string_ptr (tc_current_node_id r),
     tc_last_worked_node_id := nullable_to_string_ptr (tc_last_worked_node_id r)\<rparr>"
  have lvl: "level_validate (tc_queue_level r) = Inr ()" if "r \<in> set (rs_topics s)" for r
    using rows_okD(4)[OF ok that] by (simp add: topic_row_ok_def)
  then have list: "list_topics s = Inr (map ?scan (rs_topics s))"
    unfolding list_topics_def by (intro traverse_total) (simp add: scan_topic_def)
  have ids: "map tc_topic_id (map ?scan (rs_topics s)) = map tc_topic_id (rs_topics s)" by simp
  have "promote_loop now threshold (map ?scan (rs_topics s)) s =
      (Inr (), upd_topics (map (age_listed now threshold (set (map tc_topic_id (map ?scan (rs_topics s)))))) s)"
    by (rule promote_loop_effect) (use rows_okD(1)[OF ok] lvl in \<open>auto simp: comp_def\<close>)
  also have "map (age_listed now threshold (set (map tc_topic_id (map ?scan (rs_topics s))))) (rs_topics s) =
      map (aged_topic now threshold) (rs_topics s)"
    unfolding ids by (simp add: age_listed_def)
  finally show ?thesis using pos by (simp add: promote_aged_topics_def list)
qed

text \<open>
  Ageing, for a positive threshold: every topic that was served at least the threshold ago
  moves up by exactly one level (topics already at L0 stay), and every other topic, in particular one never served, and
  every node row stays as it is.
\<close>

theorem promote_aged_effect:
  assumes ok: "rows_ok s" and pos: "0 < threshold"
  shows "promote_aged_topics now threshold s =
    (Inr (), s\<lparr>rs_topics := map (aged_topic now threshold) (rs_topics s)\<rparr>)"
  using assms by (rule promote_aged_rows)

section \<open>Reachable stores\<close>


section \<open>A concrete store\<close>

definition sample_request :: "string \<Rightarrow> enqueue_request" where
  "sample_request nid = \<lparr>eq_topic_id = ''t'', eq_node_id = nid, eq_node_name = ''build'',
     eq_session_id = '' s1 '', eq_agent_spec = empty_agent_spec,
     eq_priority = \<lparr>np_label = ''interactive'', np_rank = 1\<rparr>, eq_idempotency_key = '''',
     eq_mark_priority_dirty = True\<rparr>"

definition sample_store :: runtime_store where
  "sample_store = \<lparr>rs_topics = [new_topic_row 5 ''t''],
     rs_nodes = [enqueued_row 5 ((sample_request ''a'')\<lparr>eq_session_id := ''s1''\<rparr>)], rs_history = []\<rparr>"

lemmas store_eval = upsert_enqueue_node_def ensure_topic_def run_tx_def enqueue_tx_def priority_validate_def
  ensure_priority_rank_label_mapping_def mark_topic_dirty_def sample_request_def sample_store_def
  empty_runtime_store_def row_defs request_session_def trim_space_def is_space_def Let_def get_node_def
  nullable_to_string_ptr_def

lemma sample_enqueue: "upsert_enqueue_node 5 (sample_request ''a'') empty_runtime_store = (Inr True, sample_store)"
  by (simp add: store_eval)


lemma sample_rows_ok: "rows_ok sample_store"
  using rows_ok_upsert_enqueue_node[OF rows_ok_empty sample_enqueue] .

theorem enqueue_commit_witness:
  "\<exists>n. get_node ''t'' ''a'' sample_store = Inr n \<and> nq_status n = NodeStatusReady \<and> nq_session_id n = Some ''s1''"
  using enqueue_commit[OF sample_enqueue] by (auto simp: store_eval)

definition conflicting_request :: enqueue_request where
  "conflicting_request = (sample_request ''b'')\<lparr>eq_priority := \<lparr>np_label = ''later'', np_rank = 1\<rparr>\<rparr>"

lemma conflict_computed: "\<exists>e. upsert_enqueue_node 6 conflicting_request sample_store =
    (Inl e, snd (upsert_enqueue_node 6 conflicting_request sample_store))"
  by (simp add: store_eval conflicting_request_def)

theorem enqueue_refused_no_change_witness:
  "snd (upsert_enqueue_node 6 conflicting_request sample_store) = sample_store"
  using conflict_computed enqueue_refused_no_change[OF sample_rows_ok] by blast

lemma sample_labels: "topic_labels_agree tid sample_store"
  by (simp add: topic_labels_agree_def store_eval)

theorem enqueue_accepted_iff_witness:
  "is_ok (fst (upsert_enqueue_node 6 (sample_request ''b'') sample_store)) \<and>
   \<not> is_ok (fst (upsert_enqueue_node 6 conflicting_request sample_store))"
  using enqueue_accepted_iff[OF sample_labels, of 6 "sample_request ''b''"]
    enqueue_accepted_iff[OF sample_labels, of 6 conflicting_request]
  by (simp add: conflicting_request_def store_eval)

theorem enqueue_keeps_labels_witness:
  "topic_labels_agree ''t'' (snd (upsert_enqueue_node 6 (sample_request ''b'') sample_store))"
  by (rule enqueue_keeps_labels[OF sample_rows_ok sample_labels]) (rule prod.collapse[symmetric])

theorem run_then_finish_witness:
  "\<exists>t. mark_node_finished 8 ''t'' ''a'' NodeStatusSucceeded (mark_node_running 7 ''t'' ''a'' sample_store) = (Inr (), t)"
proof -
  have "List.find (topic_is ''t'') (rs_topics sample_store) = Some (new_topic_row 5 ''t'')"
    by (simp add: store_eval)
  from run_then_finish[OF this, of "''a''" NodeStatusSucceeded 8 7] show ?thesis
    by (auto simp: trim_space_def is_space_def)
qed

lemma sample_ids: "node_ids_of ''t'' (rs_nodes sample_store) = {''a''}"
  by (simp add: node_ids_of_def store_eval)

theorem build_snapshot_iff_witness: "is_ok (build_topic_snapshot 9 ''t'' sample_store)"
proof -
  have "''t'' \<in> set (map tc_topic_id (rs_topics sample_store))" by (simp add: store_eval)
  moreover have "\<forall>n\<in>set (rs_nodes sample_store). nq_topic_id n = ''t'' \<longrightarrow> queue_row_ok n"
    by (simp add: queue_row_ok_def store_eval)
  ultimately show ?thesis
    using build_snapshot_iff[OF sample_rows_ok, of "''t''" 9] sample_ids sample_labels
    by (simp add: trim_space_def is_space_def)
qed

definition sample_snapshot :: topic_snapshot where
  "sample_snapshot = \<lparr>ts_topic_id = ''t'', ts_queue_level = TopicQueueLevelL0,
     ts_nodes = [\<lparr>tn_node_id = ''a'', tn_name = ''build'', tn_priority = \<lparr>np_label = ''interactive'', np_rank = 1\<rparr>,
       tn_status = NodeStatusReady, tn_entered_priority_at = 5, tn_last_worked_at = None\<rparr>],
     ts_runtime = \<lparr>rt_topic_id = ''t'', rt_active_priority = None, rt_current_node_id = None,
       rt_running_node_ids = [], rt_last_worked_node_id = None, rt_last_worked_at = None,
       rt_switch_count = 0, rt_priority_dirty = True\<rparr>\<rparr>"

lemma sample_snapshot_computed: "build_topic_snapshot 9 ''t'' sample_store = Inr sample_snapshot"
  by (simp add: build_topic_snapshot_def get_topic_def scan_topic_def store_eval list_nodes_def
    scan_node_def to_topic_node_def snapshot_normalize_def node_normalize_def runtime_normalize_def
    normalize_optional_string_def snapshot_validate_def runtime_validate_def node_validate_def
    validate_known_reference_def sample_snapshot_def)

theorem runnable_iff_snapshot_witness: "has_runnable_nodes ''t'' sample_store"
  using runnable_iff_snapshot[OF sample_snapshot_computed] by (simp add: sample_snapshot_def)

theorem apply_plan_effect_witness:
  "fst (apply_priority_plan 9 ''t'' [\<lparr>wa_node_id = ''a'', wa_label = ''later'', wa_rank = 4\<rparr>] sample_store) = Inr () \<and>
   fst (apply_priority_plan 9 ''nope'' [] sample_store) = Inl ErrNotFound"
  unfolding apply_plan_effect[OF sample_rows_ok] by (simp add: store_eval)

theorem promote_aged_effect_witness:
  "fst (promote_aged_topics 9 3 sample_store) = Inr ()"
  unfolding promote_aged_effect[OF sample_rows_ok zero_less_numeral] by simp

end
