(* ===== verification/Engine.thy ===== *)
theory Engine
  imports RunStoreProps ResultState
begin

text \<open>
  The scheduler's engine (internal/schedule/engine.go): enqueueing a business node and one tick of the dispatcher.

  The engine works on the runtime store and on a world of type \<open>'w\<close> that it reaches only through the
  \<open>VOSGateway\<close> and \<open>WorkerGateway\<close> interfaces and the clock, which are the fields of \<open>gateways\<close>.
  Nothing is assumed of them: a gateway may return anything and change its world in any way. An operation
  returns its value or its error with the state it left (ResultState). Logging and contexts are not modelled.
\<close>

section \<open>Interfaces\<close>

datatype event_value = EvString string | EvBool bool | EvInt int

type_synonym event_payload = "(string \<times> event_value) list"

record session_event_record =
  se_id :: string
  se_session_id :: string
  se_seq :: int

record 'w gateways =
  gw_ensure_priority_node :: "string \<Rightarrow> ('w, sched_error, string) op"
  gw_ensure_session :: "string \<Rightarrow> string option \<Rightarrow> ('w, sched_error, string) op"
  gw_append_authorized :: "string \<Rightarrow> event_payload \<Rightarrow> ('w, sched_error, session_event_record) op"
  gw_append_result :: "string \<Rightarrow> event_payload \<Rightarrow> ('w, sched_error, unit) op"
  gw_execute :: "worker_execute_request \<Rightarrow> ('w, sched_error, worker_execute_response) op"
  gw_now :: "'w \<Rightarrow> time \<times> 'w"

record engine_config =
  ec_max_dispatch_per_tick :: int
  ec_default_timeout_ms :: int
  ec_aging_threshold :: time

text \<open>The defaults \<open>NewEngine\<close> fills in (ten minutes are 600 * 10^9 ns).\<close>

definition new_engine_config :: "engine_config \<Rightarrow> engine_config" where
  "new_engine_config c = \<lparr>
     ec_max_dispatch_per_tick = (if ec_max_dispatch_per_tick c \<le> 0 then 1 else ec_max_dispatch_per_tick c),
     ec_default_timeout_ms = (if ec_default_timeout_ms c \<le> 0 then 120000 else ec_default_timeout_ms c),
     ec_aging_threshold = (if ec_aging_threshold c \<le> 0 then 600000000000 else ec_aging_threshold c)\<rparr>"

type_synonym 'w engine_state = "runtime_store \<times> 'w"

section \<open>Calls on the store, the gateways and the clock\<close>

definition with_clock ::
  "'w gateways \<Rightarrow> (time \<Rightarrow> (runtime_store, sched_error, 'a) op) \<Rightarrow> ('w engine_state, sched_error, 'a) op" where
  "with_clock g f st = (case st of (s, w) \<Rightarrow> (case gw_now g w of (now, w') \<Rightarrow>
     (case f now s of (r, s') \<Rightarrow> (r, (s', w')))))"

definition store_write ::
  "'w gateways \<Rightarrow> (time \<Rightarrow> runtime_store \<Rightarrow> runtime_store) \<Rightarrow> ('w engine_state, sched_error, unit) op" where
  "store_write g f = with_clock g (\<lambda>now s. (Inr (), f now s))"

definition store_read :: "(runtime_store \<Rightarrow> sched_error + 'a) \<Rightarrow> ('w engine_state, sched_error, 'a) op" where
  "store_read f st = (f (fst st), st)"

definition outside :: "('w, sched_error, 'a) op \<Rightarrow> ('w engine_state, sched_error, 'a) op" where
  "outside m st = (case st of (s, w) \<Rightarrow> (case m w of (r, w') \<Rightarrow> (r, (s, w'))))"

definition read_clock :: "'w gateways \<Rightarrow> ('w engine_state, sched_error, time) op" where
  "read_clock g st = (case st of (s, w) \<Rightarrow> (case gw_now g w of (now, w') \<Rightarrow> (Inr now, (s, w'))))"

section \<open>Enqueue\<close>

definition normalize_business_enqueue_request :: "enqueue_request \<Rightarrow> sched_error + enqueue_request" where
  "normalize_business_enqueue_request req0 =
     (if eq_topic_id req0 = '''' then Inl (ValidationError ''topic_id must not be empty'')
      else if eq_node_id req0 = '''' then Inl (ValidationError ''node_id must not be empty'')
      else
        let req1 = (if eq_node_name req0 = '''' then req0\<lparr>eq_node_name := eq_node_id req0\<rparr> else req0);
            req = (if np_label (eq_priority req1) = ''''
                   then req1\<lparr>eq_priority := \<lparr>np_label = BusinessNodePriorityLabel, np_rank = BusinessNodePriorityRank\<rparr>\<rparr>
                   else req1)
        in and_then (priority_validate (eq_priority req)) (\<lambda>_.
             if np_label (eq_priority req) \<noteq> BusinessNodePriorityLabel \<or>
                np_rank (eq_priority req) \<noteq> BusinessNodePriorityRank
             then Inl (PriorityNotFixed BusinessNodePriorityLabel BusinessNodePriorityRank)
             else Inr (req\<lparr>eq_mark_priority_dirty := True\<rparr>)))"

definition enqueue_result_of :: "enqueue_request \<Rightarrow> bool \<Rightarrow> topic_control_state \<Rightarrow> enqueue_result" where
  "enqueue_result_of req created topic = \<lparr>er_topic_id = eq_topic_id req, er_node_id = eq_node_id req,
     er_created = created, er_priority_dirty = tc_priority_dirty topic,
     er_priority_node_id = (case tc_priority_node_id topic of Some i \<Rightarrow> i | None \<Rightarrow> ''''),
     er_queue_level = tc_queue_level topic, er_idempotency_key = eq_idempotency_key req\<rparr>"

definition enqueue :: "'w gateways \<Rightarrow> enqueue_request \<Rightarrow> ('w engine_state, sched_error, enqueue_result) op" where
  "enqueue g request =
     seq (of_result (normalize_business_enqueue_request request)) (\<lambda>req.
     seq (with_clock g (\<lambda>now. upsert_enqueue_node now req)) (\<lambda>created.
     seq (store_read (get_topic (eq_topic_id req))) (\<lambda>topic.
     return_ok (enqueue_result_of req created topic))))"

section \<open>Choosing a topic\<close>

fun queue_level_order :: "topic_queue_level \<Rightarrow> int" where
  "queue_level_order TopicQueueLevelL0 = 0"
| "queue_level_order TopicQueueLevelL1 = 1"
| "queue_level_order TopicQueueLevelL2 = 2"
| "queue_level_order l = 3"

definition served_or_zero :: "topic_control_state \<Rightarrow> time" where
  "served_or_zero t = (case tc_last_served_at t of None \<Rightarrow> 0 | Some at \<Rightarrow> at)"

definition topic_lt :: "topic_control_state \<Rightarrow> topic_control_state \<Rightarrow> bool" where
  "topic_lt a b =
     (if tc_queue_level a = tc_queue_level b then
        (if served_or_zero a = served_or_zero b then tc_topic_id a < tc_topic_id b
         else served_or_zero a < served_or_zero b)
      else queue_level_order (tc_queue_level a) < queue_level_order (tc_queue_level b))"

definition select_topic :: "runtime_store \<Rightarrow> sched_error + topic_control_state option" where
  "select_topic s = and_then (list_topics s) (\<lambda>topics.
     Inr (List.find (\<lambda>t. has_runnable_nodes (tc_topic_id t) s) (sort_slice topic_lt topics)))"

section \<open>The priority node\<close>

definition priority_agent_spec :: agent_spec where
  "priority_agent_spec = empty_agent_spec\<lparr>as_mode := ''priority''\<rparr>"

definition ensure_priority_node :: "'w gateways \<Rightarrow> string \<Rightarrow> ('w engine_state, sched_error, unit) op" where
  "ensure_priority_node g tid =
     seq (store_read (get_topic tid)) (\<lambda>topic.
       case tc_priority_node_id topic of
         Some _ \<Rightarrow> return_ok ()
       | None \<Rightarrow>
           seq (map_err (WrapError ''ensure priority node in vos'') (outside (gw_ensure_priority_node g tid))) (\<lambda>nid.
             with_clock g (\<lambda>now. upsert_priority_node now tid nid priority_agent_spec)))"

definition worker_candidate :: "node_queue_state \<Rightarrow> worker_candidate_node" where
  "worker_candidate n = \<lparr>wc_node_id = nq_node_id n, wc_name = nq_name n, wc_status = nq_status n,
     wc_current_priority = \<lparr>np_label = nq_priority_label n, np_rank = nq_priority_rank n\<rparr>,
     wc_entered_priority_at = nq_entered_priority_at n, wc_last_worked_at = nq_last_worked_at n\<rparr>"

definition worker_candidate_lt :: "worker_candidate_node \<Rightarrow> worker_candidate_node \<Rightarrow> bool" where
  "worker_candidate_lt a b =
     (if np_rank (wc_current_priority a) = np_rank (wc_current_priority b) then
        (if wc_entered_priority_at a = wc_entered_priority_at b then wc_node_id a < wc_node_id b
         else wc_entered_priority_at a < wc_entered_priority_at b)
      else np_rank (wc_current_priority a) < np_rank (wc_current_priority b))"

definition load_priority_candidates :: "string \<Rightarrow> runtime_store \<Rightarrow> worker_candidate_node list" where
  "load_priority_candidates tid s = sort_slice worker_candidate_lt
     (map worker_candidate (filter (\<lambda>n. \<not> nq_is_priority_node n \<and> \<not> status_is_terminal (nq_status n))
        (list_nodes tid s)))"

section \<open>Dispatching one node\<close>

text \<open>The Unix epoch is 62135596800 s after Go's zero time.\<close>

definition unix_nano :: "time \<Rightarrow> int" where
  "unix_nano t = t - 62135596800 * 1000000000"

definition dispatch_request_id :: "string \<Rightarrow> time \<Rightarrow> string" where
  "dispatch_request_id nid now = nid @ ''-'' @ show_int (unix_nano now)"

definition authorized_payload :: "string \<Rightarrow> string \<Rightarrow> string \<Rightarrow> event_payload" where
  "authorized_payload rid tid nid = [(''kind'', EvString ''dispatch_authorized''),
     (''request_id'', EvString rid), (''topic_id'', EvString tid), (''node_id'', EvString nid)]"

definition result_payload :: "string \<Rightarrow> string \<Rightarrow> string \<Rightarrow> worker_execute_response \<Rightarrow> event_payload" where
  "result_payload rid tid nid resp = [(''kind'', EvString ''dispatch_result''),
     (''request_id'', EvString rid), (''topic_id'', EvString tid), (''node_id'', EvString nid),
     (''status'', EvString (ws_status resp)), (''event_id'', EvString (ws_event_id resp)),
     (''output'', EvString (ws_output resp)), (''error'', EvString (ws_error resp)),
     (''retryable'', EvBool (ws_retryable resp)), (''duration_ms'', EvInt (ws_duration_ms resp))]"

definition resolve_node_status :: "node_queue_state \<Rightarrow> worker_execute_response \<Rightarrow> node_status" where
  "resolve_node_status node resp =
     (case ws_next_node_status resp of
        Some st \<Rightarrow> st
      | None \<Rightarrow>
          if nq_is_priority_node node then
            (if ws_status resp = ''succeeded'' then NodeStatusSucceeded else NodeStatusFailed)
          else if ws_status resp = ''succeeded'' then NodeStatusReady
          else if ws_retryable resp then NodeStatusRetryCooldown
          else NodeStatusFailed)"

definition worker_request ::
  "engine_config \<Rightarrow> string \<Rightarrow> string \<Rightarrow> node_queue_state \<Rightarrow> string \<Rightarrow> string \<Rightarrow> string \<Rightarrow>
   runtime_store \<Rightarrow> worker_execute_request" where
  "worker_request cfg tid nid node sid rid event_id s =
     \<lparr>wr_request_id = rid, wr_topic_id = tid, wr_node_id = nid, wr_node_name = nq_name node,
      wr_node_kind = (if nq_is_priority_node node then ''priority'' else ''normal''),
      wr_agent_spec = nq_agent_spec node, wr_session_id = sid, wr_event_id = event_id,
      wr_timeout_ms = ec_default_timeout_ms cfg,
      wr_priority_candidates = (if nq_is_priority_node node then load_priority_candidates tid s else [])\<rparr>"

text \<open>What \<open>dispatchOne\<close> does with the outcome of a priority node.\<close>

definition finish_priority :: "'w gateways \<Rightarrow> string \<Rightarrow> worker_execute_response \<Rightarrow> ('w engine_state, sched_error, unit) op" where
  "finish_priority g tid resp =
     (if ws_status resp = ''succeeded''
      then with_clock g (\<lambda>now. apply_priority_plan now tid (ws_priority_plan resp))
      else store_write g (\<lambda>now. clear_priority_dirty now tid
        (Some (if ws_error resp = '''' then ''priority node execution failed'' else ws_error resp))))"

definition dispatch_record_of ::
  "string \<Rightarrow> string \<Rightarrow> worker_execute_request \<Rightarrow> worker_execute_response \<Rightarrow> dispatch_record" where
  "dispatch_record_of tid nid req resp = \<lparr>dr_request_id = wr_request_id req, dr_topic_id = tid, dr_node_id = nid,
     dr_node_kind = wr_node_kind req, dr_session_id = wr_session_id req, dr_event_id = wr_event_id req,
     dr_status = ws_status resp, dr_retryable = ws_retryable resp, dr_error = ws_error resp,
     dr_duration_ms = ws_duration_ms resp\<rparr>"

text \<open>The second half of \<open>dispatchOne\<close>, from the worker's answer on.\<close>

definition complete_dispatch ::
  "'w gateways \<Rightarrow> string \<Rightarrow> string \<Rightarrow> node_queue_state \<Rightarrow> worker_execute_request \<Rightarrow> worker_execute_response \<Rightarrow>
   ('w engine_state, sched_error, dispatch_record) op" where
  "complete_dispatch g tid nid node req resp =
     seq (with_clock g (\<lambda>now. mark_node_finished now tid nid (resolve_node_status node resp))) (\<lambda>_.
     seq (if nq_is_priority_node node then finish_priority g tid resp else return_ok ()) (\<lambda>_.
     seq (ignore_result (outside (gw_append_result g (wr_session_id req)
            (result_payload (wr_request_id req) tid nid resp)))) (\<lambda>_.
     seq (store_write g (\<lambda>now. record_dispatch now (dispatch_record_of tid nid req resp))) (\<lambda>_.
     return_ok (dispatch_record_of tid nid req resp)))))"

definition execute_dispatch ::
  "'w gateways \<Rightarrow> string \<Rightarrow> string \<Rightarrow> node_queue_state \<Rightarrow> worker_execute_request \<Rightarrow>
   ('w engine_state, sched_error, dispatch_record) op" where
  "execute_dispatch g tid nid node req =
     attempt (outside (gw_execute g req)) (\<lambda>r. case r of
       Inl e \<Rightarrow> seq (ignore_result (with_clock g (\<lambda>now. mark_node_finished now tid nid NodeStatusFailed))) (\<lambda>_.
         return_err (WrapError ''worker execute failed'' e))
     | Inr resp \<Rightarrow> complete_dispatch g tid nid node req resp)"

text \<open>The first half, from \<open>EnsureSession\<close> to the worker's call.\<close>

definition authorize_dispatch ::
  "'w gateways \<Rightarrow> engine_config \<Rightarrow> string \<Rightarrow> string \<Rightarrow> node_queue_state \<Rightarrow>
   ('w engine_state, sched_error, worker_execute_request) op" where
  "authorize_dispatch g cfg tid nid node =
     seq (map_err (WrapError (''ensure session for node '' @ nid))
       (outside (gw_ensure_session g nid (nq_session_id node)))) (\<lambda>sid.
     seq (if nq_session_id node \<noteq> Some sid then store_write g (\<lambda>now. set_node_session_id now tid nid sid)
          else return_ok ()) (\<lambda>_.
     seq (read_clock g) (\<lambda>now.
     seq (map_err (WrapError ''append dispatch authorized event'')
       (outside (gw_append_authorized g sid (authorized_payload (dispatch_request_id nid now) tid nid)))) (\<lambda>ev.
     store_read (\<lambda>s. Inr (worker_request cfg tid nid node sid (dispatch_request_id nid now) (se_id ev) s))))))"

definition dispatch_one ::
  "'w gateways \<Rightarrow> engine_config \<Rightarrow> string \<Rightarrow> string \<Rightarrow> ('w engine_state, sched_error, dispatch_record) op" where
  "dispatch_one g cfg tid nid =
     seq (store_read (get_node tid nid)) (\<lambda>node.
     seq (store_write g (\<lambda>now. mark_node_running now tid nid)) (\<lambda>_.
     seq (authorize_dispatch g cfg tid nid node) (\<lambda>req.
     execute_dispatch g tid nid node req)))"

section \<open>One tick\<close>

definition empty_tick_result :: tick_result where
  "empty_tick_result = \<lparr>tr_selected_topic_id = '''', tr_queue_level = None, tr_dispatched = [], tr_reasons = []\<rparr>"

definition selected_result :: "topic_control_state \<Rightarrow> tick_result" where
  "selected_result topic = empty_tick_result\<lparr>tr_selected_topic_id := tc_topic_id topic,
     tr_queue_level := Some (tc_queue_level topic)\<rparr>"

definition prepare_priority :: "'w gateways \<Rightarrow> topic_control_state \<Rightarrow> ('w engine_state, sched_error, unit) op" where
  "prepare_priority g topic =
     (if tc_priority_dirty topic then
        seq (ensure_priority_node g (tc_topic_id topic)) (\<lambda>_.
          with_clock g (\<lambda>now. mark_priority_node_ready now (tc_topic_id topic)))
      else return_ok ())"

definition build_plan ::
  "'w gateways \<Rightarrow> int \<Rightarrow> string \<Rightarrow> ('w engine_state, sched_error, dispatch_plan) op" where
  "build_plan g limit tid =
     seq (with_clock g (\<lambda>now s. (build_topic_snapshot now tid s, s))) (\<lambda>snapshot.
     of_result (plan_topic_dispatch snapshot limit))"

definition after_dispatch :: "'w gateways \<Rightarrow> string \<Rightarrow> ('w engine_state, sched_error, unit) op" where
  "after_dispatch g tid =
     seq (store_write g (\<lambda>now. touch_topic_served now tid)) (\<lambda>_.
     seq (store_read (\<lambda>s. Inr (has_runnable_nodes tid s))) (\<lambda>runnable.
     if runnable then with_clock g (\<lambda>now. demote_topic now tid) else return_ok ()))"

text \<open>A tick returns its result, complete or partial, with the error that stopped it, if any.\<close>

definition tick_dispatch ::
  "'w gateways \<Rightarrow> engine_config \<Rightarrow> topic_control_state \<Rightarrow> dispatch_plan \<Rightarrow> 'w engine_state \<Rightarrow>
   tick_result \<times> sched_error option \<times> 'w engine_state" where
  "tick_dispatch g cfg topic plan st =
     (let result = (selected_result topic)\<lparr>tr_reasons := dp_reasons plan\<rparr>
      in if dp_dispatch_node_ids plan = [] then (result, None, st)
         else (case collect (dispatch_one g cfg (tc_topic_id topic)) (dp_dispatch_node_ids plan) st of
            (records, Some e, st') \<Rightarrow> (result\<lparr>tr_dispatched := records\<rparr>, Some e, st')
          | (records, None, st') \<Rightarrow> (case after_dispatch g (tc_topic_id topic) st' of
              (Inl e, st'') \<Rightarrow> (result\<lparr>tr_dispatched := records\<rparr>, Some e, st'')
            | (Inr _, st'') \<Rightarrow> (result\<lparr>tr_dispatched := records\<rparr>, None, st''))))"

definition tick_topic ::
  "'w gateways \<Rightarrow> engine_config \<Rightarrow> int \<Rightarrow> topic_control_state \<Rightarrow> 'w engine_state \<Rightarrow>
   tick_result \<times> sched_error option \<times> 'w engine_state" where
  "tick_topic g cfg limit topic st =
     (if tc_priority_dirty topic \<and> tc_running_node_ids topic \<noteq> [] then
        ((selected_result topic)\<lparr>tr_reasons := [''priority_node waits until current sessionevent calls complete'']\<rparr>,
         None, st)
      else (case seq (prepare_priority g topic) (\<lambda>_. build_plan g limit (tc_topic_id topic)) st of
          (Inl e, st') \<Rightarrow> (selected_result topic, Some e, st')
        | (Inr plan, st') \<Rightarrow> tick_dispatch g cfg topic plan st'))"

definition tick_limit :: "engine_config \<Rightarrow> int \<Rightarrow> int" where
  "tick_limit cfg max_dispatch = (if max_dispatch \<le> 0 then ec_max_dispatch_per_tick cfg else max_dispatch)"

definition tick ::
  "'w gateways \<Rightarrow> engine_config \<Rightarrow> int \<Rightarrow> 'w engine_state \<Rightarrow> tick_result \<times> sched_error option \<times> 'w engine_state" where
  "tick g cfg max_dispatch st =
     (if tick_limit cfg max_dispatch \<le> 0 then
        (empty_tick_result, Some (ValidationError ''max dispatch must be positive''), st)
      else (case seq (with_clock g (\<lambda>now. promote_aged_topics now (ec_aging_threshold cfg))) (\<lambda>_. store_read select_topic) st of
          (Inl e, st') \<Rightarrow> (empty_tick_result, Some e, st')
        | (Inr None, st') \<Rightarrow> (empty_tick_result\<lparr>tr_reasons := [''no runnable topic found'']\<rparr>, None, st')
        | (Inr (Some topic), st') \<Rightarrow> tick_topic g cfg (tick_limit cfg max_dispatch) topic st'))"

end
