(* ===== verification/EngineProps.thy ===== *)
theory EngineProps
  imports Engine
begin

text \<open>
  Correctness of the engine: what an enqueue stores, which topic a tick serves, that a tick
  keeps the store's invariant and the other topics' nodes whatever the gateways do, how much it
  dispatches, and what each way out of a dispatch leaves behind.
\<close>

section \<open>Triples of the engine's calls\<close>

text \<open>An assertion about the tables, whatever the world is.\<close>

abbreviation on_store :: "(runtime_store \<Rightarrow> bool) \<Rightarrow> 'w engine_state \<Rightarrow> bool" where
  "on_store P st \<equiv> P (fst st)"

lemma triple_with_clock:
  assumes "\<And>now. triple P (f now) (\<lambda>v. Q v) (\<lambda>e. E e)"
  shows "triple (on_store P) (with_clock g f) (\<lambda>v. on_store (Q v)) (\<lambda>e. on_store (E e))"
  using assms by (force simp: triple_def with_clock_def split: prod.splits sum.splits)

lemma keeps_with_clock [keeps_intros]:
  "(\<And>now. keeps P (f now)) \<Longrightarrow> keeps (on_store P) (with_clock g f)"
  by (rule triple_with_clock)

lemma triple_store_write:
  "(\<And>now s. P s \<Longrightarrow> Q (f now s)) \<Longrightarrow>
   triple (on_store P) (store_write g f) (\<lambda>_. on_store Q) E"
  by (simp add: triple_def store_write_def with_clock_def split: prod.split)

lemma keeps_store_write [keeps_intros]:
  "(\<And>now s. P s \<Longrightarrow> P (f now s)) \<Longrightarrow> keeps (on_store P) (store_write g f)"
  by (rule triple_store_write)

lemma keeps_store_read [keeps_intros]: "keeps (on_store P) (store_read f)"
  by (rule keepsI) (simp add: store_read_def)

lemma triple_store_read:
  "triple (on_store P) (store_read f) (\<lambda>v. on_store (\<lambda>s. P s \<and> f s = Inr v)) (\<lambda>_. on_store P)"
  by (rule tripleI) (simp_all add: store_read_def)

lemma keeps_outside [keeps_intros]: "keeps (on_store P) (outside m)"
  by (rule keepsI) (auto simp: outside_def split: prod.splits)

lemma keeps_read_clock [keeps_intros]: "keeps (on_store P) (read_clock g)"
  by (rule keepsI) (auto simp: read_clock_def split: prod.splits)

section \<open>The node keys never change during a dispatch\<close>

text \<open>The assertion the steps of a dispatch carry: the invariant, and that the node is in the queue.\<close>

definition queued :: "string \<Rightarrow> string \<Rightarrow> runtime_store \<Rightarrow> bool" where
  "queued tid nid s \<longleftrightarrow> rows_ok s \<and> nid \<in> node_ids_of tid (rs_nodes s)"

lemma queued_rows: "queued tid nid s \<Longrightarrow> rows_ok s"
  by (simp add: queued_def)

lemma mark_node_running_nodes:
  "rs_nodes (mark_node_running now tid nid s) = update_where (node_is tid nid) (running_row now) (rs_nodes s)"
  by (simp add: mark_node_running_def sync_topic_running_node_ids_def)

lemma mark_node_finished_nodes:
  assumes "mark_node_finished now tid nid status s = (r, t)"
  shows "rs_nodes t = rs_nodes s \<or> rs_nodes t = update_where (node_is tid nid) (finished_row now status) (rs_nodes s)"
proof (cases rule: run_tx_cases[of "mark_node_finished_tx now tid nid status" s])
  case rollback
  then show ?thesis using assms by (simp add: mark_node_finished_def)
next
  case (commit c s')
  from commit(1) obtain add where "s' = upd_topics (update_where (topic_is tid) (worked_topic now nid add \<circ>
        synced_topic now (running_ids tid (update_where (node_is tid nid) (finished_row now status) (rs_nodes s))) ''''))
      (upd_nodes (update_where (node_is tid nid) (finished_row now status)) s)"
    by (rule mark_node_finished_commit)
  then have "rs_nodes s' = update_where (node_is tid nid) (finished_row now status) (rs_nodes s)" by simp
  moreover have "t = s'" using assms commit(2) by (simp add: mark_node_finished_def)
  ultimately show ?thesis by simp
qed

lemma planned_row_key [simp]:
  "nq_topic_id (planned_row now tid plan pn r) = nq_topic_id r"
  "nq_node_id (planned_row now tid plan pn r) = nq_node_id r"
  by (simp_all add: planned_row_def succeeded_row_def)

lemma apply_priority_plan_nodes:
  assumes "rows_ok s" and "apply_priority_plan now tid plan s = (r, t)"
  shows "rs_nodes t = rs_nodes s \<or> (\<exists>pn. rs_nodes t = map (planned_row now tid plan pn) (rs_nodes s))"
  using assms(2) unfolding apply_plan_rows[OF assms(1)] by (auto split: option.splits)

lemma queued_mark_node_running: "queued tid nid s \<Longrightarrow> queued tid nid (mark_node_running now tid nid s)"
  by (auto simp: queued_def mark_node_running_nodes rows_ok_mark_node_running node_ids_of_update row_defs)

lemma queued_mark_node_finished:
  assumes "queued tid nid s" and "mark_node_finished now tid nid status s = (r, t)"
  shows "queued tid nid t"
proof -
  have "node_ids_of tid (rs_nodes t) = node_ids_of tid (rs_nodes s)"
    using mark_node_finished_nodes[OF assms(2)] by (auto simp: node_ids_of_update row_defs)
  then show ?thesis
    using assms rows_ok_mark_node_finished[OF queued_rows[OF assms(1)] _ assms(2)] by (simp add: queued_def)
qed

lemma queued_apply_priority_plan:
  assumes "queued tid nid s" and "apply_priority_plan now tid' plan s = (r, t)"
  shows "queued tid nid t"
proof -
  have "map node_key (map (planned_row now tid' plan pn) ns) = map node_key ns" for pn ns by simp
  then have "node_ids_of tid (rs_nodes t) = node_ids_of tid (rs_nodes s)"
    using apply_priority_plan_nodes[OF queued_rows[OF assms(1)] assms(2)] by (metis node_ids_of_cong)
  then show ?thesis
    using assms rows_ok_apply_priority_plan[OF queued_rows[OF assms(1)] assms(2)] by (simp add: queued_def)
qed

lemma queued_set_node_session_id: "queued tid nid s \<Longrightarrow> queued tid nid (set_node_session_id now tid' nid' sid s)"
  using rows_ok_set_node_session_id[of s now tid' nid' sid]
  by (simp add: queued_def set_node_session_id_def node_ids_of_update)

lemma queued_clear_priority_dirty: "queued tid nid s \<Longrightarrow> queued tid nid (clear_priority_dirty now tid' err s)"
  by (simp add: queued_def rows_ok_clear_priority_dirty) (simp add: clear_priority_dirty_def)

lemma queued_record_dispatch: "queued tid nid s \<Longrightarrow> queued tid nid (record_dispatch now d s)"
  by (simp add: queued_def rows_ok_record_dispatch) (simp add: record_dispatch_def)

lemmas queued_ops = queued_mark_node_running queued_mark_node_finished queued_apply_priority_plan
  queued_set_node_session_id queued_clear_priority_dirty queued_record_dispatch

section \<open>A dispatch keeps what its store operations keep\<close>

text \<open>
  The contract between a dispatch and an assertion about the tables: an assertion that the six store
  operations of \<open>dispatchOne\<close> keep is kept by the whole dispatch, whatever the gateways answer and
  wherever the dispatch stops.
\<close>

locale dispatch_invariant =
  fixes I :: "runtime_store \<Rightarrow> bool" and tid nid :: string
  assumes keep_running: "I s \<Longrightarrow> I (mark_node_running now tid nid s)"
    and keep_finished: "I s \<Longrightarrow> mark_node_finished now tid nid status s = (r, t) \<Longrightarrow> I t"
    and keep_plan: "I s \<Longrightarrow> apply_priority_plan now tid plan s = (r', t) \<Longrightarrow> I t"
    and keep_session: "I s \<Longrightarrow> I (set_node_session_id now tid nid sid s)"
    and keep_clear: "I s \<Longrightarrow> I (clear_priority_dirty now tid err s)"
    and keep_record: "I s \<Longrightarrow> I (record_dispatch now d s)"
begin

lemma authorize_keeps: "keeps (on_store I) (authorize_dispatch g cfg tid nid node)"
  unfolding authorize_dispatch_def by (intro keeps_intros keep_session)

lemma finish_priority_keeps: "keeps (on_store I) (finish_priority g tid resp)"
  unfolding finish_priority_def
  by (intro keeps_intros keep_clear keepsI[of I]) (auto intro: keep_plan)

lemma mark_finished_keeps:
  "keeps (on_store I) (with_clock g (\<lambda>now. mark_node_finished now tid nid status))"
  by (intro keeps_with_clock keepsI) (auto intro: keep_finished)

lemma complete_keeps: "keeps (on_store I) (complete_dispatch g tid nid node req resp)"
  unfolding complete_dispatch_def
  by (intro keeps_seq mark_finished_keeps finish_priority_keeps keeps_if keeps_return_ok
      keeps_ignore_result keeps_outside keeps_store_write keep_record)

lemma execute_keeps: "keeps (on_store I) (execute_dispatch g tid nid node req)"
  unfolding execute_dispatch_def
  by (intro keeps_attempt keeps_outside keeps_case_sum keeps_seq keeps_ignore_result mark_finished_keeps
      keeps_return_err complete_keeps)

lemma started_keeps: "keeps (on_store I) (seq (store_write g (\<lambda>now. mark_node_running now tid nid)) (\<lambda>_.
    seq (authorize_dispatch g cfg tid nid node) (\<lambda>req. execute_dispatch g tid nid node req)))"
  by (intro keeps_seq keeps_store_write keep_running authorize_keeps execute_keeps)

end

text \<open>Every assertion it is used with includes \<open>queued\<close>, which \<open>GetNode\<close> establishes.\<close>

interpretation queued_inv: dispatch_invariant "queued tid nid" tid nid for tid nid
  by unfold_locales (auto intro: queued_ops)

lemma dispatch_one_keeps: "keeps (on_store rows_ok) (dispatch_one g cfg tid nid)"
proof -
  have "triple (on_store rows_ok) (store_read (get_node tid nid))
      (\<lambda>_. on_store (queued tid nid)) (\<lambda>_. on_store rows_ok)"
    by (rule triple_conseq[OF triple_store_read]) (auto simp: queued_def dest: get_node_id)
  moreover have "triple (on_store (queued tid nid)) (seq (store_write g (\<lambda>now. mark_node_running now tid nid)) (\<lambda>_.
      seq (authorize_dispatch g cfg tid nid node) (\<lambda>req. execute_dispatch g tid nid node req)))
      (\<lambda>_. on_store rows_ok) (\<lambda>_. on_store rows_ok)" for node
    by (rule triple_conseq[OF queued_inv.started_keeps]) (auto dest: queued_rows)
  ultimately show ?thesis unfolding dispatch_one_def by (rule triple_seq)
qed

text \<open>The node rows of the other topics, which a dispatch never touches.\<close>

definition other_nodes :: "string \<Rightarrow> runtime_store \<Rightarrow> node_queue_state list" where
  "other_nodes tid s = filter (\<lambda>r. nq_topic_id r \<noteq> tid) (rs_nodes s)"

definition isolated :: "string \<Rightarrow> node_queue_state list \<Rightarrow> runtime_store \<Rightarrow> bool" where
  "isolated tid others s \<longleftrightarrow> rows_ok s \<and> other_nodes tid s = others"

lemma other_nodes_update:
  assumes "\<And>r. nq_topic_id (f r) = nq_topic_id r"
  shows "filter (\<lambda>r. nq_topic_id r \<noteq> tid) (update_where (\<lambda>r. nq_topic_id r = tid \<and> nq_node_id r = nid) f ns) =
    filter (\<lambda>r. nq_topic_id r \<noteq> tid) ns"
  using assms by (induction ns) auto

lemma other_nodes_planned:
  "filter (\<lambda>r. nq_topic_id r \<noteq> tid) (map (planned_row now tid plan pn) ns) = filter (\<lambda>r. nq_topic_id r \<noteq> tid) ns"
proof (induction ns)
  case (Cons r ns)
  have "nq_topic_id r \<noteq> tid \<Longrightarrow> planned_row now tid plan pn r = r"
    by (simp add: planned_row_def assign_last_def)
  with Cons show ?case by simp
qed simp

interpretation isolated_inv: dispatch_invariant
  "\<lambda>s. queued tid nid s \<and> isolated tid others s" tid nid for tid nid others
proof
  fix s t now plan status sid err d r r'
  assume s: "queued tid nid s \<and> isolated tid others s"
  show "queued tid nid (mark_node_running now tid nid s) \<and> isolated tid others (mark_node_running now tid nid s)"
    using s queued_mark_node_running[of tid nid s now]
    by (simp add: isolated_def queued_rows other_nodes_def mark_node_running_nodes other_nodes_update row_defs)
  show "queued tid nid t \<and> isolated tid others t" if op: "mark_node_finished now tid nid status s = (r, t)"
  proof -
    have "queued tid nid t" using s queued_mark_node_finished op by blast
    then show ?thesis
      using s mark_node_finished_nodes[OF op]
      by (auto simp: isolated_def queued_rows other_nodes_def other_nodes_update row_defs)
  qed
  show "queued tid nid t \<and> isolated tid others t" if op: "apply_priority_plan now tid plan s = (r', t)"
  proof -
    have "queued tid nid t" using s queued_apply_priority_plan op by blast
    moreover have "other_nodes tid t = other_nodes tid s"
      using s apply_priority_plan_nodes[OF _ op] by (auto simp: isolated_def other_nodes_def other_nodes_planned)
    ultimately show ?thesis using s by (simp add: isolated_def queued_rows)
  qed
  show "queued tid nid (set_node_session_id now tid nid sid s) \<and> isolated tid others (set_node_session_id now tid nid sid s)"
    using s queued_set_node_session_id[of tid nid s now tid nid sid]
    by (simp add: isolated_def queued_rows) (simp add: other_nodes_def set_node_session_id_def other_nodes_update)
  show "queued tid nid (clear_priority_dirty now tid err s) \<and> isolated tid others (clear_priority_dirty now tid err s)"
    using s queued_clear_priority_dirty[of tid nid s now tid err]
    by (simp add: isolated_def queued_rows) (simp add: other_nodes_def clear_priority_dirty_def)
  show "queued tid nid (record_dispatch now d s) \<and> isolated tid others (record_dispatch now d s)"
    using s queued_record_dispatch[of tid nid s now d]
    by (simp add: isolated_def queued_rows) (simp add: other_nodes_def record_dispatch_def)
qed

lemma dispatch_one_isolated: "keeps (on_store (isolated tid others)) (dispatch_one g cfg tid nid)"
proof -
  have "triple (on_store (isolated tid others)) (store_read (get_node tid nid))
      (\<lambda>_. on_store (\<lambda>s. queued tid nid s \<and> isolated tid others s)) (\<lambda>_. on_store (isolated tid others))"
    by (rule triple_conseq[OF triple_store_read]) (auto simp: queued_def isolated_def dest: get_node_id)
  moreover have "triple (on_store (\<lambda>s. queued tid nid s \<and> isolated tid others s))
      (seq (store_write g (\<lambda>now. mark_node_running now tid nid)) (\<lambda>_.
        seq (authorize_dispatch g cfg tid nid node) (\<lambda>req. execute_dispatch g tid nid node req)))
      (\<lambda>_. on_store (isolated tid others)) (\<lambda>_. on_store (isolated tid others))" for node
    by (rule triple_conseq[OF isolated_inv.started_keeps]) auto
  ultimately show ?thesis unfolding dispatch_one_def by (rule triple_seq)
qed

section \<open>A tick keeps the invariant\<close>

lemma prepare_keeps: "keeps (on_store rows_ok) (prepare_priority g topic)"
  unfolding prepare_priority_def ensure_priority_node_def
  by (intro keeps_intros keepsI[of rows_ok])
    (auto intro: rows_ok_upsert_priority_node rows_ok_mark_priority_node_ready)

lemma build_plan_keeps: "keeps (on_store P) (build_plan g limit tid)"
  unfolding build_plan_def by (intro keeps_seq keeps_with_clock keeps_of_result) (auto intro: keepsI)

lemma after_dispatch_keeps: "keeps (on_store rows_ok) (after_dispatch g tid)"
  unfolding after_dispatch_def
  by (intro keeps_seq keeps_store_write keeps_store_read keeps_if keeps_return_ok keeps_with_clock
      rows_ok_touch_topic_served keepsI[of rows_ok])
    (auto intro: rows_ok_shift_topic simp: demote_topic_def)

lemma tick_dispatch_keeps:
  assumes "rows_ok (fst st)" and "tick_dispatch g cfg topic plan st = (res, err, st')"
  shows "rows_ok (fst st')"
proof -
  obtain recs e u where c: "collect (dispatch_one g cfg (tc_topic_id topic)) (dp_dispatch_node_ids plan) st = (recs, e, u)"
    by (metis prod_cases3)
  have u: "on_store rows_ok u" using collect_keeps[OF dispatch_one_keeps assms(1) c] .
  obtain r v where v: "after_dispatch g (tc_topic_id topic) u = (r, v)" by (meson surj_pair)
  have "on_store rows_ok v" using keepsD[OF after_dispatch_keeps u v] .
  then show ?thesis
    using assms u c v by (auto simp: tick_dispatch_def Let_def split: if_splits option.splits sum.splits)
qed

lemma prepare_build_keeps:
  "keeps (on_store rows_ok) (seq (prepare_priority g topic) (\<lambda>_. build_plan g limit (tc_topic_id topic)))"
  by (intro keeps_seq prepare_keeps build_plan_keeps)

text \<open>The tick of a chosen topic, taken apart.\<close>

lemma tick_topic_cases:
  assumes "tick_topic g cfg limit topic st = (res, err, st')"
  obtains (waits) "tc_priority_dirty topic" and "tc_running_node_ids topic \<noteq> []" and "st' = st"
      and "err = None" and "res = (selected_result topic)\<lparr>tr_reasons := [''priority_node waits until current sessionevent calls complete'']\<rparr>"
  | (no_plan) e where "seq (prepare_priority g topic) (\<lambda>_. build_plan g limit (tc_topic_id topic)) st = (Inl e, st')"
      and "res = selected_result topic" and "err = Some e"
  | (planned) plan u v where "prepare_priority g topic st = (Inr (), u)"
      and "build_plan g limit (tc_topic_id topic) u = (Inr plan, v)"
      and "tick_dispatch g cfg topic plan v = (res, err, st')"
      and "\<not> (tc_priority_dirty topic \<and> tc_running_node_ids topic \<noteq> [])"
proof (cases "tc_priority_dirty topic \<and> tc_running_node_ids topic \<noteq> []")
  case True
  then show ?thesis using assms waits by (auto simp: tick_topic_def)
next
  case False
  obtain r u where u: "seq (prepare_priority g topic) (\<lambda>_. build_plan g limit (tc_topic_id topic)) st = (r, u)"
    by (meson surj_pair)
  have res: "tick_topic g cfg limit topic st = (case (r, u) of
          (Inl e, st') \<Rightarrow> (selected_result topic, Some e, st')
        | (Inr plan, st') \<Rightarrow> tick_dispatch g cfg topic plan st')"
    unfolding tick_topic_def u[symmetric] using False by presburger
  show ?thesis
  proof (cases r)
    case (Inl e)
    then show ?thesis using res assms u no_plan by simp
  next
    case (Inr plan)
    then obtain w where "prepare_priority g topic st = (Inr (), w)" "build_plan g limit (tc_topic_id topic) w = (Inr plan, u)"
      using u unfolding Inr seq_Inr_iff by auto
    then show ?thesis using res assms Inr planned False by simp
  qed
qed

lemma tick_topic_keeps:
  assumes "rows_ok (fst st)" and "tick_topic g cfg limit topic st = (res, err, st')"
  shows "rows_ok (fst st')"
  using assms(2)
proof (cases rule: tick_topic_cases)
  case waits
  then show ?thesis using assms(1) by simp
next
  case (no_plan e)
  show ?thesis using keepsD[OF prepare_build_keeps assms(1) no_plan(1)] .
next
  case (planned plan u v)
  have "rows_ok (fst u)" using keepsD[OF prepare_keeps assms(1) planned(1)] .
  then have "rows_ok (fst v)" using planned(2) by (rule keepsD[OF build_plan_keeps])
  then show ?thesis using planned(3) by (rule tick_dispatch_keeps)
qed

text \<open>The first steps of a tick: ageing and the choice of the topic.\<close>

definition tick_start :: "'w gateways \<Rightarrow> engine_config \<Rightarrow> ('w engine_state, sched_error, topic_control_state option) op" where
  "tick_start g cfg = seq (with_clock g (\<lambda>now. promote_aged_topics now (ec_aging_threshold cfg))) (\<lambda>_. store_read select_topic)"

lemma tick_start_keeps: "keeps (on_store rows_ok) (tick_start g cfg)"
  unfolding tick_start_def
  by (intro keeps_seq keeps_with_clock keeps_store_read keepsI[of rows_ok]) (auto intro: rows_ok_promote_aged_topics)

text \<open>A tick, taken apart: no positive limit, an error or no topic at the start, or a served topic.\<close>

lemma tick_cases:
  assumes "tick g cfg m st = (res, err, st')"
  obtains (no_limit) "st' = st" and "tick_limit cfg m \<le> 0" and "tr_dispatched res = []"
  | (start_error) e where "tick_start g cfg st = (Inl e, st')" and "err = Some e" and "tr_dispatched res = []"
  | (idle) "tick_start g cfg st = (Inr None, st')" and "err = None" and "tr_dispatched res = []"
  | (served) topic u where "0 < tick_limit cfg m" and "tick_start g cfg st = (Inr (Some topic), u)"
      and "tick_topic g cfg (tick_limit cfg m) topic u = (res, err, st')"
proof (cases "tick_limit cfg m \<le> 0")
  case True
  then show ?thesis using assms no_limit by (auto simp: tick_def empty_tick_result_def)
next
  case False
  obtain r u where u: "tick_start g cfg st = (r, u)" by (meson surj_pair)
  show ?thesis
  proof (cases r)
    case (Inl e)
    then show ?thesis
      using assms False u start_error by (auto simp add: tick_def tick_start_def empty_tick_result_def)
  next
    case (Inr x)
    then show ?thesis
      using assms False u idle served by (cases x) (auto simp add: tick_def tick_start_def empty_tick_result_def)
  qed
qed

lemma tick_keeps:
  assumes "rows_ok (fst st)" and "tick g cfg m st = (res, err, st')"
  shows "rows_ok (fst st')"
  using assms(2)
proof (cases rule: tick_cases)
  case (start_error e)
  then show ?thesis using keepsD[OF tick_start_keeps assms(1)] by simp
next
  case idle
  then show ?thesis using keepsD[OF tick_start_keeps assms(1)] by simp
next
  case (served topic u)
  have "rows_ok (fst u)" using keepsD[OF tick_start_keeps assms(1) served(2)] .
  then show ?thesis using served(3) by (rule tick_topic_keeps)
qed (use assms(1) in simp)

text \<open>
  C6. A tick keeps the store's invariant, whatever the gateways and the worker return (any error, any
  node status, any plan) and wherever the tick stops.
\<close>

theorem tick_keeps_rows_ok:
  assumes "rows_ok (fst st)" and "tick g cfg m st = (res, err, st')"
  shows "rows_ok (fst st')"
  using assms by (rule tick_keeps)

section \<open>Which topic is served\<close>

interpretation topics: sort_order topic_lt tc_topic_id "\<lambda>t. level_validate (tc_queue_level t) = Inr ()"
proof
  fix x y z :: topic_control_state
  show "\<not> topic_lt x x" by (simp add: topic_lt_def)
  show "topic_lt x z" if "topic_lt x y" "topic_lt y z"
    using that by (auto simp: topic_lt_def split: if_splits)
  show "topic_lt x y \<or> topic_lt y x"
    if "level_validate (tc_queue_level x) = Inr ()" "level_validate (tc_queue_level y) = Inr ()" "tc_topic_id x \<noteq> tc_topic_id y"
    using that by (cases "tc_queue_level x"; cases "tc_queue_level y") (auto simp: topic_lt_def)
qed

lemma sorted_find_least:
  assumes "sorted_wrt lt xs" and "List.find p xs = Some x" and "y \<in> set xs" and "p y" and "y \<noteq> x"
  shows "lt x y"
  using assms by (induction xs) (auto split: if_splits)

lemma scanned_topic:
  assumes "scan_topic r = Inr t"
  shows "tc_topic_id t = tc_topic_id r" and "tc_queue_level t = tc_queue_level r"
    and "tc_last_served_at t = tc_last_served_at r" and "tc_priority_dirty t = tc_priority_dirty r"
    and "tc_running_node_ids t = tc_running_node_ids r"
    and "tc_priority_node_id t = nullable_to_string_ptr (tc_priority_node_id r)"
  using assms by (auto simp: scan_topic_def result_simps)

definition scanned :: "topic_control_state \<Rightarrow> topic_control_state" where
  "scanned r = r\<lparr>
     tc_priority_node_id := nullable_to_string_ptr (tc_priority_node_id r),
     tc_last_priority_error := nullable_to_string_ptr (tc_last_priority_error r),
     tc_current_node_id := nullable_to_string_ptr (tc_current_node_id r),
     tc_last_worked_node_id := nullable_to_string_ptr (tc_last_worked_node_id r)\<rparr>"

lemma scanned_simps [simp]:
  "tc_topic_id (scanned r) = tc_topic_id r" "tc_queue_level (scanned r) = tc_queue_level r"
  "tc_last_served_at (scanned r) = tc_last_served_at r" "tc_priority_dirty (scanned r) = tc_priority_dirty r"
  "tc_running_node_ids (scanned r) = tc_running_node_ids r"
  "tc_priority_node_id (scanned r) = nullable_to_string_ptr (tc_priority_node_id r)"
  by (simp_all add: scanned_def)

lemma list_topics_ok: "rows_ok s \<Longrightarrow> list_topics s = Inr (map scanned (rs_topics s))"
  unfolding list_topics_def
  by (intro traverse_total) (auto simp: scan_topic_def scanned_def topic_row_ok_def dest: rows_okD(4))

lemma topic_lt_scanned: "topic_lt (scanned a) (scanned b) = topic_lt a b"
  by (simp add: topic_lt_def served_or_zero_def)

text \<open>
  The choice of a topic never fails on a well formed store; it is no topic exactly when none has
  a runnable node; and the chosen topic has one and comes before every other runnable topic: by
  queue level first, then by the time it was last served (never served counts as first), then by its id.
\<close>

theorem select_topic_least:
  assumes "rows_ok s"
  shows "\<exists>choice. select_topic s = Inr choice \<and>
    (choice = None \<longleftrightarrow> (\<forall>u\<in>set (rs_topics s). \<not> has_runnable_nodes (tc_topic_id u) s)) \<and>
    (\<forall>t. choice = Some t \<longrightarrow> (\<exists>row\<in>set (rs_topics s). t = scanned row \<and> has_runnable_nodes (tc_topic_id row) s \<and>
       (\<forall>u\<in>set (rs_topics s). has_runnable_nodes (tc_topic_id u) s \<longrightarrow> tc_topic_id u \<noteq> tc_topic_id row \<longrightarrow>
          queue_level_order (tc_queue_level row) < queue_level_order (tc_queue_level u) \<or>
          (tc_queue_level row = tc_queue_level u \<and>
            (served_or_zero row < served_or_zero u \<or>
             (served_or_zero row = served_or_zero u \<and> tc_topic_id row < tc_topic_id u))))))"
proof -
  let ?run = "\<lambda>t. has_runnable_nodes (tc_topic_id t) s"
  let ?sorted = "sort_slice topic_lt (map scanned (rs_topics s))"
  have choice: "select_topic s = Inr (List.find ?run ?sorted)"
    by (simp add: select_topic_def list_topics_ok[OF assms])
  have dist: "distinct (map tc_topic_id (map scanned (rs_topics s)))"
    using rows_okD(1)[OF assms] by (simp add: comp_def)
  have valid: "\<forall>t\<in>set (map scanned (rs_topics s)). level_validate (tc_queue_level t) = Inr ()"
    using rows_okD(4)[OF assms] by (auto simp: topic_row_ok_def)
  note sorted = topics.sorted_sort[OF valid dist]
  have none: "List.find ?run ?sorted = None \<longleftrightarrow> (\<forall>u\<in>set (rs_topics s). \<not> ?run u)"
    by (auto simp: find_None_iff)
  have least: "\<exists>row\<in>set (rs_topics s). t = scanned row \<and> ?run row \<and>
      (\<forall>u\<in>set (rs_topics s). ?run u \<longrightarrow> tc_topic_id u \<noteq> tc_topic_id row \<longrightarrow> topic_lt row u)"
    if t: "List.find ?run ?sorted = Some t" for t
  proof -
    from find_SomeD[OF t] obtain row where row: "row \<in> set (rs_topics s)" "t = scanned row" "?run row" by auto
    have "topic_lt row u" if u: "u \<in> set (rs_topics s)" "?run u" "tc_topic_id u \<noteq> tc_topic_id row" for u
    proof -
      have "scanned u \<noteq> scanned row" using u(3) by (metis scanned_simps(1))
      then have "topic_lt (scanned row) (scanned u)"
        using sorted_find_least[OF sorted t, of "scanned u"] u row(2) by simp
      then show ?thesis by (simp add: topic_lt_scanned)
    qed
    with row show ?thesis by blast
  qed
  show ?thesis
    unfolding choice sum.inject
    by (intro exI[of _ "List.find ?run ?sorted"] conjI refl none allI impI)
      (drule least, unfold topic_lt_def, meson)
qed

section \<open>What a tick touches\<close>

lemma isolatedI: "rows_ok s \<Longrightarrow> isolated tid (other_nodes tid s) s"
  by (simp add: isolated_def)

lemma ensure_topic_nodes: "ensure_topic now tid s = Inr s1 \<Longrightarrow> other_nodes x s1 = other_nodes x s"
  by (simp add: other_nodes_def ensure_topic_Inr(2))

lemma upsert_priority_node_isolated:
  assumes "isolated tid others s" and "upsert_priority_node now tid nid spec s = (r, t)"
  shows "isolated tid others t"
proof (cases "tid = '''' \<or> nid = ''''")
  case True
  then show ?thesis using assms by (simp add: upsert_priority_node_def)
next
  case False
  obtain s1 where s1: "ensure_topic now tid s = Inr s1" using False by (auto simp: ensure_topic_def)
  have t: "t = set_topic_priority_node now tid nid (upsert_priority_row now tid nid spec s1)"
    using assms(2) False s1 by (simp add: upsert_priority_node_def)
  have "other_nodes tid t = other_nodes tid s1"
    by (simp add: t set_topic_priority_node_def upsert_priority_row_def other_nodes_def
      priority_node_row_def other_nodes_update repriority_row_def)
  then show ?thesis
    using assms rows_ok_upsert_priority_node[OF _ assms(2)] ensure_topic_nodes[OF s1, of tid]
    by (simp add: isolated_def)
qed

lemma mark_priority_node_ready_isolated:
  assumes "isolated tid others s" and "mark_priority_node_ready now tid s = (r, t)"
  shows "isolated tid others t"
proof -
  have "other_nodes tid t = other_nodes tid s"
    using assms(2) by (auto simp: mark_priority_node_ready_def other_nodes_def other_nodes_update ready_row_def
      split: sum.splits option.splits)
  then show ?thesis using assms rows_ok_mark_priority_node_ready[OF _ assms(2)] by (simp add: isolated_def)
qed

lemma prepare_isolated: "keeps (on_store (isolated (tc_topic_id topic) others)) (prepare_priority g topic)"
  unfolding prepare_priority_def ensure_priority_node_def
  by (intro keeps_intros keepsI[of "isolated (tc_topic_id topic) others"])
    (auto intro: upsert_priority_node_isolated mark_priority_node_ready_isolated)

lemma demote_topic_nodes: "demote_topic now tid s = (r, t) \<Longrightarrow> rs_nodes t = rs_nodes s"
  by (auto simp: demote_topic_def shift_topic_def set_topic_queue_level_def split: sum.splits if_splits)

lemma after_dispatch_isolated: "keeps (on_store (isolated tid others)) (after_dispatch g tid')"
proof -
  have "isolated tid others (touch_topic_served now tid' s)" if "isolated tid others s" for now s
    using that rows_ok_touch_topic_served[of s now tid']
    by (simp add: isolated_def) (simp add: touch_topic_served_def other_nodes_def)
  moreover have "isolated tid others t" if "isolated tid others s" "demote_topic now tid' s = (r, t)" for now s r t
    using that rows_ok_shift_topic[of s demote_level now tid' r t] demote_topic_nodes[OF that(2)]
    by (simp add: isolated_def demote_topic_def other_nodes_def)
  ultimately show ?thesis
    unfolding after_dispatch_def
    by (intro keeps_seq keeps_store_write keeps_store_read keeps_if keeps_return_ok keeps_with_clock
        keepsI[of "isolated tid others"]) blast+
qed

text \<open>A dispatch loop, taken apart.\<close>

lemma tick_dispatch_cases:
  assumes "tick_dispatch g cfg topic plan st = (res, err, st')"
  obtains (empty_plan) "dp_dispatch_node_ids plan = []" and "st' = st" and "err = None"
      and "res = (selected_result topic)\<lparr>tr_reasons := dp_reasons plan\<rparr>"
  | (stopped) records e where "collect (dispatch_one g cfg (tc_topic_id topic)) (dp_dispatch_node_ids plan) st = (records, Some e, st')"
      and "res = (selected_result topic)\<lparr>tr_reasons := dp_reasons plan, tr_dispatched := records\<rparr>" and "err = Some e"
  | (all) records u r where "collect (dispatch_one g cfg (tc_topic_id topic)) (dp_dispatch_node_ids plan) st = (records, None, u)"
      and "res = (selected_result topic)\<lparr>tr_reasons := dp_reasons plan, tr_dispatched := records\<rparr>"
      and "after_dispatch g (tc_topic_id topic) u = (r, st')"
proof (cases "dp_dispatch_node_ids plan = []")
  case True
  have "tick_dispatch g cfg topic plan st = ((selected_result topic)\<lparr>tr_reasons := dp_reasons plan\<rparr>, None, st)"
    by (simp add: tick_dispatch_def Let_def True)
  then have "st' = st" "err = None" "res = (selected_result topic)\<lparr>tr_reasons := dp_reasons plan\<rparr>"
    unfolding assms by blast+
  with True show ?thesis by (intro empty_plan)
next
  case False
  obtain recs e u where c: "collect (dispatch_one g cfg (tc_topic_id topic)) (dp_dispatch_node_ids plan) st = (recs, e, u)"
    by (metis prod_cases3)
  show ?thesis
  proof (cases e)
    case (Some e')
    then show ?thesis using assms False c stopped by (auto simp: tick_dispatch_def Let_def)
  next
    case None
    obtain r v where v: "after_dispatch g (tc_topic_id topic) u = (r, v)" by (meson surj_pair)
    then show ?thesis using assms False c None all by (cases r) (auto simp: tick_dispatch_def Let_def)
  qed
qed

lemma tick_dispatch_isolated:
  assumes "isolated (tc_topic_id topic) others (fst st)" and "tick_dispatch g cfg topic plan st = (res, err, st')"
  shows "isolated (tc_topic_id topic) others (fst st')"
  using assms(2)
proof (cases rule: tick_dispatch_cases)
  case (stopped records e)
  show ?thesis using collect_keeps[OF dispatch_one_isolated assms(1) stopped(1)] .
next
  case (all records u r)
  have "isolated (tc_topic_id topic) others (fst u)" using collect_keeps[OF dispatch_one_isolated assms(1) all(1)] .
  then show ?thesis using all(3) by (rule keepsD[OF after_dispatch_isolated])
qed (use assms(1) in simp)

lemma tick_start_nodes:
  assumes "rows_ok (fst st)" and "tick_start g cfg st = (r, u)" and "0 < ec_aging_threshold cfg"
  shows "rs_nodes (fst u) = rs_nodes (fst st)"
  using assms
  by (auto simp: tick_start_def seq_def with_clock_def store_read_def promote_aged_rows split: prod.splits sum.splits)

text \<open>
  A tick changes the node rows of the selected topic only: the rows of every other topic
  are the same before and after, whatever the gateways do and wherever the tick stops.
\<close>

theorem tick_isolates_topics:
  assumes "rows_ok (fst st)" and "0 < ec_aging_threshold cfg" and "tick g cfg m st = (res, err, st')"
  shows "filter (\<lambda>r. nq_topic_id r \<noteq> tr_selected_topic_id res) (rs_nodes (fst st')) =
    filter (\<lambda>r. nq_topic_id r \<noteq> tr_selected_topic_id res) (rs_nodes (fst st))"
  using assms(3)
proof (cases rule: tick_cases)
  case (start_error e)
  then show ?thesis using tick_start_nodes[OF assms(1) start_error(1) assms(2)] by simp
next
  case idle
  then show ?thesis using tick_start_nodes[OF assms(1) idle(1) assms(2)] by simp
next
  case (served topic u)
  let ?tid = "tc_topic_id topic"
  have "rows_ok (fst u)" using keepsD[OF tick_start_keeps assms(1) served(2)] .
  then have iso: "isolated ?tid (other_nodes ?tid (fst u)) (fst u)" by (rule isolatedI)
  have nodes: "rs_nodes (fst u) = rs_nodes (fst st)" using tick_start_nodes[OF assms(1) served(2) assms(2)] .
  have "isolated ?tid (other_nodes ?tid (fst u)) (fst st') \<and> tr_selected_topic_id res = ?tid"
    using served(3)
  proof (cases rule: tick_topic_cases)
    case waits
    then show ?thesis using iso by (simp add: selected_result_def)
  next
    case (no_plan e)
    have "keeps (on_store (isolated ?tid (other_nodes ?tid (fst u))))
        (seq (prepare_priority g topic) (\<lambda>_. build_plan g (tick_limit cfg m) ?tid))"
      by (intro keeps_seq prepare_isolated build_plan_keeps)
    then show ?thesis using keepsD iso no_plan by (fastforce simp: selected_result_def)
  next
    case (planned plan v w)
    have "isolated ?tid (other_nodes ?tid (fst u)) (fst v)" using keepsD[OF prepare_isolated iso planned(1)] .
    then have "isolated ?tid (other_nodes ?tid (fst u)) (fst w)" using planned(2) by (rule keepsD[OF build_plan_keeps])
    moreover have "tr_selected_topic_id res = ?tid"
      using planned(3) by (cases rule: tick_dispatch_cases) (simp_all add: selected_result_def)
    ultimately show ?thesis using tick_dispatch_isolated planned(3) by blast
  qed
  then show ?thesis using nodes by (simp add: isolated_def other_nodes_def)
qed simp

text \<open>What a returned record says.\<close>

lemma execute_dispatch_Inr:
  assumes "execute_dispatch g tid nid node req st = (Inr d, st')"
  obtains resp u where "outside (gw_execute g req) st = (Inr resp, u)"
    and "complete_dispatch g tid nid node req resp u = (Inr d, st')"
proof -
  obtain r u where u: "outside (gw_execute g req) st = (r, u)" by (meson surj_pair)
  show ?thesis
  proof (cases r)
    case (Inl e)
    then show ?thesis
      using assms u by (simp add: execute_dispatch_def attempt_def seq_def ignore_result_def return_err_def)
  next
    case (Inr resp)
    then show ?thesis using assms u that by (simp add: execute_dispatch_def attempt_def)
  qed
qed

lemma complete_dispatch_Inr:
  assumes "complete_dispatch g tid nid node req resp st = (Inr d, st')"
  obtains u v w where "d = dispatch_record_of tid nid req resp"
    and "with_clock g (\<lambda>now. mark_node_finished now tid nid (resolve_node_status node resp)) st = (Inr (), u)"
    and "(if nq_is_priority_node node then finish_priority g tid resp else return_ok ()) u = (Inr (), v)"
    and "ignore_result (outside (gw_append_result g (wr_session_id req)
            (result_payload (wr_request_id req) tid nid resp))) v = (Inr () :: sched_error + unit, w)"
    and "store_write g (\<lambda>now. record_dispatch now d) w = (Inr (), st')"
proof -
  obtain u v w x where "with_clock g (\<lambda>now. mark_node_finished now tid nid (resolve_node_status node resp)) st = (Inr (), u)"
    "(if nq_is_priority_node node then finish_priority g tid resp else return_ok ()) u = (Inr (), v)"
    "ignore_result (outside (gw_append_result g (wr_session_id req)
            (result_payload (wr_request_id req) tid nid resp))) v = (Inr () :: sched_error + unit, w)"
    "store_write g (\<lambda>now. record_dispatch now (dispatch_record_of tid nid req resp)) w = (Inr (), x)"
    "return_ok (dispatch_record_of tid nid req resp) x = (Inr d :: sched_error + dispatch_record, st')"
    using assms unfolding complete_dispatch_def seq_Inr_iff ex_unit_iff by blast
  then show ?thesis using that by (simp add: return_ok_def)
qed

lemma dispatch_one_Inr:
  assumes "dispatch_one g cfg tid nid st = (Inr d, st')"
  obtains node u req v resp w where "get_node tid nid (fst st) = Inr node"
    and "store_write g (\<lambda>now. mark_node_running now tid nid) st = (Inr (), u)"
    and "authorize_dispatch g cfg tid nid node u = (Inr req, v)"
    and "outside (gw_execute g req) v = (Inr resp, w)"
    and "complete_dispatch g tid nid node req resp w = (Inr d, st')"
proof -
  obtain node s0 u req v where "store_read (get_node tid nid) st = (Inr node, s0)"
    "store_write g (\<lambda>now. mark_node_running now tid nid) s0 = (Inr (), u)"
    "authorize_dispatch g cfg tid nid node u = (Inr req, v)"
    "execute_dispatch g tid nid node req v = (Inr d, st')"
    using assms unfolding dispatch_one_def seq_Inr_iff ex_unit_iff by blast
  moreover from this(4) obtain resp w where "outside (gw_execute g req) v = (Inr resp, w)"
    "complete_dispatch g tid nid node req resp w = (Inr d, st')" by (rule execute_dispatch_Inr)
  moreover from calculation(1) have "get_node tid nid (fst st) = Inr node" "s0 = st"
    by (auto simp: store_read_def)
  ultimately show ?thesis using that by blast
qed

lemma dispatch_one_record:
  assumes "dispatch_one g cfg tid nid st = (Inr d, st')"
  shows "dr_topic_id d = tid \<and> dr_node_id d = nid"
proof -
  from assms obtain node req resp w where "complete_dispatch g tid nid node req resp w = (Inr d, st')"
    by (rule dispatch_one_Inr)
  then show ?thesis by (rule complete_dispatch_Inr) (simp add: dispatch_record_of_def)
qed

lemma build_plan_spec:
  assumes "build_plan g limit tid st = (Inr plan, st')"
  obtains snap now where "build_topic_snapshot now tid (fst st) = Inr snap"
    and "plan_topic_dispatch snap limit = Inr plan" and "fst st' = fst st"
  using assms
  by (auto simp: build_plan_def seq_Inr_iff with_clock_def of_result_def split: prod.splits)

lemma snapshot_of_build:
  assumes "build_topic_snapshot now tid s = Inr snap"
  shows "snapshot_ok snap"
  using assms snapshot_validate_iff_ok by (auto simp: build_topic_snapshot_def Let_def result_simps)

lemma collect_dispatch_records:
  assumes "collect (dispatch_one g cfg tid) ids st = (recs, err, st')"
  shows "length recs \<le> length ids" and "map dr_node_id recs = take (length recs) ids"
    and "\<forall>d\<in>set recs. dr_topic_id d = tid"
proof -
  have "list_all2 (\<lambda>nid d. dr_topic_id d = tid \<and> dr_node_id d = nid) (take (length recs) ids) recs"
    by (rule collect_results[OF _ assms]) (rule dispatch_one_record)
  then show "map dr_node_id recs = take (length recs) ids" "\<forall>d\<in>set recs. dr_topic_id d = tid"
    by (auto simp: list_all2_conv_all_nth in_set_conv_nth intro: nth_equalityI)
  show "length recs \<le> length ids" using assms by (rule collect_length)
qed

text \<open>The plan a tick follows is the planner's plan of a valid snapshot of the selected topic.\<close>

lemma tick_dispatched:
  assumes "tick g cfg m st = (res, err, st')" and "tr_dispatched res \<noteq> []"
  obtains topic plan snap now u s where "0 < tick_limit cfg m" and "tick_start g cfg st = (Inr (Some topic), u)"
    and "tr_selected_topic_id res = tc_topic_id topic"
    and "prepare_priority g topic u = (Inr (), s)"
    and "build_topic_snapshot now (tc_topic_id topic) (fst s) = Inr snap"
    and "plan_topic_dispatch snap (tick_limit cfg m) = Inr plan"
    and "length (tr_dispatched res) \<le> length (dp_dispatch_node_ids plan)"
    and "map dr_node_id (tr_dispatched res) = take (length (tr_dispatched res)) (dp_dispatch_node_ids plan)"
    and "\<forall>d\<in>set (tr_dispatched res). dr_topic_id d = tc_topic_id topic"
    and "\<not> (tc_priority_dirty topic \<and> tc_running_node_ids topic \<noteq> [])"
  using assms(1)
proof (cases rule: tick_cases)
  case (served topic u)
  from served(3) show ?thesis
  proof (cases rule: tick_topic_cases)
    case (planned plan v w)
    obtain snap now where snap: "build_topic_snapshot now (tc_topic_id topic) (fst v) = Inr snap"
      "plan_topic_dispatch snap (tick_limit cfg m) = Inr plan"
      using planned(2) by (rule build_plan_spec)
    from planned(3) show ?thesis
    proof (cases rule: tick_dispatch_cases)
      case empty_plan
      then show ?thesis using assms(2) by (simp add: selected_result_def empty_tick_result_def)
    next
      case (stopped records e)
      have "tr_selected_topic_id res = tc_topic_id topic" "tr_dispatched res = records"
        by (simp_all add: stopped(2) selected_result_def)
      then show ?thesis
        using that[OF served(1,2) _ planned(1) snap] collect_dispatch_records[OF stopped(1)] planned(4) by simp
    next
      case (all records u r)
      have "tr_selected_topic_id res = tc_topic_id topic" "tr_dispatched res = records"
        by (simp_all add: all(2) selected_result_def)
      then show ?thesis
        using that[OF served(1,2) _ planned(1) snap] collect_dispatch_records[OF all(1)] planned(4) by simp
    qed
  qed (use assms(2) in \<open>simp_all add: selected_result_def empty_tick_result_def\<close>)
qed (use assms(2) in simp_all)

text \<open>
  C31. A tick never dispatches more nodes than its limit, never the same node twice, and only
  nodes of the topic it selected, also when it stops early with an error.
\<close>

theorem tick_bounded:
  assumes "tick g cfg m st = (res, err, st')"
  shows "int (length (tr_dispatched res)) \<le> max 0 (tick_limit cfg m) \<and>
    distinct (map dr_node_id (tr_dispatched res)) \<and>
    (\<forall>d\<in>set (tr_dispatched res). dr_topic_id d = tr_selected_topic_id res)"
proof (cases "tr_dispatched res = []")
  case False
  from assms False obtain topic plan snap now u s where pos: "0 < tick_limit cfg m"
    and "tick_start g cfg st = (Inr (Some topic), u)"
    and sel: "tr_selected_topic_id res = tc_topic_id topic" and "prepare_priority g topic u = (Inr (), s)"
    and snap: "build_topic_snapshot now (tc_topic_id topic) (fst s) = Inr snap"
    and plan: "plan_topic_dispatch snap (tick_limit cfg m) = Inr plan"
    and len: "length (tr_dispatched res) \<le> length (dp_dispatch_node_ids plan)"
    and ids: "map dr_node_id (tr_dispatched res) = take (length (tr_dispatched res)) (dp_dispatch_node_ids plan)"
    and topic: "\<forall>d\<in>set (tr_dispatched res). dr_topic_id d = tc_topic_id topic"
    by (rule tick_dispatched)
  obtain ids' where "distinct ids'" "dp_dispatch_node_ids plan = take (nat (tick_limit cfg m)) ids'"
    using plan_dispatch_set[OF plan snapshot_okD(1)[OF snapshot_of_build[OF snap]]] by blast
  then have "distinct (dp_dispatch_node_ids plan)" "int (length (dp_dispatch_node_ids plan)) \<le> tick_limit cfg m"
    using pos by auto
  then show ?thesis using len ids topic sel by (auto simp: distinct_take)
qed simp

text \<open>
  While a node of a topic whose priorities are dirty still runs, a tick that selects the topic
  waits: it dispatches nothing, calls no gateway (only the clock moved) and leaves every row as the ageing step left it.
\<close>

theorem tick_waits_for_running:
  assumes "rows_ok s" and "0 < ec_aging_threshold cfg" and "0 < tick_limit cfg m"
    and "gw_now g w = (now, w')"
    and "select_topic (s\<lparr>rs_topics := map (aged_topic now (ec_aging_threshold cfg)) (rs_topics s)\<rparr>) = Inr (Some topic)"
    and "tc_priority_dirty topic" and "tc_running_node_ids topic \<noteq> []"
  shows "\<exists>res. tick g cfg m (s, w) = (res, None,
      (s\<lparr>rs_topics := map (aged_topic now (ec_aging_threshold cfg)) (rs_topics s)\<rparr>, w')) \<and>
    tr_dispatched res = [] \<and> tr_selected_topic_id res = tc_topic_id topic"
  using assms
  by (simp add: tick_def with_clock_def promote_aged_rows seq_def store_read_def tick_topic_def
      selected_result_def empty_tick_result_def)

section \<open>The outcome of a dispatch\<close>

definition find_node :: "string \<Rightarrow> string \<Rightarrow> runtime_store \<Rightarrow> node_queue_state option" where
  "find_node tid nid s = List.find (node_is tid nid) (rs_nodes s)"

definition find_topic :: "string \<Rightarrow> runtime_store \<Rightarrow> topic_control_state option" where
  "find_topic tid s = List.find (topic_is tid) (rs_topics s)"

lemma find_node_update:
  assumes "\<And>r. nq_topic_id (f r) = nq_topic_id r" and "\<And>r. nq_node_id (f r) = nq_node_id r"
  shows "List.find (\<lambda>r. nq_topic_id r = tid \<and> nq_node_id r = nid)
      (update_where (\<lambda>r. nq_topic_id r = tid \<and> nq_node_id r = nid) f ns) =
    map_option f (List.find (\<lambda>r. nq_topic_id r = tid \<and> nq_node_id r = nid) ns)"
  using assms by (induction ns) auto

lemma get_node_find: "get_node tid nid s = (case find_node tid nid s of None \<Rightarrow> Inl ErrNotFound | Some r \<Rightarrow> Inr (scan_node r))"
  by (simp add: get_node_def find_node_def)

text \<open>The three parts of the tables a dispatch step may change, per operation.\<close>

lemma running_effect:
  "find_node tid nid (mark_node_running now tid nid s) = map_option (running_row now) (find_node tid nid s)"
  "rs_history (mark_node_running now tid nid s) = rs_history s"
  "find_topic tid s = Some t \<Longrightarrow> \<exists>ids. find_topic tid (mark_node_running now tid nid s) = Some (synced_topic now ids nid t)"
proof -
  show "find_node tid nid (mark_node_running now tid nid s) = map_option (running_row now) (find_node tid nid s)"
    by (simp add: find_node_def mark_node_running_nodes find_node_update running_row_def)
  show "rs_history (mark_node_running now tid nid s) = rs_history s"
    by (simp add: mark_node_running_def sync_topic_running_node_ids_def)
  show "\<exists>ids. find_topic tid (mark_node_running now tid nid s) = Some (synced_topic now ids nid t)"
    if "find_topic tid s = Some t"
    using mark_node_running_topic that unfolding find_topic_def by blast
qed

lemma session_effect:
  "find_node tid nid (set_node_session_id now tid nid sid s) =
     map_option (\<lambda>r. r\<lparr>nq_session_id := Some sid, nq_updated_at := now\<rparr>) (find_node tid nid s)"
  "rs_history (set_node_session_id now tid nid sid s) = rs_history s"
  "find_topic tid (set_node_session_id now tid nid sid s) = find_topic tid s"
  by (simp_all add: find_node_def find_topic_def set_node_session_id_def find_node_update)

lemma finished_effect:
  assumes "mark_node_finished now tid nid status s = (Inr u, t)"
  shows "find_node tid nid t = map_option (finished_row now status) (find_node tid nid s)"
    and "rs_history t = rs_history s"
    and "find_topic tid s = Some x \<Longrightarrow> \<exists>ids add. find_topic tid t = Some (worked_topic now nid add (synced_topic now ids '''' x))"
proof -
  obtain c where "mark_node_finished_tx now tid nid status s = Inr (c, t)"
    using assms by (cases rule: run_tx_cases[of "mark_node_finished_tx now tid nid status" s])
      (auto simp: mark_node_finished_def)
  then obtain add where t: "t = upd_topics (update_where (topic_is tid) (worked_topic now nid add \<circ>
        synced_topic now (running_ids tid (update_where (node_is tid nid) (finished_row now status) (rs_nodes s))) ''''))
      (upd_nodes (update_where (node_is tid nid) (finished_row now status)) s)"
    by (rule mark_node_finished_commit)
  show "find_node tid nid t = map_option (finished_row now status) (find_node tid nid s)"
    "rs_history t = rs_history s"
    by (simp_all add: t find_node_def find_node_update finished_row_def)
  show "find_topic tid s = Some x \<Longrightarrow> \<exists>ids add. find_topic tid t = Some (worked_topic now nid add (synced_topic now ids '''' x))"
    by (auto simp: t find_topic_def find_topic_update worked_topic_def synced_topic_def)
qed

text \<open>The authorisation only fills in the node's session.\<close>

definition authorized_rows :: "string \<Rightarrow> string \<Rightarrow> runtime_store \<Rightarrow> runtime_store \<Rightarrow> bool" where
  "authorized_rows tid nid s t \<longleftrightarrow> rs_history t = rs_history s \<and> find_topic tid t = find_topic tid s \<and>
     rel_option (\<lambda>a b. nq_status b = nq_status a \<and> nq_is_priority_node b = nq_is_priority_node a)
       (find_node tid nid s) (find_node tid nid t)"

lemma authorized_rows_refl: "authorized_rows tid nid s s"
  by (auto simp: authorized_rows_def intro: option.rel_refl)

lemma authorize_effect: "keeps (on_store (authorized_rows tid nid s)) (authorize_dispatch g cfg tid nid node)"
proof -
  have "authorized_rows tid nid s (set_node_session_id now tid nid sid t)" if "authorized_rows tid nid s t" for now sid t
    using that by (cases "find_node tid nid s"; cases "find_node tid nid t") (auto simp: authorized_rows_def session_effect)
  then show ?thesis unfolding authorize_dispatch_def by (intro keeps_intros)
qed

lemma outside_store: "outside m st = (r, st') \<Longrightarrow> fst st' = fst st"
  by (auto simp: outside_def split: prod.splits)

lemma ignore_outside_store: "ignore_result (outside m) st = (r, st') \<Longrightarrow> fst st' = fst st"
  by (auto simp: ignore_result_def outside_def split: prod.splits)

lemma store_write_Inr: "store_write g f st = (Inr (), st') \<Longrightarrow> \<exists>now. fst st' = f now (fst st)"
  by (auto simp: store_write_def with_clock_def split: prod.splits)

lemma with_clock_result: "with_clock g f st = (r, st') \<Longrightarrow> \<exists>now. f now (fst st) = (r, fst st')"
  by (auto simp: with_clock_def split: prod.splits)

text \<open>Everything a dispatch has done to the tables when the worker's answer is processed.\<close>

lemma dispatch_one_stages:
  assumes "dispatch_one g cfg tid nid st = (Inr d, st')"
  obtains row s1 now s2 s3 now' req resp where "find_node tid nid (fst st) = Some row"
    and "authorized_rows tid nid (mark_node_running now tid nid (fst st)) s1"
    and "mark_node_finished now' tid nid (resolve_node_status (scan_node row) resp) s1 = (Inr (), s2)"
    and "if nq_is_priority_node row then \<exists>w u. finish_priority g tid resp (s2, w) = (Inr (), (s3, u)) else s3 = s2"
    and "\<exists>now. fst st' = record_dispatch now d s3" and "d = dispatch_record_of tid nid req resp"
    and "rows_ok (fst st) \<longrightarrow> queued tid nid s2"
proof -
  from assms obtain node u req v resp w where g: "get_node tid nid (fst st) = Inr node"
    and run: "store_write g (\<lambda>now. mark_node_running now tid nid) st = (Inr (), u)"
    and auth: "authorize_dispatch g cfg tid nid node u = (Inr req, v)"
    and exe: "outside (gw_execute g req) v = (Inr resp, w)"
    and comp: "complete_dispatch g tid nid node req resp w = (Inr d, st')" by (rule dispatch_one_Inr)
  obtain row where row: "find_node tid nid (fst st) = Some row" "node = scan_node row"
    using g by (auto simp: get_node_find split: option.splits)
  obtain now where now: "fst u = mark_node_running now tid nid (fst st)" using store_write_Inr[OF run] by blast
  have v: "authorized_rows tid nid (fst u) (fst v)"
    using keepsD[OF authorize_effect _ auth] authorized_rows_refl by blast
  have w: "fst w = fst v" using outside_store[OF exe] .
  from comp obtain a b c where d: "d = dispatch_record_of tid nid req resp"
    and fin: "with_clock g (\<lambda>now. mark_node_finished now tid nid (resolve_node_status node resp)) w = (Inr (), a)"
    and prio: "(if nq_is_priority_node node then finish_priority g tid resp else return_ok ()) a = (Inr (), b)"
    and app: "ignore_result (outside (gw_append_result g (wr_session_id req)
            (result_payload (wr_request_id req) tid nid resp))) b = (Inr () :: sched_error + unit, c)"
    and rec: "store_write g (\<lambda>now. record_dispatch now d) c = (Inr (), st')" by (rule complete_dispatch_Inr)
  obtain now' where now': "mark_node_finished now' tid nid (resolve_node_status node resp) (fst w) = (Inr (), fst a)"
    using with_clock_result[OF fin] by blast
  have "if nq_is_priority_node row then \<exists>w u. finish_priority g tid resp (fst a, w) = (Inr (), (fst b, u)) else fst b = fst a"
  proof (cases "nq_is_priority_node row")
    case True
    then have "finish_priority g tid resp (fst a, snd a) = (Inr (), (fst b, snd b))"
      using prio row(2) by simp
    with True show ?thesis by metis
  next
    case False
    then show ?thesis using prio row(2) by (simp add: return_ok_def)
  qed
  moreover have "\<exists>now. fst st' = record_dispatch now d (fst b)"
    using store_write_Inr[OF rec] ignore_outside_store[OF app] by auto
  moreover have "queued tid nid (fst a)" if "rows_ok (fst st)"
  proof -
    have "queued tid nid (fst st)" using that g by (simp add: queued_def get_node_id)
    then have "queued tid nid (fst u)" unfolding now by (rule queued_mark_node_running)
    then have "queued tid nid (fst w)" unfolding w using auth by (rule keepsD[OF queued_inv.authorize_keeps])
    then show ?thesis using fin by (rule keepsD[OF queued_inv.mark_finished_keeps])
  qed
  ultimately show ?thesis
    using that row now v w now' d by auto
qed


lemma apply_plan_topic:
  assumes "rows_ok s" and "find_topic tid s = Some x" and "apply_priority_plan now tid plan s = (Inr (), t)"
  shows "find_topic tid t = Some (planned_topic now x)"
  using assms unfolding apply_plan_rows[OF assms(1)] find_topic_def
  by (auto simp: find_topic_update planned_topic_def)

lemma clear_dirty_topic:
  assumes "find_topic tid s = Some x"
  shows "find_topic tid (clear_priority_dirty now tid err s) =
    Some (x\<lparr>tc_priority_dirty := False, tc_last_priority_error := nullable_string err, tc_updated_at := now\<rparr>)"
  using assms by (simp add: clear_priority_dirty_def find_topic_def find_topic_update)

text \<open>
  A dispatch of a priority node that returns a record leaves the topic's priorities clean: after a
  success no error is recorded and the plan version is one higher; after any other outcome the version is the old one
  (and the plan is not applied).
\<close>

theorem dispatch_priority_outcome:
  assumes "rows_ok (fst st)" and "dispatch_one g cfg tid nid st = (Inr d, st')"
    and "get_node tid nid (fst st) = Inr node" and "nq_is_priority_node node"
    and "List.find (topic_is tid) (rs_topics (fst st)) = Some x"
  shows "\<exists>y. List.find (topic_is tid) (rs_topics (fst st')) = Some y \<and> \<not> tc_priority_dirty y \<and>
    (if dr_status d = ''succeeded''
     then tc_last_priority_error y = None \<and> tc_priority_plan_version y = tc_priority_plan_version x + 1
     else tc_priority_plan_version y = tc_priority_plan_version x)"
proof -
  from assms(2) obtain row s1 now s2 s3 now' req resp where row: "find_node tid nid (fst st) = Some row"
    and auth: "authorized_rows tid nid (mark_node_running now tid nid (fst st)) s1"
    and fin: "mark_node_finished now' tid nid (resolve_node_status (scan_node row) resp) s1 = (Inr (), s2)"
    and prio: "if nq_is_priority_node row then \<exists>w u. finish_priority g tid resp (s2, w) = (Inr (), (s3, u)) else s3 = s2"
    and rec: "\<exists>now. fst st' = record_dispatch now d s3" and d: "d = dispatch_record_of tid nid req resp"
    and inv: "rows_ok (fst st) \<longrightarrow> queued tid nid s2"
    by (rule dispatch_one_stages)
  have "node = scan_node row" using assms(3) row by (simp add: get_node_find)
  then have "nq_is_priority_node row" using assms(4) by simp
  with prio have prio': "\<exists>w u. finish_priority g tid resp (s2, w) = (Inr (), (s3, u))" by simp
  obtain ids where "find_topic tid (mark_node_running now tid nid (fst st)) = Some (synced_topic now ids nid x)"
    using running_effect(3)[of tid "fst st" x] assms(5) by (auto simp: find_topic_def)
  then have "find_topic tid s1 = Some (synced_topic now ids nid x)" using auth by (simp add: authorized_rows_def)
  then obtain ids' add where x2: "find_topic tid s2 =
      Some (worked_topic now' nid add (synced_topic now' ids' '''' (synced_topic now ids nid x)))"
    using finished_effect(3)[OF fin] by blast
  let ?x2 = "worked_topic now' nid add (synced_topic now' ids' '''' (synced_topic now ids nid x))"
  have ver: "tc_priority_plan_version ?x2 = tc_priority_plan_version x"
    by (simp add: worked_topic_def synced_topic_def)
  have st3: "List.find (topic_is tid) (rs_topics (fst st')) = find_topic tid s3"
    using rec by (auto simp: record_dispatch_def find_topic_def)
  have status: "dr_status d = ws_status resp" by (simp add: d dispatch_record_of_def)
  show ?thesis
  proof (cases "ws_status resp = ''succeeded''")
    case True
    then obtain now2 where "apply_priority_plan now2 tid (ws_priority_plan resp) s2 = (Inr (), s3)"
      using prio' by (auto simp: finish_priority_def dest: with_clock_result)
    moreover have "rows_ok s2" using inv assms(1) by (simp add: queued_rows)
    ultimately have "find_topic tid s3 = Some (planned_topic now2 ?x2)" using apply_plan_topic x2 by blast
    then show ?thesis using True status st3 ver by (simp add: planned_topic_def)
  next
    case False
    then obtain now2 err where "s3 = clear_priority_dirty now2 tid err s2"
      using prio' by (auto simp: finish_priority_def dest: store_write_Inr)
    then show ?thesis using False status st3 ver clear_dirty_topic[OF x2] by simp
  qed
qed

lemma snapshot_running:
  assumes "build_topic_snapshot now tid s = Inr snap" and "find_topic tid s = Some x"
  shows "rt_running_node_ids (ts_runtime snap) = tc_running_node_ids x"
  using assms
  by (auto simp: build_topic_snapshot_def Let_def result_simps snapshot_normalize_def runtime_normalize_def
      get_topic_def find_topic_def scanned_topic(5))

text \<open>
  C36. What a dispatch leaves behind when the session cannot be ensured: the error is returned, but the node stays
  marked as running; the topic still counts as runnable, and no later plan of it starts the node again.
\<close>

theorem ensure_session_failure_leaves_running:
  assumes "rows_ok s" and "get_node tid nid s = Inr node" and "gw_now g w = (now, w1)"
    and "gw_ensure_session g nid (nq_session_id node) w1 = (Inl e, w2)"
  defines "t \<equiv> mark_node_running now tid nid s"
  shows "dispatch_one g cfg tid nid (s, w) = (Inl (WrapError (''ensure session for node '' @ nid) e), (t, w2)) \<and>
    (\<exists>n. get_node tid nid t = Inr n \<and> nq_status n = NodeStatusRunning) \<and> has_runnable_nodes tid t \<and>
    (\<forall>at snap slots plan. build_topic_snapshot at tid t = Inr snap \<longrightarrow> plan_topic_dispatch snap slots = Inr plan \<longrightarrow>
       nid \<notin> set (dp_dispatch_node_ids plan))"
proof -
  have err: "dispatch_one g cfg tid nid (s, w) = (Inl (WrapError (''ensure session for node '' @ nid) e), (t, w2))"
    using assms(2-4)
    by (simp add: dispatch_one_def authorize_dispatch_def seq_def store_read_def store_write_def with_clock_def
        map_err_def outside_def t_def)
  obtain row where row: "find_node tid nid s = Some row" using assms(2) by (auto simp: get_node_find split: option.splits)
  then have n: "find_node tid nid t = Some (running_row now row)" by (simp add: t_def running_effect)
  have status: "nq_status (running_row now row) = NodeStatusRunning" by (simp add: running_row_def)
  have key: "nq_topic_id (running_row now row) = tid \<and> nq_node_id (running_row now row) = nid"
    and mem: "running_row now row \<in> set (rs_nodes t)"
    using find_SomeD[OF n[unfolded find_node_def]] by simp_all
  have runnable: "has_runnable_nodes tid t"
    unfolding has_runnable_nodes_def length_greater_0_conv filter_empty_conv
    using mem key status by (intro notI) (drule bspec, assumption, simp)
  have running: "nid \<in> set (running_ids tid (rs_nodes t))"
    using mem key status by (intro running_idsI) auto
  have "nid \<notin> set (dp_dispatch_node_ids plan)"
    if snap: "build_topic_snapshot at tid t = Inr snap" and plan: "plan_topic_dispatch snap slots = Inr plan" for at snap slots plan
  proof -
    have "tid \<in> set (map tc_topic_id (rs_topics s))"
      using rows_okD(3)[OF assms(1), of row] find_SomeD[OF row[unfolded find_node_def]] by simp
    then obtain x where "find_topic tid s = Some x"
      using find_topic_None[of tid "rs_topics s"] by (cases "find_topic tid s") (auto simp: find_topic_def)
    then have "find_topic tid t = Some (synced_topic now (running_ids tid (rs_nodes t)) nid x)"
      by (simp add: t_def find_topic_def mark_node_running_topic mark_node_running_nodes)
    then have "nid \<in> set (rt_running_node_ids (ts_runtime snap))"
      using snapshot_running[OF snap] running by (simp add: synced_topic_def)
    then show ?thesis
      using plan_dispatch_set[OF plan snapshot_okD(1)[OF snapshot_of_build[OF snap]]] by (metis DiffD2 in_set_takeD)
  qed
  then show ?thesis using err n status runnable by (auto simp: get_node_find)
qed

section \<open>Enqueueing through the engine\<close>

lemma normalize_business_ok:
  assumes "normalize_business_enqueue_request req0 = Inr req"
  shows "eq_topic_id req = eq_topic_id req0" and "eq_node_id req = eq_node_id req0"
    and "eq_node_name req = (if eq_node_name req0 = '''' then eq_node_id req0 else eq_node_name req0)"
    and "eq_priority req = \<lparr>np_label = ''interactive'', np_rank = 1\<rparr>" and "eq_mark_priority_dirty req"
  using assms
  by (auto simp: normalize_business_enqueue_request_def Let_def result_simps BusinessNodePriorityLabel_def
      BusinessNodePriorityRank_def split: if_splits)

text \<open>
  Whatever priority a caller asks for, an accepted business node is queued as ready with the one fixed business
  priority (label interactive, rank 1) and under its own id when no name is given, and its topic is due for re-prioritisation, as the result says.
\<close>

theorem engine_enqueue_effect:
  assumes "enqueue g request (s, w) = (Inr res, (t, w'))"
  shows "(\<exists>n. get_node (eq_topic_id request) (eq_node_id request) t = Inr n \<and> nq_status n = NodeStatusReady \<and>
      nq_priority_label n = ''interactive'' \<and> nq_priority_rank n = 1 \<and>
      nq_name n = (if eq_node_name request = '''' then eq_node_id request else eq_node_name request)) \<and>
    er_created res = (get_node (eq_topic_id request) (eq_node_id request) s = Inl ErrNotFound) \<and>
    er_priority_dirty res \<and> er_topic_id res = eq_topic_id request \<and> er_node_id res = eq_node_id request"
proof -
  obtain req created st1 topic where norm: "normalize_business_enqueue_request request = Inr req"
    and up: "with_clock g (\<lambda>now. upsert_enqueue_node now req) (s, w) = (Inr created, st1)"
    and topic: "get_topic (eq_topic_id req) (fst st1) = Inr topic" and st1: "st1 = (t, w')"
    and res: "res = enqueue_result_of req created topic"
    using assms by (auto simp: enqueue_def seq_Inr_iff of_result_def store_read_def return_ok_def)
  obtain now where now: "upsert_enqueue_node now req s = (Inr created, t)"
    using with_clock_result[OF up] st1 by auto
  note req = normalize_business_ok[OF norm]
  note rows = enqueue_commit_rows[OF now, unfolded req(1-3)]
  obtain x where "x \<in> set (rs_topics t)" "tc_topic_id x = eq_topic_id request" "scan_topic x = Inr topic"
    using topic st1 req(1) by (auto elim: get_topic_Inr)
  then have "tc_priority_dirty topic" using rows req(5) scanned_topic(4) by auto
  then show ?thesis using rows req by (auto simp: res enqueue_result_of_def)
qed

section \<open>Priorities first\<close>

text \<open>A topic whose priority node is ready and outranks all its other nodes.\<close>

definition priority_ready :: "string \<Rightarrow> string \<Rightarrow> runtime_store \<Rightarrow> bool" where
  "priority_ready tid pn s \<longleftrightarrow>
     (\<forall>n\<in>set (rs_nodes s). nq_topic_id n = tid \<longrightarrow> nq_node_id n \<noteq> pn \<longrightarrow> 1 \<le> nq_priority_rank n) \<and>
     (\<exists>n\<in>set (rs_nodes s). node_key n = (tid, pn) \<and> nq_status n = NodeStatusReady \<and> nq_priority_rank n = 0)"

lemma snapshot_nodes:
  assumes "build_topic_snapshot now tid s = Inr snap"
  shows "ts_nodes snap = map (\<lambda>r. node_normalize now (to_topic_node (scan_node r)))
      (filter (\<lambda>r. nq_topic_id r = tid) (rs_nodes s))"
  using assms
  by (auto simp: build_topic_snapshot_def Let_def result_simps snapshot_normalize_def list_nodes_def)

lemma priority_ready_plan:
  assumes "priority_ready tid pn s" and snap: "build_topic_snapshot now tid s = Inr snap"
    and plan: "plan_topic_dispatch snap slots = Inr plan"
  shows "set (dp_dispatch_node_ids plan) \<subseteq> {pn} \<and> length (dp_dispatch_node_ids plan) \<le> 1"
proof -
  let ?conv = "\<lambda>r. node_normalize now (to_topic_node (scan_node r))"
  obtain p where p: "p \<in> set (rs_nodes s)" "node_key p = (tid, pn)" "nq_status p = NodeStatusReady" "nq_priority_rank p = 0"
    using assms(1) by (auto simp: priority_ready_def)
  have p_snap: "?conv p \<in> set (ts_nodes snap)" using p by (simp add: snapshot_nodes[OF snap])
  have p_live: "\<not> status_is_terminal (tn_status (?conv p))"
    using p(3) by (simp add: node_normalize_def to_topic_node_def Let_def)
  have "tn_node_id n = pn" if n: "n \<in> active_candidates snap" for n
  proof -
    obtain r where r: "n = ?conv r" "r \<in> set (rs_nodes s)" "nq_topic_id r = tid"
      using active_candidates_subset[of snap] n by (auto simp: snapshot_nodes[OF snap])
    have "np_rank (tn_priority n) \<le> np_rank (tn_priority (?conv p))"
      using n p_snap p_live unfolding active_candidates_def by blast
    then have "nq_priority_rank r \<le> 0" using p(4) by (simp add: r(1))
    then have "nq_node_id r = pn" using assms(1) r(2,3) by (fastforce simp: priority_ready_def)
    then show ?thesis by (simp add: r(1))
  qed
  then have sub: "tn_node_id ` active_candidates snap \<subseteq> {pn}" by blast
  obtain ids where ids: "distinct ids" "dp_dispatch_node_ids plan = take (nat slots) ids"
    "set ids = tn_node_id ` active_candidates snap - set (rt_running_node_ids (ts_runtime snap))"
    using plan_dispatch_set[OF plan snapshot_okD(1)[OF snapshot_of_build[OF snap]]] by blast
  have "set (dp_dispatch_node_ids plan) \<subseteq> set ids" using ids(2) by (simp add: set_take_subset)
  then have "set (dp_dispatch_node_ids plan) \<subseteq> {pn}" using ids(3) sub by blast
  moreover have "distinct (dp_dispatch_node_ids plan)" using ids by simp
  ultimately have "length (dp_dispatch_node_ids plan) \<le> card {pn}"
    by (metis card_mono distinct_card finite.emptyI finite.insertI)
  with \<open>set (dp_dispatch_node_ids plan) \<subseteq> {pn}\<close> show ?thesis by simp
qed

lemma mark_ready_priority:
  assumes "get_topic tid s = Inr topic" and "tc_priority_node_id topic = Some pn" and "pn \<in> node_ids_of tid (rs_nodes s)"
    and "\<And>n. n \<in> set (rs_nodes s) \<Longrightarrow> nq_topic_id n = tid \<Longrightarrow> nq_node_id n \<noteq> pn \<Longrightarrow> 1 \<le> nq_priority_rank n"
    and "mark_priority_node_ready now tid s = (r, t)"
  shows "priority_ready tid pn t"
proof -
  have nodes: "rs_nodes t = update_where (node_is tid pn) (ready_row now) (rs_nodes s)"
    using assms(1,2,5) by (auto simp: mark_priority_node_ready_def)
  obtain n where n: "n \<in> set (rs_nodes s)" "node_key n = (tid, pn)"
    using assms(3) by (auto simp: node_ids_of_def)
  have "ready_row now n \<in> set (rs_nodes t)"
    unfolding nodes set_update_where using n by (intro bexI[of _ n]) simp_all
  moreover have "node_key (ready_row now n) = (tid, pn)" "nq_status (ready_row now n) = NodeStatusReady"
    "nq_priority_rank (ready_row now n) = 0" using n(2) by (simp_all add: ready_row_def)
  moreover have "1 \<le> nq_priority_rank q" if "q \<in> set (rs_nodes t)" "nq_topic_id q = tid" "nq_node_id q \<noteq> pn" for q
  proof -
    obtain q' where q': "q' \<in> set (rs_nodes s)" "q = (if node_is tid pn q' then ready_row now q' else q')"
      using \<open>q \<in> set (rs_nodes t)\<close> unfolding nodes set_update_where by blast
    have "\<not> node_is tid pn q'"
      using q'(2) that(3) by (auto simp: ready_row_def split: if_splits)
    then show ?thesis using q' that assms(4) by auto
  qed
  ultimately show ?thesis unfolding priority_ready_def by blast
qed

lemma upsert_priority_row_mem:
  assumes "q \<in> set (rs_nodes (upsert_priority_row now tid nid spec s))" and "node_key q \<noteq> (tid, nid)"
  shows "q \<in> set (rs_nodes s)"
proof (cases "List.find (node_is tid nid) (rs_nodes s)")
  case None
  then show ?thesis using assms by (auto simp: upsert_priority_row_def priority_node_row_def)
next
  case (Some r)
  then have "q \<in> set (update_where (node_is tid nid) (repriority_row now spec) (rs_nodes s))"
    using assms(1) by (simp add: upsert_priority_row_def)
  then obtain q' where "q' \<in> set (rs_nodes s)" "q = (if node_is tid nid q' then repriority_row now spec q' else q')"
    unfolding set_update_where by blast
  then show ?thesis using assms(2) by (cases "node_is tid nid q'") (auto simp: repriority_row_def)
qed

text \<open>What \<open>ensurePriorityNode\<close> leaves, for a topic without a priority node.\<close>

lemma upsert_priority_node_effect:
  assumes "rows_ok s" and "upsert_priority_node now tid nid spec s = (Inr (), t)" and "trim_space nid = nid"
  shows "\<exists>topic. get_topic tid t = Inr topic \<and> tc_priority_node_id topic = Some nid"
    and "nid \<in> node_ids_of tid (rs_nodes t)"
    and "q \<in> set (rs_nodes t) \<Longrightarrow> node_key q \<noteq> (tid, nid) \<Longrightarrow> q \<in> set (rs_nodes s)"
proof -
  have ne: "tid \<noteq> ''''" "nid \<noteq> ''''" using assms(2) by (auto simp: upsert_priority_node_def split: if_splits)
  then obtain s1 where s1: "ensure_topic now tid s = Inr s1" by (auto simp: ensure_topic_def)
  have t: "t = set_topic_priority_node now tid nid (upsert_priority_row now tid nid spec s1)"
    using assms(2) ne s1 by (simp add: upsert_priority_node_def)
  have ok: "rows_ok t" using rows_ok_upsert_priority_node[OF assms(1,2)] .
  have topics: "rs_topics (upsert_priority_row now tid nid spec s1) = rs_topics s1" by (simp add: upsert_priority_row_def)
  obtain x where x: "List.find (topic_is tid) (rs_topics s1) = Some x"
    using ensure_topic_Inr(3)[OF s1] find_topic_None[of tid "rs_topics s1"]
    by (cases "List.find (topic_is tid) (rs_topics s1)") auto
  then have "List.find (topic_is tid) (rs_topics t) = Some (x\<lparr>tc_priority_node_id := Some nid, tc_updated_at := now\<rparr>)"
    by (simp add: t set_topic_priority_node_def topics find_topic_update)
  moreover from this have "level_validate (tc_queue_level x) = Inr ()"
    using rows_okD(4)[OF ok find_topic_Some(1)] by (fastforce simp: topic_row_ok_def)
  ultimately show "\<exists>topic. get_topic tid t = Inr topic \<and> tc_priority_node_id topic = Some nid"
    using assms(3) ne(2) by (simp add: get_topic_def scan_topic_def nullable_to_string_ptr_def)
  show "nid \<in> node_ids_of tid (rs_nodes t)"
    using upsert_priority_row_queued[of nid tid now spec s1] by (simp add: t set_topic_priority_node_def)
  show "q \<in> set (rs_nodes t) \<Longrightarrow> node_key q \<noteq> (tid, nid) \<Longrightarrow> q \<in> set (rs_nodes s)"
    using upsert_priority_row_mem[of q now tid nid spec s1] ensure_topic_Inr(2)[OF s1]
    by (simp add: t set_topic_priority_node_def)
qed

lemma nullable_Some_trim: "nullable_to_string_ptr v = Some i \<Longrightarrow> \<exists>raw. v = Some raw \<and> i = trim_space raw"
  by (cases v) (auto simp: nullable_to_string_ptr_def split: if_splits)

lemma prepare_priority_ready:
  assumes ok: "rows_ok s" and topic: "get_topic tid s = Inr topic" and tid: "tc_topic_id topic = tid"
    and dirty: "tc_priority_dirty topic"
    and ranks: "\<And>n. n \<in> set (rs_nodes s) \<Longrightarrow> nq_topic_id n = tid \<Longrightarrow>
      tc_priority_node_id topic \<noteq> Some (nq_node_id n) \<Longrightarrow> 1 \<le> nq_priority_rank n"
    and trim: "\<And>i. i \<in> node_ids_of tid (rs_nodes s) \<Longrightarrow> trim_space i = i"
    and gw: "\<And>w nid w'. gw_ensure_priority_node g tid w = (Inr nid, w') \<Longrightarrow> trim_space nid = nid"
    and prep: "prepare_priority g topic (s, w) = (Inr (), st')"
  shows "\<exists>pn. priority_ready tid pn (fst st') \<and> (tc_priority_node_id topic = Some pn \<or>
    (tc_priority_node_id topic = None \<and> (\<exists>w1 w2. gw_ensure_priority_node g tid w1 = (Inr pn, w2))))"
proof -
  obtain u where ens: "ensure_priority_node g tid (s, w) = (Inr (), u)"
    and ready: "with_clock g (\<lambda>now. mark_priority_node_ready now tid) u = (Inr (), st')"
    using prep dirty tid by (auto simp: prepare_priority_def seq_Inr_iff)
  obtain now where ready': "mark_priority_node_ready now tid (fst u) = (Inr (), fst st')"
    using with_clock_result[OF ready] by blast
  show ?thesis
  proof (cases "tc_priority_node_id topic")
    case (Some pn)
    have u: "fst u = s" using ens topic Some by (auto simp: ensure_priority_node_def seq_def store_read_def return_ok_def)
    obtain x where x: "x \<in> set (rs_topics s)" "tc_topic_id x = tid" "scan_topic x = Inr topic"
      using topic by (rule get_topic_Inr)
    then obtain raw where raw: "tc_priority_node_id x = Some raw" "pn = trim_space raw"
      using scanned_topic(6)[OF x(3)] Some nullable_Some_trim by metis
    then have "raw \<in> node_ids_of tid (rs_nodes s)" using rows_okD(4)[OF ok x(1)] x(2) by (simp add: topic_row_ok_def)
    then have "pn \<in> node_ids_of tid (rs_nodes s)" using raw(2) trim by simp
    then have "priority_ready tid pn (fst st')"
      using topic Some ranks ready' u by (intro mark_ready_priority[of tid s topic]) auto
    then show ?thesis using Some by blast
  next
    case None
    then obtain pn w1 w2 where pn: "gw_ensure_priority_node g tid w1 = (Inr pn, w2)"
      and up: "with_clock g (\<lambda>now. upsert_priority_node now tid pn priority_agent_spec) (s, w2) = (Inr (), u)"
      using ens topic
      by (auto simp: ensure_priority_node_def seq_Inr_iff store_read_def map_err_def outside_def
          split: prod.splits sum.splits)
    obtain now' where up': "upsert_priority_node now' tid pn priority_agent_spec s = (Inr (), fst u)"
      using with_clock_result[OF up] by auto
    note eff = upsert_priority_node_effect[OF ok up' gw[OF pn]]
    obtain topic' where topic': "get_topic tid (fst u) = Inr topic'" "tc_priority_node_id topic' = Some pn"
      using eff(1) by blast
    have "priority_ready tid pn (fst st')"
    proof (rule mark_ready_priority[OF topic' eff(2) _ ready'])
      show "1 \<le> nq_priority_rank n" if "n \<in> set (rs_nodes (fst u))" "nq_topic_id n = tid" "nq_node_id n \<noteq> pn" for n
        using eff(3)[OF that(1)] that(2,3) ranks None by auto
    qed
    then show ?thesis using None pn by blast
  qed
qed

lemma selected_topic_get:
  assumes "rows_ok s" and "select_topic s = Inr (Some topic)"
  shows "get_topic (tc_topic_id topic) s = Inr topic"
proof -
  have "topic \<in> set (map scanned (rs_topics s))"
    using assms(2) find_SomeD by (fastforce simp: select_topic_def list_topics_ok[OF assms(1)])
  then obtain row where row: "row \<in> set (rs_topics s)" "topic = scanned row" by auto
  then have "List.find (topic_is (tc_topic_id topic)) (rs_topics s) = Some row"
    using find_distinct[OF rows_okD(1)[OF assms(1)] row(1)] by simp
  moreover have "scan_topic row = Inr topic"
    using rows_okD(4)[OF assms(1) row(1)] row(2) by (simp add: scan_topic_def scanned_def topic_row_ok_def)
  ultimately show ?thesis by (simp add: get_topic_def)
qed

lemma tick_start_select: "tick_start g cfg st = (Inr (Some topic), u) \<Longrightarrow> select_topic (fst u) = Inr (Some topic)"
  by (auto simp: tick_start_def seq_Inr_iff store_read_def)


section \<open>A concrete engine\<close>

text \<open>Gateways over a world that is the clock: sessions and events always succeed, the worker succeeds with an empty plan.\<close>

definition sample_response :: worker_execute_response where
  "sample_response = \<lparr>ws_request_id = '''', ws_topic_id = '''', ws_node_id = '''', ws_session_id = '''',
     ws_event_id = '''', ws_status = ''succeeded'', ws_next_node_status = None, ws_output = '''', ws_error = '''',
     ws_retryable = False, ws_duration_ms = 1, ws_priority_plan = []\<rparr>"

definition sample_gateways :: "time gateways" where
  "sample_gateways = \<lparr>gw_ensure_priority_node = (\<lambda>_. return_ok ''p''),
     gw_ensure_session = (\<lambda>_ _. return_ok ''s1''),
     gw_append_authorized = (\<lambda>sid _. return_ok \<lparr>se_id = ''e'', se_session_id = sid, se_seq = 1\<rparr>),
     gw_append_result = (\<lambda>_ _. return_ok ()), gw_execute = (\<lambda>_. return_ok sample_response),
     gw_now = (\<lambda>w. (w, w + 1))\<rparr>"

definition sample_config :: engine_config where
  "sample_config = new_engine_config \<lparr>ec_max_dispatch_per_tick = 2, ec_default_timeout_ms = 0, ec_aging_threshold = 0\<rparr>"

lemma sample_config_simps [simp]:
  "ec_aging_threshold sample_config = 600000000000" "ec_max_dispatch_per_tick sample_config = 2"
  by (simp_all add: sample_config_def new_engine_config_def)

lemma sample_now: "gw_now sample_gateways w = (w, w + 1)"
  by (simp add: sample_gateways_def)

abbreviation sample_tick :: "tick_result \<times> sched_error option \<times> time engine_state" where
  "sample_tick \<equiv> tick sample_gateways sample_config 2 (sample_store, 100)"

lemma sample_tick_split: "sample_tick = (fst sample_tick, fst (snd sample_tick), snd (snd sample_tick))"
  by simp

theorem tick_keeps_rows_ok_witness: "rows_ok (fst (snd (snd sample_tick)))"
  using tick_keeps_rows_ok[OF _ sample_tick_split] sample_rows_ok by simp

theorem tick_isolates_topics_witness:
  "filter (\<lambda>r. nq_topic_id r \<noteq> tr_selected_topic_id (fst sample_tick)) (rs_nodes (fst (snd (snd sample_tick)))) =
   filter (\<lambda>r. nq_topic_id r \<noteq> tr_selected_topic_id (fst sample_tick)) (rs_nodes sample_store)"
  using tick_isolates_topics[OF _ _ sample_tick_split] sample_rows_ok by simp

theorem tick_bounded_witness: "length (tr_dispatched (fst sample_tick)) \<le> 2"
  using tick_bounded[OF sample_tick_split] by (simp add: tick_limit_def)

lemma sample_runnable: "has_runnable_nodes ''t'' sample_store"
  by (simp add: has_runnable_nodes_def store_eval)

theorem select_topic_least_witness: "\<exists>t. select_topic sample_store = Inr (Some t)"
proof -
  have "\<exists>u\<in>set (rs_topics sample_store). has_runnable_nodes (tc_topic_id u) sample_store"
    using sample_runnable by (simp add: sample_store_def new_topic_row_def)
  then show ?thesis using select_topic_least[OF sample_rows_ok] by force
qed

text \<open>The topic with its node running and its priorities still dirty.\<close>

definition busy_store :: runtime_store where
  "busy_store = mark_node_running 7 ''t'' ''a'' sample_store"

lemma sample_node_id: "''a'' \<in> node_ids_of ''t'' (rs_nodes sample_store)"
  by (simp add: sample_ids)

lemma busy_rows_ok: "rows_ok busy_store"
  unfolding busy_store_def by (rule rows_ok_mark_node_running[OF sample_rows_ok sample_node_id])

definition busy_topic :: topic_control_state where
  "busy_topic = (new_topic_row 5 ''t'')\<lparr>tc_running_node_ids := [''a''], tc_current_node_id := Some ''a'', tc_updated_at := 7\<rparr>"

lemma busy_store_eval: "busy_store = \<lparr>rs_topics = [busy_topic],
    rs_nodes = [running_row 7 (enqueued_row 5 ((sample_request ''a'')\<lparr>eq_session_id := ''s1''\<rparr>))], rs_history = []\<rparr>"
  by (simp add: busy_store_def busy_topic_def mark_node_running_def sync_topic_running_node_ids_def running_ids_def store_eval)

lemma busy_selected:
  "select_topic (busy_store\<lparr>rs_topics := map (aged_topic 100 600000000000) (rs_topics busy_store)\<rparr>) = Inr (Some busy_topic)"
  by (simp add: busy_store_eval select_topic_def list_topics_def scan_topic_def aged_topic_def aged_def
      busy_topic_def row_defs nullable_to_string_ptr_def has_runnable_nodes_def sample_request_def trim_space_def is_space_def)

theorem tick_waits_for_running_witness:
  "\<exists>res. fst (tick sample_gateways sample_config 2 (busy_store, 100)) = res \<and> tr_dispatched res = [] \<and>
     tr_selected_topic_id res = ''t''"
  using tick_waits_for_running[of busy_store sample_config 2 sample_gateways 100 100 101 busy_topic]
    busy_rows_ok busy_selected
  by (auto simp: sample_now tick_limit_def busy_topic_def new_topic_row_def)

lemmas dispatch_eval = dispatch_one_def authorize_dispatch_def execute_dispatch_def complete_dispatch_def
  attempt_def ignore_result_def map_err_def outside_def with_clock_def store_write_def store_read_def read_clock_def
  seq_def return_ok_def finish_priority_def sample_gateways_def sample_response_def
  mark_node_running_def mark_node_finished_def mark_node_finished_tx_def sync_topic_running_node_ids_def
  set_node_session_id_def record_dispatch_def get_topic_current_node_def count_worked_def run_tx_def

lemma sample_dispatch: "\<exists>d st'. dispatch_one sample_gateways sample_config ''t'' ''a'' (sample_store, 100) = (Inr d, st')"
  by (simp add: dispatch_eval store_eval scan_node_def resolve_node_status_def Let_def nullable_string_def)

lemma sample_node: "\<exists>node. get_node ''t'' ''a'' sample_store = Inr node \<and> \<not> nq_is_priority_node node \<and>
    nq_session_id node = Some ''s1''"
  by (simp add: store_eval)


text \<open>The same store with a priority node.\<close>

definition priority_store :: runtime_store where
  "priority_store = snd (upsert_priority_node 6 ''t'' ''p'' priority_agent_spec sample_store)"

lemma priority_store_computed: "upsert_priority_node 6 ''t'' ''p'' priority_agent_spec sample_store = (Inr (), priority_store)"
  by (simp add: priority_store_def upsert_priority_node_def store_eval)

lemma priority_rows_ok: "rows_ok priority_store"
  by (rule rows_ok_upsert_priority_node[OF sample_rows_ok priority_store_computed])

lemma priority_store_eval: "priority_store = \<lparr>
    rs_topics = [(new_topic_row 5 ''t'')\<lparr>tc_priority_node_id := Some ''p'', tc_updated_at := 6\<rparr>],
    rs_nodes = [enqueued_row 5 ((sample_request ''a'')\<lparr>eq_session_id := ''s1''\<rparr>),
      priority_node_row 6 ''t'' ''p'' priority_agent_spec], rs_history = []\<rparr>"
  by (simp add: priority_store_def upsert_priority_node_def upsert_priority_row_def set_topic_priority_node_def store_eval)

lemma priority_dispatch:
  "\<exists>d st'. dispatch_one sample_gateways sample_config ''t'' ''p'' (priority_store, 100) = (Inr d, st') \<and> dr_status d = ''succeeded''"
  by (simp add: dispatch_eval store_eval priority_store_eval scan_node_def resolve_node_status_def Let_def
      nullable_string_def apply_priority_plan_def apply_priority_plan_tx_def finish_priority_node_def get_topic_def
      scan_topic_def dispatch_record_of_def)

theorem dispatch_priority_outcome_witness:
  "\<exists>d st' y. dispatch_one sample_gateways sample_config ''t'' ''p'' (priority_store, 100) = (Inr d, st') \<and>
     List.find (topic_is ''t'') (rs_topics (fst st')) = Some y \<and> tc_priority_plan_version y = 1 \<and> \<not> tc_priority_dirty y"
proof -
  obtain d st' where d: "dispatch_one sample_gateways sample_config ''t'' ''p'' (priority_store, 100) = (Inr d, st')"
    and s: "dr_status d = ''succeeded''" using priority_dispatch by blast
  have "\<exists>node. get_node ''t'' ''p'' priority_store = Inr node \<and> nq_is_priority_node node"
    by (simp add: priority_store_eval store_eval)
  then obtain node where node: "get_node ''t'' ''p'' (fst (priority_store, 100 :: time)) = Inr node" "nq_is_priority_node node"
    by auto
  have topic: "List.find (topic_is ''t'') (rs_topics (fst (priority_store, 100 :: time))) =
      Some ((new_topic_row 5 ''t'')\<lparr>tc_priority_node_id := Some ''p'', tc_updated_at := 6\<rparr>)"
    by (simp add: priority_store_eval new_topic_row_def)
  have ok: "rows_ok (fst (priority_store, 100 :: time))" using priority_rows_ok by simp
  obtain y where "List.find (topic_is ''t'') (rs_topics (fst st')) = Some y" "\<not> tc_priority_dirty y"
    "tc_priority_plan_version y = 1"
    using dispatch_priority_outcome[OF ok d node topic] s by (auto simp: new_topic_row_def)
  then show ?thesis using d by blast
qed

definition failing_gateways :: "time gateways" where
  "failing_gateways = sample_gateways\<lparr>gw_ensure_session := (\<lambda>_ _. return_err (ExternalError ''down''))\<rparr>"

theorem ensure_session_failure_leaves_running_witness:
  "fst (dispatch_one failing_gateways sample_config ''t'' ''a'' (sample_store, 100)) =
     Inl (WrapError ''ensure session for node a'' (ExternalError ''down'')) \<and>
   has_runnable_nodes ''t'' (mark_node_running 100 ''t'' ''a'' sample_store)"
proof -
  obtain node where node: "get_node ''t'' ''a'' sample_store = Inr node" using sample_node by blast
  have "gw_now failing_gateways 100 = (100, 101)" by (simp add: failing_gateways_def sample_gateways_def)
  moreover have "gw_ensure_session failing_gateways ''a'' (nq_session_id node) 101 = (Inl (ExternalError ''down''), 101)"
    by (simp add: failing_gateways_def return_err_def)
  ultimately show ?thesis
    using ensure_session_failure_leaves_running[OF sample_rows_ok node, of failing_gateways 100 100 101
        "ExternalError ''down''" 101 sample_config] by simp
qed

lemma sample_engine_enqueue:
  "\<exists>res st'. enqueue sample_gateways ((sample_request ''a'')\<lparr>eq_node_name := ''''\<rparr>) (empty_runtime_store, 5) = (Inr res, st')"
  by (simp add: enqueue_def normalize_business_enqueue_request_def of_result_def seq_def return_ok_def store_read_def
      with_clock_def sample_gateways_def store_eval get_topic_def scan_topic_def BusinessNodePriorityLabel_def
      BusinessNodePriorityRank_def)

theorem engine_enqueue_effect_witness:
  "\<exists>res t w n. enqueue sample_gateways ((sample_request ''a'')\<lparr>eq_node_name := ''''\<rparr>) (empty_runtime_store, 5) = (Inr res, (t, w)) \<and>
     get_node ''t'' ''a'' t = Inr n \<and> nq_name n = ''a''"
proof -
  obtain res t w where e: "enqueue sample_gateways ((sample_request ''a'')\<lparr>eq_node_name := ''''\<rparr>) (empty_runtime_store, 5) = (Inr res, (t, w))"
    using sample_engine_enqueue by fast
  with engine_enqueue_effect[OF e] show ?thesis by (auto simp: sample_request_def)
qed

lemma sample_start: "\<exists>u. tick_start sample_gateways sample_config (sample_store, 100) = (Inr (Some (new_topic_row 5 ''t'')), u)"
  by (simp add: tick_start_def seq_def with_clock_def sample_now promote_aged_rows[OF sample_rows_ok] store_read_def)
    (simp add: select_topic_def list_topics_def scan_topic_def aged_topic_def aged_def store_eval has_runnable_nodes_def)


end
