(* ===== verification/GoTime.thy ===== *)
theory GoTime
  imports Prelude
begin

text \<open>
  How Go writes an instant in UTC with the layout \<open>time.RFC3339Nano\<close> and how \<open>time.Parse\<close> reads one back, with the proof
  that reading what was written gives the instant.

  The date is computed from the number of days since the first of January of the year 1 with a calendar whose year begins
  in March, so that the leap day is the last day of its year.
\<close>

section \<open>Calendar\<close>

text \<open>Year, month and day of a day number.\<close>

definition civil_date :: "int \<Rightarrow> int \<times> int \<times> int" where
  "civil_date days =
     (let z = days + 306; era = z div 146097; doe = z mod 146097;
          yoe = (doe - doe div 1460 + doe div 36524 - doe div 146096) div 365;
          doy = doe - (365 * yoe + yoe div 4 - yoe div 100);
          mp = (5 * doy + 2) div 153;
          month = (if mp < 10 then mp + 3 else mp - 9) in
      (yoe + era * 400 + (if month \<le> 2 then 1 else 0), month, doy - (153 * mp + 2) div 5 + 1))"

text \<open>A number padded with zeros to a width.\<close>

fun fixed_digits :: "nat \<Rightarrow> int \<Rightarrow> string" where
  "fixed_digits 0 i = []"
| "fixed_digits (Suc w) i = fixed_digits w (i div 10) @ [''0123456789'' ! nat (i mod 10)]"

definition pad_int :: "nat \<Rightarrow> int \<Rightarrow> string" where
  "pad_int w i = (if i < 0 then CHR ''-'' # (if - i < 10 ^ w then fixed_digits w (- i) else show_nat (nat (- i)))
     else if i < 10 ^ w then fixed_digits w i else show_nat (nat i))"

section \<open>Formatting\<close>

text \<open>The fraction of a second, with its trailing zeros and, when nothing is left, the point removed.\<close>

definition format_fraction :: "int \<Rightarrow> string" where
  "format_fraction ns = (if ns = 0 then '''' else
     CHR ''.'' # rev (dropWhile (\<lambda>c. c = CHR ''0'') (rev (pad_int 9 ns))))"

definition format_rfc3339_nano :: "time \<Rightarrow> string" where
  "format_rfc3339_nano t =
     (let secs = t div 1000000000; days = secs div 86400; s = secs mod 86400 in
      case civil_date days of (y, m, d) \<Rightarrow>
        pad_int 4 y @ ''-'' @ pad_int 2 m @ ''-'' @ pad_int 2 d @ ''T'' @
        pad_int 2 (s div 3600) @ '':'' @ pad_int 2 (s div 60 mod 60) @ '':'' @ pad_int 2 (s mod 60) @
        format_fraction (t mod 1000000000) @ ''Z'')"

lemma format_examples:
  "format_rfc3339_nano 0 = ''0001-01-01T00:00:00Z''"
  "format_rfc3339_nano (62135596800 * 1000000000) = ''1970-01-01T00:00:00Z''"
  "format_rfc3339_nano ((62135596800 + 1709210096) * 1000000000 + 120000000) = ''2024-02-29T12:34:56.12Z''"
  by code_simp+

section \<open>Days of the calendar\<close>

definition is_leap :: "int \<Rightarrow> bool" where
  "is_leap y \<longleftrightarrow> y mod 4 = 0 \<and> (y mod 100 \<noteq> 0 \<or> y mod 400 = 0)"

definition days_in :: "int \<Rightarrow> int \<Rightarrow> int" where
  "days_in m y = (if m = 2 then (if is_leap y then 29 else 28) else if m \<in> {4, 6, 9, 11} then 30 else 31)"

text \<open>The number of a day, counted from the first of January of the year 1.\<close>

definition day_number :: "int \<Rightarrow> int \<Rightarrow> int \<Rightarrow> int" where
  "day_number y m d =
     (let z = (if m \<le> 2 then y - 1 else y); mp = (if m \<le> 2 then m + 9 else m - 3) in
      365 * z + z div 4 - z div 100 + z div 400 + (153 * mp + 2) div 5 + d - 1 - 306)"

lemma div_range: "0 < k \<Longrightarrow> k * (x div k) \<le> x" "0 < k \<Longrightarrow> x < k * (x div k) + k" for x k :: int
  using mult_div_mod_eq[of k x] pos_mod_sign[of k x] pos_mod_bound[of k x] by linarith+

lemma year_of_era:
  fixes doe :: int
  assumes "0 \<le> doe" "doe \<le> 146096"
  defines "y \<equiv> (doe - doe div 1460 + doe div 36524 - doe div 146096) div 365"
  shows "0 \<le> y" "y \<le> 399" "365 * y + y div 4 - y div 100 \<le> doe"
    "doe < 365 * (y + 1) + (y + 1) div 4 - (y + 1) div 100 + (if y = 399 then 1 else 0)"
proof -
  define a where "a = doe div 1460"
  define b where "b = doe div 36524"
  define c where "c = doe div 146096"
  have y: "365 * y \<le> doe - a + b - c" "doe - a + b - c < 365 * y + 365"
    unfolding y_def a_def b_def c_def by (rule div_range, simp)+
  have a: "1460 * a \<le> doe" "doe < 1460 * a + 1460" unfolding a_def by (rule div_range, simp)+
  have b: "36524 * b \<le> doe" "doe < 36524 * b + 36524" unfolding b_def by (rule div_range, simp)+
  have c: "146096 * c \<le> doe" "doe < 146096 * c + 146096" unfolding c_def by (rule div_range, simp)+
  have cases: "b = 0 \<and> c = 0 \<or> b = 1 \<and> c = 0 \<or> b = 2 \<and> c = 0 \<or> b = 3 \<and> c = 0 \<or> b = 4 \<and> c = 1"
    using b c assms(1,2) by linarith
  show "0 \<le> y" "y \<le> 399" using y a b c cases assms(1,2) by auto
  define p where "p = y div 4"
  have p: "4 * p \<le> y" "y < 4 * p + 4" unfolding p_def by (rule div_range, simp)+
  define q where "q = y div 100"
  have q: "100 * q \<le> y" "y < 100 * q + 100" unfolding q_def by (rule div_range, simp)+
  define p' where "p' = (y+1) div 4"
  have p': "4 * p' \<le> y + 1" "y + 1 < 4 * p' + 4" unfolding p'_def by (rule div_range, simp)+
  define q' where "q' = (y+1) div 100"
  have q': "100 * q' \<le> y+1" "y+1 < 100 * q' + 100" unfolding q'_def by (rule div_range, simp)+
  have "p \<le> a" using cases y(1) a p b by linarith
  moreover have "100 * b \<le> y + 100 * c"
  proof (rule ccontr)
    assume "\<not> 100 * b \<le> y + 100 * c"
    then have "25 * b + 36499 * c < a" "1459 * a < 36499 * b - 36499 * c" using y(2) a b by linarith+
    then show False using cases by linarith
  qed
  ultimately show "365 * y + y div 4 - y div 100 \<le> doe" 
    unfolding p_def[symmetric] q_def[symmetric]
    using y a b c q cases by linarith
  have pa: "a \<le> p'" using cases y(2) a b p' assms(1) by linarith
  show "doe < 365 * (y + 1) + (y + 1) div 4 - (y + 1) div 100 + (if y = 399 then 1 else 0)"
    unfolding p'_def[symmetric] q'_def[symmetric]
  proof (cases "q' \<le> b")
    case True
    have "y = 399" if "c = 1" using that y a b c cases assms(1,2) by linarith
    then show "doe < 365 * (y + 1) + p' - q' + (if y = 399 then 1 else 0)"
      using True pa y(2) cases by (auto split: if_splits)
  next
    case False
    have c0: "c = 0"
    proof (rule ccontr)
      assume "c \<noteq> 0"
      then have "b = 4" "c = 1" using cases by auto
      then have "y < 400" using y(1) a assms(2) by linarith
      then show False using False q' \<open>b = 4\<close> by linarith
    qed
    have "y < 100 * b + 100"
    proof (rule ccontr)
      assume "\<not> y < 100 * b + 100"
      then have "100 * b + 100 \<le> y" by simp
      then have "365 * (100 * b + 100) \<le> 365 * y" by simp
      then have "36500 * b + 36500 \<le> doe - a + b" using y(1) c0 by simp
      then have "25 * b + 24 \<le> a" "a < 25 * b + 24" using a b cases by linarith+
      then show False by linarith
    qed
    then have Y: "y + 1 = 100 * b + 100" "q' = b + 1" using False q' by linarith+
    then have "25 * b + 25 \<le> p'" using p' by linarith
    then show "doe < 365 * (y + 1) + p' - q' + (if y = 399 then 1 else 0)"
      using Y c0 b(2) by (auto split: if_splits)
  qed
qed

lemma div_of_era:
  "(y + e * 400) div 4 = y div 4 + 100 * e" "(y + e * 400) div 100 = y div 100 + 4 * e"
  "0 \<le> y \<Longrightarrow> y \<le> 399 \<Longrightarrow> (y + e * 400) div 400 = e" for y e :: int
proof -
  have "e * 400 = 4 * (100 * e)" "e * 400 = 100 * (4 * e)" by simp_all
  then show "(y + e * 400) div 4 = y div 4 + 100 * e" "(y + e * 400) div 100 = y div 100 + 4 * e"
    by (metis add.commute div_mult_self2 zero_neq_numeral)+
  show "0 \<le> y \<Longrightarrow> y \<le> 399 \<Longrightarrow> (y + e * 400) div 400 = e" by simp
qed

lemma leap_step:
  fixes y :: int
  assumes "365 < 365 + ((y + 1) div 4 - y div 4) - ((y + 1) div 100 - y div 100) + (if y = 399 then 1 else 0)"
    and "0 \<le> y" "y \<le> 399"
  shows "is_leap (y + 1 + e * 400)"
proof -
  have s4: "(y + 1) div 4 = y div 4 + (if (y + 1) mod 4 = 0 then 1 else 0)" by presburger
  have s100: "(y + 1) div 100 = y div 100" if "(y + 1) mod 100 \<noteq> 0"
  proof -
    have "0 < (y + 1) mod 100" using that pos_mod_sign[of 100 "y + 1"] by linarith
    then show ?thesis using div_mult_mod_eq[of "y + 1" 100] div_range[of 100 y] pos_mod_bound[of 100 "y + 1"] by linarith
  qed
  have t100: "y div 100 + 1 \<le> (y + 1) div 100" if "(y + 1) mod 100 = 0"
    using that div_mult_mod_eq[of "y + 1" 100] div_range[of 100 y] by linarith
  have mono: "y div 100 \<le> (y + 1) div 100" by (rule zdiv_mono1) simp_all
  have up: "y = 399 \<or> 0 < ((y + 1) div 4 - y div 4) - ((y + 1) div 100 - y div 100)" using assms(1) by (simp split: if_splits)
  have m4: "(y + 1) mod 4 = 0"
  proof (rule ccontr)
    assume n4: "(y + 1) mod 4 \<noteq> 0"
    then have "(y + 1) div 4 = y div 4" using s4 by simp
    then have "y = 399" using up mono by linarith
    then show False using n4 by simp
  qed
  have m100: "(y + 1) mod 100 \<noteq> 0 \<or> y = 399"
  proof (rule ccontr)
    assume no: "\<not> ((y + 1) mod 100 \<noteq> 0 \<or> y = 399)"
    have "(y + 1) div 4 = y div 4 + 1" using s4 m4 by simp
    moreover have "y div 100 + 1 \<le> (y + 1) div 100" using no by (intro t100) simp
    ultimately show False using up no by linarith
  qed
  have "e * 400 = 4 * (100 * e)" "e * 400 = 100 * (4 * e)" by simp_all
  then have e: "(y + 1 + e * 400) mod 4 = (y + 1) mod 4" "(y + 1 + e * 400) mod 100 = (y + 1) mod 100"
    by (metis mod_mult_self2)+
  have "(y + 1 + e * 400) mod 400 = (y + 1) mod 400" by simp
  then have e400: "y = 399 \<Longrightarrow> (y + 1 + e * 400) mod 400 = 0" by simp
  have "(y + 1) mod 100 \<noteq> 0 \<or> (y + 1 + e * 400) mod 400 = 0" using m100 by (rule disjE) (rule disjI1, assumption, rule disjI2, erule e400)
  then show ?thesis unfolding is_leap_def e using m4 by (intro conjI)
qed

lemma month_of_day:
  fixes doy :: int
  assumes "0 \<le> doy" "doy \<le> 365"
  defines "mp \<equiv> (5 * doy + 2) div 153"
  shows "0 \<le> mp" "mp \<le> 11" "(153 * mp + 2) div 5 \<le> doy" "doy - (153 * mp + 2) div 5 \<le> 30"
    "mp \<in> {1, 3, 6, 8} \<Longrightarrow> doy - (153 * mp + 2) div 5 \<le> 29"
proof -
  have b: "153 * mp \<le> 5 * doy + 2" "5 * doy + 2 < 153 * mp + 153" unfolding mp_def by (rule div_range, simp)+
  show "0 \<le> mp" "mp \<le> 11" using b assms(1,2) by linarith+
  have c: "5 * ((153 * mp + 2) div 5) \<le> 153 * mp + 2" "153 * mp + 2 < 5 * ((153 * mp + 2) div 5) + 5" by (rule div_range, simp)+
  show "(153 * mp + 2) div 5 \<le> doy" "doy - (153 * mp + 2) div 5 \<le> 30" using b c by linarith+
  show "doy - (153 * mp + 2) div 5 \<le> 29" if "mp \<in> {1, 3, 6, 8}" using b that by auto
qed

lemma civil_date_valid:
  assumes "civil_date n = (y, m, d)"
  shows "day_number y m d = n \<and> 1 \<le> m \<and> m \<le> 12 \<and> 1 \<le> d \<and> d \<le> days_in m y"
proof -
  define era where "era = (n + 306) div 146097"
  define doe where "doe = (n + 306) mod 146097"
  define z where "z = (doe - doe div 1460 + doe div 36524 - doe div 146096) div 365"
  define doy where "doy = doe - (365 * z + z div 4 - z div 100)"
  define mp where "mp = (5 * doy + 2) div 153"
  have n: "n + 306 = 146097 * era + doe" unfolding era_def doe_def by simp
  have doe: "0 \<le> doe" "doe \<le> 146096" unfolding doe_def by simp_all
  note yr = year_of_era[OF doe, folded z_def]
  have doy: "0 \<le> doy" "doy \<le> 365" unfolding doy_def using yr by (auto split: if_splits)
  note mo = month_of_day[OF doy, folded mp_def]
  have y: "y = z + era * 400 + (if m \<le> 2 then 1 else 0)" and m: "m = (if mp < 10 then mp + 3 else mp - 9)"
    and d: "d = doy - (153 * mp + 2) div 5 + 1"
    using assms unfolding civil_date_def Let_def era_def[symmetric] doe_def[symmetric] z_def[symmetric]
      doy_def[symmetric] mp_def[symmetric] by auto
  have "1 \<le> m \<and> m \<le> 12 \<and> 1 \<le> d" using m d mo by auto
  moreover have "day_number y m d = n"
  proof -
    have "(if m \<le> 2 then y - 1 else y) = z + era * 400" "(if m \<le> 2 then m + 9 else m - 3) = mp" using y m mo by auto
    moreover have "(z + era * 400) div 400 = era" by (rule div_of_era) (use yr in auto)
    ultimately have "day_number y m d = 365 * (z + era * 400) + (z div 4 + 100 * era) - (z div 100 + 4 * era) + era
        + (153 * mp + 2) div 5 + d - 1 - 306"
      by (simp only: day_number_def Let_def div_of_era(1,2))
    moreover have "365 * (z + era * 400) = 365 * z + 146000 * era" by simp
    ultimately show ?thesis using d n doy_def by linarith
  qed
  moreover have "d \<le> days_in m y"
  proof (cases "mp = 11")
    case True
    have "is_leap (z + 1 + era * 400)" if "doy = 365"
      by (rule leap_step) (use that yr doy_def in \<open>auto split: if_splits\<close>)
    then show ?thesis using True m d y doy unfolding days_in_def by (cases "doy = 365") (auto simp: ac_simps)
  next
    case False
    then show ?thesis using mo m d unfolding days_in_def by auto
  qed
  ultimately show ?thesis by blast
qed

section \<open>Parsing\<close>

definition is_digit :: "char \<Rightarrow> bool" where
  "is_digit c \<longleftrightarrow> 48 \<le> (of_char c :: nat) \<and> (of_char c :: nat) \<le> 57"

definition digit :: "char \<Rightarrow> int" where
  "digit c = int (of_char c) - 48"

definition digits_value :: "string \<Rightarrow> int" where
  "digits_value ds = foldl (\<lambda>v c. 10 * v + digit c) 0 ds"

text \<open>One or two digits, exactly two when \<open>fixed\<close>.\<close>

definition getnum :: "bool \<Rightarrow> string \<Rightarrow> (int \<times> string) option" where
  "getnum fixed s = (case s of
       [] \<Rightarrow> None
     | c # r \<Rightarrow>
         if \<not> is_digit c then None
         else (case r of
             d # r' \<Rightarrow> if is_digit d then Some (10 * digit c + digit d, r')
                       else if fixed then None else Some (digit c, r)
           | [] \<Rightarrow> if fixed then None else Some (digit c, r)))"

definition number_in :: "bool \<Rightarrow> int \<Rightarrow> int \<Rightarrow> string \<Rightarrow> (int \<times> string) option" where
  "number_in fixed lo hi s = Option.bind (getnum fixed s) (\<lambda>(v, r). if lo \<le> v \<and> v \<le> hi then Some (v, r) else None)"

definition skip_char :: "char \<Rightarrow> string \<Rightarrow> string option" where
  "skip_char c s = (case s of [] \<Rightarrow> None | x # r \<Rightarrow> if x = c then Some r else None)"

definition parse_year :: "string \<Rightarrow> (int \<times> string) option" where
  "parse_year s = (if 4 \<le> length s \<and> list_all is_digit (take 4 s) then Some (digits_value (take 4 s), drop 4 s) else None)"

text \<open>An optional fraction, after a point or a comma; digits beyond the ninth are dropped.\<close>

definition parse_fraction :: "string \<Rightarrow> int \<times> string" where
  "parse_fraction s = (case s of
       p # c # r \<Rightarrow>
         if p \<in> {CHR ''.'', CHR '',''} \<and> is_digit c then
           (let ds = take 9 (takeWhile is_digit (c # r)) in
            (digits_value ds * 10 ^ (9 - length ds), dropWhile is_digit (c # r)))
         else (0, s)
     | _ \<Rightarrow> (0, s))"

text \<open>The offset in seconds east of UTC.\<close>

definition parse_zone :: "string \<Rightarrow> (int \<times> string) option" where
  "parse_zone s = (case s of
       CHR ''Z'' # r \<Rightarrow> Some (0, r)
     | sign # h1 # h2 # col # m1 # m2 # r \<Rightarrow>
         if col \<noteq> CHR '':'' then None
         else Option.bind (number_in True 0 24 [h1, h2]) (\<lambda>(hr, _). Option.bind (number_in True 0 60 [m1, m2]) (\<lambda>(mm, _).
           if sign = CHR ''+'' then Some ((hr * 60 + mm) * 60, r)
           else if sign = CHR ''-'' then Some (- ((hr * 60 + mm) * 60), r)
           else None))
     | _ \<Rightarrow> None)"

definition parse_date :: "string \<Rightarrow> ((int \<times> int \<times> int) \<times> string) option" where
  "parse_date s =
     Option.bind (parse_year s) (\<lambda>(y, s). Option.bind (skip_char CHR ''-'' s) (\<lambda>s.
     Option.bind (number_in True 1 12 s) (\<lambda>(m, s). Option.bind (skip_char CHR ''-'' s) (\<lambda>s.
     Option.bind (getnum True s) (\<lambda>(d, s). Some ((y, m, d), s))))))"

definition parse_clock :: "string \<Rightarrow> (int \<times> string) option" where
  "parse_clock s =
     Option.bind (number_in False 0 23 s) (\<lambda>(h, s). Option.bind (skip_char CHR '':'' s) (\<lambda>s.
     Option.bind (number_in True 0 59 s) (\<lambda>(mi, s). Option.bind (skip_char CHR '':'' s) (\<lambda>s.
     Option.bind (number_in True 0 59 s) (\<lambda>(sec, s). Some (h * 3600 + mi * 60 + sec, s))))))"

text \<open>\<open>time.Parse(time.RFC3339Nano, s)\<close>; every error is \<open>None\<close>.\<close>

definition parse_rfc3339_nano :: "string \<Rightarrow> time option" where
  "parse_rfc3339_nano s =
     Option.bind (parse_date s) (\<lambda>((y, m, d), s). Option.bind (skip_char CHR ''T'' s) (\<lambda>s.
     Option.bind (parse_clock s) (\<lambda>(secs, s). case parse_fraction s of (ns, s) \<Rightarrow>
     Option.bind (parse_zone s) (\<lambda>(offset, s).
       if s \<noteq> [] \<or> d < 1 \<or> d > days_in m y then None
       else Some ((day_number y m d * 86400 + secs - offset) * 1000000000 + ns)))))"

lemma parse_examples:
  "parse_rfc3339_nano ''2024-02-29T12:34:56.12Z'' = Some ((62135596800 + 1709210096) * 1000000000 + 120000000)"
  "parse_rfc3339_nano ''2024-02-29T13:34:56,1200000009+01:00'' = Some ((62135596800 + 1709210096) * 1000000000 + 120000000)"
  "parse_rfc3339_nano ''2023-02-29T12:34:56Z'' = None"
  "parse_rfc3339_nano ''2024-02-28T24:00:00Z'' = None"
  "parse_rfc3339_nano ''2024-02-28'' = None"
  by code_simp+

section \<open>Round trip\<close>

lemma digit_of_digit:
  assumes "0 \<le> k" "k < 10"
  shows "is_digit (''0123456789'' ! nat k) \<and> digit (''0123456789'' ! nat k) = k"
proof -
  have "k = 0 \<or> k = 1 \<or> k = 2 \<or> k = 3 \<or> k = 4 \<or> k = 5 \<or> k = 6 \<or> k = 7 \<or> k = 8 \<or> k = 9" using assms by presburger
  then show ?thesis by (auto simp: is_digit_def digit_def)
qed

lemma length_fixed_digits [simp]: "length (fixed_digits w i) = w"
  by (induction w i rule: fixed_digits.induct) auto

lemma fixed_digits_digits: "c \<in> set (fixed_digits w i) \<Longrightarrow> is_digit c"
  by (induction w i rule: fixed_digits.induct) (use digit_of_digit in auto)

lemma digits_value_snoc: "digits_value (ds @ [c]) = 10 * digits_value ds + digit c"
  by (simp add: digits_value_def)

lemma digits_value_fixed: "0 \<le> i \<Longrightarrow> i < 10 ^ w \<Longrightarrow> digits_value (fixed_digits w i) = i"
proof (induction w i rule: fixed_digits.induct)
  case (2 w i)
  have "i div 10 < 10 ^ w" using 2 by (simp add: int_div_less_self zdiv_mono_strict div_less_iff_less_mult)
  then show ?case using 2 digit_of_digit[of "i mod 10"] by (simp add: digits_value_snoc)
qed (simp add: digits_value_def)

text \<open>Each field written with leading zeros is read back, and what follows it is left over.\<close>

lemma getnum_fixed: "0 \<le> v \<Longrightarrow> v < 100 \<Longrightarrow> getnum b (pad_int 2 v @ r) = Some (v, r)"
  using digit_of_digit[of "v div 10"] digit_of_digit[of "v mod 10"]
  by (simp add: pad_int_def getnum_def numeral_2_eq_2 mod_pos_pos_trivial)

lemma number_in_fixed: "0 \<le> v \<Longrightarrow> v < 100 \<Longrightarrow> lo \<le> v \<Longrightarrow> v \<le> hi \<Longrightarrow> number_in b lo hi (pad_int 2 v @ r) = Some (v, r)"
  by (simp add: number_in_def getnum_fixed)

lemma parse_year_fixed: "0 \<le> y \<Longrightarrow> y \<le> 9999 \<Longrightarrow> parse_year (pad_int 4 y @ r) = Some (y, r)"
  using fixed_digits_digits[of _ 4 y] digits_value_fixed[of y 4]
  by (simp add: parse_year_def pad_int_def list_all_iff)

lemma skip_char_hit [simp]: "skip_char c (c # r) = Some r"
  by (simp add: skip_char_def)

lemma digits_value_append: "digits_value (xs @ ys) = digits_value xs * 10 ^ length ys + digits_value ys"
proof (induction ys rule: rev_induct)
  case (snoc y ys)
  show ?case using snoc by (simp add: digits_value_snoc algebra_simps flip: append_assoc)
qed (simp add: digits_value_def)

lemma digits_value_zeros: "digits_value (replicate n CHR ''0'') = 0"
proof (induction n)
  case (Suc n)
  show ?case using Suc unfolding replicate_Suc replicate_append_same[symmetric] digits_value_snoc by (simp add: digit_def)
qed (simp add: digits_value_def)

lemma trailing_dropped:
  fixes z :: 'a and xs :: "'a list"
  defines "strip \<equiv> \<lambda>xs. rev (dropWhile (\<lambda>c. c = z) (rev xs))"
  shows "xs = strip xs @ replicate (length xs - length (strip xs)) z"
proof (induction xs rule: rev_induct)
  case (snoc x xs)
  show ?case
  proof (cases "x = z")
    case True
    have "length (strip xs) \<le> length xs" unfolding strip_def by (metis length_dropWhile_le length_rev)
    then have "replicate (length (xs @ [x]) - length (strip xs)) z = replicate (length xs - length (strip xs)) z @ [z]"
      by (simp add: Suc_diff_le replicate_append_same)
    moreover have "strip (xs @ [x]) = strip xs" using True by (simp add: strip_def)
    ultimately show ?thesis using snoc True by (metis append_assoc)
  qed (simp add: strip_def)
qed (simp add: strip_def)

lemma parse_fraction_format:
  assumes "0 \<le> ns" "ns < 1000000000"
  shows "parse_fraction (format_fraction ns @ ''Z'') = (ns, ''Z'')"
proof (cases "ns = 0")
  case True
  then show ?thesis by (simp add: format_fraction_def parse_fraction_def)
next
  case False
  define D where "D = pad_int 9 ns"
  define ds where "ds = rev (dropWhile (\<lambda>c. c = CHR ''0'') (rev D))"
  have D: "D = fixed_digits 9 ns" using assms by (simp add: D_def pad_int_def)
  have split: "D = ds @ replicate (9 - length ds) CHR ''0''"
    using trailing_dropped[of D "CHR ''0''"] by (simp add: ds_def D)
  have len: "length ds \<le> 9" unfolding ds_def D by (metis length_dropWhile_le length_rev length_fixed_digits)
  have val: "digits_value ds * 10 ^ (9 - length ds) = ns"
    using digits_value_fixed[of ns 9] assms arg_cong[OF split, of digits_value] by (simp add: D digits_value_append digits_value_zeros)
  have digits: "\<forall>c\<in>set ds. is_digit c" using fixed_digits_digits[of _ 9 ns] split D by (metis UnI1 set_append)
  have Z: "\<not> is_digit CHR ''Z''" by (simp add: is_digit_def)
  have whole: "takeWhile is_digit (ds @ ''Z'') = ds" "dropWhile is_digit (ds @ ''Z'') = ''Z''" using digits Z by simp_all
  have "ds \<noteq> []" using val False by (auto simp: digits_value_def)
  then obtain c r where ds: "ds = c # r" by (cases ds) auto
  have "parse_fraction (CHR ''.'' # ds @ ''Z'') = (ns, ''Z'')"
    using whole digits len val unfolding parse_fraction_def ds by simp
  then show ?thesis using False by (simp add: format_fraction_def ds_def D_def)
qed

text \<open>The instants whose year has four digits.\<close>

definition four_digit_year :: "time \<Rightarrow> bool" where
  "four_digit_year t \<longleftrightarrow> day_number 0 1 1 \<le> t div 1000000000 div 86400 \<and> t div 1000000000 div 86400 < day_number 10000 1 1"

lemma year_bounds:
  assumes "civil_date n = (y, m, d)" "day_number 0 1 1 \<le> n" "n < day_number 10000 1 1"
  shows "0 \<le> y" "y \<le> 9999"
proof -
  have v: "day_number y m d = n" "1 \<le> m" "m \<le> 12" "1 \<le> d" "d \<le> 31"
    using civil_date_valid[OF assms(1)] by (auto simp: days_in_def split: if_splits)
  define z where "z = (if m \<le> 2 then y - 1 else y)"
  define k where "k = (153 * (if m \<le> 2 then m + 9 else m - 3) + 2) div 5 + d - 1"
  have n: "n = 365 * z + z div 4 - z div 100 + z div 400 + k - 306" using v(1) by (simp add: day_number_def Let_def z_def k_def)
  have k: "0 \<le> k" "k \<le> 367" "m \<le> 2 \<Longrightarrow> 306 \<le> k" using v unfolding k_def by (auto split: if_splits)
  note q = div_range[of 4 z] div_range[of 100 z] div_range[of 400 z]
  have lo: "day_number 0 1 1 = - 366" and hi: "day_number 10000 1 1 = 3652059" by code_simp+
  have "- 366 \<le> n" "n < 3652059" using assms(2,3) lo hi by simp_all
  show "0 \<le> y"
  proof (rule ccontr)
    assume neg: "\<not> 0 \<le> y"
    then have z: "z \<le> - 1" by (simp add: z_def)
    have k: "k \<le> 367" "2 < m \<Longrightarrow> k \<le> 305" "m \<le> 2 \<Longrightarrow> z \<le> - 2" using v neg unfolding k_def z_def by auto
    have neg4: "z div 4 \<le> - 1" using q(1) z by linarith
    have neg400: "z div 400 \<le> - 1" using q(5) z by linarith
    have c: "- 1 \<le> z div 100 \<or> z \<le> - 101 \<and> - (z div 100) \<le> - z" using q(3,4) z by linarith
    have "365 * z - z div 100 + k < - 58"
    proof (cases "m \<le> 2")
      case True
      then show ?thesis using k(1,3) c by (elim disjE conjE) linarith+
    next
      case False
      then show ?thesis using k(2) c z by (elim disjE conjE) linarith+
    qed
    then show False using n neg4 neg400 \<open>- 366 \<le> n\<close> by linarith
  qed
  show "y \<le> 9999" using n k q \<open>- 366 \<le> n\<close> \<open>n < 3652059\<close> unfolding z_def by (auto split: if_splits)
qed

lemma parse_date_fixed:
  "0 \<le> y \<Longrightarrow> y \<le> 9999 \<Longrightarrow> 1 \<le> m \<Longrightarrow> m \<le> 12 \<Longrightarrow> 0 \<le> d \<Longrightarrow> d < 100 \<Longrightarrow>
   parse_date (pad_int 4 y @ ''-'' @ pad_int 2 m @ ''-'' @ pad_int 2 d @ r) = Some ((y, m, d), r)"
  by (simp add: parse_date_def parse_year_fixed number_in_fixed getnum_fixed)

lemma parse_clock_fixed:
  "0 \<le> h \<Longrightarrow> h \<le> 23 \<Longrightarrow> 0 \<le> mi \<Longrightarrow> mi \<le> 59 \<Longrightarrow> 0 \<le> sec \<Longrightarrow> sec \<le> 59 \<Longrightarrow>
   parse_clock (pad_int 2 h @ '':'' @ pad_int 2 mi @ '':'' @ pad_int 2 sec @ r) = Some (h * 3600 + mi * 60 + sec, r)"
  by (simp add: parse_clock_def number_in_fixed)

lemma parse_format_roundtrip:
  assumes "four_digit_year t"
  shows "parse_rfc3339_nano (format_rfc3339_nano t) = Some t"
proof -
  define secs where "secs = t div 1000000000"
  define s where "s = secs mod 86400"
  define n where "n = secs div 86400"
  define ns where "ns = t mod 1000000000"
  have t: "(n * 86400 + s) * 1000000000 + ns = t"
    by (simp only: n_def s_def div_mult_mod_eq secs_def ns_def)
  obtain y m d where date: "civil_date n = (y, m, d)" by (metis prod_cases3)
  have v: "day_number y m d = n" "1 \<le> m" "m \<le> 12" "1 \<le> d" "d \<le> days_in m y"
    using civil_date_valid[OF date] by auto
  have y: "0 \<le> y" "y \<le> 9999" using year_bounds[OF date] assms by (auto simp: four_digit_year_def n_def secs_def)
  have d: "0 \<le> d" "d < 100" using v by (auto simp: days_in_def split: if_splits)
  have "0 \<le> s" "s < 86400" by (simp_all add: s_def)
  then have clock: "0 \<le> s div 3600" "s div 3600 \<le> 23" "0 \<le> s div 60 mod 60" "s div 60 mod 60 \<le> 59" "0 \<le> s mod 60" "s mod 60 \<le> 59"
    by (auto simp: pos_imp_zdiv_nonneg_iff)
  have hms: "s div 3600 * 3600 + s div 60 mod 60 * 60 + s mod 60 = s"
  proof -
    have "s div 3600 = s div 60 div 60" using zdiv_zmult2_eq[of 60 s 60] by simp
    then show ?thesis using div_mult_mod_eq[of s 60] div_mult_mod_eq[of "s div 60" 60] by linarith
  qed
  have frac: "parse_fraction (format_fraction ns @ ''Z'') = (ns, ''Z'')"
    unfolding ns_def by (rule parse_fraction_format) simp_all
  have z: "parse_zone ''Z'' = Some (0, [])" by (simp add: parse_zone_def)
  note parse_date_fixed[OF y v(2,3) d]
  moreover note parse_clock_fixed[OF clock, unfolded hms]
  moreover have "format_rfc3339_nano t = pad_int 4 y @ ''-'' @ pad_int 2 m @ ''-'' @ pad_int 2 d @ ''T'' @
      pad_int 2 (s div 3600) @ '':'' @ pad_int 2 (s div 60 mod 60) @ '':'' @ pad_int 2 (s mod 60) @ format_fraction ns @ ''Z''"
    unfolding format_rfc3339_nano_def Let_def secs_def[symmetric] s_def[symmetric] n_def[symmetric] ns_def[symmetric] date
    by (rule prod.case[THEN trans]) (rule prod.case)
  moreover have "day_number y m d * 86400 + s - 0 = n * 86400 + s" using v by simp
  ultimately show ?thesis using v t unfolding parse_rfc3339_nano_def by (simp add: frac z)
qed

end
