(* ===== verification/VosTypes.thy ===== *)
theory VosTypes
  imports Json GoTime
begin

text \<open>
  The domain types of VOS (internal/vos/domain): topics, nodes, process items, the user and the state that holds
  them (types.go), sessions and their events (session.go), the errors and the parsers of the enumerations (errors.go).

  Maps are tables (Json). Go's nil map and its nil slice are the empty table and the empty list, except where the code
  tells them apart: a node's memory, the user's memory and the summary of a process item are options. The pointers to
  topics, nodes and process items that the maps of a state hold are never nil here. A status of a node is a string as in
  the source, which checks it only in the operations that take one.
\<close>

section \<open>Errors\<close>

datatype vos_error =
    ValidationError string
  | TopicNotFoundError string
  | NodeNotFoundError string
  | DuplicateEntityError string string
  | InvalidTreeError string
  | LeafOperationError string
  | VersionConflictError string string int int
  | SessionNotFoundError string
  | SessionSequenceConflictError string int int
  | OtherError string
  | WrappedError string vos_error string

text \<open>\<open>WrappedError\<close> is \<open>fmt.Errorf\<close> with a \<open>%w\<close> between two texts.\<close>

fun vos_error_text :: "vos_error \<Rightarrow> string" where
  "vos_error_text (ValidationError m) = m"
| "vos_error_text (TopicNotFoundError i) = ''topic not found: '' @ i"
| "vos_error_text (NodeNotFoundError i) = ''node not found: '' @ i"
| "vos_error_text (DuplicateEntityError k i) = k @ '' already exists: '' @ i"
| "vos_error_text (InvalidTreeError m) = m"
| "vos_error_text (LeafOperationError i) = ''node is not a leaf: '' @ i"
| "vos_error_text (VersionConflictError k i e a) =
     k @ '' version conflict: '' @ i @ '' expected version '' @ show_int e @ '', got '' @ show_int a"
| "vos_error_text (SessionNotFoundError i) = ''session not found: '' @ i"
| "vos_error_text (SessionSequenceConflictError i e a) =
     ''session sequence conflict: '' @ i @ '' expected seq '' @ show_int e @ '', got '' @ show_int a"
| "vos_error_text (OtherError m) = m"
| "vos_error_text (WrappedError pre e post) = pre @ vos_error_text e @ post"

fun is_user_facing_error :: "vos_error \<Rightarrow> bool" where
  "is_user_facing_error (OtherError m) = False"
| "is_user_facing_error (WrappedError pre e post) = is_user_facing_error e"
| "is_user_facing_error _ = True"

section \<open>Topics, nodes and processes\<close>

definition status_draft :: string where "status_draft = ''draft''"

definition status_ready :: string where "status_ready = ''ready''"

definition status_active :: string where "status_active = ''active''"

definition status_blocked :: string where "status_blocked = ''blocked''"

definition status_done :: string where "status_done = ''done''"

definition node_statuses :: "string list" where
  "node_statuses = [status_draft, status_ready, status_active, status_blocked, status_done]"

definition process_todo :: string where "process_todo = ''todo''"

definition process_done :: string where "process_done = ''done''"

record session_range =
  rg_start_session_id :: string
  rg_end_session_id :: string
  rg_start_event_seq :: "int option"
  rg_end_event_seq :: "int option"

record process_item =
  pi_id :: string
  pi_name :: string
  pi_status :: string
  pi_session_range :: "session_range option"
  pi_summary :: "json_object option"
  pi_compacted_session_ids :: "string list"
  pi_timestamp :: time

record vos_topic =
  tp_id :: string
  tp_name :: string
  tp_root_node_id :: string
  tp_workspace :: "string option"
  tp_metadata :: json_object
  tp_description :: "string option"
  tp_tags :: "string list"
  tp_created_at :: time
  tp_updated_at :: time

record vos_user =
  ur_id :: string
  ur_user_memory :: "json_object option"
  ur_model_json :: json_object
  ur_user_permission :: json_object

record vos_node =
  nd_id :: string
  nd_topic_id :: string
  nd_name :: string
  nd_description :: "string option"
  nd_parent_id :: "string option"
  nd_children_ids :: "string list"
  nd_session :: "string list"
  nd_memory :: "json_object option"
  nd_input :: json_object
  nd_output :: json_object
  nd_process_ids :: "string list"
  nd_status :: string
  nd_version :: int
  nd_created_at :: time
  nd_updated_at :: time

record vfs_state =
  vf_topics :: "vos_topic table"
  vf_nodes :: "vos_node table"
  vf_processes :: "process_item table"
  vf_user :: "vos_user option"

definition range_closed :: "session_range \<Rightarrow> bool" where
  "range_closed sr \<longleftrightarrow> rg_end_session_id sr \<noteq> ''''"

definition is_leaf :: "vos_node \<Rightarrow> bool" where
  "is_leaf n \<longleftrightarrow> nd_children_ids n = []"

definition default_user_id :: string where "default_user_id = ''default-user''"

definition new_default_user :: vos_user where
  "new_default_user = \<lparr>ur_id = default_user_id, ur_user_memory = None, ur_model_json = [], ur_user_permission = []\<rparr>"

definition new_vfs_state :: vfs_state where
  "new_vfs_state = \<lparr>vf_topics = [], vf_nodes = [], vf_processes = [], vf_user = Some new_default_user\<rparr>"

definition parse_node_status :: "string \<Rightarrow> vos_error + string" where
  "parse_node_status raw =
     (if raw \<in> set node_statuses then Inr raw else Inl (ValidationError (''invalid node status: '' @ raw)))"

definition parse_process_status :: "string \<Rightarrow> vos_error + string" where
  "parse_process_status raw =
     (if raw \<in> {process_todo, process_done} then Inr raw else Inl (ValidationError (''invalid process status: '' @ raw)))"

section \<open>Normalisation\<close>

text \<open>The workspace of a topic, which older files keep in its metadata.\<close>

definition legacy_workspace :: "vos_topic \<Rightarrow> string option" where
  "legacy_workspace t = (case tp_workspace t of
       Some w \<Rightarrow> Some w
     | None \<Rightarrow> (case as_string (field_or_nil (tp_metadata t) ''workspace_root'') of
           None \<Rightarrow> None
         | Some raw \<Rightarrow> if trim_space raw = '''' then None else Some (trim_space raw)))"

definition topic_normalized :: "vos_topic \<Rightarrow> vos_topic" where
  "topic_normalized t = t\<lparr>
     tp_workspace := (case legacy_workspace t of
         None \<Rightarrow> None
       | Some w \<Rightarrow> if trim_space w = '''' then None else Some (trim_space w)),
     tp_metadata := del ''workspace_root'' (tp_metadata t)\<rparr>"

definition user_normalized :: "vos_user \<Rightarrow> vos_user" where
  "user_normalized u = u\<lparr>ur_id := (if trim_space (ur_id u) = '''' then default_user_id else trim_space (ur_id u))\<rparr>"

definition node_normalized :: "vos_node \<Rightarrow> vos_node" where
  "node_normalized n = n\<lparr>
     nd_version := (if nd_version n \<le> 0 then 1 else nd_version n),
     nd_status := (if nd_status n = '''' then status_draft else nd_status n)\<rparr>"

text \<open>\<open>new_id\<close> is the identifier that an item without one draws; an instant 0 is Go's zero time.\<close>

definition process_normalized :: "string \<Rightarrow> time \<Rightarrow> time \<Rightarrow> process_item \<Rightarrow> process_item" where
  "process_normalized new_id node_updated node_created p = p\<lparr>
     pi_id := (if pi_id p = '''' then new_id else pi_id p),
     pi_name := trim_space (pi_name p),
     pi_status := (if pi_status p \<noteq> process_done then process_todo else process_done),
     pi_timestamp := (if pi_timestamp p = 0
       then (if node_updated \<noteq> 0 then node_updated else if node_created \<noteq> 0 then node_created else 0)
       else pi_timestamp p)\<rparr>"

text \<open>
  The loop over the process items: the items without an identifier draw the next ones of \<open>ids\<close>. The statement after it
  that would give such an item the key it is stored under never runs.
\<close>

fun normalize_processes :: "(nat \<Rightarrow> string) \<Rightarrow> nat \<Rightarrow> process_item table \<Rightarrow> process_item table \<times> nat" where
  "normalize_processes ids n [] = ([], n)"
| "normalize_processes ids n ((key, p) # ps) =
     (case normalize_processes ids (if pi_id p = '''' then n + 1 else n) ps of (qs, m) \<Rightarrow>
        ((key, process_normalized (ids n) 0 0 p) # qs, m))"

definition merge_into :: "json_object \<Rightarrow> json_object \<Rightarrow> json_object" where
  "merge_into extra m = fold (\<lambda>(k, v). put k v) extra m"

text \<open>Moving the user memory that older files keep in the metadata of a topic to the user.\<close>

definition drop_user_memory :: "vos_topic \<Rightarrow> vos_topic" where
  "drop_user_memory t = t\<lparr>tp_metadata := del ''user_memory'' (tp_metadata t)\<rparr>"

definition user_with_memory :: "json \<Rightarrow> vos_user \<Rightarrow> vos_user" where
  "user_with_memory raw u = (case as_object raw of
       None \<Rightarrow> u
     | Some m \<Rightarrow> if m = [] then u
         else u\<lparr>ur_user_memory := Some (merge_into m (case ur_user_memory u of None \<Rightarrow> [] | Some old \<Rightarrow> old))\<rparr>)"

definition migrate_topic :: "string \<Rightarrow> vfs_state \<Rightarrow> vfs_state" where
  "migrate_topic i st = (case map_of (vf_topics st) i of
       None \<Rightarrow> st
     | Some t \<Rightarrow> (case map_of (tp_metadata t) ''user_memory'' of
           None \<Rightarrow> st
         | Some raw \<Rightarrow> st\<lparr>vf_topics := adjust i drop_user_memory (vf_topics st),
             vf_user := map_option (user_with_memory raw) (vf_user st)\<rparr>))"

definition migrate_legacy_topic_user_memory :: "vfs_state \<Rightarrow> vfs_state" where
  "migrate_legacy_topic_user_memory st = (case vf_user st of
       None \<Rightarrow> st
     | Some _ \<Rightarrow> fold migrate_topic (sort (map fst (vf_topics st))) st)"

definition state_normalized :: "(nat \<Rightarrow> string) \<Rightarrow> nat \<Rightarrow> vfs_state \<Rightarrow> vfs_state \<times> nat" where
  "state_normalized ids n st =
     (case normalize_processes ids n (vf_processes st) of (ps, m) \<Rightarrow>
        (migrate_legacy_topic_user_memory
           \<lparr>vf_topics = map (\<lambda>(i, t). (i, topic_normalized t)) (vf_topics st),
            vf_nodes = map (\<lambda>(i, d). (i, node_normalized d)) (vf_nodes st),
            vf_processes = ps,
            vf_user = Some (user_normalized (case vf_user st of None \<Rightarrow> new_default_user | Some u \<Rightarrow> u))\<rparr>, m))"

section \<open>Sessions\<close>

datatype session_status = SessionStatusActive | SessionStatusWaiting | SessionStatusCompleted | SessionStatusFailed

datatype session_role = SessionRoleUser | SessionRoleAssistant | SessionRoleTool | SessionRoleSystem

record vos_session =
  se_id :: string
  se_node_id :: string
  se_status :: session_status
  se_created_at :: time
  se_updated_at :: time
  se_last_seq :: int

record session_event =
  ev_id :: string
  ev_session_id :: string
  ev_seq :: int
  ev_item_type :: string
  ev_provider_item_id :: "string option"
  ev_role :: "session_role option"
  ev_call_id :: "string option"
  ev_payload_json :: json_object
  ev_created_at :: time

definition session_normalized :: "vos_session \<Rightarrow> vos_session" where
  "session_normalized s = s\<lparr>se_last_seq := (if se_last_seq s < 0 then 0 else se_last_seq s)\<rparr>"

definition is_tool_session_item_type :: "string \<Rightarrow> bool" where
  "is_tool_session_item_type t \<longleftrightarrow> t = ''function_call'' \<or> t = ''function_call_output''"

definition parse_session_status :: "string \<Rightarrow> vos_error + session_status" where
  "parse_session_status raw =
     (if raw = ''active'' then Inr SessionStatusActive
      else if raw = ''waiting'' then Inr SessionStatusWaiting
      else if raw = ''completed'' then Inr SessionStatusCompleted
      else if raw = ''failed'' then Inr SessionStatusFailed
      else Inl (ValidationError (''invalid session status: '' @ raw)))"

definition parse_session_item_type :: "string \<Rightarrow> vos_error + string" where
  "parse_session_item_type raw =
     (if raw = '''' then Inl (ValidationError ''session event item_type is required'') else Inr raw)"

definition parse_session_role :: "string \<Rightarrow> vos_error + session_role" where
  "parse_session_role raw =
     (if raw = ''user'' then Inr SessionRoleUser
      else if raw = ''assistant'' then Inr SessionRoleAssistant
      else if raw = ''tool'' then Inr SessionRoleTool
      else if raw = ''system'' then Inr SessionRoleSystem
      else Inl (ValidationError (''invalid session role: '' @ raw)))"

end
