(* ===== verification/VosStore.thy ===== *)
theory VosStore
  imports VosTypes ResultState
begin

text \<open>
  The two stores of VOS (internal/vos/store): the state file (json_store.go) and the session database
  (session_store.go).

  \<open>vos\<close> is everything an operation of the service can change: the contents of the state file, decoded, or nothing while
  there is no file (or a blank one); the two tables of the session database, or nothing when the service has none; the
  identifiers \<open>NewID\<close> will draw and how many it has drawn; and the faults that the next accesses to the state file
  meet, in their order (an unreadable or malformed file, a write that fails), none once the list is used up. Times and
  JSON columns of the database are kept decoded. Failures of the database other than a violated constraint are not modelled.
\<close>

section \<open>State\<close>

record session_db =
  db_sessions :: "vos_session list"
  db_events :: "session_event list"

record vos =
  vo_file :: "vfs_state option"
  vo_db :: "session_db option"
  vo_ids :: "nat \<Rightarrow> string"
  vo_drawn :: nat
  vo_faults :: "vos_error option list"

type_synonym 'a vos_op = "(vos, vos_error, 'a) op"

type_synonym 'a db_op = "(session_db, vos_error, 'a) op"

definition draw_id :: "string vos_op" where
  "draw_id s = (Inr (vo_ids s (vo_drawn s)), s\<lparr>vo_drawn := vo_drawn s + 1\<rparr>)"

text \<open>One access to the state file.\<close>

definition disk :: "unit vos_op" where
  "disk s = (case vo_faults s of
       [] \<Rightarrow> (Inr (), s)
     | None # fs \<Rightarrow> (Inr (), s\<lparr>vo_faults := fs\<rparr>)
     | Some e # fs \<Rightarrow> (Inl e, s\<lparr>vo_faults := fs\<rparr>))"

section \<open>The state file\<close>

definition normalize :: "vfs_state \<Rightarrow> vfs_state vos_op" where
  "normalize st s = (case state_normalized (vo_ids s) (vo_drawn s) st of (st', n) \<Rightarrow> (Inr st', s\<lparr>vo_drawn := n\<rparr>))"

definition load_state :: "vfs_state vos_op" where
  "load_state = seq disk (\<lambda>_ s. case vo_file s of
       None \<Rightarrow> return_ok new_vfs_state s
     | Some st \<Rightarrow> normalize st s)"

text \<open>What the file holds after a write: the fields marked \<open>omitempty\<close> lose an empty map.\<close>

definition omit_empty :: "'a list option \<Rightarrow> 'a list option" where
  "omit_empty v = (if v = Some [] then None else v)"

definition as_written :: "vfs_state \<Rightarrow> vfs_state" where
  "as_written st = st\<lparr>
     vf_processes := map (\<lambda>(i, p). (i, p\<lparr>pi_summary := omit_empty (pi_summary p)\<rparr>)) (vf_processes st),
     vf_user := map_option (\<lambda>u. u\<lparr>ur_user_memory := omit_empty (ur_user_memory u)\<rparr>) (vf_user st)\<rparr>"

text \<open>
  \<open>Save\<close> normalises the state in place, so its caller sees the normalised state afterwards; that state is the result.
  The file is written to a temporary name and renamed: a save that fails leaves the old contents.
\<close>

definition save_state :: "vfs_state \<Rightarrow> vfs_state vos_op" where
  "save_state st = seq (normalize st) (\<lambda>st'. seq disk (\<lambda>_ s. (Inr st', s\<lparr>vo_file := Some (as_written st')\<rparr>)))"

section \<open>The session database\<close>

definition find_session :: "string \<Rightarrow> session_db \<Rightarrow> vos_session option" where
  "find_session i d = List.find (\<lambda>r. se_id r = i) (db_sessions d)"

definition insert_session :: "vos_session \<Rightarrow> unit db_op" where
  "insert_session se d =
     (let row = session_normalized se in
      if find_session (se_id row) d \<noteq> None then (Inl (DuplicateEntityError ''session'' (se_id row)), d)
      else (Inr (), d\<lparr>db_sessions := db_sessions d @ [row]\<rparr>))"

text \<open>The events of a deleted session go with it (\<open>ON DELETE CASCADE\<close>).\<close>

definition delete_session :: "string \<Rightarrow> unit db_op" where
  "delete_session i d =
     (if find_session i d = None then (Inl (SessionNotFoundError i), d)
      else (Inr (), d\<lparr>db_sessions := filter (\<lambda>r. se_id r \<noteq> i) (db_sessions d),
                     db_events := filter (\<lambda>r. ev_session_id r \<noteq> i) (db_events d)\<rparr>))"

definition session_row :: "string \<Rightarrow> vos_session db_op" where
  "session_row i d = (case find_session i d of None \<Rightarrow> (Inl (SessionNotFoundError i), d) | Some r \<Rightarrow> (Inr r, d))"

definition get_session_row :: "string \<Rightarrow> vos_session db_op" where
  "get_session_row i = seq (session_row i) (\<lambda>r. return_ok (session_normalized r))"

text \<open>The constraints of the event table; SQL's \<open>trim\<close> cuts the space character only.\<close>

definition sql_blank :: "string \<Rightarrow> bool" where
  "sql_blank x \<longleftrightarrow> list_all (\<lambda>c. c = CHR '' '') x"

definition violates_event_constraint :: "session_event \<Rightarrow> session_db \<Rightarrow> bool" where
  "violates_event_constraint e d \<longleftrightarrow>
     list_ex (\<lambda>r. ev_id r = ev_id e \<or> (ev_session_id r = ev_session_id e \<and> ev_seq r = ev_seq e)) (db_events d) \<or>
     ev_seq e \<le> 0 \<or> sql_blank (ev_item_type e)"

definition insert_event :: "session_event \<Rightarrow> unit db_op" where
  "insert_event e d =
     (if violates_event_constraint e d then (Inl (DuplicateEntityError ''session_event'' (ev_id e)), d)
      else (Inr (), d\<lparr>db_events := db_events d @ [e]\<rparr>))"

definition appended_row :: "session_event \<Rightarrow> session_status option \<Rightarrow> vos_session \<Rightarrow> vos_session" where
  "appended_row e next_status r = r\<lparr>
     se_last_seq := ev_seq e, se_updated_at := ev_created_at e,
     se_status := (case next_status of None \<Rightarrow> se_status r | Some st \<Rightarrow> st)\<rparr>"

definition write_session :: "vos_session \<Rightarrow> unit db_op" where
  "write_session row d = (Inr (), d\<lparr>db_sessions := update_where (\<lambda>r. se_id r = se_id row)
     (\<lambda>r. r\<lparr>se_status := se_status row, se_updated_at := se_updated_at row, se_last_seq := se_last_seq row\<rparr>)
     (db_sessions d)\<rparr>)"

text \<open>The event gets the next sequence number of its session; a caller that expects another one is refused.\<close>

definition append_event_tx :: "session_event \<Rightarrow> session_status option \<Rightarrow> (session_event \<times> vos_session) db_op" where
  "append_event_tx e next_status =
     seq (session_row (ev_session_id e)) (\<lambda>row.
     let next_seq = se_last_seq row + 1 in
     if ev_seq e > 0 \<and> ev_seq e \<noteq> next_seq
       then return_err (SessionSequenceConflictError (se_id row) next_seq (ev_seq e))
     else
       let e' = e\<lparr>ev_seq := next_seq\<rparr>; row' = appended_row e' next_status row in
       seq (insert_event e') (\<lambda>_. seq (write_session row') (\<lambda>_. return_ok (e', row'))))"

definition append_event :: "session_event \<Rightarrow> session_status option \<Rightarrow> (session_event \<times> vos_session) db_op" where
  "append_event e next_status = transaction None (append_event_tx e next_status)"

definition scan_session_event :: "session_event \<Rightarrow> vos_error + session_event" where
  "scan_session_event r = and_then (parse_session_item_type (ev_item_type r)) (\<lambda>_. Inr r)"

definition seq_before :: "session_event \<Rightarrow> session_event \<Rightarrow> bool" where
  "seq_before a b \<longleftrightarrow> ev_seq a < ev_seq b"

definition query_events :: "(session_event \<Rightarrow> bool) \<Rightarrow> int \<Rightarrow> session_db \<Rightarrow> session_event list" where
  "query_events p n d = take (nat (if n \<le> 0 then 100 else n)) (sort_slice seq_before (filter p (db_events d)))"

definition list_events :: "string \<Rightarrow> int \<Rightarrow> int \<Rightarrow> session_event list db_op" where
  "list_events i after_seq n =
     seq (get_session_row i) (\<lambda>_ d.
     (traverse scan_session_event (query_events (\<lambda>r. ev_session_id r = i \<and> ev_seq r > after_seq) n d), d))"

definition list_events_by_call_id :: "string \<Rightarrow> string \<Rightarrow> int \<Rightarrow> session_event list db_op" where
  "list_events_by_call_id i c n =
     seq (get_session_row i) (\<lambda>_ d.
     (traverse scan_session_event (query_events (\<lambda>r. ev_session_id r = i \<and> ev_call_id r = Some c) n d), d))"

text \<open>A call of the session store from the service, which may have none.\<close>

definition with_sessions :: "'a db_op \<Rightarrow> 'a vos_op" where
  "with_sessions m s = (case vo_db s of
       None \<Rightarrow> (Inl (OtherError ''session store is not configured''), s)
     | Some d \<Rightarrow> (case m d of (r, d') \<Rightarrow> (r, s\<lparr>vo_db := Some d'\<rparr>)))"

definition require_session_store :: "unit vos_op" where
  "require_session_store = with_sessions (return_ok ())"

end
