(* ===== verification/VosService.thy ===== *)
theory VosService
  imports VosStore
begin

text \<open>
  The topics and the nodes of VOS (internal/vos/service/service.go).

  Every operation loads the state file, works on the loaded copy and saves it, so an operation that fails before its
  save changes nothing. The pointers that the maps of the state hold are read and written by key; a clone that the
  code returns after \<open>Save\<close> is read from the state that \<open>Save\<close> normalised. Every operation that stamps times
  takes one reading of the clock, \<open>now\<close>. Cloning a value is the identity.
\<close>

section \<open>Looking up and changing entries\<close>

definition require_topic :: "vfs_state \<Rightarrow> string \<Rightarrow> vos_error + vos_topic" where
  "require_topic st i = (case map_of (vf_topics st) i of None \<Rightarrow> Inl (TopicNotFoundError i) | Some t \<Rightarrow> Inr t)"

definition require_node :: "vfs_state \<Rightarrow> string \<Rightarrow> vos_error + vos_node" where
  "require_node st i = (case map_of (vf_nodes st) i of None \<Rightarrow> Inl (NodeNotFoundError i) | Some n \<Rightarrow> Inr n)"

definition change_topic :: "string \<Rightarrow> (vos_topic \<Rightarrow> vos_topic) \<Rightarrow> vfs_state \<Rightarrow> vfs_state" where
  "change_topic i f st = st\<lparr>vf_topics := adjust i f (vf_topics st)\<rparr>"

definition change_node :: "string \<Rightarrow> (vos_node \<Rightarrow> vos_node) \<Rightarrow> vfs_state \<Rightarrow> vfs_state" where
  "change_node i f st = st\<lparr>vf_nodes := adjust i f (vf_nodes st)\<rparr>"

definition touch_node :: "time \<Rightarrow> vos_node \<Rightarrow> vos_node" where
  "touch_node now n = n\<lparr>nd_version := nd_version n + 1, nd_updated_at := now\<rparr>"

definition touch_topic :: "time \<Rightarrow> vos_topic \<Rightarrow> vos_topic" where
  "touch_topic now t = t\<lparr>tp_updated_at := now\<rparr>"

definition remove_child :: "string list \<Rightarrow> string \<Rightarrow> string list" where
  "remove_child children i = filter (\<lambda>c. c \<noteq> i) children"

definition read_state :: "(vfs_state \<Rightarrow> vos_error + 'a) \<Rightarrow> 'a vos_op" where
  "read_state f = seq load_state (\<lambda>st. of_result (f st))"

text \<open>Load, change, save and look at the saved state.\<close>

definition modify_state ::
  "(vfs_state \<Rightarrow> vos_error + vfs_state) \<Rightarrow> (vfs_state \<Rightarrow> vos_error + 'a) \<Rightarrow> 'a vos_op" where
  "modify_state f view = seq load_state (\<lambda>st. seq (of_result (f st)) (\<lambda>st'.
     seq (save_state st') (\<lambda>st''. of_result (view st''))))"

section \<open>Topics\<close>

record create_topic_input =
  ct_topic_id :: string
  ct_name :: string
  ct_description :: "string option"
  ct_metadata :: json_object
  ct_tags :: "string list"
  ct_root_node_id :: string
  ct_root_node_name :: "string option"

record update_topic_input =
  ut_topic_id :: string
  ut_name :: "string option"
  ut_description :: "string option"
  ut_clear_description :: bool
  ut_metadata :: json_object
  ut_replace_metadata :: bool
  ut_tags :: "string list"
  ut_replace_tags :: bool

record topic_workspace_binding =
  wb_topic_id :: string
  wb_workspace :: string
  wb_created_at :: time
  wb_updated_at :: time

definition new_topic :: "time \<Rightarrow> string \<Rightarrow> string \<Rightarrow> create_topic_input \<Rightarrow> vos_topic" where
  "new_topic now i root_id inp = topic_normalized \<lparr>tp_id = i, tp_name = ct_name inp, tp_root_node_id = root_id,
     tp_workspace = None, tp_metadata = ct_metadata inp, tp_description = ct_description inp,
     tp_tags = ct_tags inp, tp_created_at = now, tp_updated_at = now\<rparr>"

definition new_root_node :: "time \<Rightarrow> string \<Rightarrow> string \<Rightarrow> create_topic_input \<Rightarrow> vos_node" where
  "new_root_node now i root_id inp = node_normalized \<lparr>nd_id = root_id, nd_topic_id = i,
     nd_name = (case ct_root_node_name inp of None \<Rightarrow> ct_name inp | Some n \<Rightarrow> n),
     nd_description = ct_description inp, nd_parent_id = None, nd_children_ids = [], nd_session = [],
     nd_memory = None, nd_input = [], nd_output = [], nd_process_ids = [], nd_status = status_ready,
     nd_version = 1, nd_created_at = now, nd_updated_at = now\<rparr>"

definition add_topic :: "time \<Rightarrow> string \<Rightarrow> string \<Rightarrow> create_topic_input \<Rightarrow> vfs_state \<Rightarrow> vos_error + vfs_state" where
  "add_topic now i root_id inp st =
     (if map_of (vf_topics st) i \<noteq> None then Inl (DuplicateEntityError ''topic'' i)
      else if map_of (vf_nodes st) root_id \<noteq> None then Inl (DuplicateEntityError ''node'' root_id)
      else Inr (st\<lparr>vf_topics := put i (new_topic now i root_id inp) (vf_topics st),
                   vf_nodes := put root_id (new_root_node now i root_id inp) (vf_nodes st)\<rparr>))"

definition create_topic :: "time \<Rightarrow> create_topic_input \<Rightarrow> (vos_topic \<times> vos_node) vos_op" where
  "create_topic now inp =
     (if ct_name inp = '''' then return_err (ValidationError ''topic name is required'')
      else seq load_state (\<lambda>st.
        seq (if ct_topic_id inp = '''' then draw_id else return_ok (ct_topic_id inp)) (\<lambda>i.
        let root_id = (if ct_root_node_id inp = '''' then i @ '':root'' else ct_root_node_id inp) in
        seq (of_result (add_topic now i root_id inp st)) (\<lambda>st'.
        seq (save_state st') (\<lambda>st''.
        of_result (and_then (require_topic st'' i) (\<lambda>t. and_then (require_node st'' root_id) (\<lambda>n. Inr (t, n)))))))))"

definition has_topic_changes :: "update_topic_input \<Rightarrow> bool" where
  "has_topic_changes u \<longleftrightarrow> ut_name u \<noteq> None \<or> ut_description u \<noteq> None \<or> ut_clear_description u \<or>
     ut_replace_metadata u \<or> ut_replace_tags u"

definition validate_update_topic :: "update_topic_input \<Rightarrow> vos_error + unit" where
  "validate_update_topic u =
     (if ut_topic_id u = '''' then Inl (ValidationError ''topic ID is required'')
      else if ut_name u = Some '''' then Inl (ValidationError ''topic name cannot be empty'')
      else if ut_description u \<noteq> None \<and> ut_clear_description u
        then Inl (ValidationError ''description and clear-description cannot be used together'')
      else if \<not> has_topic_changes u then Inl (ValidationError ''at least one topic field must be updated'')
      else Inr ())"

definition updated_topic :: "time \<Rightarrow> update_topic_input \<Rightarrow> vos_topic \<Rightarrow> vos_topic" where
  "updated_topic now u t = touch_topic now (t\<lparr>
     tp_name := (case ut_name u of None \<Rightarrow> tp_name t | Some n \<Rightarrow> n),
     tp_description := (if ut_clear_description u then None
       else case ut_description u of None \<Rightarrow> tp_description t | Some d \<Rightarrow> Some d),
     tp_metadata := (if ut_replace_metadata u then ut_metadata u else tp_metadata t),
     tp_tags := (if ut_replace_tags u then ut_tags u else tp_tags t)\<rparr>)"

definition update_topic :: "time \<Rightarrow> update_topic_input \<Rightarrow> vos_topic vos_op" where
  "update_topic now u = seq (of_result (validate_update_topic u)) (\<lambda>_.
     modify_state
       (\<lambda>st. and_then (require_topic st (ut_topic_id u)) (\<lambda>_. Inr (change_topic (ut_topic_id u) (updated_topic now u) st)))
       (\<lambda>st. require_topic st (ut_topic_id u)))"

definition node_created_before :: "vos_node \<Rightarrow> vos_node \<Rightarrow> bool" where
  "node_created_before a b \<longleftrightarrow> (if nd_created_at a = nd_created_at b then nd_id a < nd_id b
     else nd_created_at a < nd_created_at b)"

definition topic_created_before :: "vos_topic \<Rightarrow> vos_topic \<Rightarrow> bool" where
  "topic_created_before a b \<longleftrightarrow> (if tp_created_at a = tp_created_at b then tp_id a < tp_id b
     else tp_created_at a < tp_created_at b)"

definition node_ids_for_topic :: "vfs_state \<Rightarrow> string \<Rightarrow> string list" where
  "node_ids_for_topic st i =
     map nd_id (sort_slice node_created_before (filter (\<lambda>n. nd_topic_id n = i) (map snd (vf_nodes st))))"

definition remove_topic :: "string \<Rightarrow> vfs_state \<Rightarrow> vfs_state" where
  "remove_topic i st = st\<lparr>vf_nodes := fold del (node_ids_for_topic st i) (vf_nodes st),
     vf_topics := del i (vf_topics st)\<rparr>"

definition delete_topic :: "string \<Rightarrow> (vos_topic \<times> string list) vos_op" where
  "delete_topic i =
     (if i = '''' then return_err (ValidationError ''topic ID is required'')
      else seq load_state (\<lambda>st. seq (of_result (require_topic st i)) (\<lambda>t.
        seq (save_state (remove_topic i st)) (\<lambda>_. return_ok (t, node_ids_for_topic st i)))))"

definition vos_list_topics :: "vos_topic list vos_op" where
  "vos_list_topics = read_state (\<lambda>st. Inr (sort_slice topic_created_before (map snd (vf_topics st))))"

definition vos_get_topic :: "string \<Rightarrow> vos_topic vos_op" where
  "vos_get_topic i = read_state (\<lambda>st. require_topic st i)"

text \<open>The binding of a topic without a workspace is Go's nil.\<close>

definition build_topic_workspace_binding :: "vos_topic \<Rightarrow> topic_workspace_binding option" where
  "build_topic_workspace_binding t = (case tp_workspace t of
       None \<Rightarrow> None
     | Some w \<Rightarrow> if trim_space w = '''' then None else Some \<lparr>wb_topic_id = tp_id t, wb_workspace = trim_space w,
         wb_created_at = tp_created_at t, wb_updated_at = tp_updated_at t\<rparr>)"

definition get_topic_workspace_binding :: "string \<Rightarrow> topic_workspace_binding option vos_op" where
  "get_topic_workspace_binding i =
     (if trim_space i = '''' then return_err (ValidationError ''topic ID is required'')
      else read_state (\<lambda>st. and_then (require_topic st i) (\<lambda>t. Inr (build_topic_workspace_binding t))))"

definition update_topic_workspace_binding ::
  "time \<Rightarrow> string \<Rightarrow> string \<Rightarrow> topic_workspace_binding option vos_op" where
  "update_topic_workspace_binding now topic_id workspace =
     (let i = trim_space topic_id; w = trim_space workspace in
      if i = '''' then return_err (ValidationError ''topic ID is required'')
      else if w = '''' then return_err (ValidationError ''workspace is required'')
      else seq load_state (\<lambda>st. seq (of_result (require_topic st i)) (\<lambda>t.
        if (case tp_workspace t of None \<Rightarrow> '''' | Some old \<Rightarrow> trim_space old) = w
          then return_ok (build_topic_workspace_binding t)
        else seq (save_state (change_topic i (\<lambda>t. touch_topic now (t\<lparr>tp_workspace := Some w\<rparr>)) st)) (\<lambda>st'.
          of_result (and_then (require_topic st' i) (\<lambda>t. Inr (build_topic_workspace_binding t)))))))"

definition root_updated_after :: "vos_node \<Rightarrow> vos_node \<Rightarrow> bool" where
  "root_updated_after a b \<longleftrightarrow> (if nd_updated_at a = nd_updated_at b then nd_created_at a > nd_created_at b
     else nd_updated_at a > nd_updated_at b)"

definition list_display_root_nodes :: "vos_node list vos_op" where
  "list_display_root_nodes = read_state (\<lambda>st.
     Inr (sort_slice root_updated_after (filter (\<lambda>n. nd_parent_id n = None) (map snd (vf_nodes st)))))"


section \<open>Processes of a node\<close>

definition resolve_node_processes :: "vfs_state \<Rightarrow> vos_node \<Rightarrow> process_item list" where
  "resolve_node_processes st n = List.map_filter (map_of (vf_processes st)) (nd_process_ids n)"

text \<open>
  The loop over the items of an update: \<open>seen\<close> holds the identifiers taken so far, in their order. An item without
  identifier draws one.
\<close>

fun sync_items :: "vos_node \<Rightarrow> process_item list \<Rightarrow> (nat \<Rightarrow> string) \<Rightarrow> nat \<Rightarrow> string list \<Rightarrow> process_item table \<Rightarrow>
   nat \<times> (vos_error + string list \<times> process_item table)" where
  "sync_items nd [] ids n seen ps = (n, Inr (seen, ps))"
| "sync_items nd (raw # items) ids n seen ps =
     (let item = process_normalized (ids n) (nd_updated_at nd) (nd_created_at nd) raw;
          n' = (if pi_id raw = '''' then n + 1 else n) in
      if pi_id item \<in> set seen then (n', Inl (ValidationError ''duplicate process id in update payload''))
      else sync_items nd items ids n' (seen @ [pi_id item]) (put (pi_id item) item ps))"

definition sync_node_processes :: "string \<Rightarrow> process_item list \<Rightarrow> vfs_state \<Rightarrow> vfs_state vos_op" where
  "sync_node_processes i items st = seq (of_result (require_node st i)) (\<lambda>nd s.
     case sync_items nd items (vo_ids s) (vo_drawn s) [] (vf_processes st) of (n, r) \<Rightarrow>
       (and_then r (\<lambda>(next_ids, ps).
          Inr (change_node i (\<lambda>nd. nd\<lparr>nd_process_ids := next_ids\<rparr>)
            (st\<lparr>vf_processes := fold del (filter (\<lambda>p. p \<notin> set next_ids) (nd_process_ids nd)) ps\<rparr>))),
        s\<lparr>vo_drawn := n\<rparr>))"

section \<open>Nodes\<close>

record create_node_input =
  cn_topic_id :: string
  cn_name :: string
  cn_parent_id :: "string option"
  cn_node_id :: string
  cn_description :: "string option"
  cn_status :: string
  cn_memory :: "json_object option"
  cn_input :: json_object
  cn_output :: json_object

record update_node_input =
  un_node_id :: string
  un_expected_version :: "int option"
  un_name :: "string option"
  un_description :: "string option"
  un_clear_description :: bool
  un_status :: "string option"
  un_memory :: "json_object option"
  un_input :: "json_object option"
  un_output :: "json_object option"
  un_session_ids :: "string list"
  un_process :: "process_item list option"

record node_list_filter =
  nf_leaf_only :: bool
  nf_statuses :: "string list"
  nf_exclude_statuses :: "string list"

record child_process_entry =
  cp_node_id :: string
  cp_node_name :: string
  cp_processes :: "process_item list"

record node_tool_context =
  nc_node_id :: string
  nc_parent_id :: "string option"
  nc_node_name :: string
  nc_topic_id :: string
  nc_topic_workspace :: "string option"

definition child_memory_cache_key :: string where "child_memory_cache_key = ''_child_memory_cache''"

definition child_memory_entry :: "vos_node \<Rightarrow> json_object \<Rightarrow> json" where
  "child_memory_entry c m = JObj [(''node_id'', JStr (nd_id c)), (''name'', JStr (nd_name c)),
     (''updated_at'', JStr (format_rfc3339_nano (nd_updated_at c))), (''memory'', JObj m)]"

definition remember_child_memory :: "vos_node \<Rightarrow> vos_node \<Rightarrow> vos_node" where
  "remember_child_memory c parent = (case nd_memory c of
       None \<Rightarrow> parent
     | Some m \<Rightarrow>
         let memory = (case nd_memory parent of None \<Rightarrow> [] | Some pm \<Rightarrow> pm);
             cache = (case as_object (field_or_nil memory child_memory_cache_key) of None \<Rightarrow> [] | Some cm \<Rightarrow> cm) in
         parent\<lparr>nd_memory := Some (put child_memory_cache_key
           (JObj (put (nd_id c) (child_memory_entry c m) cache)) memory)\<rparr>)"

definition infer_auto_topic_name :: "string \<Rightarrow> string" where
  "infer_auto_topic_name name = (if trim_space name = '''' then ''Untitled Topic'' else trim_space name)"

definition auto_topic_input :: "string \<Rightarrow> create_topic_input" where
  "auto_topic_input name = \<lparr>ct_topic_id = '''', ct_name = infer_auto_topic_name name, ct_description = None,
     ct_metadata = [], ct_tags = [], ct_root_node_id = '''', ct_root_node_name = None\<rparr>"

definition trimmed_parent :: "string option \<Rightarrow> string option" where
  "trimmed_parent p = (case p of None \<Rightarrow> None | Some x \<Rightarrow> if trim_space x = '''' then None else Some (trim_space x))"

definition new_node :: "time \<Rightarrow> string \<Rightarrow> string \<Rightarrow> string \<Rightarrow> string \<Rightarrow> create_node_input \<Rightarrow> vos_node" where
  "new_node now i topic_id parent_id status inp = node_normalized \<lparr>nd_id = i, nd_topic_id = topic_id,
     nd_name = cn_name inp, nd_description = cn_description inp, nd_parent_id = Some parent_id,
     nd_children_ids = [], nd_session = [], nd_memory = cn_memory inp, nd_input = cn_input inp,
     nd_output = cn_output inp, nd_process_ids = [], nd_status = status, nd_version = 1,
     nd_created_at = now, nd_updated_at = now\<rparr>"

text \<open>The part of \<open>CreateNode\<close> that works on the loaded state: the new node under its parent.\<close>

definition add_child :: "time \<Rightarrow> vos_node \<Rightarrow> vos_node \<Rightarrow> vos_node" where
  "add_child now n parent = touch_node now (remember_child_memory n
     (parent\<lparr>nd_children_ids := nd_children_ids parent @ [nd_id n]\<rparr>))"

definition parent_for :: "vfs_state \<Rightarrow> string \<Rightarrow> string option \<Rightarrow> vos_error + string \<times> vos_node" where
  "parent_for st topic_id parent_arg =
     and_then (require_topic st topic_id) (\<lambda>topic.
     let parent_key = (case parent_arg of None \<Rightarrow> tp_root_node_id topic | Some p \<Rightarrow> p) in
     and_then (require_node st parent_key) (\<lambda>parent.
     if nd_topic_id parent \<noteq> topic_id then Inl (InvalidTreeError ''parent node belongs to a different topic'')
     else Inr (parent_key, parent)))"

definition add_node :: "time \<Rightarrow> string \<Rightarrow> vos_node \<Rightarrow> vfs_state \<Rightarrow> vos_error + vfs_state" where
  "add_node now parent_key n st =
     (if map_of (vf_nodes st) (nd_id n) \<noteq> None then Inl (DuplicateEntityError ''node'' (nd_id n))
      else
        let st1 = change_topic (nd_topic_id n) (touch_topic now) (change_node parent_key (add_child now n) st) in
        Inr (st1\<lparr>vf_nodes := put (nd_id n) n (vf_nodes st1)\<rparr>))"

definition topic_of_parent :: "vfs_state \<Rightarrow> string \<Rightarrow> string option \<Rightarrow> vos_error + string" where
  "topic_of_parent st topic_id parent_arg =
     (case parent_arg of
        Some p \<Rightarrow> if topic_id = '''' then and_then (require_node st p) (\<lambda>n. Inr (nd_topic_id n)) else Inr topic_id
      | None \<Rightarrow> Inr topic_id)"

text \<open>A node that names neither a topic nor a parent gets a topic of its own, saved before the node is made.\<close>

definition ensure_topic_for :: "time \<Rightarrow> string \<Rightarrow> string \<Rightarrow> vfs_state \<Rightarrow> (string \<times> vfs_state) vos_op" where
  "ensure_topic_for now topic_id name st =
     (if topic_id \<noteq> '''' then return_ok (topic_id, st)
      else seq (create_topic now (auto_topic_input name)) (\<lambda>(t, _).
        seq load_state (\<lambda>st'. return_ok (tp_id t, st'))))"

definition create_node :: "time \<Rightarrow> create_node_input \<Rightarrow> vos_node vos_op" where
  "create_node now inp =
     (if cn_name inp = '''' then return_err (ValidationError ''node name is required'')
      else
        let parent_arg = trimmed_parent (cn_parent_id inp);
            status = (if cn_status inp = '''' then status_draft else cn_status inp) in
        seq (of_result (parse_node_status status)) (\<lambda>_.
        seq load_state (\<lambda>st0.
        seq (of_result (topic_of_parent st0 (trim_space (cn_topic_id inp)) parent_arg)) (\<lambda>topic_arg.
        seq (ensure_topic_for now topic_arg (cn_name inp) st0) (\<lambda>(topic_id, st).
        seq (of_result (parent_for st topic_id parent_arg)) (\<lambda>(parent_key, parent).
        seq (if cn_node_id inp = '''' then draw_id else return_ok (cn_node_id inp)) (\<lambda>i.
        seq (of_result (add_node now parent_key (new_node now i topic_id (nd_id parent) status inp) st)) (\<lambda>st'.
        seq (save_state st') (\<lambda>st''. of_result (require_node st'' i))))))))))"

definition matches_node_filter :: "node_list_filter \<Rightarrow> vos_node \<Rightarrow> bool" where
  "matches_node_filter f n \<longleftrightarrow>
     \<not> (nf_leaf_only f \<and> \<not> is_leaf n) \<and>
     \<not> (nf_statuses f \<noteq> [] \<and> nd_status n \<notin> set (nf_statuses f)) \<and>
     \<not> (nf_exclude_statuses f \<noteq> [] \<and> nd_status n \<in> set (nf_exclude_statuses f))"

definition list_nodes_by_filter :: "string \<Rightarrow> node_list_filter \<Rightarrow> vos_node list vos_op" where
  "list_nodes_by_filter i f = read_state (\<lambda>st. and_then (require_topic st i) (\<lambda>_.
     Inr (sort_slice node_created_before
       (filter (\<lambda>n. nd_topic_id n = i \<and> matches_node_filter f n) (map snd (vf_nodes st))))))"

definition vos_get_node :: "string \<Rightarrow> vos_node vos_op" where
  "vos_get_node i = read_state (\<lambda>st. require_node st i)"

definition list_node_processes :: "string \<Rightarrow> process_item list vos_op" where
  "list_node_processes i = read_state (\<lambda>st. and_then (require_node st i) (\<lambda>n. Inr (resolve_node_processes st n)))"

definition list_children :: "string \<Rightarrow> vos_node list vos_op" where
  "list_children i = read_state (\<lambda>st. and_then (require_node st i) (\<lambda>n. traverse (require_node st) (nd_children_ids n)))"

definition list_children_processes :: "string \<Rightarrow> child_process_entry list vos_op" where
  "list_children_processes i = read_state (\<lambda>st. and_then (require_node st i) (\<lambda>n.
     traverse (\<lambda>c. and_then (require_node st c) (\<lambda>child. Inr \<lparr>cp_node_id = nd_id child, cp_node_name = nd_name child,
       cp_processes = resolve_node_processes st child\<rparr>)) (nd_children_ids n)))"

definition get_node_tool_context :: "string \<Rightarrow> node_tool_context vos_op" where
  "get_node_tool_context i = read_state (\<lambda>st. and_then (require_node st i) (\<lambda>n.
     and_then (require_topic st (nd_topic_id n)) (\<lambda>t. Inr \<lparr>nc_node_id = nd_id n, nc_parent_id = nd_parent_id n,
       nc_node_name = nd_name n, nc_topic_id = nd_topic_id n, nc_topic_workspace = tp_workspace t\<rparr>)))"

definition is_leaf_operable :: "string \<Rightarrow> bool vos_op" where
  "is_leaf_operable i = read_state (\<lambda>st. and_then (require_node st i) (\<lambda>n. Inr (is_leaf n)))"


section \<open>Moving, deleting and updating a node\<close>

text \<open>
  The walk from the new parent up to the root. A state whose parents form a cycle keeps it going forever, so \<open>None\<close> stands for a
  call that does not return.
\<close>

partial_function (option) walk_up :: "vfs_state \<Rightarrow> string \<Rightarrow> vos_node \<Rightarrow> (vos_error + unit) option" where
  "walk_up st i cursor =
     (if nd_id cursor = i then Some (Inl (InvalidTreeError ''tree move would create a cycle''))
      else (case nd_parent_id cursor of
          None \<Rightarrow> Some (Inr ())
        | Some p \<Rightarrow> (case require_node st p of Inl e \<Rightarrow> Some (Inl e) | Inr n \<Rightarrow> walk_up st i n)))"

declare walk_up.simps [code]

definition ensure_no_cycle :: "vfs_state \<Rightarrow> string \<Rightarrow> string \<Rightarrow> (vos_error + unit) option" where
  "ensure_no_cycle st i new_parent =
     (if i = new_parent then Some (Inl (InvalidTreeError ''node cannot become its own parent''))
      else (case require_node st new_parent of Inl e \<Rightarrow> Some (Inl e) | Inr n \<Rightarrow> walk_up st i n))"

text \<open>The checks of \<open>MoveNode\<close>: the node and its new parent.\<close>

definition check_move :: "vfs_state \<Rightarrow> string \<Rightarrow> string \<Rightarrow> (vos_error + vos_node \<times> vos_node) option" where
  "check_move st i new_parent_id =
     (case require_node st i of
        Inl e \<Rightarrow> Some (Inl e)
      | Inr n \<Rightarrow>
          if nd_parent_id n = None then Some (Inl (InvalidTreeError ''root node cannot be moved''))
          else (case require_node st new_parent_id of
            Inl e \<Rightarrow> Some (Inl e)
          | Inr np \<Rightarrow>
              if nd_topic_id n \<noteq> nd_topic_id np then Some (Inl (InvalidTreeError ''cannot move node across topics''))
              else map_option (\<lambda>r. and_then r (\<lambda>_. Inr (n, np))) (ensure_no_cycle st (nd_id n) (nd_id np))))"

text \<open>The rewiring; the topic is looked up after the nodes have changed.\<close>

definition rewire :: "time \<Rightarrow> string \<Rightarrow> string \<Rightarrow> vos_node \<Rightarrow> vos_node \<Rightarrow> vfs_state \<Rightarrow> vos_error + vfs_state" where
  "rewire now i new_parent_id n np st = (case nd_parent_id n of
       None \<Rightarrow> Inl (InvalidTreeError ''root node cannot be moved'')
     | Some old \<Rightarrow> and_then (require_node st old) (\<lambda>_.
         let st1 = change_node old (\<lambda>p. touch_node now (p\<lparr>nd_children_ids := remove_child (nd_children_ids p) (nd_id n)\<rparr>)) st;
             st2 = change_node new_parent_id (\<lambda>p. touch_node now (p\<lparr>nd_children_ids := nd_children_ids p @ [nd_id n]\<rparr>)) st1;
             st3 = change_node i (\<lambda>d. touch_node now (d\<lparr>nd_parent_id := Some (nd_id np)\<rparr>)) st2 in
         and_then (require_topic st3 (nd_topic_id n)) (\<lambda>_.
         Inr (change_topic (nd_topic_id n) (touch_topic now) st3))))"

definition move_checked :: "time \<Rightarrow> string \<Rightarrow> string \<Rightarrow> vos_node \<Rightarrow> vos_node \<Rightarrow> vfs_state \<Rightarrow> vos_node vos_op" where
  "move_checked now i new_parent_id n np st =
     (if nd_parent_id n = Some (nd_id np) then return_ok n
      else seq (of_result (rewire now i new_parent_id n np st)) (\<lambda>st'.
        seq (save_state st') (\<lambda>st''. of_result (require_node st'' i))))"

definition move_node :: "time \<Rightarrow> string \<Rightarrow> string \<Rightarrow> vos \<Rightarrow> ((vos_error + vos_node) \<times> vos) option" where
  "move_node now i new_parent_id s = (case load_state s of
       (Inl e, s') \<Rightarrow> Some (Inl e, s')
     | (Inr st, s') \<Rightarrow> map_option (\<lambda>r. seq (of_result r) (\<lambda>(n, np). move_checked now i new_parent_id n np st) s')
         (check_move st i new_parent_id))"

definition unlink_node :: "time \<Rightarrow> string \<Rightarrow> vfs_state \<Rightarrow> vos_error + vos_node \<times> vfs_state" where
  "unlink_node now i st = and_then (require_node st i) (\<lambda>n. case nd_parent_id n of
       None \<Rightarrow> Inl (InvalidTreeError ''root node cannot be deleted'')
     | Some p \<Rightarrow>
         if \<not> is_leaf n then Inl (LeafOperationError i)
         else and_then (require_node st p) (\<lambda>_.
           let st1 = change_node p (\<lambda>d. touch_node now (d\<lparr>nd_children_ids := remove_child (nd_children_ids d) (nd_id n)\<rparr>)) st in
           and_then (require_topic st1 (nd_topic_id n)) (\<lambda>_.
           let st2 = change_topic (nd_topic_id n) (touch_topic now) st1 in
           and_then (require_node st1 i) (\<lambda>gone. Inr (gone, st2\<lparr>vf_nodes := del (nd_id n) (vf_nodes st2)\<rparr>)))))"

definition delete_node :: "time \<Rightarrow> string \<Rightarrow> vos_node vos_op" where
  "delete_node now i = seq load_state (\<lambda>st. seq (of_result (unlink_node now i st)) (\<lambda>(gone, st').
     seq (save_state st') (\<lambda>_. return_ok gone)))"

definition has_node_changes :: "update_node_input \<Rightarrow> bool" where
  "has_node_changes u \<longleftrightarrow> un_name u \<noteq> None \<or> un_description u \<noteq> None \<or> un_clear_description u \<or>
     un_status u \<noteq> None \<or> un_memory u \<noteq> None \<or> un_input u \<noteq> None \<or> un_output u \<noteq> None \<or>
     un_session_ids u \<noteq> [] \<or> un_process u \<noteq> None"

definition check_process_item :: "process_item \<Rightarrow> vos_error + unit" where
  "check_process_item p =
     (if trim_space (pi_name p) = '''' then Inl (ValidationError ''process.name cannot be empty'')
      else and_then (parse_process_status (pi_status p)) (\<lambda>_. Inr ()))"

definition validate_update_node :: "update_node_input \<Rightarrow> vos_error + unit" where
  "validate_update_node u =
     (if un_node_id u = '''' then Inl (ValidationError ''node ID is required'')
      else if un_name u = Some '''' then Inl (ValidationError ''node name cannot be empty'')
      else if un_description u \<noteq> None \<and> un_clear_description u
        then Inl (ValidationError ''description and clear-description cannot be used together'')
      else if (case un_expected_version u of None \<Rightarrow> False | Some v \<Rightarrow> v \<le> 0)
        then Inl (ValidationError ''expected version must be a positive integer'')
      else and_then (case un_status u of None \<Rightarrow> Inr () | Some r \<Rightarrow> and_then (parse_node_status r) (\<lambda>_. Inr ())) (\<lambda>_.
        and_then (check_all check_process_item (case un_process u of None \<Rightarrow> [] | Some items \<Rightarrow> items)) (\<lambda>_.
        if \<not> has_node_changes u then Inl (ValidationError ''at least one node field must be updated'') else Inr ())))"

definition check_version :: "int option \<Rightarrow> vos_node \<Rightarrow> vos_error + unit" where
  "check_version expected n = (case expected of
       None \<Rightarrow> Inr ()
     | Some v \<Rightarrow> if nd_version n \<noteq> v then Inl (VersionConflictError ''node'' (nd_id n) v (nd_version n)) else Inr ())"

definition with_default :: "'a \<Rightarrow> 'a option \<Rightarrow> 'a" where
  "with_default d v = (case v of None \<Rightarrow> d | Some x \<Rightarrow> x)"

definition updated_node :: "update_node_input \<Rightarrow> vos_node \<Rightarrow> vos_node" where
  "updated_node u n = n\<lparr>
     nd_name := with_default (nd_name n) (un_name u),
     nd_description := (if un_clear_description u then None
       else case un_description u of None \<Rightarrow> nd_description n | Some d \<Rightarrow> Some d),
     nd_status := with_default (nd_status n) (un_status u),
     nd_memory := (case un_memory u of None \<Rightarrow> nd_memory n | Some m \<Rightarrow> Some m),
     nd_input := with_default (nd_input n) (un_input u),
     nd_output := with_default (nd_output n) (un_output u),
     nd_session := nd_session n @ un_session_ids u\<rparr>"

text \<open>A changed memory is copied to the parent, with the version and the time the node has after its own touch.\<close>

definition pass_memory_up :: "time \<Rightarrow> update_node_input \<Rightarrow> vfs_state \<Rightarrow> vos_error + vfs_state" where
  "pass_memory_up now u st = (if un_memory u = None then Inr st
     else and_then (require_node st (un_node_id u)) (\<lambda>n. case nd_parent_id n of
       None \<Rightarrow> Inr st
     | Some p \<Rightarrow> and_then (require_node st p) (\<lambda>_.
         Inr (change_node p (\<lambda>parent. touch_node now (remember_child_memory n parent)) st))))"

definition update_node :: "time \<Rightarrow> update_node_input \<Rightarrow> vos_node vos_op" where
  "update_node now u =
     seq (of_result (validate_update_node u)) (\<lambda>_.
     seq load_state (\<lambda>st0. let i = un_node_id u in
     seq (of_result (require_node st0 i)) (\<lambda>n.
     seq (of_result (check_version (un_expected_version u) n)) (\<lambda>_.
     let st1 = change_node i (updated_node u) st0 in
     seq (case un_process u of None \<Rightarrow> return_ok st1 | Some items \<Rightarrow> sync_node_processes i items st1) (\<lambda>st2.
     seq (of_result (pass_memory_up now u (change_node i (touch_node now) st2))) (\<lambda>st3.
     seq (of_result (require_topic st3 (nd_topic_id n))) (\<lambda>_.
     seq (save_state (change_topic (nd_topic_id n) (touch_topic now) st3)) (\<lambda>st4.
     of_result (require_node st4 i)))))))))"

end
