(* ===== verification/VosForest.thy ===== *)
theory VosForest
  imports Prelude
begin

text \<open>
  The abstract contract of VOS's topics and nodes: a forest with one tree per topic, and the five ways the service may
  change it. \<open>forest_ok\<close> says it is one: identifiers agree with keys, a topic has its root node, parents and
  children mirror each other within a topic, and no node is its own ancestor.
\<close>

section \<open>Forests\<close>

record links =
  lk_id :: string
  lk_topic :: string
  lk_parent :: "string option"
  lk_children :: "string list"

text \<open>Of a topic: its identifier and its root node.\<close>

record forest =
  fr_topics :: "string \<Rightarrow> (string \<times> string) option"
  fr_nodes :: "string \<Rightarrow> links option"

definition parent_links :: "(string \<Rightarrow> links option) \<Rightarrow> (string \<times> string) set" where
  "parent_links N = {(c, p). \<exists>l. N c = Some l \<and> lk_parent l = Some p}"

definition topic_entry_ok :: "forest \<Rightarrow> string \<Rightarrow> string \<times> string \<Rightarrow> bool" where
  "topic_entry_ok F i t \<longleftrightarrow> fst t = i \<and>
     (\<exists>l. fr_nodes F (snd t) = Some l \<and> lk_topic l = i \<and> lk_parent l = None)"

definition node_entry_ok :: "forest \<Rightarrow> string \<Rightarrow> links \<Rightarrow> bool" where
  "node_entry_ok F i l \<longleftrightarrow> lk_id l = i \<and> distinct (lk_children l) \<and>
     (\<exists>t. fr_topics F (lk_topic l) = Some t \<and> (lk_parent l = None \<longrightarrow> snd t = i)) \<and>
     (\<forall>p. lk_parent l = Some p \<longrightarrow> (\<exists>lp. fr_nodes F p = Some lp \<and> lk_topic lp = lk_topic l \<and> i \<in> set (lk_children lp))) \<and>
     (\<forall>c\<in>set (lk_children l). \<exists>lc. fr_nodes F c = Some lc \<and> lk_parent lc = Some i)"

definition forest_ok :: "forest \<Rightarrow> bool" where
  "forest_ok F \<longleftrightarrow> (\<forall>i t. fr_topics F i = Some t \<longrightarrow> topic_entry_ok F i t) \<and>
     (\<forall>i l. fr_nodes F i = Some l \<longrightarrow> node_entry_ok F i l) \<and>
     finite (dom (fr_nodes F)) \<and> acyclic (parent_links (fr_nodes F))"

definition empty_forest :: forest where
  "empty_forest = \<lparr>fr_topics = \<lambda>_. None, fr_nodes = \<lambda>_. None\<rparr>"

lemma forest_okI:
  "(\<And>i t. fr_topics F i = Some t \<Longrightarrow> topic_entry_ok F i t) \<Longrightarrow> (\<And>i l. fr_nodes F i = Some l \<Longrightarrow> node_entry_ok F i l) \<Longrightarrow>
   finite (dom (fr_nodes F)) \<Longrightarrow> acyclic (parent_links (fr_nodes F)) \<Longrightarrow> forest_ok F"
  by (simp add: forest_ok_def)

lemma forest_topicD:
  "forest_ok F \<Longrightarrow> fr_topics F i = Some t \<Longrightarrow>
   fst t = i \<and> (\<exists>l. fr_nodes F (snd t) = Some l \<and> lk_topic l = i \<and> lk_parent l = None)"
  unfolding forest_ok_def topic_entry_ok_def by blast

lemma forest_nodeD:
  assumes "forest_ok F" and "fr_nodes F i = Some l"
  shows "lk_id l = i" and "distinct (lk_children l)"
    and "\<exists>t. fr_topics F (lk_topic l) = Some t \<and> (lk_parent l = None \<longrightarrow> snd t = i)"
  using assms unfolding forest_ok_def node_entry_ok_def by blast+

lemma forest_parentD:
  "forest_ok F \<Longrightarrow> fr_nodes F i = Some l \<Longrightarrow> lk_parent l = Some p \<Longrightarrow>
   \<exists>lp. fr_nodes F p = Some lp \<and> lk_topic lp = lk_topic l \<and> i \<in> set (lk_children lp)"
  unfolding forest_ok_def node_entry_ok_def by blast

lemma forest_childD:
  "forest_ok F \<Longrightarrow> fr_nodes F i = Some l \<Longrightarrow> c \<in> set (lk_children l) \<Longrightarrow>
   \<exists>lc. fr_nodes F c = Some lc \<and> lk_parent lc = Some i"
  unfolding forest_ok_def node_entry_ok_def by blast

lemma forest_acyclic: "forest_ok F \<Longrightarrow> acyclic (parent_links (fr_nodes F))"
  by (simp add: forest_ok_def)

lemma forest_finite: "forest_ok F \<Longrightarrow> finite (dom (fr_nodes F))"
  by (simp add: forest_ok_def)

lemma forest_no_self_parent:
  assumes "forest_ok F" and "fr_nodes F i = Some l"
  shows "lk_parent l \<noteq> Some i"
proof
  assume "lk_parent l = Some i"
  then have "(i, i) \<in> parent_links (fr_nodes F)" using assms(2) by (auto simp: parent_links_def)
  then show False using forest_acyclic[OF assms(1)] by (auto simp: acyclic_def)
qed

lemma parent_links_finite: "finite (dom N) \<Longrightarrow> finite (parent_links N)"
proof (rule finite_subset)
  show "parent_links N \<subseteq> (\<lambda>c. (c, the (lk_parent (the (N c))))) ` dom N"
    by (force simp: parent_links_def)
qed simp

text \<open>Going from a node to its parent is well-founded.\<close>

lemma parent_links_wf: "forest_ok F \<Longrightarrow> wf ((parent_links (fr_nodes F))\<inverse>)"
  by (intro finite_acyclic_wf_converse parent_links_finite forest_finite forest_acyclic)

lemma parent_links_mono_acyclic: "acyclic R \<Longrightarrow> S \<subseteq> R \<Longrightarrow> acyclic S"
  by (rule acyclic_subset)

section \<open>The steps\<close>

definition single_root :: "string \<Rightarrow> string \<Rightarrow> links" where
  "single_root r i = \<lparr>lk_id = r, lk_topic = i, lk_parent = None, lk_children = []\<rparr>"

definition child_links :: "string \<Rightarrow> links \<Rightarrow> links" where
  "child_links c l = \<lparr>lk_id = c, lk_topic = lk_topic l, lk_parent = Some (lk_id l), lk_children = []\<rparr>"

definition gain_child :: "string \<Rightarrow> links \<Rightarrow> links" where
  "gain_child c l = l\<lparr>lk_children := lk_children l @ [c]\<rparr>"

definition lose_child :: "string \<Rightarrow> links \<Rightarrow> links" where
  "lose_child c l = l\<lparr>lk_children := filter (\<lambda>x. x \<noteq> c) (lk_children l)\<rparr>"

inductive forest_step :: "forest \<Rightarrow> forest \<Rightarrow> bool" where
  plant: "fr_topics F i = None \<Longrightarrow> fr_nodes F r = None \<Longrightarrow>
    forest_step F (F\<lparr>fr_topics := (fr_topics F)(i \<mapsto> (i, r)), fr_nodes := (fr_nodes F)(r \<mapsto> single_root r i)\<rparr>)"
| grow: "fr_nodes F p = Some l \<Longrightarrow> fr_nodes F c = None \<Longrightarrow>
    forest_step F (F\<lparr>fr_nodes := (fr_nodes F)(p \<mapsto> gain_child c l, c \<mapsto> child_links c l)\<rparr>)"
| move: "fr_nodes F c = Some l \<Longrightarrow> lk_parent l = Some old \<Longrightarrow> fr_nodes F old = Some lo \<Longrightarrow> fr_nodes F new = Some ln \<Longrightarrow>
    lk_topic l = lk_topic ln \<Longrightarrow> old \<noteq> new \<Longrightarrow> (new, c) \<notin> (parent_links (fr_nodes F))\<^sup>* \<Longrightarrow>
    forest_step F (F\<lparr>fr_nodes := (fr_nodes F)(old \<mapsto> lose_child c lo, new \<mapsto> gain_child c ln,
      c \<mapsto> l\<lparr>lk_parent := Some new\<rparr>)\<rparr>)"
| prune: "fr_nodes F c = Some l \<Longrightarrow> lk_parent l = Some p \<Longrightarrow> lk_children l = [] \<Longrightarrow> fr_nodes F p = Some lp \<Longrightarrow>
    forest_step F (F\<lparr>fr_nodes := (fr_nodes F)(p \<mapsto> lose_child c lp, c := None)\<rparr>)"
| fell: "fr_topics F i \<noteq> None \<Longrightarrow>
    forest_step F (F\<lparr>fr_topics := (fr_topics F)(i := None),
      fr_nodes := (\<lambda>k. case fr_nodes F k of None \<Rightarrow> None | Some l \<Rightarrow> if lk_topic l = i then None else Some l)\<rparr>)"

lemmas links_simps = single_root_def child_links_def gain_child_def lose_child_def


section \<open>Every step keeps a forest a forest\<close>

lemma topic_entry_kept:
  assumes "forest_ok F" and "fr_topics F k = Some t"
    and "\<And>l. fr_nodes F (snd t) = Some l \<Longrightarrow> lk_parent l = None \<Longrightarrow>
      \<exists>m. fr_nodes G (snd t) = Some m \<and> lk_topic m = lk_topic l \<and> lk_parent m = None"
  shows "topic_entry_ok G k t"
proof -
  from forest_topicD[OF assms(1,2)] obtain l where l: "fst t = k" "fr_nodes F (snd t) = Some l" "lk_topic l = k" "lk_parent l = None"
    by blast
  then show ?thesis using assms(3)[OF l(2,4)] by (simp add: topic_entry_ok_def)
qed

lemma plant_ok:
  assumes ok: "forest_ok F" and i: "fr_topics F i = None" and r: "fr_nodes F r = None"
  shows "forest_ok (F\<lparr>fr_topics := (fr_topics F)(i \<mapsto> (i, r)), fr_nodes := (fr_nodes F)(r \<mapsto> single_root r i)\<rparr>)"
    (is "forest_ok ?G")
proof (rule forest_okI)
  fix k t assume t: "fr_topics ?G k = Some t"
  show "topic_entry_ok ?G k t"
  proof (cases "k = i")
    case True
    then show ?thesis using t by (auto simp: topic_entry_ok_def links_simps)
  next
    case False
    then obtain l where "fst t = k" "fr_nodes F (snd t) = Some l" "lk_topic l = k" "lk_parent l = None"
      using t forest_topicD[OF ok, of k t] by auto
    then show ?thesis using r by (auto simp: topic_entry_ok_def)
  qed
next
  fix k l assume l: "fr_nodes ?G k = Some l"
  show "node_entry_ok ?G k l"
  proof (cases "k = r")
    case True
    then show ?thesis using l by (auto simp: node_entry_ok_def links_simps)
  next
    case False
    then have l': "fr_nodes F k = Some l" using l by simp
    have "\<exists>lp. fr_nodes ?G p = Some lp \<and> lk_topic lp = lk_topic l \<and> k \<in> set (lk_children lp)" if "lk_parent l = Some p" for p
      using forest_parentD[OF ok l' that] r by auto
    moreover have "\<exists>lc. fr_nodes ?G c = Some lc \<and> lk_parent lc = Some k" if "c \<in> set (lk_children l)" for c
      using forest_childD[OF ok l' that] r by auto
    ultimately show ?thesis using forest_nodeD[OF ok l'] i by (auto simp: node_entry_ok_def)
  qed
next
  show "finite (dom (fr_nodes ?G))" using forest_finite[OF ok] by simp
  have "parent_links (fr_nodes ?G) \<subseteq> parent_links (fr_nodes F)"
    by (auto simp: parent_links_def links_simps split: if_splits)
  then show "acyclic (parent_links (fr_nodes ?G))" by (rule acyclic_subset[OF forest_acyclic[OF ok]])
qed

lemma grow_ok:
  assumes ok: "forest_ok F" and p: "fr_nodes F p = Some l" and c: "fr_nodes F c = None"
  shows "forest_ok (F\<lparr>fr_nodes := (fr_nodes F)(p \<mapsto> gain_child c l, c \<mapsto> child_links c l)\<rparr>)" (is "forest_ok ?G")
proof (rule forest_okI)
  have pc: "p \<noteq> c" using p c by auto
  have id: "lk_id l = p" using forest_nodeD(1)[OF ok p] .
  have new: "c \<notin> set (lk_children l)"
  proof
    assume "c \<in> set (lk_children l)"
    then show False using forest_childD[OF ok p] c by fastforce
  qed
  have kept: "\<exists>m'. fr_nodes ?G k = Some m' \<and> lk_topic m' = lk_topic m \<and> lk_parent m' = lk_parent m \<and>
      set (lk_children m) \<subseteq> set (lk_children m')" if "fr_nodes F k = Some m" for k m
    using that p c by (auto simp: gain_child_def)
  show "topic_entry_ok ?G k t" if "fr_topics ?G k = Some t" for k t
  proof (rule topic_entry_kept[OF ok])
    show "fr_topics F k = Some t" using that by simp
    fix lr assume lr: "fr_nodes F (snd t) = Some lr" and none: "lk_parent lr = None"
    then show "\<exists>m. fr_nodes ?G (snd t) = Some m \<and> lk_topic m = lk_topic lr \<and> lk_parent m = None"
      using kept[OF lr] by metis
  qed
  show "node_entry_ok ?G k m" if m: "fr_nodes ?G k = Some m" for k m
  proof (cases "k = c")
    case True
    then have "m = child_links c l" using m by simp
    then show ?thesis using True id pc forest_nodeD(3)[OF ok p]
      by (auto simp: node_entry_ok_def child_links_def gain_child_def)
  next
    case False
    then obtain m' where m': "fr_nodes F k = Some m'"
      and eq: "m = (if k = p then gain_child c m' else m')" using m p by (auto split: if_splits)
    have "\<exists>lp. fr_nodes ?G q = Some lp \<and> lk_topic lp = lk_topic m \<and> k \<in> set (lk_children lp)" if "lk_parent m = Some q" for q
    proof -
      have "lk_parent m' = Some q" using that eq by (simp add: gain_child_def split: if_splits)
      from forest_parentD[OF ok m' this] obtain lp where lp: "fr_nodes F q = Some lp" "lk_topic lp = lk_topic m'"
        "k \<in> set (lk_children lp)" by blast
      moreover have "lk_topic m = lk_topic m'" using eq by (simp add: gain_child_def)
      ultimately show ?thesis using kept[OF lp(1)] by auto
    qed
    moreover have "\<exists>lc. fr_nodes ?G x = Some lc \<and> lk_parent lc = Some k" if "x \<in> set (lk_children m)" for x
    proof (cases "x = c \<and> k = p")
      case True
      then show ?thesis using id by (simp add: child_links_def)
    next
      case False
      then have "x \<in> set (lk_children m')" using that eq by (auto simp: gain_child_def split: if_splits)
      from forest_childD[OF ok m' this] show ?thesis using kept by metis
    qed
    moreover have "lk_id m = k" "distinct (lk_children m)" "lk_topic m = lk_topic m'" "lk_parent m = lk_parent m'"
      using forest_nodeD(1,2)[OF ok m'] eq new m' p by (auto simp: gain_child_def)
    ultimately show ?thesis using forest_nodeD(3)[OF ok m'] by (simp add: node_entry_ok_def)
  qed
  show "finite (dom (fr_nodes ?G))" using forest_finite[OF ok] by simp
  have sub: "parent_links (fr_nodes ?G) \<subseteq> insert (c, p) (parent_links (fr_nodes F))"
    using p id by (auto simp: parent_links_def links_simps split: if_splits)
  have "(p, c) \<notin> (parent_links (fr_nodes F))\<^sup>*"
  proof
    assume "(p, c) \<in> (parent_links (fr_nodes F))\<^sup>*"
    then obtain q where "(q, c) \<in> parent_links (fr_nodes F)" using pc by (meson rtranclE)
    then obtain lq where "fr_nodes F q = Some lq" "lk_parent lq = Some c" by (auto simp: parent_links_def)
    from forest_parentD[OF ok this] show False using c by simp
  qed
  then have "acyclic (insert (c, p) (parent_links (fr_nodes F)))" using forest_acyclic[OF ok] by simp
  then show "acyclic (parent_links (fr_nodes ?G))" using sub by (rule acyclic_subset)
qed

lemma fell_ok:
  assumes ok: "forest_ok F"
  shows "forest_ok (F\<lparr>fr_topics := (fr_topics F)(i := None),
      fr_nodes := (\<lambda>k. case fr_nodes F k of None \<Rightarrow> None | Some l \<Rightarrow> if lk_topic l = i then None else Some l)\<rparr>)"
    (is "forest_ok ?G")
proof (rule forest_okI)
  have node: "fr_nodes ?G k = Some l \<longleftrightarrow> fr_nodes F k = Some l \<and> lk_topic l \<noteq> i" for k l
    by (auto split: option.splits if_splits)
  {
    fix k t assume "fr_topics ?G k = Some t"
    then have t: "fr_topics F k = Some t" and k: "k \<noteq> i" by (auto split: if_splits)
    show "topic_entry_ok ?G k t"
      using forest_topicD[OF ok t] k unfolding topic_entry_ok_def node by auto
  }
  {
    fix k l assume "fr_nodes ?G k = Some l"
    then have "fr_nodes F k = Some l \<and> lk_topic l \<noteq> i" by (rule node[THEN iffD1])
    then have l: "fr_nodes F k = Some l" and k: "lk_topic l \<noteq> i" by blast+
    have "\<exists>lp. fr_nodes ?G q = Some lp \<and> lk_topic lp = lk_topic l \<and> k \<in> set (lk_children lp)" if "lk_parent l = Some q" for q
      using forest_parentD[OF ok l that] k unfolding node by auto
    moreover have "\<exists>lc. fr_nodes ?G x = Some lc \<and> lk_parent lc = Some k" if x: "x \<in> set (lk_children l)" for x
    proof -
      obtain lc where lc: "fr_nodes F x = Some lc" "lk_parent lc = Some k" using forest_childD[OF ok l x] by blast
      then have "lk_topic lc = lk_topic l" using forest_parentD[OF ok lc] l by auto
      then show ?thesis using lc k unfolding node by auto
    qed
    ultimately show "node_entry_ok ?G k l" using forest_nodeD[OF ok l] k by (auto simp: node_entry_ok_def)
  }
  have "dom (fr_nodes ?G) \<subseteq> dom (fr_nodes F)" by (auto split: option.splits if_splits)
  then show "finite (dom (fr_nodes ?G))" using forest_finite[OF ok] by (rule finite_subset)
  have "parent_links (fr_nodes ?G) \<subseteq> parent_links (fr_nodes F)" unfolding parent_links_def node by blast
  then show "acyclic (parent_links (fr_nodes ?G))" by (rule acyclic_subset[OF forest_acyclic[OF ok]])
qed


text \<open>A node that leaves its parent: its other links, and every other node's, stay.\<close>

lemma prune_ok:
  assumes ok: "forest_ok F" and c: "fr_nodes F c = Some l" and par: "lk_parent l = Some p"
    and leaf: "lk_children l = []" and p: "fr_nodes F p = Some lp"
  shows "forest_ok (F\<lparr>fr_nodes := (fr_nodes F)(p \<mapsto> lose_child c lp, c := None)\<rparr>)" (is "forest_ok ?G")
proof -
  define G where "G = ?G"
  have pc: "p \<noteq> c" using forest_no_self_parent[OF ok c] par by blast
  have at: "fr_nodes G k = (if k = c then None else if k = p then Some (lose_child c lp) else fr_nodes F k)" for k
    by (simp add: G_def)
  have topics: "fr_topics G = fr_topics F" by (simp add: G_def)
  have kept: "\<exists>m'. fr_nodes G k = Some m' \<and> lk_topic m' = lk_topic m \<and> lk_parent m' = lk_parent m \<and>
      set (lk_children m') = set (lk_children m) - {c}" if "fr_nodes F k = Some m" "k \<noteq> c" for k m
  proof (cases "k = p")
    case True
    then show ?thesis using that p by (auto simp: at lose_child_def)
  next
    case False
    have "c \<notin> set (lk_children m)"
    proof
      assume "c \<in> set (lk_children m)"
      from forest_childD[OF ok that(1) this] show False using c par False by simp
    qed
    then show ?thesis using that False by (simp add: at)
  qed
  have "topic_entry_ok G k t" if "fr_topics G k = Some t" for k t
  proof (rule topic_entry_kept[OF ok])
    show "fr_topics F k = Some t" using that topics by simp
    fix lr assume lr: "fr_nodes F (snd t) = Some lr" and none: "lk_parent lr = None"
    moreover have "snd t \<noteq> c" using lr none c par by auto
    ultimately show "\<exists>m. fr_nodes G (snd t) = Some m \<and> lk_topic m = lk_topic lr \<and> lk_parent m = None"
      using kept by metis
  qed
  moreover have "node_entry_ok G k m" if m: "fr_nodes G k = Some m" for k m
  proof -
    have kc: "k \<noteq> c" using m by (auto simp: at)
    obtain m' where m': "fr_nodes F k = Some m'" and same: "lk_id m = lk_id m'" "lk_topic m = lk_topic m'" "lk_parent m = lk_parent m'"
      and dist: "distinct (lk_children m') \<Longrightarrow> distinct (lk_children m)"
      using m p kc by (auto simp: at lose_child_def split: if_splits)
    have ch: "set (lk_children m) = set (lk_children m') - {c}" using kept[OF m' kc] m by auto
    have "\<exists>lq. fr_nodes G q = Some lq \<and> lk_topic lq = lk_topic m \<and> k \<in> set (lk_children lq)" if "lk_parent m = Some q" for q
    proof -
      have q': "lk_parent m' = Some q" using that same by simp
      from forest_parentD[OF ok m' q'] obtain lq where lq: "fr_nodes F q = Some lq" "lk_topic lq = lk_topic m'"
        "k \<in> set (lk_children lq)" by blast
      have "q \<noteq> c" using lq c leaf by auto
      then show ?thesis using kept[OF lq(1)] lq kc same by auto
    qed
    moreover have "\<exists>lc. fr_nodes G x = Some lc \<and> lk_parent lc = Some k" if "x \<in> set (lk_children m)" for x
    proof -
      have x: "x \<in> set (lk_children m')" "x \<noteq> c" using that ch by auto
      from forest_childD[OF ok m' x(1)] obtain lc where lc: "fr_nodes F x = Some lc" "lk_parent lc = Some k" by blast
      then show ?thesis using kept[OF lc(1) x(2)] by auto
    qed
    ultimately show ?thesis using forest_nodeD[OF ok m'] same dist topics by (simp add: node_entry_ok_def)
  qed
  moreover have "finite (dom (fr_nodes G))" using forest_finite[OF ok] by (simp add: G_def)
  moreover have "parent_links (fr_nodes G) \<subseteq> parent_links (fr_nodes F)"
    using p by (auto simp: at parent_links_def lose_child_def split: if_splits)
  then have "acyclic (parent_links (fr_nodes G))" by (rule acyclic_subset[OF forest_acyclic[OF ok]])
  ultimately have "forest_ok G" by (intro forest_okI) blast+
  then show ?thesis by (simp only: G_def)
qed

lemma move_ok:
  assumes ok: "forest_ok F" and c: "fr_nodes F c = Some l" and par: "lk_parent l = Some old"
    and old: "fr_nodes F old = Some lo" and new: "fr_nodes F new = Some ln" and topic: "lk_topic l = lk_topic ln"
    and on: "old \<noteq> new" and cyc: "(new, c) \<notin> (parent_links (fr_nodes F))\<^sup>*"
  shows "forest_ok (F\<lparr>fr_nodes := (fr_nodes F)(old \<mapsto> lose_child c lo, new \<mapsto> gain_child c ln,
      c \<mapsto> l\<lparr>lk_parent := Some new\<rparr>)\<rparr>)" (is "forest_ok ?G")
proof -
  define G where "G = ?G"
  have at: "fr_nodes G k = (if k = c then Some (l\<lparr>lk_parent := Some new\<rparr>) else if k = new then Some (gain_child c ln)
      else if k = old then Some (lose_child c lo) else fr_nodes F k)" for k
    by (simp add: G_def)
  have topics: "fr_topics G = fr_topics F" by (simp add: G_def)
  have co: "old \<noteq> c" using forest_no_self_parent[OF ok c] par by blast
  have cn: "new \<noteq> c" using cyc by auto
  have fresh: "c \<notin> set (lk_children ln)"
  proof
    assume "c \<in> set (lk_children ln)"
    from forest_childD[OF ok new this] show False using c par on by simp
  qed
  have kept: "\<exists>m'. fr_nodes G k = Some m' \<and> lk_id m' = lk_id m \<and> lk_topic m' = lk_topic m \<and>
      lk_parent m' = (if k = c then Some new else lk_parent m) \<and>
      (distinct (lk_children m) \<longrightarrow> distinct (lk_children m')) \<and>
      set (lk_children m') = (if k = new then insert c (set (lk_children m)) else set (lk_children m) - {c})"
    if "fr_nodes F k = Some m" for k m
  proof -
    consider "k = old" | "k = new" | "k = c" | "k \<noteq> old" "k \<noteq> new" "k \<noteq> c" by blast
    then show ?thesis
    proof cases
      case 1
      then show ?thesis using that old co on by (auto simp: at lose_child_def)
    next
      case 2
      then show ?thesis using that new cn on fresh by (auto simp: at gain_child_def)
    next
      case 3
      have "c \<notin> set (lk_children l)"
      proof
        assume "c \<in> set (lk_children l)"
        from forest_childD[OF ok c this] show False using c par co by simp
      qed
      then show ?thesis using that 3 c co cn by (auto simp: at)
    next
      case 4
      have "c \<notin> set (lk_children m)"
      proof
        assume "c \<in> set (lk_children m)"
        from forest_childD[OF ok that this] show False using c par 4 by simp
      qed
      then show ?thesis using that 4 by (simp add: at)
    qed
  qed
  have there: "\<exists>m'. fr_nodes F k = Some m'" if "fr_nodes G k = Some m" for k m
    using that c old new by (auto simp: at split: if_splits)
  have "topic_entry_ok G k t" if "fr_topics G k = Some t" for k t
  proof (rule topic_entry_kept[OF ok])
    show "fr_topics F k = Some t" using that topics by simp
    fix lr assume lr: "fr_nodes F (snd t) = Some lr" and none: "lk_parent lr = None"
    have "snd t \<noteq> c" using lr none c par by auto
    then show "\<exists>m. fr_nodes G (snd t) = Some m \<and> lk_topic m = lk_topic lr \<and> lk_parent m = None"
      using kept[OF lr] none by metis
  qed
  moreover have "node_entry_ok G k m" if m: "fr_nodes G k = Some m" for k m
  proof -
    obtain m' where m': "fr_nodes F k = Some m'" using there[OF m] by blast
    have same: "lk_id m = lk_id m'" "lk_topic m = lk_topic m'" "lk_parent m = (if k = c then Some new else lk_parent m')"
      and dist: "distinct (lk_children m') \<longrightarrow> distinct (lk_children m)"
      and ch: "set (lk_children m) = (if k = new then insert c (set (lk_children m')) else set (lk_children m') - {c})"
      using kept[OF m'] m by auto
    have "\<exists>lq. fr_nodes G q = Some lq \<and> lk_topic lq = lk_topic m \<and> k \<in> set (lk_children lq)" if q: "lk_parent m = Some q" for q
    proof (cases "k = c")
      case True
      then have "q = new" using q same by simp
      then show ?thesis using kept[OF new] True m' c topic same by auto
    next
      case False
      then have q': "lk_parent m' = Some q" using q same by simp
      from forest_parentD[OF ok m' q'] obtain lq where lq: "fr_nodes F q = Some lq" "lk_topic lq = lk_topic m'"
        "k \<in> set (lk_children lq)" by blast
      then show ?thesis using kept[OF lq(1)] False same by auto
    qed
    moreover have "\<exists>lc. fr_nodes G x = Some lc \<and> lk_parent lc = Some k" if x: "x \<in> set (lk_children m)" for x
    proof (cases "x = c")
      case True
      then have "k = new" using x ch by (auto split: if_splits)
      then show ?thesis using kept[OF c] True by auto
    next
      case False
      then have "x \<in> set (lk_children m')" using x ch by (auto split: if_splits)
      from forest_childD[OF ok m' this] obtain lc where lc: "fr_nodes F x = Some lc" "lk_parent lc = Some k" by blast
      then show ?thesis using kept[OF lc(1)] False by auto
    qed
    moreover have "\<exists>t. fr_topics G (lk_topic m) = Some t \<and> (lk_parent m = None \<longrightarrow> snd t = k)"
      using forest_nodeD(3)[OF ok m'] same topics c m' par by (cases "k = c") auto
    ultimately show ?thesis using forest_nodeD(1,2)[OF ok m'] same(1) dist by (simp add: node_entry_ok_def)
  qed
  moreover have "finite (dom (fr_nodes G))" using forest_finite[OF ok] by (simp add: G_def)
  moreover have "acyclic (parent_links (fr_nodes G))"
  proof (rule acyclic_subset)
    show "acyclic (insert (c, new) (parent_links (fr_nodes F)))" using forest_acyclic[OF ok] cyc by simp
    show "parent_links (fr_nodes G) \<subseteq> insert (c, new) (parent_links (fr_nodes F))"
      using old new by (auto simp: at parent_links_def lose_child_def gain_child_def split: if_splits)
  qed
  ultimately have "forest_ok G" by (intro forest_okI) blast+
  then show ?thesis by (simp only: G_def)
qed

lemma forest_step_ok: "forest_step F G \<Longrightarrow> forest_ok F \<Longrightarrow> forest_ok G"
  by (induction rule: forest_step.induct) (auto intro: plant_ok grow_ok move_ok prune_ok fell_ok simp del: fun_upd_apply)

lemma forest_steps_ok: "forest_step\<^sup>*\<^sup>* F G \<Longrightarrow> forest_ok F \<Longrightarrow> forest_ok G"
  by (induction rule: rtranclp_induct) (auto intro: forest_step_ok)

lemma empty_forest_ok: "forest_ok empty_forest"
  by (simp add: forest_ok_def empty_forest_def parent_links_def acyclic_def)

end
