(* ===== verification/VosTree.thy ===== *)
theory VosTree
  imports VosService VosForest
begin

text \<open>
  The topics and the nodes of a state form a forest, and the operations of the service change it only by the steps of
  VosForest: every operation refines the abstract contract. \<open>evolves F\<close> says that the state file has been reached from the
  forest \<open>F\<close> by such steps; \<open>staged F st\<close> says the same of a state \<open>st\<close> in memory, which may therefore be saved.
\<close>

section \<open>The forest of a state\<close>

definition topic_links :: "vos_topic \<Rightarrow> string \<times> string" where
  "topic_links t = (tp_id t, tp_root_node_id t)"

definition node_links :: "vos_node \<Rightarrow> links" where
  "node_links n = \<lparr>lk_id = nd_id n, lk_topic = nd_topic_id n, lk_parent = nd_parent_id n, lk_children = nd_children_ids n\<rparr>"

definition forest_of :: "vfs_state \<Rightarrow> forest" where
  "forest_of st = \<lparr>fr_topics = (\<lambda>i. map_option topic_links (map_of (vf_topics st) i)),
     fr_nodes = (\<lambda>i. map_option node_links (map_of (vf_nodes st) i))\<rparr>"

definition node_valid :: "vos_node \<Rightarrow> bool" where
  "node_valid n \<longleftrightarrow> 1 \<le> nd_version n \<and> nd_status n \<in> set node_statuses"

definition entries_ok :: "vfs_state \<Rightarrow> bool" where
  "entries_ok st \<longleftrightarrow> keys_distinct (vf_topics st) \<and> keys_distinct (vf_nodes st) \<and>
     (\<forall>i n. map_of (vf_nodes st) i = Some n \<longrightarrow> node_valid n)"

definition file_state :: "vos \<Rightarrow> vfs_state" where
  "file_state s = (case vo_file s of None \<Rightarrow> new_vfs_state | Some st \<Rightarrow> st)"

definition evolves :: "forest \<Rightarrow> vos \<Rightarrow> bool" where
  "evolves F s \<longleftrightarrow> forest_ok F \<and> entries_ok (file_state s) \<and> forest_step\<^sup>*\<^sup>* F (forest_of (file_state s))"

definition staged :: "forest \<Rightarrow> vfs_state \<Rightarrow> vos \<Rightarrow> bool" where
  "staged F st s \<longleftrightarrow> evolves F s \<and> entries_ok st \<and> forest_step\<^sup>*\<^sup>* F (forest_of st)"

text \<open>A change of the state in memory that the contract permits.\<close>

definition permits :: "vfs_state \<Rightarrow> vfs_state \<Rightarrow> bool" where
  "permits st st' \<longleftrightarrow> (entries_ok st \<longrightarrow> forest_ok (forest_of st) \<longrightarrow>
     entries_ok st' \<and> forest_step\<^sup>*\<^sup>* (forest_of st) (forest_of st'))"

lemma forest_of_sel [simp]:
  "fr_topics (forest_of st) i = map_option topic_links (map_of (vf_topics st) i)"
  "fr_nodes (forest_of st) i = map_option node_links (map_of (vf_nodes st) i)"
  by (simp_all add: forest_of_def)

lemma forest_of_cong:
  "(\<And>i. map_option topic_links (map_of (vf_topics st') i) = map_option topic_links (map_of (vf_topics st) i)) \<Longrightarrow>
   (\<And>i. map_option node_links (map_of (vf_nodes st') i) = map_option node_links (map_of (vf_nodes st) i)) \<Longrightarrow>
   forest_of st' = forest_of st"
  by (simp add: forest_of_def)

lemma forest_eqI:
  "fr_topics F = fr_topics G \<Longrightarrow> fr_nodes F = fr_nodes G \<Longrightarrow> F = (G::forest)"
  by simp

lemma node_links_sel [simp]:
  "lk_id (node_links n) = nd_id n" "lk_topic (node_links n) = nd_topic_id n"
  "lk_parent (node_links n) = nd_parent_id n" "lk_children (node_links n) = nd_children_ids n"
  by (simp_all add: node_links_def)

lemma require_node_Inr [simp]: "require_node st i = Inr n \<longleftrightarrow> map_of (vf_nodes st) i = Some n"
  by (simp add: require_node_def split: option.split)

lemma require_topic_Inr [simp]: "require_topic st i = Inr t \<longleftrightarrow> map_of (vf_topics st) i = Some t"
  by (simp add: require_topic_def split: option.split)

lemma require_node_Inl [simp]: "require_node st i = Inl e \<longleftrightarrow> map_of (vf_nodes st) i = None \<and> e = NodeNotFoundError i"
  by (auto simp: require_node_def split: option.split)

lemma require_topic_Inl [simp]: "require_topic st i = Inl e \<longleftrightarrow> map_of (vf_topics st) i = None \<and> e = TopicNotFoundError i"
  by (auto simp: require_topic_def split: option.split)

lemma change_sel [simp]:
  "vf_nodes (change_topic i f st) = vf_nodes st" "vf_topics (change_node i g st) = vf_topics st"
  "vf_topics (change_topic i f st) = adjust i f (vf_topics st)" "vf_nodes (change_node i g st) = adjust i g (vf_nodes st)"
  "vf_processes (change_topic i f st) = vf_processes st" "vf_processes (change_node i g st) = vf_processes st"
  "vf_user (change_topic i f st) = vf_user st" "vf_user (change_node i g st) = vf_user st"
  by (simp_all add: change_topic_def change_node_def)

section \<open>Normalising and writing keep the forest\<close>

lemma node_valid_normalized [simp]: "node_valid n \<Longrightarrow> node_normalized n = n"
  by (auto simp: node_valid_def node_normalized_def node_statuses_def status_draft_def status_ready_def status_active_def
      status_blocked_def status_done_def)

lemma topic_links_normalized [simp]: "topic_links (topic_normalized t) = topic_links t"
  by (simp add: topic_links_def topic_normalized_def)

lemma topic_links_drop [simp]: "topic_links (drop_user_memory t) = topic_links t"
  by (simp add: topic_links_def drop_user_memory_def)

lemma node_links_normalized [simp]: "node_links (node_normalized n) = node_links n"
  by (simp add: node_links_def node_normalized_def)

lemma map_values_adjust:
  "(\<And>x. f (g x) = f x) \<Longrightarrow> map (\<lambda>(i, x). (i, f x)) (adjust k g t) = map (\<lambda>(i, x). (i, f x)) t"
  by (induction t) auto

lemma lookup_values: "map (\<lambda>(i, x). (i, f x)) t = map (\<lambda>(i, x). (i, f x)) u \<Longrightarrow> map_option f (map_of t k) = map_option f (map_of u k)"
  by (metis map_of_map_values)

lemma migrate_topic_frame:
  "vf_nodes (migrate_topic i st) = vf_nodes st" "vf_processes (migrate_topic i st) = vf_processes st"
  "map (\<lambda>(i, t). (i, topic_links t)) (vf_topics (migrate_topic i st)) = map (\<lambda>(i, t). (i, topic_links t)) (vf_topics st)"
  "map fst (vf_topics (migrate_topic i st)) = map fst (vf_topics st)"
proof -
  have "map fst (adjust i f t) = map fst t" for f :: "vos_topic \<Rightarrow> vos_topic" and t
    by (induction t) auto
  then show "vf_nodes (migrate_topic i st) = vf_nodes st" "vf_processes (migrate_topic i st) = vf_processes st"
    "map (\<lambda>(i, t). (i, topic_links t)) (vf_topics (migrate_topic i st)) = map (\<lambda>(i, t). (i, topic_links t)) (vf_topics st)"
    "map fst (vf_topics (migrate_topic i st)) = map fst (vf_topics st)"
    by (simp_all add: migrate_topic_def map_values_adjust split: option.split)
qed

lemma fold_migrate_frame:
  "vf_nodes (fold migrate_topic is st) = vf_nodes st" "vf_processes (fold migrate_topic is st) = vf_processes st"
  "map (\<lambda>(i, t). (i, topic_links t)) (vf_topics (fold migrate_topic is st)) = map (\<lambda>(i, t). (i, topic_links t)) (vf_topics st)"
  "map fst (vf_topics (fold migrate_topic is st)) = map fst (vf_topics st)"
  by (induction "is" arbitrary: st) (simp_all add: migrate_topic_frame)

lemma migrate_frame:
  "vf_nodes (migrate_legacy_topic_user_memory st) = vf_nodes st"
  "vf_processes (migrate_legacy_topic_user_memory st) = vf_processes st"
  "map (\<lambda>(i, t). (i, topic_links t)) (vf_topics (migrate_legacy_topic_user_memory st)) = map (\<lambda>(i, t). (i, topic_links t)) (vf_topics st)"
  "map fst (vf_topics (migrate_legacy_topic_user_memory st)) = map fst (vf_topics st)"
  by (simp_all add: migrate_legacy_topic_user_memory_def fold_migrate_frame split: option.split)

lemma state_normalized_nodes:
  "vf_nodes (fst (state_normalized ids n st)) = map (\<lambda>(i, d). (i, node_normalized d)) (vf_nodes st)"
  by (simp add: state_normalized_def migrate_frame split: prod.split)

lemma state_normalized_topics:
  "map (\<lambda>(i, t). (i, topic_links t)) (vf_topics (fst (state_normalized ids n st))) = map (\<lambda>(i, t). (i, topic_links t)) (vf_topics st)"
  "map fst (vf_topics (fst (state_normalized ids n st))) = map fst (vf_topics st)"
  by (simp_all add: state_normalized_def migrate_frame keys_map_values comp_def case_prod_beta split: prod.split)

lemma node_lookup_normalized:
  "map_of (vf_nodes (fst (state_normalized ids n st))) i = map_option node_normalized (map_of (vf_nodes st) i)"
  by (simp add: state_normalized_nodes map_of_map_values)

lemma forest_of_normalized [simp]: "forest_of (fst (state_normalized ids n st)) = forest_of st"
  by (rule forest_of_cong)
    (auto simp: node_lookup_normalized option.map_comp comp_def intro!: lookup_values state_normalized_topics)

lemma entries_ok_normalized [simp]: "entries_ok st \<Longrightarrow> entries_ok (fst (state_normalized ids n st))"
  unfolding entries_ok_def
  by (simp only: state_normalized_topics state_normalized_nodes keys_map_values map_of_map_values) auto

lemma as_written_frame [simp]: "forest_of (as_written st) = forest_of st" "entries_ok (as_written st) = entries_ok st"
  by (simp_all add: as_written_def forest_of_def entries_ok_def)

section \<open>Triples of loading and saving\<close>

lemma staged_forest_ok:
  assumes "staged F st s"
  shows "forest_ok (forest_of st)"
proof (rule forest_steps_ok)
  show "forest_step\<^sup>*\<^sup>* F (forest_of st)" "forest_ok F" using assms by (simp_all add: staged_def evolves_def)
qed

lemma staged_permits:
  assumes "staged F st s" and "permits st st'"
  shows "staged F st' s"
proof -
  have st: "evolves F s" "entries_ok st" "forest_step\<^sup>*\<^sup>* F (forest_of st)" using assms(1) by (simp_all add: staged_def)
  then have "entries_ok st'" "forest_step\<^sup>*\<^sup>* (forest_of st) (forest_of st')"
    using assms(2) staged_forest_ok[OF assms(1)] by (simp_all add: permits_def)
  then show ?thesis using st rtranclp_trans unfolding staged_def by metis
qed

lemma staged_evolves: "staged F st s \<Longrightarrow> evolves F s"
  by (simp add: staged_def)

lemma evolves_cong: "vo_file t = vo_file s \<Longrightarrow> evolves F t = evolves F s"
  by (simp add: evolves_def file_state_def)

lemma staged_cong: "vo_file t = vo_file s \<Longrightarrow> staged F st t = staged F st s"
  by (simp add: staged_def evolves_def file_state_def)

lemma disk_file: "disk s = (r, t) \<Longrightarrow> vo_file t = vo_file s"
  by (simp add: disk_def split: list.splits option.splits) auto

lemma draw_id_file: "draw_id s = (r, t) \<Longrightarrow> vo_file t = vo_file s"
  by (auto simp: draw_id_def)

lemma normalize_result: "normalize st s = (r, t) \<Longrightarrow> \<exists>n. r = Inr (fst (state_normalized (vo_ids s) (vo_drawn s) st)) \<and>
    t = s\<lparr>vo_drawn := n\<rparr>"
  by (auto simp: normalize_def split: prod.splits)

lemma with_sessions_file: "with_sessions m s = (r, t) \<Longrightarrow> vo_file t = vo_file s"
  by (auto simp: with_sessions_def split: option.splits prod.splits)

text \<open>An operation that leaves the state file alone keeps what is known of it.\<close>

lemma keeps_file:
  assumes "\<And>s r t. m s = (r, t) \<Longrightarrow> vo_file t = vo_file s"
  shows "keeps (evolves F) m" and "triple (staged F st) m (\<lambda>_. staged F st) (\<lambda>_. evolves F)"
proof -
  show "keeps (evolves F) m" by (rule keepsI) (use assms evolves_cong in blast)
  show "triple (staged F st) m (\<lambda>_. staged F st) (\<lambda>_. evolves F)"
    by (rule tripleI) (use assms staged_cong staged_evolves in blast)+
qed

lemma load_triple: "triple (evolves F) load_state (staged F) (\<lambda>_. evolves F)"
proof (rule tripleI)
  fix s st t assume ev: "evolves F s" and res: "load_state s = (Inr st, t)"
  then obtain u where u: "disk s = (Inr (), u)" by (auto simp: load_state_def seq_Inr_iff)
  then have fl: "vo_file u = vo_file s" by (rule disk_file)
  show "staged F st t"
  proof (cases "vo_file s")
    case None
    then have "st = new_vfs_state" "t = u" using res u fl by (auto simp: load_state_def return_ok_def)
    then show ?thesis using ev None fl by (auto simp: staged_def evolves_def file_state_def)
  next
    case (Some st0)
    then have norm: "normalize st0 u = (Inr st, t)" using res u fl by (simp add: load_state_def)
    from normalize_result[OF this] show ?thesis
      using ev Some fl by (auto simp: staged_def evolves_def file_state_def)
  qed
next
  fix s e t assume ev: "evolves F s" and "load_state s = (Inl e, t)"
  then have "vo_file t = vo_file s"
    by (auto simp: load_state_def return_ok_def elim!: seq_cases dest: disk_file normalize_result split: option.splits)
  then show "evolves F t" using ev evolves_cong by blast
qed

lemma save_triple: "triple (staged F st) (save_state st) (staged F) (\<lambda>_. evolves F)"
proof (rule tripleI)
  fix s st' t assume st: "staged F st s" and res: "save_state st s = (Inr st', t)"
  then obtain u v where u: "normalize st s = (Inr st', u)" and v: "disk u = (Inr (), v)"
    and t: "t = v\<lparr>vo_file := Some (as_written st')\<rparr>" by (auto simp: save_state_def seq_Inr_iff)
  from normalize_result[OF u] obtain n where n: "st' = fst (state_normalized (vo_ids s) (vo_drawn s) st)" "u = s\<lparr>vo_drawn := n\<rparr>"
    by auto
  show "staged F st' t" using st n(1) t by (simp add: staged_def evolves_def file_state_def)
next
  fix s e t assume st: "staged F st s" and "save_state st s = (Inl e, t)"
  then have "vo_file t = vo_file s"
    by (auto simp: save_state_def elim!: seq_cases dest: disk_file dest!: normalize_result)
  then show "evolves F t" using st evolves_cong staged_evolves by blast
qed

lemma result_triple:
  assumes "\<And>x. r = Inr x \<Longrightarrow> permits st x"
  shows "triple (staged F st) (of_result r) (staged F) (\<lambda>_. evolves F)"
  using assms by (auto simp: triple_def of_result_def staged_evolves split: sum.split intro: staged_permits)

lemma value_triple: "triple (staged F st) (of_result r) (\<lambda>v s. r = Inr v \<and> staged F st s) (\<lambda>_. evolves F)"
  by (auto simp: triple_def of_result_def staged_evolves split: sum.split)

lemma keep_value: "triple (staged F st) (of_result r) (\<lambda>_. staged F st) (\<lambda>_. evolves F)"
  by (auto simp: triple_def of_result_def staged_evolves split: sum.split)

lemma finish_triple: "triple (staged F st) (of_result r) (\<lambda>_. evolves F) (\<lambda>_. evolves F)"
  by (auto simp: triple_def of_result_def staged_evolves split: sum.split)

lemma triple_assuming:
  "(b \<Longrightarrow> triple P m Q E) \<Longrightarrow> triple (\<lambda>s. b \<and> P s) m Q E"
  by (auto simp: triple_def)

lemma modify_keeps:
  assumes "\<And>st x. f st = Inr x \<Longrightarrow> permits st x"
  shows "keeps (evolves F) (modify_state f view)"
  unfolding modify_state_def
  by (intro triple_seq[OF load_triple] triple_seq[OF result_triple] triple_seq[OF save_triple] finish_triple assms)

lemma read_keeps: "keeps (evolves F) (read_state f)"
  unfolding read_state_def by (intro triple_seq[OF load_triple] finish_triple)


section \<open>Changes that the contract permits\<close>

lemma permits_same:
  "forest_of st' = forest_of st \<Longrightarrow> (entries_ok st \<Longrightarrow> entries_ok st') \<Longrightarrow> permits st st'"
  by (simp add: permits_def)

lemma permits_refl [simp]: "permits st st"
  by (rule permits_same) simp_all

lemma permits_trans:
  assumes "permits a b" and "permits b c"
  shows "permits a c"
  unfolding permits_def
proof (intro impI)
  assume a: "entries_ok a" "forest_ok (forest_of a)"
  then have b: "entries_ok b" "forest_step\<^sup>*\<^sup>* (forest_of a) (forest_of b)" using assms(1) by (simp_all add: permits_def)
  then have "forest_ok (forest_of b)" using a(2) forest_steps_ok by metis
  then have "entries_ok c" "forest_step\<^sup>*\<^sup>* (forest_of b) (forest_of c)" using b assms(2) by (simp_all add: permits_def)
  then show "entries_ok c \<and> forest_step\<^sup>*\<^sup>* (forest_of a) (forest_of c)" using b rtranclp_trans by metis
qed

lemma permits_step:
  "(entries_ok st \<Longrightarrow> forest_ok (forest_of st) \<Longrightarrow> entries_ok st' \<and> forest_step (forest_of st) (forest_of st')) \<Longrightarrow> permits st st'"
  by (auto simp: permits_def)

lemma entries_ok_adjust:
  assumes "entries_ok st" and "\<And>n. map_of (vf_nodes st) i = Some n \<Longrightarrow> node_valid n \<Longrightarrow> node_valid (f n)"
  shows "entries_ok (change_node i f st)"
  using assms by (auto simp: entries_ok_def table_simps)

lemma node_valid_touch [simp]: "node_valid n \<Longrightarrow> node_valid (touch_node now n)"
  by (simp add: node_valid_def touch_node_def)

lemma node_links_touch [simp]: "node_links (touch_node now n) = node_links n"
  by (simp add: node_links_def touch_node_def)

lemma topic_links_touch [simp]: "topic_links (touch_topic now t) = topic_links t"
  by (simp add: topic_links_def touch_topic_def)

lemma forest_of_change_topic:
  "(\<And>t. topic_links (f t) = topic_links t) \<Longrightarrow> forest_of (change_topic i f st) = forest_of st"
  by (rule forest_of_cong) (simp_all add: table_simps option.map_comp comp_def)

lemma permits_change_topic:
  "(\<And>t. topic_links (f t) = topic_links t) \<Longrightarrow> permits st (change_topic i f st)"
  by (rule permits_same) (auto simp: forest_of_change_topic entries_ok_def table_simps)

lemma permits_change_node:
  assumes "\<And>n. node_links (f n) = node_links n" and "\<And>n. node_valid n \<Longrightarrow> node_valid (f n)"
  shows "permits st (change_node i f st)"
proof (rule permits_same)
  show "forest_of (change_node i f st) = forest_of st"
    by (rule forest_of_cong) (simp_all add: table_simps option.map_comp comp_def assms(1))
qed (use assms(2) in \<open>auto intro: entries_ok_adjust\<close>)

lemma permits_processes: "permits st (st\<lparr>vf_processes := ps\<rparr>)"
  by (rule permits_same) (simp_all add: forest_of_def entries_ok_def)

lemma entry_mem: "entries_ok st \<Longrightarrow> (i, n) \<in> set (vf_nodes st) \<longleftrightarrow> map_of (vf_nodes st) i = Some n"
  by (rule entry_lookup) (simp add: entries_ok_def)

lemma node_id_key: "forest_ok (forest_of st) \<Longrightarrow> map_of (vf_nodes st) i = Some n \<Longrightarrow> nd_id n = i"
  using forest_nodeD(1)[of "forest_of st" i "node_links n"] by simp

lemma topic_id_key: "forest_ok (forest_of st) \<Longrightarrow> map_of (vf_topics st) i = Some t \<Longrightarrow> tp_id t = i"
  using forest_topicD[of "forest_of st" i "topic_links t"] by (simp add: topic_links_def)

lemma permits_add_topic:
  assumes "add_topic now i r inp st = Inr st'"
  shows "permits st st'"
proof (rule permits_step)
  assume ok: "entries_ok st"
  from assms have i: "map_of (vf_topics st) i = None" and r: "map_of (vf_nodes st) r = None"
    and st': "st' = st\<lparr>vf_topics := put i (new_topic now i r inp) (vf_topics st),
                   vf_nodes := put r (new_root_node now i r inp) (vf_nodes st)\<rparr>"
    by (auto simp: add_topic_def split: if_splits)
  have "node_valid (new_root_node now i r inp)"
    by (simp add: new_root_node_def node_normalized_def node_valid_def node_statuses_def status_ready_def)
  then have "entries_ok st'" using ok by (auto simp: st' entries_ok_def table_simps)
  moreover have "forest_of st' = (forest_of st)\<lparr>fr_topics := (fr_topics (forest_of st))(i \<mapsto> (i, r)),
      fr_nodes := (fr_nodes (forest_of st))(r \<mapsto> single_root r i)\<rparr>"
    by (simp add: st' forest_of_def table_simps fun_eq_iff topic_links_def node_links_def new_topic_def topic_normalized_def
        new_root_node_def node_normalized_def single_root_def)
  ultimately show "entries_ok st' \<and> forest_step (forest_of st) (forest_of st')"
    using plant[of "forest_of st" i r] i r by simp
qed

lemma node_links_remember [simp]: "node_links (remember_child_memory c p) = node_links p"
  by (simp add: remember_child_memory_def node_links_def Let_def split: option.split)

lemma node_valid_remember [simp]: "node_valid (remember_child_memory c p) = node_valid p"
  by (simp add: remember_child_memory_def node_valid_def Let_def split: option.split)

lemma permits_add_node:
  assumes "map_of (vf_nodes st) p = Some pn" and "status \<in> set node_statuses"
    and "add_node now p (new_node now i (nd_topic_id pn) (nd_id pn) status inp) st = Inr st'"
  shows "permits st st'"
proof (rule permits_step)
  assume ok: "entries_ok st" and fo: "forest_ok (forest_of st)"
  define n where "n = new_node now i (nd_topic_id pn) (nd_id pn) status inp"
  have n: "nd_id n = i" "node_links n = child_links i (node_links pn)" "node_valid n"
    using assms(2) by (auto simp: n_def new_node_def node_normalized_def node_links_def child_links_def node_valid_def
        node_statuses_def status_draft_def)
  from assms(3) have i: "map_of (vf_nodes st) i = None"
    and st': "st' = (change_topic (nd_topic_id n) (touch_topic now) (change_node p (add_child now n) st))
        \<lparr>vf_nodes := put i n (vf_nodes (change_node p (add_child now n) st))\<rparr>"
    by (auto simp: add_node_def n_def[symmetric] n(1) Let_def split: if_splits)
  have pi: "p \<noteq> i" using assms(1) i by auto
  have "node_links (add_child now n pn) = gain_child i (node_links pn)" for pn
    by (simp add: add_child_def gain_child_def n(1) node_links_def[of "_\<lparr>nd_children_ids := _\<rparr>"] node_links_def[of pn])
  then have eq: "forest_of st' = (forest_of st)\<lparr>fr_nodes := (fr_nodes (forest_of st))(p \<mapsto> gain_child i (node_links pn),
      i \<mapsto> child_links i (node_links pn))\<rparr>"
    using assms(1) by (simp add: st' forest_of_def table_simps fun_eq_iff n(2) option.map_comp comp_def)
  have "node_valid (add_child now n pn)" if "node_valid pn" for pn
    using that by (simp add: add_child_def node_valid_def touch_node_def remember_child_memory_def Let_def split: option.split)
  then have "entries_ok st'" using ok n(3) by (auto simp: st' entries_ok_def table_simps)
  then show "entries_ok st' \<and> forest_step (forest_of st) (forest_of st')"
    using grow[of "forest_of st" p "node_links pn" i] assms(1) i eq by simp
qed


lemma map_of_fold_del: "map_of (fold del ks t) k = (if k \<in> set ks then None else map_of t k)"
  by (induction ks arbitrary: t) (auto simp: table_simps)

lemma keys_fold_del: "keys_distinct t \<Longrightarrow> keys_distinct (fold del ks t)"
  by (induction ks arbitrary: t) (auto simp: table_simps)

lemma node_ids_for_topic_iff:
  assumes "entries_ok st" and "forest_ok (forest_of st)"
  shows "k \<in> set (node_ids_for_topic st i) \<longleftrightarrow> (\<exists>n. map_of (vf_nodes st) k = Some n \<and> nd_topic_id n = i)"
proof -
  have "k \<in> set (node_ids_for_topic st i) \<longleftrightarrow> (\<exists>j n. (j, n) \<in> set (vf_nodes st) \<and> nd_topic_id n = i \<and> nd_id n = k)"
    by (force simp: node_ids_for_topic_def)
  also have "\<dots> \<longleftrightarrow> (\<exists>n. map_of (vf_nodes st) k = Some n \<and> nd_topic_id n = i)"
    unfolding entry_mem[OF assms(1)] using node_id_key[OF assms(2)] by blast
  finally show ?thesis .
qed

lemma permits_remove_topic:
  assumes "map_of (vf_topics st) i = Some t"
  shows "permits st (remove_topic i st)"
proof (rule permits_step)
  assume ok: "entries_ok st" and fo: "forest_ok (forest_of st)"
  have nodes: "map_of (vf_nodes (remove_topic i st)) k =
      (case map_of (vf_nodes st) k of None \<Rightarrow> None | Some n \<Rightarrow> if nd_topic_id n = i then None else Some n)" for k
    by (cases "map_of (vf_nodes st) k") (auto simp: remove_topic_def map_of_fold_del node_ids_for_topic_iff[OF ok fo])
  have "forest_of (remove_topic i st) = (forest_of st)\<lparr>fr_topics := (fr_topics (forest_of st))(i := None),
      fr_nodes := (\<lambda>k. case fr_nodes (forest_of st) k of None \<Rightarrow> None | Some l \<Rightarrow> if lk_topic l = i then None else Some l)\<rparr>"
  proof (rule forest_eqI)
    show "fr_nodes (forest_of (remove_topic i st)) = fr_nodes ((forest_of st)\<lparr>fr_topics := (fr_topics (forest_of st))(i := None),
      fr_nodes := (\<lambda>k. case fr_nodes (forest_of st) k of None \<Rightarrow> None | Some l \<Rightarrow> if lk_topic l = i then None else Some l)\<rparr>)"
      by (rule ext) (simp add: nodes split: option.split)
  qed (rule ext, simp add: remove_topic_def table_simps)
  moreover have "entries_ok (remove_topic i st)"
    using ok unfolding entries_ok_def nodes
    by (auto simp: remove_topic_def table_simps keys_fold_del split: option.splits if_splits)
  ultimately show "entries_ok (remove_topic i st) \<and> forest_step (forest_of st) (forest_of (remove_topic i st))"
    using fell[of "forest_of st" i] assms by simp
qed

text \<open>On a forest the walk to the root returns, and finds the node exactly if it is on the way.\<close>

definition up_links :: "vfs_state \<Rightarrow> (string \<times> string) set" where
  "up_links st = {(c, p). \<exists>n. map_of (vf_nodes st) c = Some n \<and> nd_parent_id n = Some p}"

lemma up_links_iff: "(c, p) \<in> up_links st \<longleftrightarrow> (\<exists>n. map_of (vf_nodes st) c = Some n \<and> nd_parent_id n = Some p)"
  by (simp add: up_links_def)

lemma up_links_eq: "parent_links (fr_nodes (forest_of st)) = up_links st"
  by (auto simp: parent_links_def up_links_def)

lemma up_links_wf: "forest_ok (forest_of st) \<Longrightarrow> wf ((up_links st)\<inverse>)"
  using parent_links_wf[of "forest_of st"] by (simp only: up_links_eq)

lemma walk_up_result:
  assumes fo: "forest_ok (forest_of st)" and "map_of (vf_nodes st) c = Some n"
  shows "walk_up st i n = Some (if (c, i) \<in> (up_links st)\<^sup>*
      then Inl (InvalidTreeError ''tree move would create a cycle'') else Inr ())"
  using assms(2)
proof (induction c arbitrary: n rule: wf_induct_rule[OF up_links_wf[OF fo]])
  case (1 c)
  have c: "nd_id n = c" by (rule node_id_key[OF fo 1(2)])
  show ?case
  proof (cases "c = i")
    case True
    then show ?thesis using c by (simp add: walk_up.simps)
  next
    case False
    show ?thesis
    proof (cases "nd_parent_id n")
      case None
      then have "(c, x) \<notin> up_links st" for x using 1(2) by (simp add: up_links_iff)
      then have "(c, i) \<notin> (up_links st)\<^sup>*" using False by (meson converse_rtranclE)
      then show ?thesis using None c False by (simp add: walk_up.simps)
    next
      case (Some p)
      then have link: "(c, p) \<in> up_links st" using 1(2) up_links_iff by blast
      obtain pn where pn: "map_of (vf_nodes st) p = Some pn"
        using forest_parentD[OF fo, of c "node_links n" p] 1(2) Some by auto
      have "(c, i) \<in> (up_links st)\<^sup>* \<longleftrightarrow> (p, i) \<in> (up_links st)\<^sup>*"
      proof
        assume "(c, i) \<in> (up_links st)\<^sup>*"
        then obtain q where "(c, q) \<in> up_links st" "(q, i) \<in> (up_links st)\<^sup>*" using False by (meson converse_rtranclE)
        then show "(p, i) \<in> (up_links st)\<^sup>*" using 1(2) Some by (simp add: up_links_iff)
      next
        assume "(p, i) \<in> (up_links st)\<^sup>*"
        then show "(c, i) \<in> (up_links st)\<^sup>*" using link by (rule converse_rtrancl_into_rtrancl[rotated])
      qed
      moreover have "walk_up st i n = walk_up st i pn"
        using Some c False pn by (subst walk_up.simps) (simp add: require_node_def)
      moreover have "(p, c) \<in> (up_links st)\<inverse>" using link by simp
      ultimately show ?thesis using 1(1)[OF _ pn] by simp
    qed
  qed
qed

text \<open>Where a node may be moved: another node of its topic that is not below it.\<close>

definition may_move :: "vfs_state \<Rightarrow> string \<Rightarrow> string \<Rightarrow> bool" where
  "may_move st i p \<longleftrightarrow> (\<exists>n np. map_of (vf_nodes st) i = Some n \<and> map_of (vf_nodes st) p = Some np \<and>
     nd_parent_id n \<noteq> None \<and> nd_topic_id n = nd_topic_id np \<and> (p, i) \<notin> (up_links st)\<^sup>*)"

lemma check_move_result:
  assumes fo: "forest_ok (forest_of st)"
  shows "\<exists>r. check_move st i p = Some r \<and>
    (\<forall>x. r = Inr x \<longleftrightarrow> may_move st i p \<and> x = (the (map_of (vf_nodes st) i), the (map_of (vf_nodes st) p)))"
proof (cases "map_of (vf_nodes st) i")
  case None
  then show ?thesis by (auto simp: check_move_def require_node_def may_move_def)
next
  case (Some n)
  note n = this
  show ?thesis
  proof (cases "map_of (vf_nodes st) p")
    case None
    then show ?thesis using n by (auto simp: check_move_def require_node_def may_move_def)
  next
    case (Some np)
    have "nd_id n = i" "nd_id np = p" using node_id_key[OF fo] n Some by blast+
    then show ?thesis
      using n Some walk_up_result[OF fo Some, of i]
      by (auto simp: check_move_def require_node_def may_move_def ensure_no_cycle_def)
  qed
qed

lemma lose_child_links:
  "node_links (n\<lparr>nd_children_ids := remove_child (nd_children_ids n) c\<rparr>) = lose_child c (node_links n)"
  by (simp add: node_links_def remove_child_def lose_child_def)

lemma gain_child_links:
  "node_links (n\<lparr>nd_children_ids := nd_children_ids n @ [c]\<rparr>) = gain_child c (node_links n)"
  by (simp add: node_links_def gain_child_def)

lemma node_valid_links:
  "node_valid (touch_node now (n\<lparr>nd_children_ids := cs\<rparr>)) \<longleftrightarrow> node_valid (touch_node now n)"
  "node_valid (touch_node now (n\<lparr>nd_parent_id := p\<rparr>)) \<longleftrightarrow> node_valid (touch_node now n)"
  by (simp_all add: node_valid_def touch_node_def)

lemma permits_rewire:
  assumes may: "may_move st i p" and n: "map_of (vf_nodes st) i = Some n" and np: "map_of (vf_nodes st) p = Some np"
    and new: "nd_parent_id n \<noteq> Some (nd_id np)" and res: "rewire now i p n np st = Inr st'"
  shows "permits st st'"
proof (rule permits_step)
  assume ok: "entries_ok st" and fo: "forest_ok (forest_of st)"
  have id: "nd_id n = i" "nd_id np = p" using node_id_key[OF fo] n np by blast+
  from res obtain old lo where old: "nd_parent_id n = Some old" and lo: "map_of (vf_nodes st) old = Some lo"
    by (auto simp: rewire_def result_simps split: option.splits)
  define st1 where "st1 = change_node old (\<lambda>d. touch_node now (d\<lparr>nd_children_ids := remove_child (nd_children_ids d) (nd_id n)\<rparr>)) st"
  define st2 where "st2 = change_node p (\<lambda>d. touch_node now (d\<lparr>nd_children_ids := nd_children_ids d @ [nd_id n]\<rparr>)) st1"
  define st3 where "st3 = change_node i (\<lambda>d. touch_node now (d\<lparr>nd_parent_id := Some (nd_id np)\<rparr>)) st2"
  have st': "st' = change_topic (nd_topic_id n) (touch_topic now) st3"
    using res old lo by (simp add: rewire_def result_simps Let_def st1_def st2_def st3_def)
  have cyc: "(p, i) \<notin> (up_links st)\<^sup>*" and topic: "nd_topic_id n = nd_topic_id np" using may n np by (auto simp: may_move_def)
  have "entries_ok st1" unfolding st1_def by (rule entries_ok_adjust[OF ok]) (simp add: node_valid_links)
  then have "entries_ok st2" unfolding st2_def by (rule entries_ok_adjust) (simp add: node_valid_links)
  then have "entries_ok st3" unfolding st3_def by (rule entries_ok_adjust) (simp add: node_valid_links)
  then have ok': "entries_ok st'" by (auto simp: st' entries_ok_def table_simps)
  have oi: "old \<noteq> i" using forest_no_self_parent[OF fo, of i "node_links n"] n old by simp
  have pi: "p \<noteq> i" using cyc by auto
  have op: "old \<noteq> p" using new old id by simp
  have three: "node_links (n\<lparr>nd_parent_id := Some p\<rparr>) = (node_links n)\<lparr>lk_parent := Some p\<rparr>"
    by (simp add: node_links_def)
  have "forest_of st' = (forest_of st)\<lparr>fr_nodes := (fr_nodes (forest_of st))(old \<mapsto> lose_child i (node_links lo),
      p \<mapsto> gain_child i (node_links np), i \<mapsto> (node_links n)\<lparr>lk_parent := Some p\<rparr>)\<rparr>"
    by (rule forest_eqI; rule ext)
      (use n np lo oi pi op in \<open>simp_all add: st' forest_of_change_topic st3_def st2_def st1_def table_simps id three
        lose_child_links gain_child_links\<close>)
  then show "entries_ok st' \<and> forest_step (forest_of st) (forest_of st')"
    using ok' move[of "forest_of st" i "node_links n" old "node_links lo" p "node_links np"] n old lo np topic op cyc
    unfolding up_links_eq by simp
qed

lemma permits_unlink:
  assumes res: "unlink_node now i st = Inr (gone, st')"
  shows "permits st st'"
proof (rule permits_step)
  assume ok: "entries_ok st" and fo: "forest_ok (forest_of st)"
  from res obtain n p pn where n: "map_of (vf_nodes st) i = Some n" and p: "nd_parent_id n = Some p"
    and leaf: "is_leaf n" and pn: "map_of (vf_nodes st) p = Some pn"
    by (auto simp: unlink_node_def result_simps split: option.splits if_splits)
  have id: "nd_id n = i" by (rule node_id_key[OF fo n])
  define st1 where "st1 = change_node p (\<lambda>d. touch_node now (d\<lparr>nd_children_ids := remove_child (nd_children_ids d) (nd_id n)\<rparr>)) st"
  define st2 where "st2 = change_topic (nd_topic_id n) (touch_topic now) st1"
  have st': "st' = st2\<lparr>vf_nodes := del i (vf_nodes st2)\<rparr>"
    using res n p leaf pn by (auto simp: unlink_node_def result_simps Let_def st1_def st2_def id)
  have "entries_ok st1" unfolding st1_def by (rule entries_ok_adjust[OF ok]) (simp add: node_valid_links)
  then have ok': "entries_ok st'" by (auto simp: st' st2_def entries_ok_def table_simps)
  have pi: "p \<noteq> i" using forest_no_self_parent[OF fo, of i "node_links n"] n p by auto
  have "forest_of st' = (forest_of st)\<lparr>fr_nodes := (fr_nodes (forest_of st))(p \<mapsto> lose_child i (node_links pn), i := None)\<rparr>"
    by (rule forest_eqI; rule ext)
      (use pn pi in \<open>simp_all add: st' st2_def st1_def table_simps id lose_child_links option.map_comp comp_def\<close>)
  then show "entries_ok st' \<and> forest_step (forest_of st) (forest_of st')"
    using ok' prune[of "forest_of st" i "node_links n" p "node_links pn"] n p leaf pn by (simp add: is_leaf_def)
qed


section \<open>Every operation refines the contract\<close>

lemma draw_or_keep: "triple (staged F st) (if b then draw_id else return_ok x) (\<lambda>_. staged F st) (\<lambda>_. evolves F)"
  by (intro triple_if keeps_file(2)) (auto simp: return_ok_def dest: draw_id_file)

lemma stage_weaken: "triple (staged F st) m Q (\<lambda>_. evolves F) \<Longrightarrow> (\<And>v s. Q v s \<Longrightarrow> evolves F s) \<Longrightarrow>
    triple (staged F st) m (\<lambda>_. evolves F) (\<lambda>_. evolves F)"
  by (erule triple_conseq) auto

lemma create_topic_keeps: "keeps (evolves F) (create_topic now inp)"
proof -
  have "triple (staged F st) (seq (if b then draw_id else return_ok x) (\<lambda>i. let r = f i in
      seq (of_result (add_topic now i r inp st)) (\<lambda>st'. seq (save_state st') (\<lambda>st''. of_result (g i r st'')))))
    (\<lambda>_. evolves F) (\<lambda>_. evolves F)" for st b x f and g :: "string \<Rightarrow> string \<Rightarrow> vfs_state \<Rightarrow> vos_error + vos_topic \<times> vos_node"
    unfolding Let_def
    by (intro triple_seq[OF draw_or_keep] triple_seq[OF result_triple] triple_seq[OF save_triple] finish_triple permits_add_topic)
  then show ?thesis
    unfolding create_topic_def by (intro triple_if triple_seq[OF load_triple] triple_return_err) simp_all
qed

lemma permits_updated_topic: "permits st (change_topic i (updated_topic now u) st)"
  by (rule permits_change_topic) (simp add: updated_topic_def topic_links_def touch_topic_def)

lemma update_topic_keeps: "keeps (evolves F) (update_topic now u)"
  unfolding update_topic_def
  by (intro keeps_seq keeps_of_result modify_keeps) (auto simp: result_simps intro: permits_updated_topic)

lemma delete_topic_keeps: "keeps (evolves F) (delete_topic i)"
proof -
  have "triple (staged F st) (seq (of_result (require_topic st i)) (\<lambda>t. seq (save_state (remove_topic i st))
      (\<lambda>_. return_ok (t, ids)))) (\<lambda>_. evolves F) (\<lambda>_. evolves F)" for st ids
  proof (rule triple_seq[OF value_triple])
    fix t
    have "triple (staged F st) (save_state (remove_topic i st)) (staged F) (\<lambda>_. evolves F)" if "require_topic st i = Inr t"
      by (rule triple_conseq[OF save_triple]) (use that in \<open>auto intro: staged_permits permits_remove_topic\<close>)
    then show "triple (\<lambda>s. require_topic st i = Inr t \<and> staged F st s)
        (seq (save_state (remove_topic i st)) (\<lambda>_. return_ok (t, ids))) (\<lambda>_. evolves F) (\<lambda>_. evolves F)"
      by (intro triple_assuming triple_seq[where M="staged F"] triple_return_ok) (auto simp: staged_evolves)
  qed
  then show ?thesis unfolding delete_topic_def
    by (intro triple_if triple_seq[OF load_triple] triple_return_err) simp_all
qed

lemma save_permitted:
  assumes "permits st st'"
  shows "triple (staged F st) (save_state st') (staged F) (\<lambda>_. evolves F)"
  by (rule triple_conseq[OF save_triple]) (use assms in \<open>auto intro: staged_permits\<close>)

lemma return_staged: "triple (staged F st) (return_ok v) (\<lambda>_. evolves F) (\<lambda>_. evolves F)"
  by (rule triple_return_ok) (rule staged_evolves)

lemma update_topic_workspace_binding_keeps: "keeps (evolves F) (update_topic_workspace_binding now i w)"
proof -
  have "permits st (change_topic j (\<lambda>t. touch_topic now (t\<lparr>tp_workspace := Some x\<rparr>)) st)" for st j x
    by (rule permits_change_topic) (simp add: topic_links_def touch_topic_def)
  then show ?thesis unfolding update_topic_workspace_binding_def Let_def
    by (intro triple_if triple_return_err triple_seq[OF load_triple] triple_seq[OF keep_value] triple_seq[OF save_permitted]
        return_staged finish_triple) simp_all
qed


lemma ensure_topic_triple:
  "triple (staged F st) (ensure_topic_for now topic_id name st) (\<lambda>(i, st'). staged F st') (\<lambda>_. evolves F)"
proof -
  have "triple (staged F st) (create_topic now (auto_topic_input name)) (\<lambda>_. evolves F) (\<lambda>_. evolves F)"
    by (rule triple_conseq[OF create_topic_keeps]) (auto dest: staged_evolves)
  moreover have "triple (evolves F) (case v of (t, n) \<Rightarrow> seq load_state (\<lambda>st'. return_ok (tp_id t, st')))
      (\<lambda>(i, st'). staged F st') (\<lambda>_. evolves F)" for v :: "vos_topic \<times> vos_node"
    by (cases v) (auto intro!: triple_seq[OF load_triple] triple_return_ok)
  ultimately show ?thesis unfolding ensure_topic_for_def
    by (intro triple_if triple_return_ok triple_seq[where M="\<lambda>_. evolves F"]) auto
qed

lemma parent_for_Inr:
  assumes "parent_for st topic_id parent_arg = Inr (p, pn)"
  shows "map_of (vf_nodes st) p = Some pn" and "nd_topic_id pn = topic_id"
  using assms by (auto simp: parent_for_def result_simps Let_def split: if_splits)

lemma parse_node_status_Inr [simp]: "parse_node_status r = Inr x \<longleftrightarrow> r \<in> set node_statuses \<and> x = r"
  by (auto simp: parse_node_status_def)

lemma create_node_end:
  assumes "status \<in> set node_statuses" and "parent_for st topic_id parent_arg = Inr (p, pn)"
  shows "triple (staged F st) (seq (if b then draw_id else return_ok x) (\<lambda>i.
     seq (of_result (add_node now p (new_node now i topic_id (nd_id pn) status inp) st)) (\<lambda>st'.
     seq (save_state st') (\<lambda>st''. of_result (require_node st'' i))))) (\<lambda>_. evolves F) (\<lambda>_. evolves F)"
  by (intro triple_seq[OF draw_or_keep] triple_seq[OF result_triple] triple_seq[OF save_triple] finish_triple)
    (use parent_for_Inr[OF assms(2)] assms(1) permits_add_node in blast)

lemma create_node_keeps: "keeps (evolves F) (create_node now inp)"
proof -
  let ?status = "if cn_status inp = '''' then status_draft else cn_status inp"
  let ?parent = "trimmed_parent (cn_parent_id inp)"
  let ?finish = "\<lambda>topic_id st (parent_key, parent). seq (if cn_node_id inp = '''' then draw_id else return_ok (cn_node_id inp)) (\<lambda>i.
        seq (of_result (add_node now parent_key (new_node now i topic_id (nd_id parent) ?status inp) st)) (\<lambda>st'.
        seq (save_state st') (\<lambda>st''. of_result (require_node st'' i))))"
  have stop: "triple (staged F st) (seq (of_result (parent_for st topic_id ?parent)) (?finish topic_id st))
      (\<lambda>_. evolves F) (\<lambda>_. evolves F)" if "?status \<in> set node_statuses" for topic_id st
  proof (rule triple_seq[OF value_triple])
    fix v :: "string \<times> vos_node"
    obtain p pn where v: "v = (p, pn)" by fastforce
    show "triple (\<lambda>s. parent_for st topic_id ?parent = Inr v \<and> staged F st s) (?finish topic_id st v)
        (\<lambda>_. evolves F) (\<lambda>_. evolves F)"
      unfolding v prod.case by (rule triple_assuming) (rule create_node_end[OF that])
  qed
  have "triple (staged F st0) (seq (of_result (topic_of_parent st0 t ?parent)) (\<lambda>topic_arg.
        seq (ensure_topic_for now topic_arg name st0) (\<lambda>(topic_id, st).
        seq (of_result (parent_for st topic_id ?parent)) (?finish topic_id st)))) (\<lambda>_. evolves F) (\<lambda>_. evolves F)"
    if "?status \<in> set node_statuses" for st0 t name
    by (intro triple_seq[OF keep_value] triple_seq[OF ensure_topic_triple]) (use stop[OF that] in \<open>auto split: prod.split\<close>)
  note rest = this
  show ?thesis unfolding create_node_def Let_def
  proof (intro triple_if triple_return_err)
    show "keeps (evolves F) (seq (of_result (parse_node_status ?status)) (\<lambda>_. seq load_state (\<lambda>st0.
        seq (of_result (topic_of_parent st0 (trim_space (cn_topic_id inp)) ?parent)) (\<lambda>topic_arg.
        seq (ensure_topic_for now topic_arg (cn_name inp) st0) (\<lambda>(topic_id, st).
        seq (of_result (parent_for st topic_id ?parent)) (?finish topic_id st))))))"
    proof (cases "?status \<in> set node_statuses")
      case True
      show ?thesis by (intro keeps_seq keeps_of_result triple_seq[OF load_triple] rest[OF True])
    next
      case False
      then have "parse_node_status ?status = Inl (ValidationError (''invalid node status: '' @ ?status))"
        by (simp add: parse_node_status_def)
      then show ?thesis by (simp add: triple_def of_result_def)
    qed
  qed
qed

lemma delete_node_keeps: "keeps (evolves F) (delete_node now i)"
proof -
  have "triple (staged F st) (seq (of_result (unlink_node now i st)) (\<lambda>(gone, st'). seq (save_state st') (\<lambda>_. return_ok gone)))
      (\<lambda>_. evolves F) (\<lambda>_. evolves F)" for st
  proof (rule triple_seq[OF value_triple])
    fix v
    show "triple (\<lambda>s. unlink_node now i st = Inr v \<and> staged F st s)
        (case v of (gone, st') \<Rightarrow> seq (save_state st') (\<lambda>_. return_ok gone)) (\<lambda>_. evolves F) (\<lambda>_. evolves F)"
      by (cases v) (auto intro!: triple_assuming triple_seq[OF save_permitted] return_staged dest: permits_unlink)
  qed
  then show ?thesis unfolding delete_node_def by (intro triple_seq[OF load_triple])
qed

lemma move_checked_triple:
  assumes "may_move st i p" and "map_of (vf_nodes st) i = Some n" and "map_of (vf_nodes st) p = Some np"
  shows "triple (staged F st) (move_checked now i p n np st) (\<lambda>_. evolves F) (\<lambda>_. evolves F)"
  unfolding move_checked_def
  by (intro triple_if return_staged triple_seq[OF result_triple] triple_seq[OF save_triple] finish_triple)
    (use permits_rewire assms in blast)

text \<open>\<open>MoveNode\<close> returns on every state the service can have written.\<close>

lemma move_node_returns:
  assumes "evolves F s"
  shows "\<exists>r t. move_node now i p s = Some (r, t) \<and> evolves F t"
proof -
  obtain r0 s' where load: "load_state s = (r0, s')" by fastforce
  show ?thesis
  proof (cases r0)
    case (Inl e)
    then show ?thesis using load triple_InlD[OF load_triple assms] by (simp add: move_node_def)
  next
    case (Inr st)
    then have st: "staged F st s'" using load triple_InrD[OF load_triple assms] by simp
    have fo: "forest_ok (forest_of st)" using st by (rule staged_forest_ok)
    obtain r where r: "check_move st i p = Some r"
      and iff: "\<And>x. r = Inr x \<longleftrightarrow> may_move st i p \<and> x = (the (map_of (vf_nodes st) i), the (map_of (vf_nodes st) p))"
      using check_move_result[OF fo] by blast
    let ?m = "seq (of_result r) (\<lambda>(n, np). move_checked now i p n np st)"
    have "triple (staged F st) ?m (\<lambda>_. evolves F) (\<lambda>_. evolves F)"
    proof (rule triple_seq[OF value_triple])
      fix v
      have "triple (staged F st) (move_checked now i p n np st) (\<lambda>_. evolves F) (\<lambda>_. evolves F)"
        if "r = Inr v" "v = (n, np)" for n np
        by (rule move_checked_triple) (use iff[of v] that in \<open>auto simp: may_move_def\<close>)
      then show "triple (\<lambda>s. r = Inr v \<and> staged F st s) (case v of (n, np) \<Rightarrow> move_checked now i p n np st)
          (\<lambda>_. evolves F) (\<lambda>_. evolves F)" by (auto intro!: triple_assuming split: prod.split)
    qed
    moreover obtain r1 t where "?m s' = (r1, t)" by fastforce
    ultimately have "evolves F t" using st by (cases r1) (auto dest: triple_InrD triple_InlD)
    then show ?thesis using Inr load r \<open>?m s' = (r1, t)\<close> by (simp add: move_node_def)
  qed
qed


lemma node_links_updated [simp]: "node_links (updated_node u n) = node_links n"
  by (simp add: updated_node_def node_links_def)

lemma permits_sync:
  assumes "sync_node_processes i items st s = (Inr st', t)"
  shows "permits st st'"
proof -
  have "permits st ((change_node i (\<lambda>nd. nd\<lparr>nd_process_ids := x\<rparr>) (st\<lparr>vf_processes := ps\<rparr>)))" for x ps
    by (rule permits_trans[OF permits_processes permits_change_node]) (simp_all add: node_links_def node_valid_def)
  moreover obtain nd where nd: "(case sync_items nd items (vo_ids s) (vo_drawn s) [] (vf_processes st) of (n, r) \<Rightarrow>
       (and_then r (\<lambda>(next_ids, ps).
          Inr (change_node i (\<lambda>nd. nd\<lparr>nd_process_ids := next_ids\<rparr>)
            (st\<lparr>vf_processes := fold del (filter (\<lambda>p. p \<notin> set next_ids) (nd_process_ids nd)) ps\<rparr>))),
        s\<lparr>vo_drawn := n\<rparr>)) = (Inr st', t)"
    using assms by (auto simp: sync_node_processes_def seq_Inr_iff of_result_def)
  moreover obtain n r where "sync_items nd items (vo_ids s) (vo_drawn s) [] (vf_processes st) = (n, r)" by fastforce
  ultimately show ?thesis by (cases r) auto
qed

lemma sync_file: "sync_node_processes i items st s = (r, t) \<Longrightarrow> vo_file t = vo_file s"
  by (auto simp: sync_node_processes_def of_result_def elim!: seq_cases split: prod.splits)

lemma sync_triple: "triple (staged F st) (sync_node_processes i items st) (staged F) (\<lambda>_. evolves F)"
proof (rule tripleI)
  fix s st' t assume st: "staged F st s" and res: "sync_node_processes i items st s = (Inr st', t)"
  have "staged F st' s" using st permits_sync[OF res] by (rule staged_permits)
  then show "staged F st' t" using sync_file[OF res] staged_cong by blast
next
  fix s e t assume "staged F st s" "sync_node_processes i items st s = (Inl e, t)"
  then show "evolves F t" using sync_file evolves_cong staged_evolves by blast
qed

lemma permits_pass_memory_up:
  assumes "pass_memory_up now u st = Inr st'"
  shows "permits st st'"
proof -
  have "permits st (change_node p (\<lambda>parent. touch_node now (remember_child_memory n parent)) st)" for p n
    by (rule permits_change_node) simp_all
  then show ?thesis using assms by (auto simp: pass_memory_up_def result_simps split: if_splits option.splits)
qed

lemma validate_update_status:
  assumes "validate_update_node u = Inr x" and "un_status u = Some r"
  shows "r \<in> set node_statuses"
  using assms by (auto simp: validate_update_node_def result_simps split: if_splits)

lemma update_node_keeps: "keeps (evolves F) (update_node now u)"
proof (cases "validate_update_node u")
  case (Inl e)
  then show ?thesis by (simp add: update_node_def triple_def of_result_def seq_def)
next
  case (Inr x)
  have change: "permits st (change_node i (updated_node u) st)" for st i
    by (rule permits_change_node)
      (use validate_update_status[OF Inr] in \<open>auto simp: node_valid_def updated_node_def with_default_def split: option.split\<close>)
  have touch: "permits st (change_node i (touch_node now) st)" for st i
    by (rule permits_change_node) simp_all
  have topic: "permits st (change_topic i (touch_topic now) st)" for st i
    by (rule permits_change_topic) simp
  have sync: "triple (staged F st) (let st1 = change_node i (updated_node u) st in
       seq (case un_process u of None \<Rightarrow> return_ok st1 | Some items \<Rightarrow> sync_node_processes i items st1) (f st1)) Q (\<lambda>_. evolves F)"
    if "\<And>st1 st2. triple (staged F st2) (f st1 st2) Q (\<lambda>_. evolves F)" for st i f and Q :: "vos_node \<Rightarrow> vos \<Rightarrow> bool"
  proof -
    have "triple (staged F st) (case un_process u of None \<Rightarrow> return_ok (change_node i (updated_node u) st)
        | Some items \<Rightarrow> sync_node_processes i items (change_node i (updated_node u) st)) (staged F) (\<lambda>_. evolves F)"
      by (cases "un_process u")
        (auto intro!: triple_return_ok triple_conseq[OF sync_triple] intro: staged_permits change)
    then show ?thesis unfolding Let_def by (rule triple_seq) (rule that)
  qed
  have memory: "triple (staged F st) (of_result (pass_memory_up now u (change_node i (touch_node now) st))) (staged F) (\<lambda>_. evolves F)"
    for st i
    by (rule result_triple) (blast intro: permits_trans touch permits_pass_memory_up)
  show ?thesis
    unfolding update_node_def Inr
    by (intro triple_seq[where M="\<lambda>_. evolves F"] keeps_of_result triple_seq[OF load_triple])
      (unfold Let_def[of "un_node_id u"], intro triple_seq[OF keep_value] sync triple_seq[OF memory]
        triple_seq[OF save_permitted] finish_triple topic)
qed

end
