(* ===== verification/VosSessions.thy ===== *)
theory VosSessions
  imports VosTree
begin

text \<open>
  The sessions of VOS (internal/vos/service/session_service.go) and the invariant of the session database: the events of a
  session carry the numbers from 1 to the session's last one, in the order they were appended.
\<close>

section \<open>The service\<close>

record create_session_input =
  cs_node_id :: string
  cs_session_id :: string
  cs_status :: string

record append_session_event_input =
  ae_session_id :: string
  ae_item_type :: string
  ae_provider_item_id :: "string option"
  ae_role :: "string option"
  ae_call_id :: "string option"
  ae_payload_json :: json_object
  ae_next_status :: "string option"

definition new_session :: "time \<Rightarrow> string \<Rightarrow> string \<Rightarrow> session_status \<Rightarrow> vos_session" where
  "new_session now i node_id status = session_normalized \<lparr>se_id = i, se_node_id = node_id, se_status = status,
     se_created_at = now, se_updated_at = now, se_last_seq = 0\<rparr>"

text \<open>The row of a session whose node could not be saved is deleted again.\<close>

definition rollback_session :: "string \<Rightarrow> string \<Rightarrow> vos_error \<Rightarrow> 'a vos_op" where
  "rollback_session i text e = attempt (with_sessions (delete_session i)) (\<lambda>r. case r of
       Inl undo \<Rightarrow> return_err (WrappedError (text @ '': '') e ('' (rollback failed: '' @ vos_error_text undo @ '')''))
     | Inr _ \<Rightarrow> return_err e)"

definition with_session :: "time \<Rightarrow> string \<Rightarrow> vos_node \<Rightarrow> vos_node" where
  "with_session now i n = touch_node now (n\<lparr>nd_session := nd_session n @ [i]\<rparr>)"

definition attach_session :: "time \<Rightarrow> string \<Rightarrow> vos_node \<Rightarrow> string \<Rightarrow> vfs_state \<Rightarrow> unit vos_op" where
  "attach_session now node_key n i st =
     (let st1 = change_node node_key (with_session now i) st in
      case require_topic st1 (nd_topic_id n) of
        Inl e \<Rightarrow> rollback_session i ''load topic after session create'' e
      | Inr _ \<Rightarrow> attempt (save_state (change_topic (nd_topic_id n) (touch_topic now) st1)) (\<lambda>r. case r of
            Inl e \<Rightarrow> rollback_session i ''save node session reference'' e
          | Inr _ \<Rightarrow> return_ok ()))"

definition create_session :: "time \<Rightarrow> create_session_input \<Rightarrow> vos_session vos_op" where
  "create_session now inp = seq require_session_store (\<lambda>_.
     if cs_node_id inp = '''' then return_err (ValidationError ''node ID is required'')
     else seq (of_result (parse_session_status (if cs_status inp = '''' then ''active'' else cs_status inp))) (\<lambda>status.
       seq load_state (\<lambda>st.
       seq (of_result (require_node st (cs_node_id inp))) (\<lambda>n.
       seq (if cs_session_id inp = '''' then draw_id else return_ok (cs_session_id inp)) (\<lambda>i.
       if i \<in> set (nd_session n) then return_err (DuplicateEntityError ''session'' i)
       else let se = new_session now i (cs_node_id inp) status in
         seq (with_sessions (insert_session se)) (\<lambda>_.
         seq (attach_session now (cs_node_id inp) n i st) (\<lambda>_. return_ok se)))))))"

definition get_session :: "string \<Rightarrow> vos_session vos_op" where
  "get_session i = seq require_session_store (\<lambda>_.
     if i = '''' then return_err (ValidationError ''session ID is required'') else with_sessions (get_session_row i))"

definition infer_session_role :: "json_object \<Rightarrow> vos_error + session_role option" where
  "infer_session_role payload = (case map_of payload ''role'' of
       None \<Rightarrow> Inr None
     | Some raw \<Rightarrow> (case as_string raw of
           None \<Rightarrow> Inl (ValidationError ''payload_json.role must be a string'')
         | Some text \<Rightarrow> and_then (parse_session_role text) (\<lambda>r. Inr (Some r))))"

definition parse_optional :: "(string \<Rightarrow> vos_error + 'a) \<Rightarrow> string option \<Rightarrow> vos_error + 'a option" where
  "parse_optional f v = (case v of None \<Rightarrow> Inr None | Some raw \<Rightarrow> and_then (f raw) (\<lambda>x. Inr (Some x)))"

definition new_event :: "time \<Rightarrow> string \<Rightarrow> session_role option \<Rightarrow> append_session_event_input \<Rightarrow> session_event" where
  "new_event now i role inp = \<lparr>ev_id = i, ev_session_id = ae_session_id inp, ev_seq = 0, ev_item_type = ae_item_type inp,
     ev_provider_item_id = ae_provider_item_id inp, ev_role = role, ev_call_id = ae_call_id inp,
     ev_payload_json = ae_payload_json inp, ev_created_at = now\<rparr>"

definition append_session_event :: "time \<Rightarrow> append_session_event_input \<Rightarrow> session_event vos_op" where
  "append_session_event now inp = seq require_session_store (\<lambda>_.
     if ae_session_id inp = '''' then return_err (ValidationError ''session ID is required'')
     else seq (of_result (parse_session_item_type (ae_item_type inp))) (\<lambda>_.
       seq (of_result (parse_optional parse_session_role (ae_role inp))) (\<lambda>given_role.
       seq (of_result (parse_optional parse_session_status (ae_next_status inp))) (\<lambda>next_status.
       if is_tool_session_item_type (ae_item_type inp) \<and> ae_call_id inp = None
         then return_err (ValidationError ''call ID is required for tool events'')
       else
         seq (of_result (if given_role = None then infer_session_role (ae_payload_json inp) else Inr given_role)) (\<lambda>role.
         seq draw_id (\<lambda>i.
         seq (with_sessions (append_event (new_event now i role inp) next_status)) (\<lambda>(e, _). return_ok e)))))))"

definition list_session_events :: "string \<Rightarrow> int \<Rightarrow> int \<Rightarrow> session_event list vos_op" where
  "list_session_events i after_seq n = seq require_session_store (\<lambda>_.
     if i = '''' then return_err (ValidationError ''session ID is required'')
     else if after_seq < 0 then return_err (ValidationError ''after-seq must be a non-negative integer'')
     else if n < 0 then return_err (ValidationError ''limit must be a non-negative integer'')
     else with_sessions (list_events i after_seq n))"

definition list_session_events_by_call_id :: "string \<Rightarrow> string \<Rightarrow> int \<Rightarrow> session_event list vos_op" where
  "list_session_events_by_call_id i c n = seq require_session_store (\<lambda>_.
     if i = '''' then return_err (ValidationError ''session ID is required'')
     else if c = '''' then return_err (ValidationError ''call ID is required'')
     else if n < 0 then return_err (ValidationError ''limit must be a non-negative integer'')
     else with_sessions (list_events_by_call_id i c n))"

section \<open>The invariant of the session database\<close>

definition events_of :: "string \<Rightarrow> session_db \<Rightarrow> session_event list" where
  "events_of i d = filter (\<lambda>r. ev_session_id r = i) (db_events d)"

definition session_row_ok :: "session_db \<Rightarrow> vos_session \<Rightarrow> bool" where
  "session_row_ok d r \<longleftrightarrow> 0 \<le> se_last_seq r \<and> map ev_seq (events_of (se_id r) d) = [1..se_last_seq r]"

definition sessions_ok :: "session_db \<Rightarrow> bool" where
  "sessions_ok d \<longleftrightarrow> distinct (map se_id (db_sessions d)) \<and> distinct (map ev_id (db_events d)) \<and>
     (\<forall>r\<in>set (db_sessions d). session_row_ok d r) \<and>
     (\<forall>e\<in>set (db_events d). ev_session_id e \<in> se_id ` set (db_sessions d) \<and> \<not> sql_blank (ev_item_type e))"

lemma find_session_Some: "find_session i d = Some r \<Longrightarrow> r \<in> set (db_sessions d) \<and> se_id r = i"
  unfolding find_session_def by (auto dest!: find_SomeD)

lemma find_session_None: "find_session i d = None \<longleftrightarrow> i \<notin> se_id ` set (db_sessions d)"
  unfolding find_session_def by (rule find_key_None)

lemma no_events_without_session: "sessions_ok d \<Longrightarrow> find_session i d = None \<Longrightarrow> events_of i d = []"
  by (auto simp: sessions_ok_def find_session_None events_of_def filter_empty_conv)

lemma insert_session_ok:
  assumes "sessions_ok d" and "insert_session se d = (r, d')" and "se_last_seq se = 0"
  shows "sessions_ok d'"
proof (cases "find_session (se_id se) d")
  case None
  then have "events_of (se_id se) d = []" using assms(1) no_events_without_session by blast
  then show ?thesis using assms None
    by (auto simp: insert_session_def session_normalized_def sessions_ok_def session_row_ok_def events_of_def find_session_None Let_def)
next
  case (Some a)
  then show ?thesis using assms by (auto simp: insert_session_def session_normalized_def Let_def)
qed

lemma delete_session_ok:
  assumes "sessions_ok d" and "delete_session i d = (r, d')"
  shows "sessions_ok d'"
proof (cases "find_session i d")
  case (Some q)
  have d': "db_sessions d' = filter (\<lambda>r. se_id r \<noteq> i) (db_sessions d)" "db_events d' = filter (\<lambda>r. ev_session_id r \<noteq> i) (db_events d)"
    using assms Some by (auto simp: delete_session_def)
  have same: "events_of j d' = events_of j d" if "j \<noteq> i" for j
  proof -
    have "filter (\<lambda>e. ev_session_id e \<noteq> i \<and> ev_session_id e = j) es = filter (\<lambda>e. ev_session_id e = j) es" for es
      using that by (induction es) auto
    then show ?thesis by (simp add: d' events_of_def conj_commute)
  qed
  have "session_row_ok d' q" if "q \<in> set (db_sessions d')" for q
    using that assms(1) same[of "se_id q"] by (simp add: d' sessions_ok_def session_row_ok_def)
  moreover have "ev_session_id e \<in> se_id ` set (db_sessions d')" if "e \<in> set (db_events d')" for e
    using that assms(1) by (force simp: d' sessions_ok_def)
  ultimately show ?thesis using assms(1) by (auto simp: sessions_ok_def d' distinct_map_filter)
qed (use assms in \<open>auto simp: delete_session_def\<close>)

text \<open>An event that is stored is the next one of its session; one that is refused changes nothing.\<close>

lemma append_event_Inr:
  assumes "append_event e st d = (Inr (e', row), d')"
  obtains r where "find_session (ev_session_id e) d = Some r" and "e' = e\<lparr>ev_seq := se_last_seq r + 1\<rparr>"
    and "row = appended_row e' st r" and "ev_seq e > 0 \<longrightarrow> ev_seq e = se_last_seq r + 1"
    and "\<not> violates_event_constraint e' d"
    and "d' = d\<lparr>db_events := db_events d @ [e'], db_sessions := update_where (\<lambda>x. se_id x = se_id row)
      (\<lambda>x. x\<lparr>se_status := se_status row, se_updated_at := se_updated_at row, se_last_seq := se_last_seq row\<rparr>)
      (db_sessions d)\<rparr>"
  using assms that
  by (auto simp: append_event_def append_event_tx_def seq_Inr_iff session_row_def insert_event_def write_session_def
      return_ok_def return_err_def Let_def split: option.splits if_splits)

lemma append_event_Inl: "append_event e st d = (Inl err, d') \<Longrightarrow> d' = d"
  unfolding append_event_def by (rule transaction_InlD)

lemma append_event_ok:
  assumes ok: "sessions_ok d" and res: "append_event e st d = (r, d')"
  shows "sessions_ok d'"
proof (cases r)
  case (Inl err)
  then show ?thesis using assms append_event_Inl by blast
next
  case (Inr v)
  obtain e' row where v: "v = (e', row)" by fastforce
  obtain q where q: "find_session (ev_session_id e) d = Some q" and e': "e' = e\<lparr>ev_seq := se_last_seq q + 1\<rparr>"
    and row: "row = appended_row e' st q" and free: "\<not> violates_event_constraint e' d"
    and d': "d' = d\<lparr>db_events := db_events d @ [e'], db_sessions := update_where (\<lambda>x. se_id x = se_id row)
      (\<lambda>x. x\<lparr>se_status := se_status row, se_updated_at := se_updated_at row, se_last_seq := se_last_seq row\<rparr>)
      (db_sessions d)\<rparr>"
    using append_event_Inr[of e st d e' row d'] res Inr v by blast
  have q': "q \<in> set (db_sessions d)" "se_id q = ev_session_id e" using find_session_Some[OF q] by auto
  have rid: "se_id row = se_id q" "se_last_seq row = se_last_seq q + 1" by (simp_all add: row appended_row_def e')
  have ids: "map se_id (db_sessions d') = map se_id (db_sessions d)" by (simp add: d' map_key_update_where)
  have "session_row_ok d' x" if "x \<in> set (db_sessions d')" for x
  proof -
    obtain y where y: "y \<in> set (db_sessions d)" and x: "x = (if se_id y = se_id row then y\<lparr>se_status := se_status row,
        se_updated_at := se_updated_at row, se_last_seq := se_last_seq row\<rparr> else y)"
      using \<open>x \<in> _\<close> unfolding d' by (auto simp: set_update_where)
    have yok: "session_row_ok d y" using ok y by (simp add: sessions_ok_def)
    show ?thesis
    proof (cases "se_id y = se_id q")
      case True
      have "distinct (map se_id (db_sessions d))" using ok by (simp add: sessions_ok_def)
      then have "y = q" using y q'(1) True by (rule inj_on_key_eq)
      then show ?thesis using yok x rid q'(2)
        by (simp add: session_row_ok_def d' events_of_def e' upto_rec2[of 1 "se_last_seq q + 1"])
    next
      case False
      then show ?thesis using yok x rid q'(2) by (simp add: session_row_ok_def d' events_of_def e')
    qed
  qed
  moreover have "distinct (map ev_id (db_events d'))"
    using ok free by (auto simp: d' sessions_ok_def violates_event_constraint_def list_ex_iff)
  moreover have "\<not> sql_blank (ev_item_type e')" using free by (simp add: violates_event_constraint_def)
  moreover have "ev_session_id e' \<in> se_id ` set (db_sessions d)" using q' by (force simp: e')
  moreover have "se_id ` set (db_sessions d') = se_id ` set (db_sessions d)" using ids by (metis set_map)
  moreover have "db_events d' = db_events d @ [e']" by (simp add: d')
  ultimately show ?thesis using ok ids by (auto simp: sessions_ok_def)
qed

lemma session_queries_ok: "get_session_row i d = (r, d') \<Longrightarrow> d' = d" "list_events i a n d = (q, d') \<Longrightarrow> d' = d"
  "list_events_by_call_id i c n d = (q, d') \<Longrightarrow> d' = d"
  by (auto simp: get_session_row_def list_events_def list_events_by_call_id_def session_row_def return_ok_def
      split: option.splits elim!: seq_cases)


section \<open>The operations keep both stores\<close>

definition db_ok :: "vos \<Rightarrow> bool" where
  "db_ok s \<longleftrightarrow> (case vo_db s of None \<Rightarrow> True | Some d \<Rightarrow> sessions_ok d)"

lemma keeps_db_frame: "(\<And>s r t. m s = (r, t) \<Longrightarrow> vo_db t = vo_db s) \<Longrightarrow> keeps db_ok m"
  by (rule keepsI) (simp add: db_ok_def)

lemma disk_keeps_db [keeps_intros]: "keeps db_ok disk"
proof (rule keeps_db_frame)
  show "disk s = (r, t) \<Longrightarrow> vo_db t = vo_db s" for s r t
    by (simp add: disk_def split: list.splits option.splits) auto
qed

lemma draw_id_keeps_db [keeps_intros]: "keeps db_ok draw_id"
  by (rule keeps_db_frame) (auto simp: draw_id_def)

lemma normalize_keeps_db [keeps_intros]: "keeps db_ok (normalize st)"
  by (rule keeps_db_frame) (auto dest!: normalize_result)

lemma load_keeps_db [keeps_intros]: "keeps db_ok load_state"
proof -
  have "keeps db_ok (\<lambda>s. case vo_file s of None \<Rightarrow> return_ok new_vfs_state s | Some st \<Rightarrow> normalize st s)"
    by (rule keeps_db_frame) (auto simp: return_ok_def split: option.splits dest!: normalize_result)
  then show ?thesis unfolding load_state_def by (intro keeps_intros)
qed

lemma save_keeps_db [keeps_intros]: "keeps db_ok (save_state st)"
proof -
  have "keeps db_ok (\<lambda>s. (Inr st', s\<lparr>vo_file := Some (as_written st')\<rparr>))" for st'
    by (rule keeps_db_frame) auto
  then show ?thesis unfolding save_state_def by (intro keeps_intros)
qed

lemma sync_keeps_db [keeps_intros]: "keeps db_ok (sync_node_processes i items st)"
proof (rule keeps_db_frame)
  show "sync_node_processes i items st s = (r, t) \<Longrightarrow> vo_db t = vo_db s" for s r t
    by (auto simp: sync_node_processes_def of_result_def elim!: seq_cases split: prod.splits)
qed

lemma with_sessions_keeps_db:
  assumes "\<And>d r d'. sessions_ok d \<Longrightarrow> m d = (r, d') \<Longrightarrow> sessions_ok d'"
  shows "keeps db_ok (with_sessions m)"
  by (rule keepsI) (auto simp: with_sessions_def db_ok_def split: option.splits prod.splits intro: assms)

lemma require_session_store_keeps_db [keeps_intros]: "keeps db_ok require_session_store"
  unfolding require_session_store_def by (rule with_sessions_keeps_db) (simp add: return_ok_def)

lemma append_keeps_db [keeps_intros]: "keeps db_ok (with_sessions (append_event e st))"
  by (rule with_sessions_keeps_db) (rule append_event_ok)

lemma insert_keeps_db [keeps_intros]: "keeps db_ok (with_sessions (insert_session (new_session now i n st)))"
  by (rule with_sessions_keeps_db) (auto simp: new_session_def session_normalized_def elim!: insert_session_ok)

lemma delete_keeps_db [keeps_intros]: "keeps db_ok (with_sessions (delete_session i))"
  by (rule with_sessions_keeps_db) (rule delete_session_ok)

lemma queries_keep_db [keeps_intros]: "keeps db_ok (with_sessions (get_session_row i))"
  "keeps db_ok (with_sessions (list_events i a n))" "keeps db_ok (with_sessions (list_events_by_call_id i c n))"
  by (auto intro!: with_sessions_keeps_db dest: session_queries_ok)

lemma keeps_case_prod [keeps_intros]: "(\<And>x y. keeps I (f x y)) \<Longrightarrow> keeps I (case v of (x, y) \<Rightarrow> f x y)"
  by (cases v) simp

lemma keeps_Let [keeps_intros]: "(\<And>x. keeps I (f x)) \<Longrightarrow> keeps I (let x = v in f x)"
  by simp

lemma topic_ops_keep_db [keeps_intros]:
  "keeps db_ok (create_topic now ct)" "keeps db_ok (update_topic now ut)" "keeps db_ok (delete_topic i)"
  "keeps db_ok (update_topic_workspace_binding now i w)"
  unfolding create_topic_def update_topic_def delete_topic_def update_topic_workspace_binding_def modify_state_def
  by (intro keeps_intros)+

lemma node_ops_keep_db [keeps_intros]:
  "keeps db_ok (create_node now cn)" "keeps db_ok (delete_node now i)" "keeps db_ok (update_node now un)"
  unfolding create_node_def ensure_topic_for_def delete_node_def update_node_def
  by (intro keeps_intros)+

lemma move_node_keeps_db:
  assumes "db_ok s" and "move_node now i p s = Some (r, t)"
  shows "db_ok t"
proof -
  have move: "keeps db_ok (seq (of_result v) (\<lambda>(n, np). move_checked now i p n np st))" for v st
    unfolding move_checked_def by (intro keeps_intros)
  obtain q u where u: "load_state s = (q, u)" by fastforce
  then have "db_ok u" using keepsD[OF load_keeps_db assms(1)] by blast
  then show ?thesis using assms(2) u by (auto simp: move_node_def split: sum.splits dest: keepsD[OF move])
qed

lemma session_ops_keep_db [keeps_intros]:
  "keeps db_ok (create_session now cs)" "keeps db_ok (append_session_event now ae)"
  "keeps db_ok (get_session i)" "keeps db_ok (list_session_events i a n)" "keeps db_ok (list_session_events_by_call_id i c n)"
  unfolding create_session_def attach_session_def rollback_session_def append_session_event_def get_session_def
    list_session_events_def list_session_events_by_call_id_def Let_def[of "new_session _ _ _ _"] Let_def[of "change_node _ _ _"]
  by (intro keeps_intros)+

text \<open>The operations on sessions refine the contract of the topics and nodes too.\<close>

lemma with_sessions_keeps [keeps_intros]: "keeps (evolves F) (with_sessions m)"
  by (rule keeps_file) (rule with_sessions_file)

lemma draw_id_keeps [keeps_intros]: "keeps (evolves F) draw_id"
  by (rule keeps_file) (rule draw_id_file)

lemma append_session_event_keeps: "keeps (evolves F) (append_session_event now ae)"
  unfolding append_session_event_def require_session_store_def by (intro keeps_intros)

lemma permits_with_session: "permits st (change_node k (with_session now i) st)"
  by (rule permits_change_node) (simp_all add: with_session_def node_links_def touch_node_def node_valid_def)

lemma attach_session_triple:
  "triple (staged F st) (attach_session now k n i st) (\<lambda>_. evolves F) (\<lambda>_. evolves F)"
proof -
  have rolled: "keeps (evolves F) (rollback_session i msg e :: unit vos_op)" for msg e
    unfolding rollback_session_def by (intro keeps_intros)
  have allowed: "permits st (change_topic j (touch_topic now) (change_node k (with_session now i) st))" for j
    by (rule permits_trans[OF permits_with_session permits_change_topic]) simp
  have saved: "triple (staged F st) (attempt (save_state (change_topic j (touch_topic now) (change_node k (with_session now i) st)))
      (\<lambda>r. case r of Inl e \<Rightarrow> rollback_session i msg e | Inr _ \<Rightarrow> return_ok ())) (\<lambda>_. evolves F) (\<lambda>_. evolves F)" for j msg
    by (rule triple_attempt[where M="\<lambda>_. evolves F"])
      (auto intro!: triple_conseq[OF save_permitted[OF allowed]] rolled triple_return_ok intro: staged_evolves split: sum.split)
  show ?thesis unfolding attach_session_def Let_def
    by (auto split: sum.split intro!: saved triple_conseq[OF rolled] dest: staged_evolves)
qed

lemma create_session_keeps: "keeps (evolves F) (create_session now inp)"
proof -
  have "triple (staged F st) (seq (of_result (require_node st k)) (\<lambda>n.
       seq (if b then draw_id else return_ok x) (\<lambda>i.
       if i \<in> set (nd_session n) then return_err (DuplicateEntityError ''session'' i)
       else let se = new_session now i k status in
         seq (with_sessions (insert_session se)) (\<lambda>_. seq (attach_session now k n i st) (\<lambda>_. return_ok se)))))
      (\<lambda>_. evolves F) (\<lambda>_. evolves F)" for st k b x status
  proof -
    have rest: "triple (staged F st) (seq (with_sessions (insert_session se)) (\<lambda>_. seq (attach_session now k n i st) (\<lambda>_. return_ok se)))
        (\<lambda>_. evolves F) (\<lambda>_. evolves F)" for se n i
      by (rule triple_seq[OF keeps_file(2)[OF with_sessions_file]], assumption)
        (intro triple_seq[OF attach_session_triple] triple_return_ok)
    show ?thesis unfolding Let_def
      by (intro triple_seq[OF keep_value] triple_seq[OF draw_or_keep] triple_if triple_return_err staged_evolves rest)
  qed
  then show ?thesis unfolding create_session_def require_session_store_def
    by (intro keeps_seq triple_if keeps_intros triple_seq[OF load_triple])
qed

end
