(* ===== verification/VosContext.thy ===== *)
theory VosContext
  imports VosSessions
begin

text \<open>
  The context snapshot of a node (internal/vos/service/context_service.go): the memories around it and the events of its
  sessions, which are read in pages. The database does not change while a snapshot reads it.
\<close>

section \<open>Reading all events of a session\<close>

definition context_events_page_size :: int where "context_events_page_size = 200"

text \<open>What \<open>ListEvents\<close> returns; it changes nothing.\<close>

definition events_page :: "session_db \<Rightarrow> string \<Rightarrow> int \<Rightarrow> vos_error + session_event list" where
  "events_page d i after_seq = fst (list_events i after_seq context_events_page_size d)"

lemma traverse_scan_Inr: "traverse scan_session_event rows = Inr batch \<Longrightarrow> batch = rows"
  by (induction rows arbitrary: batch) (auto simp: result_simps scan_session_event_def)

lemma events_page_Inr:
  assumes "events_page d i a = Inr batch"
  shows "batch = query_events (\<lambda>r. ev_session_id r = i \<and> ev_seq r > a) context_events_page_size d"
  using assms traverse_scan_Inr
  by (auto simp: events_page_def list_events_def seq_def get_session_row_def session_row_def return_ok_def
      split: option.splits sum.splits)

lemma events_page_last:
  assumes "events_page d i a = Inr batch" and "batch \<noteq> []"
  shows "last batch \<in> set (db_events d)" and "ev_session_id (last batch) = i" and "ev_seq (last batch) > a"
proof -
  have "last batch \<in> set batch" using assms(2) by simp
  then have "last batch \<in> set (sort_slice seq_before (filter (\<lambda>r. ev_session_id r = i \<and> ev_seq r > a) (db_events d)))"
    unfolding events_page_Inr[OF assms(1)] query_events_def by (rule in_set_takeD)
  then show "last batch \<in> set (db_events d)" "ev_session_id (last batch) = i" "ev_seq (last batch) > a" by auto
qed

function all_session_events :: "session_db \<Rightarrow> string \<Rightarrow> int \<Rightarrow> vos_error + session_event list" where
  "all_session_events d i after_seq = (case events_page d i after_seq of
       Inl e \<Rightarrow> Inl e
     | Inr batch \<Rightarrow>
         if batch = [] then Inr []
         else let last_seq = ev_seq (last batch) in
           if last_seq \<le> after_seq
             then Inl (OtherError (''session events are not strictly increasing: session='' @ i @ '' seq='' @ show_int last_seq))
           else if int (length batch) < context_events_page_size then Inr batch
           else and_then (all_session_events d i last_seq) (\<lambda>rest. Inr (batch @ rest)))"
  by pat_completeness auto

termination
proof (relation "measure (\<lambda>(d, i, a). length (filter (\<lambda>r. ev_session_id r = i \<and> ev_seq r > a) (db_events d)))", goal_cases)
  case (2 d i a batch n)
  let ?p = "\<lambda>r. ev_session_id r = i \<and> ev_seq r > a" and ?q = "\<lambda>r. ev_session_id r = i \<and> ev_seq r > ev_seq (last batch)"
  note page = events_page_last[OF 2(1,2)]
  have "filter ?q (db_events d) = filter ?q (filter ?p (db_events d))"
    unfolding filter_filter by (rule filter_cong) (use page(3) in auto)
  also have "length \<dots> < length (filter ?p (db_events d))"
    by (rule length_filter_less[of "last batch"]) (use page in auto)
  finally show ?case by (simp add: 2(3))
qed simp

declare all_session_events.simps [simp del]

definition list_all_session_events :: "string \<Rightarrow> session_event list db_op" where
  "list_all_session_events i d = (all_session_events d i 0, d)"

section \<open>The snapshot\<close>

record context_session_history =
  ch_session :: vos_session
  ch_events :: "session_event list"

record process_context =
  pc_name :: string
  pc_status :: string
  pc_summary :: "json_object option"
  pc_session_events :: "session_event list"

record context_snapshot =
  cx_node_id :: string
  cx_user_memory :: "json_object option"
  cx_topic_memory :: "json_object option"
  cx_node_memory :: "json_object option"
  cx_global_index :: json
  cx_session_history :: "context_session_history list"
  cx_process_contexts :: "process_context list"

definition read_metadata_object :: "json_object \<Rightarrow> string \<Rightarrow> json_object option" where
  "read_metadata_object m key = as_object (field_or_nil m key)"

definition resolve_user_memory :: "vfs_state \<Rightarrow> vos_topic \<Rightarrow> json_object option" where
  "resolve_user_memory st t = (case vf_user st of
       Some u \<Rightarrow> (case ur_user_memory u of Some m \<Rightarrow> Some m | None \<Rightarrow> read_metadata_object (tp_metadata t) ''user_memory'')
     | None \<Rightarrow> read_metadata_object (tp_metadata t) ''user_memory'')"

text \<open>The memory of the parent, if it has one, stands in for the node's own.\<close>

definition resolve_context_node_memory :: "vfs_state \<Rightarrow> vos_node \<Rightarrow> vos_error + json_object option" where
  "resolve_context_node_memory st n = (case nd_parent_id n of
       None \<Rightarrow> Inr (nd_memory n)
     | Some p \<Rightarrow> and_then (require_node st p) (\<lambda>parent.
         Inr (case nd_memory parent of Some m \<Rightarrow> Some m | None \<Rightarrow> nd_memory n)))"

text \<open>A loop that calls the database for each element and collects the results.\<close>

fun collect_all :: "('a \<Rightarrow> 'b db_op) \<Rightarrow> 'a list \<Rightarrow> 'b list db_op" where
  "collect_all f [] = return_ok []"
| "collect_all f (x # xs) = seq (f x) (\<lambda>y. seq (collect_all f xs) (\<lambda>ys. return_ok (y # ys)))"

definition session_history :: "string \<Rightarrow> context_session_history db_op" where
  "session_history i = seq (get_session_row i) (\<lambda>se. seq (list_all_session_events i) (\<lambda>es.
     return_ok \<lparr>ch_session = se, ch_events = es\<rparr>))"

text \<open>The events of the first session of a range, from its start to the first event beyond its end.\<close>

definition load_session_range_events :: "session_range \<Rightarrow> session_event list db_op" where
  "load_session_range_events sr = seq (list_all_session_events (rg_start_session_id sr)) (\<lambda>es. return_ok
     (filter (\<lambda>e. case rg_start_event_seq sr of None \<Rightarrow> True | Some a \<Rightarrow> a \<le> ev_seq e)
       (takeWhile (\<lambda>e. (case rg_start_event_seq sr of None \<Rightarrow> False | Some a \<Rightarrow> ev_seq e < a) \<or>
          (case rg_end_event_seq sr of None \<Rightarrow> True | Some b \<Rightarrow> ev_seq e \<le> b)) es)))"

definition build_process_context :: "process_item \<Rightarrow> process_context db_op" where
  "build_process_context p =
     (let pc = \<lparr>pc_name = pi_name p, pc_status = pi_status p, pc_summary = None, pc_session_events = []\<rparr> in
      case pi_summary p of
        Some m \<Rightarrow> return_ok (pc\<lparr>pc_summary := Some m\<rparr>)
      | None \<Rightarrow> (case pi_session_range p of
            None \<Rightarrow> return_ok pc
          | Some sr \<Rightarrow> if range_closed sr then return_ok pc
              else seq (load_session_range_events sr) (\<lambda>es. return_ok (pc\<lparr>pc_session_events := es\<rparr>))))"

definition get_context_snapshot :: "string \<Rightarrow> context_snapshot vos_op" where
  "get_context_snapshot i = seq require_session_store (\<lambda>_.
     if i = '''' then return_err (ValidationError ''node ID is required'')
     else seq load_state (\<lambda>st.
       seq (of_result (require_node st i)) (\<lambda>n.
       seq (of_result (require_topic st (nd_topic_id n))) (\<lambda>t.
       seq (of_result (resolve_context_node_memory st n)) (\<lambda>memory.
       seq (with_sessions (collect_all session_history (nd_session n))) (\<lambda>history.
       seq (with_sessions (collect_all build_process_context (resolve_node_processes st n))) (\<lambda>contexts.
       return_ok \<lparr>cx_node_id = nd_id n, cx_user_memory = resolve_user_memory st t,
         cx_topic_memory = read_metadata_object (tp_metadata t) ''topic_memory'', cx_node_memory = memory,
         cx_global_index = field_or_nil (tp_metadata t) ''global_index'', cx_session_history = history,
         cx_process_contexts = contexts\<rparr>)))))))"

section \<open>Paging loses nothing\<close>

interpretation events: sort_order seq_before ev_seq "\<lambda>_. True"
  by unfold_locales (auto simp: seq_before_def)

text \<open>The events of a session beyond a sequence number, in the order they were appended.\<close>

definition events_after :: "session_db \<Rightarrow> string \<Rightarrow> int \<Rightarrow> session_event list" where
  "events_after d i a = filter (\<lambda>r. ev_seq r > a) (events_of i d)"

lemma events_after_filter: "filter (\<lambda>r. ev_session_id r = i \<and> ev_seq r > a) (db_events d) = events_after d i a"
  by (simp add: events_after_def events_of_def conj_commute)

lemma seqs_sorted:
  assumes "map ev_seq xs = [1..n]"
  shows "sorted_wrt seq_before xs" and "distinct (map ev_seq xs)"
proof -
  have "sorted_wrt (<) (map ev_seq xs)" unfolding assms by (rule sorted_wrt_upto)
  then show "sorted_wrt seq_before xs" by (simp add: sorted_wrt_map seq_before_def[abs_def])
  show "distinct (map ev_seq xs)" unfolding assms by simp
qed

lemma events_after_sorted:
  assumes "map ev_seq (events_of i d) = [1..n]"
  shows "sort_slice seq_before (events_after d i a) = events_after d i a"
    and "sorted_wrt seq_before (events_after d i a)"
proof -
  have "sorted_wrt seq_before (events_after d i a)"
    unfolding events_after_def by (rule sorted_wrt_filter) (rule seqs_sorted[OF assms])
  moreover have "distinct (map ev_seq (events_after d i a))"
    unfolding events_after_def by (rule distinct_map_filter) (rule seqs_sorted[OF assms])
  ultimately show "sort_slice seq_before (events_after d i a) = events_after d i a"
    "sorted_wrt seq_before (events_after d i a)"
    by (auto intro: events.sort_eqI)
qed

lemma scan_all_ok:
  assumes "sessions_ok d" and "set rows \<subseteq> set (db_events d)"
  shows "traverse scan_session_event rows = Inr rows"
proof -
  have "scan_session_event r = Inr r" if "r \<in> set rows" for r
  proof -
    have "\<not> sql_blank (ev_item_type r)" using assms that by (auto simp: sessions_ok_def)
    then show ?thesis by (auto simp: scan_session_event_def parse_session_item_type_def sql_blank_def)
  qed
  then show ?thesis by (simp add: traverse_total[where g=id, simplified])
qed

lemma events_page_ok:
  assumes ok: "sessions_ok d" and se: "find_session i d = Some r"
  shows "events_page d i a = Inr (take 200 (events_after d i a))"
proof -
  have "session_row_ok d r" "se_id r = i" using ok find_session_Some[OF se] by (auto simp: sessions_ok_def)
  then have seqs: "map ev_seq (events_of i d) = [1..se_last_seq r]" by (simp add: session_row_ok_def)
  have page: "query_events (\<lambda>x. ev_session_id x = i \<and> ev_seq x > a) context_events_page_size d = take 200 (events_after d i a)"
    by (simp add: query_events_def events_after_filter events_after_sorted[OF seqs] context_events_page_size_def)
  have "set (take 200 (events_after d i a)) \<subseteq> set (db_events d)"
    by (auto simp: events_after_def events_of_def dest: in_set_takeD)
  then show ?thesis using se scan_all_ok[OF ok]
    by (simp add: events_page_def list_events_def get_session_row_def session_row_def return_ok_def page)
qed

lemma beyond_prefix:
  assumes "sorted_wrt seq_before xs" and "take n xs \<noteq> []"
  shows "filter (\<lambda>r. ev_seq r > ev_seq (last (take n xs))) xs = drop n xs"
proof -
  define ys where "ys = take n xs"
  have "butlast ys @ [last ys] = take n xs" using assms(2) unfolding ys_def by (rule append_butlast_last_id)
  then have xs: "xs = butlast ys @ [last ys] @ drop n xs" by (metis append_assoc append_take_drop_id)
  then have "sorted_wrt seq_before (butlast ys @ [last ys] @ drop n xs)" using assms(1) by simp
  then have "\<forall>r\<in>set (butlast ys). ev_seq r < ev_seq (last ys)" and "\<forall>r\<in>set (drop n xs). ev_seq (last ys) < ev_seq r"
    by (auto simp: sorted_wrt_append seq_before_def)
  then have "filter (\<lambda>r. ev_seq r > ev_seq (last ys)) (butlast ys @ [last ys] @ drop n xs) = drop n xs"
    by (auto simp: filter_empty_conv)
  then have "filter (\<lambda>r. ev_seq r > ev_seq (last ys)) xs = drop n xs" unfolding xs[symmetric] .
  then show ?thesis by (simp add: ys_def)
qed

lemma all_session_events_after:
  assumes ok: "sessions_ok d" and se: "find_session i d = Some r"
  shows "all_session_events d i a = Inr (events_after d i a)"
  using assms
proof (induction d i a rule: all_session_events.induct)
  case (1 d i a)
  note page = events_page_ok[OF 1(2,3), of a]
  let ?es = "events_after d i a"
  have "session_row_ok d r" "se_id r = i" using 1(2) find_session_Some[OF 1(3)] by (auto simp: sessions_ok_def)
  then have sorted: "sorted_wrt seq_before ?es" using events_after_sorted(2) by (auto simp: session_row_ok_def)
  show ?case
  proof (cases "?es = []")
    case True
    then show ?thesis using page by (simp add: all_session_events.simps[of d i a])
  next
    case False
    then have ne: "take 200 ?es \<noteq> []" by simp
    define last_seq where "last_seq = ev_seq (last (take 200 ?es))"
    have beyond: "last_seq > a" using events_page_last(3)[OF page ne] by (simp add: last_seq_def)
    show ?thesis
    proof (cases "length (take 200 ?es) < 200")
      case True
      then have "take 200 ?es = ?es" by simp
      then show ?thesis using page ne beyond True
        by (simp add: all_session_events.simps[of d i a] last_seq_def Let_def context_events_page_size_def)
    next
      case full: False
      have "events_after d i last_seq = filter (\<lambda>r. ev_seq r > last_seq) ?es"
        using beyond by (auto simp: events_after_def intro!: filter_cong)
      also have "\<dots> = drop 200 ?es" unfolding last_seq_def by (rule beyond_prefix[OF sorted ne])
      finally have rest: "events_after d i last_seq = drop 200 ?es" .
      have "all_session_events d i last_seq = Inr (events_after d i last_seq)"
        by (rule "1.IH"[OF page ne last_seq_def]) (use beyond full 1(2,3) in \<open>simp_all add: context_events_page_size_def\<close>)
      then show ?thesis using page ne beyond full rest append_take_drop_id[of 200 ?es]
        by (simp add: all_session_events.simps[of d i a] last_seq_def[symmetric] Let_def context_events_page_size_def)
    qed
  qed
qed

lemma all_session_events_complete:
  assumes "sessions_ok d" and "find_session i d = Some r"
  shows "all_session_events d i 0 = Inr (events_of i d)"
proof -
  have "session_row_ok d r" "se_id r = i" using assms(1) find_session_Some[OF assms(2)] by (auto simp: sessions_ok_def)
  then have "map ev_seq (events_of i d) = [1..se_last_seq r]" by (simp add: session_row_ok_def)
  then have "set (map ev_seq (events_of i d)) = {1..se_last_seq r}" by simp
  then have "ev_seq e \<in> {1..se_last_seq r}" if "e \<in> set (events_of i d)" for e using that by (metis image_eqI set_map)
  then have "\<forall>e\<in>set (events_of i d). 0 < ev_seq e" by fastforce
  then have "events_after d i 0 = events_of i d" by (simp add: events_after_def)
  then show ?thesis using all_session_events_after[OF assms] by simp
qed

end
