(* ===== verification/VosDecompose.thy ===== *)
theory VosDecompose
  imports VosContext
begin

text \<open>
  Decomposing a node into child tasks (internal/vos/service/decompose_service.go).

  The runner is the agent command that proposes the tasks. It is a process of its own that may use VOS meanwhile, so it is
  any operation; an error of it is known by its text. The request carries the snapshot itself, not its JSON.
\<close>

section \<open>Requests and responses\<close>

record decompose_agent_request =
  dq_request_id :: string
  dq_topic_id :: string
  dq_node_id :: string
  dq_node_name :: string
  dq_mode :: string
  dq_hint :: string
  dq_max_items :: int
  dq_session_id :: string
  dq_context_snapshot :: context_snapshot

record decompose_agent_task =
  dt_title :: string
  dt_description :: string
  dt_status :: string

record decompose_agent_response =
  da_request_id :: string
  da_topic_id :: string
  da_node_id :: string
  da_status :: string
  da_output :: string
  da_error :: string
  da_duration_ms :: int
  da_tasks :: "decompose_agent_task list"

record node_decompose_input =
  di_node_id :: string
  di_hint :: string
  di_max_items :: int

record node_decompose_result =
  dz_request_id :: string
  dz_topic_id :: string
  dz_node_id :: string
  dz_status :: string
  dz_output :: string
  dz_error :: string
  dz_duration_ms :: int
  dz_tasks :: "decompose_agent_task list"
  dz_created_nodes :: "vos_node list"

type_synonym decompose_runner = "decompose_agent_request \<Rightarrow> (vos, string, decompose_agent_response option) op"

definition decompose_hint_policy :: string where
  "decompose_hint_policy = ''Decompose by business/domain outcomes first; do not split by technical stack. Keep one-level direct child tasks only.''"

definition build_decompose_hint :: "string \<Rightarrow> string" where
  "build_decompose_hint user_hint = (if trim_space user_hint = '''' then decompose_hint_policy
     else decompose_hint_policy @ '' User hint: '' @ trim_space user_hint)"

definition default_to :: "string \<Rightarrow> string \<Rightarrow> string" where
  "default_to raw d = (if trim_space raw = '''' then d else trim_space raw)"

section \<open>DecomposeNode\<close>

definition decompose_request :: "string \<Rightarrow> vos_node \<Rightarrow> string \<Rightarrow> int \<Rightarrow> context_snapshot \<Rightarrow> decompose_agent_request" where
  "decompose_request i n hint max_items snapshot = \<lparr>dq_request_id = ''req-vos-decompose-'' @ i,
     dq_topic_id = nd_topic_id n, dq_node_id = nd_id n, dq_node_name = nd_name n, dq_mode = ''decompose'',
     dq_hint = build_decompose_hint hint, dq_max_items = max_items,
     dq_session_id = (if nd_session n = [] then '''' else last (nd_session n)), dq_context_snapshot = snapshot\<rparr>"

text \<open>The child that the task with the given number, counted from 0, asks for.\<close>

definition task_node_input :: "vos_node \<Rightarrow> nat \<Rightarrow> decompose_agent_task \<Rightarrow> create_node_input" where
  "task_node_input n k task = \<lparr>cn_topic_id = nd_topic_id n,
     cn_name = default_to (dt_title task) (''Decompose Task '' @ show_nat (k + 1)),
     cn_parent_id = Some (nd_id n), cn_node_id = '''',
     cn_description = (if trim_space (dt_description task) = '''' then None else Some (trim_space (dt_description task))),
     cn_status = status_ready, cn_memory = None, cn_input = [], cn_output = []\<rparr>"

fun create_task_nodes :: "time \<Rightarrow> vos_node \<Rightarrow> nat \<Rightarrow> decompose_agent_task list \<Rightarrow> vos_node list vos_op" where
  "create_task_nodes now n k [] = return_ok []"
| "create_task_nodes now n k (task # tasks) = seq (create_node now (task_node_input n k task)) (\<lambda>created.
     seq (create_task_nodes now n (k + 1) tasks) (\<lambda>rest. return_ok (created # rest)))"

definition check_agent_response :: "decompose_agent_response option \<Rightarrow> vos_error + decompose_agent_response" where
  "check_agent_response v = (case v of
       None \<Rightarrow> Inl (ValidationError ''decompose agent returned empty response'')
     | Some a \<Rightarrow>
         if trim_space (da_status a) \<noteq> ''succeeded''
           then Inl (ValidationError (default_to (da_error a) ''decompose agent returned failed status''))
         else if da_tasks a = [] then Inl (ValidationError ''decompose agent returned empty tasks'')
         else Inr a)"

definition decompose_result ::
  "decompose_agent_request \<Rightarrow> vos_node \<Rightarrow> decompose_agent_response \<Rightarrow> vos_node list \<Rightarrow> node_decompose_result" where
  "decompose_result q n a created = \<lparr>dz_request_id = default_to (da_request_id a) (dq_request_id q),
     dz_topic_id = default_to (da_topic_id a) (nd_topic_id n), dz_node_id = default_to (da_node_id a) (nd_id n),
     dz_status = da_status a, dz_output = da_output a, dz_error = da_error a, dz_duration_ms = da_duration_ms a,
     dz_tasks = da_tasks a, dz_created_nodes = created\<rparr>"

definition decompose_node :: "time \<Rightarrow> decompose_runner \<Rightarrow> node_decompose_input \<Rightarrow> node_decompose_result vos_op" where
  "decompose_node now runner inp =
     (let i = trim_space (di_node_id inp) in
      if i = '''' then return_err (ValidationError ''node ID is required'')
      else if di_max_items inp \<le> 0 then return_err (ValidationError ''max-items must be > 0'')
      else
        seq (vos_get_node i) (\<lambda>n.
        seq (get_context_snapshot (nd_id n)) (\<lambda>snapshot.
        seq draw_id (\<lambda>rid. let q = decompose_request rid n (di_hint inp) (di_max_items inp) snapshot in
        seq (map_err ValidationError (runner q)) (\<lambda>answer.
        seq (of_result (check_agent_response answer)) (\<lambda>a.
        seq (create_task_nodes now n 0 (da_tasks a)) (\<lambda>created.
        return_ok (decompose_result q n a created))))))))"

section \<open>It keeps both stores\<close>

lemma snapshot_keeps [keeps_intros]: "keeps (evolves F) (get_context_snapshot i)"
proof -
  have "triple (evolves F) load_state (\<lambda>_. evolves F) (\<lambda>_. evolves F)"
    by (rule triple_conseq[OF load_triple]) (auto dest: staged_evolves)
  then show ?thesis
    unfolding get_context_snapshot_def require_session_store_def by (intro keeps_intros)
qed

lemma get_node_keeps [keeps_intros]: "keeps (evolves F) (vos_get_node i)"
  unfolding vos_get_node_def by (rule read_keeps)

lemma create_task_nodes_keep [keeps_intros]:
  "keeps (evolves F) (create_task_nodes now n k tasks)" "keeps db_ok (create_task_nodes now n k tasks)"
  by (induction tasks arbitrary: k) (auto intro!: keeps_intros create_node_keeps)

lemma decompose_keeps:
  assumes "\<And>q. keeps (evolves F) (runner q)"
  shows "keeps (evolves F) (decompose_node now runner inp)"
  unfolding decompose_node_def by (intro keeps_intros assms)

lemma collect_all_db_ok:
  assumes "\<And>x d r d'. f x d = (r, d') \<Longrightarrow> d' = d"
  shows "collect_all f xs d = (r, d') \<Longrightarrow> d' = d"
proof (induction xs arbitrary: r d')
  case (Cons x xs)
  from Cons.prems show ?case
    by (auto simp: return_ok_def elim!: seq_cases dest!: assms Cons.IH)
qed (simp add: return_ok_def)

lemma session_history_db: "session_history i d = (r, d') \<Longrightarrow> d' = d"
  by (auto simp: session_history_def list_all_session_events_def return_ok_def elim!: seq_cases dest: session_queries_ok)

lemma process_context_db: "build_process_context p d = (r, d') \<Longrightarrow> d' = d"
  by (auto simp: build_process_context_def load_session_range_events_def list_all_session_events_def return_ok_def Let_def
      elim!: seq_cases split: option.splits if_splits)

lemma snapshot_keeps_db [keeps_intros]: "keeps db_ok (get_context_snapshot i)"
proof -
  have same: "keeps db_ok (with_sessions (collect_all f xs))" if "\<And>x d r d'. f x d = (r, d') \<Longrightarrow> d' = d"
    for f :: "'a \<Rightarrow> 'b db_op" and xs
  proof (rule with_sessions_keeps_db)
    fix d r d' assume "sessions_ok d" and "collect_all f xs d = (r, d')"
    moreover from this(2) have "d' = d" by (rule collect_all_db_ok[rotated]) (rule that)
    ultimately show "sessions_ok d'" by simp
  qed
  have "keeps db_ok (with_sessions (collect_all session_history xs))" for xs
    by (rule same) (rule session_history_db)
  moreover have "keeps db_ok (with_sessions (collect_all build_process_context ps))" for ps
    by (rule same) (rule process_context_db)
  ultimately show ?thesis unfolding get_context_snapshot_def by (intro keeps_intros)
qed

lemma decompose_keeps_db:
  assumes "\<And>q. keeps db_ok (runner q)"
  shows "keeps db_ok (decompose_node now runner inp)"
  unfolding decompose_node_def vos_get_node_def read_state_def by (intro keeps_intros assms)

end
