(* ===== verification/VosPermission.thy ===== *)
theory VosPermission
  imports VosSessions GoTime
begin

text \<open>
  Tool permissions and policy audits of a topic, and skill permissions of the user
  (internal/vos/service/permission_service.go). They are kept as JSON in the metadata of the topic and in the permission
  object of the user; every operation decodes what it finds, dropping rows it cannot use, and writes everything back.

  \<open>strings.ToLower\<close> is modelled on ASCII. A number written to the file is read back as a \<open>float64\<close>.
\<close>

section \<open>Data\<close>

record topic_tool_permission =
  ta_id :: string
  ta_tool_name :: string
  ta_dir_prefix :: string
  ta_read_path_prefixes :: "string list"
  ta_write_path_prefixes :: "string list"
  ta_allow_network :: bool
  ta_allow_shell_features :: bool
  ta_risk_level :: string
  ta_created_by :: string
  ta_created_at :: time
  ta_last_used_at :: time
  ta_enabled :: bool

record topic_tool_permission_input =
  ti_tool_name :: string
  ti_dir_prefix :: string
  ti_read_path_prefixes :: "string list"
  ti_write_path_prefixes :: "string list"
  ti_allow_network :: bool
  ti_allow_shell_features :: bool
  ti_risk_level :: string
  ti_created_by :: string
  ti_enabled :: "bool option"

record policy_audit_entry =
  pa_event_id :: string
  pa_topic_id :: string
  pa_node_id :: string
  pa_tool_name :: string
  pa_decision :: string
  pa_risk_tags :: "string list"
  pa_requested_capabilities :: json_object
  pa_matched_rule_id :: string
  pa_reason :: string
  pa_request_id :: string
  pa_duration_ms :: int
  pa_created_at :: time

record policy_audit_summary_item =
  ps_topic_id :: string
  ps_tool_name :: string
  ps_risk_tag :: string
  ps_decision :: string
  ps_time_bucket :: string
  ps_count :: int
  ps_last_seen_at :: time

record user_skill_permission =
  us_skill_name :: string
  us_skill_path :: string
  us_skill_mtime :: string
  us_allowed_roots :: "string list"

definition topic_permission_metadata_key :: string where "topic_permission_metadata_key = ''permission''"

definition topic_tool_allows_key :: string where "topic_tool_allows_key = ''tool_allows''"

definition topic_policy_audits_key :: string where "topic_policy_audits_key = ''policy_audits''"

definition topic_policy_audit_summary_key :: string where "topic_policy_audit_summary_key = ''policy_audit_summary''"

definition user_skill_allows_key :: string where "user_skill_allows_key = ''skill_allows''"

section \<open>Normal forms of text\<close>

text \<open>The replacement of \<open>//\<close> by \<open>/\<close>, from left to right, and its repetition until there is none.\<close>

fun replace_double :: "string \<Rightarrow> string" where
  "replace_double (a # b # s) =
     (if a = CHR ''/'' \<and> b = CHR ''/'' then CHR ''/'' # replace_double s else a # replace_double (b # s))"
| "replace_double s = s"

fun has_double :: "string \<Rightarrow> bool" where
  "has_double (a # b # s) = ((a = CHR ''/'' \<and> b = CHR ''/'') \<or> has_double (b # s))"
| "has_double s = False"

lemma length_replace_double: "length (replace_double s) \<le> length s"
  by (induction s rule: replace_double.induct) auto

lemma replace_double_shorter: "has_double s \<Longrightarrow> length (replace_double s) < length s"
  using length_replace_double by (induction s rule: replace_double.induct) (auto simp: le_imp_less_Suc)

function collapse_slashes :: "string \<Rightarrow> string" where
  "collapse_slashes s = (if has_double s then collapse_slashes (replace_double s) else s)"
  by pat_completeness auto
termination by (relation "measure length") (auto intro: replace_double_shorter)

declare collapse_slashes.simps [simp del]

definition trim_slash :: "string \<Rightarrow> string" where
  "trim_slash s = (if 1 < length s \<and> last s = CHR ''/'' then butlast s else s)"

definition normalize_dir_prefix :: "string \<Rightarrow> string" where
  "normalize_dir_prefix raw =
     (let s = trim_space raw in
      if s = '''' then ''''
      else trim_slash (collapse_slashes (map (\<lambda>c. if c = CHR 0x5C then CHR ''/'' else c) s)))"

fun normalize_unseen :: "string list \<Rightarrow> string list \<Rightarrow> string list" where
  "normalize_unseen seen [] = []"
| "normalize_unseen seen (v # vs) =
     (let n = normalize_dir_prefix v in
      if n = '''' \<or> n \<in> set seen then normalize_unseen seen vs else n # normalize_unseen (n # seen) vs)"

definition normalize_prefixes :: "string list \<Rightarrow> string list" where
  "normalize_prefixes values = normalize_unseen [] values"

definition normalize_roots :: "string list \<Rightarrow> string list" where
  "normalize_roots values = normalize_unseen [] values"

definition normalize_risk_level :: "string \<Rightarrow> string" where
  "normalize_risk_level raw =
     (let s = to_lower (trim_space raw) in if s \<in> {''low'', ''medium'', ''high''} then s else ''medium'')"

section \<open>Reading and writing JSON values\<close>

text \<open>\<open>v, _ := x.(string)\<close> and \<open>x.(bool)\<close>: the zero value when the type is another one.\<close>

definition string_or_zero :: "json \<Rightarrow> string" where
  "string_or_zero v = (case as_string v of Some t \<Rightarrow> t | None \<Rightarrow> '''')"

definition read_string :: "json \<Rightarrow> string" where
  "read_string v = trim_space (string_or_zero v)"

definition read_bool :: "json \<Rightarrow> bool" where
  "read_bool v = (case as_bool v of Some b \<Rightarrow> b | None \<Rightarrow> False)"

definition read_string_array :: "json \<Rightarrow> string list" where
  "read_string_array v = (case as_array v of
       None \<Rightarrow> []
     | Some xs \<Rightarrow> filter (\<lambda>t. t \<noteq> '''') (map read_string xs))"

text \<open>
  The conversion of a \<open>float64\<close> to \<open>int\<close> drops the fraction; a value that does not fit gives the least integer, as on
  amd64. An integer written to the file is read back rounded to 53 bits, ties to even.
\<close>

definition int_of_float :: "rat \<Rightarrow> int" where
  "int_of_float x = (let k = (if x < 0 then - \<lfloor>- x\<rfloor> else \<lfloor>x\<rfloor>) in
     if - (2 ^ 63) \<le> k \<and> k < 2 ^ 63 then k else - (2 ^ 63))"

definition read_int :: "json \<Rightarrow> int" where
  "read_int v = (case v of JNum x \<Rightarrow> int_of_float x | _ \<Rightarrow> 0)"

fun round_mantissa :: "nat \<Rightarrow> int \<Rightarrow> int" where
  "round_mantissa 0 n = n"
| "round_mantissa (Suc e) n = (if n < 2 ^ 53 * 2 ^ e then round_mantissa e n
     else let q = n div 2 ^ Suc e; r = n mod 2 ^ Suc e in
       (if r < 2 ^ e \<or> r = 2 ^ e \<and> even q then q else q + 1) * 2 ^ Suc e)"

definition float_of_int :: "int \<Rightarrow> rat" where
  "float_of_int n = of_int (if n < 0 then - round_mantissa 11 (- n) else round_mantissa 11 n)"

definition read_map :: "json \<Rightarrow> json_object" where
  "read_map v = (case as_object v of Some m \<Rightarrow> m | None \<Rightarrow> [])"

definition parse_time :: "json \<Rightarrow> time option" where
  "parse_time v = (if read_string v = '''' then None else parse_rfc3339_nano (read_string v))"

text \<open>\<open>createdAt, _ := parseTime(...)\<close>: the zero time when there is none.\<close>

definition time_or_zero :: "time option \<Rightarrow> time" where
  "time_or_zero v = (case v of Some t \<Rightarrow> t | None \<Rightarrow> 0)"

definition encode_time :: "time \<Rightarrow> string" where
  "encode_time t = (if t = 0 then '''' else format_rfc3339_nano t)"

definition read_permission_map :: "json_object \<Rightarrow> json_object" where
  "read_permission_map metadata = read_map (field_or_nil metadata topic_permission_metadata_key)"

section \<open>Tool permissions\<close>

text \<open>The time columns of a permission row: an unreadable one is the zero time.\<close>

definition decode_time :: "json \<Rightarrow> time" where
  "decode_time v = (if read_string v = '''' then 0 else time_or_zero (parse_rfc3339_nano (string_or_zero v)))"

definition prefixes_or :: "string \<Rightarrow> string list \<Rightarrow> string list" where
  "prefixes_or dir ps = (if ps = [] \<and> dir \<noteq> '''' then [dir] else ps)"

definition decode_allow :: "string \<Rightarrow> json_object \<Rightarrow> topic_tool_permission option" where
  "decode_allow new_id row =
     (let dir = normalize_dir_prefix (string_or_zero (field_or_nil row ''dir_prefix''));
          rps = prefixes_or dir (normalize_prefixes (read_string_array (field_or_nil row ''read_path_prefixes'')));
          wps = prefixes_or dir (normalize_prefixes (read_string_array (field_or_nil row ''write_path_prefixes'')));
          i = string_or_zero (field_or_nil row ''id'') in
      if read_string (field_or_nil row ''tool_name'') = '''' \<or> (rps = [] \<and> wps = []) then None
      else Some \<lparr>ta_id = (if i = '''' then new_id else i),
        ta_tool_name = read_string (field_or_nil row ''tool_name''),
        ta_dir_prefix = dir, ta_read_path_prefixes = rps, ta_write_path_prefixes = wps,
        ta_allow_network = read_bool (field_or_nil row ''allow_network''),
        ta_allow_shell_features = read_bool (field_or_nil row ''allow_shell_features''),
        ta_risk_level = normalize_risk_level (string_or_zero (field_or_nil row ''risk_level'')),
        ta_created_by = read_string (field_or_nil row ''created_by''),
        ta_created_at = decode_time (field_or_nil row ''created_at''),
        ta_last_used_at = decode_time (field_or_nil row ''last_used_at''),
        ta_enabled = (if has_field row ''enabled'' then read_bool (field_or_nil row ''enabled'') else True)\<rparr>)"

text \<open>A row without an identifier draws a new one each time it is decoded.\<close>

fun decode_allows :: "(nat \<Rightarrow> string) \<Rightarrow> nat \<Rightarrow> json list \<Rightarrow> topic_tool_permission list \<times> nat" where
  "decode_allows ids n [] = ([], n)"
| "decode_allows ids n (v # vs) = (case Option.bind (as_object v) (\<lambda>row. map_option (\<lambda>p. (row, p)) (decode_allow (ids n) row)) of
       None \<Rightarrow> decode_allows ids n vs
     | Some (row, p) \<Rightarrow>
         (case decode_allows ids (if string_or_zero (field_or_nil row ''id'') = '''' then n + 1 else n) vs of
            (ps, m) \<Rightarrow> (p # ps, m)))"

definition stored_allows :: "json_object \<Rightarrow> json list" where
  "stored_allows metadata = (case as_object (field_or_nil metadata topic_permission_metadata_key) of
       None \<Rightarrow> []
     | Some permission \<Rightarrow> (case as_array (field_or_nil permission topic_tool_allows_key) of None \<Rightarrow> [] | Some items \<Rightarrow> items))"

definition decode_topic_tool_allows :: "json_object \<Rightarrow> topic_tool_permission list vos_op" where
  "decode_topic_tool_allows metadata s =
     (case decode_allows (vo_ids s) (vo_drawn s) (stored_allows metadata) of (ps, n) \<Rightarrow> (Inr ps, s\<lparr>vo_drawn := n\<rparr>))"

definition encode_allow :: "topic_tool_permission \<Rightarrow> json" where
  "encode_allow p = JObj
     [(''id'', JStr (trim_space (ta_id p))),
      (''tool_name'', JStr (trim_space (ta_tool_name p))),
      (''dir_prefix'', JStr (normalize_dir_prefix (ta_dir_prefix p))),
      (''read_path_prefixes'', json_strings (normalize_prefixes (ta_read_path_prefixes p))),
      (''write_path_prefixes'', json_strings (normalize_prefixes (ta_write_path_prefixes p))),
      (''allow_network'', JBool (ta_allow_network p)),
      (''allow_shell_features'', JBool (ta_allow_shell_features p)),
      (''risk_level'', JStr (normalize_risk_level (ta_risk_level p))),
      (''created_by'', JStr (trim_space (ta_created_by p))),
      (''created_at'', JStr (encode_time (ta_created_at p))),
      (''last_used_at'', JStr (encode_time (ta_last_used_at p))),
      (''enabled'', JBool (ta_enabled p))]"

definition encode_topic_tool_allows :: "topic_tool_permission list \<Rightarrow> json" where
  "encode_topic_tool_allows ps = JArr (map encode_allow ps)"

definition with_default_array :: "string \<Rightarrow> json_object \<Rightarrow> json_object" where
  "with_default_array k m = (if has_field m k then m else put k (JArr []) m)"

definition ensure_topic_permission_metadata :: "json_object \<Rightarrow> json_object" where
  "ensure_topic_permission_metadata metadata =
     put topic_permission_metadata_key
       (JObj (case as_object (field_or_nil metadata topic_permission_metadata_key) of
           None \<Rightarrow> [(topic_tool_allows_key, JArr [])]
         | Some m \<Rightarrow> with_default_array topic_policy_audit_summary_key
             (with_default_array topic_policy_audits_key (with_default_array topic_tool_allows_key m)))) metadata"

text \<open>\<open>metadata["permission"].(map[string]any)[k] = v\<close>, after the map has been ensured.\<close>

definition put_permission :: "string \<Rightarrow> json \<Rightarrow> json_object \<Rightarrow> json_object" where
  "put_permission k v metadata =
     put topic_permission_metadata_key (JObj (put k v (read_permission_map metadata))) metadata"

definition with_metadata :: "(json_object \<Rightarrow> json_object) \<Rightarrow> vos_topic \<Rightarrow> vos_topic" where
  "with_metadata f t = t\<lparr>tp_metadata := f (tp_metadata t)\<rparr>"

definition store_allows :: "time \<Rightarrow> topic_tool_permission list \<Rightarrow> vos_topic \<Rightarrow> vos_topic" where
  "store_allows now ps t = touch_topic now (with_metadata
     (\<lambda>m. put_permission topic_tool_allows_key (encode_topic_tool_allows ps) (ensure_topic_permission_metadata m)) t)"

definition list_topic_tool_permissions :: "string \<Rightarrow> topic_tool_permission list vos_op" where
  "list_topic_tool_permissions topic_id =
     (if trim_space topic_id = '''' then return_err (ValidationError ''topic ID is required'')
      else seq load_state (\<lambda>st. seq (of_result (require_topic st (trim_space topic_id))) (\<lambda>t.
        decode_topic_tool_allows (tp_metadata t))))"

definition same_permission ::
  "string \<Rightarrow> string list \<Rightarrow> string list \<Rightarrow> string \<Rightarrow> topic_tool_permission_input \<Rightarrow> topic_tool_permission \<Rightarrow> bool" where
  "same_permission name rps wps risk inp p \<longleftrightarrow> ta_tool_name p = name \<and>
     join ''|'' (ta_read_path_prefixes p) = join ''|'' rps \<and> join ''|'' (ta_write_path_prefixes p) = join ''|'' wps \<and>
     ta_allow_network p = ti_allow_network inp \<and> ta_allow_shell_features p = ti_allow_shell_features inp \<and>
     ta_risk_level p = risk"

definition new_permission ::
  "time \<Rightarrow> string \<Rightarrow> string \<Rightarrow> string list \<Rightarrow> string list \<Rightarrow> string \<Rightarrow> topic_tool_permission_input \<Rightarrow> string \<Rightarrow> topic_tool_permission" where
  "new_permission now name dir rps wps risk inp i =
     \<lparr>ta_id = i, ta_tool_name = name, ta_dir_prefix = dir, ta_read_path_prefixes = rps, ta_write_path_prefixes = wps,
      ta_allow_network = ti_allow_network inp, ta_allow_shell_features = ti_allow_shell_features inp,
      ta_risk_level = risk, ta_created_by = trim_space (ti_created_by inp), ta_created_at = now, ta_last_used_at = 0,
      ta_enabled = (case ti_enabled inp of None \<Rightarrow> True | Some b \<Rightarrow> b)\<rparr>"

definition add_topic_tool_permission_v2 ::
  "time \<Rightarrow> string \<Rightarrow> topic_tool_permission_input \<Rightarrow> topic_tool_permission vos_op" where
  "add_topic_tool_permission_v2 now topic_id inp =
     (let tid = trim_space topic_id; name = trim_space (ti_tool_name inp);
          dir = normalize_dir_prefix (ti_dir_prefix inp);
          rps = prefixes_or dir (normalize_prefixes (ti_read_path_prefixes inp));
          wps = prefixes_or dir (normalize_prefixes (ti_write_path_prefixes inp));
          risk = normalize_risk_level (ti_risk_level inp) in
      if tid = '''' then return_err (ValidationError ''topic ID is required'')
      else if name = '''' then return_err (ValidationError ''tool_name is required'')
      else if rps = [] \<and> wps = [] then
        return_err (ValidationError ''read_path_prefixes/write_path_prefixes/dir_prefix is required'')
      else seq load_state (\<lambda>st. seq (of_result (require_topic st tid)) (\<lambda>t.
        seq (decode_topic_tool_allows (tp_metadata t)) (\<lambda>allows.
        case List.find (same_permission name rps wps risk inp) allows of
          Some p \<Rightarrow> return_ok p
        | None \<Rightarrow> seq draw_id (\<lambda>i.
            let p = new_permission now name dir rps wps risk inp i in
            seq (save_state (change_topic tid (store_allows now (allows @ [p])) st)) (\<lambda>_. return_ok p))))))"

definition delete_topic_tool_permission :: "time \<Rightarrow> string \<Rightarrow> string \<Rightarrow> bool vos_op" where
  "delete_topic_tool_permission now topic_id permission_id =
     (let tid = trim_space topic_id; pid = trim_space permission_id in
      if tid = '''' then return_err (ValidationError ''topic ID is required'')
      else if pid = '''' then return_err (ValidationError ''id is required'')
      else seq load_state (\<lambda>st. seq (of_result (require_topic st tid)) (\<lambda>t.
        seq (decode_topic_tool_allows (tp_metadata t)) (\<lambda>allows.
        if \<not> list_ex (\<lambda>p. ta_id p = pid) allows then return_ok False
        else seq (save_state (change_topic tid (store_allows now (filter (\<lambda>p. ta_id p \<noteq> pid) allows)) st))
          (\<lambda>_. return_ok True)))))"

section \<open>Policy audits\<close>

definition decode_policy_audit :: "json_object \<Rightarrow> policy_audit_entry option" where
  "decode_policy_audit row =
     (let e = \<lparr>pa_event_id = read_string (field_or_nil row ''event_id''),
        pa_topic_id = read_string (field_or_nil row ''topic_id''),
        pa_node_id = read_string (field_or_nil row ''node_id''),
        pa_tool_name = read_string (field_or_nil row ''tool_name''),
        pa_decision = to_lower (read_string (field_or_nil row ''decision'')),
        pa_risk_tags = read_string_array (field_or_nil row ''risk_tags''),
        pa_requested_capabilities = read_map (field_or_nil row ''requested_capabilities''),
        pa_matched_rule_id = read_string (field_or_nil row ''matched_rule_id''),
        pa_reason = read_string (field_or_nil row ''reason''),
        pa_request_id = read_string (field_or_nil row ''request_id''),
        pa_duration_ms = read_int (field_or_nil row ''duration_ms''),
        pa_created_at = time_or_zero (parse_time (field_or_nil row ''created_at''))\<rparr> in
      if pa_event_id e = '''' \<or> pa_decision e = '''' then None else Some e)"

definition rows_of :: "string \<Rightarrow> json_object \<Rightarrow> json_object list" where
  "rows_of k metadata = (case as_array (field_or_nil (read_permission_map metadata) k) of
       None \<Rightarrow> []
     | Some items \<Rightarrow> List.map_filter as_object items)"

definition decode_policy_audits :: "json_object \<Rightarrow> policy_audit_entry list" where
  "decode_policy_audits metadata = List.map_filter decode_policy_audit (rows_of topic_policy_audits_key metadata)"

definition encode_policy_audit :: "policy_audit_entry \<Rightarrow> json" where
  "encode_policy_audit e = JObj
     [(''event_id'', JStr (trim_space (pa_event_id e))),
      (''topic_id'', JStr (trim_space (pa_topic_id e))),
      (''node_id'', JStr (trim_space (pa_node_id e))),
      (''tool_name'', JStr (trim_space (pa_tool_name e))),
      (''decision'', JStr (to_lower (trim_space (pa_decision e)))),
      (''risk_tags'', json_strings (pa_risk_tags e)),
      (''requested_capabilities'', JObj (pa_requested_capabilities e)),
      (''matched_rule_id'', JStr (trim_space (pa_matched_rule_id e))),
      (''reason'', JStr (trim_space (pa_reason e))),
      (''request_id'', JStr (trim_space (pa_request_id e))),
      (''duration_ms'', JNum (float_of_int (pa_duration_ms e))),
      (''created_at'', JStr (encode_time (pa_created_at e)))]"

definition encode_policy_audits :: "policy_audit_entry list \<Rightarrow> json" where
  "encode_policy_audits es = JArr (map encode_policy_audit es)"

definition decode_policy_audit_summary_item :: "json_object \<Rightarrow> policy_audit_summary_item" where
  "decode_policy_audit_summary_item row =
     \<lparr>ps_topic_id = read_string (field_or_nil row ''topic_id''),
      ps_tool_name = read_string (field_or_nil row ''tool_name''),
      ps_risk_tag = read_string (field_or_nil row ''risk_tag''),
      ps_decision = read_string (field_or_nil row ''decision''),
      ps_time_bucket = read_string (field_or_nil row ''time_bucket''),
      ps_count = read_int (field_or_nil row ''count''),
      ps_last_seen_at = time_or_zero (parse_time (field_or_nil row ''last_seen_at''))\<rparr>"

definition decode_policy_audit_summary :: "json_object \<Rightarrow> policy_audit_summary_item list" where
  "decode_policy_audit_summary metadata =
     map decode_policy_audit_summary_item (rows_of topic_policy_audit_summary_key metadata)"

definition encode_policy_audit_summary_item :: "policy_audit_summary_item \<Rightarrow> json" where
  "encode_policy_audit_summary_item i = JObj
     [(''topic_id'', JStr (trim_space (ps_topic_id i))),
      (''tool_name'', JStr (trim_space (ps_tool_name i))),
      (''risk_tag'', JStr (trim_space (ps_risk_tag i))),
      (''decision'', JStr (trim_space (ps_decision i))),
      (''time_bucket'', JStr (trim_space (ps_time_bucket i))),
      (''count'', JNum (float_of_int (ps_count i))),
      (''last_seen_at'', JStr (encode_time (ps_last_seen_at i)))]"

definition encode_policy_audit_summary :: "policy_audit_summary_item list \<Rightarrow> json" where
  "encode_policy_audit_summary xs = JArr (map encode_policy_audit_summary_item xs)"

text \<open>The layout \<open>2006-01-02T15:00:00Z\<close>, in which only the date and the hour are fields.\<close>

definition format_hour_bucket :: "time \<Rightarrow> string" where
  "format_hour_bucket t =
     (let secs = t div 1000000000; s = secs mod 86400 in
      case civil_date (secs div 86400) of (y, m, d) \<Rightarrow>
        pad_int 4 y @ ''-'' @ pad_int 2 m @ ''-'' @ pad_int 2 d @ ''T'' @ pad_int 2 (s div 3600) @ '':00:00Z'')"

definition in_summary_row :: "policy_audit_entry \<Rightarrow> string \<Rightarrow> policy_audit_summary_item \<Rightarrow> bool" where
  "in_summary_row e tag i \<longleftrightarrow> ps_topic_id i = pa_topic_id e \<and> ps_tool_name i = pa_tool_name e \<and> ps_risk_tag i = tag \<and>
     ps_decision i = pa_decision e \<and> ps_time_bucket i = format_hour_bucket (pa_created_at e)"

text \<open>The inner loop: the first row of the tag is counted up, or a new row is appended.\<close>

fun count_tag :: "policy_audit_entry \<Rightarrow> string \<Rightarrow> policy_audit_summary_item list \<Rightarrow> policy_audit_summary_item list" where
  "count_tag e tag [] =
     [\<lparr>ps_topic_id = pa_topic_id e, ps_tool_name = pa_tool_name e, ps_risk_tag = tag, ps_decision = pa_decision e,
       ps_time_bucket = format_hour_bucket (pa_created_at e), ps_count = 1, ps_last_seen_at = pa_created_at e\<rparr>]"
| "count_tag e tag (i # is) =
     (if in_summary_row e tag i then i\<lparr>ps_count := ps_count i + 1, ps_last_seen_at := pa_created_at e\<rparr> # is
      else i # count_tag e tag is)"

definition audit_tags :: "policy_audit_entry \<Rightarrow> string list" where
  "audit_tags e = (if pa_risk_tags e = [] then [''none''] else pa_risk_tags e)"

definition apply_audit_summary :: "policy_audit_summary_item list \<Rightarrow> policy_audit_entry \<Rightarrow> policy_audit_summary_item list" where
  "apply_audit_summary summary e = fold (count_tag e) (audit_tags e) summary"

definition add_audit :: "policy_audit_entry \<Rightarrow> json_object \<Rightarrow> json_object" where
  "add_audit e metadata =
     (let m = ensure_topic_permission_metadata metadata;
          m1 = put_permission topic_policy_audits_key (encode_policy_audits (decode_policy_audits m @ [e])) m in
      put_permission topic_policy_audit_summary_key
        (encode_policy_audit_summary (apply_audit_summary (decode_policy_audit_summary m1) e)) m1)"

definition audit_to_store :: "time \<Rightarrow> string \<Rightarrow> string \<Rightarrow> string \<Rightarrow> policy_audit_entry \<Rightarrow> policy_audit_entry" where
  "audit_to_store now tid decision event_id e = e\<lparr>pa_event_id := event_id, pa_topic_id := tid, pa_decision := decision,
     pa_created_at := (if pa_created_at e = 0 then now else pa_created_at e)\<rparr>"

definition record_topic_policy_audit :: "time \<Rightarrow> policy_audit_entry \<Rightarrow> policy_audit_entry vos_op" where
  "record_topic_policy_audit now e =
     (let tid = trim_space (pa_topic_id e); decision = to_lower (trim_space (pa_decision e)) in
      if tid = '''' then return_err (ValidationError ''topic ID is required'')
      else if decision = '''' then return_err (ValidationError ''decision is required'')
      else seq load_state (\<lambda>st. seq (of_result (require_topic st tid)) (\<lambda>t.
        seq (if trim_space (pa_event_id e) = '''' then draw_id else return_ok (pa_event_id e)) (\<lambda>i.
        let e' = audit_to_store now tid decision i e in
        seq (save_state (change_topic tid (\<lambda>t. touch_topic now (with_metadata (add_audit e') t)) st)) (\<lambda>_. return_ok e')))))"

definition list_topic_policy_audits :: "string \<Rightarrow> policy_audit_entry list vos_op" where
  "list_topic_policy_audits topic_id = read_state (\<lambda>st. and_then (require_topic st (trim_space topic_id)) (\<lambda>t.
     Inr (decode_policy_audits (tp_metadata t))))"

definition list_topic_policy_audit_summary :: "string \<Rightarrow> policy_audit_summary_item list vos_op" where
  "list_topic_policy_audit_summary topic_id = read_state (\<lambda>st. and_then (require_topic st (trim_space topic_id)) (\<lambda>t.
     Inr (decode_policy_audit_summary (tp_metadata t))))"

section \<open>Skill permissions of the user\<close>

definition decode_roots :: "json \<Rightarrow> string list" where
  "decode_roots v = (case as_array v of
       None \<Rightarrow> []
     | Some xs \<Rightarrow> normalize_roots (List.map_filter as_string xs))"

definition decode_user_skill :: "json_object \<Rightarrow> user_skill_permission option" where
  "decode_user_skill row =
     (let name = read_string (field_or_nil row ''skill_name'');
          path = normalize_dir_prefix (string_or_zero (field_or_nil row ''skill_path''));
          mtime = read_string (field_or_nil row ''skill_mtime'') in
      if name = '''' \<or> path = '''' \<or> mtime = '''' \<or> parse_rfc3339_nano mtime = None then None
      else Some \<lparr>us_skill_name = name, us_skill_path = path, us_skill_mtime = mtime,
        us_allowed_roots = decode_roots (field_or_nil row ''allowed_roots'')\<rparr>)"

definition decode_user_skill_allow_records :: "json_object \<Rightarrow> user_skill_permission list" where
  "decode_user_skill_allow_records permission = (case as_array (field_or_nil permission user_skill_allows_key) of
       None \<Rightarrow> []
     | Some items \<Rightarrow> List.map_filter decode_user_skill (List.map_filter as_object items))"

definition encode_user_skill :: "user_skill_permission \<Rightarrow> json" where
  "encode_user_skill r = JObj
     [(''skill_name'', JStr (trim_space (us_skill_name r))),
      (''skill_path'', JStr (normalize_dir_prefix (us_skill_path r))),
      (''skill_mtime'', JStr (trim_space (us_skill_mtime r))),
      (''allowed_roots'', json_strings (normalize_roots (us_allowed_roots r)))]"

definition encode_user_skill_allow_records :: "user_skill_permission list \<Rightarrow> json" where
  "encode_user_skill_allow_records rs = JArr (map encode_user_skill (filter (\<lambda>r. trim_space (us_skill_name r) \<noteq> '''') rs))"

definition list_user_skill_permissions :: "user_skill_permission list vos_op" where
  "list_user_skill_permissions = read_state (\<lambda>st. Inr (case vf_user st of
       None \<Rightarrow> []
     | Some u \<Rightarrow> decode_user_skill_allow_records (ur_user_permission u)))"

definition store_skills :: "user_skill_permission list \<Rightarrow> vos_user \<Rightarrow> vos_user" where
  "store_skills rs u = u\<lparr>ur_user_permission :=
     put user_skill_allows_key (encode_user_skill_allow_records rs) (ur_user_permission u)\<rparr>"

text \<open>The first record of the skill is replaced, or the record appended.\<close>

fun replace_skill :: "user_skill_permission \<Rightarrow> user_skill_permission list \<Rightarrow> user_skill_permission list" where
  "replace_skill c [] = [c]"
| "replace_skill c (r # rs) = (if us_skill_name r = us_skill_name c then c # rs else r # replace_skill c rs)"

definition add_user_skill_permission ::
  "string \<Rightarrow> string \<Rightarrow> string \<Rightarrow> string list \<Rightarrow> user_skill_permission vos_op" where
  "add_user_skill_permission skill_name skill_path skill_mtime allowed_roots =
     (let name = trim_space skill_name; path = normalize_dir_prefix skill_path; mtime = trim_space skill_mtime in
      if name = '''' then return_err (ValidationError ''skill_name is required'')
      else if path = '''' then return_err (ValidationError ''skill_path is required'')
      else if mtime = '''' then return_err (ValidationError ''skill_mtime is required'')
      else case parse_rfc3339_nano mtime of
        None \<Rightarrow> return_err (ValidationError ''skill_mtime must be RFC3339Nano'')
      | Some parsed \<Rightarrow> seq load_state (\<lambda>st.
          let u = (case vf_user st of None \<Rightarrow> new_default_user | Some u \<Rightarrow> u);
              c = \<lparr>us_skill_name = name, us_skill_path = path, us_skill_mtime = format_rfc3339_nano parsed,
                us_allowed_roots = normalize_roots allowed_roots\<rparr>;
              rs = replace_skill c (decode_user_skill_allow_records (ur_user_permission u)) in
          seq (save_state (st\<lparr>vf_user := Some (store_skills rs u)\<rparr>)) (\<lambda>_. return_ok c)))"

definition skill_to_delete :: "string \<Rightarrow> string \<Rightarrow> user_skill_permission \<Rightarrow> bool" where
  "skill_to_delete name path r \<longleftrightarrow> us_skill_name r = name \<and> (path = '''' \<or> normalize_dir_prefix (us_skill_path r) = path)"

definition delete_user_skill_permission :: "string \<Rightarrow> string \<Rightarrow> bool vos_op" where
  "delete_user_skill_permission skill_name skill_path =
     (let name = trim_space skill_name; path = normalize_dir_prefix skill_path in
      if name = '''' then return_err (ValidationError ''skill_name is required'')
      else seq load_state (\<lambda>st. case vf_user st of
          None \<Rightarrow> return_ok False
        | Some u \<Rightarrow>
            let rs = decode_user_skill_allow_records (ur_user_permission u) in
            if \<not> list_ex (skill_to_delete name path) rs then return_ok False
            else seq (save_state (st\<lparr>vf_user := Some (store_skills (filter (\<lambda>r. \<not> skill_to_delete name path r) rs) u)\<rparr>))
              (\<lambda>_. return_ok True)))"

section \<open>The operations keep both stores\<close>

lemma decode_draws: "decode_topic_tool_allows m s = (r, t) \<Longrightarrow> \<exists>ps n. r = Inr ps \<and> t = s\<lparr>vo_drawn := n\<rparr>"
  by (auto simp: decode_topic_tool_allows_def split: prod.splits)

lemma decode_staged: "triple (staged F st) (decode_topic_tool_allows m) (\<lambda>_. staged F st) (\<lambda>_. evolves F)"
  by (rule keeps_file) (auto dest!: decode_draws)

lemma draw_staged: "triple (staged F st) draw_id (\<lambda>_. staged F st) (\<lambda>_. evolves F)"
  by (rule keeps_file) (rule draw_id_file)

lemma topic_links_with_metadata [simp]: "topic_links (with_metadata f t) = topic_links t"
  by (simp add: topic_links_def with_metadata_def)

lemma permits_metadata: "permits st (change_topic i (\<lambda>t. touch_topic now (with_metadata f t)) st)"
  by (rule permits_change_topic) simp

lemma permits_store_allows: "permits st (change_topic i (store_allows now ps) st)"
  by (rule permits_change_topic) (simp add: store_allows_def)

lemma permits_user: "permits st (st\<lparr>vf_user := u\<rparr>)"
  by (rule permits_same) (simp_all add: forest_of_def entries_ok_def)

lemmas permission_triples = triple_if triple_return_err triple_seq[OF load_triple] triple_seq[OF keep_value]
  triple_seq[OF decode_staged] triple_seq[OF draw_staged] triple_seq[OF save_permitted] return_staged

lemma tool_permissions_keep:
  "keeps (evolves F) (add_topic_tool_permission_v2 now tid inp)" (is ?add)
  "keeps (evolves F) (delete_topic_tool_permission now tid pid)" (is ?delete)
proof -
  have option: "(\<And>x. triple (staged F st) (f x) Q E) \<Longrightarrow> triple (staged F st) g Q E \<Longrightarrow>
      triple (staged F st) (case v of None \<Rightarrow> g | Some x \<Rightarrow> f x) Q E" for st Q E f v g
    by (cases v) auto
  show ?add unfolding add_topic_tool_permission_v2_def Let_def
    by (intro permission_triples option permits_store_allows) simp_all
  show ?delete unfolding delete_topic_tool_permission_def Let_def
    by (intro permission_triples permits_store_allows) simp_all
qed

lemma audits_keep: "keeps (evolves F) (record_topic_policy_audit now e)"
proof -
  have "triple (staged F st) (if b then draw_id else return_ok i) (\<lambda>_. staged F st) (\<lambda>_. evolves F)" for st b i
    by (cases b) (simp_all add: draw_staged triple_return_ok)
  note drawn = this
  show ?thesis unfolding record_topic_policy_audit_def Let_def
    by (intro triple_seq[OF drawn] permission_triples permits_metadata) simp_all
qed

lemma skills_keep:
  "keeps (evolves F) (add_user_skill_permission n p m roots)" (is ?add)
  "keeps (evolves F) (delete_user_skill_permission n p)" (is ?delete)
proof -
  have option: "(\<And>x. triple P (f x) Q E) \<Longrightarrow> triple P g Q E \<Longrightarrow>
      triple P (case v of None \<Rightarrow> g | Some x \<Rightarrow> f x) Q E" for P Q E f v g
    by (cases v) auto
  show ?add unfolding add_user_skill_permission_def Let_def
    by (intro permission_triples option permits_user) simp_all
  show ?delete unfolding delete_user_skill_permission_def Let_def
    by (intro permission_triples option permits_user) simp_all
qed

lemma decode_keeps_db [keeps_intros]: "keeps db_ok (decode_topic_tool_allows m)"
  by (rule keeps_db_frame) (auto dest!: decode_draws)

lemma permission_ops_keep_db:
  "keeps db_ok (add_topic_tool_permission_v2 now tid inp)" "keeps db_ok (delete_topic_tool_permission now tid pid)"
  "keeps db_ok (record_topic_policy_audit now e)" "keeps db_ok (add_user_skill_permission n p m roots)"
  "keeps db_ok (delete_user_skill_permission n p)"
  unfolding add_topic_tool_permission_v2_def delete_topic_tool_permission_def record_topic_policy_audit_def
    add_user_skill_permission_def delete_user_skill_permission_def Let_def
  by (intro keeps_intros)+

end
