(* ===== verification/VosMemory.thy ===== *)
theory VosMemory
  imports VosPermission VosContext
begin

text \<open>
  Compaction of a node's processes and the memory proposals it leaves in the topic (internal/vos/service/compact_service.go and
  memory_proposal_service.go).

  The compaction agent is a process of its own, so it is a parameter; an error of it is known by its text. The proposals
  are JSON in the metadata of the topic and are decoded the way \<open>encoding/json\<close> fills a struct: a key matches a field
  regardless of case, an unknown key is skipped, a null leaves the field at its zero value, and a value of another type is an
  error, whose text is not modelled. A row with two keys that differ only in case is not modelled. Times are written in UTC.
\<close>

section \<open>Data\<close>

record memory_proposal_entry =
  me_key :: string
  me_value :: json

record memory_proposal =
  mp_proposal_id :: string
  mp_topic_id :: string
  mp_node_id :: string
  mp_process_id :: string
  mp_status :: string
  mp_created_at :: time
  mp_entries :: "memory_proposal_entry list"
  mp_evidence :: "string list"
  mp_confidence :: rat
  mp_reason :: string

record memory_proposal_candidate =
  mc_propose_update :: bool
  mc_entries :: "memory_proposal_entry list"
  mc_evidence :: "string list"
  mc_confidence :: rat
  mc_reason :: string

record compacted_process =
  cp_process_id :: string
  cp_name :: string
  cp_summary :: json_object
  cp_compacted_session_ids :: "string list"
  cp_memory_proposals :: "memory_proposal_candidate list"

record compact_process_input =
  ci_process :: process_item
  ci_uncompacted_session_ids :: "string list"

record compact_agent_request =
  cq_node_id :: string
  cq_processes :: "compact_process_input list"
  cq_context :: "context_snapshot option"

record compact_agent_response =
  ca_status :: string
  ca_compacted :: "compacted_process list"
  ca_error :: "string option"

record apply_compaction_input =
  ac_node_id :: string
  ac_expected_version :: "int option"
  ac_processes :: "process_item list option"
  ac_compacted :: "compacted_process list"

definition proposal_pending :: string where "proposal_pending = ''pending''"

definition proposal_applied :: string where "proposal_applied = ''applied''"

definition proposal_rejected :: string where "proposal_rejected = ''rejected''"

definition topic_memory_proposals_key :: string where "topic_memory_proposals_key = ''topic_memory_proposals''"

definition topic_memory_key :: string where "topic_memory_key = ''topic_memory''"

text \<open>The \<open>float64\<close> nearest to 0.7.\<close>

definition memory_proposal_min_confidence :: rat where
  "memory_proposal_min_confidence = 3152519739159347 / 4503599627370496"

section \<open>Compaction\<close>

type_synonym compact_runner = "compact_agent_request \<Rightarrow> string + compact_agent_response"

text \<open>\<open>None\<close> stands for processes that are not a slice of inputs.\<close>

definition compact_processes ::
  "compact_runner \<Rightarrow> string \<Rightarrow> compact_process_input list option \<Rightarrow> context_snapshot option \<Rightarrow> string + compact_agent_response" where
  "compact_processes runner i processes snapshot = (case processes of
       None \<Rightarrow> Inl ''invalid processes type''
     | Some ps \<Rightarrow> and_then (runner \<lparr>cq_node_id = i, cq_processes = ps, cq_context = snapshot\<rparr>) (\<lambda>a.
         if ca_status a = ''failed'' then
           Inl (case ca_error a of None \<Rightarrow> ''compact agent returned failed status'' | Some e \<Rightarrow> e)
         else Inr a))"

section \<open>Decoding and encoding proposals\<close>

text \<open>The value of a field: a key that matches regardless of case.\<close>

definition struct_field :: "json_object \<Rightarrow> string \<Rightarrow> json" where
  "struct_field m name = (case List.find (\<lambda>(k, v). to_lower k = name) m of None \<Rightarrow> JNull | Some (k, v) \<Rightarrow> v)"

definition string_field :: "json \<Rightarrow> string option" where
  "string_field v = (case v of JNull \<Rightarrow> Some '''' | JStr t \<Rightarrow> Some t | _ \<Rightarrow> None)"

definition number_field :: "json \<Rightarrow> rat option" where
  "number_field v = (case v of JNull \<Rightarrow> Some 0 | JNum x \<Rightarrow> Some x | _ \<Rightarrow> None)"

definition time_field :: "json \<Rightarrow> time option" where
  "time_field v = (case v of JNull \<Rightarrow> Some 0 | JStr t \<Rightarrow> parse_rfc3339_nano t | _ \<Rightarrow> None)"

fun all_some :: "('a \<Rightarrow> 'b option) \<Rightarrow> 'a list \<Rightarrow> 'b list option" where
  "all_some f [] = Some []"
| "all_some f (x # xs) = Option.bind (f x) (\<lambda>y. map_option (\<lambda>ys. y # ys) (all_some f xs))"

definition list_field :: "(json \<Rightarrow> 'a option) \<Rightarrow> json \<Rightarrow> 'a list option" where
  "list_field f v = (case v of JNull \<Rightarrow> Some [] | JArr xs \<Rightarrow> all_some f xs | _ \<Rightarrow> None)"

text \<open>An object, or the zero value for a null.\<close>

definition object_field :: "json \<Rightarrow> json_object option" where
  "object_field v = (case v of JNull \<Rightarrow> Some [] | JObj m \<Rightarrow> Some m | _ \<Rightarrow> None)"

definition decode_entry :: "json \<Rightarrow> memory_proposal_entry option" where
  "decode_entry v = Option.bind (object_field v) (\<lambda>m. map_option (\<lambda>k. \<lparr>me_key = k, me_value = struct_field m ''value''\<rparr>)
     (string_field (struct_field m ''key'')))"

definition decode_proposal :: "json \<Rightarrow> memory_proposal option" where
  "decode_proposal v =
     Option.bind (object_field v) (\<lambda>m.
     Option.bind (string_field (struct_field m ''proposal_id'')) (\<lambda>pid.
     Option.bind (string_field (struct_field m ''topic_id'')) (\<lambda>tid.
     Option.bind (string_field (struct_field m ''node_id'')) (\<lambda>nid.
     Option.bind (string_field (struct_field m ''process_id'')) (\<lambda>prid.
     Option.bind (string_field (struct_field m ''status'')) (\<lambda>status.
     Option.bind (time_field (struct_field m ''created_at'')) (\<lambda>created.
     Option.bind (list_field decode_entry (struct_field m ''entries'')) (\<lambda>entries.
     Option.bind (list_field string_field (struct_field m ''evidence'')) (\<lambda>evidence.
     Option.bind (number_field (struct_field m ''confidence'')) (\<lambda>confidence.
     Option.bind (string_field (struct_field m ''reason'')) (\<lambda>reason.
     Some \<lparr>mp_proposal_id = pid, mp_topic_id = tid, mp_node_id = nid, mp_process_id = prid,
       mp_status = (if status = '''' then proposal_pending else status), mp_created_at = created, mp_entries = entries,
       mp_evidence = evidence, mp_confidence = confidence, mp_reason = reason\<rparr>)))))))))))"

definition decode_proposals :: "json \<Rightarrow> vos_error + memory_proposal list" where
  "decode_proposals v = (case list_field decode_proposal v of
       None \<Rightarrow> Inl (OtherError ''unmarshal topic memory proposals'')
     | Some ps \<Rightarrow> Inr ps)"

definition read_topic_memory_proposals :: "json_object \<Rightarrow> vos_error + memory_proposal list" where
  "read_topic_memory_proposals metadata = decode_proposals (field_or_nil metadata topic_memory_proposals_key)"

definition encode_entry :: "memory_proposal_entry \<Rightarrow> json" where
  "encode_entry e = JObj [(''key'', JStr (me_key e)), (''value'', me_value e)]"

text \<open>The fields marked \<open>omitempty\<close> are left out when they are empty.\<close>

definition optional_field :: "bool \<Rightarrow> string \<Rightarrow> json \<Rightarrow> json_object" where
  "optional_field there k v = (if there then [(k, v)] else [])"

definition encode_proposal :: "memory_proposal \<Rightarrow> json" where
  "encode_proposal p = JObj
     ([(''proposal_id'', JStr (mp_proposal_id p)), (''topic_id'', JStr (mp_topic_id p)), (''node_id'', JStr (mp_node_id p)),
       (''process_id'', JStr (mp_process_id p)), (''status'', JStr (mp_status p)),
       (''created_at'', JStr (format_rfc3339_nano (mp_created_at p))), (''entries'', JArr (map encode_entry (mp_entries p)))] @
      optional_field (mp_evidence p \<noteq> []) ''evidence'' (json_strings (mp_evidence p)) @
      optional_field (mp_confidence p \<noteq> 0) ''confidence'' (JNum (mp_confidence p)) @
      optional_field (mp_reason p \<noteq> '''') ''reason'' (JStr (mp_reason p)))"

definition store_proposals :: "memory_proposal list \<Rightarrow> json_object \<Rightarrow> json_object" where
  "store_proposals ps metadata = put topic_memory_proposals_key (JArr (map encode_proposal ps)) metadata"

section \<open>Creating proposals\<close>

definition is_sensitive_memory_key :: "string \<Rightarrow> bool" where
  "is_sensitive_memory_key key \<longleftrightarrow> (let lower = to_lower (trim_space key) in lower = '''' \<or>
     list_ex (contains lower) [''password'', ''secret'', ''token'', ''apikey'', ''api_key'', ''credential'', ''private_key''])"

definition sanitize_memory_proposal_entries :: "memory_proposal_entry list \<Rightarrow> memory_proposal_entry list" where
  "sanitize_memory_proposal_entries entries = filter (\<lambda>e. me_key e \<noteq> '''' \<and> \<not> is_sensitive_memory_key (me_key e))
     (map (\<lambda>e. e\<lparr>me_key := trim_space (me_key e)\<rparr>) entries)"

definition acceptable_candidate :: "memory_proposal_candidate \<Rightarrow> bool" where
  "acceptable_candidate c \<longleftrightarrow> mc_propose_update c \<and> sanitize_memory_proposal_entries (mc_entries c) \<noteq> [] \<and>
     \<not> mc_confidence c < memory_proposal_min_confidence \<and> mc_evidence c \<noteq> []"

definition new_proposal :: "time \<Rightarrow> string \<Rightarrow> string \<Rightarrow> string \<Rightarrow> memory_proposal_candidate \<Rightarrow> string \<Rightarrow> memory_proposal" where
  "new_proposal now tid nid process_id c i = \<lparr>mp_proposal_id = i, mp_topic_id = tid, mp_node_id = nid,
     mp_process_id = trim_space process_id, mp_status = proposal_pending, mp_created_at = now,
     mp_entries = sanitize_memory_proposal_entries (mc_entries c), mp_evidence = mc_evidence c,
     mp_confidence = mc_confidence c, mp_reason = trim_space (mc_reason c)\<rparr>"

text \<open>The two loops: one acceptable candidate after the other, each of which draws an identifier.\<close>

fun draw_proposals :: "time \<Rightarrow> string \<Rightarrow> string \<Rightarrow> (string \<times> memory_proposal_candidate) list \<Rightarrow> memory_proposal list vos_op" where
  "draw_proposals now tid nid [] = return_ok []"
| "draw_proposals now tid nid ((process_id, c) # cs) = seq draw_id (\<lambda>i. seq (draw_proposals now tid nid cs) (\<lambda>ps.
     return_ok (new_proposal now tid nid process_id c i # ps)))"

definition acceptable_candidates :: "compacted_process list \<Rightarrow> (string \<times> memory_proposal_candidate) list" where
  "acceptable_candidates compacted = concat (map (\<lambda>cp. map (\<lambda>c. (cp_process_id cp, c))
     (filter acceptable_candidate (cp_memory_proposals cp))) compacted)"

definition build_pending_memory_proposals :: "time \<Rightarrow> string \<Rightarrow> string \<Rightarrow> compacted_process list \<Rightarrow> memory_proposal list vos_op" where
  "build_pending_memory_proposals now tid nid compacted = draw_proposals now tid nid (acceptable_candidates compacted)"

definition add_proposals :: "string \<Rightarrow> memory_proposal list \<Rightarrow> vfs_state \<Rightarrow> vos_error + vfs_state" where
  "add_proposals tid created st = (if created = [] then Inr st
     else and_then (require_topic st tid) (\<lambda>t. and_then (read_topic_memory_proposals (tp_metadata t)) (\<lambda>existing.
       Inr (change_topic tid (with_metadata (store_proposals (existing @ created))) st))))"

definition apply_compaction_results :: "time \<Rightarrow> apply_compaction_input \<Rightarrow> (vos_node \<times> memory_proposal list) vos_op" where
  "apply_compaction_results now inp =
     (let i = ac_node_id inp in
      if trim_space i = '''' then return_err (ValidationError ''node ID is required'')
      else if (case ac_expected_version inp of None \<Rightarrow> False | Some v \<Rightarrow> v \<le> 0)
        then return_err (ValidationError ''expected version must be a positive integer'')
      else seq load_state (\<lambda>st.
        seq (of_result (require_node st i)) (\<lambda>n.
        seq (of_result (check_version (ac_expected_version inp) n)) (\<lambda>_.
        seq (of_result (require_topic st (nd_topic_id n))) (\<lambda>t.
        seq (case ac_processes inp of None \<Rightarrow> return_ok st | Some items \<Rightarrow> sync_node_processes i items st) (\<lambda>st1.
        seq (build_pending_memory_proposals now (tp_id t) (nd_id n) (ac_compacted inp)) (\<lambda>created.
        seq (of_result (add_proposals (nd_topic_id n) created st1)) (\<lambda>st2.
        seq (save_state (change_topic (nd_topic_id n) (touch_topic now) (change_node i (touch_node now) st2))) (\<lambda>st3.
        of_result (and_then (require_node st3 i) (\<lambda>n'. Inr (n', created))))))))))))"

section \<open>Listing and deciding proposals\<close>

definition list_topic_memory_proposals :: "string \<Rightarrow> memory_proposal list vos_op" where
  "list_topic_memory_proposals topic_id =
     (if trim_space topic_id = '''' then return_err (ValidationError ''topic ID is required'')
      else read_state (\<lambda>st. and_then (require_topic st topic_id) (\<lambda>t. read_topic_memory_proposals (tp_metadata t))))"

definition decision_confirm :: string where "decision_confirm = ''confirm''"

definition decision_reject :: string where "decision_reject = ''reject''"

definition remember_entries :: "memory_proposal_entry list \<Rightarrow> json_object \<Rightarrow> json_object" where
  "remember_entries entries m = fold (\<lambda>e. if trim_space (me_key e) = '''' then id else put (me_key e) (me_value e)) entries m"

definition confirmed_metadata :: "memory_proposal \<Rightarrow> json_object \<Rightarrow> json_object" where
  "confirmed_metadata p metadata = put topic_memory_key (JObj (remember_entries (mp_entries p)
     (case read_metadata_object metadata topic_memory_key of None \<Rightarrow> [] | Some m \<Rightarrow> m))) metadata"

text \<open>The first proposal with the identifier is replaced.\<close>

fun replace_proposal :: "memory_proposal \<Rightarrow> memory_proposal list \<Rightarrow> memory_proposal list" where
  "replace_proposal p [] = []"
| "replace_proposal p (q # qs) = (if mp_proposal_id q = mp_proposal_id p then p # qs else q # replace_proposal p qs)"

definition decided_metadata :: "string \<Rightarrow> memory_proposal \<Rightarrow> memory_proposal list \<Rightarrow> json_object \<Rightarrow> json_object" where
  "decided_metadata decision p ps metadata = store_proposals (replace_proposal p ps)
     (if decision = decision_confirm then confirmed_metadata p metadata else metadata)"

definition check_proposal :: "string \<Rightarrow> string \<Rightarrow> memory_proposal list \<Rightarrow> vos_error + memory_proposal" where
  "check_proposal tid pid ps = (case List.find (\<lambda>p. mp_proposal_id p = pid) ps of
       None \<Rightarrow> Inl (ValidationError (''proposal not found in topic: '' @ pid))
     | Some p \<Rightarrow>
         if mp_topic_id p \<noteq> tid then Inl (ValidationError (''proposal does not belong to topic: '' @ pid))
         else if mp_status p \<noteq> proposal_pending then Inl (ValidationError (''proposal is already finalized: '' @ pid))
         else Inr p)"

definition apply_topic_memory_proposal :: "time \<Rightarrow> string \<Rightarrow> string \<Rightarrow> string \<Rightarrow> memory_proposal vos_op" where
  "apply_topic_memory_proposal now topic_id proposal_id decision =
     (let tid = trim_space topic_id; pid = trim_space proposal_id in
      if tid = '''' then return_err (ValidationError ''topic ID is required'')
      else if pid = '''' then return_err (ValidationError ''proposal ID is required'')
      else if decision \<noteq> decision_confirm \<and> decision \<noteq> decision_reject then
        return_err (ValidationError ''decision must be confirm or reject'')
      else seq load_state (\<lambda>st. seq (of_result (require_topic st tid)) (\<lambda>t.
        seq (of_result (read_topic_memory_proposals (tp_metadata t))) (\<lambda>ps.
        seq (of_result (check_proposal tid pid ps)) (\<lambda>p.
        let p' = p\<lparr>mp_status := (if decision = decision_confirm then proposal_applied else proposal_rejected)\<rparr> in
        seq (save_state (change_topic tid (\<lambda>t. touch_topic now (with_metadata (decided_metadata decision p' ps) t)) st))
          (\<lambda>_. return_ok p'))))))"

section \<open>The operations keep both stores\<close>

lemma permits_with_metadata: "permits st (change_topic i (with_metadata f) st)"
  by (rule permits_change_topic) simp

lemma draw_proposals_drawn: "draw_proposals now tid nid cs s = (r, t) \<Longrightarrow> \<exists>n ps. r = Inr ps \<and> t = s\<lparr>vo_drawn := n\<rparr>"
proof (induction cs arbitrary: s r t)
  case (Cons c cs)
  obtain pid cand where c: "c = (pid, cand)" by fastforce
  obtain q u where rest: "draw_proposals now tid nid cs (s\<lparr>vo_drawn := vo_drawn s + 1\<rparr>) = (q, u)" by fastforce
  from Cons.IH[OF rest] obtain n ps where q: "q = Inr ps" "u = s\<lparr>vo_drawn := n\<rparr>" by auto
  then show ?case using Cons.prems rest by (auto simp: c draw_id_def return_ok_def seq_def)
next
  case Nil
  then show ?case by (intro exI[of _ "vo_drawn s"] exI[of _ "[]"]) (simp add: return_ok_def)
qed

lemma add_proposals_permits: "add_proposals tid created st = Inr st' \<Longrightarrow> permits st st'"
  by (auto simp: add_proposals_def result_simps permits_with_metadata split: if_splits)

lemma apply_compaction_results_keeps: "keeps (evolves F) (apply_compaction_results now inp)"
proof -
  have built: "triple (staged F st) (build_pending_memory_proposals now tid nid cs) (\<lambda>_. staged F st) (\<lambda>_. evolves F)" for st tid nid cs
    by (rule keeps_file) (auto simp: build_pending_memory_proposals_def dest!: draw_proposals_drawn)
  have synced: "triple (staged F st) (case items of None \<Rightarrow> return_ok st | Some xs \<Rightarrow> sync_node_processes i xs st) (staged F) (\<lambda>_. evolves F)"
    for st i items by (cases items) (simp_all add: triple_return_ok sync_triple)
  have permitted: "permits st (change_topic k (touch_topic now) (change_node i (touch_node now) st))" for st k i
  proof (rule permits_trans)
    show "permits st (change_node i (touch_node now) st)" by (rule permits_change_node) simp_all
    show "permits (change_node i (touch_node now) st) (change_topic k (touch_topic now) (change_node i (touch_node now) st))"
      by (rule permits_change_topic) simp
  qed
  show ?thesis unfolding apply_compaction_results_def Let_def
    by (intro triple_if triple_return_err triple_seq[OF load_triple] triple_seq[OF keep_value] triple_seq[OF synced] triple_seq[OF built]
        triple_seq[OF result_triple] triple_seq[OF save_permitted] finish_triple permitted add_proposals_permits) simp_all
qed

lemma apply_topic_memory_proposal_keeps: "keeps (evolves F) (apply_topic_memory_proposal now tid pid d)"
  unfolding apply_topic_memory_proposal_def Let_def
  by (intro permission_triples permits_metadata) simp_all

lemma memory_ops_keep_db: "keeps db_ok (apply_compaction_results now inp)" "keeps db_ok (apply_topic_memory_proposal now tid pid d)"
proof -
  have built: "keeps db_ok (build_pending_memory_proposals now t n cs)" for t n cs
    by (rule keeps_db_frame) (auto simp: build_pending_memory_proposals_def dest!: draw_proposals_drawn)
  show "keeps db_ok (apply_compaction_results now inp)" "keeps db_ok (apply_topic_memory_proposal now tid pid d)"
    unfolding apply_compaction_results_def apply_topic_memory_proposal_def Let_def by (intro keeps_intros built)+
qed

end
