(* ===== verification/VosProps.thy ===== *)
theory VosProps
  imports VosDecompose VosMemory
begin

text \<open>
  What VOS promises as a whole. A step is one command, run on both stores; the invariant of all reachable states is that the
  state file has grown from the empty forest by permitted steps and that the session database is in order.
\<close>

section \<open>Commands\<close>

datatype vos_command =
    CreateTopicCommand time create_topic_input
  | UpdateTopicCommand time update_topic_input
  | DeleteTopicCommand string
  | BindWorkspaceCommand time string string
  | CreateNodeCommand time create_node_input
  | UpdateNodeCommand time update_node_input
  | MoveNodeCommand time string string
  | DeleteNodeCommand time string
  | CreateSessionCommand time create_session_input
  | AppendEventCommand time append_session_event_input
  | DecomposeCommand time "decompose_agent_request \<Rightarrow> string + decompose_agent_response option" node_decompose_input
  | AddPermissionCommand time string topic_tool_permission_input
  | DeletePermissionCommand time string string
  | RecordAuditCommand time policy_audit_entry
  | AddSkillCommand string string string "string list"
  | DeleteSkillCommand string string
  | ApplyCompactionCommand time apply_compaction_input
  | DecideMemoryCommand time string string string
  | SnapshotCommand string
  | ReadCommand

definition void :: "'a vos_op \<Rightarrow> unit vos_op" where
  "void m = seq m (\<lambda>_. return_ok ())"

definition answering :: "(decompose_agent_request \<Rightarrow> string + decompose_agent_response option) \<Rightarrow> decompose_runner" where
  "answering f q s = (f q, s)"

text \<open>\<open>None\<close> is a command that does not return.\<close>

fun run_command :: "vos_command \<Rightarrow> vos \<Rightarrow> ((vos_error + unit) \<times> vos) option" where
  "run_command (CreateTopicCommand now inp) s = Some (void (create_topic now inp) s)"
| "run_command (UpdateTopicCommand now u) s = Some (void (update_topic now u) s)"
| "run_command (DeleteTopicCommand i) s = Some (void (delete_topic i) s)"
| "run_command (BindWorkspaceCommand now i w) s = Some (void (update_topic_workspace_binding now i w) s)"
| "run_command (CreateNodeCommand now inp) s = Some (void (create_node now inp) s)"
| "run_command (UpdateNodeCommand now u) s = Some (void (update_node now u) s)"
| "run_command (MoveNodeCommand now i p) s =
     map_option (\<lambda>(r, t). (and_then r (\<lambda>_. Inr ()), t)) (move_node now i p s)"
| "run_command (DeleteNodeCommand now i) s = Some (void (delete_node now i) s)"
| "run_command (CreateSessionCommand now inp) s = Some (void (create_session now inp) s)"
| "run_command (AppendEventCommand now inp) s = Some (void (append_session_event now inp) s)"
| "run_command (DecomposeCommand now f inp) s = Some (void (decompose_node now (answering f) inp) s)"
| "run_command (AddPermissionCommand now tid inp) s = Some (void (add_topic_tool_permission_v2 now tid inp) s)"
| "run_command (DeletePermissionCommand now tid pid) s = Some (void (delete_topic_tool_permission now tid pid) s)"
| "run_command (RecordAuditCommand now e) s = Some (void (record_topic_policy_audit now e) s)"
| "run_command (AddSkillCommand n p m roots) s = Some (void (add_user_skill_permission n p m roots) s)"
| "run_command (DeleteSkillCommand n p) s = Some (void (delete_user_skill_permission n p) s)"
| "run_command (ApplyCompactionCommand now inp) s = Some (void (apply_compaction_results now inp) s)"
| "run_command (DecideMemoryCommand now tid pid d) s = Some (void (apply_topic_memory_proposal now tid pid d) s)"
| "run_command (SnapshotCommand i) s = Some (void (get_context_snapshot i) s)"
| "run_command ReadCommand s = Some (void load_state s)"

definition vos_step :: "vos \<Rightarrow> vos \<Rightarrow> bool" where
  "vos_step s t \<longleftrightarrow> (\<exists>c r. run_command c s = Some (r, t))"

definition empty_session_db :: session_db where
  "empty_session_db = \<lparr>db_sessions = [], db_events = []\<rparr>"

definition new_vos :: "vos \<Rightarrow> bool" where
  "new_vos s \<longleftrightarrow> vo_file s = None \<and> vo_db s \<in> {None, Some empty_session_db}"

section \<open>Every command keeps the invariant\<close>

lemma keeps_void: "keeps I m \<Longrightarrow> keeps I (void m)"
  unfolding void_def by (intro keeps_intros)

lemma answering_keeps: "keeps I (answering f q)"
  by (rule keepsI) (simp add: answering_def)

lemma load_keeps: "keeps (evolves F) load_state"
  by (rule triple_conseq[OF load_triple]) (auto dest: staged_evolves)

lemma command_evolves:
  assumes ev: "evolves F s" and run: "run_command c s = Some (r, t)"
  shows "evolves F t"
proof -
  have by_void: "evolves F t" if "keeps (evolves F) (m :: 'a vos_op)" "run_command c s = Some (void m s)" for m
  proof -
    have "void m s = (r, t)" using that(2) run by simp
    then show ?thesis by (rule keepsD[OF keeps_void[OF that(1)] ev])
  qed
  show ?thesis
  proof (cases c)
    case (MoveNodeCommand now i p)
    then show ?thesis using run move_node_returns[OF ev, of now i p] by auto
  next
    case (DecomposeCommand now f inp)
    then show ?thesis using by_void[OF decompose_keeps[OF answering_keeps]] by simp
  qed (use by_void[OF create_topic_keeps] by_void[OF update_topic_keeps] by_void[OF delete_topic_keeps]
    by_void[OF update_topic_workspace_binding_keeps] by_void[OF create_node_keeps] by_void[OF update_node_keeps]
    by_void[OF delete_node_keeps] by_void[OF create_session_keeps] by_void[OF append_session_event_keeps]
    by_void[OF tool_permissions_keep(1)] by_void[OF tool_permissions_keep(2)] by_void[OF audits_keep]
    by_void[OF skills_keep(1)] by_void[OF skills_keep(2)] by_void[OF apply_compaction_results_keeps]
    by_void[OF apply_topic_memory_proposal_keeps] by_void[OF snapshot_keeps] by_void[OF load_keeps] in simp_all)
qed

lemma command_db_ok:
  assumes ok: "db_ok s" and run: "run_command c s = Some (r, t)"
  shows "db_ok t"
proof -
  have by_void: "db_ok t" if "keeps db_ok (m :: 'a vos_op)" "run_command c s = Some (void m s)" for m
  proof -
    have "void m s = (r, t)" using that(2) run by simp
    then show ?thesis by (rule keepsD[OF keeps_void[OF that(1)] ok])
  qed
  show ?thesis
  proof (cases c)
    case (MoveNodeCommand now i p)
    then show ?thesis using run move_node_keeps_db[OF ok, of now i p] by auto
  next
    case (DecomposeCommand now f inp)
    then show ?thesis using by_void[OF decompose_keeps_db[OF answering_keeps]] by simp
  qed (use by_void[OF topic_ops_keep_db(1)] by_void[OF topic_ops_keep_db(2)] by_void[OF topic_ops_keep_db(3)]
    by_void[OF topic_ops_keep_db(4)] by_void[OF node_ops_keep_db(1)] by_void[OF node_ops_keep_db(2)]
    by_void[OF node_ops_keep_db(3)] by_void[OF session_ops_keep_db(1)] by_void[OF session_ops_keep_db(2)]
    by_void[OF permission_ops_keep_db(1)] by_void[OF permission_ops_keep_db(2)] by_void[OF permission_ops_keep_db(3)]
    by_void[OF permission_ops_keep_db(4)] by_void[OF permission_ops_keep_db(5)] by_void[OF memory_ops_keep_db(1)]
    by_void[OF memory_ops_keep_db(2)] by_void[OF snapshot_keeps_db] by_void[OF load_keeps_db] in simp_all)
qed

interpretation vos: transition_system new_vos vos_step "\<lambda>s. evolves empty_forest s \<and> db_ok s"
proof
  fix s assume "new_vos s"
  moreover have "forest_of new_vfs_state = empty_forest"
    by (simp add: forest_of_def new_vfs_state_def empty_forest_def)
  moreover have "entries_ok new_vfs_state" by (simp add: entries_ok_def new_vfs_state_def)
  ultimately show "evolves empty_forest s \<and> db_ok s"
    by (auto simp: new_vos_def evolves_def file_state_def empty_forest_ok db_ok_def sessions_ok_def empty_session_db_def)
next
  fix s t assume "evolves empty_forest s \<and> db_ok s" "vos_step s t"
  then show "evolves empty_forest t \<and> db_ok t" unfolding vos_step_def using command_evolves command_db_ok by blast
qed

lemma reachable_forest_ok:
  assumes "reachable new_vos vos_step s"
  shows "forest_ok (forest_of (file_state s))" and "entries_ok (file_state s)"
proof -
  have "evolves empty_forest s" using vos.reachable_inv[OF assms] by blast
  then show "forest_ok (forest_of (file_state s))" "entries_ok (file_state s)"
    using forest_steps_ok unfolding evolves_def by blast+
qed

lemma evolves_self: "evolves F s \<Longrightarrow> evolves (forest_of (file_state s)) s"
  using forest_steps_ok unfolding evolves_def by blast


section \<open>A small tree\<close>

fun run_all :: "vos_command list \<Rightarrow> vos \<Rightarrow> vos" where
  "run_all [] s = s"
| "run_all (c # cs) s = (case run_command c s of None \<Rightarrow> s | Some (r, t) \<Rightarrow> run_all cs t)"

lemma reachable_run_all: "reachable new_vos vos_step s \<Longrightarrow> reachable new_vos vos_step (run_all cs s)"
proof (induction cs arbitrary: s)
  case (Cons c cs)
  have "reachable new_vos vos_step t" if "run_command c s = Some (r, t)" for r t
    by (rule reach_step[OF Cons.prems]) (use that in \<open>auto simp: vos_step_def\<close>)
  then show ?case using Cons by (auto split: option.split)
qed simp

definition demo_vos :: vos where
  "demo_vos = \<lparr>vo_file = None, vo_db = Some empty_session_db, vo_ids = (\<lambda>k. ''id-'' @ show_nat k), vo_drawn = 0,
     vo_faults = []\<rparr>"

definition demo_topic :: create_topic_input where
  "demo_topic = \<lparr>ct_topic_id = ''t'', ct_name = ''Topic'', ct_description = None, ct_metadata = [], ct_tags = [],
     ct_root_node_id = ''r'', ct_root_node_name = None\<rparr>"

definition demo_node :: "string \<Rightarrow> string \<Rightarrow> create_node_input" where
  "demo_node i p = \<lparr>cn_topic_id = ''t'', cn_name = ''Node '' @ i, cn_parent_id = Some p, cn_node_id = i,
     cn_description = None, cn_status = '''', cn_memory = None, cn_input = [], cn_output = []\<rparr>"

definition demo_tree :: vos where
  "demo_tree = run_all [CreateTopicCommand 1 demo_topic, CreateNodeCommand 2 (demo_node ''a'' ''r''),
     CreateNodeCommand 3 (demo_node ''b'' ''a''), CreateNodeCommand 4 (demo_node ''c'' ''r'')] demo_vos"

lemma reachable_demo: "reachable new_vos vos_step (run_all cs demo_vos)"
  by (rule reachable_run_all, rule reach_init) (simp add: new_vos_def demo_vos_def)

lemma reachable_demo_tree: "reachable new_vos vos_step demo_tree"
  unfolding demo_tree_def by (rule reachable_demo)

lemma demo_tree_step: "vos_step demo_tree (run_all [MoveNodeCommand 5 ''b'' ''c''] demo_tree)"
proof -
  have "run_command (MoveNodeCommand 5 ''b'' ''c'') demo_tree \<noteq> None" by code_simp
  then show ?thesis unfolding vos_step_def by (auto intro!: exI[of _ "MoveNodeCommand 5 ''b'' ''c''"])
qed

section \<open>The forest of topics and nodes\<close>

text \<open>
  C3. In every state the service reaches, each topic has its root node, each node belongs to an existing topic and is its
  topic's root exactly if it has no parent, parents and children mirror each other within one topic, no child is listed
  twice, and no node is its own ancestor.
\<close>

theorem tree_wellformed:
  assumes "reachable new_vos vos_step s" and "st = file_state s"
  shows "(\<forall>i t. map_of (vf_topics st) i = Some t \<longrightarrow> tp_id t = i \<and>
      (\<exists>r. map_of (vf_nodes st) (tp_root_node_id t) = Some r \<and> nd_topic_id r = i \<and> nd_parent_id r = None)) \<and>
    (\<forall>i n. map_of (vf_nodes st) i = Some n \<longrightarrow> nd_id n = i \<and> distinct (nd_children_ids n) \<and>
      (\<exists>t. map_of (vf_topics st) (nd_topic_id n) = Some t \<and> (nd_parent_id n = None \<longrightarrow> tp_root_node_id t = i)) \<and>
      (\<forall>p. nd_parent_id n = Some p \<longrightarrow> (\<exists>pn. map_of (vf_nodes st) p = Some pn \<and> nd_topic_id pn = nd_topic_id n \<and>
        i \<in> set (nd_children_ids pn))) \<and>
      (\<forall>c\<in>set (nd_children_ids n). \<exists>cn. map_of (vf_nodes st) c = Some cn \<and> nd_parent_id cn = Some i)) \<and>
    acyclic (up_links st)"
proof (intro conjI allI impI)
  note ok = reachable_forest_ok(1)[OF assms(1), folded assms(2)]
  show "acyclic (up_links st)" using forest_acyclic[OF ok] by (simp only: up_links_eq)
  {
    fix i t assume t: "map_of (vf_topics st) i = Some t"
    then show "tp_id t = i" by (rule topic_id_key[OF ok])
    show "\<exists>r. map_of (vf_nodes st) (tp_root_node_id t) = Some r \<and> nd_topic_id r = i \<and> nd_parent_id r = None"
      using forest_topicD[OF ok, of i "topic_links t"] t by (auto simp: topic_links_def)
  next
    fix i n assume n: "map_of (vf_nodes st) i = Some n"
    then show "nd_id n = i" by (rule node_id_key[OF ok])
    show "distinct (nd_children_ids n)" using forest_nodeD(2)[OF ok, of i "node_links n"] n by simp
    show "\<exists>t. map_of (vf_topics st) (nd_topic_id n) = Some t \<and> (nd_parent_id n = None \<longrightarrow> tp_root_node_id t = i)"
      using forest_nodeD(3)[OF ok, of i "node_links n"] n by (auto simp: topic_links_def)
    show "\<forall>c\<in>set (nd_children_ids n). \<exists>cn. map_of (vf_nodes st) c = Some cn \<and> nd_parent_id cn = Some i"
    proof
      fix c assume "c \<in> set (nd_children_ids n)"
      then obtain lc where "fr_nodes (forest_of st) c = Some lc" "lk_parent lc = Some i"
        using forest_childD[OF ok, of i "node_links n" c] n by auto
      then show "\<exists>cn. map_of (vf_nodes st) c = Some cn \<and> nd_parent_id cn = Some i" by auto
    qed
    fix p assume "nd_parent_id n = Some p"
    then show "\<exists>pn. map_of (vf_nodes st) p = Some pn \<and> nd_topic_id pn = nd_topic_id n \<and> i \<in> set (nd_children_ids pn)"
      using forest_parentD[OF ok, of i "node_links n" p] n by auto
  }
qed

theorem tree_wellformed_witness:
  "acyclic (up_links (file_state demo_tree)) \<and> (''b'', ''a'') \<in> up_links (file_state demo_tree)"
proof
  show "acyclic (up_links (file_state demo_tree))" using tree_wellformed[OF reachable_demo_tree refl] by (elim conjE)
  have "map_option nd_parent_id (map_of (vf_nodes (file_state demo_tree)) ''b'') = Some (Some ''a'')" by code_simp
  then show "(''b'', ''a'') \<in> up_links (file_state demo_tree)" by (auto simp: up_links_def)
qed

text \<open>
  C40. Every stored node has a version of at least 1 and one of the five statuses.
\<close>

theorem node_values_valid:
  assumes "reachable new_vos vos_step s" and "map_of (vf_nodes (file_state s)) i = Some n"
  shows "1 \<le> nd_version n \<and> nd_status n \<in> set node_statuses"
  using reachable_forest_ok(2)[OF assms(1)] assms(2) by (simp add: entries_ok_def node_valid_def)

theorem node_values_valid_witness:
  "case map_of (vf_nodes (file_state demo_tree)) ''a'' of
     Some n \<Rightarrow> 1 \<le> nd_version n \<and> nd_status n \<in> set node_statuses | None \<Rightarrow> False"
proof -
  have "map_of (vf_nodes (file_state demo_tree)) ''a'' \<noteq> None" by code_simp
  then show ?thesis using node_values_valid[OF reachable_demo_tree, of "''a''"] by auto
qed



text \<open>
  C29. Moving a node always returns: the walk from the new parent to the root, which would go round a cycle of parents forever,
  ends on every state the service can have written, and whatever the disk does.
\<close>

theorem move_node_terminates:
  assumes "reachable new_vos vos_step s"
  shows "move_node now i p s \<noteq> None"
  using move_node_returns[of empty_forest s now i p] vos.reachable_inv[OF assms] by auto

theorem move_node_terminates_witness: "move_node 5 ''a'' ''b'' demo_tree \<noteq> None"
  by (rule move_node_terminates[OF reachable_demo_tree])

section \<open>A disk without faults\<close>

lemma disk_ok: "vo_faults s = [] \<Longrightarrow> disk s = (Inr (), s)"
  by (simp add: disk_def)

lemma load_ok:
  assumes "entries_ok (file_state s)" and "vo_faults s = []"
  obtains st n where "load_state s = (Inr st, s\<lparr>vo_drawn := n\<rparr>)" and "vf_nodes st = vf_nodes (file_state s)"
    and "forest_of st = forest_of (file_state s)" and "entries_ok st"
proof (cases "vo_file s")
  case None
  then have "load_state s = (Inr new_vfs_state, s\<lparr>vo_drawn := vo_drawn s\<rparr>)"
    using assms(2) by (simp add: load_state_def disk_ok return_ok_def)
  then show thesis by (rule that) (use None assms(1) in \<open>simp_all add: file_state_def\<close>)
next
  case (Some st0)
  obtain st n where st: "state_normalized (vo_ids s) (vo_drawn s) st0 = (st, n)" by fastforce
  then have "load_state s = (Inr st, s\<lparr>vo_drawn := n\<rparr>)"
    using assms(2) Some by (simp add: load_state_def disk_ok normalize_def)
  moreover have ok: "entries_ok st0" using assms(1) Some by (simp add: file_state_def)
  moreover have "map (\<lambda>(i, d). (i, node_normalized d)) (vf_nodes st0) = vf_nodes st0"
    by (rule map_idI) (use ok entry_mem[OF ok] in \<open>auto simp: entries_ok_def\<close>)
  then have "vf_nodes st = vf_nodes st0" using state_normalized_nodes[of "vo_ids s" "vo_drawn s" st0] st by simp
  moreover have "forest_of st = forest_of st0" "entries_ok st"
    using st ok forest_of_normalized[of "vo_ids s" "vo_drawn s" st0] entries_ok_normalized[OF ok, of "vo_ids s" "vo_drawn s"] by simp_all
  ultimately show thesis using that Some by (simp add: file_state_def)
qed

lemma save_ok:
  assumes "entries_ok st" and "vo_faults s = []"
  obtains st' n where "save_state st s = (Inr st', s\<lparr>vo_drawn := n, vo_file := Some (as_written st')\<rparr>)"
    and "vf_nodes st' = vf_nodes st" and "forest_of st' = forest_of st" and "entries_ok st'"
proof -
  obtain st' n where st': "state_normalized (vo_ids s) (vo_drawn s) st = (st', n)" by fastforce
  have "save_state st s = (Inr st', s\<lparr>vo_drawn := n, vo_file := Some (as_written st')\<rparr>)"
    using assms(2) st' by (simp add: save_state_def normalize_def disk_ok)
  moreover have "map (\<lambda>(i, d). (i, node_normalized d)) (vf_nodes st) = vf_nodes st"
    by (rule map_idI) (use assms(1) entry_mem[OF assms(1)] in \<open>auto simp: entries_ok_def\<close>)
  then have "vf_nodes st' = vf_nodes st" using state_normalized_nodes[of "vo_ids s" "vo_drawn s" st] st' by simp
  moreover have "forest_of st' = forest_of st" "entries_ok st'"
    using st' assms(1) forest_of_normalized[of "vo_ids s" "vo_drawn s" st]
      entries_ok_normalized[OF assms(1), of "vo_ids s" "vo_drawn s"] by simp_all
  ultimately show thesis using that by blast
qed

lemma file_nodes: "vo_file s = Some st \<Longrightarrow> vf_nodes (file_state s) = vf_nodes st"
  by (simp add: file_state_def)

lemma as_written_nodes [simp]: "vf_nodes (as_written st) = vf_nodes st"
  by (simp add: as_written_def)

lemma up_links_cong: "vf_nodes st = vf_nodes st' \<Longrightarrow> up_links st = up_links st'"
  by (simp add: up_links_def)

lemma may_move_cong: "vf_nodes st = vf_nodes st' \<Longrightarrow> may_move st i p = may_move st' i p"
  by (simp add: may_move_def up_links_def)

end
