(* ===== verification/VosAtomic.thy ===== *)
theory VosAtomic
  imports VosProps
begin

text \<open>
  Commands of VOS that fail change neither store. An operation is \<open>all_or_nothing\<close> if its errors come before its save, or if
  it undoes what it did; \<open>reads_only\<close> if it never changes a store.
\<close>

definition unchanged :: "vos \<Rightarrow> vos \<Rightarrow> bool" where
  "unchanged s t \<longleftrightarrow> vo_file t = vo_file s \<and> vo_db t = vo_db s"

definition reads_only :: "'a vos_op \<Rightarrow> bool" where
  "reads_only m \<longleftrightarrow> (\<forall>s r t. m s = (r, t) \<longrightarrow> unchanged s t)"

definition all_or_nothing :: "'a vos_op \<Rightarrow> bool" where
  "all_or_nothing m \<longleftrightarrow> (\<forall>s e t. db_ok s \<longrightarrow> m s = (Inl e, t) \<longrightarrow> unchanged s t)"

named_theorems atomic_intros \<open>rules for operations that change nothing when they fail\<close>

lemma unchanged_refl [simp]: "unchanged s s"
  by (simp add: unchanged_def)

lemma unchanged_trans: "unchanged s t \<Longrightarrow> unchanged t u \<Longrightarrow> unchanged s u"
  by (simp add: unchanged_def)

lemma unchanged_db_ok: "unchanged s t \<Longrightarrow> db_ok s \<Longrightarrow> db_ok t"
  by (simp add: unchanged_def db_ok_def)

lemma reads_onlyD: "reads_only m \<Longrightarrow> m s = (r, t) \<Longrightarrow> unchanged s t"
  by (simp add: reads_only_def)

lemma all_or_nothingD: "all_or_nothing m \<Longrightarrow> db_ok s \<Longrightarrow> m s = (Inl e, t) \<Longrightarrow> unchanged s t"
  by (simp add: all_or_nothing_def)

lemma reads_onlyI: "(\<And>s r t. m s = (r, t) \<Longrightarrow> vo_file t = vo_file s \<and> vo_db t = vo_db s) \<Longrightarrow> reads_only m"
  by (simp add: reads_only_def unchanged_def)

lemma all_or_nothing_reads: "reads_only m \<Longrightarrow> all_or_nothing m"
  by (simp add: reads_only_def all_or_nothing_def)

section \<open>Rules\<close>

lemma reads_only_seq [atomic_intros]: "reads_only m \<Longrightarrow> (\<And>v. reads_only (f v)) \<Longrightarrow> reads_only (seq m f)"
  unfolding reads_only_def by (blast elim: seq_cases intro: unchanged_trans)

lemma reads_only_result [atomic_intros]: "reads_only (of_result r)" "reads_only (return_ok v)" "reads_only (return_err e)"
  by (simp_all add: reads_only_def of_result_def return_ok_def return_err_def)

lemma reads_only_if [atomic_intros]: "reads_only m \<Longrightarrow> reads_only m' \<Longrightarrow> reads_only (if b then m else m')"
  by simp

lemma all_or_nothing_seq [atomic_intros]:
  assumes "reads_only m" and "\<And>v. all_or_nothing (f v)"
  shows "all_or_nothing (seq m f)"
  unfolding all_or_nothing_def
proof (intro allI impI)
  fix s e t assume s: "db_ok s" and "seq m f s = (Inl e, t)"
  from this(2) show "unchanged s t"
  proof (cases rule: seq_cases)
    case (failed e')
    then show ?thesis by (auto intro: reads_onlyD[OF assms(1)])
  next
    case (returned v u)
    then have "unchanged s u" by (auto intro: reads_onlyD[OF assms(1)])
    then show ?thesis using all_or_nothingD[OF assms(2) unchanged_db_ok[OF _ s] returned(2)] unchanged_trans by blast
  qed
qed

lemma all_or_nothing_if [atomic_intros]: "(b \<Longrightarrow> all_or_nothing m) \<Longrightarrow> (\<not> b \<Longrightarrow> all_or_nothing m') \<Longrightarrow> all_or_nothing (if b then m else m')"
  by simp

lemma all_or_nothing_void: "all_or_nothing m \<Longrightarrow> all_or_nothing (void m)"
  by (auto simp: all_or_nothing_def void_def return_ok_def elim!: seq_cases)

lemma reads_only_disk [atomic_intros]: "reads_only disk"
proof (rule reads_onlyI)
  show "disk s = (r, t) \<Longrightarrow> vo_file t = vo_file s \<and> vo_db t = vo_db s" for s r t
    by (simp add: disk_def split: list.splits option.splits) auto
qed

lemma reads_only_draw [atomic_intros]: "reads_only draw_id"
  by (rule reads_onlyI) (auto simp: draw_id_def)

lemma reads_only_normalize [atomic_intros]: "reads_only (normalize st)"
  by (rule reads_onlyI) (auto dest!: normalize_result)

lemma reads_only_load [atomic_intros]: "reads_only load_state"
proof -
  have "reads_only (\<lambda>s. case vo_file s of None \<Rightarrow> return_ok new_vfs_state s | Some st \<Rightarrow> normalize st s)"
    by (rule reads_onlyI) (auto simp: return_ok_def split: option.splits dest!: normalize_result)
  then show ?thesis unfolding load_state_def by (intro atomic_intros)
qed

lemma reads_only_require [atomic_intros]: "reads_only require_session_store"
  by (rule reads_onlyI) (auto simp: require_session_store_def with_sessions_def return_ok_def split: option.splits)

lemma reads_only_sync [atomic_intros]: "reads_only (sync_node_processes i items st)"
proof (rule reads_onlyI)
  show "sync_node_processes i items st s = (r, t) \<Longrightarrow> vo_file t = vo_file s \<and> vo_db t = vo_db s" for s r t
    by (auto simp: sync_node_processes_def of_result_def elim!: seq_cases split: prod.splits)
qed

lemma reads_only_queries:
  assumes "\<And>d r d'. m d = (r, d') \<Longrightarrow> d' = d"
  shows "reads_only (with_sessions m)"
  by (rule reads_onlyI) (auto simp: with_sessions_def split: option.splits prod.splits dest: assms)

text \<open>A save that fails writes nothing, and what is looked up after a save is there.\<close>

lemma save_Inl: "save_state st s = (Inl e, t) \<Longrightarrow> unchanged s t"
  by (auto simp: save_state_def elim!: seq_cases dest: reads_onlyD[OF reads_only_normalize] reads_onlyD[OF reads_only_disk]
      intro: unchanged_trans)

lemma save_Inr: "save_state st s = (Inr st', t) \<Longrightarrow> \<exists>ids n. st' = fst (state_normalized ids n st)"
  by (auto simp: save_state_def seq_Inr_iff dest!: normalize_result)

lemma all_or_nothing_save:
  assumes "\<And>ids n. \<exists>v. g (fst (state_normalized ids n st)) = Inr v"
  shows "all_or_nothing (seq (save_state st) (\<lambda>st'. of_result (g st')))"
  unfolding all_or_nothing_def
proof (intro allI impI)
  fix s e t assume "seq (save_state st) (\<lambda>st'. of_result (g st')) s = (Inl e, t)"
  then show "unchanged s t"
  proof (cases rule: seq_cases)
    case (failed e')
    then show ?thesis by (auto intro: save_Inl)
  next
    case (returned st' u)
    obtain ids n where "st' = fst (state_normalized ids n st)" using save_Inr[OF returned(1)] by blast
    then obtain v where "g st' = Inr v" using assms by blast
    then show ?thesis using returned(2) by (simp add: of_result_def)
  qed
qed

lemma all_or_nothing_save_return: "all_or_nothing (seq (save_state st) (\<lambda>_. return_ok v))"
  using all_or_nothing_save[where g="\<lambda>_. Inr v"] by (simp add: of_result_def[abs_def] return_ok_def[abs_def])

lemma found_after_save:
  "map_of (vf_nodes st) i \<noteq> None \<Longrightarrow> \<exists>n. require_node (fst (state_normalized ids k st)) i = Inr n"
  "map_of (vf_topics st) i \<noteq> None \<Longrightarrow> \<exists>t. require_topic (fst (state_normalized ids k st)) i = Inr t"
proof -
  show "map_of (vf_nodes st) i \<noteq> None \<Longrightarrow> \<exists>n. require_node (fst (state_normalized ids k st)) i = Inr n"
    by (auto simp: node_lookup_normalized)
  assume "map_of (vf_topics st) i \<noteq> None"
  then have "map_of (vf_topics (fst (state_normalized ids k st))) i \<noteq> None"
    by (metis map_of_eq_None_iff state_normalized_topics(2) set_map)
  then show "\<exists>t. require_topic (fst (state_normalized ids k st)) i = Inr t" by auto
qed

lemma all_or_nothing_of_result:
  assumes "\<And>x. r = Inr x \<Longrightarrow> all_or_nothing (f x)"
  shows "all_or_nothing (seq (of_result r) f)"
proof (cases r)
  case (Inl e)
  then show ?thesis by (auto simp: all_or_nothing_def of_result_def seq_def)
next
  case (Inr x)
  then have "seq (of_result r) f = f x" by (simp add: fun_eq_iff of_result_def seq_def)
  then show ?thesis using assms Inr by simp
qed

section \<open>The operations\<close>

lemma create_topic_atomic: "all_or_nothing (create_topic now inp)"
proof -
  have "\<exists>v. and_then (require_topic (fst (state_normalized ids k st')) i)
      (\<lambda>t. and_then (require_node (fst (state_normalized ids k st')) r) (\<lambda>n. Inr (t, n))) = Inr v"
    if "add_topic now i r inp st = Inr st'" for i r st st' ids k
  proof -
    have "map_of (vf_topics st') i \<noteq> None" "map_of (vf_nodes st') r \<noteq> None"
      using that by (auto simp: add_topic_def table_simps split: if_splits)
    from found_after_save(2)[OF this(1), of ids k] found_after_save(1)[OF this(2), of ids k] show ?thesis
      by (auto simp: result_simps)
  qed
  note found = this
  show ?thesis unfolding create_topic_def Let_def
    by (intro all_or_nothing_if all_or_nothing_seq all_or_nothing_of_result all_or_nothing_save
        all_or_nothing_reads atomic_intros) (rule found)
qed

lemma update_topic_atomic: "all_or_nothing (update_topic now u)"
  unfolding update_topic_def modify_state_def
  by (intro all_or_nothing_save all_or_nothing_of_result all_or_nothing_seq[OF reads_only_load] found_after_save(2))
    (auto simp: result_simps table_simps)

lemma delete_topic_atomic: "all_or_nothing (delete_topic i)"
  unfolding delete_topic_def
  by (intro all_or_nothing_if all_or_nothing_seq all_or_nothing_save_return all_or_nothing_reads atomic_intros)

lemma bind_workspace_atomic: "all_or_nothing (update_topic_workspace_binding now i w)"
proof -
  have "\<exists>v. and_then (require_topic (fst (state_normalized ids k (change_topic j f st))) j) (\<lambda>t. Inr (g t)) = Inr v"
    if "require_topic st j = Inr t" for j f st ids k t and g :: "vos_topic \<Rightarrow> topic_workspace_binding option"
  proof -
    have "map_of (vf_topics (change_topic j f st)) j \<noteq> None" using that by (simp add: table_simps)
    from found_after_save(2)[OF this, of ids k] show ?thesis by (auto simp: result_simps)
  qed
  note found = this
  show ?thesis unfolding update_topic_workspace_binding_def Let_def
    by (intro all_or_nothing_if all_or_nothing_of_result all_or_nothing_seq[OF reads_only_load] all_or_nothing_save
        all_or_nothing_reads atomic_intros) (rule found)
qed


lemma create_node_atomic:
  assumes "trim_space (cn_topic_id inp) \<noteq> ''''"
  shows "all_or_nothing (create_node now inp)"
proof -
  have named: "topic_of_parent st (trim_space (cn_topic_id inp)) p = Inr x \<Longrightarrow> x = trim_space (cn_topic_id inp)" for st p x
    using assms by (auto simp: topic_of_parent_def split: option.splits)
  have ensured: "ensure_topic_for now (trim_space (cn_topic_id inp)) nm st = return_ok (trim_space (cn_topic_id inp), st)" for nm st
    using assms by (simp add: ensure_topic_for_def)
  have found: "\<exists>n. require_node (fst (state_normalized ids k st')) i = Inr n"
    if "add_node now p (new_node now i t q status inp) st = Inr st'" for i p t q status st st' ids k
    by (rule found_after_save(1)) (use that in \<open>auto simp: add_node_def new_node_def node_normalized_def Let_def table_simps split: if_splits\<close>)
  have rest: "all_or_nothing (seq (of_result (parent_for st t pa)) (\<lambda>(pk, parent).
      seq (if cn_node_id inp = '''' then draw_id else return_ok (cn_node_id inp)) (\<lambda>i.
        seq (of_result (add_node now pk (new_node now i t (nd_id parent) status inp) st)) (\<lambda>st'.
        seq (save_state st') (\<lambda>st''. of_result (require_node st'' i))))))" for st t pa status
    by (rule all_or_nothing_of_result, split prod.split)
      (intro allI impI all_or_nothing_seq[OF reads_only_if] all_or_nothing_of_result all_or_nothing_save found reads_only_draw reads_only_result)
  have whole: "all_or_nothing (seq (ensure_topic_for now x (cn_name inp) st0) (\<lambda>(topic_id, st).
      seq (of_result (parent_for st topic_id pa)) (\<lambda>(pk, parent).
      seq (if cn_node_id inp = '''' then draw_id else return_ok (cn_node_id inp)) (\<lambda>i.
        seq (of_result (add_node now pk (new_node now i topic_id (nd_id parent) status inp) st)) (\<lambda>st'.
        seq (save_state st') (\<lambda>st''. of_result (require_node st'' i)))))))"
    if "x = trim_space (cn_topic_id inp)" for x st0 pa status
    unfolding that ensured
  proof (rule all_or_nothing_seq[OF reads_only_result(2)])
    fix v :: "string \<times> vfs_state"
    obtain t st where v: "v = (t, st)" by fastforce
    show "all_or_nothing (case v of (topic_id, st) \<Rightarrow> seq (of_result (parent_for st topic_id pa)) (\<lambda>(pk, parent).
        seq (if cn_node_id inp = '''' then draw_id else return_ok (cn_node_id inp)) (\<lambda>i.
        seq (of_result (add_node now pk (new_node now i topic_id (nd_id parent) status inp) st)) (\<lambda>st'.
        seq (save_state st') (\<lambda>st''. of_result (require_node st'' i))))))"
      unfolding v prod.case by (rule rest)
  qed
  show ?thesis unfolding create_node_def Let_def
    by (intro all_or_nothing_if all_or_nothing_of_result all_or_nothing_seq[OF reads_only_load] whole
        all_or_nothing_reads[OF reads_only_result(3)]) (erule named)
qed

lemma move_checked_atomic:
  assumes "map_of (vf_nodes st) i \<noteq> None"
  shows "all_or_nothing (move_checked now i p n np st)"
proof -
  have "map_of (vf_nodes st') i \<noteq> None" if "rewire now i p n np st = Inr st'" for st'
    using that assms by (auto simp: rewire_def result_simps Let_def table_simps split: option.splits)
  then show ?thesis unfolding move_checked_def
    by (intro all_or_nothing_if all_or_nothing_of_result all_or_nothing_save found_after_save(1)
        all_or_nothing_reads[OF reads_only_result(2)])
qed

lemma move_node_atomic:
  assumes "db_ok s" and "move_node now i p s = Some (Inl e, t)"
  shows "unchanged s t"
proof -
  obtain r u where u: "load_state s = (r, u)" by fastforce
  then have same: "unchanged s u" by (rule reads_onlyD[OF reads_only_load])
  show ?thesis
  proof (cases r)
    case (Inl e')
    then show ?thesis using assms(2) u same by (simp add: move_node_def)
  next
    case (Inr st)
    then obtain q where q: "check_move st i p = Some q"
      and t: "seq (of_result q) (\<lambda>(n, np). move_checked now i p n np st) u = (Inl e, t)"
      using assms(2) u by (auto simp: move_node_def)
    have "all_or_nothing (seq (of_result q) (\<lambda>(n, np). move_checked now i p n np st))"
    proof (rule all_or_nothing_of_result)
      fix v assume "q = Inr v"
      then have "map_of (vf_nodes st) i \<noteq> None" using q by (auto simp: check_move_def split: sum.splits if_splits)
      then show "all_or_nothing (case v of (n, np) \<Rightarrow> move_checked now i p n np st)"
        by (auto intro: move_checked_atomic split: prod.split)
    qed
    then show ?thesis using t same assms(1) all_or_nothingD unchanged_db_ok unchanged_trans by blast
  qed
qed

lemma delete_node_atomic: "all_or_nothing (delete_node now i)"
proof -
  have "all_or_nothing (case v of (gone, st') \<Rightarrow> seq (save_state st') (\<lambda>_. return_ok gone))" for v :: "vos_node \<times> vfs_state"
    by (cases v) (simp add: all_or_nothing_save_return)
  then show ?thesis unfolding delete_node_def
    by (intro all_or_nothing_seq[OF reads_only_load] all_or_nothing_of_result)
qed

lemma sync_keeps_nodes:
  assumes "sync_node_processes k items st s = (Inr st', t)" and "map_of (vf_nodes st) i \<noteq> None"
  shows "map_of (vf_nodes st') i \<noteq> None"
proof -
  obtain nd where nd: "require_node st k = Inr nd" using assms(1) by (auto simp: sync_node_processes_def seq_Inr_iff of_result_def)
  obtain m r where "sync_items nd items (vo_ids s) (vo_drawn s) [] (vf_processes st) = (m, r)" by fastforce
  then show ?thesis using assms nd
    by (auto simp: sync_node_processes_def of_result_def result_simps table_simps)
qed


lemma all_or_nothing_synced:
  assumes "\<And>st1. map_of (vf_nodes st1) i \<noteq> None \<Longrightarrow> all_or_nothing (f st1)" and there: "map_of (vf_nodes st) i \<noteq> None"
  shows "all_or_nothing (seq (case items of None \<Rightarrow> return_ok st | Some xs \<Rightarrow> sync_node_processes i xs st) f)"
  unfolding all_or_nothing_def
proof (intro allI impI)
  let ?m = "case items of None \<Rightarrow> return_ok st | Some xs \<Rightarrow> sync_node_processes i xs st"
  fix s e t assume s: "db_ok s" and run: "seq ?m f s = (Inl e, t)"
  have reads: "reads_only ?m" by (auto intro: atomic_intros split: option.split)
  from run show "unchanged s t"
  proof (cases rule: seq_cases)
    case (failed e')
    then show ?thesis by (auto intro: reads_onlyD[OF reads])
  next
    case (returned st1 w)
    have "map_of (vf_nodes st1) i \<noteq> None"
      using returned(1) there sync_keeps_nodes[of i _ st s st1 w i] by (auto simp: return_ok_def split: option.splits)
    moreover have "unchanged s w" using returned(1) by (rule reads_onlyD[OF reads])
    ultimately show ?thesis
      using returned(2) s assms(1) all_or_nothingD unchanged_db_ok unchanged_trans by blast
  qed
qed

lemma update_node_atomic: "all_or_nothing (update_node now u)"
proof -
  let ?i = "un_node_id u"
  let ?last = "\<lambda>n st3. seq (of_result (require_topic st3 (nd_topic_id n))) (\<lambda>_.
     seq (save_state (change_topic (nd_topic_id n) (touch_topic now) st3)) (\<lambda>st4. of_result (require_node st4 ?i)))"
  have last: "all_or_nothing (?last n st3)" if "map_of (vf_nodes st3) ?i \<noteq> None" for n st3
    by (intro all_or_nothing_of_result all_or_nothing_save found_after_save(1)) (use that in simp)
  have up: "map_of (vf_nodes st3) ?i \<noteq> None"
    if "pass_memory_up now u (change_node ?i (touch_node now) st2) = Inr st3" "map_of (vf_nodes st2) ?i \<noteq> None" for st2 st3
    using that by (auto simp: pass_memory_up_def result_simps table_simps split: if_splits option.splits)
  have rest: "all_or_nothing (seq (of_result (pass_memory_up now u (change_node ?i (touch_node now) st2))) (?last n))"
    if "map_of (vf_nodes st2) ?i \<noteq> None" for st2 n
    by (intro all_or_nothing_of_result last) (erule up[OF _ that])
  have synced: "all_or_nothing (seq (case un_process u of None \<Rightarrow> return_ok st1 | Some items \<Rightarrow> sync_node_processes ?i items st1)
      (\<lambda>st2. seq (of_result (pass_memory_up now u (change_node ?i (touch_node now) st2))) (?last n)))"
    if there: "map_of (vf_nodes st1) ?i \<noteq> None" for st1 n
    by (rule all_or_nothing_synced[OF rest there])
  show ?thesis unfolding update_node_def Let_def
    by (intro all_or_nothing_of_result all_or_nothing_seq[OF reads_only_load] synced) (auto simp: table_simps)
qed

section \<open>Sessions\<close>

lemma filter_key_append:
  "i \<notin> f ` set xs \<Longrightarrow> f y = i \<Longrightarrow> filter (\<lambda>x. f x \<noteq> i) (xs @ [y]) = xs"
  by (simp add: filter_id_conv) (metis imageI)

text \<open>Deleting a session that was just inserted restores the database.\<close>

lemma insert_then_delete:
  assumes ok: "sessions_ok d" and ins: "insert_session se d = (Inr (), d')"
  shows "delete_session (se_id se) d' = (Inr (), d)"
proof -
  have new: "find_session (se_id se) d = None" and d': "d' = d\<lparr>db_sessions := db_sessions d @ [session_normalized se]\<rparr>"
    using ins by (auto simp: insert_session_def session_normalized_def Let_def split: if_splits)
  have "find_session (se_id se) d' \<noteq> None" by (simp add: find_session_None d' session_normalized_def)
  moreover have "filter (\<lambda>r. se_id r \<noteq> se_id se) (db_sessions d') = db_sessions d"
    using filter_key_append[of "se_id se" se_id "db_sessions d" "session_normalized se"] new
    by (simp add: d' session_normalized_def find_session_None)
  moreover have "filter (\<lambda>r. ev_session_id r \<noteq> se_id se) (db_events d') = db_events d"
    using no_events_without_session[OF ok new] by (auto simp: d' events_of_def filter_empty_conv intro: filter_True)
  ultimately show ?thesis by (simp add: delete_session_def d')
qed

lemma rollback_restores:
  assumes "vo_db s = Some d'" and "delete_session i d' = (Inr (), d)"
  shows "rollback_session i msg e s = (Inl e, s\<lparr>vo_db := Some d\<rparr>)"
  using assms by (simp add: rollback_session_def attempt_def with_sessions_def return_err_def)

lemma attach_session_Inl:
  assumes "attach_session now k n i st s = (Inl e, t)" and db: "vo_db s = Some d'" and del: "delete_session i d' = (Inr (), d)"
  shows "vo_file t = vo_file s \<and> vo_db t = Some d"
proof (cases "require_topic (change_node k (with_session now i) st) (nd_topic_id n)")
  case (Inl e')
  then have "attach_session now k n i st s = rollback_session i ''load topic after session create'' e' s"
    unfolding attach_session_def Let_def by (simp only: sum.case)
  then show ?thesis using assms(1) by (simp add: rollback_restores[OF db del])
next
  case (Inr tp)
  let ?st = "change_topic (nd_topic_id n) (touch_topic now) (change_node k (with_session now i) st)"
  obtain r u where save: "save_state ?st s = (r, u)" by fastforce
  show ?thesis
  proof (cases r)
    case (Inl e')
    then have u: "vo_file u = vo_file s" "vo_db u = Some d'" using save_Inl[of ?st s e' u] save db by (auto simp: unchanged_def)
    then show ?thesis using assms(1) \<open>require_topic _ _ = Inr tp\<close> Inl save
      by (auto simp add: attach_session_def attempt_def rollback_restores[OF u(2) del])
  next
    case (Inr st')
    then show ?thesis using assms(1) \<open>require_topic _ _ = Inr tp\<close> save by (simp add: attach_session_def attempt_def return_ok_def)
  qed
qed

lemma create_session_atomic: "all_or_nothing (create_session now inp)"
proof -
  have main: "all_or_nothing (seq (with_sessions (insert_session (new_session now i k status))) (\<lambda>_.
      seq (attach_session now k n i st) (\<lambda>_. return_ok v)))" for i k status n st and v :: vos_session
    unfolding all_or_nothing_def
  proof (intro allI impI)
    let ?se = "new_session now i k status"
    fix s e t assume s: "db_ok s" and res: "seq (with_sessions (insert_session ?se)) (\<lambda>_.
      seq (attach_session now k n i st) (\<lambda>_. return_ok v)) s = (Inl e, t)"
    show "unchanged s t"
    proof (cases "vo_db s")
      case None
      then show ?thesis using res by (auto simp: with_sessions_def)
    next
      case (Some d)
      obtain r d' where ins: "insert_session ?se d = (r, d')" by fastforce
      have id: "se_id ?se = i" by (simp add: new_session_def session_normalized_def)
      show ?thesis
      proof (cases r)
        case (Inl e')
        then have "d' = d" using ins by (auto simp: insert_session_def Let_def split: if_splits)
        then show ?thesis using res Some ins Inl by (auto simp: with_sessions_def unchanged_def)
      next
        case (Inr x)
        then have "delete_session i d' = (Inr (), d)"
          using insert_then_delete[of d ?se d'] s Some ins id by (simp add: db_ok_def)
        moreover have "attach_session now k n i st (s\<lparr>vo_db := Some d'\<rparr>) = (Inl e, t)"
          using res Some ins Inr by (auto simp: with_sessions_def return_ok_def elim: seq_cases)
        ultimately show ?thesis using attach_session_Inl[of now k n i st "s\<lparr>vo_db := Some d'\<rparr>" e t d' d] Some
          by (simp add: unchanged_def)
      qed
    qed
  qed
  show ?thesis unfolding create_session_def Let_def
    by (intro all_or_nothing_seq[OF reads_only_require] all_or_nothing_if all_or_nothing_of_result
        all_or_nothing_seq[OF reads_only_load] all_or_nothing_seq[OF reads_only_if[OF reads_only_draw reads_only_result(2)]]
        main all_or_nothing_reads[OF reads_only_result(3)])
qed


lemma append_session_event_atomic: "all_or_nothing (append_session_event now inp)"
proof -
  have stored: "all_or_nothing (seq (with_sessions (append_event e st)) (\<lambda>(x, _). return_ok x))" for e st
    unfolding all_or_nothing_def
  proof (intro allI impI)
    fix s err t assume "seq (with_sessions (append_event e st)) (\<lambda>(x, _). return_ok x) s = (Inl err, t)"
    then have "with_sessions (append_event e st) s = (Inl err, t)"
      by (auto simp: return_ok_def elim!: seq_cases split: prod.splits)
    then show "unchanged s t"
      by (auto simp: with_sessions_def unchanged_def split: option.splits prod.splits dest: append_event_Inl)
  qed
  show ?thesis unfolding append_session_event_def
    by (intro all_or_nothing_seq[OF reads_only_require] all_or_nothing_if all_or_nothing_of_result stored
        all_or_nothing_seq[OF reads_only_draw] all_or_nothing_reads[OF reads_only_result(3)])
qed

lemma snapshot_reads_only: "reads_only (get_context_snapshot i)"
proof -
  have reads: "reads_only (with_sessions (collect_all f xs))" if "\<And>x d r d'. f x d = (r, d') \<Longrightarrow> d' = d"
    for f :: "'a \<Rightarrow> 'b db_op" and xs
    by (rule reads_only_queries) (rule collect_all_db_ok[rotated], assumption, rule that)
  have "reads_only (with_sessions (collect_all session_history xs))" for xs
    by (rule reads) (rule session_history_db)
  moreover have "reads_only (with_sessions (collect_all build_process_context ps))" for ps
    by (rule reads) (rule process_context_db)
  ultimately show ?thesis unfolding get_context_snapshot_def by (intro atomic_intros)
qed

section \<open>Permissions and memory\<close>

lemma reads_only_decode [atomic_intros]: "reads_only (decode_topic_tool_allows m)"
  by (rule reads_onlyI) (auto dest!: decode_draws)

lemma reads_only_build [atomic_intros]: "reads_only (build_pending_memory_proposals now tid nid cs)"
  by (rule reads_onlyI) (auto simp: build_pending_memory_proposals_def dest!: draw_proposals_drawn)

lemma all_or_nothing_option: "(\<And>x. all_or_nothing (f x)) \<Longrightarrow> all_or_nothing g \<Longrightarrow> all_or_nothing (case v of None \<Rightarrow> g | Some x \<Rightarrow> f x)"
  by (cases v) auto

lemma permission_ops_atomic:
  "all_or_nothing (add_topic_tool_permission_v2 now tid inp)" "all_or_nothing (delete_topic_tool_permission now tid pid)"
  "all_or_nothing (record_topic_policy_audit now e)" "all_or_nothing (add_user_skill_permission n p m roots)"
  "all_or_nothing (delete_user_skill_permission n p)" "all_or_nothing (apply_topic_memory_proposal now tid pid d)"
  unfolding add_topic_tool_permission_v2_def delete_topic_tool_permission_def record_topic_policy_audit_def
    add_user_skill_permission_def delete_user_skill_permission_def apply_topic_memory_proposal_def Let_def
  by (intro all_or_nothing_if all_or_nothing_option all_or_nothing_of_result all_or_nothing_seq all_or_nothing_save_return
      all_or_nothing_reads atomic_intros)+

lemma apply_compaction_atomic: "all_or_nothing (apply_compaction_results now inp)"
proof -
  let ?i = "ac_node_id inp"
  let ?last = "\<lambda>n created st2. seq (save_state (change_topic (nd_topic_id n) (touch_topic now) (change_node ?i (touch_node now) st2)))
     (\<lambda>st3. of_result (and_then (require_node st3 ?i) (\<lambda>n'. Inr (n', created))))"
  have last: "all_or_nothing (?last n created st2)" if "map_of (vf_nodes st2) ?i \<noteq> None" for n created st2
  proof (rule all_or_nothing_save)
    fix ids k
    have "map_of (vf_nodes (change_topic (nd_topic_id n) (touch_topic now) (change_node ?i (touch_node now) st2))) ?i \<noteq> None"
      using that by (simp add: table_simps)
    from found_after_save(1)[OF this, of ids k]
    show "\<exists>v. and_then (require_node (fst (state_normalized ids k (change_topic (nd_topic_id n) (touch_topic now)
        (change_node ?i (touch_node now) st2)))) ?i) (\<lambda>n'. Inr (n', created)) = Inr v" by (auto simp: result_simps)
  qed
  have added: "map_of (vf_nodes st2) ?i \<noteq> None" if "add_proposals t created st1 = Inr st2" "map_of (vf_nodes st1) ?i \<noteq> None" for t created st1 st2
    using that by (auto simp: add_proposals_def result_simps split: if_splits)
  have rest: "all_or_nothing (seq (build_pending_memory_proposals now t k cs) (\<lambda>created.
      seq (of_result (add_proposals j created st1)) (?last n created)))" if "map_of (vf_nodes st1) ?i \<noteq> None" for t k cs j st1 n
    by (intro all_or_nothing_seq reads_only_build all_or_nothing_of_result last) (erule added[OF _ that])
  have synced: "all_or_nothing (seq (case ac_processes inp of None \<Rightarrow> return_ok st | Some items \<Rightarrow> sync_node_processes ?i items st)
      (\<lambda>st1. seq (build_pending_memory_proposals now t k cs) (\<lambda>created.
        seq (of_result (add_proposals j created st1)) (?last n created))))"
    if there: "map_of (vf_nodes st) ?i \<noteq> None" for st t k cs j n
    by (rule all_or_nothing_synced[OF rest there])
  show ?thesis unfolding apply_compaction_results_def Let_def
    by (intro all_or_nothing_if all_or_nothing_seq[OF reads_only_load] all_or_nothing_of_result synced all_or_nothing_reads atomic_intros)
      (auto simp: table_simps)
qed

section \<open>Failed commands\<close>

text \<open>The two commands that may leave something behind: a node without a topic, which gets one, and a decomposition.\<close>

fun in_steps :: "vos_command \<Rightarrow> bool" where
  "in_steps (CreateNodeCommand now inp) = (trim_space (cn_topic_id inp) = '''')"
| "in_steps (DecomposeCommand now f inp) = True"
| "in_steps _ = False"

lemma command_atomic:
  assumes db: "db_ok s" and run: "run_command c s = Some (Inl e, t)" and "\<not> in_steps c"
  shows "unchanged s t"
proof -
  have by_void: "unchanged s t" if "all_or_nothing (m :: 'a vos_op)" "run_command c s = Some (void m s)" for m
    using all_or_nothingD[OF all_or_nothing_void[OF that(1)] db] run that(2) by simp
  show ?thesis
  proof (cases c)
    case (MoveNodeCommand now i p)
    then obtain q where "move_node now i p s = Some (q, t)" "and_then q (\<lambda>_. Inr ()) = Inl e" using run by auto
    then have "move_node now i p s = Some (Inl e, t)" by (cases q) (simp_all add: result_simps)
    then show ?thesis by (rule move_node_atomic[OF db])
  next
    case (CreateNodeCommand now inp)
    then show ?thesis using by_void[OF create_node_atomic] assms(3) by simp
  qed (use assms(3) by_void[OF create_topic_atomic] by_void[OF update_topic_atomic] by_void[OF delete_topic_atomic]
    by_void[OF bind_workspace_atomic] by_void[OF update_node_atomic] by_void[OF delete_node_atomic]
    by_void[OF create_session_atomic] by_void[OF append_session_event_atomic]
    by_void[OF permission_ops_atomic(1)] by_void[OF permission_ops_atomic(2)] by_void[OF permission_ops_atomic(3)]
    by_void[OF permission_ops_atomic(4)] by_void[OF permission_ops_atomic(5)] by_void[OF permission_ops_atomic(6)]
    by_void[OF apply_compaction_atomic] by_void[OF all_or_nothing_reads[OF snapshot_reads_only]] by_void[OF all_or_nothing_reads[OF reads_only_load]] in simp_all)
qed




end
