(* ===== verification/VosClaims.thy ===== *)
theory VosClaims
  imports VosAtomic
begin

text \<open>
  What the operations of VOS do when the disk works: the effect of a move, versions, sessions and their histories, and what is
  left behind when a command fails.
\<close>

section \<open>Moving a node\<close>

lemma rewire_parents:
  assumes "rewire now i p n np st = Inr st'" and "map_of (vf_nodes st) i = Some n"
  shows "map_option nd_parent_id (map_of (vf_nodes st') k) =
    (if k = i then Some (Some (nd_id np)) else map_option nd_parent_id (map_of (vf_nodes st) k))"
  using assms
  by (auto simp: rewire_def result_simps Let_def table_simps touch_node_def option.map_comp comp_def split: option.splits)

lemma up_links_parents:
  "up_links st = {(c, p). map_option nd_parent_id (map_of (vf_nodes st) c) = Some (Some p)}"
  by (auto simp: up_links_def)

lemma rewire_up_links:
  assumes "rewire now i p n np st = Inr st'" and "map_of (vf_nodes st) i = Some n"
  shows "up_links st' = {l \<in> up_links st. fst l \<noteq> i} \<union> {(i, nd_id np)}"
  unfolding up_links_parents rewire_parents[OF assms] by (auto split: if_splits)

lemma rewire_total:
  assumes fo: "forest_ok (forest_of st)" and n: "map_of (vf_nodes st) i = Some n" and "nd_parent_id n \<noteq> None"
  shows "\<exists>st'. rewire now i p n np st = Inr st'"
proof -
  obtain old where old: "nd_parent_id n = Some old" using assms(3) by auto
  obtain lo where lo: "map_of (vf_nodes st) old = Some lo"
    using forest_parentD[OF fo, of i "node_links n" old] n old by auto
  obtain tp where "map_of (vf_topics st) (nd_topic_id n) = Some tp"
    using forest_nodeD(3)[OF fo, of i "node_links n"] n by auto
  then show ?thesis using old lo by (simp add: rewire_def result_simps Let_def require_node_def require_topic_def)
qed

lemma move_checked_outcome:
  assumes fo: "forest_ok (forest_of st)" and ok: "entries_ok st" and may: "may_move st i p"
    and n: "map_of (vf_nodes st) i = Some n" and np: "map_of (vf_nodes st) p = Some np"
    and st: "file_state s = st0" "vf_nodes st0 = vf_nodes st" and faults: "vo_faults s = []"
  shows "\<exists>m t. move_checked now i p n np st s = (Inr m, t) \<and> nd_id m = i \<and> nd_parent_id m = Some p \<and>
    map_of (vf_nodes (file_state t)) i = Some m \<and>
    up_links (file_state t) = {l \<in> up_links st. fst l \<noteq> i} \<union> {(i, p)}"
proof -
  have id: "nd_id n = i" "nd_id np = p" using node_id_key[OF fo] n np by blast+
  have links: "up_links st0 = up_links st" by (rule up_links_cong) (rule st(2))
  show ?thesis
  proof (cases "nd_parent_id n = Some p")
    case True
    then have "{l \<in> up_links st. fst l \<noteq> i} \<union> {(i, p)} = up_links st" using n by (auto simp: up_links_iff)
    then show ?thesis using True id n st links by (simp add: move_checked_def return_ok_def)
  next
    case False
    have "nd_parent_id n \<noteq> None" using may n by (auto simp: may_move_def)
    then obtain st1 where st1: "rewire now i p n np st = Inr st1" using rewire_total[OF fo n] by blast
    have ok1: "entries_ok st1" and fo1: "forest_ok (forest_of st1)"
      using permits_rewire[OF may n np _ st1] False id ok fo unfolding permits_def by (auto intro: forest_steps_ok)
    obtain st2 k where save: "save_state st1 s = (Inr st2, s\<lparr>vo_drawn := k, vo_file := Some (as_written st2)\<rparr>)"
      and nodes: "vf_nodes st2 = vf_nodes st1" using save_ok[OF ok1 faults] by metis
    have "map_option nd_parent_id (map_of (vf_nodes st1) i) = Some (Some p)" using rewire_parents[OF st1 n, of i] id by simp
    then obtain m where m: "map_of (vf_nodes st1) i = Some m" "nd_parent_id m = Some p" by auto
    have "nd_id m = i" by (rule node_id_key[OF fo1 m(1)])
    moreover have "up_links (as_written st2) = up_links st1" by (rule up_links_cong) (simp add: nodes)
    ultimately show ?thesis
      using False id st1 save nodes m rewire_up_links[OF st1 n]
      by (simp add: move_checked_def of_result_def require_node_def file_state_def)
  qed
qed

text \<open>
  C13. On a disk without faults a move succeeds exactly if the node is not a root, the new parent is in its topic and is not
  the node itself or below it; then the node hangs under the new parent and no other node has another parent than before.
  A move that is refused leaves the file alone.
\<close>

theorem move_node_outcome:
  assumes "reachable new_vos vos_step s" and "vo_faults s = []" and "move_node now i p s = Some (r, t)"
  shows "if may_move (file_state s) i p
    then \<exists>m. r = Inr m \<and> nd_id m = i \<and> nd_parent_id m = Some p \<and> map_of (vf_nodes (file_state t)) i = Some m \<and>
      up_links (file_state t) = {l \<in> up_links (file_state s). fst l \<noteq> i} \<union> {(i, p)}
    else (\<exists>e. r = Inl e) \<and> vo_file t = vo_file s"
proof -
  note ok = reachable_forest_ok[OF assms(1)]
  obtain st k where load: "load_state s = (Inr st, s\<lparr>vo_drawn := k\<rparr>)" and nodes: "vf_nodes st = vf_nodes (file_state s)"
    and fo: "forest_ok (forest_of st)" and eo: "entries_ok st"
    using load_ok[OF ok(2) assms(2)] ok(1) by metis
  have may: "may_move st i p = may_move (file_state s) i p" by (rule may_move_cong) (rule nodes)
  have links: "up_links st = up_links (file_state s)" by (rule up_links_cong) (rule nodes)
  obtain q where q: "check_move st i p = Some q"
    and iff: "\<And>x. q = Inr x \<longleftrightarrow> may_move st i p \<and> x = (the (map_of (vf_nodes st) i), the (map_of (vf_nodes st) p))"
    using check_move_result[OF fo] by blast
  show ?thesis
  proof (cases "may_move st i p")
    case True
    then obtain n np where n: "map_of (vf_nodes st) i = Some n" "map_of (vf_nodes st) p = Some np"
      by (auto simp: may_move_def)
    then have "q = Inr (n, np)" using iff True by simp
    then have "move_node now i p s = Some (move_checked now i p n np st (s\<lparr>vo_drawn := k\<rparr>))"
      using load q by (simp add: move_node_def of_result_def seq_def)
    moreover have "file_state (s\<lparr>vo_drawn := k\<rparr>) = file_state s" by (simp add: file_state_def)
    ultimately show ?thesis
      using move_checked_outcome[OF fo eo True n _ nodes[symmetric], of "s\<lparr>vo_drawn := k\<rparr>" now] True may links assms(2,3)
      by auto
  next
    case False
    then obtain e where "q = Inl e" using iff by (cases q) auto
    then show ?thesis using False may load q assms(3) by (auto simp: move_node_def of_result_def seq_def)
  qed
qed

theorem move_node_outcome_witness:
  "case move_node 5 ''b'' ''c'' demo_tree of
     Some (Inr m, t) \<Rightarrow> nd_parent_id m = Some ''c'' \<and> (''b'', ''c'') \<in> up_links (file_state t)
   | _ \<Rightarrow> False"
proof -
  obtain m t where mt: "move_node 5 ''b'' ''c'' demo_tree = Some (Inr m, t)"
  proof -
    have "(case move_node 5 ''b'' ''c'' demo_tree of Some (Inr m, t) \<Rightarrow> True | _ \<Rightarrow> False)" by code_simp
    then show ?thesis using that by (auto split: option.splits prod.splits sum.splits)
  qed
  have "vo_faults demo_tree = []" by code_simp
  from move_node_outcome[OF reachable_demo_tree this mt] show ?thesis using mt by (auto split: if_splits)
qed


section \<open>Sessions and their events\<close>

text \<open>
  C5. The events of a session carry the sequence numbers 1, 2, ... up to the session's last one, in the order they were
  stored, whatever commands ran and however the disk behaved.
\<close>

theorem session_events_contiguous:
  assumes "reachable new_vos vos_step s" and "vo_db s = Some d" and "r \<in> set (db_sessions d)"
  shows "map ev_seq (events_of (se_id r) d) = [1..se_last_seq r]"
  using vos.reachable_inv[OF assms(1)] assms(2,3) by (auto simp: db_ok_def sessions_ok_def session_row_ok_def)

definition demo_event :: append_session_event_input where
  "demo_event = \<lparr>ae_session_id = ''s'', ae_item_type = ''message'', ae_provider_item_id = None, ae_role = Some ''user'',
     ae_call_id = None, ae_payload_json = [], ae_next_status = None\<rparr>"

definition demo_sessions :: vos where
  "demo_sessions = run_all [CreateTopicCommand 1 demo_topic, CreateNodeCommand 2 (demo_node ''a'' ''r''),
     CreateSessionCommand 3 \<lparr>cs_node_id = ''a'', cs_session_id = ''s'', cs_status = ''''\<rparr>,
     AppendEventCommand 4 demo_event, AppendEventCommand 5 demo_event] demo_vos"

lemma reachable_demo_sessions: "reachable new_vos vos_step demo_sessions"
  unfolding demo_sessions_def by (rule reachable_demo)

definition demo_db :: session_db where
  "demo_db = with_default empty_session_db (vo_db demo_sessions)"

lemma demo_db: "vo_db demo_sessions = Some demo_db"
proof -
  have "vo_db demo_sessions \<noteq> None" by code_simp
  then show ?thesis by (auto simp: demo_db_def with_default_def)
qed

theorem session_events_contiguous_witness:
  "map ev_seq (events_of (se_id (hd (db_sessions demo_db))) demo_db) = [1..se_last_seq (hd (db_sessions demo_db))] \<and>
   se_last_seq (hd (db_sessions demo_db)) = 2"
proof
  have "db_sessions demo_db \<noteq> []" by code_simp
  then have "hd (db_sessions demo_db) \<in> set (db_sessions demo_db)" by simp
  then show "map ev_seq (events_of (se_id (hd (db_sessions demo_db))) demo_db) = [1..se_last_seq (hd (db_sessions demo_db))]"
    by (rule session_events_contiguous[OF reachable_demo_sessions demo_db])
qed code_simp

lemma with_sessions_Inr:
  "with_sessions m s = (Inr v, t) \<longleftrightarrow> (\<exists>d d'. vo_db s = Some d \<and> m d = (Inr v, d') \<and> t = s\<lparr>vo_db := Some d'\<rparr>)"
  by (auto simp: with_sessions_def split: option.splits prod.splits)

lemma append_session_event_Inr:
  assumes "append_session_event now inp s = (Inr e, t)" and "vo_db s = Some d"
  shows "\<exists>x st row d'. ev_session_id x = ae_session_id inp \<and> append_event x st d = (Inr (e, row), d') \<and> vo_db t = Some d' \<and>
    vo_file t = vo_file s"
proof -
  have req: "require_session_store s = (Inr (), s)"
    using assms(2) by (simp add: require_session_store_def with_sessions_def return_ok_def)
  define store where "store i role st = seq (with_sessions (append_event (new_event now i role inp) st)) (\<lambda>(e, _). return_ok e)"
    for i role st
  have "\<exists>i role st. store i role st (s\<lparr>vo_drawn := vo_drawn s + 1\<rparr>) = (Inr e, t)"
    using assms(1)[unfolded append_session_event_def, folded store_def] req
    by (auto simp: seq_Inr_iff of_result_def return_err_def draw_id_def split: if_splits)
  then obtain i role st where "seq (with_sessions (append_event (new_event now i role inp) st)) (\<lambda>(e, _). return_ok e)
      (s\<lparr>vo_drawn := vo_drawn s + 1\<rparr>) = (Inr e, t)" unfolding store_def by blast
  then obtain row d' where "append_event (new_event now i role inp) st d = (Inr (e, row), d')" "vo_db t = Some d'" "vo_file t = vo_file s"
    using assms(2) by (auto simp: seq_Inr_iff with_sessions_Inr return_ok_def)
  moreover have "ev_session_id (new_event now i role inp) = ae_session_id inp" by (simp add: new_event_def)
  ultimately show ?thesis by blast
qed

text \<open>
  An event that is appended gets the next sequence number of its session and comes last in it; the events of every other
  session and the state file stay as they are.
\<close>

theorem appended_event_comes_last:
  assumes "vo_db s = Some d" and "append_session_event now inp s = (Inr e, t)"
  shows "\<exists>r d'. find_session (ae_session_id inp) d = Some r \<and> ev_seq e = se_last_seq r + 1 \<and> vo_db t = Some d' \<and>
    events_of (ae_session_id inp) d' = events_of (ae_session_id inp) d @ [e] \<and>
    map_option se_last_seq (find_session (ae_session_id inp) d') = Some (ev_seq e) \<and>
    (\<forall>j. j \<noteq> ae_session_id inp \<longrightarrow> events_of j d' = events_of j d \<and> find_session j d' = find_session j d) \<and>
    vo_file t = vo_file s"
proof -
  obtain x st row d' where x: "ev_session_id x = ae_session_id inp" and app: "append_event x st d = (Inr (e, row), d')"
    and t: "vo_db t = Some d'" "vo_file t = vo_file s" using append_session_event_Inr[OF assms(2,1)] by blast
  obtain r where r: "find_session (ev_session_id x) d = Some r" and e: "e = x\<lparr>ev_seq := se_last_seq r + 1\<rparr>"
    and row: "row = appended_row e st r"
    and d': "d' = d\<lparr>db_events := db_events d @ [e], db_sessions := update_where (\<lambda>x. se_id x = se_id row)
      (\<lambda>x. x\<lparr>se_status := se_status row, se_updated_at := se_updated_at row, se_last_seq := se_last_seq row\<rparr>)
      (db_sessions d)\<rparr>" by (rule append_event_Inr[OF app])
  have id: "se_id row = ae_session_id inp" "se_last_seq row = ev_seq e"
    using find_session_Some[OF r] x by (simp_all add: row appended_row_def)
  have find: "find_session j d' = map_option (\<lambda>x. if se_id x = se_id row then x\<lparr>se_status := se_status row,
      se_updated_at := se_updated_at row, se_last_seq := se_last_seq row\<rparr> else x) (find_session j d)" for j
    unfolding find_session_def d' by (simp add: find_update_where)
  have other: "find_session j d' = find_session j d" if "j \<noteq> ae_session_id inp" for j
    unfolding find using that id(1) find_session_Some[of j d] by (cases "find_session j d") auto
  have "map_option se_last_seq (find_session (ae_session_id inp) d') = Some (ev_seq e)"
    using r x id find_session_Some[OF r] by (simp add: find)
  moreover have "events_of (ae_session_id inp) d' = events_of (ae_session_id inp) d @ [e]" using e x by (simp add: d' events_of_def)
  moreover have "\<forall>j. j \<noteq> ae_session_id inp \<longrightarrow> events_of j d' = events_of j d" using e x by (simp add: d' events_of_def)
  ultimately show ?thesis using r x e t other by auto
qed

theorem appended_event_comes_last_witness:
  "case append_session_event 6 demo_event demo_sessions of
     (Inr e, t) \<Rightarrow> ev_seq e = 3 \<and> vo_file t = vo_file demo_sessions | _ \<Rightarrow> False"
proof -
  have ok: "(case append_session_event 6 demo_event demo_sessions of (Inr e, t) \<Rightarrow> True | _ \<Rightarrow> False)" by code_simp
  then obtain e t where run: "append_session_event 6 demo_event demo_sessions = (Inr e, t)" by (auto split: prod.splits sum.splits)
  have "map_option se_last_seq (find_session ''s'' demo_db) = Some 2" by code_simp
  moreover have "ae_session_id demo_event = ''s''" by (simp add: demo_event_def)
  ultimately show ?thesis using appended_event_comes_last[OF demo_db run] by (auto simp: run)
qed


section \<open>Creating a node\<close>

lemma entries_ok_map: "entries_ok st \<Longrightarrow> map (\<lambda>(i, d). (i, node_normalized d)) (vf_nodes st) = vf_nodes st"
  by (rule map_idI) (use entry_mem in \<open>auto simp: entries_ok_def\<close>)

lemma load_nodes:
  assumes "entries_ok (file_state s)" and "load_state s = (Inr st, u)"
  shows "vf_nodes st = vf_nodes (file_state s)" and "forest_of st = forest_of (file_state s)" and "entries_ok st"
    and "unchanged s u"
proof -
  show "unchanged s u" by (rule reads_onlyD[OF reads_only_load assms(2)])
  obtain v where v: "disk s = (Inr (), v)" using assms(2) by (auto simp: load_state_def seq_Inr_iff)
  then have fl: "vo_file v = vo_file s" by (rule disk_file)
  have "vf_nodes st = vf_nodes (file_state s) \<and> forest_of st = forest_of (file_state s) \<and> entries_ok st"
  proof (cases "vo_file s")
    case None
    then show ?thesis using assms v fl by (auto simp: load_state_def return_ok_def file_state_def)
  next
    case (Some st0)
    then have norm: "normalize st0 v = (Inr st, u)" using assms(2) v fl by (simp add: load_state_def)
    have ok: "entries_ok st0" using assms(1) Some by (simp add: file_state_def)
    have "vf_nodes (fst (state_normalized ids n st0)) = vf_nodes st0" for ids n
      by (simp add: state_normalized_nodes entries_ok_map[OF ok])
    then show ?thesis using normalize_result[OF norm] Some ok by (auto simp: file_state_def)
  qed
  then show "vf_nodes st = vf_nodes (file_state s)" "forest_of st = forest_of (file_state s)" "entries_ok st" by auto
qed

lemma save_nodes:
  assumes "entries_ok st" and "save_state st s = (Inr st', u)"
  shows "vf_nodes st' = vf_nodes st" and "vf_nodes (file_state u) = vf_nodes st"
proof -
  obtain ids n where st': "st' = fst (state_normalized ids n st)" using save_Inr[OF assms(2)] by blast
  then show nodes: "vf_nodes st' = vf_nodes st" by (simp add: state_normalized_nodes entries_ok_map[OF assms(1)])
  have "vo_file u = Some (as_written st')" using assms(2) by (auto simp: save_state_def seq_Inr_iff)
  then show "vf_nodes (file_state u) = vf_nodes st" using nodes by (simp add: file_state_def)
qed

lemma reachable_file_ok:
  "reachable new_vos vos_step s \<Longrightarrow> entries_ok (file_state s) \<and> forest_ok (forest_of (file_state s))"
  using reachable_forest_ok by blast

lemma create_node_Inr:
  assumes "create_node now inp s = (Inr n, t)" and "trim_space (cn_topic_id inp) = tid" and "tid \<noteq> ''''"
  obtains st u v p pn i st' st'' where "load_state s = (Inr st, u)"
    and "parent_for st tid (trimmed_parent (cn_parent_id inp)) = Inr (p, pn)" and "unchanged u v"
    and "add_node now p (new_node now i tid (nd_id pn) (if cn_status inp = '''' then status_draft else cn_status inp) inp) st = Inr st'"
    and "save_state st' v = (Inr st'', t)" and "map_of (vf_nodes st'') i = Some n"
    and "(if cn_status inp = '''' then status_draft else cn_status inp) \<in> set node_statuses"
proof -
  let ?status = "if cn_status inp = '''' then status_draft else cn_status inp"
  let ?parent = "trimmed_parent (cn_parent_id inp)"
  obtain st u where load: "load_state s = (Inr st, u)" and status: "?status \<in> set node_statuses"
    using assms(1) by (auto simp: create_node_def Let_def seq_Inr_iff of_result_def return_err_def split: if_splits)
  have tid: "topic_of_parent st tid ?parent = Inr tid" using assms(3) by (simp add: topic_of_parent_def split: option.split)
  have ensured: "ensure_topic_for now tid nm st = return_ok (tid, st)" for nm
    using assms(3) by (simp add: ensure_topic_for_def)
  have draw: "unchanged u v" if "(if cn_node_id inp = '''' then draw_id else return_ok (cn_node_id inp)) u = (Inr i, v)" for i v
    by (rule reads_onlyD[OF reads_only_if[OF reads_only_draw reads_only_result(2)] that])
  obtain p pn where parent: "parent_for st tid ?parent = Inr (p, pn)"
    and rest: "seq (if cn_node_id inp = '''' then draw_id else return_ok (cn_node_id inp)) (\<lambda>i.
        seq (of_result (add_node now p (new_node now i tid (nd_id pn) ?status inp) st)) (\<lambda>st'.
        seq (save_state st') (\<lambda>st''. of_result (require_node st'' i)))) u = (Inr n, t)"
  proof -
    have "cn_name inp \<noteq> ''''" using assms(1) by (auto simp: create_node_def return_err_def)
    then have "seq (of_result (parent_for st tid ?parent)) (\<lambda>(p, pn).
      seq (if cn_node_id inp = '''' then draw_id else return_ok (cn_node_id inp)) (\<lambda>i.
        seq (of_result (add_node now p (new_node now i tid (nd_id pn) ?status inp) st)) (\<lambda>st'.
        seq (save_state st') (\<lambda>st''. of_result (require_node st'' i))))) u = (Inr n, t)"
      using assms(1) load status assms(2) tid ensured
      by (simp add: create_node_def Let_def of_result_def parse_node_status_def return_ok_def seq_def)
    then show thesis using that
      by (cases "parent_for st tid ?parent") (auto simp: of_result_def seq_Inr_iff split: prod.splits)
  qed
  then obtain i v st' st'' where "(if cn_node_id inp = '''' then draw_id else return_ok (cn_node_id inp)) u = (Inr i, v)"
    and "add_node now p (new_node now i tid (nd_id pn) ?status inp) st = Inr st'" and "save_state st' v = (Inr st'', t)"
    and "map_of (vf_nodes st'') i = Some n"
    by (auto simp: seq_Inr_iff of_result_def)
  then show thesis using that load parent draw status by blast
qed


lemma new_node_valid: "status \<in> set node_statuses \<Longrightarrow> node_valid (new_node now i tid pid status inp)"
  by (auto simp: new_node_def node_normalized_def node_valid_def node_statuses_def)

lemma new_node_sel:
  "nd_id (new_node now i tid pid status inp) = i" "nd_topic_id (new_node now i tid pid status inp) = tid"
  "nd_name (new_node now i tid pid status inp) = cn_name inp" "nd_parent_id (new_node now i tid pid status inp) = Some pid"
  "nd_children_ids (new_node now i tid pid status inp) = []"
  by (simp_all add: new_node_def node_normalized_def)

lemma create_node_effect:
  assumes ok: "entries_ok (file_state s)" "forest_ok (forest_of (file_state s))"
    and tid: "trim_space (cn_topic_id inp) \<noteq> ''''" and run: "create_node now inp s = (Inr n, t)"
  shows "\<exists>p pn. map_of (vf_nodes (file_state s)) p = Some pn \<and> nd_topic_id pn = trim_space (cn_topic_id inp) \<and>
    (case trimmed_parent (cn_parent_id inp) of None \<Rightarrow> nd_parent_id pn = None | Some q \<Rightarrow> p = q) \<and>
    map_of (vf_nodes (file_state s)) (nd_id n) = None \<and> nd_parent_id n = Some p \<and> nd_children_ids n = [] \<and>
    nd_name n = cn_name inp \<and> nd_topic_id n = trim_space (cn_topic_id inp) \<and>
    map_of (vf_nodes (file_state t)) = (map_of (vf_nodes (file_state s)))(p \<mapsto> add_child now n pn, nd_id n \<mapsto> n)"
proof -
  let ?tid = "trim_space (cn_topic_id inp)"
  obtain st u v p pn i st' st'' where load: "load_state s = (Inr st, u)"
    and parent: "parent_for st ?tid (trimmed_parent (cn_parent_id inp)) = Inr (p, pn)"
    and add: "add_node now p (new_node now i ?tid (nd_id pn) (if cn_status inp = '''' then status_draft else cn_status inp) inp) st = Inr st'"
    and save: "save_state st' v = (Inr st'', t)" and n: "map_of (vf_nodes st'') i = Some n"
    and status: "(if cn_status inp = '''' then status_draft else cn_status inp) \<in> set node_statuses"
    by (rule create_node_Inr[OF run refl tid])
  let ?n = "new_node now i ?tid (nd_id pn) (if cn_status inp = '''' then status_draft else cn_status inp) inp"
  note loaded = load_nodes[OF ok(1) load]
  have fo: "forest_ok (forest_of st)" using ok(2) loaded(2) by simp
  have pn: "map_of (vf_nodes st) p = Some pn" "nd_topic_id pn = ?tid" using parent_for_Inr[OF parent] by auto
  have pid: "nd_id pn = p" by (rule node_id_key[OF fo pn(1)])
  have "permits st st'" by (rule permits_add_node[OF pn(1) status]) (use add pn(2) in simp)
  then have ok': "entries_ok st'" using loaded(3) fo by (simp add: permits_def)
  have fresh: "map_of (vf_nodes st) i = None" using add by (auto simp: add_node_def new_node_sel split: if_splits)
  then have pi: "p \<noteq> i" using pn by auto
  have nodes: "map_of (vf_nodes st') = (map_of (vf_nodes st))(p \<mapsto> add_child now ?n pn, i \<mapsto> ?n)"
    using add pn pi by (auto simp: add_node_def new_node_sel Let_def table_simps fun_eq_iff split: if_splits)
  have eq: "n = ?n" using n save_nodes(1)[OF ok' save] nodes by simp
  have "map_of (vf_nodes (file_state t)) = (map_of (vf_nodes (file_state s)))(p \<mapsto> add_child now n pn, i \<mapsto> n)"
    using save_nodes(2)[OF ok' save] nodes loaded(1) eq by simp
  moreover have "nd_parent_id pn = None" if none: "trimmed_parent (cn_parent_id inp) = None"
  proof -
    obtain tp where tp: "map_of (vf_topics st) ?tid = Some tp" "p = tp_root_node_id tp"
      using parent none by (auto simp: parent_for_def result_simps Let_def split: if_splits)
    then show ?thesis using forest_topicD[OF fo, of ?tid "topic_links tp"] pn(1) by (auto simp: topic_links_def)
  qed
  moreover have "p = q" if "trimmed_parent (cn_parent_id inp) = Some q" for q
    using parent that by (auto simp: parent_for_def result_simps Let_def split: if_splits)
  ultimately show ?thesis using pn pid loaded(1) fresh eq
    by (intro exI[of _ p] exI[of _ pn]) (simp add: new_node_sel split: option.split)
qed

text \<open>
  A node that is created in a named topic is new, is the last child of the parent asked for, or of the topic's root, and
  carries the name asked for; of the other nodes only the parent changes, and it by a version.
\<close>

theorem created_node_effect:
  assumes "reachable new_vos vos_step s" and "trim_space (cn_topic_id inp) \<noteq> ''''" and "create_node now inp s = (Inr n, t)"
  shows "\<exists>p pn. map_of (vf_nodes (file_state s)) p = Some pn \<and> nd_topic_id pn = trim_space (cn_topic_id inp) \<and>
    (case trimmed_parent (cn_parent_id inp) of None \<Rightarrow> nd_parent_id pn = None | Some q \<Rightarrow> p = q) \<and>
    map_of (vf_nodes (file_state s)) (nd_id n) = None \<and> nd_parent_id n = Some p \<and> nd_children_ids n = [] \<and>
    nd_name n = cn_name inp \<and>
    (\<exists>pn'. map_of (vf_nodes (file_state t)) = (map_of (vf_nodes (file_state s)))(p \<mapsto> pn', nd_id n \<mapsto> n) \<and>
      nd_children_ids pn' = nd_children_ids pn @ [nd_id n] \<and> nd_version pn' = nd_version pn + 1)"
proof -
  have "nd_children_ids (remember_child_memory c x) = nd_children_ids x" "nd_version (remember_child_memory c x) = nd_version x" for c x
    by (simp_all add: remember_child_memory_def Let_def split: option.split)
  then have "nd_children_ids (add_child now n pn) = nd_children_ids pn @ [nd_id n]"
    "nd_version (add_child now n pn) = nd_version pn + 1" for pn
    by (simp_all add: add_child_def touch_node_def)
  then show ?thesis using create_node_effect[OF _ _ assms(2,3)] reachable_file_ok[OF assms(1)] by metis
qed

theorem created_node_effect_witness:
  "case create_node 9 (demo_node ''d'' ''a'') demo_tree of
     (Inr n, t) \<Rightarrow> nd_id n = ''d'' \<and> nd_parent_id n = Some ''a'' \<and>
       map_option nd_children_ids (map_of (vf_nodes (file_state t)) ''a'') = Some [''b'', ''d'']
   | _ \<Rightarrow> False"
proof -
  have "(case create_node 9 (demo_node ''d'' ''a'') demo_tree of (Inr n, t) \<Rightarrow> nd_id n = ''d'' | _ \<Rightarrow> False)" by code_simp
  then obtain n t where run: "create_node 9 (demo_node ''d'' ''a'') demo_tree = (Inr n, t)" and id: "nd_id n = ''d''"
    by (auto split: prod.splits sum.splits)
  have "map_option nd_children_ids (map_of (vf_nodes (file_state demo_tree)) ''a'') = Some [''b'']" by code_simp
  moreover have "trimmed_parent (cn_parent_id (demo_node ''d'' ''a'')) = Some ''a''" "trim_space (cn_topic_id (demo_node ''d'' ''a'')) \<noteq> ''''"
    by code_simp+
  ultimately show ?thesis using created_node_effect[OF reachable_demo_tree _ run] id by (auto simp: run)
qed


section \<open>Versions\<close>

lemma load_Inr: "load_state s = (Inr st, u) \<Longrightarrow> unchanged s u"
  by (rule reads_onlyD[OF reads_only_load])

text \<open>The nodes after the steps of an update that follow its version check.\<close>

lemma sync_nodes:
  assumes "sync_node_processes i items st s = (Inr st', t)"
  shows "map_option nd_version (map_of (vf_nodes st') k) = map_option nd_version (map_of (vf_nodes st) k)"
    and "map_option nd_parent_id (map_of (vf_nodes st') k) = map_option nd_parent_id (map_of (vf_nodes st) k)"
proof -
  obtain nd where nd: "require_node st i = Inr nd" using assms by (auto simp: sync_node_processes_def seq_Inr_iff of_result_def)
  obtain m r where "sync_items nd items (vo_ids s) (vo_drawn s) [] (vf_processes st) = (m, r)" by fastforce
  then show "map_option nd_version (map_of (vf_nodes st') k) = map_option nd_version (map_of (vf_nodes st) k)"
    "map_option nd_parent_id (map_of (vf_nodes st') k) = map_option nd_parent_id (map_of (vf_nodes st) k)"
    using assms nd by (auto simp: sync_node_processes_def of_result_def result_simps table_simps option.map_comp comp_def)
qed

lemma update_node_check:
  assumes "update_node now u s = (Inr m, t)"
  obtains st w n where "load_state s = (Inr st, w)" and "map_of (vf_nodes st) (un_node_id u) = Some n"
    and "check_version (un_expected_version u) n = Inr ()"
  using assms by (auto simp: update_node_def seq_Inr_iff of_result_def Let_def)

lemma update_node_version:
  assumes ok: "entries_ok (file_state s)" "forest_ok (forest_of (file_state s))" and run: "update_node now u s = (Inr m, t)"
  shows "\<exists>n. map_of (vf_nodes (file_state s)) (un_node_id u) = Some n \<and> check_version (un_expected_version u) n = Inr () \<and>
    nd_version m = nd_version n + 1 \<and> map_of (vf_nodes (file_state t)) (un_node_id u) = Some m"
proof -
  let ?i = "un_node_id u"
  obtain st w n st2 w2 st3 st4 where load: "load_state s = (Inr st, w)" and n: "map_of (vf_nodes st) ?i = Some n"
    and check: "check_version (un_expected_version u) n = Inr ()"
    and sync: "(case un_process u of None \<Rightarrow> return_ok (change_node ?i (updated_node u) st)
      | Some items \<Rightarrow> sync_node_processes ?i items (change_node ?i (updated_node u) st)) w = (Inr st2, w2)"
    and up: "pass_memory_up now u (change_node ?i (touch_node now) st2) = Inr st3"
    and save: "save_state (change_topic (nd_topic_id n) (touch_topic now) st3) w2 = (Inr st4, t)"
    and m: "map_of (vf_nodes st4) ?i = Some m"
    using run by (auto simp: update_node_def seq_Inr_iff of_result_def Let_def)
  note loaded = load_nodes[OF ok(1) load]
  have fo: "forest_ok (forest_of st)" using ok(2) loaded(2) by simp
  have same: "map_option nd_version (map_of (vf_nodes st2) ?i) = Some (nd_version n) \<and>
      map_option nd_parent_id (map_of (vf_nodes st2) ?i) = Some (nd_parent_id n)"
    using sync n sync_nodes[of ?i _ "change_node ?i (updated_node u) st" w st2 w2 ?i]
    by (auto simp: return_ok_def table_simps updated_node_def split: option.splits)
  then obtain n2 where n2: "map_of (vf_nodes st2) ?i = Some n2" "nd_version n2 = nd_version n" "nd_parent_id n2 = nd_parent_id n"
    by auto
  have self: "nd_parent_id n \<noteq> Some ?i" using forest_no_self_parent[OF fo, of ?i "node_links n"] n by simp
  have v3: "map_option nd_version (map_of (vf_nodes st3) ?i) = Some (nd_version n + 1)"
    using up n2 self by (auto simp: pass_memory_up_def result_simps table_simps touch_node_def split: if_splits option.splits)
  obtain ids k where st4: "st4 = fst (state_normalized ids k (change_topic (nd_topic_id n) (touch_topic now) st3))"
    using save_Inr[OF save] by blast
  have "node_valid n" using loaded(3) n by (simp add: entries_ok_def)
  then have pos: "0 < nd_version n + 1" by (simp add: node_valid_def)
  obtain n3 where n3: "map_of (vf_nodes st3) ?i = Some n3" "nd_version n3 = nd_version n + 1" using v3 by auto
  then have "m = node_normalized n3" using m st4 by (simp add: node_lookup_normalized)
  then have "nd_version m = nd_version n + 1" using n3 pos by (simp add: node_normalized_def)
  moreover have "vo_file t = Some (as_written st4)" using save by (auto simp: save_state_def seq_Inr_iff)
  then have "map_of (vf_nodes (file_state t)) ?i = Some m" using m by (simp add: file_state_def)
  ultimately show ?thesis using n check loaded(1) by auto
qed


definition demo_update :: "int option \<Rightarrow> update_node_input" where
  "demo_update v = \<lparr>un_node_id = ''a'', un_expected_version = v, un_name = Some ''A'', un_description = None,
     un_clear_description = False, un_status = None, un_memory = None, un_input = None, un_output = None,
     un_session_ids = [], un_process = None\<rparr>"



section \<open>Snapshots\<close>

lemma session_history_Inr:
  assumes ok: "sessions_ok d" and run: "session_history j d = (Inr h, d')"
  shows "find_session j d = Some (ch_session h) \<and> ch_events h = events_of j d"
proof -
  obtain r where r: "find_session j d = Some r" and h: "ch_session h = session_normalized r"
    and es: "list_all_session_events j d = (Inr (ch_events h), d')"
    using run by (auto simp: session_history_def get_session_row_def session_row_def list_all_session_events_def seq_Inr_iff
        return_ok_def split: option.splits)
  have "0 \<le> se_last_seq r" using ok find_session_Some[OF r] by (auto simp: sessions_ok_def session_row_ok_def)
  then have "session_normalized r = r" by (simp add: session_normalized_def)
  moreover have "events_of j d = ch_events h"
    using es all_session_events_complete[OF ok r] by (auto simp: list_all_session_events_def)
  ultimately show ?thesis using r h by simp
qed

lemma collect_all_Inr:
  assumes "\<And>x d r d'. f x d = (r, d') \<Longrightarrow> d' = d" and "collect_all f xs d = (Inr ys, d')"
  shows "list_all2 (\<lambda>x y. f x d = (Inr y, d)) xs ys"
  using assms(2)
proof (induction xs arbitrary: ys)
  case (Cons x xs)
  then obtain v u zs where v: "f x d = (Inr v, u)" and zs: "collect_all f xs u = (Inr zs, d')" "ys = v # zs"
    by (auto simp: seq_Inr_iff return_ok_def)
  have "u = d" using v by (rule assms(1))
  then show ?case using v zs Cons.IH by simp
qed (simp add: return_ok_def)

text \<open>
  C33. A snapshot is complete: its history has each session the node lists, in order, with exactly the events stored for it,
  although the service reads them in pages of 200.
\<close>

theorem snapshot_complete:
  assumes "reachable new_vos vos_step s" and "vo_db s = Some d" and "get_context_snapshot i s = (Inr cx, t)"
  shows "\<exists>n. map_of (vf_nodes (file_state s)) i = Some n \<and> cx_node_id cx = i \<and>
    list_all2 (\<lambda>j h. find_session j d = Some (ch_session h) \<and> ch_events h = events_of j d)
      (nd_session n) (cx_session_history cx)"
proof -
  have file_ok: "entries_ok (file_state s)" "forest_ok (forest_of (file_state s))" using reachable_file_ok[OF assms(1)] by auto
  have ok: "sessions_ok d" using vos.reachable_inv[OF assms(1)] assms(2) by (simp add: db_ok_def)
  have req: "require_session_store s = (Inr (), s)"
    using assms(2) by (simp add: require_session_store_def with_sessions_def return_ok_def)
  obtain st u n v where load: "load_state s = (Inr st, u)" and n: "map_of (vf_nodes st) i = Some n"
    and id: "cx_node_id cx = nd_id n"
    and history: "with_sessions (collect_all session_history (nd_session n)) u = (Inr (cx_session_history cx), v)"
    using assms(3) req
    by (auto simp: get_context_snapshot_def seq_Inr_iff of_result_def return_err_def return_ok_def split: if_splits)
  note loaded = load_nodes[OF file_ok(1) load]
  have u: "vo_db u = Some d" using loaded(4) assms(2) by (simp add: unchanged_def)
  have "nd_id n = i" using node_id_key[of st i n] n loaded(2) file_ok(2) by simp
  moreover have "list_all2 (\<lambda>j h. session_history j d = (Inr h, d)) (nd_session n) (cx_session_history cx)"
    using history u collect_all_Inr[OF session_history_db] unfolding with_sessions_Inr by auto
  then have "list_all2 (\<lambda>j h. find_session j d = Some (ch_session h) \<and> ch_events h = events_of j d)
      (nd_session n) (cx_session_history cx)"
    by (rule list_all2_mono) (rule session_history_Inr[OF ok])
  ultimately show ?thesis using n loaded(1) id by auto
qed

theorem snapshot_complete_witness:
  "case get_context_snapshot ''a'' demo_sessions of
     (Inr cx, t) \<Rightarrow> map (\<lambda>h. map ev_seq (ch_events h)) (cx_session_history cx) = [[1, 2]] | _ \<Rightarrow> False"
proof -
  have "(case get_context_snapshot ''a'' demo_sessions of (Inr cx, t) \<Rightarrow> True | _ \<Rightarrow> False)" by code_simp
  then obtain cx t where run: "get_context_snapshot ''a'' demo_sessions = (Inr cx, t)" by (auto split: prod.splits sum.splits)
  have "map_option nd_session (map_of (vf_nodes (file_state demo_sessions)) ''a'') = Some [''s'']" by code_simp
  then have "list_all2 (\<lambda>j h. find_session j demo_db = Some (ch_session h) \<and> ch_events h = events_of j demo_db)
      [''s''] (cx_session_history cx)" using snapshot_complete[OF reachable_demo_sessions demo_db run] by auto
  moreover have "map ev_seq (events_of ''s'' demo_db) = [1, 2]" by code_simp
  ultimately show ?thesis by (auto simp: run list_all2_Cons1)
qed

section \<open>What a failure or a deletion leaves behind\<close>

text \<open>
  A node that names neither a topic nor a parent gets a topic of its own, which is saved first: when the node then cannot
  be made, the topic stays.
\<close>

definition orphan_input :: create_node_input where
  "orphan_input = \<lparr>cn_topic_id = '''', cn_name = ''Orphan'', cn_parent_id = None, cn_node_id = ''a'',
     cn_description = None, cn_status = '''', cn_memory = None, cn_input = [], cn_output = []\<rparr>"

theorem failed_node_leaves_topic:
  "case create_node 9 orphan_input demo_tree of
     (Inl e, t) \<Rightarrow> e = DuplicateEntityError ''node'' ''a'' \<and> length (vf_topics (file_state demo_tree)) = 1 \<and>
       map (tp_name \<circ> snd) (vf_topics (file_state t)) = [''Topic'', ''Orphan'']
   | _ \<Rightarrow> False"
  by code_simp

text \<open>Process identifiers are global: a node that stores an item under the identifier of another node's item takes it over.\<close>

definition process_update :: "string \<Rightarrow> string \<Rightarrow> update_node_input" where
  "process_update i name = (demo_update None)\<lparr>un_node_id := i, un_name := None, un_process := Some [\<lparr>pi_id = ''p'', pi_name = name,
     pi_status = ''todo'', pi_session_range = None, pi_summary = None, pi_compacted_session_ids = [], pi_timestamp = 0\<rparr>]\<rparr>"

theorem process_of_other_node_overwritten:
  "map_option (\<lambda>n. map pi_name (resolve_node_processes (file_state (run_all [UpdateNodeCommand 5 (process_update ''a'' ''mine''),
      UpdateNodeCommand 6 (process_update ''c'' ''theirs'')] demo_tree)) n))
    (map_of (vf_nodes (file_state (run_all [UpdateNodeCommand 5 (process_update ''a'' ''mine''),
      UpdateNodeCommand 6 (process_update ''c'' ''theirs'')] demo_tree))) ''a'') = Some [''theirs'']"
  by code_simp

end
