(* ===== verification/DirectGateway.thy ===== *)
theory DirectGateway
  imports EngineProps VosClaims
begin

text \<open>
  The scheduler on VOS (internal/schedule/direct_vos_gateway.go): the gateway through which the engine calls the VOS service in its
  own process, and what a tick then does to VOS.

  The world of the engine is VOS with the rest of the machine, of type \<open>'c\<close>: the clock, and a worker that may use VOS
  too. An error of the service reaches the engine as an \<open>ExternalError\<close> with its text. Contexts are not modelled.
\<close>

section \<open>The gateway\<close>

type_synonym 'c machine = "vos \<times> 'c"

text \<open>A call of the service, which reads the clock once.\<close>

definition call_vos :: "('c \<Rightarrow> time \<times> 'c) \<Rightarrow> (time \<Rightarrow> 'a vos_op) \<Rightarrow> ('c machine, sched_error, 'a) op" where
  "call_vos clock m w = (case w of (s, c) \<Rightarrow> (case clock c of (now, c') \<Rightarrow> (case m now s of (r, t) \<Rightarrow>
     ((case r of Inl e \<Rightarrow> Inl (ExternalError (vos_error_text e)) | Inr v \<Rightarrow> Inr v), (t, c')))))"

definition priority_node_input :: "string \<Rightarrow> create_node_input" where
  "priority_node_input topic_id = \<lparr>cn_topic_id = topic_id, cn_name = PriorityNodeName, cn_parent_id = None, cn_node_id = '''',
     cn_description = Some ''schedule priority node'', cn_status = status_ready, cn_memory = None, cn_input = [], cn_output = []\<rparr>"

definition leaf_filter :: node_list_filter where
  "leaf_filter = \<lparr>nf_leaf_only = True, nf_statuses = [], nf_exclude_statuses = []\<rparr>"

definition direct_ensure_priority_node :: "string \<Rightarrow> time \<Rightarrow> string vos_op" where
  "direct_ensure_priority_node topic_id now = seq (list_nodes_by_filter topic_id leaf_filter) (\<lambda>nodes.
     case List.find (\<lambda>n. nd_name n = PriorityNodeName) nodes of
       Some n \<Rightarrow> return_ok (nd_id n)
     | None \<Rightarrow> seq (create_node now (priority_node_input topic_id)) (\<lambda>n.
         if trim_space (nd_id n) = '''' then return_err (OtherError ''vos priority node create returned empty id'')
         else return_ok (nd_id n)))"

definition direct_ensure_session :: "string \<Rightarrow> string option \<Rightarrow> time \<Rightarrow> string vos_op" where
  "direct_ensure_session node_id known now =
     (if (case known of None \<Rightarrow> False | Some i \<Rightarrow> trim_space i \<noteq> '''')
       then return_ok (trim_space (with_default '''' known))
      else seq (create_session now \<lparr>cs_node_id = node_id, cs_session_id = '''', cs_status = ''active''\<rparr>) (\<lambda>se.
        if trim_space (VosTypes.vos_session.se_id se) = '''' then return_err (OtherError ''session create returned empty id'')
        else return_ok (VosTypes.vos_session.se_id se)))"

fun event_json :: "event_value \<Rightarrow> json" where
  "event_json (EvString x) = JStr x"
| "event_json (EvBool b) = JBool b"
| "event_json (EvInt i) = JNum (of_int i)"

definition payload_json :: "event_payload \<Rightarrow> json_object" where
  "payload_json p = map (\<lambda>(k, v). (k, event_json v)) p"

definition dispatch_event :: "string \<Rightarrow> json_object \<Rightarrow> string \<Rightarrow> append_session_event_input" where
  "dispatch_event i payload next_status = \<lparr>ae_session_id = i, ae_item_type = ''message'', ae_provider_item_id = None,
     ae_role = Some ''system'', ae_call_id = None, ae_payload_json = payload, ae_next_status = Some next_status\<rparr>"

definition direct_append_authorized :: "string \<Rightarrow> event_payload \<Rightarrow> time \<Rightarrow> session_event_record vos_op" where
  "direct_append_authorized i p now = seq (append_session_event now (dispatch_event i (payload_json p) ''active'')) (\<lambda>e.
     return_ok \<lparr>session_event_record.se_id = ev_id e, se_session_id = ev_session_id e, se_seq = ev_seq e\<rparr>)"

definition result_session_status :: "json_object \<Rightarrow> string" where
  "result_session_status payload = (case as_string (field_or_nil payload ''status'') of
       None \<Rightarrow> ''active''
     | Some raw \<Rightarrow> if trim_space raw = ''succeeded'' then ''completed''
         else if trim_space raw = ''failed'' then ''failed'' else ''active'')"

definition direct_append_result :: "string \<Rightarrow> event_payload \<Rightarrow> time \<Rightarrow> unit vos_op" where
  "direct_append_result i p now =
     seq (append_session_event now (dispatch_event i (payload_json p) (result_session_status (payload_json p)))) (\<lambda>_. return_ok ())"

type_synonym 'c worker = "worker_execute_request \<Rightarrow> ('c machine, sched_error, worker_execute_response) op"

definition direct_gateways :: "('c \<Rightarrow> time \<times> 'c) \<Rightarrow> 'c worker \<Rightarrow> 'c machine gateways" where
  "direct_gateways clock worker = \<lparr>
     gw_ensure_priority_node = (\<lambda>i. call_vos clock (direct_ensure_priority_node i)),
     gw_ensure_session = (\<lambda>i known. call_vos clock (direct_ensure_session i known)),
     gw_append_authorized = (\<lambda>i p. call_vos clock (direct_append_authorized i p)),
     gw_append_result = (\<lambda>i p. call_vos clock (direct_append_result i p)),
     gw_execute = worker,
     gw_now = (\<lambda>(s, c). case clock c of (now, c') \<Rightarrow> (now, (s, c')))\<rparr>"

section \<open>What a tick keeps of the world\<close>

text \<open>A property of the world that every gateway call keeps; the store may do anything.\<close>

abbreviation on_world :: "('w \<Rightarrow> bool) \<Rightarrow> 'w engine_state \<Rightarrow> bool" where
  "on_world J st \<equiv> J (snd st)"

locale world_invariant =
  fixes g :: "'w gateways" and J :: "'w \<Rightarrow> bool"
  assumes keep_priority: "keeps J (gw_ensure_priority_node g i)"
    and keep_session: "keeps J (gw_ensure_session g i known)"
    and keep_authorized: "keeps J (gw_append_authorized g i p)"
    and keep_result: "keeps J (gw_append_result g i p)"
    and keep_worker: "keeps J (gw_execute g req)"
    and keep_clock: "J w \<Longrightarrow> gw_now g w = (now, w') \<Longrightarrow> J w'"
begin

lemma with_clock_world: "keeps (on_world J) (with_clock g f)"
  by (rule keepsI) (auto simp: with_clock_def split: prod.splits dest: keep_clock)

lemma store_write_world: "keeps (on_world J) (store_write g f)"
  unfolding store_write_def by (rule with_clock_world)

lemma store_read_world: "keeps (on_world J) (store_read f)"
  by (rule keepsI) (simp add: store_read_def)

lemma read_clock_world: "keeps (on_world J) (read_clock g)"
  by (rule keepsI) (auto simp: read_clock_def split: prod.splits dest: keep_clock)

lemma outside_world: "keeps J m \<Longrightarrow> keeps (on_world J) (outside m)"
  by (rule keepsI) (auto simp: outside_def split: prod.splits dest: keepsD)

lemmas world_rules = with_clock_world store_write_world store_read_world read_clock_world outside_world
  keeps_seq keeps_of_result keeps_case_option keeps_case_sum keeps_if keeps_return_ok keeps_return_err keeps_map_err
  keeps_ignore_result keeps_attempt keep_priority keep_session keep_authorized keep_result keep_worker

lemma dispatch_one_world: "keeps (on_world J) (dispatch_one g cfg tid nid)"
  unfolding dispatch_one_def authorize_dispatch_def execute_dispatch_def complete_dispatch_def finish_priority_def
  by (intro world_rules)

lemma prepare_world: "keeps (on_world J) (seq (prepare_priority g topic) (\<lambda>_. build_plan g limit tid))"
  unfolding prepare_priority_def ensure_priority_node_def build_plan_def by (intro world_rules)

lemma after_dispatch_world: "keeps (on_world J) (after_dispatch g tid)"
  unfolding after_dispatch_def by (intro world_rules)

lemma tick_start_world: "keeps (on_world J) (tick_start g cfg)"
  unfolding tick_start_def by (intro world_rules)

lemma tick_dispatch_world:
  assumes "on_world J st" and "tick_dispatch g cfg topic plan st = (res, err, st')"
  shows "on_world J st'"
proof -
  obtain recs e u where c: "collect (dispatch_one g cfg (tc_topic_id topic)) (dp_dispatch_node_ids plan) st = (recs, e, u)"
    by (metis prod_cases3)
  have u: "on_world J u" using collect_keeps[OF dispatch_one_world assms(1) c] .
  obtain r v where v: "after_dispatch g (tc_topic_id topic) u = (r, v)" by (meson surj_pair)
  have "on_world J v" using keepsD[OF after_dispatch_world u v] .
  then show ?thesis
    using assms u c v by (auto simp: tick_dispatch_def Let_def split: if_splits option.splits sum.splits)
qed

lemma tick_topic_world:
  assumes "on_world J st" and "tick_topic g cfg limit topic st = (res, err, st')"
  shows "on_world J st'"
  using assms(2)
proof (cases rule: tick_topic_cases)
  case waits
  then show ?thesis using assms(1) by simp
next
  case (no_plan e)
  show ?thesis using keepsD[OF prepare_world assms(1) no_plan(1)] .
next
  case (planned plan u v)
  then have "seq (prepare_priority g topic) (\<lambda>_. build_plan g limit (tc_topic_id topic)) st = (Inr plan, v)" by simp
  then have "on_world J v" by (rule keepsD[OF prepare_world assms(1)])
  then show ?thesis using planned(3) by (rule tick_dispatch_world)
qed

lemma tick_world:
  assumes "on_world J st" and "tick g cfg m st = (res, err, st')"
  shows "on_world J st'"
  using assms(2)
proof (cases rule: tick_cases)
  case (start_error e)
  then show ?thesis using keepsD[OF tick_start_world assms(1)] by simp
next
  case idle
  then show ?thesis using keepsD[OF tick_start_world assms(1)] by simp
next
  case (served topic u)
  have "on_world J u" using keepsD[OF tick_start_world assms(1) served(2)] .
  then show ?thesis using served(3) by (rule tick_topic_world)
qed (use assms(1) in simp)

end


section \<open>Every call is a sequence of commands\<close>

definition commands :: "'a vos_op \<Rightarrow> bool" where
  "commands m \<longleftrightarrow> (\<forall>s r t. m s = (r, t) \<longrightarrow> vos_step\<^sup>*\<^sup>* s t)"

lemma commandsI: "(\<And>s r t. m s = (r, t) \<Longrightarrow> vos_step\<^sup>*\<^sup>* s t) \<Longrightarrow> commands m"
  by (simp add: commands_def)

lemma commands_void:
  assumes "\<And>s. run_command c s = Some (void m s)"
  shows "commands m"
proof (rule commandsI)
  fix s r t assume "m s = (r, t)"
  then have "snd (void m s) = t" by (cases r) (simp_all add: void_def seq_def return_ok_def)
  then have "run_command c s = Some (fst (void m s), t)" using assms by (metis prod.collapse)
  then show "vos_step\<^sup>*\<^sup>* s t" unfolding vos_step_def by blast
qed

lemma commands_seq: "commands m \<Longrightarrow> (\<And>v. commands (f v)) \<Longrightarrow> commands (seq m f)"
  unfolding commands_def by (blast elim: seq_cases intro: rtranclp_trans)

lemma commands_result: "commands (of_result r)" "commands (return_ok v)" "commands (return_err e)"
  by (simp_all add: commands_def of_result_def return_ok_def return_err_def)

lemma commands_operations: "commands load_state" "commands (create_node now cn)" "commands (create_session now cs)"
  "commands (append_session_event now ae)"
  by (rule commands_void[of ReadCommand], simp) (rule commands_void[of "CreateNodeCommand now cn"], simp,
    rule commands_void[of "CreateSessionCommand now cs"], simp, rule commands_void[of "AppendEventCommand now ae"], simp)

lemma commands_direct:
  "commands (direct_ensure_priority_node i now)" "commands (direct_ensure_session i known now)"
  "commands (direct_append_authorized i p now)" "commands (direct_append_result i p now)"
  unfolding direct_ensure_priority_node_def list_nodes_by_filter_def read_state_def direct_ensure_session_def
    direct_append_authorized_def direct_append_result_def
  by (auto intro!: commands_seq commands_result commands_operations split: option.split)

text \<open>A worker that changes VOS only through the commands of the service.\<close>

definition uses_commands :: "'c worker \<Rightarrow> bool" where
  "uses_commands worker \<longleftrightarrow> (\<forall>req s c r t c'. worker req (s, c) = (r, (t, c')) \<longrightarrow> vos_step\<^sup>*\<^sup>* s t)"

definition from_state :: "vos \<Rightarrow> 'c machine \<Rightarrow> bool" where
  "from_state s w \<longleftrightarrow> vos_step\<^sup>*\<^sup>* s (fst w)"

lemma call_vos_from_state:
  assumes "\<And>now. commands (m now)"
  shows "keeps (from_state s) (call_vos clock m)"
proof (rule keepsI)
  fix w r w' assume "from_state s w" and "call_vos clock m w = (r, w')"
  moreover from this(2) obtain now q where "m now (fst w) = (q, fst w')"
    by (auto simp: call_vos_def split: prod.splits)
  ultimately show "from_state s w'" using assms[of now] unfolding commands_def from_state_def by (metis rtranclp_trans)
qed

lemma direct_world_invariant:
  assumes "uses_commands worker"
  shows "world_invariant (direct_gateways clock worker) (from_state s)"
proof
  show "keeps (from_state s) (gw_execute (direct_gateways clock worker) req)" for req
    by (rule keepsI) (use assms in \<open>force simp: direct_gateways_def uses_commands_def from_state_def\<close>)
  show "from_state s w \<Longrightarrow> gw_now (direct_gateways clock worker) w = (now, w') \<Longrightarrow> from_state s w'" for w now w'
    by (auto simp: direct_gateways_def from_state_def split: prod.splits)
qed (auto simp: direct_gateways_def intro: call_vos_from_state commands_direct)



text \<open>A worker that runs the commands a script gives it, for any script.\<close>

definition scripted :: "(worker_execute_request \<Rightarrow> vos_command list) \<Rightarrow> worker_execute_response \<Rightarrow> nat worker" where
  "scripted script answer req w = (Inr answer, (run_all (script req) (fst w), snd w))"

lemma run_all_steps: "vos_step\<^sup>*\<^sup>* s (run_all cs s)"
proof (induction cs arbitrary: s)
  case (Cons c cs)
  have "vos_step s t" if "run_command c s = Some (r, t)" for r t using that unfolding vos_step_def by blast
  then show ?case using Cons by (auto split: option.split intro: converse_rtranclp_into_rtranclp)
qed simp

lemma scripted_uses_commands: "uses_commands (scripted script answer)"
  by (auto simp: uses_commands_def scripted_def run_all_steps)

interpretation scripted: world_invariant "direct_gateways clock (scripted script answer)" "from_state s" for clock script answer s
  by (rule direct_world_invariant) (rule scripted_uses_commands)

definition ticking :: "nat \<Rightarrow> time \<times> nat" where
  "ticking n = (62135596800000000000 + int n, n + 1)"

definition demo_gateways :: "nat machine gateways" where
  "demo_gateways = direct_gateways ticking (scripted (\<lambda>req. [CreateNodeCommand 50 (demo_node ''d'' ''a'')]) sample_response)"

definition demo_machine :: vos where
  "demo_machine = run_all [CreateTopicCommand 1 demo_topic, CreateNodeCommand 2 (demo_node ''a'' ''r''),
     CreateSessionCommand 3 \<lparr>cs_node_id = ''a'', cs_session_id = ''s1'', cs_status = ''''\<rparr>] demo_vos"



section \<open>The priority node of a topic\<close>

definition priority_leaf :: "string \<Rightarrow> vos_node \<Rightarrow> bool" where
  "priority_leaf tid n \<longleftrightarrow> nd_topic_id n = tid \<and> is_leaf n \<and> nd_name n = PriorityNodeName"

lemma leaf_filter_matches: "matches_node_filter leaf_filter n \<longleftrightarrow> is_leaf n"
  by (simp add: matches_node_filter_def leaf_filter_def)

abbreviation leaves_of :: "string \<Rightarrow> vfs_state \<Rightarrow> vos_node list" where
  "leaves_of tid st \<equiv> sort_slice node_created_before
     (filter (\<lambda>n. nd_topic_id n = tid \<and> matches_node_filter leaf_filter n) (map snd (vf_nodes st)))"

abbreviation priority_of :: "string \<Rightarrow> vfs_state \<Rightarrow> vos_node option" where
  "priority_of tid st \<equiv> List.find (\<lambda>n. nd_name n = PriorityNodeName) (leaves_of tid st)"

lemma priority_of_Some:
  assumes "entries_ok st" and "priority_of tid st = Some n"
  shows "priority_leaf tid n \<and> (\<exists>k. map_of (vf_nodes st) k = Some n)"
  using find_SomeD[OF assms(2)] entry_mem[OF assms(1)] by (force simp: priority_leaf_def leaf_filter_matches)

lemma priority_of_None:
  assumes "entries_ok st" and "priority_of tid st = None" and "map_of (vf_nodes st) k = Some n"
  shows "\<not> priority_leaf tid n"
proof
  assume "priority_leaf tid n"
  moreover have "n \<in> set (map snd (vf_nodes st))" using assms(3) by (force dest: map_of_SomeD)
  ultimately show False using assms(2) by (auto simp: find_None_iff priority_leaf_def leaf_filter_matches)
qed

lemma list_leaves_Inr:
  assumes "list_nodes_by_filter tid leaf_filter s = (Inr nodes, u)"
  shows "\<exists>st. load_state s = (Inr st, u) \<and> nodes = leaves_of tid st"
  using assms by (auto simp: list_nodes_by_filter_def read_state_def seq_Inr_iff of_result_def result_simps)

text \<open>What the gateway finds once a priority node is there; the state is only read.\<close>

lemma ensure_finds:
  assumes ok: "entries_ok (file_state s)" "forest_ok (forest_of (file_state s))" and faults: "vo_faults s = []"
    and n: "map_of (vf_nodes (file_state s)) (nd_id n) = Some n" "nd_topic_id n = tid"
    and found: "priority_of tid (file_state s) = Some n"
  shows "\<exists>u. direct_ensure_priority_node tid now s = (Inr (nd_id n), u) \<and> vo_file u = vo_file s"
proof -
  obtain st k where load: "load_state s = (Inr st, s\<lparr>vo_drawn := k\<rparr>)" and nodes: "vf_nodes st = vf_nodes (file_state s)"
    and fo: "forest_of st = forest_of (file_state s)" using load_ok[OF ok(1) faults] by metis
  have "fr_topics (forest_of st) tid \<noteq> None"
    using forest_nodeD(3)[OF ok(2), of "nd_id n" "node_links n"] n fo by (auto simp del: forest_of_sel(1) simp: forest_of_sel(2))
  then obtain tp where "map_of (vf_topics st) tid = Some tp" by auto
  then have "list_nodes_by_filter tid leaf_filter s = (Inr (leaves_of tid (file_state s)), s\<lparr>vo_drawn := k\<rparr>)"
    using load nodes by (simp add: list_nodes_by_filter_def read_state_def of_result_def result_simps require_topic_def)
  then show ?thesis using found by (simp add: direct_ensure_priority_node_def return_ok_def)
qed

text \<open>
  The gateway gives a topic one priority node: the node it returns is a leaf of the topic with the reserved name, and as
  long as the file stays as it is, every later call returns the same node and writes nothing.
\<close>

theorem priority_node_stable:
  assumes "reachable new_vos vos_step s" and "trim_space tid = tid" and "tid \<noteq> ''''"
    and "direct_ensure_priority_node tid now s = (Inr i, t)" and "vo_faults t = []"
  shows "(\<exists>n. map_of (vf_nodes (file_state t)) i = Some n \<and> priority_leaf tid n) \<and>
    (\<exists>u. direct_ensure_priority_node tid now' t = (Inr i, u) \<and> vo_file u = vo_file t)"
proof -
  have "vos_step\<^sup>*\<^sup>* s t" using commands_direct(1) assms(4) unfolding commands_def by blast
  then have "reachable new_vos vos_step t" using assms(1) by (induction rule: rtranclp_induct) (auto intro: reach_step)
  note ok = conjunct1[OF reachable_file_ok[OF assms(1)]] conjunct2[OF reachable_file_ok[OF assms(1)]]
    and ok' = conjunct1[OF reachable_file_ok[OF this]] conjunct2[OF reachable_file_ok[OF this]]
  obtain st u where load: "load_state s = (Inr st, u)"
    and rest: "(case priority_of tid st of
       Some n \<Rightarrow> return_ok (nd_id n)
     | None \<Rightarrow> seq (create_node now (priority_node_input tid)) (\<lambda>n.
         if trim_space (nd_id n) = '''' then return_err (OtherError ''vos priority node create returned empty id'')
         else return_ok (nd_id n))) u = (Inr i, t)"
    using assms(4) list_leaves_Inr[of tid s] unfolding direct_ensure_priority_node_def seq_Inr_iff by blast
  note loaded = load_nodes[OF ok(1) load]
  have u: "vo_file u = vo_file s" using loaded(4) by (simp add: unchanged_def)
  have "\<exists>n. priority_of tid (file_state t) = Some n \<and> nd_id n = i"
  proof (cases "priority_of tid st")
    case (Some n)
    then have "t = u" "i = nd_id n" using rest by (auto simp: return_ok_def)
    moreover have "vf_nodes (file_state u) = vf_nodes st" using loaded(1) u by (simp add: file_state_def)
    ultimately show ?thesis using Some by auto
  next
    case None
    then obtain n where run: "create_node now (priority_node_input tid) u = (Inr n, t)" and i: "i = nd_id n"
      using rest by (auto simp: seq_Inr_iff return_ok_def return_err_def split: if_splits)
    have oku: "entries_ok (file_state u)" "forest_ok (forest_of (file_state u))" using ok u by (simp_all add: file_state_def)
    have tid: "trim_space (cn_topic_id (priority_node_input tid)) = tid" "cn_name (priority_node_input tid) = PriorityNodeName"
      using assms(2) by (simp_all add: priority_node_input_def)
    then have ne: "trim_space (cn_topic_id (priority_node_input tid)) \<noteq> ''''" using assms(3) by simp
    obtain p pn where n: "nd_children_ids n = []" "nd_name n = PriorityNodeName" "nd_topic_id n = tid"
      and nodes: "map_of (vf_nodes (file_state t)) = (map_of (vf_nodes (file_state u)))(p \<mapsto> add_child now n pn, nd_id n \<mapsto> n)"
      using create_node_effect[OF oku ne run] unfolding tid by blast
    have leaf: "priority_leaf tid n" using n by (simp add: priority_leaf_def is_leaf_def)
    then have "priority_of tid (file_state t) \<noteq> None"
      using priority_of_None[OF ok'(1), of tid "nd_id n" n] nodes by auto
    then obtain m where m: "priority_of tid (file_state t) = Some m" by blast
    obtain k where k: "map_of (vf_nodes (file_state t)) k = Some m" and mleaf: "priority_leaf tid m"
      using priority_of_Some[OF ok'(1) m] by blast
    have "\<not> is_leaf (add_child now n pn)"
      by (simp add: is_leaf_def add_child_def touch_node_def remember_child_memory_def Let_def split: option.split)
    moreover have "\<not> priority_leaf tid m" if "map_of (vf_nodes (file_state u)) k = Some m"
    proof (rule priority_of_None[OF oku(1) _ that])
      have "vf_nodes (file_state u) = vf_nodes st" using loaded(1) u by (simp add: file_state_def)
      then show "priority_of tid (file_state u) = None" using None by simp
    qed
    ultimately have "m = n" using k mleaf nodes by (auto simp: priority_leaf_def split: if_splits)
    then show ?thesis using m i by blast
  qed
  then obtain n where n: "priority_of tid (file_state t) = Some n" "nd_id n = i" by blast
  obtain k where k: "map_of (vf_nodes (file_state t)) k = Some n" and leaf: "priority_leaf tid n"
    using priority_of_Some[OF ok'(1) n(1)] by blast
  have "k = i" using node_id_key[OF ok'(2) k] n(2) by simp
  then show ?thesis using ensure_finds[OF ok' assms(5) _ _ n(1), of now'] k leaf n(2) by (auto simp: priority_leaf_def)
qed


theorem priority_node_stable_witness:
  "case direct_ensure_priority_node ''t'' 9 demo_tree of
     (Inr i, t) \<Rightarrow> map_of (vf_nodes (file_state demo_tree)) i = None \<and>
       (\<exists>u. direct_ensure_priority_node ''t'' 10 t = (Inr i, u) \<and> vo_file u = vo_file t)
   | _ \<Rightarrow> False"
proof -
  have "(case direct_ensure_priority_node ''t'' 9 demo_tree of
     (Inr i, t) \<Rightarrow> map_of (vf_nodes (file_state demo_tree)) i = None \<and> vo_faults t = [] | _ \<Rightarrow> False)" by code_simp
  then obtain i t where run: "direct_ensure_priority_node ''t'' 9 demo_tree = (Inr i, t)"
    and new: "map_of (vf_nodes (file_state demo_tree)) i = None" and faults: "vo_faults t = []"
    by (auto split: prod.splits sum.splits)
  have "trim_space ''t'' = ''t''" by code_simp
  then show ?thesis using priority_node_stable[OF reachable_demo_tree _ _ run faults, of 10] new by (simp add: run)
qed

end
