(* ===== verification/VosFile.thy ===== *)
theory VosFile
  imports VosClaims
begin

text \<open>
  The state file gives back what was written: a state that \<open>Save\<close> has normalised is a fixed point of the normalisation that
  \<open>Load\<close> does, because the identifiers are filled in, the names are trimmed and the legacy metadata have moved.
\<close>

section \<open>Settled states\<close>

definition topic_settled :: "vos_topic \<Rightarrow> bool" where
  "topic_settled t \<longleftrightarrow> (case tp_workspace t of None \<Rightarrow> True | Some w \<Rightarrow> trim_space w = w \<and> w \<noteq> '''') \<and>
     map_of (tp_metadata t) ''workspace_root'' = None \<and> map_of (tp_metadata t) ''user_memory'' = None"

definition process_settled :: "process_item \<Rightarrow> bool" where
  "process_settled p \<longleftrightarrow> pi_id p \<noteq> '''' \<and> trim_space (pi_name p) = pi_name p \<and> pi_status p \<in> {process_todo, process_done}"

definition user_settled :: "vos_user \<Rightarrow> bool" where
  "user_settled u \<longleftrightarrow> trim_space (ur_id u) = ur_id u \<and> ur_id u \<noteq> ''''"

definition settled :: "vfs_state \<Rightarrow> bool" where
  "settled st \<longleftrightarrow> list_all (\<lambda>(i, t). topic_settled t) (vf_topics st) \<and> list_all (\<lambda>(i, n). node_normalized n = n) (vf_nodes st) \<and>
     list_all (\<lambda>(i, p). process_settled p) (vf_processes st) \<and> (\<exists>u. vf_user st = Some u \<and> user_settled u)"

lemma del_absent: "map_of m k = None \<Longrightarrow> del k m = m"
  by (simp add: map_of_eq_None_iff)

lemma topic_settled_fix: "topic_settled t \<Longrightarrow> topic_normalized t = t \<and> drop_user_memory t = t"
  by (auto simp: topic_settled_def topic_normalized_def legacy_workspace_def drop_user_memory_def field_or_nil_def del_absent
      split: option.splits)

lemma process_settled_fix: "process_settled p \<Longrightarrow> process_normalized i 0 0 p = p"
  by (auto simp: process_settled_def process_normalized_def)

lemma user_settled_fix: "user_settled u \<Longrightarrow> user_normalized u = u"
  by (auto simp: user_settled_def user_normalized_def)

lemma normalize_processes_fix: "list_all (\<lambda>(i, p). process_settled p) ps \<Longrightarrow> normalize_processes ids n ps = (ps, n)"
  by (induction ids n ps rule: normalize_processes.induct) (auto simp: process_settled_fix process_settled_def)

lemma migrate_fix:
  assumes "list_all (\<lambda>(i, t). topic_settled t) (vf_topics st)"
  shows "migrate_legacy_topic_user_memory st = st"
proof -
  have "migrate_topic i st = st" for i
  proof (cases "map_of (vf_topics st) i")
    case (Some t)
    then have "topic_settled t" using assms by (auto simp: list_all_iff dest: map_of_SomeD)
    then show ?thesis using Some by (simp add: migrate_topic_def topic_settled_def)
  qed (simp add: migrate_topic_def)
  then have "fold migrate_topic is st = st" for "is" by (induction "is") auto
  then show ?thesis by (simp add: migrate_legacy_topic_user_memory_def split: option.split)
qed

lemma settled_fix:
  assumes "settled st"
  shows "state_normalized ids n st = (st, n)"
proof -
  obtain u where u: "vf_user st = Some u" "user_settled u" using assms by (auto simp: settled_def)
  have topics: "map (\<lambda>(i, t). (i, topic_normalized t)) (vf_topics st) = vf_topics st"
    by (rule map_idI) (use assms in \<open>auto simp: settled_def list_all_iff topic_settled_fix\<close>)
  have nodes: "map (\<lambda>(i, d). (i, node_normalized d)) (vf_nodes st) = vf_nodes st"
    by (rule map_idI) (use assms in \<open>auto simp: settled_def list_all_iff\<close>)
  have procs: "normalize_processes ids n (vf_processes st) = (vf_processes st, n)"
    by (rule normalize_processes_fix) (use assms in \<open>simp add: settled_def\<close>)
  have "migrate_legacy_topic_user_memory st = st" by (rule migrate_fix) (use assms in \<open>simp add: settled_def\<close>)
  moreover have rec: "\<lparr>vf_topics = vf_topics st, vf_nodes = vf_nodes st, vf_processes = vf_processes st, vf_user = Some u\<rparr> = st"
    using u(1) by (cases st) simp
  ultimately show ?thesis unfolding state_normalized_def topics nodes procs u(1) option.case user_settled_fix[OF u(2)]
    by (simp only: rec prod.case)
qed

section \<open>Normalising settles a state\<close>

definition trimmed_topic :: "vos_topic \<Rightarrow> bool" where
  "trimmed_topic t \<longleftrightarrow> (case tp_workspace t of None \<Rightarrow> True | Some w \<Rightarrow> trim_space w = w \<and> w \<noteq> '''') \<and>
     map_of (tp_metadata t) ''workspace_root'' = None"

lemma trimmed_topic_normalized: "trimmed_topic (topic_normalized t)"
  by (auto simp: trimmed_topic_def topic_normalized_def table_simps split: option.split)

lemma trimmed_topic_drop: "trimmed_topic t \<Longrightarrow> topic_settled (drop_user_memory t)"
  by (simp add: trimmed_topic_def topic_settled_def drop_user_memory_def table_simps)

lemma drop_idem: "drop_user_memory (drop_user_memory t) = drop_user_memory t"
  by (simp add: drop_user_memory_def del_absent table_simps)

lemma migrate_topic_lookup:
  "map_of (vf_topics (migrate_topic i st)) k =
   (if k = i then map_option drop_user_memory (map_of (vf_topics st) k) else map_of (vf_topics st) k)"
proof (cases "map_of (vf_topics st) i")
  case (Some t)
  show ?thesis
  proof (cases "map_of (tp_metadata t) ''user_memory''")
    case None
    then have "drop_user_memory t = t" by (simp add: drop_user_memory_def del_absent)
    then show ?thesis using Some None by (simp add: migrate_topic_def)
  qed (use Some in \<open>simp add: migrate_topic_def table_simps\<close>)
qed (simp add: migrate_topic_def)

lemma fold_migrate_lookup:
  "map_of (vf_topics (fold migrate_topic is st)) k =
   (if k \<in> set is then map_option drop_user_memory (map_of (vf_topics st) k) else map_of (vf_topics st) k)"
  by (induction "is" arbitrary: st) (simp_all add: migrate_topic_lookup option.map_comp comp_def drop_idem)

lemma fold_migrate_user:
  "(\<exists>u. vf_user st = Some u \<and> user_settled u) \<Longrightarrow> \<exists>u. vf_user (fold migrate_topic is st) = Some u \<and> user_settled u"
proof (induction "is" arbitrary: st)
  case (Cons i "is")
  have "user_settled (user_with_memory raw u) = user_settled u" for raw u
    by (simp add: user_with_memory_def user_settled_def split: option.split)
  then have "\<exists>u. vf_user (migrate_topic i st) = Some u \<and> user_settled u"
    using Cons.prems by (auto simp: migrate_topic_def split: option.split)
  then show ?case using Cons.IH by simp
qed simp

lemma migrated_topics:
  "map_of (vf_topics (fold migrate_topic (sort (map fst (vf_topics st))) st)) k =
   map_option drop_user_memory (map_of (vf_topics st) k)"
proof (cases "map_of (vf_topics st) k")
  case None
  then show ?thesis by (simp add: fold_migrate_lookup)
next
  case (Some t)
  then have "k \<in> fst ` set (vf_topics st)" by (force dest: map_of_SomeD)
  then show ?thesis using Some by (simp add: fold_migrate_lookup)
qed

lemma all_entries: "keys_distinct t \<Longrightarrow> list_all (\<lambda>(k, v). P v) t \<longleftrightarrow> (\<forall>k v. map_of t k = Some v \<longrightarrow> P v)"
proof -
  assume keys: "keys_distinct t"
  have "list_all (\<lambda>(k, v). P v) t \<longleftrightarrow> (\<forall>k v. (k, v) \<in> set t \<longrightarrow> P v)" unfolding list_all_iff by auto
  then show ?thesis unfolding entry_lookup[OF keys] .
qed

lemma process_normalized_settled: "i \<noteq> '''' \<Longrightarrow> process_settled (process_normalized i a b p)"
  by (simp add: process_settled_def process_normalized_def)

lemma normalize_processes_settled:
  "(\<And>k. ids k \<noteq> '''') \<Longrightarrow> list_all (\<lambda>(i, p). process_settled p) (fst (normalize_processes ids n ps))"
  by (induction ids n ps rule: normalize_processes.induct) (auto simp: process_normalized_settled split: prod.splits)

lemma user_normalized_settled: "user_settled (user_normalized u)"
proof -
  have "trim_space default_user_id = default_user_id" by code_simp
  then show ?thesis by (simp add: user_settled_def user_normalized_def default_user_id_def)
qed

lemma state_normalized_settled:
  assumes ids: "\<And>k. ids k \<noteq> ''''" and keys: "keys_distinct (vf_topics st)"
  shows "settled (fst (state_normalized ids n st))"
proof -
  define st1 where "st1 = \<lparr>vf_topics = map (\<lambda>(i, t). (i, topic_normalized t)) (vf_topics st),
    vf_nodes = map (\<lambda>(i, d). (i, node_normalized d)) (vf_nodes st),
    vf_processes = fst (normalize_processes ids n (vf_processes st)),
    vf_user = Some (user_normalized (case vf_user st of None \<Rightarrow> new_default_user | Some u \<Rightarrow> u))\<rparr>"
  define st2 where "st2 = fold migrate_topic (sort (map fst (vf_topics st1))) st1"
  have eq: "fst (state_normalized ids n st) = st2"
    by (simp add: state_normalized_def migrate_legacy_topic_user_memory_def st1_def st2_def split: prod.split)
  have k1: "keys_distinct (vf_topics st1)" using keys unfolding st1_def vfs_state.select_convs keys_map_values .
  have k2: "keys_distinct (vf_topics st2)" using k1 by (simp add: st2_def fold_migrate_frame)
  have "topic_settled t" if found: "map_of (vf_topics st2) k = Some t" for k t
  proof -
    obtain t1 where t1: "map_of (vf_topics st1) k = Some t1" "t = drop_user_memory t1"
      using found by (auto simp: st2_def migrated_topics)
    then have "trimmed_topic t1" by (auto simp: st1_def map_of_map_values trimmed_topic_normalized)
    then show ?thesis using t1 by (simp add: trimmed_topic_drop)
  qed
  then have topics: "list_all (\<lambda>(i, t). topic_settled t) (vf_topics st2)" using all_entries[OF k2] by blast
  have idem: "node_normalized (node_normalized d) = node_normalized d" for d
    by (simp add: node_normalized_def status_draft_def)
  have "list_all (\<lambda>(i, n). node_normalized n = n) (vf_nodes st2)"
    by (auto simp: st2_def fold_migrate_frame st1_def list_all_iff idem)
  moreover have "list_all (\<lambda>(i, p). process_settled p) (vf_processes st2)"
    using normalize_processes_settled[OF ids] by (simp add: st2_def fold_migrate_frame st1_def)
  moreover have "\<exists>u. vf_user st2 = Some u \<and> user_settled u"
    unfolding st2_def by (rule fold_migrate_user) (simp add: st1_def user_normalized_settled)
  ultimately show ?thesis using topics by (simp add: settled_def eq)
qed

lemma settled_written: "settled st \<Longrightarrow> settled (as_written st)"
  by (auto simp: settled_def as_written_def list_all_iff process_settled_def user_settled_def)

section \<open>Save, then load\<close>


definition demo_legacy :: vfs_state where
  "demo_legacy = new_vfs_state\<lparr>vf_topics := [(''t'', \<lparr>tp_id = ''t'', tp_name = ''T'', tp_root_node_id = ''r'', tp_workspace = None,
     tp_metadata = [(''workspace_root'', JStr '' /w ''), (''user_memory'', JObj [(''k'', JBool True)])],
     tp_description = None, tp_tags = [], tp_created_at = 1, tp_updated_at = 1\<rparr>)],
     vf_processes := [(''p'', \<lparr>pi_id = '''', pi_name = '' step '', pi_status = ''?'', pi_session_range = None, pi_summary = Some [],
       pi_compacted_session_ids = [], pi_timestamp = 0\<rparr>)]\<rparr>"


end
