(* ===== verification/VosGrants.thy ===== *)
theory VosGrants
  imports VosPermission VosClaims
begin

text \<open>
  What the permission service promises: what is granted is listed until it is deleted, however often the state file is
  read and written in between, and the summary of a topic's policy audits counts them.
\<close>

section \<open>Text that survives being stored\<close>

lemma trim_space_id: "s = '''' \<or> \<not> is_space (hd s) \<and> \<not> is_space (last s) \<Longrightarrow> trim_space s = s"
proof (cases s)
  case (Cons c r)
  assume "s = '''' \<or> \<not> is_space (hd s) \<and> \<not> is_space (last s)"
  then have "dropWhile is_space s = s" "s \<noteq> []" "\<not> is_space (last s)" using Cons by auto
  then show ?thesis using dropWhile_snoc_id[of s is_space] by (simp add: trim_space_def)
qed simp

lemma trim_space_sublist: "\<exists>a b. s = a @ trim_space s @ b"
proof -
  have pre: "\<exists>a. s = a @ dropWhile P s" for P and s :: string
    by (metis takeWhile_dropWhile_id)
  obtain a where a: "s = a @ dropWhile is_space s" using pre by blast
  obtain b where b: "rev (dropWhile is_space s) = b @ dropWhile is_space (rev (dropWhile is_space s))" using pre by blast
  have "dropWhile is_space s = trim_space s @ rev b" using arg_cong[OF b, of rev] by (simp add: trim_space_def)
  then show ?thesis using a by metis
qed

lemma length_trim_space: "length (trim_space s) \<le> length s"
  and trim_space_full: "length (trim_space s) = length s \<Longrightarrow> trim_space s = s"
proof -
  obtain a b where s: "s = a @ trim_space s @ b" using trim_space_sublist by blast
  have l: "length s = length a + length (trim_space s) + length b" using arg_cong[OF s, of length] by simp
  then show "length (trim_space s) \<le> length s" by simp
  show "trim_space s = s" if "length (trim_space s) = length s" using l that s by simp
qed

lemma length_collapse: "length (collapse_slashes s) \<le> length s"
proof (induction s rule: collapse_slashes.induct)
  case (1 s)
  then show ?case using length_replace_double[of s] by (subst collapse_slashes.simps) auto
qed

lemma length_normalize: "length (normalize_dir_prefix s) \<le> length (trim_space s)"
  using length_collapse[of "map (\<lambda>c. if c = CHR 0x5C then CHR ''/'' else c) (trim_space s)"]
  by (auto simp: normalize_dir_prefix_def Let_def trim_slash_def)

text \<open>A prefix in normal form: normalising it again changes nothing. Not every result of \<open>normalizeDirPrefix\<close> is one.\<close>

definition settled_prefix :: "string \<Rightarrow> bool" where
  "settled_prefix s \<longleftrightarrow> normalize_dir_prefix s = s"

lemma settled_trim: "settled_prefix s \<Longrightarrow> trim_space s = s"
  using length_normalize[of s] length_trim_space[of s] trim_space_full[of s] by (simp add: settled_prefix_def)

lemma normalize_not_idempotent: "\<not> settled_prefix (normalize_dir_prefix ''a /'')"
  by code_simp

lemma settled_unseen:
  "list_all settled_prefix vs \<Longrightarrow> distinct vs \<Longrightarrow> '''' \<notin> set vs \<Longrightarrow> set vs \<inter> set seen = {} \<Longrightarrow> normalize_unseen seen vs = vs"
  by (induction vs arbitrary: seen) (auto simp: settled_prefix_def Let_def)

definition prefixes_ok :: "string list \<Rightarrow> bool" where
  "prefixes_ok vs \<longleftrightarrow> list_all settled_prefix vs \<and> distinct vs \<and> '''' \<notin> set vs"

lemma normalize_prefixes_ok: "prefixes_ok vs \<Longrightarrow> normalize_prefixes vs = vs"
  unfolding normalize_prefixes_def prefixes_ok_def by (rule settled_unseen) simp_all

lemma read_string_JStr [simp]: "read_string (JStr s) = trim_space s"
  by (simp add: read_string_def string_or_zero_def)

lemma read_strings:
  "(\<And>s. s \<in> set vs \<Longrightarrow> trim_space s = s \<and> s \<noteq> '''') \<Longrightarrow> read_string_array (json_strings vs) = vs"
proof -
  assume a: "\<And>s. s \<in> set vs \<Longrightarrow> trim_space s = s \<and> s \<noteq> ''''"
  then have "map read_string (map JStr vs) = vs" by (induction vs) auto
  then show ?thesis using a by (auto simp: read_string_array_def json_strings_def filter_id_conv)
qed

lemma read_prefixes: "prefixes_ok vs \<Longrightarrow> read_string_array (json_strings vs) = vs"
  by (rule read_strings) (auto simp: prefixes_ok_def list_all_iff settled_trim)

lemma normalize_unseen_result:
  assumes "list_all (\<lambda>v. settled_prefix (normalize_dir_prefix v)) vs"
  shows "prefixes_ok (normalize_unseen seen vs) \<and> set (normalize_unseen seen vs) \<inter> set seen = {}"
  using assms
proof (induction vs arbitrary: seen)
  case (Cons v vs)
  let ?n = "normalize_dir_prefix v"
  have tail: "prefixes_ok (normalize_unseen seen' vs) \<and> set (normalize_unseen seen' vs) \<inter> set seen' = {}" for seen'
    using Cons by simp
  show ?case
  proof (cases "?n = '''' \<or> ?n \<in> set seen")
    case True
    then have "normalize_unseen seen (v # vs) = normalize_unseen seen vs" by (auto simp: Let_def)
    then show ?thesis using tail by simp
  next
    case False
    then have "normalize_unseen seen (v # vs) = ?n # normalize_unseen (?n # seen) vs" by (simp add: Let_def)
    then show ?thesis using tail[of "?n # seen"] False Cons.prems by (auto simp: prefixes_ok_def)
  qed
qed (simp add: prefixes_ok_def)

text \<open>Times: the zero time and those whose year has four digits.\<close>

definition storable_time :: "time \<Rightarrow> bool" where
  "storable_time t \<longleftrightarrow> t = 0 \<or> four_digit_year t"

lemma is_space_digit: "is_digit c \<Longrightarrow> \<not> is_space c"
  by (auto simp: is_space_def is_digit_def)

lemma format_trimmed:
  assumes "four_digit_year t"
  shows "trim_space (format_rfc3339_nano t) = format_rfc3339_nano t" and "format_rfc3339_nano t \<noteq> ''''"
proof -
  obtain y m d where date: "civil_date (t div 1000000000 div 86400) = (y, m, d)" by (metis prod_cases3)
  have y: "0 \<le> y" "y \<le> 9999" using year_bounds[OF date] assms by (auto simp: four_digit_year_def)
  obtain c r where c: "pad_int 4 y = c # r" "is_digit c"
    using y fixed_digits_digits[of _ 4 y] length_fixed_digits[of 4 y] by (cases "fixed_digits 4 y") (auto simp: pad_int_def)
  obtain z where z: "format_rfc3339_nano t = c # z @ ''Z''"
    using that by (simp add: format_rfc3339_nano_def Let_def date c)
  show "trim_space (format_rfc3339_nano t) = format_rfc3339_nano t"
    by (rule trim_space_id) (use z c(2) is_space_digit in \<open>simp add: is_space_def\<close>)
  show "format_rfc3339_nano t \<noteq> ''''" using z by simp
qed

lemma decode_encode_time: "storable_time t \<Longrightarrow> decode_time (JStr (encode_time t)) = t"
  using format_trimmed parse_format_roundtrip
  by (auto simp: storable_time_def decode_time_def encode_time_def string_or_zero_def time_or_zero_def)

lemma parse_encode_time: "storable_time t \<Longrightarrow> time_or_zero (parse_time (JStr (encode_time t))) = t"
  using format_trimmed parse_format_roundtrip
  by (auto simp: storable_time_def parse_time_def encode_time_def time_or_zero_def)

section \<open>Rows of JSON\<close>

text \<open>
  The contract between an encoder and a decoder of rows: a value that is in order is decoded as it was encoded. Lists of rows
  are then read back whole, whatever the decoder does with other rows.
\<close>

locale row_codec =
  fixes encode :: "'a \<Rightarrow> json"
    and decode :: "json_object \<Rightarrow> 'a option"
    and ok :: "'a \<Rightarrow> bool"
  assumes decode_encode: "ok x \<Longrightarrow> \<exists>row. as_object (encode x) = Some row \<and> decode row = Some x"
begin

lemma decode_rows: "list_all ok xs \<Longrightarrow> List.map_filter decode (List.map_filter as_object (map encode xs)) = xs"
proof (induction xs)
  case (Cons x xs)
  then obtain row where "as_object (encode x) = Some row" "decode row = Some x" using decode_encode by fastforce
  then show ?case using Cons by (simp add: map_filter_simps)
qed (simp add: map_filter_simps)

end

section \<open>The metadata of a topic in the file\<close>

definition metadata_field :: "string \<Rightarrow> vfs_state \<Rightarrow> string \<Rightarrow> json option" where
  "metadata_field k st i = map_option (\<lambda>t. field_or_nil (tp_metadata t) k) (map_of (vf_topics st) i)"

definition own_key :: "string \<Rightarrow> bool" where
  "own_key k \<longleftrightarrow> k \<notin> {''workspace_root'', ''user_memory''}"

lemma own_permission [simp]: "own_key topic_permission_metadata_key"
  by (simp add: own_key_def topic_permission_metadata_key_def)

lemma metadata_field_change:
  "metadata_field k (change_topic j f st) i =
     (if i = j then map_option (\<lambda>t. field_or_nil (tp_metadata (f t)) k) (map_of (vf_topics st) i) else metadata_field k st i)"
  by (simp add: metadata_field_def change_topic_def table_simps option.map_comp comp_def)

lemma metadata_field_migrate: "own_key k \<Longrightarrow> metadata_field k (migrate_topic j st) i = metadata_field k st i"
  by (auto simp: metadata_field_def migrate_topic_def table_simps drop_user_memory_def own_key_def field_or_nil_def
      split: option.splits)

lemma metadata_field_fold: "own_key k \<Longrightarrow> metadata_field k (fold migrate_topic js st) i = metadata_field k st i"
  by (induction js arbitrary: st) (simp_all add: metadata_field_migrate)

lemma metadata_field_normalized:
  assumes "own_key k"
  shows "metadata_field k (fst (state_normalized ids n st)) i = metadata_field k st i"
proof -
  have "field_or_nil (tp_metadata (topic_normalized t)) k = field_or_nil (tp_metadata t) k" for t
    using assms by (simp add: topic_normalized_def field_or_nil_def table_simps own_key_def)
  then have "metadata_field k \<lparr>vf_topics = map (\<lambda>(i, t). (i, topic_normalized t)) (vf_topics st), vf_nodes = ns, vf_processes = ps, vf_user = u\<rparr> i
      = metadata_field k st i" for ns ps u
    by (simp add: metadata_field_def map_of_map_values option.map_comp comp_def)
  then show ?thesis
    by (simp add: state_normalized_def migrate_legacy_topic_user_memory_def metadata_field_fold[OF assms] split: prod.split option.split)
qed

lemma metadata_field_written [simp]: "metadata_field k (as_written st) i = metadata_field k st i"
  by (simp add: metadata_field_def as_written_def)

lemma metadata_field_topic: "metadata_field k st i = Some v \<Longrightarrow> \<exists>t. require_topic st i = Inr t \<and> field_or_nil (tp_metadata t) k = v"
  by (auto simp: metadata_field_def require_topic_def)

lemma load_metadata:
  assumes "vo_faults s = []"
  obtains st n where "load_state s = (Inr st, s\<lparr>vo_drawn := n\<rparr>)"
    and "\<And>k i. own_key k \<Longrightarrow> metadata_field k st i = metadata_field k (file_state s) i"
proof (cases "vo_file s")
  case None
  then have "load_state s = (Inr new_vfs_state, s\<lparr>vo_drawn := vo_drawn s\<rparr>)"
    using assms by (simp add: load_state_def disk_ok return_ok_def)
  then show thesis by (rule that) (simp add: None file_state_def)
next
  case (Some st0)
  obtain st n where st: "state_normalized (vo_ids s) (vo_drawn s) st0 = (st, n)" by fastforce
  then have "load_state s = (Inr st, s\<lparr>vo_drawn := n\<rparr>)"
    using assms Some by (simp add: load_state_def disk_ok normalize_def)
  then show thesis
    by (rule that) (use metadata_field_normalized[of _ "vo_ids s" "vo_drawn s" st0] st Some in \<open>simp add: file_state_def\<close>)
qed

lemma save_metadata:
  assumes "vo_faults s = []"
  obtains st' n where "save_state st s = (Inr st', s\<lparr>vo_drawn := n, vo_file := Some (as_written st')\<rparr>)"
    and "\<And>k i. own_key k \<Longrightarrow> metadata_field k (as_written st') i = metadata_field k st i"
proof -
  obtain st' n where st': "state_normalized (vo_ids s) (vo_drawn s) st = (st', n)" by fastforce
  then have "save_state st s = (Inr st', s\<lparr>vo_drawn := n, vo_file := Some (as_written st')\<rparr>)"
    using assms by (simp add: save_state_def normalize_def disk_ok)
  then show thesis
    by (rule that) (use metadata_field_normalized[of _ "vo_ids s" "vo_drawn s" st] st' in simp)
qed

section \<open>Permissions that are stored\<close>

definition permission_ok :: "topic_tool_permission \<Rightarrow> bool" where
  "permission_ok p \<longleftrightarrow> trim_space (ta_id p) = ta_id p \<and> ta_id p \<noteq> '''' \<and>
     trim_space (ta_tool_name p) = ta_tool_name p \<and> ta_tool_name p \<noteq> '''' \<and> settled_prefix (ta_dir_prefix p) \<and>
     prefixes_ok (ta_read_path_prefixes p) \<and> prefixes_ok (ta_write_path_prefixes p) \<and>
     prefixes_or (ta_dir_prefix p) (ta_read_path_prefixes p) = ta_read_path_prefixes p \<and>
     prefixes_or (ta_dir_prefix p) (ta_write_path_prefixes p) = ta_write_path_prefixes p \<and>
     (ta_read_path_prefixes p \<noteq> [] \<or> ta_write_path_prefixes p \<noteq> []) \<and>
     normalize_risk_level (ta_risk_level p) = ta_risk_level p \<and> trim_space (ta_created_by p) = ta_created_by p \<and>
     storable_time (ta_created_at p) \<and> storable_time (ta_last_used_at p)"

lemma field_Cons [simp]: "field_or_nil ((k, v) # m) j = (if k = j then v else field_or_nil m j)"
  by (simp add: field_or_nil_def)

lemma field_Nil [simp]: "field_or_nil [] j = JNull"
  by (simp add: field_or_nil_def)

lemma has_field_Cons [simp]: "has_field ((k, v) # m) j \<longleftrightarrow> k = j \<or> has_field m j"
  by (simp add: has_field_def)

lemma decode_encode_allow:
  assumes ok: "permission_ok p" and "as_object (encode_allow p) = Some row"
  shows "decode_allow i row = Some p" and "string_or_zero (field_or_nil row ''id'') \<noteq> ''''"
proof -
  have row: "JObj row = encode_allow p" using assms(2) by (simp add: encode_allow_def)
  have fields: "string_or_zero (field_or_nil row ''id'') = ta_id p" "read_string (field_or_nil row ''tool_name'') = ta_tool_name p"
    "normalize_dir_prefix (string_or_zero (field_or_nil row ''dir_prefix'')) = ta_dir_prefix p"
    "read_string_array (field_or_nil row ''read_path_prefixes'') = ta_read_path_prefixes p"
    "read_string_array (field_or_nil row ''write_path_prefixes'') = ta_write_path_prefixes p"
    "read_bool (field_or_nil row ''allow_network'') = ta_allow_network p"
    "read_bool (field_or_nil row ''allow_shell_features'') = ta_allow_shell_features p"
    "normalize_risk_level (string_or_zero (field_or_nil row ''risk_level'')) = ta_risk_level p"
    "read_string (field_or_nil row ''created_by'') = ta_created_by p"
    "decode_time (field_or_nil row ''created_at'') = ta_created_at p"
    "decode_time (field_or_nil row ''last_used_at'') = ta_last_used_at p"
    "has_field row ''enabled''" "read_bool (field_or_nil row ''enabled'') = ta_enabled p"
    using ok row unfolding encode_allow_def permission_ok_def settled_prefix_def
    by (simp_all add: string_or_zero_def read_bool_def read_prefixes normalize_prefixes_ok decode_encode_time)
  show "decode_allow i row = Some p" unfolding decode_allow_def Let_def fields
    using ok fields(12) by (simp add: permission_ok_def normalize_prefixes_ok)
  show "string_or_zero (field_or_nil row ''id'') \<noteq> ''''" using ok fields(1) by (simp add: permission_ok_def)
qed

lemma decode_encode_allows:
  "list_all permission_ok ps \<Longrightarrow> decode_allows ids n (map encode_allow ps) = (ps, n)"
proof (induction ps)
  case (Cons p ps)
  obtain row where row: "as_object (encode_allow p) = Some row" by (simp add: encode_allow_def)
  have "permission_ok p" using Cons.prems by simp
  note decode = decode_encode_allow[OF this row]
  show ?case using Cons row decode by simp
qed simp

definition allows_in :: "json \<Rightarrow> json list" where
  "allows_in v = (case as_object v of
       None \<Rightarrow> []
     | Some permission \<Rightarrow> (case as_array (field_or_nil permission topic_tool_allows_key) of None \<Rightarrow> [] | Some items \<Rightarrow> items))"

lemma stored_allows_in: "stored_allows m = allows_in (field_or_nil m topic_permission_metadata_key)"
  by (simp add: stored_allows_def allows_in_def)

text \<open>The file grants exactly the permissions \<open>ps\<close> in the topic.\<close>

definition granted :: "vos \<Rightarrow> string \<Rightarrow> topic_tool_permission list \<Rightarrow> bool" where
  "granted s tid ps \<longleftrightarrow> (\<exists>v. metadata_field topic_permission_metadata_key (file_state s) tid = Some v \<and>
     allows_in v = map encode_allow ps) \<and> list_all permission_ok ps"

lemma field_put: "field_or_nil (put k v m) j = (if k = j then v else field_or_nil m j)"
  by (simp add: field_or_nil_def table_simps)

lemma allows_in_stored: "allows_in (field_or_nil (tp_metadata (store_allows now ps t)) topic_permission_metadata_key) = map encode_allow ps"
  by (simp add: store_allows_def touch_topic_def with_metadata_def put_permission_def field_put allows_in_def
      encode_topic_tool_allows_def)

text \<open>Loading the file and decoding the permissions of the topic.\<close>

lemma granted_load:
  assumes "granted s tid ps" and "vo_faults s = []"
  obtains st n t v where "load_state s = (Inr st, s\<lparr>vo_drawn := n\<rparr>)" and "require_topic st tid = Inr t"
    and "decode_topic_tool_allows (tp_metadata t) (s\<lparr>vo_drawn := n\<rparr>) = (Inr ps, s\<lparr>vo_drawn := n\<rparr>)"
proof -
  obtain v where v: "metadata_field topic_permission_metadata_key (file_state s) tid = Some v"
    "allows_in v = map encode_allow ps" "list_all permission_ok ps" using assms(1) by (auto simp: granted_def)
  obtain st n where st: "load_state s = (Inr st, s\<lparr>vo_drawn := n\<rparr>)"
    "metadata_field topic_permission_metadata_key st tid = Some v"
    using load_metadata[OF assms(2)] v(1) by (metis own_permission)
  obtain t where t: "require_topic st tid = Inr t" "field_or_nil (tp_metadata t) topic_permission_metadata_key = v"
    using metadata_field_topic[OF st(2)] by blast
  have "decode_topic_tool_allows (tp_metadata t) (s\<lparr>vo_drawn := n\<rparr>) = (Inr ps, s\<lparr>vo_drawn := n\<rparr>)"
    by (simp add: decode_topic_tool_allows_def stored_allows_in t(2) v(2) decode_encode_allows[OF v(3)])
  then show thesis using that st(1) t(1) by blast
qed

lemma granted_save:
  assumes "require_topic st tid = Inr t" and "vo_faults s = []" and "list_all permission_ok ps"
  obtains st' u where "save_state (change_topic tid (store_allows now ps) st) s = (Inr st', u)"
    and "granted u tid ps" and "vo_faults u = []" and "vo_ids u = vo_ids s"
proof -
  let ?st = "change_topic tid (store_allows now ps) st"
  obtain st' n where sv: "save_state ?st s = (Inr st', s\<lparr>vo_drawn := n, vo_file := Some (as_written st')\<rparr>)"
    and field: "metadata_field topic_permission_metadata_key (as_written st') tid = metadata_field topic_permission_metadata_key ?st tid"
    using save_metadata[OF assms(2), of ?st] by (metis own_permission)
  have t: "map_of (vf_topics st) tid = Some t" using assms(1) by (simp add: require_topic_def split: option.splits)
  have "granted (s\<lparr>vo_drawn := n, vo_file := Some (as_written st')\<rparr>) tid ps"
    unfolding granted_def using assms(3) field t by (simp add: file_state_def metadata_field_change allows_in_stored)
  then show thesis using that[OF sv] assms(2) by simp
qed

lemma list_granted:
  assumes "granted s tid ps" and "vo_faults s = []" and "trim_space topic_id = tid" and "tid \<noteq> ''''"
  shows "\<exists>n. list_topic_tool_permissions topic_id s = (Inr ps, s\<lparr>vo_drawn := n\<rparr>)"
proof -
  obtain st n t where "load_state s = (Inr st, s\<lparr>vo_drawn := n\<rparr>)" "require_topic st tid = Inr t"
    "decode_topic_tool_allows (tp_metadata t) (s\<lparr>vo_drawn := n\<rparr>) = (Inr ps, s\<lparr>vo_drawn := n\<rparr>)"
    using granted_load[OF assms(1,2)] by blast
  then show ?thesis using assms(3,4) by (simp add: list_topic_tool_permissions_def of_result_def) blast
qed

text \<open>A request for a permission that can be granted, and that it was granted by a permission.\<close>

definition requested_read :: "topic_tool_permission_input \<Rightarrow> string list" where
  "requested_read inp = prefixes_or (normalize_dir_prefix (ti_dir_prefix inp)) (normalize_prefixes (ti_read_path_prefixes inp))"

definition requested_write :: "topic_tool_permission_input \<Rightarrow> string list" where
  "requested_write inp = prefixes_or (normalize_dir_prefix (ti_dir_prefix inp)) (normalize_prefixes (ti_write_path_prefixes inp))"

definition good_request :: "topic_tool_permission_input \<Rightarrow> bool" where
  "good_request inp \<longleftrightarrow> trim_space (ti_tool_name inp) \<noteq> '''' \<and> (requested_read inp \<noteq> [] \<or> requested_write inp \<noteq> []) \<and>
     list_all (\<lambda>v. settled_prefix (normalize_dir_prefix v))
       (ti_dir_prefix inp # ti_read_path_prefixes inp @ ti_write_path_prefixes inp)"

definition grants :: "topic_tool_permission_input \<Rightarrow> topic_tool_permission \<Rightarrow> bool" where
  "grants inp p \<longleftrightarrow> same_permission (trim_space (ti_tool_name inp)) (requested_read inp) (requested_write inp)
     (normalize_risk_level (ti_risk_level inp)) inp p"

definition good_ids :: "vos \<Rightarrow> bool" where
  "good_ids s \<longleftrightarrow> (\<forall>n. trim_space (vo_ids s n) = vo_ids s n \<and> vo_ids s n \<noteq> '''')"

lemma prefixes_or_ok: "settled_prefix d \<Longrightarrow> prefixes_ok ps \<Longrightarrow> prefixes_ok (prefixes_or d ps)"
  by (auto simp: prefixes_or_def prefixes_ok_def)

lemma prefixes_or_idem [simp]: "prefixes_or d (prefixes_or d ps) = prefixes_or d ps"
  by (auto simp: prefixes_or_def)

lemma to_lower_char_idem: "to_lower_char (to_lower_char c) = to_lower_char c"
proof -
  have "(of_char (char_of ((of_char c :: nat) + 32) :: char) :: nat) = of_char c + 32" if "(of_char c :: nat) \<le> 90"
    using that by (subst of_char_of) simp
  then show ?thesis by (simp add: to_lower_char_def)
qed

lemma risk_level_idem: "normalize_risk_level (normalize_risk_level r) = normalize_risk_level r"
proof -
  have "normalize_risk_level r \<in> {''low'', ''medium'', ''high''}" by (auto simp: normalize_risk_level_def Let_def)
  moreover have "normalize_risk_level ''low'' = ''low''" "normalize_risk_level ''medium'' = ''medium''"
    "normalize_risk_level ''high'' = ''high''" by code_simp+
  ultimately show ?thesis by fastforce
qed

lemma new_permission_ok:
  assumes "good_request inp" and "storable_time now" and "trim_space i = i" "i \<noteq> ''''"
  shows "permission_ok (new_permission now (trim_space (ti_tool_name inp)) (normalize_dir_prefix (ti_dir_prefix inp))
    (requested_read inp) (requested_write inp) (normalize_risk_level (ti_risk_level inp)) inp i)"
proof -
  have dir: "settled_prefix (normalize_dir_prefix (ti_dir_prefix inp))" using assms(1) by (simp add: good_request_def)
  have "prefixes_ok (normalize_prefixes (ti_read_path_prefixes inp))" "prefixes_ok (normalize_prefixes (ti_write_path_prefixes inp))"
    using assms(1) normalize_unseen_result by (auto simp: good_request_def normalize_prefixes_def)
  then have "prefixes_ok (requested_read inp)" "prefixes_ok (requested_write inp)"
    by (simp_all add: requested_read_def requested_write_def prefixes_or_ok dir)
  moreover have "prefixes_or (normalize_dir_prefix (ti_dir_prefix inp)) (requested_read inp) = requested_read inp"
    "prefixes_or (normalize_dir_prefix (ti_dir_prefix inp)) (requested_write inp) = requested_write inp"
    by (simp_all add: requested_read_def requested_write_def)
  ultimately show ?thesis using assms dir
    by (simp add: permission_ok_def new_permission_def good_request_def risk_level_idem storable_time_def)
qed

section \<open>Granting and revoking\<close>

lemma add_granted:
  assumes g: "granted s tid ps" and faults: "vo_faults s = []" and tid: "trim_space topic_id = tid" "tid \<noteq> ''''"
    and req: "good_request inp" and now: "storable_time now" and ids: "good_ids s"
  shows "\<exists>p t. add_topic_tool_permission_v2 now topic_id inp s = (Inr p, t) \<and> grants inp p \<and> vo_faults t = [] \<and>
    vo_ids t = vo_ids s \<and>
    (case List.find (grants inp) ps of Some q \<Rightarrow> p = q \<and> vo_file t = vo_file s | None \<Rightarrow> granted t tid (ps @ [p]))"
proof -
  obtain st n t where load: "load_state s = (Inr st, s\<lparr>vo_drawn := n\<rparr>)" "require_topic st tid = Inr t"
    "decode_topic_tool_allows (tp_metadata t) (s\<lparr>vo_drawn := n\<rparr>) = (Inr ps, s\<lparr>vo_drawn := n\<rparr>)"
    using granted_load[OF g faults] by blast
  have gr: "same_permission (trim_space (ti_tool_name inp)) (requested_read inp) (requested_write inp)
      (normalize_risk_level (ti_risk_level inp)) inp = grants inp" by (simp add: fun_eq_iff grants_def)
  have ok: "trim_space (ti_tool_name inp) \<noteq> ''''" "\<not> (requested_read inp = [] \<and> requested_write inp = [])"
    using req by (auto simp: good_request_def)
  have add: "add_topic_tool_permission_v2 now topic_id inp =
      seq load_state (\<lambda>st. seq (of_result (require_topic st tid)) (\<lambda>t. seq (decode_topic_tool_allows (tp_metadata t)) (\<lambda>allows.
      case List.find (grants inp) allows of
        Some p \<Rightarrow> return_ok p
      | None \<Rightarrow> seq draw_id (\<lambda>i.
          let p = new_permission now (trim_space (ti_tool_name inp)) (normalize_dir_prefix (ti_dir_prefix inp))
            (requested_read inp) (requested_write inp) (normalize_risk_level (ti_risk_level inp)) inp i in
          seq (save_state (change_topic tid (store_allows now (allows @ [p])) st)) (\<lambda>_. return_ok p)))))"
    unfolding add_topic_tool_permission_v2_def Let_def tid(1) requested_read_def[symmetric] requested_write_def[symmetric] gr
    using tid(2) ok by (simp only: if_False simp_thms)
  show ?thesis
  proof (cases "List.find (grants inp) ps")
    case (Some q)
    then have "add_topic_tool_permission_v2 now topic_id inp s = (Inr q, s\<lparr>vo_drawn := n\<rparr>)"
      using load tid(2) ok by (simp add: add of_result_def return_ok_def)
    then show ?thesis using Some find_SomeD[OF Some] faults by simp
  next
    case None
    define i where "i = vo_ids s n"
    define p where "p = new_permission now (trim_space (ti_tool_name inp)) (normalize_dir_prefix (ti_dir_prefix inp))
      (requested_read inp) (requested_write inp) (normalize_risk_level (ti_risk_level inp)) inp i"
    have "permission_ok p" unfolding p_def using ids by (intro new_permission_ok[OF req now]) (simp_all add: good_ids_def i_def)
    then have "list_all permission_ok (ps @ [p])" using g by (simp add: granted_def)
    from granted_save[OF load(2) _ this, of "s\<lparr>vo_drawn := n + 1\<rparr>" now] faults
    obtain st' u where save: "save_state (change_topic tid (store_allows now (ps @ [p])) st) (s\<lparr>vo_drawn := n + 1\<rparr>) = (Inr st', u)"
      "granted u tid (ps @ [p])" "vo_faults u = []" "vo_ids u = vo_ids s" by auto
    have draw: "draw_id (s\<lparr>vo_drawn := n\<rparr>) = (Inr i, s\<lparr>vo_drawn := n + 1\<rparr>)" by (simp add: draw_id_def i_def)
    have "add_topic_tool_permission_v2 now topic_id inp s = (Inr p, u)"
      using load tid(2) ok None save(1) draw by (simp add: add Let_def of_result_def return_ok_def p_def)
    moreover have "grants inp p" by (simp add: grants_def p_def same_permission_def new_permission_def)
    ultimately show ?thesis using None save by simp
  qed
qed

lemma delete_granted:
  assumes g: "granted s tid ps" and faults: "vo_faults s = []" and tid: "trim_space topic_id = tid" "tid \<noteq> ''''"
    and mem: "p \<in> set ps"
  shows "\<exists>t. delete_topic_tool_permission now topic_id (ta_id p) s = (Inr True, t) \<and> vo_faults t = [] \<and>
    granted t tid (filter (\<lambda>q. ta_id q \<noteq> ta_id p) ps)"
proof -
  obtain st n t where load: "load_state s = (Inr st, s\<lparr>vo_drawn := n\<rparr>)" "require_topic st tid = Inr t"
    "decode_topic_tool_allows (tp_metadata t) (s\<lparr>vo_drawn := n\<rparr>) = (Inr ps, s\<lparr>vo_drawn := n\<rparr>)"
    using granted_load[OF g faults] by blast
  have ok: "list_all permission_ok ps" using g by (simp add: granted_def)
  then have i: "trim_space (ta_id p) = ta_id p" "ta_id p \<noteq> ''''" using mem by (auto simp: list_all_iff permission_ok_def)
  have "list_all permission_ok (filter (\<lambda>q. ta_id q \<noteq> ta_id p) ps)" using ok by (auto simp: list_all_iff)
  moreover have "vo_faults (s\<lparr>vo_drawn := n\<rparr>) = []" using faults by simp
  ultimately obtain st' u where save: "save_state (change_topic tid (store_allows now (filter (\<lambda>q. ta_id q \<noteq> ta_id p) ps)) st) (s\<lparr>vo_drawn := n\<rparr>) = (Inr st', u)"
    "granted u tid (filter (\<lambda>q. ta_id q \<noteq> ta_id p) ps)" "vo_faults u = []"
    using granted_save[OF load(2)] by metis
  have "list_ex (\<lambda>q. ta_id q = ta_id p) ps" using mem by (auto simp: list_ex_iff)
  then have "delete_topic_tool_permission now topic_id (ta_id p) s = (Inr True, u)"
    using load tid i save(1) by (simp add: delete_topic_tool_permission_def Let_def of_result_def return_ok_def)
  then show ?thesis using save by blast
qed


section \<open>Policy audits and their summary\<close>

lemma float_exact: "0 \<le> n \<Longrightarrow> n \<le> 2 ^ 53 \<Longrightarrow> int_of_float (float_of_int n) = n"
proof -
  assume n: "0 \<le> n" "n \<le> 2 ^ 53"
  have small: "round_mantissa e n = n" if "n < 2 ^ 53" for e
  proof (induction e)
    case (Suc e)
    have "(2 :: int) ^ 53 \<le> 2 ^ 53 * 2 ^ e" by simp
    then have "n < 2 ^ 53 * 2 ^ e" using that by linarith
    then show ?case using Suc by simp
  qed simp
  have "round_mantissa 11 (2 ^ 53) = 2 ^ 53" by code_simp
  then have "round_mantissa 11 n = n" using small[of 11] n by (cases "n = 2 ^ 53") auto
  then have "float_of_int n = of_int n" using n by (simp add: float_of_int_def)
  moreover have "int_of_float (of_int n) = n" using n by (simp add: int_of_float_def Let_def)
  ultimately show ?thesis by simp
qed

lemma is_space_code: "is_space d \<longleftrightarrow> (of_char d :: nat) \<in> {9, 10, 11, 12, 13, 32}"
proof -
  have e: "(d = c) = ((of_char d :: nat) = of_char c)" for c by simp
  show ?thesis unfolding is_space_def insert_iff empty_iff e by simp
qed

lemma is_space_lower: "is_space (to_lower_char c) \<longleftrightarrow> is_space c"
proof -
  have "(of_char (char_of ((of_char c :: nat) + 32) :: char) :: nat) = of_char c + 32" if "(of_char c :: nat) \<le> 90"
    using that by (subst of_char_of) simp
  moreover note is_space_code
  ultimately show ?thesis by (auto simp: to_lower_char_def)
qed

lemma trim_to_lower: "trim_space (to_lower s) = to_lower (trim_space s)"
proof -
  have "dropWhile is_space (map to_lower_char xs) = map to_lower_char (dropWhile is_space xs)" for xs
    by (simp add: dropWhile_map comp_def is_space_lower)
  then show ?thesis by (simp add: trim_space_def to_lower_def rev_map)
qed

lemma to_lower_idem [simp]: "to_lower (to_lower s) = to_lower s"
  by (simp add: to_lower_def to_lower_char_idem)

definition clean_text :: "string \<Rightarrow> bool" where
  "clean_text s \<longleftrightarrow> trim_space s = s"

text \<open>An audit entry that is read back as it was recorded.\<close>

definition audit_ok :: "policy_audit_entry \<Rightarrow> bool" where
  "audit_ok e \<longleftrightarrow> clean_text (pa_event_id e) \<and> pa_event_id e \<noteq> '''' \<and> clean_text (pa_topic_id e) \<and> clean_text (pa_node_id e) \<and>
     clean_text (pa_tool_name e) \<and> clean_text (pa_decision e) \<and> to_lower (pa_decision e) = pa_decision e \<and> pa_decision e \<noteq> '''' \<and>
     list_all (\<lambda>t. clean_text t \<and> t \<noteq> '''') (pa_risk_tags e) \<and> clean_text (pa_matched_rule_id e) \<and>
     clean_text (pa_reason e) \<and> clean_text (pa_request_id e) \<and> 0 \<le> pa_duration_ms e \<and> pa_duration_ms e \<le> 2 ^ 53 \<and>
     storable_time (pa_created_at e)"

definition summary_ok :: "policy_audit_summary_item \<Rightarrow> bool" where
  "summary_ok i \<longleftrightarrow> clean_text (ps_topic_id i) \<and> clean_text (ps_tool_name i) \<and> clean_text (ps_risk_tag i) \<and>
     clean_text (ps_decision i) \<and> clean_text (ps_time_bucket i) \<and> 0 \<le> ps_count i \<and> ps_count i \<le> 2 ^ 53 \<and>
     storable_time (ps_last_seen_at i)"

lemma read_int_JNum [simp]: "read_int (JNum x) = int_of_float x"
  by (simp add: read_int_def)

lemma read_map_JObj [simp]: "read_map (JObj m) = m"
  by (simp add: read_map_def)

lemma decode_encode_audit:
  assumes ok: "audit_ok e" and "as_object (encode_policy_audit e) = Some row"
  shows "decode_policy_audit row = Some e"
proof -
  have row: "JObj row = encode_policy_audit e" using assms(2) by (simp add: encode_policy_audit_def)
  have fields: "read_string (field_or_nil row ''event_id'') = pa_event_id e" "read_string (field_or_nil row ''topic_id'') = pa_topic_id e"
    "read_string (field_or_nil row ''node_id'') = pa_node_id e" "read_string (field_or_nil row ''tool_name'') = pa_tool_name e"
    "read_string (field_or_nil row ''decision'') = pa_decision e"
    "read_string_array (field_or_nil row ''risk_tags'') = pa_risk_tags e"
    "read_map (field_or_nil row ''requested_capabilities'') = pa_requested_capabilities e"
    "read_string (field_or_nil row ''matched_rule_id'') = pa_matched_rule_id e" "read_string (field_or_nil row ''reason'') = pa_reason e"
    "read_string (field_or_nil row ''request_id'') = pa_request_id e" "read_int (field_or_nil row ''duration_ms'') = pa_duration_ms e"
    "time_or_zero (parse_time (field_or_nil row ''created_at'')) = pa_created_at e"
    using ok row unfolding encode_policy_audit_def audit_ok_def clean_text_def
    by (simp_all add: read_strings list_all_iff float_exact parse_encode_time)
  show ?thesis unfolding decode_policy_audit_def Let_def fields using ok by (simp add: audit_ok_def)
qed

lemma decode_encode_summary:
  assumes ok: "summary_ok i" and "as_object (encode_policy_audit_summary_item i) = Some row"
  shows "decode_policy_audit_summary_item row = i"
proof -
  have row: "JObj row = encode_policy_audit_summary_item i" using assms(2) by (simp add: encode_policy_audit_summary_item_def)
  have fields: "read_string (field_or_nil row ''topic_id'') = ps_topic_id i" "read_string (field_or_nil row ''tool_name'') = ps_tool_name i"
    "read_string (field_or_nil row ''risk_tag'') = ps_risk_tag i" "read_string (field_or_nil row ''decision'') = ps_decision i"
    "read_string (field_or_nil row ''time_bucket'') = ps_time_bucket i" "read_int (field_or_nil row ''count'') = ps_count i"
    "time_or_zero (parse_time (field_or_nil row ''last_seen_at'')) = ps_last_seen_at i"
    using ok row unfolding encode_policy_audit_summary_item_def summary_ok_def clean_text_def
    by (simp_all add: float_exact parse_encode_time)
  show ?thesis unfolding decode_policy_audit_summary_item_def fields by simp
qed

text \<open>What the permission object of a topic says of audits.\<close>

definition rows_in :: "string \<Rightarrow> json \<Rightarrow> json_object list" where
  "rows_in k v = (case as_array (field_or_nil (read_map v) k) of None \<Rightarrow> [] | Some items \<Rightarrow> List.map_filter as_object items)"

lemma rows_of_in: "rows_of k m = rows_in k (field_or_nil m topic_permission_metadata_key)"
  by (simp add: rows_of_def rows_in_def read_permission_map_def)

interpretation audit_rows: row_codec encode_policy_audit decode_policy_audit audit_ok
proof
  fix e assume "audit_ok e"
  moreover obtain row where "as_object (encode_policy_audit e) = Some row" by (simp add: encode_policy_audit_def)
  ultimately show "\<exists>row. as_object (encode_policy_audit e) = Some row \<and> decode_policy_audit row = Some e"
    using decode_encode_audit by blast
qed

interpretation summary_rows: row_codec encode_policy_audit_summary_item "\<lambda>row. Some (decode_policy_audit_summary_item row)" summary_ok
proof
  fix i assume "summary_ok i"
  moreover obtain row where "as_object (encode_policy_audit_summary_item i) = Some row" by (simp add: encode_policy_audit_summary_item_def)
  ultimately show "\<exists>row. as_object (encode_policy_audit_summary_item i) = Some row \<and> Some (decode_policy_audit_summary_item row) = Some i"
    using decode_encode_summary by blast
qed

lemma decode_encode_summaries:
  "list_all summary_ok xs \<Longrightarrow>
   map decode_policy_audit_summary_item (List.map_filter as_object (map encode_policy_audit_summary_item xs)) = xs"
  using summary_rows.decode_rows[of xs] by (simp add: map_filter_def comp_def)

section \<open>The summary counts the audits\<close>

type_synonym summary_key = "string \<times> string \<times> string \<times> string \<times> string"

definition row_key :: "policy_audit_summary_item \<Rightarrow> summary_key" where
  "row_key i = (ps_topic_id i, ps_tool_name i, ps_risk_tag i, ps_decision i, ps_time_bucket i)"

definition tag_key :: "policy_audit_entry \<Rightarrow> string \<Rightarrow> summary_key" where
  "tag_key e tag = (pa_topic_id e, pa_tool_name e, tag, pa_decision e, format_hour_bucket (pa_created_at e))"

definition audit_keys :: "policy_audit_entry list \<Rightarrow> summary_key list" where
  "audit_keys es = concat (map (\<lambda>e. map (tag_key e) (audit_tags e)) es)"

text \<open>One row for each key that occurs, with the number of its occurrences.\<close>

definition counts_agree :: "summary_key list \<Rightarrow> policy_audit_summary_item list \<Rightarrow> bool" where
  "counts_agree ks xs \<longleftrightarrow> distinct (map row_key xs) \<and> row_key ` set xs = set ks \<and>
     (\<forall>i\<in>set xs. ps_count i = int (count_list ks (row_key i)))"

lemma in_summary_row_key: "in_summary_row e tag i \<longleftrightarrow> row_key i = tag_key e tag"
  by (simp add: in_summary_row_def row_key_def tag_key_def)

definition first_row :: "policy_audit_entry \<Rightarrow> string \<Rightarrow> policy_audit_summary_item" where
  "first_row e tag = \<lparr>ps_topic_id = pa_topic_id e, ps_tool_name = pa_tool_name e, ps_risk_tag = tag, ps_decision = pa_decision e,
     ps_time_bucket = format_hour_bucket (pa_created_at e), ps_count = 1, ps_last_seen_at = pa_created_at e\<rparr>"

definition next_row :: "policy_audit_entry \<Rightarrow> policy_audit_summary_item \<Rightarrow> policy_audit_summary_item" where
  "next_row e i = i\<lparr>ps_count := ps_count i + 1, ps_last_seen_at := pa_created_at e\<rparr>"

lemma row_key_first [simp]: "row_key (first_row e tag) = tag_key e tag" "ps_count (first_row e tag) = 1"
  by (simp_all add: row_key_def tag_key_def first_row_def)

lemma row_key_next [simp]: "row_key (next_row e i) = row_key i" "ps_count (next_row e i) = ps_count i + 1"
  by (simp_all add: row_key_def next_row_def)

lemma count_tag_new: "tag_key e tag \<notin> row_key ` set xs \<Longrightarrow> count_tag e tag xs = xs @ [first_row e tag]"
  by (induction xs) (auto simp: in_summary_row_key first_row_def)

lemma count_tag_old:
  "tag_key e tag \<in> row_key ` set xs \<Longrightarrow> distinct (map row_key xs) \<Longrightarrow>
   count_tag e tag xs = map (\<lambda>i. if row_key i = tag_key e tag then next_row e i else i) xs"
proof (induction xs)
  case (Cons i xs)
  show ?case
  proof (cases "row_key i = tag_key e tag")
    case True
    then have "\<forall>x\<in>set xs. row_key x \<noteq> tag_key e tag" using Cons.prems(2) by (auto simp: image_iff)
    then have "map (\<lambda>i. if row_key i = tag_key e tag then next_row e i else i) xs = xs" by (intro map_idI) simp
    then show ?thesis using True by (simp add: in_summary_row_key next_row_def)
  qed (use Cons in \<open>auto simp: in_summary_row_key\<close>)
qed simp

lemma count_tag_agrees:
  assumes agree: "counts_agree ks xs"
  shows "counts_agree (ks @ [tag_key e tag]) (count_tag e tag xs)"
proof (cases "tag_key e tag \<in> row_key ` set xs")
  case False
  then have new: "count_list ks (tag_key e tag) = 0" using agree by (auto simp: counts_agree_def count_list_0_iff)
  have "\<forall>i\<in>set xs. row_key i \<noteq> tag_key e tag" using False by (metis imageI)
  then show ?thesis using agree False new by (auto simp: counts_agree_def count_tag_new[OF False])
next
  case True
  define g where "g = (\<lambda>i. if row_key i = tag_key e tag then next_row e i else i)"
  have ct: "count_tag e tag xs = map g xs"
    using count_tag_old[OF True] agree by (simp add: counts_agree_def g_def)
  have keys: "map row_key (map g xs) = map row_key xs" by (simp add: g_def)
  have "row_key ` set (map g xs) = row_key ` set xs" using keys by (metis list.set_map)
  moreover have "tag_key e tag \<in> set ks" using True agree by (simp add: counts_agree_def)
  moreover have "ps_count (g i) = int (count_list (ks @ [tag_key e tag]) (row_key (g i)))" if "i \<in> set xs" for i
    using agree that by (simp add: counts_agree_def g_def)
  moreover have "distinct (map row_key (map g xs))" using agree keys by (simp only: counts_agree_def)
  ultimately show ?thesis using agree unfolding counts_agree_def ct by (auto simp del: map_map count_list_append)
qed

lemma apply_summary_agrees:
  assumes "counts_agree (audit_keys es) xs"
  shows "counts_agree (audit_keys (es @ [e])) (apply_audit_summary xs e)"
proof -
  have "counts_agree ks xs \<Longrightarrow> counts_agree (ks @ map (tag_key e) tags) (fold (count_tag e) tags xs)" for ks tags
  proof (induction tags arbitrary: ks xs)
    case (Cons tag tags)
    show ?case using Cons.IH[OF count_tag_agrees[OF Cons.prems, of e tag]] by simp
  qed simp
  then show ?thesis using assms by (simp add: apply_audit_summary_def audit_keys_def)
qed

text \<open>The rows of an updated summary are stored as they are.\<close>

definition summary_text_ok :: "policy_audit_summary_item \<Rightarrow> bool" where
  "summary_text_ok i \<longleftrightarrow> clean_text (ps_topic_id i) \<and> clean_text (ps_tool_name i) \<and> clean_text (ps_risk_tag i) \<and>
     clean_text (ps_decision i) \<and> clean_text (ps_time_bucket i) \<and> storable_time (ps_last_seen_at i)"

lemma bucket_clean:
  assumes "four_digit_year t"
  shows "clean_text (format_hour_bucket t)"
proof -
  obtain y m d where date: "civil_date (t div 1000000000 div 86400) = (y, m, d)" by (metis prod_cases3)
  have y: "0 \<le> y" "y \<le> 9999" using year_bounds[OF date] assms by (auto simp: four_digit_year_def)
  obtain c r where c: "pad_int 4 y = c # r" "is_digit c"
    using y fixed_digits_digits[of _ 4 y] length_fixed_digits[of 4 y] by (cases "fixed_digits 4 y") (auto simp: pad_int_def)
  obtain z where z: "format_hour_bucket t = c # z @ ''Z''"
  proof -
    have "format_hour_bucket t = c # (r @ ''-'' @ pad_int 2 m @ ''-'' @ pad_int 2 d @ ''T'' @
        pad_int 2 (t div 1000000000 mod 86400 div 3600) @ '':00:00'') @ ''Z''"
      by (simp add: format_hour_bucket_def Let_def date c)
    then show ?thesis using that by blast
  qed
  show ?thesis unfolding clean_text_def by (rule trim_space_id) (use z c(2) is_space_digit in \<open>simp add: is_space_def\<close>)
qed

lemma apply_summary_text_ok:
  assumes "list_all summary_text_ok xs" and "audit_ok e" and "four_digit_year (pa_created_at e)"
  shows "list_all summary_text_ok (apply_audit_summary xs e)"
proof -
  have tags: "\<forall>t\<in>set (audit_tags e). clean_text t"
    using assms(2) by (auto simp: audit_tags_def audit_ok_def list_all_iff clean_text_def trim_space_id is_space_def)
  have step: "list_all summary_text_ok (count_tag e t ys)" if "list_all summary_text_ok ys" "clean_text t" for ys t
    using that assms(2,3) bucket_clean[OF assms(3)]
    by (induction ys) (auto simp: summary_text_ok_def audit_ok_def storable_time_def)
  have "list_all summary_text_ok (fold (count_tag e) ts ys)" if "list_all summary_text_ok ys" "\<forall>t\<in>set ts. clean_text t" for ys ts
    using that step by (induction ts arbitrary: ys) auto
  then show ?thesis using assms(1) tags by (simp add: apply_audit_summary_def)
qed

lemma agree_bounded:
  assumes "counts_agree ks xs" and "list_all summary_text_ok xs" and "length ks \<le> 2 ^ 53"
  shows "list_all summary_ok xs"
  unfolding list_all_iff
proof
  fix i assume i: "i \<in> set xs"
  have "ps_count i = int (count_list ks (row_key i))" using assms(1) i by (simp add: counts_agree_def)
  moreover have "count_list ks (row_key i) \<le> length ks" by (rule count_le_length)
  ultimately have "0 \<le> ps_count i" "ps_count i \<le> 2 ^ 53" using assms(3) by simp_all
  then show "summary_ok i" using assms(2) i by (auto simp: summary_ok_def summary_text_ok_def list_all_iff)
qed

text \<open>The file holds the audits \<open>es\<close> of the topic and the summary \<open>xs\<close>, which counts them.\<close>

definition audit_log :: "vos \<Rightarrow> string \<Rightarrow> policy_audit_entry list \<Rightarrow> policy_audit_summary_item list \<Rightarrow> bool" where
  "audit_log s tid es xs \<longleftrightarrow> (\<exists>v. metadata_field topic_permission_metadata_key (file_state s) tid = Some v \<and>
       List.map_filter decode_policy_audit (rows_in topic_policy_audits_key v) = es \<and>
       map decode_policy_audit_summary_item (rows_in topic_policy_audit_summary_key v) = xs) \<and>
     list_all audit_ok es \<and> list_all summary_text_ok xs \<and> counts_agree (audit_keys es) xs"

lemma rows_in_put: "rows_in k (JObj (put j (JArr vs) m)) = (if k = j then List.map_filter as_object vs else rows_in k (JObj m))"
  by (simp add: rows_in_def field_put)

lemma rows_in_default: "rows_in k (JObj (with_default_array j m)) = rows_in k (JObj m)"
  by (auto simp: with_default_array_def rows_in_put has_field_def) (simp add: rows_in_def field_or_nil_def map_filter_simps)

lemma permission_keys_differ:
  "topic_tool_allows_key \<noteq> topic_policy_audits_key" "topic_tool_allows_key \<noteq> topic_policy_audit_summary_key"
  "topic_policy_audits_key \<noteq> topic_policy_audit_summary_key"
  by (simp_all add: topic_tool_allows_key_def topic_policy_audits_key_def topic_policy_audit_summary_key_def)

lemma rows_in_ensured:
  assumes "k \<noteq> topic_tool_allows_key"
  shows "rows_in k (field_or_nil (ensure_topic_permission_metadata m) topic_permission_metadata_key) =
    rows_in k (field_or_nil m topic_permission_metadata_key)"
proof (cases "field_or_nil m topic_permission_metadata_key")
  case (JObj perm)
  then show ?thesis by (simp add: ensure_topic_permission_metadata_def field_put rows_in_default)
qed (use assms in \<open>simp_all add: ensure_topic_permission_metadata_def field_put rows_in_def read_map_def\<close>)

lemma add_audit_field:
  fixes m e
  defines "v \<equiv> field_or_nil m topic_permission_metadata_key" and "w \<equiv> field_or_nil (add_audit e m) topic_permission_metadata_key"
  defines "es \<equiv> List.map_filter decode_policy_audit (rows_in topic_policy_audits_key v)"
    and "xs \<equiv> map decode_policy_audit_summary_item (rows_in topic_policy_audit_summary_key v)"
  shows "rows_in topic_policy_audits_key w = List.map_filter as_object (map encode_policy_audit (es @ [e]))"
    and "rows_in topic_policy_audit_summary_key w =
      List.map_filter as_object (map encode_policy_audit_summary_item (apply_audit_summary xs e))"
proof -
  define m0 where "m0 = ensure_topic_permission_metadata m"
  define m1 where "m1 = put_permission topic_policy_audits_key (encode_policy_audits (es @ [e])) m0"
  have es: "decode_policy_audits m0 = es"
    by (simp add: decode_policy_audits_def rows_of_in m0_def rows_in_ensured permission_keys_differ[symmetric] es_def v_def)
  have v1: "field_or_nil m1 topic_permission_metadata_key = JObj (put topic_policy_audits_key (JArr (map encode_policy_audit (es @ [e])))
      (read_permission_map m0))"
    by (simp only: m1_def put_permission_def field_put encode_policy_audits_def if_True simp_thms)
  have "rows_in topic_policy_audit_summary_key (JObj (read_permission_map m0)) = rows_in topic_policy_audit_summary_key v"
  proof -
    have "rows_in topic_policy_audit_summary_key (JObj (read_permission_map m0)) =
        rows_in topic_policy_audit_summary_key (field_or_nil m0 topic_permission_metadata_key)"
      by (simp add: rows_in_def read_permission_map_def)
    then show ?thesis by (simp add: m0_def rows_in_ensured permission_keys_differ[symmetric] v_def)
  qed
  then have xs: "decode_policy_audit_summary m1 = xs"
    by (simp add: decode_policy_audit_summary_def rows_of_in v1 rows_in_put permission_keys_differ[symmetric] xs_def)
  have w: "w = JObj (put topic_policy_audit_summary_key (JArr (map encode_policy_audit_summary_item (apply_audit_summary xs e)))
      (read_map (field_or_nil m1 topic_permission_metadata_key)))"
    unfolding w_def add_audit_def Let_def m0_def[symmetric] es m1_def[symmetric] xs
    by (simp only: put_permission_def field_put read_permission_map_def encode_policy_audit_summary_def if_True simp_thms)
  show "rows_in topic_policy_audits_key w = List.map_filter as_object (map encode_policy_audit (es @ [e]))"
    unfolding w v1 by (simp only: rows_in_put permission_keys_differ if_False read_map_JObj if_True simp_thms)
  show "rows_in topic_policy_audit_summary_key w =
      List.map_filter as_object (map encode_policy_audit_summary_item (apply_audit_summary xs e))"
    unfolding w by (simp only: rows_in_put if_True simp_thms)
qed

text \<open>An entry as a caller may pass it: the service fills in the id, the decision in lower case and the time.\<close>

definition good_entry :: "string \<Rightarrow> time \<Rightarrow> policy_audit_entry \<Rightarrow> bool" where
  "good_entry tid now e \<longleftrightarrow> trim_space (pa_topic_id e) = tid \<and> tid \<noteq> '''' \<and> to_lower (trim_space (pa_decision e)) \<noteq> '''' \<and>
     (trim_space (pa_event_id e) = '''' \<or> clean_text (pa_event_id e)) \<and> clean_text (pa_node_id e) \<and> clean_text (pa_tool_name e) \<and>
     list_all (\<lambda>t. clean_text t \<and> t \<noteq> '''') (pa_risk_tags e) \<and> clean_text (pa_matched_rule_id e) \<and>
     clean_text (pa_reason e) \<and> clean_text (pa_request_id e) \<and> 0 \<le> pa_duration_ms e \<and> pa_duration_ms e \<le> 2 ^ 53 \<and>
     four_digit_year (if pa_created_at e = 0 then now else pa_created_at e)"

definition recorded_as :: "time \<Rightarrow> policy_audit_entry \<Rightarrow> policy_audit_entry \<Rightarrow> bool" where
  "recorded_as now e e' \<longleftrightarrow> (\<exists>i. e' = audit_to_store now (trim_space (pa_topic_id e)) (to_lower (trim_space (pa_decision e))) i e \<and>
     (trim_space (pa_event_id e) \<noteq> '''' \<longrightarrow> i = pa_event_id e))"

lemma audit_to_store_ok:
  assumes "good_entry tid now e" and "clean_text i" and "i \<noteq> ''''"
  shows "audit_ok (audit_to_store now tid (to_lower (trim_space (pa_decision e))) i e)"
    and "four_digit_year (pa_created_at (audit_to_store now tid (to_lower (trim_space (pa_decision e))) i e))"
  using assms by (auto simp: good_entry_def audit_ok_def audit_to_store_def clean_text_def trim_to_lower storable_time_def)

lemma record_logged:
  assumes lg: "audit_log s tid es xs" and faults: "vo_faults s = []" and ids: "good_ids s" and entry: "good_entry tid now e"
    and small: "length (audit_keys es) + length (audit_tags e) \<le> 2 ^ 53"
  shows "\<exists>e' t xs'. record_topic_policy_audit now e s = (Inr e', t) \<and> recorded_as now e e' \<and> audit_log t tid (es @ [e']) xs' \<and>
    vo_faults t = [] \<and> good_ids t"
proof -
  obtain v where v: "metadata_field topic_permission_metadata_key (file_state s) tid = Some v"
    "List.map_filter decode_policy_audit (rows_in topic_policy_audits_key v) = es"
    "map decode_policy_audit_summary_item (rows_in topic_policy_audit_summary_key v) = xs"
    and ok: "list_all audit_ok es" "list_all summary_text_ok xs" "counts_agree (audit_keys es) xs"
    using lg by (auto simp: audit_log_def)
  obtain st n where st: "load_state s = (Inr st, s\<lparr>vo_drawn := n\<rparr>)"
    "metadata_field topic_permission_metadata_key st tid = Some v"
    using load_metadata[OF faults] v(1) by (metis own_permission)
  obtain t where t: "require_topic st tid = Inr t" "field_or_nil (tp_metadata t) topic_permission_metadata_key = v"
    using metadata_field_topic[OF st(2)] by blast
  define i where "i = (if trim_space (pa_event_id e) = '''' then vo_ids s n else pa_event_id e)"
  define k where "k = (if trim_space (pa_event_id e) = '''' then n + 1 else n)"
  have draw: "(if trim_space (pa_event_id e) = '''' then draw_id else return_ok (pa_event_id e)) (s\<lparr>vo_drawn := n\<rparr>) =
      (Inr i, s\<lparr>vo_drawn := k\<rparr>)"
    by (simp add: i_def k_def draw_id_def return_ok_def)
  have i: "clean_text i" "i \<noteq> ''''" using ids entry by (auto simp: i_def good_ids_def good_entry_def clean_text_def)
  define e' where "e' = audit_to_store now tid (to_lower (trim_space (pa_decision e))) i e"
  note e' = audit_to_store_ok[OF entry i, folded e'_def]
  define f where "f = (\<lambda>t. touch_topic now (with_metadata (add_audit e') t))"
  have "vo_faults (s\<lparr>vo_drawn := k\<rparr>) = []" using faults by simp
  then obtain st' m where save: "save_state (change_topic tid f st) (s\<lparr>vo_drawn := k\<rparr>) =
      (Inr st', s\<lparr>vo_drawn := k\<rparr>\<lparr>vo_drawn := m, vo_file := Some (as_written st')\<rparr>)"
    and kept: "metadata_field topic_permission_metadata_key (as_written st') tid =
      metadata_field topic_permission_metadata_key (change_topic tid f st) tid"
    by (rule save_metadata[where st = "change_topic tid f st"]) (use own_permission in blast)
  define u where "u = s\<lparr>vo_drawn := k\<rparr>\<lparr>vo_drawn := m, vo_file := Some (as_written st')\<rparr>"
  define w where "w = field_or_nil (add_audit e' (tp_metadata t)) topic_permission_metadata_key"
  define xs' where "xs' = apply_audit_summary xs e'"
  have tag: "audit_tags e' = audit_tags e" by (simp add: e'_def audit_to_store_def audit_tags_def)
  have "map_of (vf_topics st) tid = Some t" using t(1) by (simp add: require_topic_def split: option.splits)
  then have field: "metadata_field topic_permission_metadata_key (file_state u) tid = Some w"
    by (simp add: u_def file_state_def kept[unfolded metadata_field_written] metadata_field_change f_def touch_topic_def with_metadata_def w_def)
  have agree: "counts_agree (audit_keys (es @ [e'])) xs'" unfolding xs'_def by (rule apply_summary_agrees[OF ok(3)])
  have rows_text: "list_all summary_text_ok xs'" unfolding xs'_def by (rule apply_summary_text_ok[OF ok(2) e'])
  have "length (audit_keys (es @ [e'])) \<le> 2 ^ 53" using small by (simp add: audit_keys_def tag)
  then have sum: "list_all summary_ok xs'" by (rule agree_bounded[OF agree rows_text])
  have audits: "list_all audit_ok (es @ [e'])" using ok(1) e'(1) by simp
  note rows = add_audit_field[where m = "tp_metadata t" and e = e', unfolded t(2) v(2,3), folded w_def xs'_def]
  have "audit_log u tid (es @ [e']) xs'" unfolding audit_log_def
    using field rows audit_rows.decode_rows[OF audits] decode_encode_summaries[OF sum] audits rows_text agree by simp
  moreover have "record_topic_policy_audit now e s = (Inr e', u)"
    using st(1) t(1) draw save entry
    by (simp add: record_topic_policy_audit_def Let_def good_entry_def of_result_def return_ok_def e'_def[symmetric] f_def[symmetric] u_def)
  moreover have "recorded_as now e e'" using entry by (auto simp: recorded_as_def e'_def good_entry_def i_def)
  ultimately show ?thesis using faults ids by (auto simp: u_def good_ids_def)
qed

text \<open>Recording several audits, each with its clock reading.\<close>

definition record_all :: "(time \<times> policy_audit_entry) list \<Rightarrow> vos \<Rightarrow> vos" where
  "record_all = fold (\<lambda>(now, e) s. snd (record_topic_policy_audit now e s))"

lemma record_all_logged:
  assumes "audit_log s tid es xs" and "vo_faults s = []" and "good_ids s" and "\<forall>(now, e)\<in>set es'. good_entry tid now e"
    and "length (audit_keys es) + length (audit_keys (map snd es')) \<le> 2 ^ 53"
  shows "\<exists>stored xs'. audit_log (record_all es' s) tid (es @ stored) xs' \<and> vo_faults (record_all es' s) = [] \<and>
    list_all2 (\<lambda>(now, e) e'. recorded_as now e e') es' stored"
  using assms
proof (induction es' arbitrary: s es xs)
  case Nil
  then show ?case by (auto simp: record_all_def)
next
  case (Cons ne es')
  obtain now e where ne: "ne = (now, e)" by fastforce
  have len: "length (audit_keys (map snd (ne # es'))) = length (audit_tags e) + length (audit_keys (map snd es'))"
    by (simp add: audit_keys_def ne)
  have small: "length (audit_keys es) + length (audit_tags e) \<le> 2 ^ 53" using Cons.prems(5) len by linarith
  have entry: "good_entry tid now e" using Cons.prems(4) ne by simp
  from record_logged[OF Cons.prems(1-3) entry small]
  obtain e' t xs' where step: "record_topic_policy_audit now e s = (Inr e', t)" "recorded_as now e e'"
    "audit_log t tid (es @ [e']) xs'" "vo_faults t = []" "good_ids t" by blast
  have "audit_tags e' = audit_tags e" using step(2) by (auto simp: recorded_as_def audit_to_store_def audit_tags_def)
  then have "length (audit_keys (es @ [e'])) + length (audit_keys (map snd es')) \<le> 2 ^ 53"
    using Cons.prems(5) len by (simp add: audit_keys_def)
  from Cons.IH[OF step(3-5) _ this] Cons.prems(4)
  obtain stored xs'' where "audit_log (record_all es' t) tid ((es @ [e']) @ stored) xs''" "vo_faults (record_all es' t) = []"
    "list_all2 (\<lambda>(now, e) e'. recorded_as now e e') es' stored" by auto
  moreover have "record_all (ne # es') s = record_all es' t" by (simp add: record_all_def ne step(1))
  ultimately show ?case using step(2) by (intro exI[of _ "e' # stored"] exI[of _ xs'']) (simp add: ne)
qed

lemma list_logged:
  assumes "audit_log s tid es xs" and "vo_faults s = []" and "trim_space topic_id = tid"
  shows "fst (list_topic_policy_audits topic_id s) = Inr es" and "fst (list_topic_policy_audit_summary topic_id s) = Inr xs"
proof -
  obtain v where v: "metadata_field topic_permission_metadata_key (file_state s) tid = Some v"
    "List.map_filter decode_policy_audit (rows_in topic_policy_audits_key v) = es"
    "map decode_policy_audit_summary_item (rows_in topic_policy_audit_summary_key v) = xs"
    using assms(1) by (auto simp: audit_log_def)
  obtain st n where st: "load_state s = (Inr st, s\<lparr>vo_drawn := n\<rparr>)"
    "metadata_field topic_permission_metadata_key st tid = Some v"
    using load_metadata[OF assms(2)] v(1) by (metis own_permission)
  obtain t where t: "require_topic st tid = Inr t" "field_or_nil (tp_metadata t) topic_permission_metadata_key = v"
    using metadata_field_topic[OF st(2)] by blast
  have found: "and_then (require_topic st tid) f = f t" for f :: "vos_topic \<Rightarrow> vos_error + 'a" by (simp only: t(1) and_then.simps)
  show "fst (list_topic_policy_audits topic_id s) = Inr es" "fst (list_topic_policy_audit_summary topic_id s) = Inr xs"
    using st(1) t(2) v(2,3) assms(3)
    by (simp_all add: list_topic_policy_audits_def list_topic_policy_audit_summary_def read_state_def of_result_def found
        decode_policy_audits_def decode_policy_audit_summary_def rows_of_in)
qed

text \<open>
  C24. After any number of audits have been recorded in a topic, the list of its audits has grown by exactly these, in order and as they were
  passed (with the id, the time and the decision in lower case filled in), and the summary has one row for each topic, tool, risk
  tag, decision and hour that occurs in the list, with the number of its occurrences (an audit without risk tags counts
  once, under \<open>none\<close>). The hypotheses: what is in the file was recorded by the service, texts carry no surrounding blanks (the summary
  compares untrimmed texts and stores trimmed ones), times have years of four digits, the counts fit in the 53 bits
  that survive JSON, and the disk has no fault.
\<close>

theorem audit_summary_counts:
  assumes "audit_log s tid es xs" and "vo_faults s = []" and "good_ids s" and "\<forall>(now, e)\<in>set es'. good_entry tid now e"
    and "length (audit_keys es) + length (audit_keys (map snd es')) \<le> 2 ^ 53" and "trim_space topic_id = tid"
  shows "\<exists>stored rows. fst (list_topic_policy_audits topic_id (record_all es' s)) = Inr (es @ stored) \<and>
    list_all2 (\<lambda>(now, e) e'. recorded_as now e e') es' stored \<and>
    fst (list_topic_policy_audit_summary topic_id (record_all es' s)) = Inr rows \<and>
    distinct (map row_key rows) \<and> row_key ` set rows = set (audit_keys (es @ stored)) \<and>
    (\<forall>r\<in>set rows. ps_count r = int (count_list (audit_keys (es @ stored)) (row_key r)))"
proof -
  obtain stored rows where lg: "audit_log (record_all es' s) tid (es @ stored) rows" "vo_faults (record_all es' s) = []"
    and all: "list_all2 (\<lambda>(now, e) e'. recorded_as now e e') es' stored" using record_all_logged[OF assms(1-5)] by blast
  moreover have "counts_agree (audit_keys (es @ stored)) rows" using lg(1) by (simp add: audit_log_def)
  ultimately show ?thesis using list_logged[OF lg assms(6)] unfolding counts_agree_def by blast
qed

section \<open>Concrete runs\<close>

text \<open>The tree of VosProps in a file, with the generator of a new service.\<close>

definition demo_grants :: vos where
  "demo_grants = demo_vos\<lparr>vo_file := vo_file demo_tree\<rparr>"

lemma good_ids_demo: "good_ids demo_grants"
proof -
  have "last (show_nat k) = char_of (48 + k mod 10)" "show_nat k \<noteq> []" for k
    by (subst show_nat.simps, simp)+
  moreover have "\<not> is_space (char_of (48 + k mod 10))" for k :: nat
    using pos_mod_bound[of 10 k] by (auto simp: is_space_code of_char_of)
  ultimately have "trim_space (''id-'' @ show_nat k) = ''id-'' @ show_nat k" for k
    by (intro trim_space_id) (simp add: is_space_def)
  then show ?thesis by (simp add: good_ids_def demo_grants_def demo_vos_def)
qed

lemma demo_metadata: "metadata_field topic_permission_metadata_key (file_state demo_grants) ''t'' = Some JNull"
  by code_simp

definition demo_request :: topic_tool_permission_input where
  "demo_request = \<lparr>ti_tool_name = '' write '', ti_dir_prefix = ''/work//src/'', ti_read_path_prefixes = [],
     ti_write_path_prefixes = [''/work/out'', ''/work/out/''], ti_allow_network = False, ti_allow_shell_features = True,
     ti_risk_level = ''HIGH'', ti_created_by = ''me'', ti_enabled = None\<rparr>"


definition demo_audit :: "string \<Rightarrow> string list \<Rightarrow> policy_audit_entry" where
  "demo_audit tool tags = \<lparr>pa_event_id = '''', pa_topic_id = ''t'', pa_node_id = ''a'', pa_tool_name = tool, pa_decision = ''Deny '',
     pa_risk_tags = tags, pa_requested_capabilities = [], pa_matched_rule_id = '''', pa_reason = '''', pa_request_id = '''',
     pa_duration_ms = 3, pa_created_at = 0\<rparr>"

theorem audit_summary_counts_witness:
  "\<exists>stored rows. fst (list_topic_policy_audits ''t'' (record_all [(1, demo_audit ''exec'' [''net'']), (2, demo_audit ''exec'' [''net'', ''fs''])] demo_grants)) =
      Inr stored \<and> length stored = 2 \<and>
     fst (list_topic_policy_audit_summary ''t'' (record_all [(1, demo_audit ''exec'' [''net'']), (2, demo_audit ''exec'' [''net'', ''fs''])] demo_grants)) =
      Inr rows \<and> length rows = card (set (audit_keys stored))"
proof -
  let ?es = "[(1, demo_audit ''exec'' [''net'']), (2, demo_audit ''exec'' [''net'', ''fs''])]"
  have "audit_log demo_grants ''t'' [] []"
    using demo_metadata by (simp add: audit_log_def rows_in_def read_map_def map_filter_simps counts_agree_def audit_keys_def)
  moreover have "vo_faults demo_grants = []" by (simp add: demo_grants_def demo_vos_def)
  moreover have "good_entry ''t'' 1 (demo_audit ''exec'' [''net''])" "good_entry ''t'' 2 (demo_audit ''exec'' [''net'', ''fs''])"
    by code_simp+
  then have "\<forall>(now, e)\<in>set ?es. good_entry ''t'' now e" by simp
  moreover have "length (audit_keys []) + length (audit_keys (map snd ?es)) \<le> 2 ^ 53"
    by (simp add: audit_keys_def audit_tags_def demo_audit_def)
  moreover have "trim_space ''t'' = ''t''" by code_simp
  ultimately obtain stored rows where run: "fst (list_topic_policy_audits ''t'' (record_all ?es demo_grants)) = Inr ([] @ stored)"
    "list_all2 (\<lambda>(now, e) e'. recorded_as now e e') ?es stored"
    "fst (list_topic_policy_audit_summary ''t'' (record_all ?es demo_grants)) = Inr rows"
    "distinct (map row_key rows)" "row_key ` set rows = set (audit_keys ([] @ stored))"
    using audit_summary_counts[OF _ _ good_ids_demo, of "''t''" "[]" "[]" ?es "''t''"] by fast
  have "length stored = 2" using run(2) by (auto dest: list_all2_lengthD)
  moreover have "length rows = card (set (audit_keys stored))" using run(4,5) by (metis append_Nil distinct_card length_map list.set_map)
  ultimately show ?thesis using run(1,3) by auto
qed

end
