(* ===== verification/VosMemoryProps.thy ===== *)
theory VosMemoryProps
  imports VosGrants "HOL-Library.Sublist"
begin

text \<open>
  What the memory of a topic is made of: compaction only proposes, each proposal is decided once, and only a confirmation writes
  its entries to the memory of the topic.
\<close>

section \<open>Proposals that survive being stored\<close>

definition proposal_ok :: "memory_proposal \<Rightarrow> bool" where
  "proposal_ok p \<longleftrightarrow> four_digit_year (mp_created_at p) \<and> mp_status p \<noteq> ''''"

lemma all_some_map: "(\<And>x. x \<in> set xs \<Longrightarrow> f (g x) = Some x) \<Longrightarrow> all_some f (map g xs) = Some xs"
  by (induction xs) auto

lemma struct_Nil [simp]: "struct_field [] name = JNull"
  by (simp add: struct_field_def)

lemma struct_Cons [simp]: "struct_field ((k, v) # m) name = (if to_lower k = name then v else struct_field m name)"
  by (simp add: struct_field_def)

lemma struct_optional:
  "struct_field (optional_field there k v @ m) name = (if there \<and> to_lower k = name then v else struct_field m name)"
  by (simp add: optional_field_def)

lemma decode_encode_entry: "decode_entry (encode_entry e) = Some e"
proof -
  have lower: "to_lower ''key'' = ''key''" "to_lower ''value'' = ''value''" by code_simp+
  show ?thesis by (simp add: decode_entry_def encode_entry_def object_field_def string_field_def lower)
qed

lemma decode_encode_proposal:
  assumes "proposal_ok p"
  shows "decode_proposal (encode_proposal p) = Some p"
proof -
  have lower: "to_lower ''proposal_id'' = ''proposal_id''" "to_lower ''topic_id'' = ''topic_id''" "to_lower ''node_id'' = ''node_id''"
    "to_lower ''process_id'' = ''process_id''" "to_lower ''status'' = ''status''" "to_lower ''created_at'' = ''created_at''"
    "to_lower ''entries'' = ''entries''" "to_lower ''evidence'' = ''evidence''" "to_lower ''confidence'' = ''confidence''"
    "to_lower ''reason'' = ''reason''" by code_simp+
  define row where "row = [(''proposal_id'', JStr (mp_proposal_id p)), (''topic_id'', JStr (mp_topic_id p)),
      (''node_id'', JStr (mp_node_id p)), (''process_id'', JStr (mp_process_id p)), (''status'', JStr (mp_status p)),
      (''created_at'', JStr (format_rfc3339_nano (mp_created_at p))), (''entries'', JArr (map encode_entry (mp_entries p)))] @
      optional_field (mp_evidence p \<noteq> []) ''evidence'' (json_strings (mp_evidence p)) @
      optional_field (mp_confidence p \<noteq> 0) ''confidence'' (JNum (mp_confidence p)) @
      optional_field (mp_reason p \<noteq> '''') ''reason'' (JStr (mp_reason p))"
  have last: "struct_field (optional_field there k v) name = (if there \<and> to_lower k = name then v else JNull)" for there k v name
    using struct_optional[of there k v "[]"] by simp
  have strings: "all_some string_field (map JStr xs) = Some xs" for xs
    by (rule all_some_map) (simp add: string_field_def)
  have entries: "all_some decode_entry (map encode_entry xs) = Some xs" for xs
    by (rule all_some_map) (rule decode_encode_entry)
  have fields: "string_field (struct_field row ''proposal_id'') = Some (mp_proposal_id p)"
    "string_field (struct_field row ''topic_id'') = Some (mp_topic_id p)"
    "string_field (struct_field row ''node_id'') = Some (mp_node_id p)"
    "string_field (struct_field row ''process_id'') = Some (mp_process_id p)"
    "string_field (struct_field row ''status'') = Some (mp_status p)"
    "time_field (struct_field row ''created_at'') = Some (mp_created_at p)"
    "list_field decode_entry (struct_field row ''entries'') = Some (mp_entries p)"
    "list_field string_field (struct_field row ''evidence'') = Some (mp_evidence p)"
    "number_field (struct_field row ''confidence'') = Some (mp_confidence p)"
    "string_field (struct_field row ''reason'') = Some (mp_reason p)"
    using assms unfolding row_def
    by (simp_all add: lower struct_optional last string_field_def number_field_def time_field_def list_field_def json_strings_def strings
        entries proposal_ok_def parse_format_roundtrip)
  have "encode_proposal p = JObj row" by (simp add: encode_proposal_def row_def)
  then show ?thesis using assms by (simp add: decode_proposal_def object_field_def fields proposal_ok_def)
qed

lemma decode_encode_proposals: "list_all proposal_ok ps \<Longrightarrow> decode_proposals (JArr (map encode_proposal ps)) = Inr ps"
  using all_some_map[of ps decode_proposal encode_proposal] decode_encode_proposal
  by (auto simp: decode_proposals_def list_field_def list_all_iff)

section \<open>The topic in the file\<close>

lemma own_memory [simp]: "own_key topic_memory_key" "own_key topic_memory_proposals_key"
  by (simp_all add: own_key_def topic_memory_key_def topic_memory_proposals_key_def)

lemma memory_keys_differ [simp]: "topic_memory_key \<noteq> topic_memory_proposals_key" "topic_memory_proposals_key \<noteq> topic_memory_key"
  by (simp_all add: topic_memory_key_def topic_memory_proposals_key_def)

definition proposals_in :: "vos \<Rightarrow> string \<Rightarrow> memory_proposal list \<Rightarrow> bool" where
  "proposals_in s tid ps \<longleftrightarrow> (\<exists>v. metadata_field topic_memory_proposals_key (file_state s) tid = Some v \<and> decode_proposals v = Inr ps) \<and>
     list_all proposal_ok ps"

text \<open>The memory of a topic, as the file has it.\<close>

definition memory_in :: "vos \<Rightarrow> string \<Rightarrow> json option" where
  "memory_in s tid = metadata_field topic_memory_key (file_state s) tid"

definition memory_object :: "json option \<Rightarrow> json_object" where
  "memory_object v = (case v of Some (JObj m) \<Rightarrow> m | _ \<Rightarrow> [])"

lemma proposals_load:
  assumes "proposals_in s tid ps" and "vo_faults s = []"
  obtains st n t where "load_state s = (Inr st, s\<lparr>vo_drawn := n\<rparr>)" and "require_topic st tid = Inr t"
    and "read_topic_memory_proposals (tp_metadata t) = Inr ps" and "memory_in s tid = Some (field_or_nil (tp_metadata t) topic_memory_key)"
proof -
  obtain v where v: "metadata_field topic_memory_proposals_key (file_state s) tid = Some v" "decode_proposals v = Inr ps"
    using assms(1) by (auto simp: proposals_in_def)
  obtain st n where st: "load_state s = (Inr st, s\<lparr>vo_drawn := n\<rparr>)"
    "\<And>k i. own_key k \<Longrightarrow> metadata_field k st i = metadata_field k (file_state s) i" by (rule load_metadata[OF assms(2)]) blast
  have "metadata_field topic_memory_proposals_key st tid = Some v" using st(2) v(1) by simp
  then obtain t where t: "require_topic st tid = Inr t" "field_or_nil (tp_metadata t) topic_memory_proposals_key = v"
    using metadata_field_topic by blast
  then have "map_of (vf_topics st) tid = Some t" by (simp add: require_topic_def split: option.splits)
  then have "memory_in s tid = Some (field_or_nil (tp_metadata t) topic_memory_key)"
    using st(2)[OF own_memory(1), of tid] by (simp add: memory_in_def metadata_field_def)
  then show thesis using that st(1) t v(2) by (simp add: read_topic_memory_proposals_def)
qed

section \<open>Deciding a proposal\<close>

lemma find_replaced: "List.find (\<lambda>q. mp_proposal_id q = mp_proposal_id p) ps = Some r \<Longrightarrow>
    List.find (\<lambda>q. mp_proposal_id q = mp_proposal_id p) (replace_proposal p ps) = Some p"
  by (induction ps) (auto split: if_splits)

lemma replace_all: "list_all P ps \<Longrightarrow> P p \<Longrightarrow> list_all P (replace_proposal p ps)"
  by (induction ps) auto

lemma decided_fields:
  "field_or_nil (decided_metadata d p ps m) topic_memory_proposals_key = JArr (map encode_proposal (replace_proposal p ps))"
  "field_or_nil (decided_metadata d p ps m) topic_memory_key =
     (if d = decision_confirm then JObj (remember_entries (mp_entries p) (memory_object (Some (field_or_nil m topic_memory_key))))
      else field_or_nil m topic_memory_key)"
proof -
  have "(case read_metadata_object m topic_memory_key of None \<Rightarrow> [] | Some x \<Rightarrow> x) = memory_object (Some (field_or_nil m topic_memory_key))"
    by (simp add: read_metadata_object_def memory_object_def split: json.split)
  then show "field_or_nil (decided_metadata d p ps m) topic_memory_proposals_key = JArr (map encode_proposal (replace_proposal p ps))"
    "field_or_nil (decided_metadata d p ps m) topic_memory_key =
     (if d = decision_confirm then JObj (remember_entries (mp_entries p) (memory_object (Some (field_or_nil m topic_memory_key))))
      else field_or_nil m topic_memory_key)"
    by (simp_all add: decided_metadata_def store_proposals_def confirmed_metadata_def field_put)
qed

lemma decide_pending:
  assumes props: "proposals_in s tid ps" and faults: "vo_faults s = []"
    and tid: "trim_space topic_id = tid" "tid \<noteq> ''''" and pid: "trim_space proposal_id = pid" "pid \<noteq> ''''"
    and d: "d = decision_confirm \<or> d = decision_reject"
    and p: "check_proposal tid pid ps = Inr p"
  defines "p' \<equiv> p\<lparr>mp_status := (if d = decision_confirm then proposal_applied else proposal_rejected)\<rparr>"
  shows "\<exists>t. apply_topic_memory_proposal now topic_id proposal_id d s = (Inr p', t) \<and> vo_faults t = [] \<and>
    proposals_in t tid (replace_proposal p' ps) \<and>
    memory_in t tid = (if d = decision_confirm then Some (JObj (remember_entries (mp_entries p) (memory_object (memory_in s tid))))
      else memory_in s tid)"
proof -
  obtain st n t where load: "load_state s = (Inr st, s\<lparr>vo_drawn := n\<rparr>)" "require_topic st tid = Inr t"
    "read_topic_memory_proposals (tp_metadata t) = Inr ps" "memory_in s tid = Some (field_or_nil (tp_metadata t) topic_memory_key)"
    by (rule proposals_load[OF props faults])
  define f where "f = (\<lambda>t. touch_topic now (with_metadata (decided_metadata d p' ps) t))"
  have "vo_faults (s\<lparr>vo_drawn := n\<rparr>) = []" using faults by simp
  then obtain st' m where save: "save_state (change_topic tid f st) (s\<lparr>vo_drawn := n\<rparr>) =
      (Inr st', s\<lparr>vo_drawn := n\<rparr>\<lparr>vo_drawn := m, vo_file := Some (as_written st')\<rparr>)"
    and kept: "\<And>k i. own_key k \<Longrightarrow> metadata_field k (as_written st') i = metadata_field k (change_topic tid f st) i"
    by (rule save_metadata[where st = "change_topic tid f st"]) blast
  define u where "u = s\<lparr>vo_drawn := n\<rparr>\<lparr>vo_drawn := m, vo_file := Some (as_written st')\<rparr>"
  have "map_of (vf_topics st) tid = Some t" using load(2) by (simp add: require_topic_def split: option.splits)
  then have field: "metadata_field k (file_state u) tid = Some (field_or_nil (decided_metadata d p' ps (tp_metadata t)) k)" if "own_key k" for k
    using kept[OF that, of tid]
    by (simp add: u_def file_state_def metadata_field_change f_def touch_topic_def with_metadata_def)
  have p_ps: "p \<in> set ps" using p find_SomeD[of _ ps] by (auto simp: check_proposal_def split: option.splits if_splits)
  then have "proposal_ok p'" using props
    by (auto simp: proposals_in_def list_all_iff proposal_ok_def p'_def proposal_applied_def proposal_rejected_def)
  then have ok: "list_all proposal_ok (replace_proposal p' ps)" using props by (simp add: proposals_in_def replace_all)
  have "proposals_in u tid (replace_proposal p' ps)"
    unfolding proposals_in_def using field[OF own_memory(2)] ok decode_encode_proposals[OF ok] by (simp add: decided_fields)
  moreover have "memory_in u tid = (if d = decision_confirm then Some (JObj (remember_entries (mp_entries p) (memory_object (memory_in s tid))))
      else memory_in s tid)"
    unfolding load(4) using field[OF own_memory(1)] by (simp add: memory_in_def decided_fields) (simp add: p'_def)
  moreover have "apply_topic_memory_proposal now topic_id proposal_id d s = (Inr p', u)"
  proof -
    have known: "(d \<noteq> decision_confirm \<and> d \<noteq> decision_reject) = False" using d by blast
    have "apply_topic_memory_proposal now topic_id proposal_id d =
        seq load_state (\<lambda>st. seq (of_result (require_topic st tid)) (\<lambda>t. seq (of_result (read_topic_memory_proposals (tp_metadata t))) (\<lambda>ps.
        seq (of_result (check_proposal tid pid ps)) (\<lambda>p.
        let p' = p\<lparr>mp_status := (if d = decision_confirm then proposal_applied else proposal_rejected)\<rparr> in
        seq (save_state (change_topic tid (\<lambda>t. touch_topic now (with_metadata (decided_metadata d p' ps) t)) st)) (\<lambda>_. return_ok p')))))"
      unfolding apply_topic_memory_proposal_def Let_def tid(1) pid(1) using tid(2) pid(2) by (simp only: known if_False)
    then show ?thesis using load p save
      by (simp add: of_result_def return_ok_def Let_def p'_def[symmetric] f_def[symmetric] u_def)
  qed
  ultimately show ?thesis using faults by (auto simp: u_def)
qed

lemma decide_refused:
  assumes "proposals_in s tid ps" and "vo_faults s = []" and "trim_space topic_id = tid" and "trim_space proposal_id = pid"
    and "check_proposal tid pid ps = Inl e"
  shows "\<exists>e u. apply_topic_memory_proposal now topic_id proposal_id d s = (Inl e, u) \<and> vo_file u = vo_file s"
proof -
  obtain st n t where load: "load_state s = (Inr st, s\<lparr>vo_drawn := n\<rparr>)" "require_topic st tid = Inr t"
    "read_topic_memory_proposals (tp_metadata t) = Inr ps" by (rule proposals_load[OF assms(1,2)])
  show ?thesis
    using load assms(3-5) by (simp add: apply_topic_memory_proposal_def Let_def of_result_def return_err_def)
qed

text \<open>
  C22. A pending proposal can be decided, once: the decision returns it as applied or rejected and stores it so, a confirmation puts
  its entries into the memory of the topic and a rejection leaves that memory as it is, and every later decision of the
  same proposal, whichever, is refused and writes nothing. The proposals the topic has were stored by the service, with
  times of four-digit years, and the disk has no fault.
\<close>

theorem proposal_decided_once:
  assumes "proposals_in s tid ps" and "vo_faults s = []" and "trim_space topic_id = tid" and "tid \<noteq> ''''"
    and "trim_space proposal_id = mp_proposal_id p" and "mp_proposal_id p \<noteq> ''''"
    and "List.find (\<lambda>q. mp_proposal_id q = mp_proposal_id p) ps = Some p" and "mp_topic_id p = tid" and "mp_status p = proposal_pending"
    and "d = decision_confirm \<or> d = decision_reject"
  shows "\<exists>t. apply_topic_memory_proposal now topic_id proposal_id d s =
      (Inr (p\<lparr>mp_status := (if d = decision_confirm then proposal_applied else proposal_rejected)\<rparr>), t) \<and>
    memory_in t tid = (if d = decision_confirm then Some (JObj (remember_entries (mp_entries p) (memory_object (memory_in s tid))))
      else memory_in s tid) \<and>
    (\<forall>later d'. \<exists>e u. apply_topic_memory_proposal later topic_id proposal_id d' t = (Inl e, u) \<and> vo_file u = vo_file t)"
proof -
  let ?p = "p\<lparr>mp_status := (if d = decision_confirm then proposal_applied else proposal_rejected)\<rparr>"
  have check: "check_proposal tid (mp_proposal_id p) ps = Inr p" using assms(7-9) by (simp add: check_proposal_def)
  obtain t where t: "apply_topic_memory_proposal now topic_id proposal_id d s = (Inr ?p, t)" "vo_faults t = []"
    "proposals_in t tid (replace_proposal ?p ps)"
    "memory_in t tid = (if d = decision_confirm then Some (JObj (remember_entries (mp_entries p) (memory_object (memory_in s tid))))
      else memory_in s tid)"
    using decide_pending[OF assms(1-6,10) check, of now] by blast
  have "List.find (\<lambda>q. mp_proposal_id q = mp_proposal_id p) (replace_proposal ?p ps) = Some ?p"
    using find_replaced[of ?p ps] assms(7) by simp
  then obtain e where "check_proposal tid (mp_proposal_id p) (replace_proposal ?p ps) = Inl e"
    using assms(8) by (simp add: check_proposal_def proposal_pending_def proposal_applied_def proposal_rejected_def)
  from decide_refused[OF t(3,2) assms(3,5) this] t(1,4) show ?thesis by blast
qed


section \<open>What compaction leaves\<close>

lemma contains_sublist: "contains s part \<longleftrightarrow> sublist part s"
proof
  assume "contains s part"
  then obtain i where "take (length part) (drop i s) = part" by (auto simp: contains_def list_ex_iff)
  then have "s = take i s @ part @ drop (length part) (drop i s)" by (metis append_take_drop_id)
  then show "sublist part s" unfolding sublist_def by blast
next
  assume "sublist part s"
  then obtain ps ss where s: "s = ps @ part @ ss" unfolding sublist_def by blast
  then have "take (length part) (drop (length ps) s) = part" "length ps \<in> set [0..<length s + 1]" by simp_all
  then show "contains s part" unfolding contains_def list_ex_iff by blast
qed

text \<open>A proposal that a node's compaction may leave in its topic.\<close>

definition clean_entry :: "memory_proposal_entry \<Rightarrow> bool" where
  "clean_entry e \<longleftrightarrow> me_key e \<noteq> '''' \<and> trim_space (me_key e) = me_key e \<and>
     (\<forall>w\<in>{''password'', ''secret'', ''token'', ''apikey'', ''api_key'', ''credential'', ''private_key''}.
        \<not> sublist w (to_lower (me_key e)))"

definition clean_proposal :: "time \<Rightarrow> string \<Rightarrow> string \<Rightarrow> memory_proposal \<Rightarrow> bool" where
  "clean_proposal now tid nid p \<longleftrightarrow> mp_status p = proposal_pending \<and> mp_topic_id p = tid \<and> mp_node_id p = nid \<and>
     mp_created_at p = now \<and> mp_entries p \<noteq> [] \<and> list_all clean_entry (mp_entries p) \<and> mp_evidence p \<noteq> [] \<and>
     memory_proposal_min_confidence \<le> mp_confidence p"

lemma sanitized_clean: "list_all clean_entry (sanitize_memory_proposal_entries es)"
  by (auto simp: list_all_iff sanitize_memory_proposal_entries_def clean_entry_def is_sensitive_memory_key_def Let_def contains_sublist)

lemma new_proposal_clean: "acceptable_candidate c \<Longrightarrow> clean_proposal now tid nid (new_proposal now tid nid pid c i)"
  by (simp add: acceptable_candidate_def clean_proposal_def new_proposal_def sanitized_clean)

lemma draw_proposals_clean:
  "draw_proposals now tid nid cs s = (Inr ps, t) \<Longrightarrow> list_all (\<lambda>(_, c). acceptable_candidate c) cs \<Longrightarrow>
   list_all (clean_proposal now tid nid) ps"
proof (induction cs arbitrary: s ps t)
  case (Cons c cs)
  obtain pid cand where c: "c = (pid, cand)" by fastforce
  then obtain q u where rest: "draw_proposals now tid nid cs (s\<lparr>vo_drawn := vo_drawn s + 1\<rparr>) = (Inr q, u)"
    and ps: "ps = new_proposal now tid nid pid cand (vo_ids s (vo_drawn s)) # q"
    using Cons.prems(1) by (auto simp: seq_Inr_iff draw_id_def return_ok_def)
  then show ?case using Cons.IH[OF rest] Cons.prems(2) by (simp add: c new_proposal_clean)
qed (simp add: return_ok_def)

lemma build_clean:
  "build_pending_memory_proposals now tid nid cs s = (Inr ps, t) \<Longrightarrow> list_all (clean_proposal now tid nid) ps"
  unfolding build_pending_memory_proposals_def
  by (erule draw_proposals_clean) (auto simp: acceptable_candidates_def list_all_iff)

lemma clean_proposal_ok: "clean_proposal now tid nid p \<Longrightarrow> four_digit_year now \<Longrightarrow> proposal_ok p"
  by (simp add: clean_proposal_def proposal_ok_def proposal_pending_def)

lemma sync_topics: "sync_node_processes i items st s = (Inr st', t) \<Longrightarrow> vf_topics st' = vf_topics st"
proof -
  assume run: "sync_node_processes i items st s = (Inr st', t)"
  obtain nd where "require_node st i = Inr nd" using run by (auto simp: sync_node_processes_def seq_Inr_iff of_result_def)
  moreover obtain m r where "sync_items nd items (vo_ids s) (vo_drawn s) [] (vf_processes st) = (m, r)" by fastforce
  ultimately show ?thesis using run by (auto simp: sync_node_processes_def of_result_def result_simps)
qed

lemma field_or_nil_store: "field_or_nil (store_proposals ps m) k =
    (if k = topic_memory_proposals_key then JArr (map encode_proposal ps) else field_or_nil m k)"
  by (simp add: store_proposals_def field_put)

text \<open>Adding proposals is invisible to the memory of every topic and appends to the proposals of the one.\<close>

lemma add_proposals_memory:
  assumes "add_proposals tid created st = Inr st'"
  shows "metadata_field topic_memory_key st' i = metadata_field topic_memory_key st i"
  using assms by (auto simp: add_proposals_def result_simps metadata_field_def change_topic_def table_simps with_metadata_def
      field_or_nil_store require_topic_def split: if_splits option.splits)

lemma add_proposals_stored:
  assumes "add_proposals tid created st = Inr st'" and "metadata_field topic_memory_proposals_key st tid = Some v"
    and "decode_proposals v = Inr ps" and "list_all proposal_ok (ps @ created)"
  shows "\<exists>v'. metadata_field topic_memory_proposals_key st' tid = Some v' \<and> decode_proposals v' = Inr (ps @ created)"
proof (cases "created = []")
  case False
  obtain t where t: "require_topic st tid = Inr t" "field_or_nil (tp_metadata t) topic_memory_proposals_key = v"
    using metadata_field_topic[OF assms(2)] by blast
  have "map_of (vf_topics st) tid = Some t" using t(1) by (simp add: require_topic_def split: option.splits)
  moreover have "st' = change_topic tid (with_metadata (store_proposals (ps @ created))) st"
    using assms(1,3) t False by (simp add: add_proposals_def read_topic_memory_proposals_def t(1)[simplified] del: map_append)
  ultimately show ?thesis using decode_encode_proposals[OF assms(4)]
    by (simp add: metadata_field_change with_metadata_def field_or_nil_store)
qed (use assms in \<open>simp add: add_proposals_def\<close>)


lemma sync_nodes_frame:
  assumes "sync_node_processes i items st s = (Inr st', t)" and "\<And>n ids. g (n\<lparr>nd_process_ids := ids\<rparr>) = g n"
  shows "map_option g (map_of (vf_nodes st') k) = map_option g (map_of (vf_nodes st) k)"
proof -
  obtain nd where nd: "require_node st i = Inr nd" using assms(1) by (auto simp: sync_node_processes_def seq_Inr_iff of_result_def)
  obtain m r where "sync_items nd items (vo_ids s) (vo_drawn s) [] (vf_processes st) = (m, r)" by fastforce
  then show ?thesis
    using assms nd by (auto simp: sync_node_processes_def of_result_def result_simps table_simps option.map_comp comp_def)
qed

lemma add_proposals_nodes: "add_proposals tid created st = Inr st' \<Longrightarrow> vf_nodes st' = vf_nodes st"
  by (auto simp: add_proposals_def result_simps change_topic_def split: if_splits)

text \<open>The steps of a compaction that is applied, and what they leave in the file.\<close>

lemma compaction_steps:
  assumes run: "apply_compaction_results now inp s = (Inr (n, created), t)"
  obtains st w n0 t0 st1 w1 w2 st2 st3 where "load_state s = (Inr st, w)" and "map_of (vf_nodes st) (ac_node_id inp) = Some n0"
    and "map_of (vf_topics st) (nd_topic_id n0) = Some t0" and "vf_topics st1 = vf_topics st"
    and "map_option node_links (map_of (vf_nodes st1) (ac_node_id inp)) = Some (node_links n0)"
    and "build_pending_memory_proposals now (tp_id t0) (nd_id n0) (ac_compacted inp) w1 = (Inr created, w2)"
    and "add_proposals (nd_topic_id n0) created st1 = Inr st2"
    and "save_state (change_topic (nd_topic_id n0) (touch_topic now) (change_node (ac_node_id inp) (touch_node now) st2)) w2 = (Inr st3, t)"
    and "map_of (vf_nodes st3) (ac_node_id inp) = Some n"
proof -
  let ?i = "ac_node_id inp"
  obtain st w n0 t0 st1 w1 w2 st2 st3 where steps: "load_state s = (Inr st, w)" "require_node st ?i = Inr n0"
    "require_topic st (nd_topic_id n0) = Inr t0"
    "(case ac_processes inp of None \<Rightarrow> return_ok st | Some items \<Rightarrow> sync_node_processes ?i items st) w = (Inr st1, w1)"
    "build_pending_memory_proposals now (tp_id t0) (nd_id n0) (ac_compacted inp) w1 = (Inr created, w2)"
    "add_proposals (nd_topic_id n0) created st1 = Inr st2"
    "save_state (change_topic (nd_topic_id n0) (touch_topic now) (change_node ?i (touch_node now) st2)) w2 = (Inr st3, t)"
    "require_node st3 ?i = Inr n"
    using run by (auto simp: apply_compaction_results_def seq_Inr_iff of_result_def Let_def result_simps return_err_def split: if_splits)
  have n0: "map_of (vf_nodes st) ?i = Some n0" using steps(2) by (simp add: require_node_def split: option.splits)
  have "vf_topics st1 = vf_topics st" "map_option node_links (map_of (vf_nodes st1) ?i) = Some (node_links n0)"
    using steps(4) n0 sync_topics[of ?i _ st w st1 w1] sync_nodes_frame[of ?i _ st w st1 w1 node_links ?i]
    by (auto simp: return_ok_def node_links_def split: option.splits)
  then show thesis using that n0 steps
    by (simp add: require_topic_def require_node_def split: option.splits)
qed

text \<open>
  C21. What a compaction that is applied does to the memory of topics: nothing. It leaves proposals in the topic of its node, behind
  those that were there: each is pending, carries the topic and the node, has at least one entry, some evidence and the
  required confidence, and no entry has a blank or untrimmed key or one that contains, in any case, a word for a secret. The
  proposals the topic has were stored by the service, with times of four-digit years, and the disk has no fault.
\<close>

theorem compaction_only_proposes:
  assumes "reachable new_vos vos_step s" and "vo_faults s = []" and "apply_compaction_results now inp s = (Inr (n, created), t)"
    and "proposals_in s (nd_topic_id n) ps" and "four_digit_year now"
  shows "(\<forall>i. memory_in t i = memory_in s i) \<and> proposals_in t (nd_topic_id n) (ps @ created) \<and>
    list_all (clean_proposal now (nd_topic_id n) (ac_node_id inp)) created"
proof -
  let ?i = "ac_node_id inp"
  obtain st w n0 t0 st1 w1 w2 st2 st3 where load: "load_state s = (Inr st, w)" and n0: "map_of (vf_nodes st) ?i = Some n0"
    and t0: "map_of (vf_topics st) (nd_topic_id n0) = Some t0" and topics: "vf_topics st1 = vf_topics st"
    and links: "map_option node_links (map_of (vf_nodes st1) ?i) = Some (node_links n0)"
    and build: "build_pending_memory_proposals now (tp_id t0) (nd_id n0) (ac_compacted inp) w1 = (Inr created, w2)"
    and add: "add_proposals (nd_topic_id n0) created st1 = Inr st2"
    and save: "save_state (change_topic (nd_topic_id n0) (touch_topic now) (change_node ?i (touch_node now) st2)) w2 = (Inr st3, t)"
    and n: "map_of (vf_nodes st3) ?i = Some n"
    by (rule compaction_steps[OF assms(3)]) blast
  have ok: "entries_ok (file_state s)" "forest_ok (forest_of (file_state s))" using reachable_file_ok[OF assms(1)] by auto
  have fo: "forest_ok (forest_of st)" using ok(2) load_nodes[OF ok(1) load] by simp
  have ids: "tp_id t0 = nd_topic_id n0" "nd_id n0 = ?i"
    using forest_topicD[OF fo, of "nd_topic_id n0" "topic_links t0"] forest_nodeD(1)[OF fo, of ?i "node_links n0"] t0 n0
    by (simp_all add: forest_of_def topic_links_def node_links_def)
  obtain n1 where n1: "map_of (vf_nodes st1) ?i = Some n1" "node_links n1 = node_links n0" using links by auto
  have same: "nd_topic_id n = nd_topic_id n0"
    using n n1 add_proposals_nodes[OF add] save_Inr[OF save]
    by (auto simp: node_lookup_normalized table_simps node_links_def node_normalized_def touch_node_def)
  have clean: "list_all (clean_proposal now (nd_topic_id n) ?i) created" using build_clean[OF build] ids same by simp
  have loaded: "metadata_field k st i = metadata_field k (file_state s) i" if "own_key k" for k i
    using load_metadata[OF assms(2)] load that by (metis Pair_inject sum.inject(2))
  have written: "metadata_field k (file_state t) i = metadata_field k st2 i" if "own_key k" for k i
  proof -
    have "vo_file t = Some (as_written st3)" using save by (auto simp: save_state_def seq_Inr_iff)
    moreover have "metadata_field k (change_topic j (touch_topic now) (change_node ?i g st2)) i = metadata_field k st2 i" for j g
      by (auto simp: metadata_field_def change_topic_def change_node_def table_simps touch_topic_def option.map_comp comp_def)
    ultimately show ?thesis using save_Inr[OF save] metadata_field_normalized[OF that] by (auto simp: file_state_def)
  qed
  have st1: "metadata_field k st1 i = metadata_field k st i" for k i using topics by (simp add: metadata_field_def)
  have "memory_in t i = memory_in s i" for i
    using written loaded st1 add_proposals_memory[OF add] by (simp add: memory_in_def)
  moreover obtain v where v: "metadata_field topic_memory_proposals_key (file_state s) (nd_topic_id n) = Some v"
    "decode_proposals v = Inr ps" "list_all proposal_ok ps"
    using assms(4) by (auto simp: proposals_in_def)
  have "list_all proposal_ok created" using clean clean_proposal_ok assms(5) by (auto simp: list_all_iff)
  then have all: "list_all proposal_ok (ps @ created)" using v(3) by simp
  have "metadata_field topic_memory_proposals_key st1 (nd_topic_id n0) = Some v" using v(1) loaded st1 same by simp
  then have "proposals_in t (nd_topic_id n) (ps @ created)"
    unfolding proposals_in_def using add_proposals_stored[OF add _ v(2) all] all written same by simp
  ultimately show ?thesis using clean by simp
qed


section \<open>Concrete runs\<close>

text \<open>A candidate with a key to trim and a key to drop, and one whose confidence is too low.\<close>

definition demo_candidate :: "rat \<Rightarrow> memory_proposal_candidate" where
  "demo_candidate c = \<lparr>mc_propose_update = True, mc_entries = [\<lparr>me_key = '' style '', me_value = JStr ''tabs''\<rparr>,
     \<lparr>me_key = ''API_Key'', me_value = JStr ''x''\<rparr>], mc_evidence = [''turn 3''], mc_confidence = c, mc_reason = '' said so ''\<rparr>"

definition demo_compaction :: apply_compaction_input where
  "demo_compaction = \<lparr>ac_node_id = ''a'', ac_expected_version = Some 2, ac_processes = None,
     ac_compacted = [\<lparr>cp_process_id = ''p'', cp_name = ''P'', cp_summary = [], cp_compacted_session_ids = [],
       cp_memory_proposals = [demo_candidate (9 / 10), demo_candidate (1 / 2)]\<rparr>]\<rparr>"

definition demo_proposal :: memory_proposal where
  "demo_proposal = \<lparr>mp_proposal_id = ''id-0'', mp_topic_id = ''t'', mp_node_id = ''a'', mp_process_id = ''p'',
     mp_status = ''pending'', mp_created_at = 7, mp_entries = [\<lparr>me_key = ''style'', me_value = JStr ''tabs''\<rparr>],
     mp_evidence = [''turn 3''], mp_confidence = 9 / 10, mp_reason = ''said so''\<rparr>"

text \<open>The tree with the proposal in its topic.\<close>

definition demo_proposed :: vos where
  "demo_proposed = demo_tree\<lparr>vo_file := Some (change_topic ''t'' (with_metadata (store_proposals [demo_proposal])) (file_state demo_tree))\<rparr>"

lemma demo_compaction_run: "case apply_compaction_results 7 demo_compaction demo_tree of
    (Inr (n, created), t) \<Rightarrow> nd_topic_id n = ''t'' \<and> created = [demo_proposal] | _ \<Rightarrow> False"
  by code_simp

lemma demo_tree_no_faults: "vo_faults demo_tree = []"
  by code_simp

lemma demo_no_proposals: "proposals_in demo_tree ''t'' []"
proof -
  have "metadata_field topic_memory_proposals_key (file_state demo_tree) ''t'' = Some JNull" by code_simp
  moreover have "decode_proposals JNull = Inr []" by code_simp
  ultimately show ?thesis by (simp add: proposals_in_def)
qed

theorem compaction_only_proposes_witness:
  "case apply_compaction_results 7 demo_compaction demo_tree of
     (Inr (n, created), t) \<Rightarrow> proposals_in t ''t'' created \<and> length created = 1 \<and> list_all (clean_proposal 7 ''t'' ''a'') created \<and>
       memory_in t ''t'' = memory_in demo_tree ''t'' | _ \<Rightarrow> False"
proof -
  obtain r t where eq: "apply_compaction_results 7 demo_compaction demo_tree = (r, t)" by fastforce
  then have "case r of Inr (n, created) \<Rightarrow> nd_topic_id n = ''t'' \<and> created = [demo_proposal] | Inl _ \<Rightarrow> False"
    using demo_compaction_run by (simp only: eq prod.case)
  then obtain n where "r = Inr (n, [demo_proposal])" "nd_topic_id n = ''t''" by (cases r) auto
  then have run: "apply_compaction_results 7 demo_compaction demo_tree = (Inr (n, [demo_proposal]), t)" "nd_topic_id n = ''t''"
    using eq by simp_all
  have "ac_node_id demo_compaction = ''a''" by code_simp
  moreover have "four_digit_year 7" by code_simp
  ultimately show ?thesis using compaction_only_proposes[OF reachable_demo_tree demo_tree_no_faults run(1), of "[]"] demo_no_proposals run
    by simp
qed

lemma demo_proposed_fields: "proposals_in demo_proposed ''t'' [demo_proposal]" "memory_in demo_proposed ''t'' = Some JNull"
proof -
  have "metadata_field topic_memory_key (file_state demo_tree) ''t'' = Some JNull" by code_simp
  then obtain t where t: "map_of (vf_topics (file_state demo_tree)) ''t'' = Some t" "field_or_nil (tp_metadata t) topic_memory_key = JNull"
    by (auto simp: metadata_field_def)
  have "file_state demo_proposed = change_topic ''t'' (with_metadata (store_proposals [demo_proposal])) (file_state demo_tree)"
    by (simp add: demo_proposed_def file_state_def)
  then have field: "metadata_field k (file_state demo_proposed) ''t'' =
      Some (field_or_nil (store_proposals [demo_proposal] (tp_metadata t)) k)" for k
    using t(1) by (simp add: metadata_field_change with_metadata_def)
  have ok: "list_all proposal_ok [demo_proposal]" by code_simp
  show "proposals_in demo_proposed ''t'' [demo_proposal]"
    unfolding proposals_in_def field field_or_nil_store using ok decode_encode_proposals[OF ok] by simp
  show "memory_in demo_proposed ''t'' = Some JNull" unfolding memory_in_def field field_or_nil_store using t(2) by simp
qed

theorem proposal_decided_once_witness:
  "\<exists>t. apply_topic_memory_proposal 8 '' t'' ''id-0'' decision_confirm demo_proposed = (Inr (demo_proposal\<lparr>mp_status := ''applied''\<rparr>), t) \<and>
     memory_in t ''t'' = Some (JObj [(''style'', JStr ''tabs'')]) \<and>
     (\<forall>later d'. \<exists>e u. apply_topic_memory_proposal later '' t'' ''id-0'' d' t = (Inl e, u) \<and> vo_file u = vo_file t)"
proof -
  have args: "vo_faults demo_proposed = []" "trim_space '' t'' = ''t''" "''t'' \<noteq> ''''" "trim_space ''id-0'' = mp_proposal_id demo_proposal"
    "mp_proposal_id demo_proposal \<noteq> ''''" "mp_topic_id demo_proposal = ''t''" "mp_status demo_proposal = proposal_pending"
    by (simp add: demo_proposed_def demo_tree_no_faults) code_simp+
  have found: "List.find (\<lambda>q. mp_proposal_id q = mp_proposal_id demo_proposal) [demo_proposal] = Some demo_proposal" by simp
  have "JObj (remember_entries (mp_entries demo_proposal) (memory_object (Some JNull))) = JObj [(''style'', JStr ''tabs'')]"
    by code_simp
  then show ?thesis
    using demo_proposed_fields(2) proposal_decided_once[OF demo_proposed_fields(1) args(1-5) found args(6,7), of decision_confirm 8]
    by (simp add: proposal_applied_def)
qed

end
