(* ===== verification/VosMessages.thy ===== *)
theory VosMessages
  imports VosContext
begin

text \<open>
  What the HTTP API (internal/vos/httpapi) reads out of the decoded JSON of session events and requests: server.go's
  readers of payloads and its parsers of query parameters, the messages of a session, and the text helpers of chat.go.
\<close>

section \<open>Text in payloads\<close>

definition read_optional_string :: "json_object \<Rightarrow> string \<Rightarrow> string" where
  "read_optional_string m k = (case map_of m k of
       None \<Rightarrow> ''''
     | Some raw \<Rightarrow> (case as_string raw of None \<Rightarrow> '''' | Some t \<Rightarrow> trim_space t))"

definition newline_text :: string where "newline_text = [CHR 0x0A]"

lemma map_of_size: "map_of m k = Some v \<Longrightarrow> size v < size (JObj m)"
  by (induction m) (auto split: if_splits)

text \<open>The first of the given texts that is not empty (a chain of \<open>if text != "" { return text }\<close>).\<close>

fun first_text :: "string list \<Rightarrow> string" where
  "first_text [] = ''''"
| "first_text (t # ts) = (if t \<noteq> '''' then t else first_text ts)"

function extract_text_from_any :: "json \<Rightarrow> string" where
  "extract_text_from_any (JStr t) = trim_space t"
| "extract_text_from_any (JArr xs) = join newline_text (filter (\<lambda>t. t \<noteq> '''') (map extract_text_from_any xs))"
| "extract_text_from_any (JObj m) = first_text [
     read_optional_string m ''text'', read_optional_string m ''content'',
     (case map_of m ''content'' of None \<Rightarrow> '''' | Some v \<Rightarrow> extract_text_from_any v),
     (case map_of m ''output'' of None \<Rightarrow> '''' | Some v \<Rightarrow> extract_text_from_any v)]"
| "extract_text_from_any JNull = ''''"
| "extract_text_from_any (JBool b) = ''''"
| "extract_text_from_any (JNum q) = ''''"
  by pat_completeness auto

termination
proof (relation "measure size", goal_cases)
  case (2 xs x)
  then show ?case by (induction xs) auto
qed (auto dest: map_of_size)

definition extract_v1_message_content :: "json_object \<Rightarrow> string" where
  "extract_v1_message_content m = first_text [
     read_optional_string m ''content'', read_optional_string m ''text'', read_optional_string m ''message'',
     (case map_of m ''content'' of None \<Rightarrow> '''' | Some v \<Rightarrow> extract_text_from_any v),
     (case map_of m ''output'' of None \<Rightarrow> '''' | Some v \<Rightarrow> extract_text_from_any v)]"

definition map_from_any :: "json \<Rightarrow> json_object" where
  "map_from_any v = (case as_object v of None \<Rightarrow> [] | Some m \<Rightarrow> m)"

definition read_error_message :: "json \<Rightarrow> string" where
  "read_error_message v = (case as_object v of None \<Rightarrow> '''' | Some m \<Rightarrow> read_optional_string m ''message'')"

fun session_role_text :: "session_role \<Rightarrow> string" where
  "session_role_text SessionRoleUser = ''user''"
| "session_role_text SessionRoleAssistant = ''assistant''"
| "session_role_text SessionRoleTool = ''tool''"
| "session_role_text SessionRoleSystem = ''system''"

definition event_role :: "session_event \<Rightarrow> string" where
  "event_role e = first_text [case ev_role e of None \<Rightarrow> '''' | Some r \<Rightarrow> session_role_text r,
     read_optional_string (ev_payload_json e) ''role'']"

section \<open>The messages of sessions\<close>

record v1_session_message =
  sm_role :: string
  sm_content :: string
  sm_timestamp :: time

definition session_message :: "session_event \<Rightarrow> v1_session_message option" where
  "session_message e =
     (if event_role e = '''' \<or> extract_v1_message_content (ev_payload_json e) = '''' then None
      else Some \<lparr>sm_role = event_role e, sm_content = extract_v1_message_content (ev_payload_json e),
             sm_timestamp = ev_created_at e\<rparr>)"

definition message_page_size :: int where "message_page_size = 1000"

definition build_v1_session_messages :: "string list \<Rightarrow> v1_session_message list vos_op" where
  "build_v1_session_messages ids = (\<lambda>s. case collect (\<lambda>i. list_session_events i 0 message_page_size) ids s of
       (_, Some e, t) \<Rightarrow> (Inl e, t)
     | (pages, None, t) \<Rightarrow> (Inr (List.map_filter session_message (concat pages)), t))"

section \<open>Parameters of a query\<close>

text \<open>\<open>strings.Split\<close> at commas.\<close>

fun split_commas :: "string \<Rightarrow> string list" where
  "split_commas [] = [[]]"
| "split_commas (c # cs) =
     (if c = CHR '','' then [] # split_commas cs
      else (case split_commas cs of [] \<Rightarrow> [[c]] | p # ps \<Rightarrow> (c # p) # ps))"

definition parse_v1_include_set :: "string \<Rightarrow> string list" where
  "parse_v1_include_set raw = remdups (filter (\<lambda>k. k \<noteq> '''') (map (\<lambda>t. to_lower (trim_space t)) (split_commas raw)))"

definition parse_v1_node_status :: "string \<Rightarrow> vos_error + string" where
  "parse_v1_node_status raw = (let value = to_lower (trim_space raw) in
     if value = ''pending'' \<or> value = ''draft'' then Inr status_draft
     else if value = ''waiting'' \<or> value = ''ready'' then Inr status_ready
     else if value = ''running'' \<or> value = ''active'' then Inr status_active
     else if value = ''failed'' \<or> value = ''blocked'' then Inr status_blocked
     else if value = ''completed'' \<or> value = ''done'' then Inr status_done
     else parse_node_status value)"

definition from_domain_node_status :: "string \<Rightarrow> string" where
  "from_domain_node_status status =
     (if status = status_draft then ''pending'' else if status = status_ready then ''waiting''
      else if status = status_active then ''running'' else if status = status_blocked then ''failed''
      else if status = status_done then ''completed'' else status)"

definition parse_v1_status_filters :: "string list \<Rightarrow> vos_error + string list" where
  "parse_v1_status_filters values = traverse parse_v1_node_status
     (filter (\<lambda>raw. raw \<noteq> '''') (map trim_space (concat (map split_commas values))))"

definition normalize_optional_text :: "string option \<Rightarrow> string option" where
  "normalize_optional_text v = (case v of
       None \<Rightarrow> None
     | Some x \<Rightarrow> if trim_space x = '''' then None else Some (trim_space x))"

text \<open>The texts \<open>strconv.ParseBool\<close> accepts.\<close>

definition parse_optional_bool :: "string \<Rightarrow> vos_error + bool" where
  "parse_optional_bool raw = (let v = trim_space raw in
     if v = '''' then Inr False
     else if v \<in> {''1'', ''t'', ''T'', ''true'', ''TRUE'', ''True''} then Inr True
     else if v \<in> {''0'', ''f'', ''F'', ''false'', ''FALSE'', ''False''} then Inr False
     else Inl (ValidationError ''leaf_only must be a boolean''))"

text \<open>The HTTP status of an error of the service; \<open>errors.As\<close> looks through the wrapping ones.\<close>

fun service_error_status :: "vos_error \<Rightarrow> int" where
  "service_error_status (ValidationError _) = 400"
| "service_error_status (TopicNotFoundError _) = 404"
| "service_error_status (NodeNotFoundError _) = 404"
| "service_error_status (SessionNotFoundError _) = 404"
| "service_error_status (DuplicateEntityError _ _) = 409"
| "service_error_status (VersionConflictError _ _ _ _) = 409"
| "service_error_status (SessionSequenceConflictError _ _ _) = 409"
| "service_error_status (WrappedError _ e _) = service_error_status e"
| "service_error_status e = (if is_user_facing_error e then 400 else 500)"

section \<open>Runes\<close>

text \<open>
  A Go string is its bytes; ranging over its runes decodes UTF-8. \<open>rune_width\<close> is the number of bytes of the first rune,
  or nothing when the bytes do not start with a well-formed one; then one byte stands for U+FFFD.
\<close>

definition byte :: "char \<Rightarrow> nat" where "byte c = of_char c"

definition byte_in :: "nat \<Rightarrow> nat \<Rightarrow> string \<Rightarrow> nat \<Rightarrow> bool" where
  "byte_in lo hi s k \<longleftrightarrow> k < length s \<and> lo \<le> byte (s ! k) \<and> byte (s ! k) \<le> hi"

definition rune_width :: "string \<Rightarrow> nat option" where
  "rune_width s =
     (if byte_in 0 0x7F s 0 then Some 1
      else if byte_in 0xC2 0xDF s 0 \<and> byte_in 0x80 0xBF s 1 then Some 2
      else if (byte_in 0xE0 0xE0 s 0 \<and> byte_in 0xA0 0xBF s 1 \<or> byte_in 0xE1 0xEC s 0 \<and> byte_in 0x80 0xBF s 1 \<or>
               byte_in 0xED 0xED s 0 \<and> byte_in 0x80 0x9F s 1 \<or> byte_in 0xEE 0xEF s 0 \<and> byte_in 0x80 0xBF s 1) \<and>
              byte_in 0x80 0xBF s 2 then Some 3
      else if (byte_in 0xF0 0xF0 s 0 \<and> byte_in 0x90 0xBF s 1 \<or> byte_in 0xF1 0xF3 s 0 \<and> byte_in 0x80 0xBF s 1 \<or>
               byte_in 0xF4 0xF4 s 0 \<and> byte_in 0x80 0x8F s 1) \<and>
              byte_in 0x80 0xBF s 2 \<and> byte_in 0x80 0xBF s 3 then Some 4
      else None)"

definition replacement_rune :: string where
  "replacement_rune = [CHR 0xEF, CHR 0xBF, CHR 0xBD]"

lemma rune_width_pos: "rune_width s = Some w \<Longrightarrow> 0 < w \<and> w \<le> length s"
  by (auto simp: rune_width_def byte_in_def Suc_le_eq split: if_splits)

text \<open>\<open>[]rune(s)\<close>, each rune as the bytes \<open>string(rune)\<close> gives.\<close>

function runes :: "string \<Rightarrow> string list" where
  "runes s = (if s = [] then [] else (case rune_width s of
       None \<Rightarrow> replacement_rune # runes (tl s)
     | Some w \<Rightarrow> take w s # runes (drop w s)))"
  by pat_completeness auto

termination
  by (relation "measure length") (auto dest: rune_width_pos)

declare runes.simps [simp del]

definition topic_name_runes :: nat where "topic_name_runes = 24"

definition summarize_message_for_topic :: "string \<Rightarrow> string" where
  "summarize_message_for_topic message = (let trimmed = trim_space message in
     if trimmed = '''' then ''Conversation''
     else if length (runes trimmed) > topic_name_runes then concat (take topic_name_runes (runes trimmed)) @ ''...''
     else trimmed)"

lemma summarize_not_empty: "summarize_message_for_topic m \<noteq> ''''"
  by (simp add: summarize_message_for_topic_def Let_def)

lemma runes_nonempty: "r \<in> set (runes s) \<Longrightarrow> r \<noteq> []"
proof (induction s rule: runes.induct)
  case (1 s)
  show ?case
  proof (cases "rune_width s")
    case None
    then show ?thesis using 1 by (auto simp: runes.simps[of s] replacement_rune_def split: if_splits)
  next
    case (Some w)
    then show ?thesis using 1 rune_width_pos[OF Some] by (auto simp: runes.simps[of s] split: if_splits)
  qed
qed

text \<open>A well-formed text is the concatenation of its runes.\<close>

lemma ascii_runes: "list_all (\<lambda>c. byte c < 128) s \<Longrightarrow> runes s = map (\<lambda>c. [c]) s"
proof (induction s)
  case (Cons c s)
  then have "rune_width (c # s) = Some 1" by (simp add: rune_width_def byte_in_def)
  then show ?case using Cons by (simp add: runes.simps[of "c # s"])
qed (simp add: runes.simps)

end
