(* ===== verification/VosChat.thy ===== *)
theory VosChat
  imports VosMessages DirectGateway
begin

text \<open>
  A synchronous chat turn (internal/vos/httpapi/chat.go): the node and the session it is stored under, the enqueueing of the
  node, and \<open>waitChatTurn\<close>, which polls the session until the turn is over.

  The server runs the scheduler over VOS in its own process (the mode inproc), so its world is the runtime store and the
  machine of DirectGateway. In the mode shell another program runs it, and ticks are that program's. A \<open>chat_env\<close> is what
  happens outside of the request: what others do between the two reads of a poll, and while the request waits for the next
  one, where its context may end. The loop's only caller passes no emitter, so nothing is streamed from it.
\<close>

section \<open>The state of a turn\<close>

record v1_tool_trace =
  tt_call_id :: string
  tt_tool :: string
  tt_args :: json_object
  tt_result :: json_object
  tt_error :: string
  tt_call :: string

record chat_turn =
  tu_session_id :: string
  tu_last_seq :: int
  tu_reply :: string
  tu_assistant_buffer :: string
  tu_usage :: json_object
  tu_model :: string
  tu_provider :: string
  tu_tool_traces :: "v1_tool_trace list"
  tu_tool_trace_by_call :: "(string \<times> nat) list"

definition new_turn :: "string \<Rightarrow> chat_turn" where
  "new_turn i = \<lparr>tu_session_id = i, tu_last_seq = 0, tu_reply = '''', tu_assistant_buffer = '''', tu_usage = [], tu_model = '''',
     tu_provider = '''', tu_tool_traces = [], tu_tool_trace_by_call = []\<rparr>"

definition append_trace :: "v1_tool_trace \<Rightarrow> chat_turn \<Rightarrow> chat_turn" where
  "append_trace tr t = t\<lparr>tu_tool_traces := tu_tool_traces t @ [tr],
     tu_tool_trace_by_call := put (tt_call_id tr) (length (tu_tool_traces t)) (tu_tool_trace_by_call t)\<rparr>"

definition add_tool_start :: "string \<Rightarrow> string \<Rightarrow> json_object \<Rightarrow> chat_turn \<Rightarrow> chat_turn" where
  "add_tool_start call_id tool args = append_trace
     \<lparr>tt_call_id = call_id, tt_tool = tool, tt_args = args, tt_result = [], tt_error = '''', tt_call = ''start''\<rparr>"

definition known_trace :: "string \<Rightarrow> chat_turn \<Rightarrow> nat option" where
  "known_trace call_id t = (case map_of (tu_tool_trace_by_call t) call_id of
       None \<Rightarrow> None
     | Some k \<Rightarrow> if k < length (tu_tool_traces t) then Some k else None)"

definition result_trace :: "string \<Rightarrow> string \<Rightarrow> json_object \<Rightarrow> string \<Rightarrow> v1_tool_trace" where
  "result_trace call_id tool result err_text = \<lparr>tt_call_id = call_id, tt_tool = tool, tt_args = [], tt_result = result,
     tt_error = trim_space err_text, tt_call = (if trim_space err_text \<noteq> '''' then ''error'' else ''result'')\<rparr>"

definition add_tool_result :: "string \<Rightarrow> string \<Rightarrow> json_object \<Rightarrow> string \<Rightarrow> chat_turn \<Rightarrow> chat_turn" where
  "add_tool_result call_id tool result err_text t =
     (let tr = result_trace call_id tool result err_text in
      case known_trace call_id t of
        Some k \<Rightarrow> t\<lparr>tu_tool_traces := (tu_tool_traces t)[k := tr\<lparr>tt_args := tt_args (tu_tool_traces t ! k)\<rparr>]\<rparr>
      | None \<Rightarrow> append_trace tr t)"

definition event_call_id :: "session_event \<Rightarrow> string" where
  "event_call_id e = (case ev_call_id e of None \<Rightarrow> '''' | Some c \<Rightarrow> trim_space c)"

definition note_assistant_message :: "json_object \<Rightarrow> chat_turn \<Rightarrow> chat_turn" where
  "note_assistant_message p t =
     (let content = first_text [extract_v1_message_content p, read_optional_string p ''output_text''];
          usage = map_from_any (field_or_nil p ''usage'') in
      t\<lparr>tu_reply := first_text [content, tu_reply t],
        tu_usage := (if usage \<noteq> [] then usage else tu_usage t),
        tu_model := first_text [read_optional_string p ''model'', tu_model t],
        tu_provider := first_text [read_optional_string p ''provider'', tu_provider t]\<rparr>)"

definition note_session_item :: "session_event \<Rightarrow> chat_turn \<Rightarrow> chat_turn" where
  "note_session_item e t = (let p = ev_payload_json e in
     if ev_item_type e = ''assistant_delta'' then
       t\<lparr>tu_assistant_buffer := tu_assistant_buffer t @ read_optional_string p ''delta''\<rparr>
     else if ev_item_type e = ''function_call'' then
       add_tool_start (event_call_id e) (read_optional_string p ''name'') (map_from_any (field_or_nil p ''arguments'')) t
     else if ev_item_type e = ''function_call_output'' then
       add_tool_result (event_call_id e)
         (case known_trace (event_call_id e) t of None \<Rightarrow> '''' | Some k \<Rightarrow> tt_tool (tu_tool_traces t ! k))
         (map_from_any (field_or_nil p ''output''))
         (if as_bool (field_or_nil p ''ok'') = Some True then '''' else read_error_message (field_or_nil p ''error'')) t
     else if ev_item_type e = ''message'' \<and> event_role e = session_role_text SessionRoleAssistant then
       note_assistant_message p t
     else t)"

text \<open>One iteration of the loop over the events of a page.\<close>

definition note_event :: "session_event \<Rightarrow> chat_turn \<Rightarrow> chat_turn" where
  "note_event e t = note_session_item e (t\<lparr>tu_last_seq := ev_seq e\<rparr>)"

definition finish_turn :: "chat_turn \<Rightarrow> chat_turn" where
  "finish_turn t = (if trim_space (tu_reply t) = '''' then t\<lparr>tu_reply := tu_assistant_buffer t\<rparr> else t)"

section \<open>The world of the server\<close>

type_synonym 'c server_world = "'c machine engine_state"

datatype chat_error = ServiceFailed vos_error | ScheduleFailed sched_error | ContextOver

type_synonym ('c, 'a) chat_op = "('c server_world, chat_error, 'a) op"

abbreviation world_vos :: "'c server_world \<Rightarrow> vos" where
  "world_vos w \<equiv> fst (snd w)"

definition on_vos :: "'a vos_op \<Rightarrow> ('c, 'a) chat_op" where
  "on_vos m w = (case w of (rows, (s, c)) \<Rightarrow> (case m s of (r, t) \<Rightarrow>
     ((case r of Inl e \<Rightarrow> Inl (ServiceFailed e) | Inr v \<Rightarrow> Inr v), (rows, (t, c)))))"

definition on_vos_now :: "('c \<Rightarrow> time \<times> 'c) \<Rightarrow> (time \<Rightarrow> 'a vos_op) \<Rightarrow> ('c, 'a) chat_op" where
  "on_vos_now clock m w = (case w of (rows, (s, c)) \<Rightarrow> (case clock c of (now, c') \<Rightarrow> on_vos (m now) (rows, (s, c'))))"

definition tick_schedule :: "'c machine gateways \<Rightarrow> engine_config \<Rightarrow> ('c, unit) chat_op" where
  "tick_schedule g cfg w = (case tick g cfg 1 w of (_, err, w') \<Rightarrow>
     ((case err of None \<Rightarrow> Inr () | Some e \<Rightarrow> Inl (ScheduleFailed e)), w'))"

section \<open>Waiting for the turn\<close>

record 'c chat_env =
  en_between :: "nat \<Rightarrow> 'c server_world \<Rightarrow> 'c server_world"
  en_wait :: "nat \<Rightarrow> ('c, unit) chat_op"

definition chat_poll_limit :: int where "chat_poll_limit = 200"

text \<open>One poll, in the round \<open>k\<close>: whether the turn is over, and what is known of it.\<close>

definition poll_turn :: "'c chat_env \<Rightarrow> nat \<Rightarrow> chat_turn \<Rightarrow> ('c, bool \<times> chat_turn) chat_op" where
  "poll_turn env k t =
     seq (on_vos (list_session_events (tu_session_id t) (tu_last_seq t) chat_poll_limit)) (\<lambda>es.
     seq (\<lambda>w. (Inr (), en_between env k w)) (\<lambda>_.
     seq (on_vos (get_session (tu_session_id t))) (\<lambda>se.
     let t' = fold note_event es t in
     if se_status se = SessionStatusCompleted then return_ok (True, finish_turn t')
     else if se_status se = SessionStatusFailed then return_err (ServiceFailed (vos_error.ValidationError ''chat session failed''))
     else return_ok (False, t'))))"

text \<open>One round: the tick (none in the mode shell), the poll, and the wait when the turn is not over.\<close>

definition chat_round :: "('c, unit) chat_op option \<Rightarrow> 'c chat_env \<Rightarrow> nat \<Rightarrow> chat_turn \<Rightarrow> ('c, bool \<times> chat_turn) chat_op" where
  "chat_round ticks env k t =
     seq (case ticks of None \<Rightarrow> return_ok () | Some m \<Rightarrow> m) (\<lambda>_.
     seq (poll_turn env k t) (\<lambda>(over, t').
     if over then return_ok (True, t') else seq (en_wait env k) (\<lambda>_. return_ok (False, t'))))"

text \<open>The loop need not end: a session that stays active is polled for as long as the request's context lives.\<close>

partial_function (option) wait_chat_turn ::
  "('c, unit) chat_op option \<Rightarrow> 'c chat_env \<Rightarrow> nat \<Rightarrow> chat_turn \<Rightarrow> 'c server_world \<Rightarrow>
   ((chat_error + chat_turn) \<times> 'c server_world) option" where
  "wait_chat_turn ticks env k t w = (case chat_round ticks env k t w of
       (Inl e, w') \<Rightarrow> Some (Inl e, w')
     | (Inr (over, t'), w') \<Rightarrow> if over then Some (Inr t', w') else wait_chat_turn ticks env (k + 1) t' w')"

declare wait_chat_turn.simps [code]

section \<open>Starting a turn\<close>

record v1_chat_request =
  cq_node_id :: "string option"
  cq_topic_id :: "string option"
  cq_message :: string

definition topic_input_of :: "string \<Rightarrow> create_topic_input" where
  "topic_input_of name = \<lparr>ct_topic_id = '''', ct_name = name, ct_description = None, ct_metadata = [], ct_tags = [],
     ct_root_node_id = '''', ct_root_node_name = None\<rparr>"

definition node_input_of :: "string \<Rightarrow> string \<Rightarrow> create_node_input" where
  "node_input_of topic_id name = \<lparr>cn_topic_id = topic_id, cn_name = name, cn_parent_id = None, cn_node_id = '''',
     cn_description = None, cn_status = status_ready, cn_memory = None, cn_input = [], cn_output = []\<rparr>"

definition optional_trimmed :: "string option \<Rightarrow> string" where
  "optional_trimmed v = (case v of None \<Rightarrow> '''' | Some x \<Rightarrow> trim_space x)"

definition resolve_chat_node :: "time \<Rightarrow> v1_chat_request \<Rightarrow> vos_node vos_op" where
  "resolve_chat_node now q =
     (if optional_trimmed (cq_node_id q) \<noteq> '''' then vos_get_node (optional_trimmed (cq_node_id q))
      else if optional_trimmed (cq_topic_id q) = '''' then
        seq (create_topic now (topic_input_of (summarize_message_for_topic (cq_message q)))) (\<lambda>(_, root). return_ok root)
      else seq (vos_get_topic (optional_trimmed (cq_topic_id q))) (\<lambda>topic.
        create_node now (node_input_of (tp_id topic) (summarize_message_for_topic (cq_message q)))))"

definition message_event :: "string \<Rightarrow> session_role \<Rightarrow> json_object \<Rightarrow> string \<Rightarrow> append_session_event_input" where
  "message_event i role payload next_status = \<lparr>ae_session_id = i, ae_item_type = ''message'', ae_provider_item_id = None,
     ae_role = Some (session_role_text role), ae_call_id = None,
     ae_payload_json = (''role'', JStr (session_role_text role)) # payload, ae_next_status = Some next_status\<rparr>"

text \<open>\<open>prepareChatSession\<close>: the node and the session that holds the user's message.\<close>

definition prepare_chat_session :: "('c \<Rightarrow> time \<times> 'c) \<Rightarrow> v1_chat_request \<Rightarrow> ('c, string \<times> string) chat_op" where
  "prepare_chat_session clock q =
     (if trim_space (cq_message q) = '''' then return_err (ServiceFailed (vos_error.ValidationError ''message is required''))
      else seq (on_vos_now clock (\<lambda>now. resolve_chat_node now q)) (\<lambda>n.
        seq (on_vos_now clock (\<lambda>now. create_session now \<lparr>cs_node_id = nd_id n, cs_session_id = '''', cs_status = ''active''\<rparr>)) (\<lambda>se.
        seq (on_vos_now clock (\<lambda>now. append_session_event now (message_event (VosTypes.vos_session.se_id se) SessionRoleUser
          [(''content'', JStr (trim_space (cq_message q)))] ''active''))) (\<lambda>_.
        return_ok (nd_id n, VosTypes.vos_session.se_id se)))))"

text \<open>The files of the server, which an agent gets to know through the queue.\<close>

record server_files =
  sf_workspace :: string
  sf_session_db :: string
  sf_model_config :: string
  sf_state_file :: string

definition chat_enqueue_request :: "server_files \<Rightarrow> vos_node \<Rightarrow> string \<Rightarrow> enqueue_request" where
  "chat_enqueue_request f n i = \<lparr>eq_topic_id = nd_topic_id n, eq_node_id = nd_id n, eq_node_name = nd_name n, eq_session_id = i,
     eq_agent_spec = empty_agent_spec\<lparr>as_workspace_root := sf_workspace f, as_pool_db_file := sf_session_db f,
       as_pool_model_config := sf_model_config f, as_vos_state_file := sf_state_file f, as_vos_session_db := sf_session_db f,
       as_use_session_event := True\<rparr>,
     eq_priority = \<lparr>np_label = BusinessNodePriorityLabel, np_rank = BusinessNodePriorityRank\<rparr>,
     eq_idempotency_key = ''chat:'' @ i, eq_mark_priority_dirty = False\<rparr>"

text \<open>\<open>enqueueChatNode\<close> in the mode inproc; what the other mode's command does is a parameter of \<open>prepare_chat_turn\<close>.\<close>

definition enqueue_chat_node :: "'c machine gateways \<Rightarrow> server_files \<Rightarrow> vos_node \<Rightarrow> string \<Rightarrow> ('c, unit) chat_op" where
  "enqueue_chat_node g f n i = seq (map_err ScheduleFailed (enqueue g (chat_enqueue_request f n i))) (\<lambda>_. return_ok ())"

definition enqueue_failed_event :: "string \<Rightarrow> string \<Rightarrow> append_session_event_input" where
  "enqueue_failed_event i text = message_event i SessionRoleSystem
     [(''error'', JObj [(''code'', JStr ''SCHEDULE_ENQUEUE_FAILED''), (''message'', JStr text), (''retryable'', JBool True)])] ''failed''"

text \<open>A turn whose node cannot be queued marks its session failed; \<open>text\<close> is the text of the error.\<close>

definition prepare_chat_turn ::
  "('c \<Rightarrow> time \<times> 'c) \<Rightarrow> (vos_node \<Rightarrow> string \<Rightarrow> ('c, unit) chat_op) \<Rightarrow> (chat_error \<Rightarrow> string) \<Rightarrow> v1_chat_request \<Rightarrow>
   ('c, string \<times> string) chat_op" where
  "prepare_chat_turn clock queue text q =
     seq (prepare_chat_session clock q) (\<lambda>(node_id, i).
     seq (on_vos (vos_get_node node_id)) (\<lambda>n.
     attempt (queue n i) (\<lambda>r. case r of
       Inl e \<Rightarrow> seq (ignore_result (on_vos_now clock (\<lambda>now. append_session_event now (enqueue_failed_event i (text e))))) (\<lambda>_.
         return_err e)
     | Inr _ \<Rightarrow> return_ok (node_id, i))))"

section \<open>The answer\<close>

record v1_chat_response =
  vr_node_id :: string
  vr_reply :: string
  vr_model :: string
  vr_provider :: string
  vr_usage :: json_object

text \<open>What the handler answers: a service error, a turn without a reply (a gateway timeout), or the reply.\<close>

datatype chat_answer = ChatFailed chat_error | NoReply | ChatReply v1_chat_response

definition answer_of :: "string \<Rightarrow> chat_turn \<Rightarrow> chat_answer" where
  "answer_of node_id t =
     (if trim_space (tu_reply t) = '''' then NoReply
      else ChatReply \<lparr>vr_node_id = node_id, vr_reply = tu_reply t,
        vr_model = (if tu_model t = '''' then ''responses'' else tu_model t),
        vr_provider = (if tu_provider t = '''' then ''pool'' else tu_provider t), vr_usage = tu_usage t\<rparr>)"

definition handle_v1_chat ::
  "('c \<Rightarrow> time \<times> 'c) \<Rightarrow> (vos_node \<Rightarrow> string \<Rightarrow> ('c, unit) chat_op) \<Rightarrow> (chat_error \<Rightarrow> string) \<Rightarrow>
   ('c, unit) chat_op option \<Rightarrow> 'c chat_env \<Rightarrow> v1_chat_request \<Rightarrow> 'c server_world \<Rightarrow> (chat_answer \<times> 'c server_world) option" where
  "handle_v1_chat clock queue text ticks env q w = (case prepare_chat_turn clock queue text q w of
       (Inl e, w') \<Rightarrow> Some (ChatFailed e, w')
     | (Inr (node_id, i), w') \<Rightarrow> (case wait_chat_turn ticks env 0 (new_turn i) w' of
           None \<Rightarrow> None
         | Some (Inl e, w'') \<Rightarrow> Some (ChatFailed e, w'')
         | Some (Inr t, w'') \<Rightarrow> Some (answer_of node_id t, w'')))"

end
