(* ===== verification/VosChatProps.thy ===== *)
theory VosChatProps
  imports VosChat "HOL-Library.Sublist"
begin

text \<open>
  What a chat turn reads of its session, when it returns, and what it stores. The world of a turn changes while it waits: the
  scheduler's worker, other requests and other programs append events to the session. \<open>has_log\<close> is what all of them keep, a
  session whose events begin with the ones there were.
\<close>

section \<open>The log of a session\<close>

abbreviation row_id :: "vos_session \<Rightarrow> string" where
  "row_id \<equiv> VosTypes.vos_session.se_id"

definition session_log :: "string \<Rightarrow> vos \<Rightarrow> session_event list" where
  "session_log i s = (case vo_db s of None \<Rightarrow> [] | Some d \<Rightarrow> events_of i d)"

definition status_in :: "string \<Rightarrow> vos \<Rightarrow> session_status option" where
  "status_in i s = (case vo_db s of None \<Rightarrow> None
     | Some d \<Rightarrow> map_option se_status (find_session i d))"

definition has_log :: "string \<Rightarrow> session_event list \<Rightarrow> vos \<Rightarrow> bool" where
  "has_log i es s \<longleftrightarrow> (\<exists>d r. vo_db s = Some d \<and> sessions_ok d \<and> find_session i d = Some r \<and> prefix es (events_of i d))"

lemma has_log_self: "has_log i es s \<Longrightarrow> has_log i (session_log i s) s"
  by (auto simp: has_log_def session_log_def)

lemma has_log_prefix: "has_log i es s \<Longrightarrow> prefix es (session_log i s)"
  by (auto simp: has_log_def session_log_def)

lemma has_log_weaken: "has_log i es s \<Longrightarrow> prefix es' es \<Longrightarrow> has_log i es' s"
  unfolding has_log_def using prefix_order.order_trans by blast

lemma has_log_cong: "vo_db t = vo_db s \<Longrightarrow> has_log i es t = has_log i es s"
  by (simp add: has_log_def)

section \<open>The service only appends\<close>

lemma keeps_frame: "(\<And>s r t. m s = (r, t) \<Longrightarrow> vo_db t = vo_db s) \<Longrightarrow> keeps (has_log i es) m"
  by (rule keepsI) (metis has_log_cong)

lemma disk_log [keeps_intros]: "keeps (has_log i es) disk"
proof (rule keeps_frame)
  show "disk s = (r, t) \<Longrightarrow> vo_db t = vo_db s" for s r t
    by (simp add: disk_def split: list.splits option.splits) auto
qed

lemma draw_id_log [keeps_intros]: "keeps (has_log i es) draw_id"
  by (rule keeps_frame) (auto simp: draw_id_def)

lemma normalize_log [keeps_intros]: "keeps (has_log i es) (normalize st)"
  by (rule keeps_frame) (auto dest!: normalize_result)

lemma load_log [keeps_intros]: "keeps (has_log i es) load_state"
proof -
  have "keeps (has_log i es) (\<lambda>s. case vo_file s of None \<Rightarrow> return_ok new_vfs_state s | Some st \<Rightarrow> normalize st s)"
    by (rule keeps_frame) (auto simp: return_ok_def split: option.splits dest!: normalize_result)
  then show ?thesis unfolding load_state_def by (intro keeps_intros)
qed

lemma save_log [keeps_intros]: "keeps (has_log i es) (save_state st)"
proof -
  have "keeps (has_log i es) (\<lambda>s. (Inr st', s\<lparr>vo_file := Some (as_written st')\<rparr>))" for st'
    by (rule keeps_frame) auto
  then show ?thesis unfolding save_state_def by (intro keeps_intros)
qed

lemma create_topic_log [keeps_intros]: "keeps (has_log i es) (create_topic now ct)"
  unfolding create_topic_def by (intro keeps_intros keeps_Let)

lemma create_node_log [keeps_intros]: "keeps (has_log i es) (create_node now cn)"
  unfolding create_node_def ensure_topic_for_def by (intro keeps_intros)

lemma with_sessions_log:
  assumes "\<And>d r x d'. sessions_ok d \<Longrightarrow> find_session i d = Some r \<Longrightarrow> m d = (x, d') \<Longrightarrow>
    sessions_ok d' \<and> (\<exists>r'. find_session i d' = Some r') \<and> prefix (events_of i d) (events_of i d')"
  shows "keeps (has_log i es) (with_sessions m)"
proof (rule keepsI)
  fix s r t assume "has_log i es s" and "with_sessions m s = (r, t)"
  then show "has_log i es t"
    using assms by (fastforce simp: has_log_def with_sessions_def split: prod.splits intro: prefix_order.order_trans)
qed

lemma query_log: "(\<And>d x d'. m d = (x, d') \<Longrightarrow> d' = d) \<Longrightarrow> keeps (has_log i es) (with_sessions m)"
  by (rule with_sessions_log) blast

lemma session_queries_log [keeps_intros]: "keeps (has_log i es) require_session_store"
  "keeps (has_log i es) (with_sessions (get_session_row j))" "keeps (has_log i es) (with_sessions (list_events j a n))"
  unfolding require_session_store_def
  by (rule query_log, simp add: return_ok_def) (rule query_log, erule session_queries_ok(1), rule query_log, erule session_queries_ok(2))

lemma events_of_append: "events_of i (d\<lparr>db_events := db_events d @ [e], db_sessions := ss\<rparr>) =
    events_of i d @ (if ev_session_id e = i then [e] else [])"
  by (simp add: events_of_def)

lemma find_session_update:
  assumes "find_session i d = Some r" and "\<And>x. row_id (f x) = row_id x"
  shows "\<exists>r'. find_session i (d\<lparr>db_events := es, db_sessions := update_where P f (db_sessions d)\<rparr>) = Some r'"
proof -
  have "map row_id (update_where P f (db_sessions d)) = map row_id (db_sessions d)"
    using assms(2) by (rule map_key_update_where)
  then have "row_id ` set (update_where P f (db_sessions d)) = row_id ` set (db_sessions d)" by (metis set_map)
  then have "find_session i (d\<lparr>db_events := es, db_sessions := update_where P f (db_sessions d)\<rparr>) \<noteq> None"
    using find_session_None[of i d] find_session_None[of i "d\<lparr>db_events := es, db_sessions := update_where P f (db_sessions d)\<rparr>"] assms(1) by simp
  then show ?thesis by blast
qed

lemma append_log [keeps_intros]: "keeps (has_log i es) (with_sessions (append_event e st))"
proof (rule with_sessions_log)
  fix d r x d' assume ok: "sessions_ok d" and r: "find_session i d = Some r" and x: "append_event e st d = (x, d')"
  show "sessions_ok d' \<and> (\<exists>r'. find_session i d' = Some r') \<and> prefix (events_of i d) (events_of i d')"
  proof (cases x)
    case (Inl err)
    then show ?thesis using append_event_Inl x ok r by blast
  next
    case (Inr v)
    obtain e' row where v: "v = (e', row)" by fastforce
    obtain q where d': "d' = d\<lparr>db_events := db_events d @ [e'], db_sessions := update_where (\<lambda>x. row_id x = row_id row)
      (\<lambda>x. x\<lparr>se_status := se_status row, se_updated_at := se_updated_at row, se_last_seq := se_last_seq row\<rparr>)
      (db_sessions d)\<rparr>"
      using append_event_Inr[of e st d e' row d'] x Inr v by metis
    show ?thesis using append_event_ok[OF ok x] find_session_update[OF r] unfolding d' events_of_append by simp
  qed
qed

lemma append_session_event_log [keeps_intros]: "keeps (has_log i es) (append_session_event now inp)"
  unfolding append_session_event_def by (intro keeps_intros)

lemma insert_log:
  "triple (has_log i es) (with_sessions (insert_session (new_session now j n st)))
     (\<lambda>_ s. has_log i es s \<and> j \<noteq> i) (\<lambda>_. has_log i es)"
proof (rule tripleI)
  fix s v t assume s: "has_log i es s" and t: "with_sessions (insert_session (new_session now j n st)) s = (Inr v, t)"
  obtain d r where d: "vo_db s = Some d" "sessions_ok d" "find_session i d = Some r" "prefix es (events_of i d)"
    using s by (auto simp: has_log_def)
  let ?row = "session_normalized (new_session now j n st)"
  have free: "find_session j d = None" and t': "vo_db t = Some (d\<lparr>db_sessions := db_sessions d @ [?row]\<rparr>)"
    using t d(1) by (auto simp: with_sessions_def insert_session_def session_normalized_def new_session_def Let_def split: if_splits)
  have ins: "insert_session (new_session now j n st) d = (Inr (), d\<lparr>db_sessions := db_sessions d @ [?row]\<rparr>)"
    using free by (simp add: insert_session_def session_normalized_def new_session_def Let_def)
  have "sessions_ok (d\<lparr>db_sessions := db_sessions d @ [?row]\<rparr>)"
    by (rule insert_session_ok[OF d(2) ins]) (simp add: new_session_def session_normalized_def)
  moreover have "find_session i (d\<lparr>db_sessions := db_sessions d @ [?row]\<rparr>) \<noteq> None"
    using find_session_Some[OF d(3)] by (auto simp: find_session_None)
  ultimately show "has_log i es t \<and> j \<noteq> i" using t' d free by (auto simp: has_log_def events_of_def)
next
  fix s e t assume "has_log i es s" and "with_sessions (insert_session (new_session now j n st)) s = (Inl e, t)"
  then show "has_log i es t"
    by (auto simp: has_log_def with_sessions_def insert_session_def Let_def split: if_splits)
qed

lemma delete_log: "j \<noteq> i \<Longrightarrow> keeps (has_log i es) (with_sessions (delete_session j))"
proof (rule with_sessions_log)
  fix d r x d' assume ji: "j \<noteq> i" and ok: "sessions_ok d" and r: "find_session i d = Some r" and x: "delete_session j d = (x, d')"
  have ev: "events_of i (d\<lparr>db_sessions := ss, db_events := filter (\<lambda>r. ev_session_id r \<noteq> j) (db_events d)\<rparr>) = events_of i d" for ss
  proof -
    have "filter (\<lambda>e. ev_session_id e \<noteq> j \<and> ev_session_id e = i) es = filter (\<lambda>e. ev_session_id e = i) es" for es
      using ji by (induction es) auto
    then show ?thesis by (simp add: events_of_def conj_commute)
  qed
  have "find_session i (d\<lparr>db_sessions := filter (\<lambda>r. row_id r \<noteq> j) (db_sessions d), db_events := es\<rparr>) \<noteq> None" for es
    using find_session_Some[OF r] ji by (auto simp: find_session_None image_iff intro!: bexI[of _ r])
  then show "sessions_ok d' \<and> (\<exists>r'. find_session i d' = Some r') \<and> prefix (events_of i d) (events_of i d')"
    using delete_session_ok[OF ok x] x ev r by (auto simp: delete_session_def split: if_splits)
qed

lemma attach_log: "j \<noteq> i \<Longrightarrow> keeps (has_log i es) (attach_session now k n j st)"
  unfolding attach_session_def rollback_session_def Let_def by (intro keeps_intros delete_log)

lemma create_session_log [keeps_intros]: "keeps (has_log i es) (create_session now cs)"
proof -
  have insert: "keeps (has_log i es) (seq (with_sessions (insert_session (new_session now j n st))) (\<lambda>_.
      seq (attach_session now k nd j vs) (\<lambda>_. return_ok se)))" for j n st k nd vs se
  proof (rule triple_seq[OF insert_log])
    show "triple (\<lambda>s. has_log i es s \<and> j \<noteq> i) (seq (attach_session now k nd j vs) (\<lambda>_. return_ok se)) (\<lambda>_. has_log i es) (\<lambda>_. has_log i es)"
    proof (cases "j = i")
      case False
      have "keeps (has_log i es) (seq (attach_session now k nd j vs) (\<lambda>_. return_ok se))"
        by (intro keeps_intros attach_log False)
      then show ?thesis by (rule triple_conseq) auto
    qed (simp add: triple_def)
  qed
  show ?thesis unfolding create_session_def Let_def by (intro keeps_intros insert)
qed

section \<open>A tick only appends\<close>

abbreviation appends_only :: "string \<Rightarrow> ('c server_world, 'e, 'a) op \<Rightarrow> bool" where
  "appends_only i m \<equiv> \<forall>es. keeps (\<lambda>w. has_log i es (world_vos w)) m"

definition worker_appends_only :: "string \<Rightarrow> 'c worker \<Rightarrow> bool" where
  "worker_appends_only i worker \<longleftrightarrow> (\<forall>es req. keeps (\<lambda>w. has_log i es (fst w)) (worker req))"

lemma direct_log:
  "keeps (has_log i es) (direct_ensure_priority_node tid now)" "keeps (has_log i es) (direct_ensure_session nid known now)"
  "keeps (has_log i es) (direct_append_authorized j p now)" "keeps (has_log i es) (direct_append_result j p now)"
  unfolding direct_ensure_priority_node_def list_nodes_by_filter_def read_state_def direct_ensure_session_def
    direct_append_authorized_def direct_append_result_def
  by (intro keeps_intros)+

lemma call_vos_log:
  assumes "\<And>now. keeps (has_log i es) (m now)"
  shows "keeps (\<lambda>w. has_log i es (fst w)) (call_vos clock m)"
  by (rule keepsI) (auto simp: call_vos_def split: prod.splits dest: keepsD[OF assms])

lemma direct_log_invariant:
  assumes "worker_appends_only i worker"
  shows "world_invariant (direct_gateways clock worker) (\<lambda>w. has_log i es (fst w))"
proof
  show "keeps (\<lambda>w. has_log i es (fst w)) (gw_execute (direct_gateways clock worker) req)" for req
    using assms by (simp add: direct_gateways_def worker_appends_only_def)
  show "has_log i es (fst w) \<Longrightarrow> gw_now (direct_gateways clock worker) w = (now, w') \<Longrightarrow> has_log i es (fst w')" for w now w'
    by (auto simp: direct_gateways_def split: prod.splits)
qed (auto simp: direct_gateways_def intro: call_vos_log direct_log)

lemma tick_schedule_appends:
  assumes "worker_appends_only i worker"
  shows "appends_only i (tick_schedule (direct_gateways clock worker) cfg)"
proof (intro allI keepsI)
  fix es and w :: "'a server_world" and r w'
  assume "has_log i es (world_vos w)" and run: "tick_schedule (direct_gateways clock worker) cfg w = (r, w')"
  moreover obtain res err where "tick (direct_gateways clock worker) cfg 1 w = (res, err, w')"
    using run by (auto simp: tick_schedule_def split: prod.splits)
  ultimately show "has_log i es (world_vos w')"
    using world_invariant.tick_world[OF direct_log_invariant[OF assms], of es w] by blast
qed

section \<open>What a poll reads\<close>

lemma note_event_frame [simp]: "tu_session_id (note_event e t) = tu_session_id t" "tu_last_seq (note_event e t) = ev_seq e"
  by (simp_all add: note_event_def note_session_item_def add_tool_start_def add_tool_result_def append_trace_def
    note_assistant_message_def Let_def split: option.split)

lemma fold_note_frame:
  "tu_session_id (fold note_event es t) = tu_session_id t"
  "tu_last_seq (fold note_event es t) = (if es = [] then tu_last_seq t else ev_seq (last es))"
  by (induction es arbitrary: t) auto

lemma finish_turn_frame [simp]: "tu_session_id (finish_turn t) = tu_session_id t"
  by (simp add: finish_turn_def)

text \<open>The turn after the first \<open>n\<close> events of the session.\<close>

abbreviation turn_after :: "session_event list \<Rightarrow> string \<Rightarrow> chat_turn" where
  "turn_after es i \<equiv> fold note_event es (new_turn i)"

lemma log_seqs:
  assumes "sessions_ok d" and "find_session i d = Some r"
  shows "map ev_seq (events_of i d) = [1..int (length (events_of i d))]"
proof -
  have "session_row_ok d r" "row_id r = i" using assms find_session_Some[OF assms(2)] by (auto simp: sessions_ok_def)
  then have seqs: "map ev_seq (events_of i d) = [1..se_last_seq r]" "0 \<le> se_last_seq r" by (auto simp: session_row_ok_def)
  moreover from this(1) have "length (events_of i d) = nat (se_last_seq r)" by (metis length_map length_upto diff_add_cancel)
  ultimately show ?thesis by simp
qed

lemma events_after_prefix:
  assumes ok: "sessions_ok d" and r: "find_session i d = Some r" and es: "prefix es (events_of i d)"
  shows "events_after d i (int (length es)) = drop (length es) (events_of i d)"
    and "es \<noteq> [] \<Longrightarrow> ev_seq (last es) = int (length es)"
proof -
  obtain zs where zs: "events_of i d = es @ zs" using es by (auto simp: prefix_def)
  have seqs: "map ev_seq es @ map ev_seq zs = [1..int (length es + length zs)]" using log_seqs[OF ok r] zs by simp
  also have "\<dots> = [1..int (length es)] @ [int (length es) + 1..int (length es + length zs)]"
    by (cases "es = []") (auto intro!: upto_split2 simp: Suc_le_eq)
  finally have parts: "map ev_seq es = [1..int (length es)]" "map ev_seq zs = [int (length es) + 1..int (length es + length zs)]"
    by auto
  have "\<forall>e\<in>set es. ev_seq e \<le> int (length es)"
  proof
    fix e assume "e \<in> set es"
    then have "ev_seq e \<in> set (map ev_seq es)" by simp
    then show "ev_seq e \<le> int (length es)" unfolding parts by simp
  qed
  moreover have "\<forall>e\<in>set zs. ev_seq e > int (length es)"
  proof
    fix e assume "e \<in> set zs"
    then have "ev_seq e \<in> set (map ev_seq zs)" by simp
    then show "ev_seq e > int (length es)" unfolding parts by simp
  qed
  ultimately show "events_after d i (int (length es)) = drop (length es) (events_of i d)"
    unfolding events_after_def zs by (auto simp: filter_empty_conv intro!: filter_True)
  show "ev_seq (last es) = int (length es)" if "es \<noteq> []"
  proof -
    have "ev_seq (last es) = last (map ev_seq es)" using that by (simp add: last_map)
    also have "\<dots> = int (length es)"
    proof -
      have "1 \<le> int (length es)" using that by (cases es) simp_all
      then show ?thesis unfolding parts by (simp only: upto_rec2 last_snoc)
    qed
    finally show ?thesis .
  qed
qed

lemma turn_after_seq:
  assumes "has_log i es s"
  shows "tu_last_seq (turn_after es i) = int (length es)"
proof -
  obtain d r where "sessions_ok d" "find_session i d = Some r" "prefix es (events_of i d)" using assms by (auto simp: has_log_def)
  then show ?thesis using events_after_prefix(2) by (simp add: fold_note_frame new_turn_def)
qed

lemma list_page:
  assumes log: "has_log i es s" and i: "i \<noteq> ''''"
  shows "list_session_events i (int (length es)) chat_poll_limit s =
    (Inr (take 200 (drop (length es) (session_log i s))), s)"
proof -
  obtain d r where d: "vo_db s = Some d" "sessions_ok d" "find_session i d = Some r" "prefix es (events_of i d)"
    using log by (auto simp: has_log_def)
  have "fst (list_events i (int (length es)) 200 d) = Inr (take 200 (drop (length es) (events_of i d)))"
    using events_page_ok[OF d(2,3), of "int (length es)"] events_after_prefix(1)[OF d(2-4)]
    by (simp add: events_page_def context_events_page_size_def)
  moreover have "snd (list_events i (int (length es)) 200 d) = d" using session_queries_ok(2) by (metis prod.collapse)
  ultimately have "list_events i (int (length es)) 200 d = (Inr (take 200 (drop (length es) (events_of i d))), d)" by (metis prod.collapse)
  then show ?thesis using d(1) i
    by (simp add: list_session_events_def seq_def require_session_store_def with_sessions_def return_ok_def chat_poll_limit_def
      session_log_def)
qed

lemma get_status:
  assumes log: "has_log i es s" and i: "i \<noteq> ''''"
  shows "\<exists>r. get_session i s = (Inr r, s) \<and> status_in i s = Some (se_status r)"
proof -
  obtain d r where d: "vo_db s = Some d" "find_session i d = Some r" using log by (auto simp: has_log_def)
  then show ?thesis using i
    by (auto simp: get_session_def get_session_row_def session_row_def seq_def require_session_store_def with_sessions_def
      return_ok_def status_in_def session_normalized_def)
qed


lemma on_vos_ok: "m (world_vos w) = (Inr v, world_vos w) \<Longrightarrow> on_vos m w = (Inr v, w)"
  by (cases w) (auto simp: on_vos_def)

lemma poll_turn_result:
  assumes log: "has_log i es (world_vos w)" and i: "i \<noteq> ''''"
    and others: "world_vos (en_between env k w) = world_vos w"
  defines "es' \<equiv> take (length es + 200) (session_log i (world_vos w))"
  shows "poll_turn env k (turn_after es i) w =
    (if status_in i (world_vos w) = Some SessionStatusCompleted then Inr (True, finish_turn (turn_after es' i))
     else if status_in i (world_vos w) = Some SessionStatusFailed then Inl (ServiceFailed (vos_error.ValidationError ''chat session failed''))
     else Inr (False, turn_after es' i), en_between env k w)"
proof -
  let ?log = "session_log i (world_vos w)"
  let ?w = "en_between env k w"
  have "prefix es ?log" using has_log_prefix[OF log] .
  then have whole: "es @ take 200 (drop (length es) ?log) = es'"
    by (auto simp: es'_def prefix_def)
  have page: "on_vos (list_session_events i (int (length es)) chat_poll_limit) w = (Inr (take 200 (drop (length es) ?log)), w)"
    by (rule on_vos_ok) (rule list_page[OF log i])
  obtain r where r: "get_session i (world_vos ?w) = (Inr r, world_vos ?w)" "status_in i (world_vos w) = Some (se_status r)"
    using get_status[OF log i] others by metis
  have se: "on_vos (get_session i) ?w = (Inr r, ?w)" by (rule on_vos_ok) (rule r(1))
  have id: "tu_session_id (turn_after es i) = i" by (simp add: fold_note_frame new_turn_def)
  have "fold note_event (take 200 (drop (length es) ?log)) (turn_after es i) = turn_after es' i"
    unfolding whole[symmetric] by simp
  then show ?thesis using r(2)
    by (simp add: poll_turn_def seq_def id turn_after_seq[OF log] page se return_ok_def return_err_def Let_def)
qed

section \<open>The loop\<close>

abbreviation ticks_append_only :: "string \<Rightarrow> ('c, unit) chat_op option \<Rightarrow> bool" where
  "ticks_append_only i ticks \<equiv> (\<forall>m. ticks = Some m \<longrightarrow> appends_only i m)"

definition quiet :: "'c chat_env \<Rightarrow> bool" where
  "quiet env \<longleftrightarrow> (\<forall>k w. fst (snd (en_between env k w)) = fst (snd w))"

lemma chat_round_result:
  assumes log: "has_log i es (world_vos w)" and i: "i \<noteq> ''''" and env: "quiet env" "\<forall>k. appends_only i (en_wait env k)"
    and ticks: "ticks_append_only i ticks" and run: "chat_round ticks env k (turn_after es i) w = (Inr (over, t), w')"
  obtains es' where "prefix es es'" and "has_log i es' (world_vos w')" and "\<not> over \<Longrightarrow> t = turn_after es' i"
    and "over \<Longrightarrow> t = finish_turn (turn_after es' i) \<and> status_in i (world_vos w') = Some SessionStatusCompleted \<and>
      (es' = session_log i (world_vos w') \<or> 200 \<le> length es')"
proof -
  obtain w1 where w1: "(case ticks of None \<Rightarrow> return_ok () | Some m \<Rightarrow> m) w = (Inr (), w1)"
    and rest: "seq (poll_turn env k (turn_after es i)) (\<lambda>(over, t'). if over then return_ok (True, t')
        else seq (en_wait env k) (\<lambda>_. return_ok (False, t'))) w1 = (Inr (over, t), w')"
    using run unfolding chat_round_def by (auto elim!: seq_cases)
  have log1: "has_log i es (world_vos w1)"
  proof (cases ticks)
    case None
    then show ?thesis using w1 log by (simp add: return_ok_def)
  next
    case (Some m)
    then have "keeps (\<lambda>w. has_log i es (world_vos w)) m" using ticks by blast
    then show ?thesis using w1 log Some by (auto dest: keepsD)
  qed
  define E where "E = session_log i (world_vos w1)"
  define es' where "es' = take (length es + 200) E"
  define w2 where "w2 = en_between env k w1"
  have others: "world_vos w2 = world_vos w1" using env(1) unfolding w2_def quiet_def by blast
  note poll = poll_turn_result[OF log1 i others[unfolded w2_def], folded E_def, folded es'_def w2_def]
  have pre: "prefix es es'"
    using has_log_prefix[OF log1] unfolding es'_def E_def by (auto simp: prefix_def)
  have log2: "has_log i es' (world_vos w2)"
    using has_log_weaken[OF has_log_self[OF log1]] unfolding others es'_def E_def by (simp add: take_is_prefix)
  show thesis
  proof (cases "status_in i (world_vos w1) = Some SessionStatusCompleted")
    case True
    then have "w' = w2" "over" "t = finish_turn (turn_after es' i)"
      using rest poll by (auto simp: return_ok_def)
    moreover have "es' = E \<or> 200 \<le> length es'" unfolding es'_def by auto
    ultimately show thesis using that[of es'] pre log2 True others by (simp add: E_def)
  next
    case False
    then have "seq (en_wait env k) (\<lambda>_. return_ok (False, turn_after es' i)) w2 = (Inr (over, t), w')"
      using rest poll by (auto split: if_splits)
    then obtain v where v: "en_wait env k w2 = (Inr v, w')" and "\<not> over" "t = turn_after es' i"
      by (auto simp: return_ok_def elim!: seq_cases)
    moreover have "keeps (\<lambda>w. has_log i es' (world_vos w)) (en_wait env k)" using env(2) by blast
    then have "has_log i es' (world_vos w')" using log2 v by (rule keepsD)
    ultimately show thesis using that[of es'] pre by blast
  qed
qed

text \<open>What holds of a turn that returns.\<close>

definition turn_read :: "string \<Rightarrow> chat_turn \<Rightarrow> 'c server_world \<Rightarrow> bool" where
  "turn_read i t w \<longleftrightarrow> status_in i (world_vos w) = Some SessionStatusCompleted \<and>
     (\<exists>es. has_log i es (world_vos w) \<and> t = finish_turn (turn_after es i) \<and>
       (es = session_log i (world_vos w) \<or> 200 \<le> length es))"

definition only_appended :: "string \<Rightarrow> ('c, unit) chat_op option \<Rightarrow> 'c chat_env \<Rightarrow> bool" where
  "only_appended i ticks env \<longleftrightarrow> quiet env \<and> (\<forall>k. appends_only i (en_wait env k)) \<and> ticks_append_only i ticks"

lemma wait_chat_turn_result:
  assumes "wait_chat_turn ticks env k t0 w = Some out"
  shows "i \<noteq> '''' \<longrightarrow> only_appended i ticks env \<longrightarrow> has_log i es (world_vos w) \<longrightarrow> t0 = turn_after es i \<longrightarrow>
    out = (Inr t, w') \<longrightarrow> turn_read i t w'"
  using assms
proof (induction arbitrary: es rule: wait_chat_turn.raw_induct[rotated, consumes 1, case_names round])
  case (round wait ticks env k t0 w out)
  show ?case
  proof (intro impI)
    assume i: "i \<noteq> ''''" and env: "only_appended i ticks env" and log: "has_log i es (world_vos w)"
      and t0: "t0 = turn_after es i" and out: "out = (Inr t, w')"
    have env': "quiet env" "\<forall>k. appends_only i (en_wait env k)" "ticks_append_only i ticks"
      using env by (simp_all add: only_appended_def)
    obtain over t1 w1 where run: "chat_round ticks env k t0 w = (Inr (over, t1), w1)"
      and next_round: "if over then (Inr t1, w1) = out else wait ticks env (k + 1) t1 w1 = Some out"
      using round(2) out by (auto split: prod.splits sum.splits if_splits)
    obtain es' where es': "has_log i es' (world_vos w1)" "\<not> over \<Longrightarrow> t1 = turn_after es' i"
      "over \<Longrightarrow> t1 = finish_turn (turn_after es' i) \<and> status_in i (world_vos w1) = Some SessionStatusCompleted \<and>
        (es' = session_log i (world_vos w1) \<or> 200 \<le> length es')"
      using chat_round_result[OF log i env'(1,2,3) run[unfolded t0]] by metis
    show "turn_read i t w'"
    proof (cases over)
      case True
      then show ?thesis using next_round out es' unfolding turn_read_def by auto
    next
      case False
      then have "wait ticks env (k + 1) t1 w1 = Some out" using next_round by simp
      from round(1)[OF this, of es'] show ?thesis using False i env es' out by blast
    qed
  qed
qed

lemma on_vos_world: "on_vos m w = (r, w') \<Longrightarrow> \<exists>q. m (world_vos w) = (q, world_vos w')"
  by (cases w) (auto simp: on_vos_def split: prod.splits)

lemma on_vos_log: "keeps (has_log i es) m \<Longrightarrow> keeps (\<lambda>w. has_log i es (world_vos w)) (on_vos m)"
  by (rule keepsI) (metis on_vos_world keepsD)

lemma query_ops_log [keeps_intros]: "keeps (has_log i es) (get_session j)" "keeps (has_log i es) (list_session_events j a n)"
  unfolding get_session_def list_session_events_def by (intro keeps_intros)+

lemma chat_round_log:
  assumes only: "only_appended i ticks env"
  shows "keeps (\<lambda>w. has_log i es (world_vos w)) (chat_round ticks env k t)"
proof -
  let ?J = "\<lambda>w. has_log i es (world_vos w)"
  have between: "keeps ?J (\<lambda>w. (Inr (), en_between env k w))"
    by (rule keepsI) (use only in \<open>auto simp: only_appended_def quiet_def\<close>)
  have wait: "keeps ?J (en_wait env k)" using only by (simp add: only_appended_def)
  have tick: "keeps ?J (case ticks of None \<Rightarrow> return_ok () | Some m \<Rightarrow> m)"
    using only by (cases ticks) (auto simp: only_appended_def intro: keeps_intros)
  show ?thesis unfolding chat_round_def poll_turn_def Let_def
    by (intro keeps_seq keeps_case_prod keeps_if keeps_return_ok keeps_return_err on_vos_log query_ops_log between wait tick)
qed

lemma wait_chat_turn_log:
  assumes "wait_chat_turn ticks env k t w = Some out"
  shows "only_appended i ticks env \<longrightarrow> has_log i es (world_vos w) \<longrightarrow> has_log i es (world_vos (snd out))"
  using assms
proof (induction rule: wait_chat_turn.raw_induct[rotated, consumes 1, case_names round])
  case (round wait ticks env k t w out)
  show ?case
  proof (intro impI)
    assume env: "only_appended i ticks env" and log: "has_log i es (world_vos w)"
    obtain r w1 where run: "chat_round ticks env k t w = (r, w1)" by (rule prod.exhaust)
    have log1: "has_log i es (world_vos w1)" using keepsD[OF chat_round_log[OF env] log run] .
    have "(\<exists>r'. out = (r', w1)) \<or> (\<exists>t1. wait ticks env (k + 1) t1 w1 = Some out)"
      using round(2) run by (auto split: sum.splits if_splits)
    then show "has_log i es (world_vos (snd out))"
    proof
      assume "\<exists>t1. wait ticks env (k + 1) t1 w1 = Some out"
      then obtain t1 where "wait ticks env (k + 1) t1 w1 = Some out" by blast
      from round(1)[OF this] show ?thesis using env log1 by blast
    qed (use log1 in auto)
  qed
qed

section \<open>The session of a turn\<close>

lemma vo_db_frame_seq: "keeps (\<lambda>s. vo_db s = x) m \<Longrightarrow> m s = (r, t) \<Longrightarrow> vo_db s = x \<Longrightarrow> vo_db t = x"
  by (blast dest: keepsD)

lemma save_state_db: "save_state st s = (r, t) \<Longrightarrow> vo_db t = vo_db s"
  by (auto simp: save_state_def disk_def split: list.splits option.splits elim!: seq_cases dest!: normalize_result)

lemma attach_session_db:
  assumes "attach_session now k n i st s = (Inr u, t)"
  shows "vo_db t = vo_db s"
proof -
  have no: "rollback_session i msg e s' \<noteq> (Inr u, t)" for msg e s'
    by (auto simp: rollback_session_def attempt_def return_err_def split: prod.splits sum.splits)
  show ?thesis using assms no
    by (auto simp: attach_session_def attempt_def return_ok_def Let_def split: sum.splits prod.splits dest!: save_state_db)
qed

lemma find_last: "List.find p xs = None \<Longrightarrow> List.find p (xs @ [x]) = (if p x then Some x else None)"
  by (induction xs) (auto split: if_splits)

lemma create_session_new:
  assumes ok: "db_ok s" and new: "create_session now cs s = (Inr se, t)"
  shows "has_log (row_id se) [] t \<and> session_log (row_id se) t = []"
proof -
  obtain j st s1 s2 n k vs where se: "se = new_session now j (cs_node_id cs) st"
    and ins: "with_sessions (insert_session se) s1 = (Inr (), s2)" and att: "attach_session now k n j vs s2 = (Inr (), t)"
    using new unfolding create_session_def Let_def
    by (auto simp: return_ok_def return_err_def elim!: seq_cases split: if_splits)
  have "vo_db t = vo_db s2" using attach_session_db[OF att] .
  have "db_ok t" using keepsD[OF session_ops_keep_db(1) ok new] .
  obtain d where d: "vo_db s1 = Some d" "find_session j d = None" "vo_db s2 = Some (d\<lparr>db_sessions := db_sessions d @ [session_normalized se]\<rparr>)"
    using ins by (auto simp: with_sessions_def insert_session_def se new_session_def session_normalized_def Let_def split: option.splits if_splits)
  have ok2: "sessions_ok (d\<lparr>db_sessions := db_sessions d @ [session_normalized se]\<rparr>)"
    using \<open>db_ok t\<close> \<open>vo_db t = vo_db s2\<close> d(3) by (simp add: db_ok_def)
  have found: "find_session j (d\<lparr>db_sessions := db_sessions d @ [session_normalized se]\<rparr>) = Some (session_normalized se)"
    using d(2) by (simp add: find_session_def find_last se new_session_def session_normalized_def)
  have "session_row_ok (d\<lparr>db_sessions := db_sessions d @ [session_normalized se]\<rparr>) (session_normalized se)"
    using ok2 by (simp add: sessions_ok_def)
  then have "events_of j (d\<lparr>db_sessions := db_sessions d @ [session_normalized se]\<rparr>) = []"
    by (simp add: session_row_ok_def se new_session_def session_normalized_def)
  moreover have "row_id se = j" by (simp add: se new_session_def session_normalized_def)
  ultimately show ?thesis using \<open>vo_db t = vo_db s2\<close> d(3) ok2 found by (simp add: has_log_def session_log_def)
qed

lemma parse_role_text [simp]: "parse_session_role (session_role_text r) = Inr r"
  by (cases r) (simp_all add: parse_session_role_def)

lemma append_message_Inr:
  assumes "append_session_event now (message_event i role payload text) s = (Inr e, t)" and "vo_db s = Some d"
  shows "\<exists>st row d'. parse_session_status text = Inr st \<and> vo_db t = Some d' \<and>
    append_event (new_event now (vo_ids s (vo_drawn s)) (Some role) (message_event i role payload text)) (Some st) d = (Inr (e, row), d')"
  using assms
  by (cases "parse_session_status text")
    (auto simp: append_session_event_def message_event_def parse_optional_def parse_session_item_type_def is_tool_session_item_type_def
      require_session_store_def with_sessions_def return_ok_def return_err_def of_result_def draw_id_def seq_def
      split: if_splits option.splits sum.splits prod.splits)

lemma find_updated:
  "List.find (\<lambda>x. row_id x = i) rows = Some q \<Longrightarrow> (\<And>x. row_id (f x) = row_id x) \<Longrightarrow>
   List.find (\<lambda>x. row_id x = i) (update_where (\<lambda>x. row_id x = i) f rows) = Some (f q)"
  by (induction rows) (auto split: if_splits)

lemma append_message_log:
  assumes log: "has_log i es s" and app: "append_session_event now (message_event i role payload text) s = (Inr e, t)"
  shows "session_log i t = session_log i s @ [e]" and "ev_item_type e = ''message''" and "ev_role e = Some role"
    and "ev_payload_json e = (''role'', JStr (session_role_text role)) # payload" and "i \<noteq> ''''"
    and "\<exists>st. parse_session_status text = Inr st \<and> status_in i t = Some st"
proof -
  obtain d where d: "vo_db s = Some d" using log by (auto simp: has_log_def)
  obtain k st row d' where st: "parse_session_status text = Inr st" and t: "vo_db t = Some d'"
    and ev: "append_event (new_event now k (Some role) (message_event i role payload text)) (Some st) d = (Inr (e, row), d')"
    using append_message_Inr[OF app d] by blast
  obtain q where q: "find_session i d = Some q" and e: "e = (new_event now k (Some role) (message_event i role payload text))\<lparr>ev_seq := se_last_seq q + 1\<rparr>"
    and row: "row = appended_row e (Some st) q"
    and d': "d' = d\<lparr>db_events := db_events d @ [e], db_sessions := update_where (\<lambda>x. row_id x = row_id row)
      (\<lambda>x. x\<lparr>se_status := se_status row, se_updated_at := se_updated_at row, se_last_seq := se_last_seq row\<rparr>) (db_sessions d)\<rparr>"
    using append_event_Inr[OF ev] by (auto simp: new_event_def message_event_def)
  have sid: "ev_session_id e = i" by (simp add: e new_event_def message_event_def)
  show "session_log i t = session_log i s @ [e]" using t d sid by (simp add: session_log_def d' events_of_append)
  show "ev_item_type e = ''message''" "ev_role e = Some role"
    "ev_payload_json e = (''role'', JStr (session_role_text role)) # payload"
    by (simp_all add: e new_event_def message_event_def)
  show "i \<noteq> ''''" using app by (auto simp: append_session_event_def message_event_def return_err_def elim!: seq_cases)
  have rid: "row_id row = i" using find_session_Some[OF q] by (simp add: row appended_row_def)
  have "find_session i d' = Some (q\<lparr>se_status := st, se_updated_at := se_updated_at row, se_last_seq := se_last_seq row\<rparr>)"
    using find_updated[OF q[unfolded find_session_def]] by (simp add: d' find_session_def rid) (simp add: row appended_row_def)
  then show "\<exists>st. parse_session_status text = Inr st \<and> status_in i t = Some st" using st t by (simp add: status_in_def)
qed

lemma on_vos_Inr: "on_vos m w = (Inr v, w') \<Longrightarrow> m (world_vos w) = (Inr v, world_vos w')"
  by (cases w) (auto simp: on_vos_def split: prod.splits sum.splits)

lemma on_vos_now_Inr: "on_vos_now clock m w = (Inr v, w') \<Longrightarrow> \<exists>now. m now (world_vos w) = (Inr v, world_vos w')"
  by (cases w) (force simp: on_vos_now_def split: prod.splits dest: on_vos_Inr)

lemma resolve_chat_node_db: "keeps db_ok (resolve_chat_node now q)"
  unfolding resolve_chat_node_def vos_get_node_def vos_get_topic_def read_state_def by (intro keeps_intros)

definition is_user_message :: "v1_chat_request \<Rightarrow> session_event \<Rightarrow> bool" where
  "is_user_message q e \<longleftrightarrow> ev_item_type e = ''message'' \<and> ev_role e = Some SessionRoleUser \<and>
     ev_payload_json e = [(''role'', JStr ''user''), (''content'', JStr (trim_space (cq_message q)))]"

text \<open>A turn that is prepared has a session of its own, with the message of the user and nothing else.\<close>

definition turn_prepared :: "v1_chat_request \<Rightarrow> string \<Rightarrow> vos \<Rightarrow> bool" where
  "turn_prepared q i s \<longleftrightarrow> i \<noteq> '''' \<and> (\<exists>e. is_user_message q e \<and> has_log i [e] s)"

lemma prepare_chat_session_Inr:
  assumes ok: "db_ok (world_vos w)" and res: "prepare_chat_session clock q w = (Inr (n, i), w')"
  shows "turn_prepared q i (world_vos w')"
proof -
  obtain nd w1 se w2 e where step1: "on_vos_now clock (\<lambda>now. resolve_chat_node now q) w = (Inr nd, w1)"
    and step2: "on_vos_now clock (\<lambda>now. create_session now \<lparr>cs_node_id = nd_id nd, cs_session_id = '''', cs_status = ''active''\<rparr>) w1 = (Inr se, w2)"
    and step3: "on_vos_now clock (\<lambda>now. append_session_event now (message_event (row_id se) SessionRoleUser
          [(''content'', JStr (trim_space (cq_message q)))] ''active'')) w2 = (Inr e, w')" and i: "i = row_id se"
    using res unfolding prepare_chat_session_def by (auto simp: return_ok_def return_err_def elim!: seq_cases split: if_splits)
  obtain now1 where "resolve_chat_node now1 q (world_vos w) = (Inr nd, world_vos w1)" using on_vos_now_Inr[OF step1] by blast
  then have "db_ok (world_vos w1)" using keepsD[OF resolve_chat_node_db ok] by blast
  obtain now2 where new: "create_session now2 \<lparr>cs_node_id = nd_id nd, cs_session_id = '''', cs_status = ''active''\<rparr> (world_vos w1) = (Inr se, world_vos w2)"
    using on_vos_now_Inr[OF step2] by blast
  obtain now3 where app: "append_session_event now3 (message_event (row_id se) SessionRoleUser
          [(''content'', JStr (trim_space (cq_message q)))] ''active'') (world_vos w2) = (Inr e, world_vos w')"
    using on_vos_now_Inr[OF step3] by blast
  note log = create_session_new[OF \<open>db_ok (world_vos w1)\<close> new]
  have "has_log i [] (world_vos w')" using keepsD[OF append_session_event_log _ app] log i by blast
  moreover have "session_log i (world_vos w') = [e]" using append_message_log(1)[OF _ app] log i by (metis append_Nil)
  moreover have "is_user_message q e \<and> i \<noteq> ''''"
    using append_message_log(2-5)[OF _ app] log i by (auto simp: is_user_message_def)
  ultimately show ?thesis unfolding turn_prepared_def using has_log_self by metis
qed


lemma enqueue_appends: "appends_only i (enqueue_chat_node (direct_gateways clock worker) f n j)"
proof
  fix es
  have clock: "keeps (\<lambda>w. has_log i es (world_vos w)) (with_clock (direct_gateways clock worker) h)"
    for h :: "time \<Rightarrow> (runtime_store, sched_error, bool) op"
    by (rule keepsI) (auto simp: with_clock_def direct_gateways_def split: prod.splits)
  have read: "keeps (\<lambda>w. has_log i es (world_vos w)) (store_read h)"
    for h :: "runtime_store \<Rightarrow> sched_error + topic_control_state"
    by (rule keepsI) (simp add: store_read_def)
  show "keeps (\<lambda>w. has_log i es (world_vos w)) (enqueue_chat_node (direct_gateways clock worker) f n j)"
    unfolding enqueue_chat_node_def enqueue_def by (intro keeps_intros clock read)
qed

lemma prepare_chat_turn_Inr:
  assumes ok: "db_ok (world_vos w)" and queue: "\<And>i n j. appends_only i (queue n j)"
    and res: "prepare_chat_turn clock queue err_text q w = (Inr (n, i), w')"
  shows "turn_prepared q i (world_vos w')"
proof -
  obtain n' i' w1 nd w2 where prep: "prepare_chat_session clock q w = (Inr (n', i'), w1)"
    and get: "on_vos (vos_get_node n') w1 = (Inr nd, w2)"
    and rest: "attempt (queue nd i') (\<lambda>r. case r of
       Inl e \<Rightarrow> seq (ignore_result (on_vos_now clock (\<lambda>now. append_session_event now (enqueue_failed_event i' (err_text e))))) (\<lambda>_.
         return_err e)
     | Inr _ \<Rightarrow> return_ok (n', i')) w2 = (Inr (n, i), w')"
    using res unfolding prepare_chat_turn_def by (auto elim!: seq_cases)
  then obtain u where u: "queue nd i w2 = (Inr u, w')" and i': "i' = i"
    by (auto simp: attempt_def return_ok_def return_err_def seq_def ignore_result_def split: prod.splits sum.splits)
  obtain e where i: "i \<noteq> ''''" and e: "is_user_message q e" "has_log i [e] (world_vos w1)"
    using prepare_chat_session_Inr[OF ok prep] i' by (auto simp: turn_prepared_def)
  have "keeps (has_log i es) (vos_get_node n')" for es
    unfolding vos_get_node_def read_state_def by (intro keeps_intros)
  then have "has_log i [e] (world_vos w2)" using on_vos_Inr[OF get] e(2) by (blast dest: keepsD)
  moreover have "keeps (\<lambda>w. has_log i [e] (world_vos w)) (queue nd i)" using queue by blast
  ultimately have "has_log i [e] (world_vos w')" using u by (blast dest: keepsD)
  then show ?thesis using i e(1) unfolding turn_prepared_def by blast
qed

end
