(* ===== verification/VosTurns.thy ===== *)
theory VosTurns
  imports VosChatProps
begin

text \<open>
  The claims on chat turns: the answer of a turn is what its session says, when a turn ends, and what a turn that ends does
  not read.
\<close>

section \<open>The answer of a turn\<close>

text \<open>
  C14. A turn that is answered has a session of its own in the database, whose first event is the message of the user and which
  is completed; if the session holds at most 200 events, the answer is the one all of them give, the last assistant message or
  else the text streamed. The scheduler ticks in between, with any worker, and others may work on VOS while the request waits,
  as long as they only append to sessions and do nothing between the two reads of one poll.
\<close>

theorem chat_answer_from_session:
  assumes "db_ok (world_vos w)" and "\<And>i. worker_appends_only i worker" and "quiet env" and "\<And>i k. appends_only i (en_wait env k)"
    and "handle_v1_chat clock (enqueue_chat_node (direct_gateways clock worker) f) err_text
      (Some (tick_schedule (direct_gateways clock worker) cfg)) env q w = Some (ChatReply a, w')"
  shows "\<exists>i e rest. session_log i (world_vos w') = e # rest \<and> is_user_message q e \<and>
    status_in i (world_vos w') = Some SessionStatusCompleted \<and>
    (length rest < 200 \<longrightarrow> ChatReply a = answer_of (vr_node_id a) (finish_turn (turn_after (e # rest) i)))"
proof -
  let ?g = "direct_gateways clock worker"
  obtain n i w1 t where prep: "prepare_chat_turn clock (enqueue_chat_node ?g f) err_text q w = (Inr (n, i), w1)"
    and wait: "wait_chat_turn (Some (tick_schedule ?g cfg)) env 0 (new_turn i) w1 = Some (Inr t, w')"
    and a: "answer_of n t = ChatReply a"
    using assms(5) by (auto simp: handle_v1_chat_def split: prod.splits sum.splits option.splits)
  obtain e where i: "i \<noteq> ''''" and e: "is_user_message q e" "has_log i [e] (world_vos w1)"
    using prepare_chat_turn_Inr[OF assms(1) enqueue_appends prep] by (auto simp: turn_prepared_def)
  have only: "only_appended i (Some (tick_schedule ?g cfg)) env"
    using assms(3,4) tick_schedule_appends[OF assms(2)] by (simp add: only_appended_def)
  have "turn_read i t w'"
    using wait_chat_turn_result[OF wait, of i "[]" t w'] i only has_log_weaken[OF e(2)] by simp
  then obtain es where fin: "status_in i (world_vos w') = Some SessionStatusCompleted"
    and es: "has_log i es (world_vos w')" "t = finish_turn (turn_after es i)" "es = session_log i (world_vos w') \<or> 200 \<le> length es"
    unfolding turn_read_def by blast
  obtain rest where log: "session_log i (world_vos w') = e # rest"
    using wait_chat_turn_log[OF wait, of i "[e]"] only e(2) has_log_prefix[of i "[e]" "world_vos w'"] by (auto simp: prefix_def)
  have "length rest < 200 \<longrightarrow> es = e # rest"
  proof
    assume "length rest < 200"
    then have "length (session_log i (world_vos w')) \<le> 200" using log by simp
    moreover have "prefix es (session_log i (world_vos w'))" using has_log_prefix[OF es(1)] .
    ultimately obtain zs where "session_log i (world_vos w') = es @ zs" "length es + length zs \<le> 200" by (auto simp: prefix_def)
    then have "es = session_log i (world_vos w')" using es(3) by (cases zs) auto
    then show "es = e # rest" using log by simp
  qed
  moreover have "vr_node_id a = n" using a by (auto simp: answer_of_def split: if_splits)
  ultimately have "length rest < 200 \<longrightarrow> ChatReply a = answer_of (vr_node_id a) (finish_turn (turn_after (e # rest) i))"
    using a es(2) by metis
  then show ?thesis using log e(1) fin by blast
qed

text \<open>A small machine: a worker that answers by completing its session, and a request about a new topic.\<close>

definition chat_worker :: "string \<Rightarrow> nat worker" where
  "chat_worker reply req w = (case append_session_event 70 (message_event (wr_session_id req) SessionRoleAssistant
     [(''content'', JStr reply)] ''completed'') (fst w) of (_, s) \<Rightarrow> (Inr sample_response, (s, snd w)))"

lemma chat_worker_appends: "worker_appends_only i (chat_worker reply)"
  unfolding worker_appends_only_def
proof (intro allI keepsI)
  fix es req and w :: "nat machine" and r w'
  assume log: "has_log i es (fst w)" and run: "chat_worker reply req w = (r, w')"
  obtain q s where q: "append_session_event 70 (message_event (wr_session_id req) SessionRoleAssistant
     [(''content'', JStr reply)] ''completed'') (fst w) = (q, s)" by (rule prod.exhaust)
  have "has_log i es s" using append_session_event_log log q by (rule keepsD)
  then show "has_log i es (fst w')" using run q by (auto simp: chat_worker_def)
qed

definition chat_gateways :: "nat machine gateways" where
  "chat_gateways = direct_gateways ticking (chat_worker ''answer'')"

definition sample_files :: server_files where
  "sample_files = \<lparr>sf_workspace = ''w'', sf_session_db = ''d'', sf_model_config = ''m'', sf_state_file = ''f''\<rparr>"

definition chat_request_demo :: v1_chat_request where
  "chat_request_demo = \<lparr>cq_node_id = None, cq_topic_id = None, cq_message = '' question ''\<rparr>"

definition calm :: "nat chat_env" where
  "calm = \<lparr>en_between = (\<lambda>k w. w), en_wait = (\<lambda>k. return_ok ())\<rparr>"

lemma calm_ok: "quiet calm" "appends_only i (en_wait calm k)"
  by (simp_all add: quiet_def calm_def triple_return_ok)

definition empty_world :: "nat server_world" where
  "empty_world = (empty_runtime_store, (demo_vos, 1))"

definition sample_answer :: v1_chat_response where
  "sample_answer = \<lparr>vr_node_id = ''id-0:root'', vr_reply = ''answer'', vr_model = ''responses'', vr_provider = ''pool'', vr_usage = []\<rparr>"

definition chat_demo :: "(chat_answer \<times> nat server_world) option" where
  "chat_demo = handle_v1_chat ticking (enqueue_chat_node chat_gateways sample_files) (\<lambda>_. ''e'')
     (Some (tick_schedule chat_gateways sample_config)) calm chat_request_demo empty_world"

lemma chat_demo_answer: "map_option fst chat_demo = Some (ChatReply sample_answer)"
  by code_simp

theorem chat_answer_from_session_witness:
  "\<exists>w'. chat_demo = Some (ChatReply sample_answer, w') \<and>
     (\<exists>i e rest. session_log i (world_vos w') = e # rest \<and> is_user_message chat_request_demo e \<and>
       status_in i (world_vos w') = Some SessionStatusCompleted \<and>
       (length rest < 200 \<longrightarrow> ChatReply sample_answer = answer_of ''id-0:root'' (finish_turn (turn_after (e # rest) i))))"
proof -
  obtain w' where w': "chat_demo = Some (ChatReply sample_answer, w')" using chat_demo_answer by auto
  have ok: "db_ok (world_vos empty_world)"
    by (simp add: empty_world_def demo_vos_def db_ok_def sessions_ok_def empty_session_db_def)
  have "vr_node_id sample_answer = ''id-0:root''" by (simp add: sample_answer_def)
  then show ?thesis
    using w' chat_answer_from_session[OF ok chat_worker_appends calm_ok w'[unfolded chat_demo_def chat_gateways_def]] by metis
qed

section \<open>When a turn ends\<close>

definition tick_of :: "('c, unit) chat_op option \<Rightarrow> ('c, unit) chat_op" where
  "tick_of ticks = (case ticks of None \<Rightarrow> return_ok () | Some m \<Rightarrow> m)"

text \<open>The world whose status the poll of round \<open>k\<close> reads, and the world that round \<open>k + n\<close> starts in.\<close>

definition polled :: "('c, unit) chat_op option \<Rightarrow> 'c chat_env \<Rightarrow> nat \<Rightarrow> 'c server_world \<Rightarrow> 'c server_world" where
  "polled ticks env k w = en_between env k (snd (tick_of ticks w))"

fun round_start :: "('c, unit) chat_op option \<Rightarrow> 'c chat_env \<Rightarrow> nat \<Rightarrow> nat \<Rightarrow> 'c server_world \<Rightarrow> 'c server_world" where
  "round_start ticks env k 0 w = w"
| "round_start ticks env k (Suc n) w = round_start ticks env (k + 1) n (snd (en_wait env k (polled ticks env k w)))"

lemma with_sessions_query:
  assumes "with_sessions m s = (r, t)" and "\<And>d x d'. m d = (x, d') \<Longrightarrow> d' = d"
  shows "t = s"
proof (cases "vo_db s")
  case (Some d)
  obtain x d' where "m d = (x, d')" by fastforce
  then have "t = s\<lparr>vo_db := Some d\<rparr>" using assms Some by (auto simp: with_sessions_def)
  then show ?thesis using Some by (cases s) simp
qed (use assms(1) in \<open>simp add: with_sessions_def\<close>)

lemma require_query: "require_session_store s = (r, t) \<Longrightarrow> t = s"
  unfolding require_session_store_def by (erule with_sessions_query) (simp add: return_ok_def)

lemma list_query: "list_session_events i a n s = (r, t) \<Longrightarrow> t = s"
  unfolding list_session_events_def
  by (auto simp: return_err_def elim!: seq_cases split: if_splits dest!: require_query elim: with_sessions_query dest: session_queries_ok(2))

lemma get_query: "get_session i s = (r, t) \<Longrightarrow> t = s"
  unfolding get_session_def
  by (auto simp: return_err_def elim!: seq_cases split: if_splits dest!: require_query elim: with_sessions_query dest: session_queries_ok(1))

lemma on_vos_query: "on_vos m w = (r, w') \<Longrightarrow> (\<And>s q t. m s = (q, t) \<Longrightarrow> t = s) \<Longrightarrow> w' = w"
  by (cases w) (fastforce simp: on_vos_def split: prod.splits)

lemma get_session_status:
  assumes "get_session i s = (Inr r, t)"
  shows "status_in i s = Some (se_status r)"
  using assms
  by (auto simp: get_session_def get_session_row_def session_row_def require_session_store_def with_sessions_def return_ok_def
    return_err_def seq_def status_in_def session_normalized_def split: if_splits option.splits)

lemma chat_round_goes_on:
  assumes run: "chat_round ticks env k t w = (Inr (False, t'), w')"
  shows "w' = snd (en_wait env k (polled ticks env k w))" and "tu_session_id t' = tu_session_id t"
    and "status_in (tu_session_id t) (world_vos (polled ticks env k w)) \<notin> {Some SessionStatusCompleted, Some SessionStatusFailed}"
proof -
  obtain w1 w2 where w1: "tick_of ticks w = (Inr (), w1)" and poll: "poll_turn env k t w1 = (Inr (False, t'), w2)"
    and wait: "en_wait env k w2 = (Inr (), w')"
    using run unfolding chat_round_def tick_of_def by (auto simp: return_ok_def elim!: seq_cases split: if_splits)
  obtain es w3 se w4 where list: "on_vos (list_session_events (tu_session_id t) (tu_last_seq t) chat_poll_limit) w1 = (Inr es, w3)"
    and get: "on_vos (get_session (tu_session_id t)) (en_between env k w3) = (Inr se, w4)" and "w2 = w4"
    and t': "t' = fold note_event es t" and st: "se_status se \<noteq> SessionStatusCompleted" "se_status se \<noteq> SessionStatusFailed"
    using poll unfolding poll_turn_def Let_def
    by (auto simp: return_ok_def return_err_def elim!: seq_cases split: if_splits)
  have "w3 = w1" using on_vos_query[OF list] list_query by blast
  then have pw: "polled ticks env k w = en_between env k w3" using w1 by (simp add: polled_def)
  have "w4 = en_between env k w3" using on_vos_query[OF get] get_query by blast
  then show "w' = snd (en_wait env k (polled ticks env k w))" using wait \<open>w2 = w4\<close> pw by simp
  show "tu_session_id t' = tu_session_id t" by (simp add: t' fold_note_frame)
  show "status_in (tu_session_id t) (world_vos (polled ticks env k w)) \<notin> {Some SessionStatusCompleted, Some SessionStatusFailed}"
    using get_session_status[OF on_vos_Inr[OF get]] st unfolding pw by simp
qed

text \<open>
  C18. A turn returns, with a reply or an error, as soon as the poll of some round finds its session completed or failed; whatever
  the scheduler and others do before. (One whose session stays active is polled for as long as its context lives.)
\<close>

theorem chat_turn_returns:
  assumes "status_in (tu_session_id t) (world_vos (polled ticks env (k + n) (round_start ticks env k n w)))
    \<in> {Some SessionStatusCompleted, Some SessionStatusFailed}"
  shows "\<exists>r. wait_chat_turn ticks env k t w = Some r"
  using assms
proof (induction n arbitrary: k t w)
  case 0
  obtain r w1 where run: "chat_round ticks env k t w = (r, w1)" by (rule prod.exhaust)
  have "r \<noteq> Inr (False, t')" for t' using chat_round_goes_on(3)[of ticks env k t w t' w1] 0 run by auto
  then show ?case using run by (subst wait_chat_turn.simps) (cases w1; auto split: sum.split)
next
  case (Suc n)
  obtain r w1 where run: "chat_round ticks env k t w = (r, w1)" by (rule prod.exhaust)
  show ?case
  proof (cases "\<exists>t'. r = Inr (False, t')")
    case True
    then obtain t' where r: "r = Inr (False, t')" by blast
    note on = chat_round_goes_on[OF run[unfolded r]]
    have "\<exists>r. wait_chat_turn ticks env (k + 1) t' w1 = Some r" using Suc on(1,2) by simp
    then show ?thesis using run r by (subst wait_chat_turn.simps) simp
  next
    case False
    then show ?thesis using run by (subst wait_chat_turn.simps) (cases w1; auto split: sum.split)
  qed
qed

theorem chat_turn_returns_witness:
  "\<exists>r. wait_chat_turn (Some (tick_schedule chat_gateways sample_config)) calm 0 (new_turn ''id-1'')
     (snd (prepare_chat_turn ticking (enqueue_chat_node chat_gateways sample_files) (\<lambda>_. ''e'') chat_request_demo empty_world)) = Some r"
proof (rule chat_turn_returns[where n = 1])
  show "status_in (tu_session_id (new_turn ''id-1''))
    (world_vos (polled (Some (tick_schedule chat_gateways sample_config)) calm (0 + 1)
      (round_start (Some (tick_schedule chat_gateways sample_config)) calm 0 1
        (snd (prepare_chat_turn ticking (enqueue_chat_node chat_gateways sample_files) (\<lambda>_. ''e'') chat_request_demo empty_world)))))
    \<in> {Some SessionStatusCompleted, Some SessionStatusFailed}"
    by code_simp
qed

section \<open>What a turn does not read\<close>

text \<open>
  C19. A turn whose session is completed when it polls first returns what the first 200 events of the session give, however many
  there are: the page is not followed by another one once the status is read.
\<close>

theorem chat_turn_reads_one_page:
  assumes "i \<noteq> ''''" and "has_log i [] (world_vos w)" and "quiet env" and "status_in i (world_vos w) = Some SessionStatusCompleted"
  shows "wait_chat_turn None env k (new_turn i) w =
    Some (Inr (finish_turn (turn_after (take 200 (session_log i (world_vos w))) i)), en_between env k w)"
proof -
  have "world_vos (en_between env k w) = world_vos w" using assms(3) unfolding quiet_def by blast
  note poll = poll_turn_result[OF assms(2,1) this]
  have "chat_round None env k (new_turn i) w =
      (Inr (True, finish_turn (turn_after (take 200 (session_log i (world_vos w))) i)), en_between env k w)"
    using poll assms(4) by (simp add: chat_round_def seq_def return_ok_def)
  then show ?thesis by (subst wait_chat_turn.simps) simp
qed

text \<open>A session of 200 pieces of text and the message they end in: the message is the reply that is lost.\<close>

definition piece :: "int \<Rightarrow> session_event" where
  "piece k = \<lparr>ev_id = replicate (nat k) (CHR ''x''), ev_session_id = ''s'', ev_seq = k, ev_item_type = ''assistant_delta'',
     ev_provider_item_id = None, ev_role = None, ev_call_id = None, ev_payload_json = [(''delta'', JStr ''a'')], ev_created_at = 1\<rparr>"

definition final_message :: "int \<Rightarrow> session_event" where
  "final_message k = (piece k)\<lparr>ev_item_type := ''message'', ev_role := Some SessionRoleAssistant,
     ev_payload_json := [(''content'', JStr ''answer'')]\<rparr>"

definition long_db :: session_db where
  "long_db = \<lparr>db_sessions = [\<lparr>vos_session.se_id = ''s'', se_node_id = ''n'', se_status = SessionStatusCompleted, se_created_at = 1,
       se_updated_at = 1, se_last_seq = 201\<rparr>], db_events = map piece [1..200] @ [final_message 201]\<rparr>"

definition long_world :: "nat server_world" where
  "long_world = (empty_runtime_store, (demo_vos\<lparr>vo_db := Some long_db\<rparr>, 1))"

lemma piece_simps [simp]: "ev_session_id (piece k) = ''s''" "ev_seq (piece k) = k" "ev_item_type (piece k) = ''assistant_delta''"
  "ev_id (piece k) = replicate (nat k) (CHR ''x'')" "ev_session_id (final_message k) = ''s''" "ev_seq (final_message k) = k"
  "ev_item_type (final_message k) = ''message''" "ev_id (final_message k) = replicate (nat k) (CHR ''x'')"
  by (simp_all add: piece_def final_message_def)

lemma long_events: "events_of ''s'' long_db = map piece [1..200] @ [final_message 201]"
  by (simp add: events_of_def long_db_def filter_map comp_def)

lemma long_db_ok: "sessions_ok long_db"
proof -
  have "distinct (map ev_id (map piece [1..200]))"
    unfolding map_map comp_def piece_simps by (auto simp: distinct_map inj_on_def)
  moreover have "replicate 201 (CHR ''x'') \<noteq> replicate (nat k) (CHR ''x'')" if "k \<le> 200" for k
    using that by (auto dest: arg_cong[where f = length])
  ultimately have "distinct (map ev_id (db_events long_db))" by (auto simp: long_db_def)
  moreover have "map ev_seq (events_of ''s'' long_db) = [1..200] @ [201]" by (simp add: long_events comp_def)
  moreover have "[1..200] @ [201] = [1..201::int]" by (simp add: upto_rec2[of 1 201])
  ultimately show ?thesis
    by (auto simp: sessions_ok_def session_row_ok_def long_events long_db_def[THEN arg_cong[where f = db_sessions]]
      long_db_def[THEN arg_cong[where f = db_events]] sql_blank_def)
qed

lemma pieces_turn:
  "tu_assistant_buffer (fold note_event (map piece ks) t) = tu_assistant_buffer t @ replicate (length ks) (CHR ''a'') \<and>
   tu_reply (fold note_event (map piece ks) t) = tu_reply t"
proof (induction ks arbitrary: t)
  case (Cons k ks)
  have "note_event (piece k) t = t\<lparr>tu_last_seq := k, tu_assistant_buffer := tu_assistant_buffer t @ ''a''\<rparr>"
    by (simp add: note_event_def note_session_item_def piece_def read_optional_string_def trim_space_def is_space_def Let_def)
  then show ?case using Cons by simp
qed simp

theorem chat_turn_reads_one_page_witness:
  "\<exists>t. wait_chat_turn None calm 0 (new_turn ''s'') long_world = Some (Inr t, long_world) \<and>
     tu_reply t = replicate 200 (CHR ''a'') \<and> last (session_log ''s'' (world_vos long_world)) = final_message 201"
proof -
  have log: "session_log ''s'' (world_vos long_world) = map piece [1..200] @ [final_message 201]"
    by (simp add: session_log_def long_world_def long_events)
  have found: "find_session ''s'' long_db = Some \<lparr>vos_session.se_id = ''s'', se_node_id = ''n'', se_status = SessionStatusCompleted, se_created_at = 1,
       se_updated_at = 1, se_last_seq = 201\<rparr>"
    by (simp add: find_session_def long_db_def)
  then have has: "has_log ''s'' [] (world_vos long_world)"
    by (simp add: has_log_def long_world_def long_db_ok)
  have status: "status_in ''s'' (world_vos long_world) = Some SessionStatusCompleted"
    by (simp add: status_in_def long_world_def found)
  let ?t = "turn_after (map piece [1..200]) ''s''"
  have reply: "tu_assistant_buffer ?t = replicate 200 (CHR ''a'')" "tu_reply ?t = ''''"
    using pieces_turn[of "[1..200]" "new_turn ''s''"] by (simp_all add: new_turn_def)
  have "tu_reply (finish_turn ?t) = replicate 200 (CHR ''a'')" using reply by (simp add: finish_turn_def)
  moreover have "wait_chat_turn None calm 0 (new_turn ''s'') long_world = Some (Inr (finish_turn ?t), long_world)"
    using chat_turn_reads_one_page[OF _ has calm_ok(1) status, of 0] log by (simp add: calm_def)
  ultimately show ?thesis using log by simp
qed

end
