(* ===== verification/ChatRun.thy ===== *)
theory ChatRun
  imports Json "HOL-Library.Sublist"
begin

text \<open>
  The subscribers of a running chat (internal/vos/httpapi/chat.go, \<open>chatRun\<close>): one goroutine publishes events to the
  channels of any number of stream requests, which subscribe and unsubscribe while it runs, and closes them at its end.

  \<open>chat_run\<close> is the struct with the channels it has made, in the order they were made; a channel is its number there.
  \<open>unsubscribe\<close> and \<open>close\<close> take channels out of the map while they hold the mutex and close them after they have released
  it; \<open>cr_to_close\<close> holds the channels between the two, over all goroutines, and \<open>cr_to_cancel\<close> says that a call of
  \<open>close\<close> has not run the cancel function yet. What happens under the mutex is one action, so the sequences of actions are
  the interleavings of the goroutines. Go's panics on channels are values of \<open>chan_panic\<close>.
\<close>

section \<open>The run\<close>

record chat_run_event =
  ce_type :: string
  ce_payload :: json_object

record event_chan =
  ch_buffer :: "chat_run_event list"
  ch_is_closed :: bool

record chat_run =
  cr_invocation_id :: string
  cr_node_id :: string
  cr_session_id :: string
  cr_context_done :: bool
  cr_cancel :: bool
  cr_subscribers :: "(nat \<times> nat) list"
  cr_last_id :: nat
  cr_closed :: bool
  cr_channels :: "event_chan list"
  cr_to_close :: "nat list"
  cr_to_cancel :: bool

datatype chan_panic = SendOnClosedChannel | CloseOfClosedChannel

definition chan_capacity :: nat where "chan_capacity = 256"

definition new_chat_run :: "string \<Rightarrow> string \<Rightarrow> string \<Rightarrow> chat_run" where
  "new_chat_run invocation_id node_id session_id = \<lparr>cr_invocation_id = invocation_id, cr_node_id = node_id,
     cr_session_id = session_id, cr_context_done = False, cr_cancel = True, cr_subscribers = [], cr_last_id = 0,
     cr_closed = False, cr_channels = [], cr_to_close = [], cr_to_cancel = False\<rparr>"

text \<open>The identifier of the subscription and its channel, or nothing when the run is over.\<close>

definition subscribe :: "chat_run \<Rightarrow> (nat \<times> nat) option \<times> chat_run" where
  "subscribe r =
     (if cr_closed r then (None, r)
      else let sub_id = cr_last_id r + 1; c = length (cr_channels r) in
        (Some (sub_id, c), r\<lparr>cr_last_id := sub_id, cr_channels := cr_channels r @ [\<lparr>ch_buffer = [], ch_is_closed = False\<rparr>],
           cr_subscribers := cr_subscribers r @ [(sub_id, c)]\<rparr>))"

definition unsubscribe :: "nat \<Rightarrow> chat_run \<Rightarrow> chat_run" where
  "unsubscribe sub_id r = (case map_of (cr_subscribers r) sub_id of
       None \<Rightarrow> r
     | Some c \<Rightarrow> r\<lparr>cr_subscribers := AList.delete sub_id (cr_subscribers r), cr_to_close := cr_to_close r @ [c]\<rparr>)"

text \<open>A send that drops the event when the buffer is full (\<open>select\<close> with a default).\<close>

definition try_send :: "chat_run_event \<Rightarrow> nat \<Rightarrow> event_chan list \<Rightarrow> chan_panic + event_chan list" where
  "try_send e c cs =
     (if ch_is_closed (cs ! c) then Inl SendOnClosedChannel
      else if length (ch_buffer (cs ! c)) < chan_capacity then Inr (cs[c := (cs ! c)\<lparr>ch_buffer := ch_buffer (cs ! c) @ [e]\<rparr>])
      else Inr cs)"

fun send_all :: "chat_run_event \<Rightarrow> nat list \<Rightarrow> event_chan list \<Rightarrow> chan_panic + event_chan list" where
  "send_all e [] cs = Inr cs"
| "send_all e (c # ks) cs = and_then (try_send e c cs) (send_all e ks)"

definition publish :: "chat_run_event \<Rightarrow> chat_run \<Rightarrow> chan_panic + chat_run" where
  "publish e r =
     (if cr_closed r then Inr r
      else and_then (send_all e (map snd (cr_subscribers r)) (cr_channels r)) (\<lambda>cs. Inr (r\<lparr>cr_channels := cs\<rparr>)))"

definition close_run :: "chat_run \<Rightarrow> chat_run" where
  "close_run r =
     (if cr_closed r then r
      else r\<lparr>cr_closed := True, cr_cancel := False, cr_to_cancel := cr_cancel r, cr_subscribers := [],
             cr_to_close := cr_to_close r @ map snd (cr_subscribers r)\<rparr>)"

text \<open>The part of \<open>unsubscribe\<close> and \<open>close\<close> after the mutex, for one channel, and the cancellation of the context.\<close>

definition close_chan :: "nat \<Rightarrow> chat_run \<Rightarrow> chan_panic + chat_run" where
  "close_chan c r =
     (if ch_is_closed (cr_channels r ! c) then Inl CloseOfClosedChannel
      else Inr (r\<lparr>cr_channels := (cr_channels r)[c := (cr_channels r ! c)\<lparr>ch_is_closed := True\<rparr>],
             cr_to_close := remove1 c (cr_to_close r)\<rparr>))"

definition finish_cancel :: "chat_run \<Rightarrow> chat_run" where
  "finish_cancel r = (if cr_to_cancel r then r\<lparr>cr_context_done := True, cr_to_cancel := False\<rparr> else r)"

definition cancel_run :: "chat_run \<Rightarrow> chat_run" where
  "cancel_run r = (if cr_cancel r then r\<lparr>cr_context_done := True\<rparr> else r)"

text \<open>A stream request takes the next event of its channel.\<close>

definition receive :: "nat \<Rightarrow> chat_run \<Rightarrow> chat_run_event option \<times> chat_run" where
  "receive c r = (case ch_buffer (cr_channels r ! c) of
       [] \<Rightarrow> (None, r)
     | e # es \<Rightarrow> (Some e, r\<lparr>cr_channels := (cr_channels r)[c := (cr_channels r ! c)\<lparr>ch_buffer := es\<rparr>]\<rparr>))"

section \<open>Interleavings\<close>

text \<open>
  Any goroutine may act at any moment. An action that is not possible (a receive from a channel that does not exist or
  is empty, the close of a channel that no call is about to close) is a goroutine that waits, and changes nothing.
\<close>

datatype chat_action =
    Subscribe
  | Unsubscribe nat
  | Publish chat_run_event
  | CloseRun
  | CloseChan nat
  | FinishCancel
  | CancelRun
  | Receive nat

fun chat_act :: "chat_action \<Rightarrow> chat_run \<Rightarrow> chan_panic + chat_run" where
  "chat_act Subscribe r = Inr (snd (subscribe r))"
| "chat_act (Unsubscribe i) r = Inr (unsubscribe i r)"
| "chat_act (Publish e) r = publish e r"
| "chat_act CloseRun r = Inr (close_run r)"
| "chat_act (CloseChan c) r = (if c \<in> set (cr_to_close r) then close_chan c r else Inr r)"
| "chat_act FinishCancel r = Inr (finish_cancel r)"
| "chat_act CancelRun r = Inr (cancel_run r)"
| "chat_act (Receive c) r = Inr (if c < length (cr_channels r) then snd (receive c r) else r)"

fun chat_acts :: "chat_action list \<Rightarrow> chat_run \<Rightarrow> chan_panic + chat_run" where
  "chat_acts [] r = Inr r"
| "chat_acts (a # as) r = and_then (chat_act a r) (chat_acts as)"

inductive chat_step :: "chat_run \<Rightarrow> chat_run \<Rightarrow> bool" where
  act: "chat_act a r = Inr r' \<Longrightarrow> chat_step r r'"

inductive_cases chat_stepE: "chat_step r r'"

abbreviation waiting :: "nat \<Rightarrow> chat_run \<Rightarrow> chat_run_event list" where
  "waiting c r \<equiv> ch_buffer (cr_channels r ! c)"

section \<open>Every channel has one owner\<close>

definition is_open :: "chat_run \<Rightarrow> nat \<Rightarrow> bool" where
  "is_open r c \<longleftrightarrow> c < length (cr_channels r) \<and> \<not> ch_is_closed (cr_channels r ! c)"

definition owned :: "chat_run \<Rightarrow> nat list" where
  "owned r = map snd (cr_subscribers r) @ cr_to_close r"

text \<open>
  A channel is open exactly as long as a subscription or a call that is about to close it holds it, and one alone does.
\<close>

definition channels_ok :: "chat_run \<Rightarrow> bool" where
  "channels_ok r \<longleftrightarrow> distinct (owned r) \<and> (\<forall>c. c \<in> set (owned r) \<longleftrightarrow> is_open r c) \<and>
     distinct (map fst (cr_subscribers r)) \<and> (\<forall>i\<in>set (map fst (cr_subscribers r)). i \<le> cr_last_id r) \<and>
     (cr_closed r \<longrightarrow> cr_subscribers r = []) \<and>
     (\<forall>c<length (cr_channels r). length (ch_buffer (cr_channels r ! c)) \<le> chan_capacity)"

definition deliver :: "chat_run_event \<Rightarrow> event_chan \<Rightarrow> event_chan" where
  "deliver e ch = (if length (ch_buffer ch) < chan_capacity then ch\<lparr>ch_buffer := ch_buffer ch @ [e]\<rparr> else ch)"

lemma deliver_simps [simp]: "ch_is_closed (deliver e ch) = ch_is_closed ch"
  "length (ch_buffer ch) \<le> chan_capacity \<Longrightarrow> length (ch_buffer (deliver e ch)) \<le> chan_capacity"
  by (auto simp: deliver_def)

lemma send_all_open:
  assumes "distinct ks" and "\<forall>c\<in>set ks. c < length cs \<and> \<not> ch_is_closed (cs ! c)"
  shows "\<exists>cs'. send_all e ks cs = Inr cs' \<and> length cs' = length cs \<and>
    (\<forall>c<length cs. cs' ! c = (if c \<in> set ks then deliver e (cs ! c) else cs ! c))"
  using assms
proof (induction ks arbitrary: cs)
  case (Cons c ks)
  define cs1 where "cs1 = cs[c := deliver e (cs ! c)]"
  have sent: "try_send e c cs = Inr cs1"
    using Cons.prems(2) by (simp add: try_send_def cs1_def deliver_def)
  have "\<forall>k\<in>set ks. k < length cs1 \<and> \<not> ch_is_closed (cs1 ! k)"
    using Cons.prems by (auto simp: cs1_def nth_list_update)
  then obtain cs' where "send_all e ks cs1 = Inr cs'" "length cs' = length cs1"
    and "\<forall>k<length cs1. cs' ! k = (if k \<in> set ks then deliver e (cs1 ! k) else cs1 ! k)"
    using Cons.IH[of cs1] Cons.prems(1) by auto
  then show ?case using Cons.prems sent by (auto simp: cs1_def nth_list_update)
qed simp

definition subscribed :: "chat_run \<Rightarrow> nat \<Rightarrow> bool" where
  "subscribed r c \<longleftrightarrow> c \<in> snd ` set (cr_subscribers r)"

lemma subscribed_channels [simp]: "subscribed (r\<lparr>cr_channels := cs\<rparr>) = subscribed r"
  by (rule ext) (simp add: subscribed_def)

lemma subscribed_owned: "subscribed r c \<Longrightarrow> c \<in> set (owned r)"
  by (simp add: subscribed_def owned_def)

lemma publish_open:
  assumes "channels_ok r"
  shows "\<exists>cs. publish e r = Inr (r\<lparr>cr_channels := cs\<rparr>) \<and> length cs = length (cr_channels r) \<and>
    (\<forall>c<length cs. cs ! c = (if subscribed r c then deliver e (cr_channels r ! c) else cr_channels r ! c))"
proof (cases "cr_closed r")
  case True
  then have "cr_subscribers r = []" using assms by (simp add: channels_ok_def)
  then show ?thesis using True by (intro exI[of _ "cr_channels r"]) (simp add: publish_def subscribed_def)
next
  case False
  have "distinct (map snd (cr_subscribers r))" using assms by (simp add: channels_ok_def owned_def)
  moreover have "\<forall>c\<in>set (map snd (cr_subscribers r)). c < length (cr_channels r) \<and> \<not> ch_is_closed (cr_channels r ! c)"
  proof
    fix c assume "c \<in> set (map snd (cr_subscribers r))"
    then have "c \<in> set (owned r)" by (auto simp: owned_def)
    then show "c < length (cr_channels r) \<and> \<not> ch_is_closed (cr_channels r ! c)"
      using assms by (simp add: channels_ok_def is_open_def)
  qed
  ultimately obtain cs where "send_all e (map snd (cr_subscribers r)) (cr_channels r) = Inr cs" "length cs = length (cr_channels r)"
    "\<forall>c<length (cr_channels r). cs ! c = (if subscribed r c then deliver e (cr_channels r ! c) else cr_channels r ! c)"
    using send_all_open[of "map snd (cr_subscribers r)" "cr_channels r" e] unfolding subscribed_def by auto
  then show ?thesis using False by (intro exI[of _ cs]) (simp add: publish_def)
qed

lemma subscribe_keeps: "channels_ok r \<Longrightarrow> channels_ok (snd (subscribe r))"
  unfolding channels_ok_def
  by (auto simp: subscribe_def owned_def is_open_def nth_append Let_def chan_capacity_def)

lemma delete_subset: "set (AList.delete i xs) \<subseteq> set xs"
  by (auto simp: AList.delete_eq)

lemma delete_subscriber:
  assumes "distinct (map fst xs)" and "map_of xs i = Some c"
  shows "mset (map snd xs) = add_mset c (mset (map snd (AList.delete i xs)))"
  using assms
proof (induction xs)
  case (Cons x xs)
  then show ?case by (cases "fst x = i") (auto simp: delete_id map_of_eq_None_iff[symmetric] weak_map_of_SomeI)
qed simp

lemma unsubscribe_keeps:
  assumes ok: "channels_ok r"
  shows "channels_ok (unsubscribe i r)"
proof (cases "map_of (cr_subscribers r) i")
  case (Some c)
  have "mset (owned (unsubscribe i r)) = mset (owned r)"
    using ok delete_subscriber[OF _ Some] by (simp add: unsubscribe_def Some owned_def channels_ok_def)
  then have "distinct (owned (unsubscribe i r)) = distinct (owned r)" "set (owned (unsubscribe i r)) = set (owned r)"
    using mset_eq_imp_distinct_iff mset_eq_setD by blast+
  moreover have "is_open (unsubscribe i r) = is_open r" by (rule ext) (simp add: is_open_def unsubscribe_def Some)
  moreover have "set (AList.delete i (cr_subscribers r)) \<subseteq> set (cr_subscribers r)" by (rule delete_subset)
  ultimately show ?thesis using ok Some
    by (auto simp: channels_ok_def unsubscribe_def distinct_delete dest: subsetD)
qed (use ok in \<open>simp add: unsubscribe_def\<close>)

lemma close_chan_open:
  assumes ok: "channels_ok r" and c: "c \<in> set (cr_to_close r)"
  shows "\<exists>r'. close_chan c r = Inr r' \<and> channels_ok r'"
proof -
  have own: "c \<in> set (owned r)" "distinct (owned r)" using ok c by (auto simp: owned_def channels_ok_def)
  then have open_c: "is_open r c" using ok by (simp add: channels_ok_def)
  have "set (owned r) - {c} = set (map snd (cr_subscribers r) @ remove1 c (cr_to_close r))"
    "distinct (map snd (cr_subscribers r) @ remove1 c (cr_to_close r))"
    using own c by (auto simp: owned_def)
  then show ?thesis using ok open_c
    by (auto simp: close_chan_def channels_ok_def owned_def is_open_def nth_list_update)
qed

lemma close_run_keeps: "channels_ok r \<Longrightarrow> channels_ok (close_run r)"
  by (auto simp: close_run_def channels_ok_def owned_def is_open_def)

lemma receive_keeps:
  assumes ok: "channels_ok r" and c: "c < length (cr_channels r)"
  shows "channels_ok (snd (receive c r))"
proof (cases "waiting c r")
  case (Cons e es)
  let ?r = "snd (receive c r)"
  have r: "?r = r\<lparr>cr_channels := (cr_channels r)[c := (cr_channels r ! c)\<lparr>ch_buffer := es\<rparr>]\<rparr>"
    by (simp add: receive_def Cons)
  have "is_open ?r k = is_open r k" for k using c by (cases "k = c") (simp_all add: r is_open_def)
  moreover have "length (waiting k ?r) \<le> chan_capacity" if "k < length (cr_channels r)" for k
  proof -
    have "length (waiting k r) \<le> chan_capacity" using ok that by (simp add: channels_ok_def)
    then show ?thesis using Cons c by (auto simp: r nth_list_update)
  qed
  moreover have "owned ?r = owned r" by (simp add: r owned_def)
  ultimately show ?thesis using ok by (simp add: channels_ok_def) (simp add: r)
qed (use ok in \<open>simp add: receive_def\<close>)

lemma cancel_keeps: "channels_ok r \<Longrightarrow> channels_ok (cancel_run r)" "channels_ok r \<Longrightarrow> channels_ok (finish_cancel r)"
  by (simp_all add: cancel_run_def finish_cancel_def channels_ok_def owned_def is_open_def)

lemma publish_keeps:
  assumes ok: "channels_ok r"
  shows "\<exists>r'. publish e r = Inr r' \<and> channels_ok r'"
proof -
  obtain cs where r': "publish e r = Inr (r\<lparr>cr_channels := cs\<rparr>)" and len: "length cs = length (cr_channels r)"
    and cs: "\<forall>c<length cs. cs ! c = (if subscribed r c then deliver e (cr_channels r ! c) else cr_channels r ! c)"
    using publish_open[OF ok] by blast
  have "is_open (r\<lparr>cr_channels := cs\<rparr>) c = is_open r c" for c
    using len cs by (auto simp: is_open_def split: if_splits)
  moreover have "\<forall>c<length cs. length (ch_buffer (cs ! c)) \<le> chan_capacity" using ok len cs by (simp add: channels_ok_def)
  ultimately have "channels_ok (r\<lparr>cr_channels := cs\<rparr>)" using ok by (simp add: channels_ok_def owned_def)
  then show ?thesis using r' by blast
qed

lemma chat_act_keeps:
  assumes ok: "channels_ok r"
  shows "\<exists>r'. chat_act a r = Inr r' \<and> channels_ok r'"
  using ok by (cases a)
    (simp_all add: subscribe_keeps unsubscribe_keeps publish_keeps close_run_keeps close_chan_open cancel_keeps receive_keeps)

lemma new_run_ok: "channels_ok (new_chat_run k n s)"
  by (simp add: new_chat_run_def channels_ok_def owned_def is_open_def)

interpretation chat: transition_system "\<lambda>r. \<exists>k n s. r = new_chat_run k n s" chat_step channels_ok
proof
  fix r r' assume "channels_ok r" and "chat_step r r'"
  then show "channels_ok r'" by (elim chat_stepE) (metis Inr_inject chat_act_keeps)
qed (auto simp: new_run_ok)

lemma chat_acts_total:
  assumes "channels_ok r"
  shows "\<exists>r'. chat_acts as r = Inr r' \<and> channels_ok r'"
  using assms
proof (induction as arbitrary: r)
  case (Cons a as)
  obtain r1 where "chat_act a r = Inr r1" "channels_ok r1" using chat_act_keeps[OF Cons.prems] by blast
  then show ?case using Cons.IH by simp
qed simp

section \<open>What a subscriber receives\<close>

fun received :: "nat \<Rightarrow> chat_action list \<Rightarrow> chat_run \<Rightarrow> chat_run_event list" where
  "received c [] r = []"
| "received c (a # as) r =
     (if a = Receive c \<and> c < length (cr_channels r) then (case fst (receive c r) of None \<Rightarrow> [] | Some e \<Rightarrow> [e]) else []) @
     (case chat_act a r of Inl _ \<Rightarrow> [] | Inr r' \<Rightarrow> received c as r')"

text \<open>The events published up to the end of the run or of the subscription.\<close>

fun published :: "chat_action list \<Rightarrow> chat_run_event list" where
  "published [] = []"
| "published (a # as) = (case a of Publish e \<Rightarrow> [e] | _ \<Rightarrow> []) @ published as"

definition while_subscribed :: "nat \<Rightarrow> chat_action list \<Rightarrow> chat_action list" where
  "while_subscribed i as = takeWhile (\<lambda>a. a \<noteq> CloseRun \<and> a \<noteq> Unsubscribe i) as"

text \<open>A channel without a subscription gets no event any more.\<close>

lemma not_subscribed_act:
  assumes ok: "channels_ok r" and c: "c < length (cr_channels r)" "\<not> subscribed r c"
    and act: "chat_act a r = Inr r'"
  shows "c < length (cr_channels r') \<and> \<not> subscribed r' c \<and> received c [a] r @ waiting c r' = waiting c r"
proof (cases a)
  case (Publish e)
  then show ?thesis using publish_open[OF ok, of e] act c by auto
next
  case (Unsubscribe i)
  moreover have "set (AList.delete i (cr_subscribers r)) \<subseteq> set (cr_subscribers r)" by (rule delete_subset)
  ultimately show ?thesis using act c by (auto simp: unsubscribe_def subscribed_def split: option.splits)
next
  case (CloseChan k)
  then show ?thesis using act c by (cases "k = c") (auto simp: close_chan_def subscribed_def split: if_splits)
next
  case (Receive k)
  then show ?thesis using act c by (cases "k = c") (auto simp: receive_def subscribed_def split: if_splits list.splits)
qed (use act c in \<open>auto simp: subscribe_def close_run_def finish_cancel_def cancel_run_def Let_def subscribed_def
    nth_append split: if_splits\<close>)

lemma received_Cons: "chat_act a r = Inr r' \<Longrightarrow> received c (a # as) r = received c [a] r @ received c as r'"
  by simp

lemma not_subscribed_acts:
  assumes "channels_ok r" and "c < length (cr_channels r)" and "\<not> subscribed r c"
    and "chat_acts as r = Inr r'"
  shows "received c as r @ waiting c r' = waiting c r"
  using assms
proof (induction as arbitrary: r)
  case (Cons a as)
  obtain r1 where r1: "chat_act a r = Inr r1" "channels_ok r1" using chat_act_keeps[OF Cons.prems(1)] by blast
  then have "received c as r1 @ waiting c r' = waiting c r1"
    using not_subscribed_act[OF Cons.prems(1-3) r1(1)] Cons.IH[of r1] Cons.prems(4) by simp
  then show ?case using not_subscribed_act[OF Cons.prems(1-3) r1(1)] unfolding received_Cons[OF r1(1), of c as] by simp
qed simp

text \<open>One with a subscription gets each event that is published, unless it is full.\<close>

lemma subscribed_act:
  assumes ok: "channels_ok r" and c: "map_of (cr_subscribers r) i = Some c"
    and go: "a \<noteq> CloseRun" "a \<noteq> Unsubscribe i" and act: "chat_act a r = Inr r'"
  shows "map_of (cr_subscribers r') i = Some c" and
    "received c [a] r @ waiting c r' = (case a of
       Publish e \<Rightarrow> if length (waiting c r) < chan_capacity then waiting c r @ [e] else waiting c r
     | _ \<Rightarrow> waiting c r)"
proof -
  have mem: "(i, c) \<in> set (cr_subscribers r)" using c by (rule map_of_SomeD)
  then have "c \<in> set (owned r)" by (force simp: owned_def)
  then have len: "c < length (cr_channels r)" using ok by (simp add: channels_ok_def is_open_def)
  have le: "i \<le> cr_last_id r" using ok mem by (force simp: channels_ok_def)
  show "map_of (cr_subscribers r') i = Some c"
  proof (cases a)
    case (Publish e)
    then show ?thesis using act c publish_open[OF ok, of e] by auto
  qed (use act go c le in \<open>auto simp: subscribe_def unsubscribe_def close_chan_def finish_cancel_def
      cancel_run_def receive_def Let_def map_add_def delete_conv' split: if_splits list.splits option.splits\<close>)
  show "received c [a] r @ waiting c r' = (case a of
       Publish e \<Rightarrow> if length (waiting c r) < chan_capacity then waiting c r @ [e] else waiting c r
     | _ \<Rightarrow> waiting c r)"
  proof (cases a)
    case (Publish e)
    obtain cs where "publish e r = Inr (r\<lparr>cr_channels := cs\<rparr>)" "length cs = length (cr_channels r)"
      "\<forall>c<length cs. cs ! c = (if subscribed r c then deliver e (cr_channels r ! c) else cr_channels r ! c)"
      using publish_open[OF ok] by blast
    moreover have "subscribed r c" using mem by (force simp: subscribed_def)
    ultimately show ?thesis using Publish act len by (auto simp: deliver_def)
  next
    case (CloseChan k)
    then show ?thesis using act len by (cases "k = c") (auto simp: close_chan_def split: if_splits)
  next
    case (Receive k)
    then show ?thesis using act len by (cases "k = c") (auto simp: receive_def split: if_splits list.splits)
  qed (use act len in \<open>auto simp: subscribe_def unsubscribe_def close_run_def close_chan_def finish_cancel_def cancel_run_def
      receive_def Let_def nth_append nth_list_update split: if_splits list.splits option.splits\<close>)
qed

lemma end_of_subscription:
  assumes ok: "channels_ok r" and c: "map_of (cr_subscribers r) i = Some c" and stop: "a = CloseRun \<or> a = Unsubscribe i"
    and act: "chat_act a r = Inr r'"
  shows "c < length (cr_channels r') \<and> \<not> subscribed r' c \<and> received c [a] r @ waiting c r' = waiting c r"
proof -
  have "distinct (map snd (cr_subscribers r))" using ok by (auto simp: channels_ok_def owned_def)
  moreover have "mset (map snd (cr_subscribers r)) = mset (c # map snd (AList.delete i (cr_subscribers r)))"
    using ok delete_subscriber[OF _ c] by (simp add: channels_ok_def)
  ultimately have "distinct (c # map snd (AList.delete i (cr_subscribers r)))" using mset_eq_imp_distinct_iff by blast
  then have gone: "c \<notin> snd ` set (AList.delete i (cr_subscribers r))" by simp
  have "c \<in> set (owned r)" "cr_subscribers r \<noteq> []" using map_of_SomeD[OF c] by (force simp: owned_def)+
  then have len: "c < length (cr_channels r)" "\<not> cr_closed r" using ok by (auto simp: channels_ok_def is_open_def)
  then show ?thesis using stop
  proof (elim disjE)
    assume "a = Unsubscribe i"
    then show ?thesis using act c gone len by (auto simp: unsubscribe_def subscribed_def)
  next
    assume "a = CloseRun"
    then show ?thesis using act len by (auto simp: close_run_def subscribed_def)
  qed
qed

lemma subscribed_acts:
  assumes "channels_ok r" and "map_of (cr_subscribers r) i = Some c" and "chat_acts as r = Inr r'"
  shows "subseq (received c as r @ waiting c r') (waiting c r @ published (while_subscribed i as)) \<and>
    (length (waiting c r) + length (published (while_subscribed i as)) \<le> chan_capacity \<longrightarrow>
       received c as r @ waiting c r' = waiting c r @ published (while_subscribed i as))"
  using assms
proof (induction as arbitrary: r)
  case (Cons a as)
  obtain r1 where r1: "chat_act a r = Inr r1" "channels_ok r1" using chat_act_keeps[OF Cons.prems(1)] by blast
  have rest: "chat_acts as r1 = Inr r'" using Cons.prems(3) r1 by simp
  show ?case
  proof (cases "a = CloseRun \<or> a = Unsubscribe i")
    case True
    then have "received c as r1 @ waiting c r' = waiting c r1"
      using end_of_subscription[OF Cons.prems(1,2) True r1(1)] not_subscribed_acts[OF r1(2) _ _ rest] by blast
    then show ?thesis using True end_of_subscription[OF Cons.prems(1,2) True r1(1)] unfolding received_Cons[OF r1(1), of c as]
      by (auto simp: while_subscribed_def)
  next
    case False
    note step = subscribed_act[OF Cons.prems(1,2) _ _ r1(1)]
    note IH = Cons.IH[OF r1(2) step(1) rest]
    have ws: "while_subscribed i (a # as) = a # while_subscribed i as" using False by (simp add: while_subscribed_def)
    have got: "received c (a # as) r @ waiting c r' = received c [a] r @ (received c as r1 @ waiting c r')"
      unfolding received_Cons[OF r1(1), of c as] by simp
    let ?pub = "published (while_subscribed i as)"
    show ?thesis
    proof (cases "\<exists>e. a = Publish e")
      case True
      then obtain e where a: "a = Publish e" by blast
      then have w: "waiting c r1 = (if length (waiting c r) < chan_capacity then waiting c r @ [e] else waiting c r)"
        using step(2) False r1(1) by simp
      have "subseq (waiting c r1 @ ?pub) (waiting c r @ e # ?pub)"
        unfolding w by (auto intro: list_emb_append_mono)
      then have "subseq (received c as r1 @ waiting c r') (waiting c r @ e # ?pub)"
        using IH False subseq_order.order_trans by blast
      moreover have "received c [a] r = []" using a r1(1) by simp
      ultimately show ?thesis using IH w unfolding got ws by (auto simp: a)
    next
      case no_pub: False
      then have w: "received c [a] r @ waiting c r1 = waiting c r" "published [a] = []"
        using step(2) False by (auto split: chat_action.splits)
      define h where "h = received c [a] r"
      have h: "h @ waiting c r1 = waiting c r" using w(1) by (simp only: h_def)
      have pub: "published (a # while_subscribed i as) = ?pub" using w(2) by simp
      have whole: "waiting c r @ ?pub = h @ waiting c r1 @ ?pub" using h by (metis append_assoc)
      have len: "length (waiting c r1) \<le> length (waiting c r)" using arg_cong[OF h, of length] by simp
      have "subseq (h @ received c as r1 @ waiting c r') (h @ waiting c r1 @ ?pub)"
        using IH False by (auto intro: list_emb_append_mono)
      moreover have "received c as r1 @ waiting c r' = waiting c r1 @ ?pub" if "length (waiting c r) + length ?pub \<le> chan_capacity"
        using IH False that len by simp
      ultimately show ?thesis unfolding got ws pub whole h_def[symmetric] by simp
    qed
  qed
qed (simp add: while_subscribed_def)

section \<open>Claims\<close>

text \<open>
  C15. However the goroutines of a chat interleave, none of them sends on a closed channel or closes a channel twice (Go
  would stop the server with a panic). Once the run is over and the calls that close channels have returned, every channel
  is closed, so every stream request comes to its end.
\<close>

theorem chat_run_never_panics:
  "\<exists>r. chat_acts as (new_chat_run k n s) = Inr r \<and>
     (\<forall>c<length (cr_channels r). ch_is_closed (cr_channels r ! c) \<or> c \<in> set (cr_to_close r) \<or> \<not> cr_closed r)"
proof -
  obtain r where r: "chat_acts as (new_chat_run k n s) = Inr r" "channels_ok r"
    using chat_acts_total[OF new_run_ok] by blast
  then have "c \<in> set (cr_to_close r)" if "is_open r c" "cr_closed r" for c
    using that by (auto simp: channels_ok_def owned_def)
  then show ?thesis using r(1) by (auto simp: is_open_def)
qed

lemma subscribe_fresh:
  assumes "channels_ok r0" and "subscribe r0 = (Some (i, c), r)"
  shows "channels_ok r \<and> map_of (cr_subscribers r) i = Some c \<and> waiting c r = []"
proof -
  have "i = cr_last_id r0 + 1" "c = length (cr_channels r0)" "cr_subscribers r = cr_subscribers r0 @ [(i, c)]"
    "cr_channels r = cr_channels r0 @ [\<lparr>ch_buffer = [], ch_is_closed = False\<rparr>]"
    using assms(2) by (auto simp: subscribe_def Let_def split: if_splits)
  moreover have "map_of (cr_subscribers r0) (cr_last_id r0 + 1) = None"
    using assms(1) by (force simp: channels_ok_def map_of_eq_None_iff)
  ultimately show ?thesis using subscribe_keeps[OF assms(1)] assms(2) by (simp add: map_add_def)
qed

text \<open>
  C16. A stream request receives the events that are published while it is subscribed in the order they were published, none of
  them twice, in every interleaving; and it misses none if there are at most 256 of them. What it has not yet received waits
  in its channel.
\<close>

theorem chat_events_in_order:
  assumes "chat_acts earlier (new_chat_run k n s) = Inr r0" and "subscribe r0 = (Some (i, c), r1)"
    and "chat_acts as r1 = Inr r"
  shows "subseq (received c as r1 @ waiting c r) (published (while_subscribed i as)) \<and>
    (length (published (while_subscribed i as)) \<le> 256 \<longrightarrow>
       received c as r1 @ waiting c r = published (while_subscribed i as))"
proof -
  have "channels_ok r0" using chat_acts_total[OF new_run_ok] assms(1) by (metis Inr_inject)
  note sub = subscribe_fresh[OF this assms(2)]
  then show ?thesis using subscribed_acts[of r1 i c as r] assms(3) by (simp add: chan_capacity_def)
qed

definition sample_event :: "string \<Rightarrow> chat_run_event" where
  "sample_event t = \<lparr>ce_type = t, ce_payload = []\<rparr>"

definition sample_actions :: "chat_action list" where
  "sample_actions = [Publish (sample_event ''a''), Subscribe, Receive 1, Publish (sample_event ''b''), Unsubscribe 1, CloseChan 0,
     CloseRun, CloseChan 1, Publish (sample_event ''c''), Receive 1]"

theorem chat_events_in_order_witness:
  "\<exists>r0 r1 r. chat_acts [Subscribe] (new_chat_run ''i'' ''n'' ''s'') = Inr r0 \<and> subscribe r0 = (Some (2, 1), r1) \<and>
     chat_acts sample_actions r1 = Inr r \<and> published (while_subscribed 2 sample_actions) = [sample_event ''a'', sample_event ''b''] \<and>
     received 1 sample_actions r1 @ waiting 1 r = published (while_subscribed 2 sample_actions)"
proof -
  obtain r0 where r0: "chat_acts [Subscribe] (new_chat_run ''i'' ''n'' ''s'') = Inr r0" by simp
  moreover obtain r1 where r1: "subscribe r0 = (Some (2, 1), r1)"
    using r0 by (auto simp: subscribe_def new_chat_run_def Let_def)
  moreover have "channels_ok r1"
    using subscribe_fresh[of r0 2 1 r1] r1 chat_acts_total[OF new_run_ok, of "[Subscribe]" "''i''" "''n''" "''s''"] r0 by auto
  moreover from this obtain r where r: "chat_acts sample_actions r1 = Inr r" using chat_acts_total by blast
  moreover have "published (while_subscribed 2 sample_actions) = [sample_event ''a'', sample_event ''b'']"
    by (simp add: sample_actions_def while_subscribed_def)
  ultimately show ?thesis using chat_events_in_order[OF r0 r1 r] by auto
qed

theorem chat_run_never_panics_witness:
  "\<exists>r. chat_acts (Subscribe # Subscribe # sample_actions @ [CloseChan 2]) (new_chat_run ''i'' ''n'' ''s'') = Inr r \<and>
     cr_closed r \<and> length (cr_channels r) = 3 \<and> cr_to_close r = [] \<and> (\<forall>c<3. ch_is_closed (cr_channels r ! c))"
proof -
  obtain r where r: "chat_acts (Subscribe # Subscribe # sample_actions @ [CloseChan 2]) (new_chat_run ''i'' ''n'' ''s'') = Inr r"
    and ends: "\<forall>c<length (cr_channels r). ch_is_closed (cr_channels r ! c) \<or> c \<in> set (cr_to_close r) \<or> \<not> cr_closed r"
    using chat_run_never_panics by blast
  have "cr_closed r \<and> length (cr_channels r) = 3 \<and> cr_to_close r = []"
    using r by (auto simp: sample_actions_def new_chat_run_def subscribe_def unsubscribe_def publish_def try_send_def
        receive_def close_run_def close_chan_def chan_capacity_def Let_def)
  then show ?thesis using r ends by simp
qed

text \<open>
  A stream request whose channel is full loses what is published next, whatever it is: here the event that says how the
  chat ended.
\<close>

lemma full_channel_loses_event:
  assumes ok: "channels_ok r" and "map_of (cr_subscribers r) i = Some c" and "length (waiting c r) = 256"
    and "publish e r = Inr r'"
  shows "waiting c r' = waiting c r"
  using subscribed_act(2)[of r i c "Publish e" r'] assms by (simp add: chan_capacity_def)

end
