(* ===== verification/ChatInvoke.thy ===== *)
theory ChatInvoke
  imports ChatRun VosChatProps PoolTypes
begin

text \<open>
  A streamed chat (internal/vos/httpapi/chat.go): the goroutine that invokes a model for the run and stores the answer
  (\<open>startChatRun\<close>), the frames a stream request writes, and the request for the result of an invocation.

  The model's invocation is a parameter: what it hands to the stream sink while it runs, the answer or the text of its
  error, and what it does to the world. \<open>PoolGateway.invoke\<close> is that code of the program; it keeps another database.
\<close>

section \<open>The request\<close>

record v1_stream_request =
  sq_message :: string
  sq_history :: "json_object list"
  sq_system_prompt :: "string option"

definition history_item :: "json_object \<Rightarrow> json option" where
  "history_item entry = (let role = trim_space (read_optional_string entry ''role'');
       content = trim_space (read_optional_string entry ''content'') in
     if role = '''' \<or> content = '''' then None
     else if role \<noteq> ''user'' \<and> role \<noteq> ''assistant'' \<and> role \<noteq> ''system'' then None
     else Some (JObj [(''role'', JStr role), (''content'', JStr content)]))"

definition build_chat_responses_input :: "json_object list \<Rightarrow> string \<Rightarrow> json list" where
  "build_chat_responses_input history message = List.map_filter history_item history @
     [JObj [(''role'', JStr ''user''), (''content'', JStr (trim_space message))]]"

definition stream_request_payload :: "v1_stream_request \<Rightarrow> json_object" where
  "stream_request_payload q = [(''input'', JArr (build_chat_responses_input (sq_history q) (sq_message q))), (''stream'', JBool True)] @
     (if optional_trimmed (sq_system_prompt q) = '''' then []
      else [(''instructions'', JStr (optional_trimmed (sq_system_prompt q)))])"

definition stream_invoke_request :: "chat_run \<Rightarrow> v1_stream_request \<Rightarrow> invoke_request" where
  "stream_invoke_request r q = \<lparr>iq_request_id = ''chat-stream-'' @ cr_invocation_id r, iq_node_id = cr_node_id r,
     iq_request = stream_request_payload q, iq_chat_request = [], iq_timeout_ms = None,
     iq_route_policy = \<lparr>rp_api_id = None\<rparr>, iq_stream_sink = True\<rparr>"

section \<open>The answer\<close>

definition field_of :: "string \<Rightarrow> ('a \<Rightarrow> json) \<Rightarrow> 'a option \<Rightarrow> json_object" where
  "field_of k f v = (case v of None \<Rightarrow> [] | Some x \<Rightarrow> [(k, f x)])"

definition usage_to_map :: "usage_metrics option \<Rightarrow> json_object" where
  "usage_to_map usage = (case usage of
       None \<Rightarrow> []
     | Some u \<Rightarrow> (let count = (\<lambda>i::int. JNum (of_int i)) in
         field_of ''input_tokens'' count (us_input_tokens u) @ field_of ''output_tokens'' count (us_output_tokens u) @
         field_of ''total_tokens'' count (us_total_tokens u) @ field_of ''cached_input_tokens'' count (us_cached_input_tokens u) @
         field_of ''reasoning_tokens'' count (us_reasoning_tokens u) @ field_of ''latency_ms'' count (us_latency_ms u) @
         field_of ''cost_usd'' JNum (us_cost_usd u)))"

definition gateway_error_to_map :: "gateway_error option \<Rightarrow> json_object" where
  "gateway_error_to_map err = (case err of
       None \<Rightarrow> []
     | Some e \<Rightarrow> [(''code'', JStr (ge_code e)), (''technical_message'', JStr (ge_message e)), (''retryable'', JBool (ge_retryable e))] @
         field_of ''provider_status_code'' (\<lambda>i. JNum (of_int i)) (ge_provider_status_code e) @
         [(''details'', JObj (ge_details e))])"

definition normalize_output_content :: "json_object \<Rightarrow> json list" where
  "normalize_output_content response = (case as_array (field_or_nil response ''output'') of
       None \<Rightarrow> []
     | Some items \<Rightarrow> filter (\<lambda>v. as_object v \<noteq> None) items)"

definition route_fields :: "route_decision option \<Rightarrow> json_object" where
  "route_fields route = (case route of None \<Rightarrow> []
     | Some d \<Rightarrow> [(''model'', JStr (rd_model d)), (''provider'', JStr (rd_provider d))])"

definition response_reply :: "invoke_response \<Rightarrow> string" where
  "response_reply v = optional_trimmed (iv_output_text v)"

definition answer_event :: "chat_run \<Rightarrow> invoke_response \<Rightarrow> append_session_event_input" where
  "answer_event r v = message_event (cr_session_id r) SessionRoleAssistant
     ([(''output_text'', JStr (response_reply v)), (''usage'', JObj (usage_to_map (iv_usage v))),
       (''content'', JArr (normalize_output_content (iv_response v)))] @ route_fields (iv_route v)) ''completed''"

definition stream_failed_event :: "chat_run \<Rightarrow> string \<Rightarrow> append_session_event_input" where
  "stream_failed_event r text = message_event (cr_session_id r) SessionRoleSystem
     [(''error'', JObj [(''code'', JStr ''chat_stream_failed''), (''technical_message'', JStr text), (''details'', JObj [])])] ''failed''"

definition fatal_event :: "chat_run \<Rightarrow> string \<Rightarrow> chat_run_event" where
  "fatal_event r text = \<lparr>ce_type = ''fatal'', ce_payload = [(''invocation_id'', JStr (cr_invocation_id r)),
     (''status'', JStr ''failure''), (''code'', JStr ''chat_stream_failed''), (''technical_message'', JStr text), (''details'', JObj [])]\<rparr>"

definition reply_events :: "string \<Rightarrow> chat_run_event list" where
  "reply_events reply = (if reply = '''' then [] else [\<lparr>ce_type = ''assistant_done'', ce_payload = [(''reply'', JStr reply)]\<rparr>])"

definition summary_event :: "chat_run \<Rightarrow> invoke_response \<Rightarrow> chat_run_event" where
  "summary_event r v = \<lparr>ce_type = ''summary'', ce_payload = [(''invocation_id'', JStr (cr_invocation_id r)),
     (''status'', JStr ''success''), (''usage'', JObj (usage_to_map (iv_usage v)))] @ route_fields (iv_route v)\<rparr>"

section \<open>The goroutine\<close>

type_synonym 'c chat_invoker =
  "invoke_request \<Rightarrow> 'c server_world \<Rightarrow> chat_run_event list \<times> (string + invoke_response) \<times> 'c server_world"

text \<open>
  What it publishes, in order, and the world it leaves. The events of the sink are published as they come; whether the
  answer could be stored is not looked at. At its end it closes the run and takes it out of the server's table.
\<close>

definition start_chat_run ::
  "('c \<Rightarrow> time \<times> 'c) \<Rightarrow> 'c chat_invoker \<Rightarrow> chat_run \<Rightarrow> v1_stream_request \<Rightarrow> 'c server_world \<Rightarrow> chat_run_event list \<times> 'c server_world" where
  "start_chat_run clock invoker r q w = (case invoker (stream_invoke_request r q) w of
       (streamed, Inl text, w1) \<Rightarrow> (case on_vos_now clock (\<lambda>now. append_session_event now (stream_failed_event r text)) w1 of
           (_, w2) \<Rightarrow> (streamed @ [fatal_event r text], w2))
     | (streamed, Inr v, w1) \<Rightarrow> (case on_vos_now clock (\<lambda>now. append_session_event now (answer_event r v)) w1 of
           (_, w2) \<Rightarrow> (streamed @ reply_events (response_reply v) @ [summary_event r v], w2)))"

text \<open>The server's table of runs, by their identifiers.\<close>

definition set_chat_run :: "chat_run \<Rightarrow> chat_run table \<Rightarrow> chat_run table" where
  "set_chat_run r runs = put (cr_invocation_id r) r runs"

definition get_chat_run :: "string \<Rightarrow> chat_run table \<Rightarrow> chat_run option" where
  "get_chat_run i runs = map_of runs i"

definition remove_chat_run :: "string \<Rightarrow> chat_run table \<Rightarrow> chat_run table" where
  "remove_chat_run i runs = del i runs"

text \<open>\<open>handleV1ChatCancel\<close>: whether a run was told to stop.\<close>

definition handle_v1_chat_cancel :: "string \<Rightarrow> chat_run table \<Rightarrow> (vos_error + bool) \<times> chat_run table" where
  "handle_v1_chat_cancel raw runs = (let i = trim_space raw in
     if i = '''' then (Inl (vos_error.ValidationError ''invocation_id is required''), runs)
     else (case get_chat_run i runs of
         None \<Rightarrow> (Inr False, runs)
       | Some r \<Rightarrow> (Inr True, adjust i cancel_run runs)))"

section \<open>The frames of a stream request\<close>

record sse_emitter =
  se_turn_id :: string
  se_emitter_node_id :: string
  se_sequence :: int

record sse_frame =
  fr_event :: string
  fr_payload :: json_object

text \<open>\<open>withBase\<close> with one reading of the clock: the fields every frame has.\<close>

definition with_base :: "time \<Rightarrow> sse_emitter \<Rightarrow> json_object \<Rightarrow> json_object" where
  "with_base now em payload = put ''node_id'' (JStr (se_emitter_node_id em)) (put ''turn_id'' (JStr (se_turn_id em))
     (put ''ts'' (JStr (format_rfc3339_nano now)) (put ''event_id'' (JStr (se_turn_id em @ '':'' @ show_int (se_sequence em + 1))) payload)))"

definition emit :: "time \<Rightarrow> string \<Rightarrow> json_object \<Rightarrow> sse_emitter \<Rightarrow> sse_frame \<times> sse_emitter" where
  "emit now event_type payload em = (\<lparr>fr_event = event_type, fr_payload = with_base now em payload\<rparr>,
     em\<lparr>se_sequence := se_sequence em + 1\<rparr>)"

text \<open>The bytes of a frame; \<open>encode\<close> is the JSON encoder.\<close>

definition frame_text :: "(json_object \<Rightarrow> string) \<Rightarrow> sse_frame \<Rightarrow> string" where
  "frame_text encode f = ''event: '' @ fr_event f @ newline_text @ ''data: '' @ encode (fr_payload f) @ newline_text @ newline_text"

text \<open>A fatal event gets the fields it lacks and ends the stream.\<close>

definition fatal_payload :: "json_object \<Rightarrow> json_object" where
  "fatal_payload p0 =
     (let p1 = (if read_optional_string p0 ''technical_message'' = '''' then put ''technical_message'' (JStr ''chat stream failed'') p0 else p0);
          p2 = (if read_optional_string p1 ''code'' = '''' then put ''code'' (JStr ''chat_stream_failed'') p1 else p1)
      in if has_field p2 ''details'' then p2 else put ''details'' (JObj []) p2)"

fun emit_events :: "(nat \<Rightarrow> time) \<Rightarrow> nat \<Rightarrow> chat_run_event list \<Rightarrow> sse_emitter \<Rightarrow> sse_frame list" where
  "emit_events clock k [] em = []"
| "emit_events clock k (e # es) em =
     (if ce_type e = ''fatal'' then [fst (emit (clock k) ''fatal'' (fatal_payload (ce_payload e)) em)]
      else (case emit (clock k) (ce_type e) (ce_payload e) em of (f, em') \<Rightarrow> f # emit_events clock (k + 1) es em'))"

text \<open>\<open>handleV1ChatStream\<close> for a run whose channel gives the events \<open>es\<close> before it is closed (or the client goes).\<close>

definition stream_frames :: "(nat \<Rightarrow> time) \<Rightarrow> chat_run \<Rightarrow> chat_run_event list \<Rightarrow> sse_frame list" where
  "stream_frames clock r es = emit_events clock 0
     ([\<lparr>ce_type = ''phase'', ce_payload = [(''phase'', JStr ''reading_node'')]\<rparr>,
       \<lparr>ce_type = ''phase'', ce_payload = [(''phase'', JStr ''reasoning'')]\<rparr>,
       \<lparr>ce_type = ''invocation'', ce_payload = [(''invocation_id'', JStr (cr_invocation_id r))]\<rparr>] @ es)
     \<lparr>se_turn_id = cr_session_id r, se_emitter_node_id = cr_node_id r, se_sequence = 0\<rparr>"

section \<open>The result of an invocation\<close>

record v1_chat_result =
  rs_invocation_id :: string
  rs_node_id :: string
  rs_status :: invocation_status
  rs_reply :: string
  rs_model :: string
  rs_provider :: string
  rs_usage :: json_object
  rs_error :: json_object
  rs_finished_at :: "string option"

definition chat_result_of :: "invocation_record \<Rightarrow> v1_chat_result" where
  "chat_result_of r = \<lparr>rs_invocation_id = ir_invocation_id r, rs_node_id = iq_node_id (ir_request r), rs_status = ir_status r,
     rs_reply = optional_trimmed (ir_output_text r),
     rs_model = (case ir_route r of None \<Rightarrow> '''' | Some d \<Rightarrow> rd_model d),
     rs_provider = (case ir_route r of None \<Rightarrow> '''' | Some d \<Rightarrow> rd_provider d),
     rs_usage = usage_to_map (ir_usage r), rs_error = gateway_error_to_map (ir_error r),
     rs_finished_at = map_option format_rfc3339_nano (ti_finished_at (ir_timing r))\<rparr>"

text \<open>The statuses of the answer: a bad request, an unknown invocation, another error of the pool, or the result.\<close>

datatype chat_result_answer = ResultRefused int | ResultFound v1_chat_result

definition handle_v1_chat_result :: "(string \<Rightarrow> pool_error + invocation_record) \<Rightarrow> string \<Rightarrow> chat_result_answer" where
  "handle_v1_chat_result record_of raw = (let i = trim_space raw in
     if i = '''' then ResultRefused 400
     else (case record_of i of
         Inl e \<Rightarrow> ResultRefused (if contains (to_lower (error_text e)) ''invocation not found'' then 404 else 500)
       | Inr r \<Rightarrow> ResultFound (chat_result_of r)))"

section \<open>The outcome is stored and told\<close>

text \<open>Appending a message to a session there is succeeds when the identifier drawn for it is new.\<close>

definition fresh_draw :: "vos \<Rightarrow> bool" where
  "fresh_draw s \<longleftrightarrow> (case vo_db s of None \<Rightarrow> True | Some d \<Rightarrow> vo_ids s (vo_drawn s) \<notin> ev_id ` set (db_events d))"

lemma append_message_ok:
  assumes log: "has_log i es s" and i: "i \<noteq> ''''" and fresh: "fresh_draw s" and st: "parse_session_status text = Inr st"
  shows "\<exists>e t. append_session_event now (message_event i role payload text) s = (Inr e, t)"
proof -
  obtain d q where d: "vo_db s = Some d" "sessions_ok d" "find_session i d = Some q" using log by (auto simp: has_log_def)
  let ?e = "(new_event now (vo_ids s (vo_drawn s)) (Some role) (message_event i role payload text))\<lparr>ev_seq := se_last_seq q + 1\<rparr>"
  have q: "q \<in> set (db_sessions d)" "row_id q = i" using find_session_Some[OF d(3)] by auto
  then have row: "0 \<le> se_last_seq q" "map ev_seq (events_of i d) = [1..se_last_seq q]"
    using d(2) by (auto simp: sessions_ok_def session_row_ok_def)
  have "ev_seq x \<noteq> se_last_seq q + 1" if "x \<in> set (db_events d)" "ev_session_id x = i" for x
  proof -
    have "ev_seq x \<in> set (map ev_seq (events_of i d))" using that by (simp add: events_of_def)
    then show ?thesis unfolding row by simp
  qed
  moreover have "ev_id x \<noteq> vo_ids s (vo_drawn s)" if "x \<in> set (db_events d)" for x
    using fresh d(1) that by (simp add: fresh_draw_def) (metis image_eqI)
  ultimately have "\<not> violates_event_constraint ?e d" using row(1)
    by (auto simp: violates_event_constraint_def list_ex_iff new_event_def message_event_def sql_blank_def)
  then have "\<exists>row d'. append_event (new_event now (vo_ids s (vo_drawn s)) (Some role) (message_event i role payload text)) (Some st) d =
      (Inr (?e, row), d')"
    using d(3) by (simp add: append_event_def append_event_tx_def seq_def session_row_def insert_event_def write_session_def return_ok_def
      new_event_def message_event_def Let_def)
  then show ?thesis using d(1) i st
    by (auto simp: append_session_event_def message_event_def parse_optional_def parse_session_item_type_def is_tool_session_item_type_def
      require_session_store_def with_sessions_def return_ok_def of_result_def draw_id_def seq_def)
qed

lemma append_message_stored:
  assumes "has_log i es s" and "i \<noteq> ''''" and "fresh_draw s" and "parse_session_status text = Inr st"
    and "append_session_event now (message_event i role payload text) s = (r, t)"
  shows "status_in i t = Some st \<and> (\<exists>e. ev_role e = Some role \<and> session_log i t = session_log i s @ [e])"
proof -
  obtain e where r: "r = Inr e" using append_message_ok[OF assms(1-4), of now role payload] assms(5) by auto
  note app = assms(5)[unfolded r]
  show ?thesis using append_message_log(1,3,6)[OF assms(1) app] assms(4) by auto
qed

text \<open>The status and the role of the event an outcome is stored under, and the event it is told by.\<close>

fun outcome_status :: "string + invoke_response \<Rightarrow> session_status" where
  "outcome_status (Inl text) = SessionStatusFailed"
| "outcome_status (Inr v) = SessionStatusCompleted"

fun outcome_role :: "string + invoke_response \<Rightarrow> session_role" where
  "outcome_role (Inl text) = SessionRoleSystem"
| "outcome_role (Inr v) = SessionRoleAssistant"

fun outcome_event :: "string + invoke_response \<Rightarrow> string" where
  "outcome_event (Inl text) = ''fatal''"
| "outcome_event (Inr v) = ''summary''"

lemma on_vos_now_run: "on_vos_now clock m w = (r, w') \<Longrightarrow> \<exists>now q. m now (world_vos w) = (q, world_vos w')"
  by (cases w) (force simp: on_vos_now_def split: prod.splits dest: on_vos_world)

text \<open>
  C17. A streamed chat settles its session whatever the model answers: the run ends with one more event in the session, the
  assistant's answer and the status completed, or the error and the status failed; and the last event published says which.
\<close>

theorem chat_stream_settles:
  assumes "invoker (stream_invoke_request r q) w = (streamed, out, w1)" and "has_log (cr_session_id r) [] (world_vos w1)"
    and "cr_session_id r \<noteq> ''''" and "fresh_draw (world_vos w1)" and "start_chat_run clock invoker r q w = (es, w2)"
  shows "ce_type (last es) = outcome_event out \<and> prefix streamed es \<and>
    status_in (cr_session_id r) (world_vos w2) = Some (outcome_status out) \<and>
    (\<exists>e. ev_role e = Some (outcome_role out) \<and> session_log (cr_session_id r) (world_vos w2) = session_log (cr_session_id r) (world_vos w1) @ [e])"
proof (cases out)
  case (Inl msg)
  obtain x where app: "on_vos_now clock (\<lambda>now. append_session_event now (stream_failed_event r msg)) w1 = (x, w2)"
    and es: "es = streamed @ [fatal_event r msg]"
    using assms(1,5) Inl by (auto simp: start_chat_run_def split: prod.splits)
  obtain now y where "append_session_event now (stream_failed_event r msg) (world_vos w1) = (y, world_vos w2)"
    using on_vos_now_run[OF app] by blast
  from append_message_stored[OF assms(2-4) _ this[unfolded stream_failed_event_def], of SessionStatusFailed]
  show ?thesis by (simp add: es Inl fatal_event_def parse_session_status_def)
next
  case (Inr v)
  obtain x where app: "on_vos_now clock (\<lambda>now. append_session_event now (answer_event r v)) w1 = (x, w2)"
    and es: "es = streamed @ reply_events (response_reply v) @ [summary_event r v]"
    using assms(1,5) Inr by (auto simp: start_chat_run_def split: prod.splits)
  obtain now y where "append_session_event now (answer_event r v) (world_vos w1) = (y, world_vos w2)"
    using on_vos_now_run[OF app] by blast
  from append_message_stored[OF assms(2-4) _ this[unfolded answer_event_def], of SessionStatusCompleted]
  show ?thesis by (simp add: es Inr summary_event_def parse_session_status_def)
qed

definition demo_chat_run :: chat_run where
  "demo_chat_run = new_chat_run ''inv'' ''n'' ''s1''"

definition demo_invoker :: "string + invoke_response \<Rightarrow> nat chat_invoker" where
  "demo_invoker out q w = ([\<lparr>ce_type = ''assistant_delta'', ce_payload = [(''delta'', JStr ''a'')]\<rparr>], out, w)"

definition demo_stream_request :: v1_stream_request where
  "demo_stream_request = \<lparr>sq_message = ''hi'', sq_history = [], sq_system_prompt = None\<rparr>"

definition demo_response :: invoke_response where
  "demo_response = \<lparr>iv_invocation_id = ''p'', iv_request_id = ''q'', iv_node_id = ''n'', iv_status = InvocationStatusSuccess,
     iv_route = None, iv_response = [], iv_output_text = Some '' answer '', iv_usage = None,
     iv_timing = \<lparr>ti_started_at = 1, ti_finished_at = None, ti_latency_ms = None\<rparr>, iv_error = None\<rparr>"

definition stream_world :: "nat server_world" where
  "stream_world = (empty_runtime_store, (demo_machine, 1))"

lemma stream_world_log: "has_log ''s1'' [] (world_vos stream_world)" "fresh_draw (world_vos stream_world)"
proof -
  have "db_ok (world_vos stream_world)"
    unfolding stream_world_def demo_machine_def fst_conv snd_conv by (rule vos.reachable_inv[OF reachable_demo, THEN conjunct2])
  moreover have "\<exists>d q. vo_db (world_vos stream_world) = Some d \<and> find_session ''s1'' d = Some q \<and> db_events d = []"
  proof -
    have "(case vo_db demo_machine of None \<Rightarrow> False | Some d \<Rightarrow> find_session ''s1'' d \<noteq> None \<and> db_events d = [])" by code_simp
    then show ?thesis by (auto simp: stream_world_def split: option.splits)
  qed
  ultimately show "has_log ''s1'' [] (world_vos stream_world)" "fresh_draw (world_vos stream_world)"
    by (auto simp: has_log_def fresh_draw_def db_ok_def)
qed

theorem chat_stream_settles_witness:
  "\<exists>es w2. start_chat_run ticking (demo_invoker (Inr demo_response)) demo_chat_run demo_stream_request stream_world = (es, w2) \<and>
     ce_type (last es) = ''summary'' \<and> length es = 3 \<and> status_in ''s1'' (world_vos w2) = Some SessionStatusCompleted"
proof -
  obtain es w2 where run: "start_chat_run ticking (demo_invoker (Inr demo_response)) demo_chat_run demo_stream_request stream_world = (es, w2)"
    by (rule prod.exhaust)
  have "length es = 3"
    using run by (auto simp: start_chat_run_def demo_invoker_def reply_events_def response_reply_def demo_response_def optional_trimmed_def
      trim_space_def is_space_def split: prod.splits)
  moreover have "cr_session_id demo_chat_run = ''s1''" by (simp add: demo_chat_run_def new_chat_run_def)
  ultimately show ?thesis
    using chat_stream_settles[OF demo_invoker_def _ _ _ run] run stream_world_log by simp
qed

lemma emit_events_last:
  "es \<noteq> [] \<Longrightarrow> ce_type (last es) \<in> S \<Longrightarrow> ''fatal'' \<in> S \<Longrightarrow>
   emit_events clock k es em \<noteq> [] \<and> fr_event (last (emit_events clock k es em)) \<in> S"
  by (induction es arbitrary: k em) (auto simp: emit_def split: if_splits)

lemma event_id_with_base:
  "map_of (with_base now em p) ''event_id'' = Some (JStr (se_turn_id em @ '':'' @ show_int (se_sequence em + 1)))"
  by (simp add: with_base_def table_simps)

lemma emit_events_numbered:
  "j < length (emit_events clock k es em) \<Longrightarrow> map_of (fr_payload (emit_events clock k es em ! j)) ''event_id'' =
     Some (JStr (se_turn_id em @ '':'' @ show_int (se_sequence em + int j + 1)))"
proof (induction es arbitrary: j k em)
  case (Cons e es)
  show ?case
  proof (cases "ce_type e = ''fatal''")
    case True
    then show ?thesis using Cons.prems by (simp add: emit_def event_id_with_base)
  next
    case False
    then show ?thesis using Cons
      by (cases j) (simp_all add: emit_def event_id_with_base algebra_simps)
  qed
qed simp

text \<open>
  C20. A stream request that follows a chat to its end and does not fall more than 256 events behind is told the outcome: its
  last frame is the summary or a fatal error, and its frames carry the numbers 1, 2, 3, ... after the identifier of the session.
\<close>

theorem chat_stream_tells_outcome:
  assumes "chat_acts earlier (new_chat_run k n s) = Inr r0" and "subscribe r0 = (Some (i, c), r1)" and "chat_acts as r1 = Inr r"
    and "published (while_subscribed i as) = fst (start_chat_run clock invoker run q w)"
    and "length (published (while_subscribed i as)) \<le> 256" and "waiting c r = []"
    and "stream_frames read_clock_at run (received c as r1) = frames"
  shows "fr_event (last frames) \<in> {''summary'', ''fatal''} \<and> (\<forall>j<length frames.
    map_of (fr_payload (frames ! j)) ''event_id'' = Some (JStr (cr_session_id run @ '':'' @ show_int (int j + 1))))"
proof -
  note frames_def = assms(7)[symmetric]
  have "channels_ok r0" using chat_acts_total[OF new_run_ok] assms(1) by (metis Inr_inject)
  note sub = subscribe_fresh[OF this assms(2)]
  have got: "received c as r1 = fst (start_chat_run clock invoker run q w)"
    using subscribed_acts[of r1 i c as r] sub assms(3-6) by (simp add: chan_capacity_def)
  have "received c as r1 \<noteq> [] \<and> ce_type (last (received c as r1)) \<in> {''summary'', ''fatal''}"
    unfolding got by (auto simp: start_chat_run_def fatal_event_def summary_event_def split: prod.splits sum.splits)
  then have "fr_event (last frames) \<in> {''summary'', ''fatal''}"
    unfolding frames_def stream_frames_def by (intro emit_events_last[THEN conjunct2]) auto
  moreover have "\<forall>j<length frames. map_of (fr_payload (frames ! j)) ''event_id'' =
      Some (JStr (cr_session_id run @ '':'' @ show_int (int j + 1)))"
    unfolding frames_def stream_frames_def by (auto simp: emit_events_numbered simp del: emit_events.simps append.simps)
  ultimately show ?thesis by blast
qed

definition demo_events :: "chat_run_event list" where
  "demo_events = [\<lparr>ce_type = ''assistant_delta'', ce_payload = [(''delta'', JStr ''a'')]\<rparr>,
     \<lparr>ce_type = ''assistant_done'', ce_payload = [(''reply'', JStr ''answer'')]\<rparr>, summary_event demo_chat_run demo_response]"

lemma demo_events_published:
  "fst (start_chat_run ticking (demo_invoker (Inr demo_response)) demo_chat_run demo_stream_request stream_world) = demo_events"
  by (simp add: start_chat_run_def demo_invoker_def reply_events_def response_reply_def demo_response_def optional_trimmed_def
    trim_space_def is_space_def demo_events_def split: prod.splits)

definition demo_actions :: "chat_action list" where
  "demo_actions = map Publish demo_events @ [CloseRun, CloseChan 0, Receive 0, Receive 0, Receive 0]"

theorem chat_stream_tells_outcome_witness:
  "\<exists>r1 r. subscribe demo_chat_run = (Some (1, 0), r1) \<and> chat_acts demo_actions r1 = Inr r \<and> received 0 demo_actions r1 = demo_events \<and>
     fr_event (last (stream_frames int demo_chat_run (received 0 demo_actions r1))) = ''summary''"
proof -
  obtain r1 where r1: "subscribe demo_chat_run = (Some (1, 0), r1)"
    by (auto simp: subscribe_def demo_chat_run_def new_chat_run_def Let_def)
  have start: "chat_acts [] (new_chat_run ''inv'' ''n'' ''s1'') = Inr demo_chat_run" by (simp add: demo_chat_run_def)
  have "case subscribe demo_chat_run of (_, r1) \<Rightarrow> (case chat_acts demo_actions r1 of Inl _ \<Rightarrow> False
      | Inr r \<Rightarrow> waiting 0 r = [] \<and> received 0 demo_actions r1 = demo_events) \<and>
      ce_type (last (received 0 demo_actions r1)) = ''summary'' \<and>
      fr_event (last (stream_frames int demo_chat_run (received 0 demo_actions r1))) \<noteq> ''fatal''" by code_simp
  then obtain r where r: "chat_acts demo_actions r1 = Inr r" "waiting 0 r = []" "received 0 demo_actions r1 = demo_events"
    and no: "fr_event (last (stream_frames int demo_chat_run (received 0 demo_actions r1))) \<noteq> ''fatal''"
    using r1 by (auto split: sum.splits)
  have pub: "published (while_subscribed 1 demo_actions) = demo_events"
    by (simp add: demo_actions_def demo_events_def while_subscribed_def)
  have "length (published (while_subscribed 1 demo_actions)) \<le> 256" unfolding pub by (simp add: demo_events_def)
  from chat_stream_tells_outcome[OF start r1 r(1) pub[folded demo_events_published] this r(2) refl, of int]
  show ?thesis using r1 r(1,3) no by blast
qed

end
