(* ===== verification/Spec2Isabelle.thy ===== *)
theory Spec2Isabelle
  imports PoolGatewayProps PoolProviders SqliteRetry DirectGateway VosFile VosMemoryProps VosTurns ChatInvoke
begin

text \<open>
  OpenMate's Go programs (src/internal): a scheduler of agent work, a pool of language models, and VOS, the tree of
  topics and nodes the agents work on. Each keeps its own SQLite database or state file.

  \<^bold>\<open>The parts and how they interact.\<close> The scheduler (schedule) keeps a queue of the nodes of each topic. A tick selects a
  topic, plans which nodes may start, and for each of them asks VOS for a session, records the authorisation there, runs a
  worker and stores what it answered. VOS (vos) keeps the topics, their nodes and processes in a JSON file, and the sessions with
  their events in a database. The pool (poolgateway) invokes models on behalf of the agents, with limits on concurrency,
  retries, and a record of every attempt.

  \<^bold>\<open>Shared.\<close> Prelude: Go's \<open>(value, error)\<close> results as sums, \<open>strings.TrimSpace\<close>, \<open>sort.Slice\<close> (locale \<open>sort_order\<close>), tables of
  rows with \<open>update_where\<close>, and \<open>transition_system\<close>, reachable states and their invariants. ResultState: operations that
  return a value or an error and keep what was written before it, transactions, triples and the rules of \<open>keeps\<close>. Json:
  decoded JSON values and maps with string keys. GoTime: printing a time in RFC 3339 and reading one. SqliteRetry
  (internal/store/sqliteutil): opening a database, the text of a busy error and the loop that tries again.

  \<^bold>\<open>Scheduler.\<close> SchedTypes (types.go, contracts.go), Planner (planner.go) with its specification \<open>plan_order\<close>, RunStore
  (runtime_store.go, one definition per statement and per operation) with its invariant \<open>rows_ok\<close> in RunStoreInv and the
  behaviour of the operations in RunStoreProps, Engine (engine.go: enqueue and tick over arbitrary gateways) and EngineProps:
  what a tick serves, starts, changes and leaves behind, whatever the gateways answer and wherever it stops.

  \<^bold>\<open>Pool.\<close> PoolTypes (types.go, errors.go, retry.go, usage.go, pricing.go, openai_responses.go), PoolConfig (config.go),
  PoolStore (store.go, every transaction), PoolStoreInv (the invariant, kept by every step), PoolStoreProps (accounting of
  leases, limits, refusals, refinement of the abstract set of open leases \<open>lease_spec\<close>), PoolGateway (gateway.go) and
  PoolGatewayProps: an invocation settles whatever the provider and concurrent users of the database do. PoolPayload is the
  body of a provider's request and the message in its error, PoolStream the server-sent events of its answer (frames, text
  and the fragments of tool calls), PoolProviders (providers.go) the providers on an arbitrary HTTP exchange.

  \<^bold>\<open>VOS.\<close> VosTypes (domain), VosStore (store/json_store.go and store/session_store.go: \<open>vos\<close> is the file, the database,
  the identifiers still to draw and the faults the disk will show), VosService (service/service.go), VosSessions
  (session_service.go and the invariant \<open>sessions_ok\<close> of the database), VosContext (context_service.go), VosDecompose
  (decompose_service.go). VosForest is the abstract contract of topics and nodes, a forest changed by five kinds of
  \<open>forest_step\<close>; VosTree shows that every operation refines it (\<open>evolves\<close>). VosProps puts the commands together into one
  transition system, VosAtomic shows what a failed command leaves behind, VosClaims what a successful one does, VosFile that
  a load gives back what a save wrote. VosPermission and VosGrants (permission_service.go and store/permission_store.go) hold
  the permissions of a topic and of users, the audit of the decisions and its summary; VosMemory and VosMemoryProps
  (memory_service.go and compaction_service.go) the compaction of sessions into proposals a user decides.

  \<^bold>\<open>Chat.\<close> ChatRun (httpapi/chat.go, \<open>chatRun\<close>) is the broker between the goroutine of an answer and the readers of its stream:
  each section under the mutex and each step outside of it is an action, and the theorems range over every interleaving.
  VosMessages (httpapi/server.go) is what the API reads from events and queries, VosChat the turn of a chat: its topic, node
  and session, the queue, and the loop that waits for the scheduler. VosChatProps and VosTurns show that an answer comes from
  the events of the chat's own session and when the loop returns; ChatInvoke is the streamed chat, on an arbitrary model.

  \<^bold>\<open>Scheduler and VOS.\<close> DirectGateway (direct_vos_gateway.go) puts the engine on top of the VOS service: a tick changes VOS by
  commands only, so the invariants of both hold together. The locale \<open>world_invariant\<close> is the interface: what every gateway
  call keeps, a tick keeps.

  \<^bold>\<open>Loops.\<close> The retry loop of an invocation is bounded by the retry policy (a measure on the attempts left), reading a
  session in pages by the events beyond the last one read; both are total functions. The walk of a move from the new parent to
  the root is a \<open>partial_function\<close>, since a cycle of parents in the file would keep it going forever; that it returns
  on every state the service can have written is a theorem. The loop that waits for a chat is one too, because a session that
  stays active is polled for ever; \<open>chat_turn_returns\<close> says that it returns once the session ends. The retry on a busy database
  is bounded by its attempts, and the loops over a stream are recursive in its lines. No fuel is used.

  \<^bold>\<open>Conventions.\<close> Columns and files are kept decoded (JSON, RFC 3339 times), because each is written by an encoder and read by its
  inverse; an operation that stamps times takes one clock reading. Strings are lists of characters, and \<open>TrimSpace\<close> cuts ASCII white
  space. A Go map is a table with distinct keys, read in the order of the table where Go's order is arbitrary; nil and
  empty maps are the same except where the code tells them apart. A \<open>float64\<close> is the rational it stands for, with the
  rounding of an operation as a parameter. What lies outside of the programs is a parameter: the worker and the planner of
  priorities, the HTTP exchange of a provider and the encoder and parser of its JSON, the model that answers a streamed chat,
  clocks, contexts, other users of a database (also those that write while a chat waits), and the agents that decompose a node
  or compact a session.

  \<^bold>\<open>Not modelled.\<close> Failures of SQL other than violated constraints and a busy database, and the migration of schemas;
  logging; the shell gateways, which run external programs; the command lines and the routes of the HTTP API other than the
  chat, which parse requests for the operations modelled here and print their results; the monitor of tools; the Python and
  TypeScript parts.
\<close>

end
